(* ===== verification/Prelude.thy ===== *)
theory Prelude
  imports Main "HOL-Library.Word" "HOL-Library.Monad_Syntax"
begin

text \<open>
  Shared vocabulary of the development: the C integer types at their width, bytes and
  strings, byte order, and array accesses that fail outside the array.

  A C array is a list of its declared length. A read or write outside it is undefined
  behaviour in C; the models return \<open>None\<close> there (type \<open>'a option\<close>), so that a theorem
  "the result is \<open>Some\<close>" is a memory-safety statement. The host is little-endian, as the
  x86, ARM and MIPSel targets of the program are.
\<close>

unbundle bit_operations_syntax

type_synonym u8 = "8 word"
type_synonym u16 = "16 word"
type_synonym u32 = "32 word"
type_synonym u64 = "64 word"
type_synonym bytes = "u8 list"

named_theorems access_simps \<open>array reads and writes inside the array\<close>
named_theorems byte_simps \<open>byte order and byte strings\<close>

subsection \<open>Strings as bytes\<close>

definition str :: "string \<Rightarrow> bytes" where
  "str s = map of_char s"

definition chr8 :: "char \<Rightarrow> u8" where
  "chr8 c = of_char c"

lemma length_str [simp]: "length (str s) = length s"
  by (simp add: str_def)

lemma str_Nil [simp]: "str [] = []"
  by (simp add: str_def)

lemma str_Cons [byte_simps]: "str (c # s) = of_char c # str s"
  by (simp add: str_def)

lemma str_append [byte_simps]: "str (s @ t) = str s @ str t"
  by (simp add: str_def)

subsection \<open>Checked array accesses\<close>

definition aget :: "'a list \<Rightarrow> nat \<Rightarrow> 'a option" where
  "aget xs i = (if i < length xs then Some (xs ! i) else None)"

definition aset :: "'a list \<Rightarrow> nat \<Rightarrow> 'a \<Rightarrow> 'a list option" where
  "aset xs i x = (if i < length xs then Some (xs[i := x]) else None)"

lemma aget_in [access_simps]: "i < length xs \<Longrightarrow> aget xs i = Some (xs ! i)"
  by (simp add: aget_def)

lemma aset_in [access_simps]: "i < length xs \<Longrightarrow> aset xs i x = Some (xs[i := x])"
  by (simp add: aset_def)

lemma aget_out: "length xs \<le> i \<Longrightarrow> aget xs i = None"
  by (simp add: aget_def)

lemma aset_out: "length xs \<le> i \<Longrightarrow> aset xs i x = None"
  by (simp add: aset_def)

lemma aget_SomeD: "aget xs i = Some y \<Longrightarrow> i < length xs \<and> y = xs ! i"
  by (simp add: aget_def split: if_splits)

lemma aset_SomeD: "aset xs i x = Some ys \<Longrightarrow> i < length xs \<and> ys = xs[i := x]"
  by (simp add: aset_def split: if_splits)

lemma aset_length: "aset xs i x = Some ys \<Longrightarrow> length ys = length xs"
  by (auto dest: aset_SomeD)

text \<open>\<open>memcpy\<close> into an array: the whole block must lie inside it.\<close>

definition ablit :: "'a list \<Rightarrow> nat \<Rightarrow> 'a list \<Rightarrow> 'a list option" where
  "ablit xs i ys =
     (if i + length ys \<le> length xs then Some (take i xs @ ys @ drop (i + length ys) xs) else None)"

lemma ablit_length: "ablit xs i ys = Some zs \<Longrightarrow> length zs = length xs"
  by (auto simp: ablit_def split: if_splits)

lemma ablit_in [access_simps]:
  "i + length ys \<le> length xs \<Longrightarrow>
   ablit xs i ys = Some (take i xs @ ys @ drop (i + length ys) xs)"
  by (simp add: ablit_def)

subsection \<open>Byte order\<close>

definition le16 :: "u16 \<Rightarrow> bytes" where
  "le16 x = [ucast x, ucast (drop_bit 8 x)]"

definition le32 :: "u32 \<Rightarrow> bytes" where
  "le32 x = [ucast x, ucast (drop_bit 8 x), ucast (drop_bit 16 x), ucast (drop_bit 24 x)]"

definition be16 :: "u16 \<Rightarrow> bytes" where
  "be16 x = [ucast (drop_bit 8 x), ucast x]"

definition be32 :: "u32 \<Rightarrow> bytes" where
  "be32 x = [ucast (drop_bit 24 x), ucast (drop_bit 16 x), ucast (drop_bit 8 x), ucast x]"

definition of_le16 :: "bytes \<Rightarrow> u16" where
  "of_le16 bs = ucast (bs ! 0) OR push_bit 8 (ucast (bs ! 1))"

definition of_le32 :: "bytes \<Rightarrow> u32" where
  "of_le32 bs = ucast (bs ! 0) OR push_bit 8 (ucast (bs ! 1)) OR push_bit 16 (ucast (bs ! 2))
     OR push_bit 24 (ucast (bs ! 3))"

definition of_be16 :: "bytes \<Rightarrow> u16" where
  "of_be16 bs = of_le16 (rev (take 2 bs))"

definition of_be32 :: "bytes \<Rightarrow> u32" where
  "of_be32 bs = of_le32 (rev (take 4 bs))"

text \<open>\<open>htons\<close>, \<open>htonl\<close> (and \<open>ntohs\<close>, \<open>ntohl\<close>) of a little-endian host swap the bytes.\<close>

definition htons :: "u16 \<Rightarrow> u16" where
  "htons x = of_le16 (be16 x)"

definition htonl :: "u32 \<Rightarrow> u32" where
  "htonl x = of_le32 (be32 x)"

lemma length_le16 [simp]: "length (le16 x) = 2"
  by (simp add: le16_def)

lemma length_le32 [simp]: "length (le32 x) = 4"
  by (simp add: le32_def)

lemma length_be16 [simp]: "length (be16 x) = 2"
  by (simp add: be16_def)

lemma length_be32 [simp]: "length (be32 x) = 4"
  by (simp add: be32_def)

lemma of_le16_le16 [byte_simps]: "of_le16 (le16 x @ bs) = x"
  by (auto simp: of_le16_def le16_def bit_simps intro!: bit_word_eqI)

lemma of_le32_le32 [byte_simps]: "of_le32 (le32 x @ bs) = x"
proof (rule bit_word_eqI)
  fix n assume "n < LENGTH(32)"
  then consider "n < 8" | "8 \<le> n" "n < 16" | "16 \<le> n" "n < 24" | "24 \<le> n" "n < 32"
    by fastforce
  then show "bit (of_le32 (le32 x @ bs)) n = bit x n"
    by cases (auto simp: of_le32_def le32_def bit_simps)
qed

lemma bit_of_le32:
  "n < 8 \<Longrightarrow> bit (of_le32 bs) n = bit (bs ! 0) n"
  "n < 8 \<Longrightarrow> bit (of_le32 bs) (8 + n) = bit (bs ! 1) n"
  "n < 8 \<Longrightarrow> bit (of_le32 bs) (16 + n) = bit (bs ! 2) n"
  "n < 8 \<Longrightarrow> bit (of_le32 bs) (24 + n) = bit (bs ! 3) n"
  by (auto simp: of_le32_def bit_simps dest: bit_imp_le_length)

lemma le32_of_le32: "le32 (of_le32 [a, b, c, d]) = [a, b, c, d]"
  by (auto simp: le32_def bit_simps bit_of_le32 [of _ "[a, b, c, d]"] intro!: bit_word_eqI)

lemma le16_of_le16: "le16 (of_le16 [a, b]) = [a, b]"
proof -
  have "ucast (drop_bit (8 * i) (of_le16 [a, b])) = [a, b] ! i" if "i < 2" for i
  proof (rule bit_word_eqI)
    fix n assume "n < LENGTH(8)"
    moreover from that have "i = 0 \<or> i = 1" by auto
    ultimately show "bit (ucast (drop_bit (8 * i) (of_le16 [a, b])) :: u8) n = bit ([a, b] ! i) n"
      by (auto simp: of_le16_def bit_simps dest: bit_imp_le_length)
  qed
  from this [of 0] this [of 1] show ?thesis by (simp add: le16_def)
qed

lemma of_be16_be16 [byte_simps]: "of_be16 (be16 x @ bs) = x"
  using of_le16_le16 [of x "[]"] by (simp add: of_be16_def be16_def le16_def)

lemma of_be32_be32 [byte_simps]: "of_be32 (be32 x @ bs) = x"
  using of_le32_le32 [of x "[]"] by (simp add: of_be32_def be32_def le32_def)

lemma le16_htons [byte_simps]: "le16 (htons x) = be16 x"
  by (simp add: htons_def be16_def le16_of_le16)

lemma le32_htonl [byte_simps]: "le32 (htonl x) = be32 x"
  by (simp add: htonl_def be32_def le32_of_le32)

lemma htons_htons [byte_simps]: "htons (htons x) = x"
proof -
  have "be16 (htons x) = rev (le16 (htons x))" by (simp add: be16_def le16_def)
  also have "\<dots> = le16 x" unfolding le16_htons by (simp add: be16_def le16_def)
  finally show ?thesis using of_le16_le16 [of x "[]"] by (simp add: htons_def [of "htons x"])
qed

lemma htonl_htonl [byte_simps]: "htonl (htonl x) = x"
proof -
  have "be32 (htonl x) = rev (le32 (htonl x))" by (simp add: be32_def le32_def)
  also have "\<dots> = le32 x" unfolding le32_htonl by (simp add: be32_def le32_def)
  finally show ?thesis using of_le32_le32 [of x "[]"] by (simp add: htonl_def [of "htonl x"])
qed

subsection \<open>Masks\<close>

text \<open>The bit masks of the code, as bit fields.\<close>

lemma bit_u8_cases: "n < 8 \<Longrightarrow> (n::nat) \<in> {0, 1, 2, 3, 4, 5, 6, 7}"
  by auto

lemma u8_masks [byte_simps]:
  "(x::u8) AND 0x03 = take_bit 2 x"
  "(x::u8) AND 0x0f = take_bit 4 x"
  "(x::u8) AND 0x3f = take_bit 6 x"
  "(x::u8) AND 0x7f = take_bit 7 x"
  "(x::u8) AND 0x80 = push_bit 7 (drop_bit 7 x)"
  "(x::u8) AND 0xc0 = push_bit 6 (drop_bit 6 x)"
  "(x::u8) AND 0xf0 = push_bit 4 (drop_bit 4 x)"
  "(x::u8) AND 0x70 = push_bit 4 (take_bit 3 (drop_bit 4 x))"
  by (rule bit_word_eqI; auto simp: bit_simps dest!: bit_u8_cases)+

lemma unat_take_bit_bound: "unat (take_bit k (v :: 'a::len word)) < 2 ^ k"
  by (simp add: unsigned_take_bit_eq)

lemma bounded_bits_unat:
  assumes "\<And>n. bit (v :: 'a::len word) n \<Longrightarrow> n < k"
  shows "unat v < 2 ^ k"
proof -
  from assms have "v = take_bit k v" by (auto simp: bit_simps intro!: bit_word_eqI)
  then show ?thesis by (metis unat_take_bit_bound)
qed

subsection \<open>Runs and simulations\<close>

text \<open>A sequence of steps that may fail, and the contract under which an implementation follows its
  specification through every sequence.\<close>

fun run_steps :: "('op \<Rightarrow> 's \<Rightarrow> 's option) \<Rightarrow> 'op list \<Rightarrow> 's \<Rightarrow> 's option" where
  "run_steps step [] s = Some s"
| "run_steps step (op # ops) s = do { s \<leftarrow> step op s; run_steps step ops s }"

lemma run_steps_append: "run_steps step (xs @ ys) s = do { s \<leftarrow> run_steps step xs s; run_steps step ys s }"
  by (induction xs arbitrary: s) (auto split: bind_split)

lemma run_steps_invariant:
  assumes "\<And>op s s'. I s \<Longrightarrow> step op s = Some s' \<Longrightarrow> I s'"
  shows "run_steps step ops s = Some s' \<Longrightarrow> I s \<Longrightarrow> I s'"
proof (induction ops arbitrary: s)
  case Nil
  then show ?case by simp
next
  case (Cons op ops)
  then show ?case by (auto simp: bind_eq_Some_conv intro: assms)
qed

locale simulation =
  fixes R :: "'c \<Rightarrow> 'a \<Rightarrow> bool"
    and cstep :: "'op \<Rightarrow> 'c \<Rightarrow> 'c option"
    and astep :: "'op \<Rightarrow> 'a \<Rightarrow> 'a option"
  assumes step: "R c a \<Longrightarrow> astep op a = Some a' \<Longrightarrow> \<exists>c'. cstep op c = Some c' \<and> R c' a'"
begin

lemma run: "R c a \<Longrightarrow> run_steps astep ops a = Some a' \<Longrightarrow> \<exists>c'. run_steps cstep ops c = Some c' \<and> R c' a'"
proof (induction ops arbitrary: c a)
  case Nil
  then show ?case by simp
next
  case (Cons op ops)
  from Cons.prems(2) obtain a1 where a1: "astep op a = Some a1" "run_steps astep ops a1 = Some a'"
    by (auto simp: bind_eq_Some_conv)
  from step [OF Cons.prems(1) a1(1)] obtain c1 where "cstep op c = Some c1" "R c1 a1" by blast
  with Cons.IH [of c1 a1] a1(2) show ?case by simp
qed

end

end
