(* ===== verification/Base64.thy ===== *)
theory Base64
  imports Prelude
begin

text \<open>
  \<open>lib/base64-decode.c\<close>: the base-64 encoder that both WebSocket handshakes use for keys and
  accept tokens. \<open>lws_b64_encode_string\<close> returns the C return value and the bytes stored at
  \<open>out\<close>. The reference decoder is built from the file's own \<open>decode\<close> table.
\<close>

definition encode_tab :: bytes where
  "encode_tab = str (''ABCDEFGHIJKLMNOPQRSTUVWXYZ'' @ ''abcdefghijklmnopqrstuvwxyz0123456789+/'')"

definition decode_tab :: bytes where
  "decode_tab = str (''|$$$}rstuvwxyz{$$$$$$$>?@ABCDEFGHIJKLMNOPQRSTUVW''
     @ ''$$$$$$XYZ['' @ [CHR 0x5C] @ '']^_'' @ [CHR 0x60] @ ''abcdefghijklmnopq'')"

text \<open>
  One turn of the loop's body: the four sextets of a triple, and their characters when
  \<open>len\<close> bytes of the triple are real.
\<close>

definition sext0 :: "u8 \<Rightarrow> u8" where
  "sext0 t0 = drop_bit 2 t0"

definition sext1 :: "u8 \<Rightarrow> u8 \<Rightarrow> u8" where
  "sext1 t0 t1 = push_bit 4 (t0 AND 0x03) OR drop_bit 4 (t1 AND 0xf0)"

definition sext2 :: "u8 \<Rightarrow> u8 \<Rightarrow> u8" where
  "sext2 t1 t2 = push_bit 2 (t1 AND 0x0f) OR drop_bit 6 (t2 AND 0xc0)"

definition sext3 :: "u8 \<Rightarrow> u8" where
  "sext3 t2 = t2 AND 0x3f"

definition b64_quad :: "u8 \<Rightarrow> u8 \<Rightarrow> u8 \<Rightarrow> nat \<Rightarrow> bytes" where
  "b64_quad t0 t1 t2 len =
     [encode_tab ! unat (sext0 t0),
      encode_tab ! unat (sext1 t0 t1),
      (if len > 1 then encode_tab ! unat (sext2 t1 t2) else chr8 CHR ''=''),
      (if len > 2 then encode_tab ! unat (sext3 t2) else chr8 CHR ''='')]"

function b64_loop :: "bytes \<Rightarrow> int \<Rightarrow> int \<Rightarrow> bytes \<Rightarrow> int \<times> bytes" where
  "b64_loop inp out_size done out =
     (if inp = [] then
        (if done + 1 \<ge> out_size then (-1, out) else (done, out @ [0]))
      else
        let len = min 3 (length inp);
            t0 = inp ! 0;
            t1 = (if len > 1 then inp ! 1 else 0);
            t2 = (if len > 2 then inp ! 2 else 0)
        in if done + 4 \<ge> out_size then (-1, out)
           else b64_loop (drop 3 inp) out_size (done + 4) (out @ b64_quad t0 t1 t2 len))"
  by pat_completeness auto
termination
  by (relation "measure (\<lambda>(inp, _). length inp)") auto

declare b64_loop.simps [simp del]

definition lws_b64_encode_string :: "bytes \<Rightarrow> int \<Rightarrow> int \<times> bytes" where
  "lws_b64_encode_string inp out_size = b64_loop inp out_size 0 []"

subsection \<open>The specification: RFC 4648 groups without the output bound\<close>

fun b64_spec :: "bytes \<Rightarrow> bytes" where
  "b64_spec [] = []"
| "b64_spec [a] = b64_quad a 0 0 1"
| "b64_spec [a, b] = b64_quad a b 0 2"
| "b64_spec (a # b # c # xs) = b64_quad a b c 3 @ b64_spec xs"

definition b64_val :: "u8 \<Rightarrow> u8" where
  "b64_val ch = decode_tab ! (unat ch - 43) - 62"

definition b64_unquad :: "u8 \<Rightarrow> u8 \<Rightarrow> u8 \<Rightarrow> u8 \<Rightarrow> bytes" where
  "b64_unquad c0 c1 c2 c3 =
     (push_bit 2 (b64_val c0) OR drop_bit 4 (b64_val c1)) #
     (if c2 = chr8 CHR ''='' then []
      else (push_bit 4 (b64_val c1) OR drop_bit 2 (b64_val c2)) #
        (if c3 = chr8 CHR ''='' then [] else [push_bit 6 (b64_val c2) OR b64_val c3]))"

fun b64_decode :: "bytes \<Rightarrow> bytes" where
  "b64_decode (c0 # c1 # c2 # c3 # cs) = b64_unquad c0 c1 c2 c3 @ b64_decode cs"
| "b64_decode _ = []"

subsection \<open>The tables\<close>

lemma length_encode_tab: "length encode_tab = 64"
  by (simp add: encode_tab_def)

lemma encode_tab_eq: "encode_tab =
   [65, 66, 67, 68, 69, 70, 71, 72, 73, 74, 75, 76, 77, 78, 79, 80, 81, 82, 83, 84, 85, 86,
    87, 88, 89, 90, 97, 98, 99, 100, 101, 102, 103, 104, 105, 106, 107, 108, 109, 110, 111,
    112, 113, 114, 115, 116, 117, 118, 119, 120, 121, 122, 48, 49, 50, 51, 52, 53, 54, 55, 56,
    57, 43, 47]"
  by (simp add: encode_tab_def str_def)

lemma decode_tab_eq: "decode_tab =
   [124, 36, 36, 36, 125, 114, 115, 116, 117, 118, 119, 120, 121, 122, 123, 36, 36, 36, 36,
    36, 36, 36, 62, 63, 64, 65, 66, 67, 68, 69, 70, 71, 72, 73, 74, 75, 76, 77, 78, 79, 80,
    81, 82, 83, 84, 85, 86, 87, 36, 36, 36, 36, 36, 36, 88, 89, 90, 91, 92, 93, 94, 95, 96,
    97, 98, 99, 100, 101, 102, 103, 104, 105, 106, 107, 108, 109, 110, 111, 112, 113]"
  by (simp add: decode_tab_def str_def)

lemma tab_inverse_all:
  "list_all2 (\<lambda>i ch. b64_val ch = of_nat i \<and> ch \<noteq> chr8 CHR ''='') [0..<64] encode_tab"
  by (simp add: encode_tab_eq decode_tab_eq b64_val_def chr8_def upt_conv_Cons)

lemma tab_inverse:
  assumes "i < 64"
  shows "b64_val (encode_tab ! i) = of_nat i" and "encode_tab ! i \<noteq> chr8 CHR ''=''"
  using list_all2_nthD [OF tab_inverse_all, of i] assms by simp_all

lemma tab_inverse_word:
  "unat v < 64 \<Longrightarrow> b64_val (encode_tab ! unat v) = v"
  "unat v < 64 \<Longrightarrow> encode_tab ! unat v \<noteq> chr8 CHR ''=''"
  using tab_inverse [of "unat v"] by simp_all

lemma sextet_bound: "(\<And>n. bit (v :: u8) n \<Longrightarrow> n < 6) \<Longrightarrow> unat v < 64"
  using bounded_bits_unat [of v 6] by simp

lemmas sext_defs = sext0_def sext1_def sext2_def sext3_def

lemma quad_sextets:
  "unat (sext0 a) < 64" "unat (sext1 a b) < 64" "unat (sext2 b c) < 64" "unat (sext3 c) < 64"
  by (rule sextet_bound, auto simp: sext_defs u8_masks bit_simps dest!: bit_imp_le_length)+

lemmas sextets = quad_sextets [THEN tab_inverse_word(1)] quad_sextets [THEN tab_inverse_word(2)]

lemma regroup0: "push_bit 2 (sext0 a) OR drop_bit 4 (sext1 a b) = a"
  by (rule bit_word_eqI) (auto simp: sext_defs u8_masks bit_simps dest!: bit_u8_cases,
      simp_all add: numeral_2_eq_2 numeral_3_eq_3)

lemma regroup1: "push_bit 4 (sext1 a b) OR drop_bit 2 (sext2 b c) = b"
  by (rule bit_word_eqI) (auto simp: sext_defs u8_masks bit_simps dest!: bit_u8_cases)

lemma regroup2: "push_bit 6 (sext2 b c) OR sext3 c = c"
  by (rule bit_word_eqI) (auto simp: sext_defs u8_masks bit_simps dest!: bit_u8_cases)

lemma b64_decode_quad:
  "b64_decode (b64_quad a b c 3 @ cs) = a # b # c # b64_decode cs"
  "b64_decode (b64_quad a b 0 2) = [a, b]"
  "b64_decode (b64_quad a 0 0 (Suc 0)) = [a]"
  by (simp_all add: b64_quad_def b64_unquad_def sextets regroup0 regroup1 regroup2)

lemma b64_decode_spec: "b64_decode (b64_spec xs) = xs"
  by (induction xs rule: b64_spec.induct) (simp_all add: b64_decode_quad)

subsection \<open>The encoder\<close>

lemma length_b64_quad [simp]: "length (b64_quad a b c n) = 4"
  by (simp add: b64_quad_def)

lemma groups3: "(5 + n) div 3 = Suc (Suc (Suc n) div 3)"
  by simp

lemma length_b64_spec: "length (b64_spec xs) = 4 * ((length xs + 2) div 3)"
  by (induction xs rule: b64_spec.induct) (simp_all add: groups3)

lemma b64_quad_2 [simp]: "b64_quad a b c (Suc (Suc 0)) = b64_quad a b c 2"
  by (simp add: b64_quad_def)

lemma b64_loop_Nil: "b64_loop [] sz d out = (if d + 1 \<ge> sz then (-1, out) else (d, out @ [0]))"
  by (simp add: b64_loop.simps)

lemma b64_loop_1:
  "b64_loop [a] sz d out =
     (if d + 4 \<ge> sz then (-1, out) else b64_loop [] sz (d + 4) (out @ b64_quad a 0 0 (Suc 0)))"
  by (simp add: b64_loop.simps [of "[a]"])

lemma b64_loop_2:
  "b64_loop [a, b] sz d out =
     (if d + 4 \<ge> sz then (-1, out) else b64_loop [] sz (d + 4) (out @ b64_quad a b 0 2))"
  by (simp add: b64_loop.simps [of "[a, b]"])

lemma b64_loop_3:
  "b64_loop (a # b # c # xs) sz d out =
     (if d + 4 \<ge> sz then (-1, out) else b64_loop xs sz (d + 4) (out @ b64_quad a b c 3))"
  by (simp add: b64_loop.simps [of "a # b # c # xs"] min_def)

lemmas b64_loop_simps = b64_loop_Nil b64_loop_1 b64_loop_2 b64_loop_3

lemma b64_loop_fits:
  "d + int (4 * ((length xs + 2) div 3)) + 1 < sz \<Longrightarrow>
   b64_loop xs sz d out = (d + int (4 * ((length xs + 2) div 3)), out @ b64_spec xs @ [0])"
  by (induction xs arbitrary: d out rule: b64_spec.induct) (auto simp: b64_loop_simps groups3)

lemma b64_loop_overflow:
  "sz \<le> d + int (4 * ((length xs + 2) div 3)) + 1 \<Longrightarrow> fst (b64_loop xs sz d out) = -1"
  by (induction xs arbitrary: d out rule: b64_spec.induct) (auto simp: b64_loop_simps groups3)

lemma b64_loop_stores:
  "int (length out) = d \<Longrightarrow> d < sz \<Longrightarrow> int (length (snd (b64_loop xs sz d out))) \<le> sz"
  by (induction xs arbitrary: d out rule: b64_spec.induct) (auto simp: b64_loop_simps groups3)

subsection \<open>Properties\<close>

text \<open>C30: The encoder succeeds exactly when the output buffer has room for the characters, the
  terminator and one more byte; it then returns the number of characters
  \<open>4 * ceiling (n / 3)\<close>, and it never stores more than \<open>out_size\<close> bytes, also when it fails.\<close>

theorem b64_encode_bounds:
  "fst (lws_b64_encode_string xs sz) =
     (if int (4 * ((length xs + 2) div 3)) + 1 < sz then int (4 * ((length xs + 2) div 3)) else -1)
   \<and> int (length (snd (lws_b64_encode_string xs sz))) \<le> max 0 sz"
proof
  show "fst (lws_b64_encode_string xs sz) =
     (if int (4 * ((length xs + 2) div 3)) + 1 < sz then int (4 * ((length xs + 2) div 3)) else -1)"
    using b64_loop_fits [of 0 xs sz "[]"] b64_loop_overflow [of sz 0 xs "[]"]
    by (simp add: lws_b64_encode_string_def)
  have "lws_b64_encode_string xs sz = (-1, [])" if "sz \<le> 0"
    using that by (cases xs rule: b64_spec.cases)
      (simp_all add: lws_b64_encode_string_def b64_loop_simps)
  then show "int (length (snd (lws_b64_encode_string xs sz))) \<le> max 0 sz"
    using b64_loop_stores [of "[]" 0 sz xs] by (cases "0 < sz") (auto simp: lws_b64_encode_string_def)
qed

text \<open>C29: Round trip: with room for the characters, the terminator and one more byte the encoder succeeds, and what it
  stored is a string of \<open>4 * ceiling (n / 3)\<close> characters terminated by one zero byte which the decoding table turns back
  into the input.\<close>

theorem b64_encode_roundtrip:
  assumes "int (4 * ((length xs + 2) div 3)) + 1 < sz"
  shows "\<exists>out. lws_b64_encode_string xs sz = (int (4 * ((length xs + 2) div 3)), out) \<and>
    length out = 4 * ((length xs + 2) div 3) + 1 \<and> last out = 0 \<and> b64_decode (butlast out) = xs"
  using b64_loop_fits [of 0 xs sz "[]"] assms
  by (simp add: lws_b64_encode_string_def length_b64_spec b64_decode_spec)

theorem b64_encode_roundtrip_witness:
  "lws_b64_encode_string (str ''Ma'') 30 = (4, str ''TWE='' @ [0])
   \<and> b64_decode (str ''TWE='') = str ''Ma''"
proof -
  have run: "lws_b64_encode_string (str ''Ma'') 30 = (4, str ''TWE='' @ [0])"
    by (simp add: lws_b64_encode_string_def b64_loop_simps b64_quad_def sext_defs encode_tab_eq
      str_def chr8_def)
  have "int (4 * ((length (str ''Ma'') + 2) div 3)) + 1 < 30" by (simp add: str_def)
  from b64_encode_roundtrip [OF this] run have "b64_decode (str ''TWE='') = str ''Ma''" by auto
  with run show ?thesis ..
qed

end
