(* ===== verification/Sha1.thy ===== *)
theory Sha1
  imports Prelude
begin

text \<open>
  \<open>lib/sha-1.c\<close>: the SHA-1 code that computes the WebSocket accept token. The context's unions
  are modelled by the view the code writes: \<open>h\<close> as five words, \<open>c\<close> as the 64-bit bit count,
  \<open>m\<close> as 64 bytes (read as sixteen little-endian words inside \<open>sha1_step\<close>). The
  \<open>BYTE_ORDER == LITTLE_ENDIAN\<close> branches are the ones modelled. The abstract specification is
  FIPS 180: message schedule, compression, padding.
\<close>

record sha1_ctxt =
  h32 :: "u32 list"
  c64 :: u64
  m8 :: bytes
  cnt :: u8

type_synonym regs = "u32 \<times> u32 \<times> u32 \<times> u32 \<times> u32"

definition sha1_K_tab :: "u32 list" where
  "sha1_K_tab = [0x5a827999, 0x6ed9eba1, 0x8f1bbcdc, 0xca62c1d6]"

definition sha1_K :: "nat \<Rightarrow> u32" where
  "sha1_K t = sha1_K_tab ! (t div 20)"

definition sha1_F0 :: "u32 \<Rightarrow> u32 \<Rightarrow> u32 \<Rightarrow> u32" where
  "sha1_F0 b c d = (b AND c) OR (NOT b AND d)"

definition sha1_F1 :: "u32 \<Rightarrow> u32 \<Rightarrow> u32 \<Rightarrow> u32" where
  "sha1_F1 b c d = (b XOR c) XOR d"

definition sha1_F2 :: "u32 \<Rightarrow> u32 \<Rightarrow> u32 \<Rightarrow> u32" where
  "sha1_F2 b c d = (b AND c) OR (b AND d) OR (c AND d)"

definition sha1_F3 :: "u32 \<Rightarrow> u32 \<Rightarrow> u32 \<Rightarrow> u32" where
  "sha1_F3 b c d = (b XOR c) XOR d"

definition sha1_S :: "nat \<Rightarrow> u32 \<Rightarrow> u32" where
  "sha1_S n x = push_bit n x OR drop_bit (32 - n) x"

subsection \<open>The compression step\<close>

text \<open>The 64 byte copies that reverse each group of four.\<close>

definition swap_bytes :: "bytes \<Rightarrow> bytes" where
  "swap_bytes m = map (\<lambda>i. m ! (4 * (i div 4) + (3 - i mod 4))) [0..<64]"

definition words_of :: "bytes \<Rightarrow> u32 list" where
  "words_of m = map (\<lambda>i. of_le32 (take 4 (drop (4 * i) m))) [0..<16]"

text \<open>The in-place message schedule: \<open>W\<close> is a circular buffer of sixteen words.\<close>

definition sched :: "nat \<Rightarrow> u32 list \<Rightarrow> u32 list" where
  "sched t W = (let s = t mod 16 in
     W[s := sha1_S 1 (W ! ((s + 13) mod 16) XOR W ! ((s + 8) mod 16) XOR W ! ((s + 2) mod 16) XOR W ! s)])"

definition sha1_round :: "(u32 \<Rightarrow> u32 \<Rightarrow> u32 \<Rightarrow> u32) \<Rightarrow> nat \<Rightarrow> regs \<times> u32 list \<Rightarrow> regs \<times> u32 list" where
  "sha1_round F t st = (case st of ((a, b, c, d, e), W) \<Rightarrow>
     let W = (if t < 16 then W else sched t W);
         tmp = sha1_S 5 a + F b c d + e + W ! (t mod 16) + sha1_K t
     in ((tmp, a, sha1_S 30 b, c, d), W))"

definition sha1_step :: "sha1_ctxt \<Rightarrow> sha1_ctxt" where
  "sha1_step ctxt =
     (let W = words_of (swap_bytes (m8 ctxt));
          H = h32 ctxt;
          st = ((H ! 0, H ! 1, H ! 2, H ! 3, H ! 4), W);
          st = fold (sha1_round sha1_F0) [0..<20] st;
          st = fold (sha1_round sha1_F1) [20..<40] st;
          st = fold (sha1_round sha1_F2) [40..<60] st;
          st = fold (sha1_round sha1_F3) [60..<80] st
      in case st of ((a, b, c, d, e), W) \<Rightarrow>
        ctxt\<lparr>h32 := [H ! 0 + a, H ! 1 + b, H ! 2 + c, H ! 3 + d, H ! 4 + e],
             m8 := replicate 64 0\<rparr>)"

subsection \<open>Initialisation, input, padding and result\<close>

definition sha1_init :: sha1_ctxt where
  "sha1_init = \<lparr>h32 = [0x67452301, 0xefcdab89, 0x98badcfe, 0x10325476, 0xc3d2e1f0],
     c64 = 0, m8 = replicate 64 0, cnt = 0\<rparr>"

definition PUTPAD :: "u8 \<Rightarrow> sha1_ctxt \<Rightarrow> sha1_ctxt" where
  "PUTPAD x ctxt =
     (let ctxt = ctxt\<lparr>m8 := (m8 ctxt)[unat (cnt ctxt) mod 64 := x], cnt := (cnt ctxt + 1) mod 64\<rparr>
      in if cnt ctxt mod 64 = 0 then sha1_step ctxt else ctxt)"

definition bzero_at :: "nat \<Rightarrow> nat \<Rightarrow> sha1_ctxt \<Rightarrow> sha1_ctxt" where
  "bzero_at i n ctxt = ctxt\<lparr>m8 := take i (m8 ctxt) @ replicate n 0 @ drop (i + n) (m8 ctxt)\<rparr>"

definition c_byte :: "nat \<Rightarrow> sha1_ctxt \<Rightarrow> u8" where
  "c_byte i ctxt = ucast (drop_bit (8 * i) (c64 ctxt))"

definition sha1_put_length :: "sha1_ctxt \<Rightarrow> sha1_ctxt" where
  "sha1_put_length ctxt =
     fold (\<lambda>i ctxt. PUTPAD (c_byte i ctxt) ctxt) [7, 6, 5, 4, 3, 2, 1, 0] ctxt"

definition sha1_pad :: "sha1_ctxt \<Rightarrow> sha1_ctxt" where
  "sha1_pad ctxt =
     (let ctxt = PUTPAD 0x80 ctxt;
          padstart = unat (cnt ctxt) mod 64;
          padlen = 64 - padstart;
          (ctxt, padstart, padlen) =
            (if padlen < 8 then
               let ctxt = bzero_at padstart padlen ctxt;
                   ctxt = ctxt\<lparr>cnt := (cnt ctxt + of_nat padlen) mod 64\<rparr>;
                   ctxt = sha1_step ctxt;
                   padstart = unat (cnt ctxt) mod 64
               in (ctxt, padstart, 64 - padstart)
             else (ctxt, padstart, padlen));
          ctxt = bzero_at padstart (padlen - 8) ctxt;
          ctxt = ctxt\<lparr>cnt := (cnt ctxt + of_nat (padlen - 8)) mod 64\<rparr>
      in sha1_put_length ctxt)"

function sha1_loop :: "sha1_ctxt \<Rightarrow> bytes \<Rightarrow> sha1_ctxt" where
  "sha1_loop ctxt input =
     (if input = [] then ctxt
      else
        let gapstart = unat (cnt ctxt) mod 64;
            gaplen = 64 - gapstart;
            copysiz = (if gaplen < length input then gaplen else length input);
            ctxt = ctxt\<lparr>m8 := take gapstart (m8 ctxt) @ take copysiz input
                               @ drop (gapstart + copysiz) (m8 ctxt),
                        cnt := (cnt ctxt + of_nat copysiz) mod 64,
                        c64 := c64 ctxt + of_nat (copysiz * 8)\<rparr>;
            ctxt = (if cnt ctxt mod 64 = 0 then sha1_step ctxt else ctxt)
        in sha1_loop ctxt (drop copysiz input))"
  by pat_completeness auto
termination
  by (relation "measure (\<lambda>(_, input). length input)") (auto simp: Let_def)

declare sha1_loop.simps [simp del]

definition sha1_result :: "sha1_ctxt \<Rightarrow> bytes" where
  "sha1_result ctxt =
     (let b8 = concat (map le32 (h32 (sha1_pad ctxt)))
      in map (\<lambda>i. b8 ! (4 * (i div 4) + (3 - i mod 4))) [0..<20])"

definition SHA1 :: "bytes \<Rightarrow> bytes" where
  "SHA1 d = sha1_result (sha1_loop sha1_init d)"

subsection \<open>FIPS 180 as the specification\<close>

fun fips_w :: "u32 list \<Rightarrow> nat \<Rightarrow> u32" where
  "fips_w M t = (if t < 16 then M ! t
     else word_rotl 1 (fips_w M (t - 3) XOR fips_w M (t - 8) XOR fips_w M (t - 14) XOR fips_w M (t - 16)))"

declare fips_w.simps [simp del]

definition fips_f :: "nat \<Rightarrow> u32 \<Rightarrow> u32 \<Rightarrow> u32 \<Rightarrow> u32" where
  "fips_f t x y z =
     (if t < 20 then (x AND y) XOR (NOT x AND z)
      else if t < 40 then x XOR y XOR z
      else if t < 60 then (x AND y) XOR (x AND z) XOR (y AND z)
      else x XOR y XOR z)"

definition fips_k :: "nat \<Rightarrow> u32" where
  "fips_k t = (if t < 20 then 0x5a827999 else if t < 40 then 0x6ed9eba1
     else if t < 60 then 0x8f1bbcdc else 0xca62c1d6)"

fun fips_rounds :: "u32 list \<Rightarrow> nat \<Rightarrow> regs \<Rightarrow> regs" where
  "fips_rounds M 0 r = r"
| "fips_rounds M (Suc t) r =
     (case fips_rounds M t r of (a, b, c, d, e) \<Rightarrow>
       (word_rotl 5 a + fips_f t b c d + e + fips_k t + fips_w M t, a, word_rotl 30 b, c, d))"

definition fips_words :: "bytes \<Rightarrow> u32 list" where
  "fips_words bs = map (\<lambda>i. of_be32 (drop (4 * i) bs)) [0..<16]"

definition fips_block :: "u32 list \<Rightarrow> bytes \<Rightarrow> u32 list" where
  "fips_block H bs =
     (case fips_rounds (fips_words bs) 80 (H ! 0, H ! 1, H ! 2, H ! 3, H ! 4) of (a, b, c, d, e) \<Rightarrow>
       [a + H ! 0, b + H ! 1, c + H ! 2, d + H ! 3, e + H ! 4])"

function fips_hash :: "u32 list \<Rightarrow> bytes \<Rightarrow> u32 list" where
  "fips_hash H bs = (if length bs < 64 then H else fips_hash (fips_block H (take 64 bs)) (drop 64 bs))"
  by pat_completeness auto
termination
  by (relation "measure (\<lambda>(_, bs). length bs)") auto

declare fips_hash.simps [simp del]

definition be64 :: "u64 \<Rightarrow> bytes" where
  "be64 x = map (\<lambda>i. ucast (drop_bit (8 * i) x)) [7, 6, 5, 4, 3, 2, 1, 0]"

text \<open>The message, a one bit, the least number of zero bits, and the length in bits.\<close>

definition fips_pad :: "bytes \<Rightarrow> bytes" where
  "fips_pad msg =
     msg @ [0x80] @ replicate ((119 - length msg mod 64) mod 64) 0 @ be64 (of_nat (length msg * 8))"

definition fips_sha1 :: "bytes \<Rightarrow> bytes" where
  "fips_sha1 msg =
     concat (map be32 (fips_hash [0x67452301, 0xefcdab89, 0x98badcfe, 0x10325476, 0xc3d2e1f0]
       (fips_pad msg)))"

subsection \<open>Words, rotations and round functions\<close>

lemma mod_sub_wrap: "k \<le> (n::nat) \<Longrightarrow> n < 32 \<Longrightarrow> (n + (32 - k)) mod 32 = n - k"
  by (simp add: mod_if)

lemma sha1_S_rotl:
  assumes "0 < k" and "k < 32"
  shows "sha1_S k x = word_rotl k x"
proof (rule bit_word_eqI)
  fix n assume n: "n < LENGTH(32)"
  show "bit (sha1_S k x) n = bit (word_rotl k x) n"
  proof (cases "n < k")
    case True
    with assms have "(n + (32 - k)) mod 32 = 32 - k + n" by simp
    with n assms True show ?thesis by (simp add: sha1_S_def bit_simps)
  next
    case False
    with n have "(n + (32 - k)) mod 32 = n - k" using False mod_sub_wrap [of k n] by simp
    moreover from False n have "\<not> bit x (32 - k + n)" by (auto dest: bit_imp_le_length)
    ultimately show ?thesis using n assms False by (simp add: sha1_S_def bit_simps)
  qed
qed

lemma sha1_F_fips:
  "t < 20 \<Longrightarrow> sha1_F0 b c d = fips_f t b c d"
  "20 \<le> t \<Longrightarrow> t < 40 \<Longrightarrow> sha1_F1 b c d = fips_f t b c d"
  "40 \<le> t \<Longrightarrow> t < 60 \<Longrightarrow> sha1_F2 b c d = fips_f t b c d"
  "60 \<le> t \<Longrightarrow> t < 80 \<Longrightarrow> sha1_F3 b c d = fips_f t b c d"
  by (auto simp: sha1_F0_def sha1_F1_def sha1_F2_def sha1_F3_def fips_f_def bit_simps
    intro!: bit_word_eqI)

lemma div_20_cases: "t < 80 \<Longrightarrow> t div 20 = (if t < 20 then 0 else if t < 40 then 1 else if t < 60 then 2 else (3::nat))"
  by auto

lemma sha1_K_fips: "t < 80 \<Longrightarrow> sha1_K t = fips_k t"
  by (simp add: sha1_K_def sha1_K_tab_def fips_k_def div_20_cases)

lemma length_swap_bytes [simp]: "length (swap_bytes m) = 64"
  by (simp add: swap_bytes_def)

lemma swap_bytes_nth: "i < 16 \<Longrightarrow> k < 4 \<Longrightarrow> swap_bytes m ! (4 * i + k) = m ! (4 * i + (3 - k))"
  by (simp add: swap_bytes_def)

lemma take4_drop: "n + 4 \<le> length xs \<Longrightarrow> take 4 (drop n xs) = [xs ! n, xs ! (n + 1), xs ! (n + 2), xs ! (n + 3)]"
  by (rule nth_equalityI) (auto simp: less_Suc_eq numeral_eq_Suc)

lemma words_of_swap:
  assumes "length m = 64"
  shows "words_of (swap_bytes m) = fips_words m"
proof -
  have "of_le32 (take 4 (drop (4 * i) (swap_bytes m))) = of_be32 (drop (4 * i) m)" if "i < 16" for i
    using that assms swap_bytes_nth [of i 0 m] swap_bytes_nth [of i 1 m]
      swap_bytes_nth [of i 2 m] swap_bytes_nth [of i 3 m]
    by (simp add: of_be32_def take4_drop of_le32_def)
  then show ?thesis by (simp add: words_of_def fips_words_def)
qed

subsection \<open>The circular message schedule\<close>

definition sched_inv :: "u32 list \<Rightarrow> nat \<Rightarrow> u32 list \<Rightarrow> bool" where
  "sched_inv M t W \<longleftrightarrow> length W = 16 \<and>
     (\<forall>i. max 16 t - 16 \<le> i \<and> i < max 16 t \<longrightarrow> W ! (i mod 16) = fips_w M i)"

lemma sched_inv_start: "length M = 16 \<Longrightarrow> sched_inv M 0 M"
  by (simp add: sched_inv_def fips_w.simps)

lemma sched_inv_early: "t < 16 \<Longrightarrow> sched_inv M t W \<Longrightarrow> sched_inv M (Suc t) W"
  by (simp add: sched_inv_def max_def)

lemma mod16_back: "k \<le> 16 \<Longrightarrow> 16 \<le> (t::nat) \<Longrightarrow> (t mod 16 + (16 - k)) mod 16 = (t - k) mod 16"
proof -
  assume "k \<le> 16" "16 \<le> t"
  then have "t + (16 - k) = (t - k) + 16" by simp
  then show ?thesis by (metis mod_add_left_eq mod_add_self2)
qed

lemma sched_inv_read:
  assumes "16 \<le> t" and "sched_inv M t W" and "0 < k" and "k \<le> 16"
  shows "W ! ((t mod 16 + (16 - k)) mod 16) = fips_w M (t - k)"
proof -
  from assms have "t - 16 \<le> t - k" "t - k < t" by auto
  with assms have "W ! ((t - k) mod 16) = fips_w M (t - k)" by (simp add: sched_inv_def max_def)
  then show ?thesis using mod16_back [of k t] assms by simp
qed

lemma sched_reads:
  assumes "16 \<le> t" and "sched_inv M t W"
  shows "W ! ((t mod 16 + 13) mod 16) = fips_w M (t - 3)"
    and "W ! ((t mod 16 + 8) mod 16) = fips_w M (t - 8)"
    and "W ! ((t mod 16 + 2) mod 16) = fips_w M (t - 14)"
    and "W ! (t mod 16) = fips_w M (t - 16)"
  using sched_inv_read [OF assms, of 3] sched_inv_read [OF assms, of 8]
    sched_inv_read [OF assms, of 14] sched_inv_read [OF assms, of 16] by simp_all

lemma sched_word:
  assumes "16 \<le> t" and "sched_inv M t W"
  shows "sched t W ! (t mod 16) = fips_w M t"
  using assms sched_reads [OF assms] fips_w.simps [of M t]
  by (simp add: sched_def Let_def sha1_S_rotl sched_inv_def)

lemma sched_inv_step:
  assumes "16 \<le> t" and "sched_inv M t W"
  shows "sched_inv M (Suc t) (sched t W)"
proof -
  have "sched t W ! (i mod 16) = fips_w M i" if "Suc t - 16 \<le> i" "i < Suc t" for i
  proof (cases "i = t")
    case True
    with sched_word [OF assms] show ?thesis by simp
  next
    case False
    with that assms(1) have lt: "t - 16 < i" "i < t" by auto
    have "i mod 16 \<noteq> t mod 16"
    proof
      assume "i mod 16 = t mod 16"
      then have "16 dvd t - i" using lt by (metis mod_eq_dvd_iff_nat less_imp_le)
      with lt assms(1) show False by (auto dest: dvd_imp_le)
    qed
    then have "sched t W ! (i mod 16) = W ! (i mod 16)" by (simp add: sched_def Let_def)
    also have "\<dots> = fips_w M i" using assms lt by (auto simp: sched_inv_def max_def)
    finally show ?thesis .
  qed
  with assms show ?thesis by (auto simp: sched_inv_def max_def sched_def Let_def)
qed

lemma sha1_round_fips:
  assumes "t < 80" and "\<And>b c d. F b c d = fips_f t b c d" and "sched_inv M t W"
  shows "\<exists>W'. sha1_round F t (fips_rounds M t r, W) = (fips_rounds M (Suc t) r, W')
    \<and> sched_inv M (Suc t) W'"
proof -
  obtain a b c d e where r: "fips_rounds M t r = (a, b, c, d, e)" by (metis prod_cases5)
  define W' where "W' = (if t < 16 then W else sched t W)"
  have inv: "sched_inv M (Suc t) W'"
    using assms(3) sched_inv_early sched_inv_step by (auto simp: W'_def)
  have "W' ! (t mod 16) = fips_w M t"
    using assms(3) sched_word by (auto simp: W'_def sched_inv_def max_def)
  then have "sha1_round F t (fips_rounds M t r, W) = (fips_rounds M (Suc t) r, W')"
    using assms(1,2) by (simp add: sha1_round_def r W'_def [symmetric] Let_def sha1_S_rotl sha1_K_fips)
  with inv show ?thesis by blast
qed

lemma sha1_rounds_fips:
  assumes "lo \<le> hi" and "hi \<le> 80" and "\<And>t b c d. lo \<le> t \<Longrightarrow> t < hi \<Longrightarrow> F b c d = fips_f t b c d"
    and "sched_inv M lo W"
  shows "\<exists>W'. fold (sha1_round F) [lo..<hi] (fips_rounds M lo r, W) = (fips_rounds M hi r, W')
    \<and> sched_inv M hi W'"
  using assms
proof (induction hi rule: dec_induct)
  case base
  then show ?case by simp
next
  case (step n)
  have "\<exists>W1. fold (sha1_round F) [lo..<n] (fips_rounds M lo r, W) = (fips_rounds M n r, W1)
      \<and> sched_inv M n W1"
    by (rule step.IH) (use step.prems in simp_all)
  then obtain W1 where W1: "fold (sha1_round F) [lo..<n] (fips_rounds M lo r, W) = (fips_rounds M n r, W1)"
    "sched_inv M n W1" by blast
  from sha1_round_fips [of n F M W1 r] W1(2) step.prems step.hyps
  obtain W' where "sha1_round F n (fips_rounds M n r, W1) = (fips_rounds M (Suc n) r, W')"
    "sched_inv M (Suc n) W'" by auto
  with W1(1) step.hyps show ?case by (simp del: fips_rounds.simps)
qed

lemma sha1_step_fips:
  assumes "length (m8 ctxt) = 64"
  shows "sha1_step ctxt = ctxt\<lparr>h32 := fips_block (h32 ctxt) (m8 ctxt), m8 := replicate 64 0\<rparr>"
proof -
  define M where "M = fips_words (m8 ctxt)"
  define r where "r = (h32 ctxt ! 0, h32 ctxt ! 1, h32 ctxt ! 2, h32 ctxt ! 3, h32 ctxt ! 4)"
  have "sched_inv M 0 M" by (simp add: sched_inv_start M_def fips_words_def)
  from sha1_rounds_fips [OF _ _ _ this, of 20 sha1_F0 r] obtain W1 where
    1: "fold (sha1_round sha1_F0) [0..<20] (fips_rounds M 0 r, M) = (fips_rounds M 20 r, W1)" "sched_inv M 20 W1"
    by (auto simp: sha1_F_fips)
  from sha1_rounds_fips [OF _ _ _ 1(2), of 40 sha1_F1 r] obtain W2 where
    2: "fold (sha1_round sha1_F1) [20..<40] (fips_rounds M 20 r, W1) = (fips_rounds M 40 r, W2)"
      "sched_inv M 40 W2"
    by (auto simp: sha1_F_fips)
  from sha1_rounds_fips [OF _ _ _ 2(2), of 60 sha1_F2 r] obtain W3 where
    3: "fold (sha1_round sha1_F2) [40..<60] (fips_rounds M 40 r, W2) = (fips_rounds M 60 r, W3)"
      "sched_inv M 60 W3"
    by (auto simp: sha1_F_fips)
  from sha1_rounds_fips [OF _ _ _ 3(2), of 80 sha1_F3 r] obtain W4 where
    4: "fold (sha1_round sha1_F3) [60..<80] (fips_rounds M 60 r, W3) = (fips_rounds M 80 r, W4)"
    by (auto simp: sha1_F_fips)
  have r0: "fips_rounds M 0 r = r" by simp
  show ?thesis
    unfolding sha1_step_def Let_def words_of_swap [OF assms] M_def [symmetric] r_def [symmetric]
      1(1) [unfolded r0] 2(1) 3(1) 4
    by (simp add: fips_block_def M_def r_def add.commute split: prod.splits)
qed

subsection \<open>Absorbing bytes\<close>

definition fips_H0 :: "u32 list" where
  "fips_H0 = [0x67452301, 0xefcdab89, 0x98badcfe, 0x10325476, 0xc3d2e1f0]"

definition sha1_rep :: "bytes \<Rightarrow> sha1_ctxt \<Rightarrow> bool" where
  "sha1_rep bs ctxt \<longleftrightarrow> length (m8 ctxt) = 64 \<and> h32 ctxt = fips_hash fips_H0 bs
     \<and> unat (cnt ctxt) = length bs mod 64
     \<and> take (length bs mod 64) (m8 ctxt) = drop (64 * (length bs div 64)) bs"

definition sha1_fill :: "bytes \<Rightarrow> sha1_ctxt \<Rightarrow> sha1_ctxt" where
  "sha1_fill ch ctxt = ctxt\<lparr>m8 := take (unat (cnt ctxt)) (m8 ctxt) @ ch
      @ drop (unat (cnt ctxt) + length ch) (m8 ctxt),
    cnt := (cnt ctxt + of_nat (length ch)) mod 64\<rparr>"

lemma fips_hash_short: "length bs < 64 \<Longrightarrow> fips_hash H bs = H"
  by (simp add: fips_hash.simps)

lemma fips_hash_append:
  "64 dvd length xs \<Longrightarrow> fips_hash H (xs @ ys) = fips_hash (fips_hash H xs) ys"
proof (induction H xs rule: fips_hash.induct)
  case (1 H xs)
  show ?case
  proof (cases "length xs < 64")
    case True
    with 1 show ?thesis by (auto simp: fips_hash_short dest: dvd_imp_le)
  next
    case False
    then have "fips_hash (fips_block H (take 64 xs)) (drop 64 xs @ ys)
        = fips_hash (fips_hash (fips_block H (take 64 xs)) (drop 64 xs)) ys"
      using 1 by (simp add: dvd_diff_nat)
    with False show ?thesis by (simp add: fips_hash.simps [of H])
  qed
qed

lemma fips_hash_block: "length bs = 64 \<Longrightarrow> fips_hash H bs = fips_block H bs"
  by (simp add: fips_hash.simps [of H] fips_hash_short)

lemma split_blocks:
  "bs = take (64 * (length bs div 64)) bs @ drop (64 * (length bs div 64)) bs"
  by simp

lemma fips_hash_full: "fips_hash H bs = fips_hash H (take (64 * (length bs div 64)) bs)"
proof -
  let ?n = "64 * (length bs div 64)"
  have "length (drop ?n bs) < 64" by (simp add: minus_mult_div_eq_mod)
  moreover have "64 dvd length (take ?n bs)" by (simp add: min_absorb2)
  ultimately show ?thesis
    using fips_hash_append [of "take ?n bs" H "drop ?n bs"] by (simp add: fips_hash_short)
qed

lemma unat_cnt_add:
  "n \<le> 64 \<Longrightarrow> unat (c :: u8) < 64 \<Longrightarrow> unat ((c + of_nat n) mod 64) = (unat c + n) mod 64"
  by (simp add: unat_mod unat_word_ariths unsigned_of_nat take_bit_nat_eq_self)

lemma drop_blocks_append:
  assumes "length bs mod 64 + length ch < 64"
  shows "(length bs + length ch) div 64 = length bs div 64"
    and "(length bs + length ch) mod 64 = length bs mod 64 + length ch"
proof -
  have "length bs + length ch = 64 * (length bs div 64) + (length bs mod 64 + length ch)" by simp
  with assms show "(length bs + length ch) div 64 = length bs div 64"
    and "(length bs + length ch) mod 64 = length bs mod 64 + length ch"
    by (metis add.commute div_less div_mult_self2 add_0 zero_neq_numeral,
        metis mod_less mod_mult_self4 mult.commute)
qed

lemma sha1_rep_fill:
  assumes "sha1_rep bs ctxt" and "length bs mod 64 + length ch < 64"
  shows "sha1_rep (bs @ ch) (sha1_fill ch ctxt)"
proof -
  have "fips_hash fips_H0 (bs @ ch) = fips_hash fips_H0 bs"
    using fips_hash_full [of _ "bs @ ch"] fips_hash_full [of _ bs] drop_blocks_append [OF assms(2)]
    by (simp add: min_absorb2)
  then show ?thesis
    using assms drop_blocks_append [OF assms(2)]
    by (simp add: sha1_rep_def sha1_fill_def unat_cnt_add minus_mult_div_eq_mod)
qed

lemma block_sum: "(l::nat) = 64 * q + m \<Longrightarrow> m + c = 64 \<Longrightarrow> l + c = 64 * Suc q"
  by simp

lemma sha1_rep_fill_step:
  assumes "sha1_rep bs ctxt" and "length bs mod 64 + length ch = 64"
  shows "sha1_rep (bs @ ch) (sha1_step (sha1_fill ch ctxt))"
proof -
  let ?n = "64 * (length bs div 64)"
  have len: "length bs + length ch = 64 * Suc (length bs div 64)"
    by (rule block_sum [OF _ assms(2)]) simp
  have blk: "m8 (sha1_fill ch ctxt) = drop ?n bs @ ch" and l: "length (m8 (sha1_fill ch ctxt)) = 64"
    using assms len by (simp_all add: sha1_rep_def sha1_fill_def)
  have "fips_hash fips_H0 (bs @ ch) = fips_hash (fips_hash fips_H0 (take ?n bs)) (drop ?n bs @ ch)"
    using fips_hash_append [of "take ?n bs" fips_H0 "drop ?n bs @ ch"]
    by (simp add: min_absorb2 append_assoc [symmetric] del: append_assoc)
  also have "\<dots> = fips_block (fips_hash fips_H0 bs) (drop ?n bs @ ch)"
    using l blk fips_hash_full [of fips_H0 bs] by (simp add: fips_hash_block)
  finally have "fips_hash fips_H0 (bs @ ch) = fips_block (fips_hash fips_H0 bs) (drop ?n bs @ ch)" .
  with assms len l blk show ?thesis
    by (simp add: sha1_rep_def sha1_step_fips sha1_fill_def unat_cnt_add)
qed

lemma sha1_fill_nil: "unat (cnt ctxt) < 64 \<Longrightarrow> sha1_fill [] ctxt = ctxt"
proof -
  assume "unat (cnt ctxt) < 64"
  then have "cnt ctxt mod 64 = cnt ctxt" by (simp add: word_unat_eq_iff unat_mod)
  then show ?thesis by (simp add: sha1_fill_def)
qed

lemma sha1_rep_init: "sha1_rep [] sha1_init"
  by (simp add: sha1_rep_def sha1_init_def fips_hash_short fips_H0_def)

lemma sha1_rep_bound: "sha1_rep bs ctxt \<Longrightarrow> unat (cnt ctxt) < 64"
  by (simp add: sha1_rep_def)

lemma cnt_zero_iff: "unat (c :: u8) < 64 \<Longrightarrow> (c mod 64 = 0) = (unat c = 0)"
  by (simp add: word_unat_eq_iff unat_mod)

lemma cnt_fill:
  assumes "sha1_rep bs ctxt" and "length ch \<le> 64"
  shows "unat (cnt (sha1_fill ch ctxt)) = (length bs mod 64 + length ch) mod 64"
  using assms by (simp add: sha1_rep_def sha1_fill_def unat_cnt_add)

lemma sha1_step_frame: "c64 (sha1_step ctxt) = c64 ctxt \<and> cnt (sha1_step ctxt) = cnt ctxt"
  by (auto simp: sha1_step_def Let_def split: prod.splits)

lemma sha1_rep_c64: "sha1_rep bs (ctxt\<lparr>c64 := x\<rparr>) = sha1_rep bs ctxt"
  by (simp add: sha1_rep_def)

text \<open>One write that does not pass the end of the block, with the step when it fills it.\<close>

definition sha1_put :: "bytes \<Rightarrow> sha1_ctxt \<Rightarrow> sha1_ctxt" where
  "sha1_put ch ctxt = (let ctxt = sha1_fill ch ctxt in
     if cnt ctxt mod 64 = 0 then sha1_step ctxt else ctxt)"

lemma sha1_rep_put:
  assumes "sha1_rep bs ctxt" and "ch \<noteq> []" and "length bs mod 64 + length ch \<le> 64"
  shows "sha1_rep (bs @ ch) (sha1_put ch ctxt)"
proof (cases "length bs mod 64 + length ch = 64")
  case True
  with assms cnt_fill [OF assms(1), of ch] show ?thesis
    by (simp add: sha1_put_def Let_def cnt_zero_iff sha1_rep_fill_step)
next
  case False
  with assms have "length bs mod 64 + length ch < 64" by simp
  with assms cnt_fill [OF assms(1), of ch] show ?thesis
    by (simp add: sha1_put_def Let_def cnt_zero_iff sha1_rep_fill)
qed

lemma sha1_put_c64: "c64 (sha1_put ch ctxt) = c64 ctxt"
  by (simp add: sha1_put_def Let_def sha1_step_frame) (simp add: sha1_fill_def)

lemma PUTPAD_put: "sha1_rep bs ctxt \<Longrightarrow> PUTPAD x ctxt = sha1_put [x] ctxt"
  using sha1_rep_bound [of bs ctxt]
  by (simp add: PUTPAD_def sha1_put_def sha1_fill_def Let_def sha1_rep_def upd_conv_take_nth_drop)

lemma sha1_rep_PUTPAD: "sha1_rep bs ctxt \<Longrightarrow> sha1_rep (bs @ [x]) (PUTPAD x ctxt)"
  by (simp add: PUTPAD_put sha1_rep_put Suc_le_eq)

lemma PUTPAD_c64: "c64 (PUTPAD x ctxt) = c64 ctxt"
  by (simp add: PUTPAD_def Let_def sha1_step_frame)

lemma fill_c64: "sha1_fill ch (ctxt\<lparr>c64 := x\<rparr>) = (sha1_fill ch ctxt)\<lparr>c64 := x\<rparr>"
  by (simp add: sha1_fill_def)

lemma step_c64: "sha1_step (ctxt\<lparr>c64 := x\<rparr>) = (sha1_step ctxt)\<lparr>c64 := x\<rparr>"
  by (simp add: sha1_step_def Let_def split: prod.splits)

lemma sha1_loop_unfold:
  assumes "sha1_rep bs ctxt" and "input \<noteq> []"
    and "n = (if 64 - unat (cnt ctxt) < length input then 64 - unat (cnt ctxt) else length input)"
  shows "sha1_loop ctxt input =
    sha1_loop ((sha1_put (take n input) ctxt)\<lparr>c64 := c64 ctxt + of_nat (n * 8)\<rparr>) (drop n input)"
proof -
  have cnt: "unat (cnt ctxt) mod 64 = unat (cnt ctxt)"
    using assms(1) by (simp add: sha1_rep_def)
  have n: "n \<le> length input" by (simp add: assms(3))
  let ?c = "ctxt\<lparr>m8 := take (unat (cnt ctxt)) (m8 ctxt) @ take n input
      @ drop (unat (cnt ctxt) + n) (m8 ctxt),
    cnt := (cnt ctxt + of_nat n) mod 64, c64 := c64 ctxt + of_nat (n * 8)\<rparr>"
  have c: "?c = (sha1_fill (take n input) ctxt)\<lparr>c64 := c64 ctxt + of_nat (n * 8)\<rparr>"
    using n by (simp add: sha1_fill_def min_absorb2)
  have "sha1_loop ctxt input =
      sha1_loop (if cnt ?c mod 64 = 0 then sha1_step ?c else ?c) (drop n input)"
    unfolding sha1_loop.simps [of ctxt input] Let_def cnt assms(3) [symmetric] using assms(2) by simp
  also have "(if cnt ?c mod 64 = 0 then sha1_step ?c else ?c) =
      (sha1_put (take n input) ctxt)\<lparr>c64 := c64 ctxt + of_nat (n * 8)\<rparr>"
    unfolding c sha1_put_def Let_def step_c64 by simp
  finally show ?thesis .
qed

lemma sha1_loop_rep:
  "sha1_rep bs ctxt \<Longrightarrow> sha1_rep (bs @ input) (sha1_loop ctxt input)
     \<and> c64 (sha1_loop ctxt input) = c64 ctxt + of_nat (length input * 8)"
proof (induction "length input" arbitrary: bs ctxt input rule: less_induct)
  case less
  show ?case
  proof (cases "input = []")
    case True
    with less.prems show ?thesis by (simp add: sha1_loop.simps)
  next
    case False
    define n where "n = (if 64 - unat (cnt ctxt) < length input then 64 - unat (cnt ctxt) else length input)"
    define ctxt' where "ctxt' = (sha1_put (take n input) ctxt)\<lparr>c64 := c64 ctxt + of_nat (n * 8)\<rparr>"
    have cnt: "unat (cnt ctxt) = length bs mod 64" using less.prems by (simp add: sha1_rep_def)
    then have "unat (cnt ctxt) < 64" by simp
    with False have n: "n \<le> length input" "0 < n" and nn: "unat (cnt ctxt) + n \<le> 64"
      by (auto simp: n_def not_less)
    have rep: "sha1_rep (bs @ take n input) ctxt'"
      unfolding ctxt'_def sha1_rep_c64
      by (rule sha1_rep_put [OF less.prems]) (use False n nn cnt in auto)
    have "length (drop n input) < length input" using n by simp
    from less.hyps [OF this rep]
    have IH: "sha1_rep (bs @ input) (sha1_loop ctxt' (drop n input))"
      "c64 (sha1_loop ctxt' (drop n input)) = c64 ctxt' + of_nat (length (drop n input) * 8)"
      by (simp_all del: length_drop)
    have "c64 ctxt' + of_nat (length (drop n input) * 8) = c64 ctxt + of_nat (n * 8 + length (drop n input) * 8)"
      by (simp add: ctxt'_def)
    also have "n * 8 + length (drop n input) * 8 = length input * 8" using n(1) by simp
    finally show ?thesis
      using IH sha1_loop_unfold [OF less.prems False n_def] by (simp add: ctxt'_def)
  qed
qed

subsection \<open>Padding and the digest\<close>

lemma bzero_fill:
  "unat (cnt ctxt) = p \<Longrightarrow>
   (bzero_at p n ctxt)\<lparr>cnt := (cnt (bzero_at p n ctxt) + of_nat n) mod 64\<rparr>
     = sha1_fill (replicate n 0) ctxt"
  by (simp add: bzero_at_def sha1_fill_def)

lemma fold_PUTPAD_rep:
  "sha1_rep bs ctxt \<Longrightarrow> c64 ctxt = x \<Longrightarrow>
   sha1_rep (bs @ map (\<lambda>i. ucast (drop_bit (8 * i) x)) is)
     (fold (\<lambda>i ctxt. PUTPAD (c_byte i ctxt) ctxt) is ctxt)"
proof (induction "is" arbitrary: bs ctxt)
  case Nil
  then show ?case by simp
next
  case (Cons i "is")
  have "sha1_rep (bs @ [ucast (drop_bit (8 * i) x)]) (PUTPAD (c_byte i ctxt) ctxt)"
    using Cons.prems by (simp add: sha1_rep_PUTPAD c_byte_def)
  from Cons.IH [OF this] Cons.prems show ?case by (simp add: PUTPAD_c64)
qed

lemma pad_count:
  "(n + 1) mod 64 = (p::nat) \<Longrightarrow>
   (if 64 - p < 8 then 64 - p + 56 else 56 - p) = (119 - n mod 64) mod 64"
proof -
  assume p: "(n + 1) mod 64 = p"
  have n: "n mod 64 < 64" by simp
  show ?thesis
  proof (cases "n mod 64 = 63")
    case True
    then have "p = 0" using p by (simp add: mod_Suc)
    with True show ?thesis by simp
  next
    case False
    with n have "p = n mod 64 + 1" using p by (simp add: mod_Suc split: if_splits)
    moreover have "(119 - n mod 64) mod 64 = (if n mod 64 \<le> 55 then 55 - n mod 64 else 119 - n mod 64)"
    proof (cases "n mod 64 \<le> 55")
      case True
      then have "119 - n mod 64 = (55 - n mod 64) + 64" by simp
      then have "(119 - n mod 64) mod 64 = (55 - n mod 64) mod 64" by (metis mod_add_self2)
      with True show ?thesis by simp
    next
      case False
      then show ?thesis by simp
    qed
    ultimately show ?thesis using n False by auto
  qed
qed

lemma put_length_rep:
  "sha1_rep bs ctxt \<Longrightarrow> c64 ctxt = x \<Longrightarrow> sha1_rep (bs @ be64 x) (sha1_put_length ctxt)"
  unfolding sha1_put_length_def be64_def by (rule fold_PUTPAD_rep)

lemma sha1_pad_rep:
  assumes "sha1_rep msg ctxt" and "c64 ctxt = of_nat (length msg * 8)"
  shows "h32 (sha1_pad ctxt) = fips_hash fips_H0 (fips_pad msg)"
proof -
  define c1 where "c1 = PUTPAD 0x80 ctxt"
  define p where "p = (length msg + 1) mod 64"
  have c1: "sha1_rep (msg @ [0x80]) c1" using assms(1) by (simp add: c1_def sha1_rep_PUTPAD)
  have p: "unat (cnt c1) = p" "p < 64" using c1 by (simp_all add: sha1_rep_def p_def)
  define c2 where "c2 = (if 64 - p < 8 then sha1_step (sha1_fill (replicate (64 - p) 0) c1) else c1)"
  define z where "z = (if 64 - p < 8 then 64 - p else 0)"
  define q where "q = (if 64 - p < 8 then 0 else p)"
  have c2: "sha1_rep (msg @ [0x80] @ replicate z 0) c2"
  proof (cases "64 - p < 8")
    case True
    then show ?thesis
      using sha1_rep_fill_step [OF c1, of "replicate (64 - p) 0"] p by (simp add: c2_def z_def p_def)
  next
    case False
    then show ?thesis using c1 by (simp add: c2_def z_def)
  qed
  have q: "unat (cnt c2) = q"
    using p unat_cnt_add [of "64 - p" "cnt c1"]
    by (simp add: c2_def q_def sha1_step_frame sha1_fill_def del: of_nat_diff)
  define c3 where "c3 = sha1_fill (replicate (64 - q - 8) 0) c2"
  have c3: "sha1_rep ((msg @ [0x80] @ replicate z 0) @ replicate (64 - q - 8) 0) c3"
    unfolding c3_def by (rule sha1_rep_fill [OF c2]) (use c2 q in \<open>auto simp: sha1_rep_def\<close>)
  have "c64 c3 = c64 ctxt"
    by (simp add: c3_def c2_def c1_def sha1_fill_def sha1_step_frame PUTPAD_c64)
  from put_length_rep [OF c3 this] assms(2)
  have fin: "sha1_rep (((msg @ [0x80] @ replicate z 0) @ replicate (64 - q - 8) 0) @ be64 (of_nat (length msg * 8)))
     (sha1_put_length c3)"
    by simp
  have "z + (64 - q - 8) = (119 - length msg mod 64) mod 64"
    using pad_count [of "length msg" p] p(2) by (auto simp: z_def q_def p_def split: if_splits)
  then have pad: "(msg @ [0x80] @ replicate z 0) @ replicate (64 - q - 8) 0 =
      msg @ [0x80] @ replicate ((119 - length msg mod 64) mod 64) (0 :: u8)"
    by (simp add: replicate_add [symmetric])
  from fin have "sha1_rep (fips_pad msg)
     (sha1_put_length c3)"
    unfolding pad by (simp add: fips_pad_def)
  moreover have "sha1_pad ctxt = sha1_put_length c3"
  proof -
    have e: "unat (cnt c1) mod 64 = p" "unat (cnt c2) mod 64 = q" using p q by (simp_all add: q_def)
    show ?thesis
    proof (cases "64 - p < 8")
      case True
      then have c2e: "sha1_step (sha1_fill (replicate (64 - p) 0) c1) = c2" and "q = 0"
        by (simp_all add: c2_def q_def)
      show ?thesis
        unfolding sha1_pad_def Let_def c1_def [symmetric] e(1)
        by (simp only: True if_True prod.case bzero_fill [OF p(1)] c2e e(2) bzero_fill [OF q]
          c3_def [symmetric])
    next
      case False
      then have "c1 = c2" and "p = q" by (simp_all add: c2_def q_def)
      show ?thesis
        unfolding sha1_pad_def Let_def c1_def [symmetric] e(1)
        by (simp only: False if_False prod.case) (simp only: \<open>c1 = c2\<close> \<open>p = q\<close> bzero_fill [OF q] c3_def [symmetric])
    qed
  qed
  ultimately show ?thesis by (simp add: sha1_rep_def)
qed

lemma length_fips_hash: "length H = 5 \<Longrightarrow> length (fips_hash H bs) = 5"
proof (induction H bs rule: fips_hash.induct)
  case (1 H bs)
  have "length (fips_block H (take 64 bs)) = 5"
    by (simp add: fips_block_def split: prod.splits)
  with 1 show ?case by (cases "length bs < 64") (simp_all add: fips_hash.simps [of H])
qed

lemma digest_swap:
  "map (\<lambda>i. concat (map le32 [a, b, c, d, e]) ! (4 * (i div 4) + (3 - i mod 4))) [0..<20]
     = concat (map be32 [a, b, c, d, e])"
  by (simp add: le32_def be32_def upt_rec)

subsection \<open>Properties\<close>

text \<open>C13: The code computes SHA-1: for every message (its length in bits taken modulo
  \<open>2^64\<close>, as the 64-bit counter does) the digest is the one FIPS 180 defines, so the in-place
  circular schedule, the block-wise input loop and the two-block padding case are all right.\<close>

theorem SHA1_is_fips_sha1: "SHA1 d = fips_sha1 d"
proof -
  let ?c = "sha1_loop sha1_init d"
  have "sha1_rep ([] @ d) ?c \<and> c64 ?c = c64 sha1_init + of_nat (length d * 8)"
    by (rule sha1_loop_rep [OF sha1_rep_init])
  then have "sha1_rep d ?c" and "c64 ?c = of_nat (length d * 8)"
    by (simp_all add: sha1_init_def)
  then have h: "h32 (sha1_pad ?c) = fips_hash fips_H0 (fips_pad d)" by (rule sha1_pad_rep)
  have "length (fips_hash fips_H0 (fips_pad d)) = 5"
    by (rule length_fips_hash) (simp add: fips_H0_def)
  then obtain v w x y z where "fips_hash fips_H0 (fips_pad d) = [v, w, x, y, z]"
    by (auto simp: numeral_eq_Suc length_Suc_conv)
  then show ?thesis
    using digest_swap [of v w x y z]
    by (simp add: SHA1_def sha1_result_def h fips_sha1_def fips_H0_def [symmetric] Let_def
      del: upt_Suc upt_rec_numeral)
qed

end
