(* ===== verification/Lextable.thy ===== *)
theory Lextable
  imports Prelude
begin

text \<open>
  The lexer of header names: the generated table \<open>lib/lextable.h\<close> (546 bytes of two-byte
  entries and terminal markers), \<open>lextable_decode\<close> of \<open>lib/parsers.c\<close>, and the token set of
  \<open>lib/minilex.c\<close> from which the table was generated. \<open>lex_words\<close> lists every string the
  table spells out; the lexer accepts exactly those, in any letter case, and they are exactly
  the token set, each with its index.
\<close>

definition lextable_lo :: bytes where
  "lextable_lo =
  [0x67, 0x0C, 0x70, 0x0F, 0x68, 0x14, 0x63, 0x19, 0x73, 0x26, 0x75, 0x4C, 0x6F, 0x53, 0x0D,
   0x5F, 0x61, 0x90, 0x69, 0x98, 0x64, 0xF4, 0xF2, 0xF8, 0xE5, 0x01, 0xF4, 0x01, 0xA0, 0x01,
   0x80, 0x00, 0x6F, 0x02, 0xF2, 0xB6, 0xF3, 0x01, 0xF4, 0x01, 0xA0, 0x01, 0x81, 0x00, 0x6F,
   0x02, 0xF4, 0x79, 0xF3, 0x01, 0xF4, 0x01, 0xBA, 0x01, 0x82, 0x00, 0x6F, 0x02, 0xE1, 0xB0,
   0x6E, 0x02, 0xEF, 0xC8, 0x6E, 0x02, 0xF4, 0xCB, 0xE5, 0x01, 0xE3, 0x01, 0xF4, 0x01, 0xE9,
   0x01, 0xEF, 0x01, 0xEE, 0x01, 0xBA, 0x01, 0x83, 0x00, 0xE5, 0x01, 0xE3, 0x01, 0xAD, 0x01,
   0xF7, 0x01, 0xE5, 0x01, 0xE2, 0x01, 0xF3, 0x01, 0xEF, 0x01, 0xE3, 0x01, 0xEB, 0x01, 0xE5,
   0x01, 0xF4, 0x01, 0xAD, 0x01, 0x6B, 0x08, 0x70, 0x10, 0x64, 0x27, 0x76, 0x2F, 0x6F, 0x36,
   0x65, 0x3C, 0x61, 0x46, 0xEE, 0x4C, 0xE5, 0x01, 0xF9, 0x01, 0x31, 0x03, 0x32, 0x04, 0xBA,
   0x25, 0xBA, 0x01, 0x84, 0x00, 0xBA, 0x01, 0x85, 0x00, 0xF2, 0x01, 0xEF, 0x01, 0xF4, 0x01,
   0xEF, 0x01, 0xE3, 0x01, 0xEF, 0x01, 0xEC, 0x01, 0xBA, 0x01, 0x86, 0x00, 0xF0, 0x01, 0xE7,
   0x01, 0xF2, 0x01, 0xE1, 0x01, 0xE4, 0x01, 0xE5, 0x01, 0xBA, 0x01, 0x87, 0x00, 0xF2, 0x01,
   0xE9, 0x01, 0xE7, 0x01, 0xE9, 0x01, 0xEE, 0x01, 0xBA, 0x01, 0x88, 0x00, 0xF2, 0x01, 0xE1,
   0x01, 0xE6, 0x01, 0xF4, 0x01, 0xBA, 0x01, 0x89, 0x00, 0x8A, 0x01, 0x8A, 0x00, 0x8B, 0x00,
   0xE5, 0x01, 0xF2, 0x01, 0xF3, 0x01, 0xE9, 0x01, 0xEF, 0x01, 0xEE, 0x01, 0xBA, 0x01, 0x8C,
   0x00, 0xF2, 0x01, 0xE9, 0x01, 0xE7, 0x01, 0xE9, 0x01, 0xEE, 0x01, 0xBA, 0x01, 0x8D, 0x00,
   0xF8, 0x01, 0xF4, 0x01, 0xE5, 0x01, 0xEE, 0x01, 0xF3, 0x01, 0xE9, 0x01, 0xEF, 0x01, 0xEE,
   0x01, 0xF3, 0x01, 0xBA, 0x01, 0x8E, 0x00, 0xE3, 0x01, 0xE3, 0x01, 0xE5, 0x01, 0xF0, 0x01,
   0xF4, 0x01, 0xBA, 0x01]"
definition lextable_hi :: bytes where
  "lextable_hi =
  [0x8F, 0x00, 0xEF, 0x01, 0xEE, 0x01, 0xE3, 0x01, 0xE5, 0x01, 0xBA, 0x01, 0x90, 0x00, 0xF4,
   0x01, 0xF0, 0x01, 0xAF, 0x01, 0xB1, 0x01, 0xAE, 0x01, 0xB1, 0x01, 0xA0, 0x01, 0x91, 0x00,
   0x63, 0x02, 0xF5, 0x41, 0xE3, 0x01, 0xE5, 0x01, 0xF0, 0x01, 0xF4, 0x01, 0x3A, 0x02, 0xAD,
   0x14, 0x92, 0x00, 0xE6, 0x01, 0xAD, 0x01, 0xED, 0x01, 0xEF, 0x01, 0xE4, 0x01, 0xE9, 0x01,
   0xE6, 0x01, 0xE9, 0x01, 0xE5, 0x01, 0xE4, 0x01, 0xAD, 0x01, 0xF3, 0x01, 0xE9, 0x01, 0xEE,
   0x01, 0xE3, 0x01, 0xE5, 0x01, 0xBA, 0x01, 0x93, 0x00, 0x65, 0x02, 0xEC, 0x0A, 0xEE, 0x01,
   0xE3, 0x01, 0xEF, 0x01, 0xE4, 0x01, 0xE9, 0x01, 0xEE, 0x01, 0xE7, 0x01, 0xBA, 0x01, 0x94,
   0x00, 0xE1, 0x01, 0xEE, 0x01, 0xE7, 0x01, 0xF5, 0x01, 0xE1, 0x01, 0xE7, 0x01, 0xE5, 0x01,
   0xBA, 0x01, 0x95, 0x00, 0xE1, 0x01, 0xE7, 0x01, 0xED, 0x01, 0xE1, 0x01, 0xBA, 0x01, 0x96,
   0x00, 0xE3, 0x01, 0xE8, 0x01, 0xE5, 0x01, 0xAD, 0x01, 0xE3, 0x01, 0xEF, 0x01, 0xEE, 0x01,
   0xF4, 0x01, 0xF2, 0x01, 0xEF, 0x01, 0xEC, 0x01, 0xBA, 0x01, 0x97, 0x00, 0xF4, 0x01, 0xE8,
   0x01, 0xEF, 0x01, 0xF2, 0x01, 0xE9, 0x01, 0xFA, 0x01, 0xE1, 0x01, 0xF4, 0x01, 0xE9, 0x01,
   0xEF, 0x01, 0xEE, 0x01, 0xBA, 0x01, 0x98, 0x00, 0xEB, 0x01, 0xE9, 0x01, 0xE5, 0x01, 0xBA,
   0x01, 0x99, 0x00, 0xE5, 0x01, 0xEE, 0x01, 0xF4, 0x01, 0xAD, 0x01, 0x6C, 0x02, 0xF4, 0x08,
   0xE5, 0x01, 0xEE, 0x01, 0xE7, 0x01, 0xF4, 0x01, 0xE8, 0x01, 0xBA, 0x01, 0x9A, 0x00, 0xF9,
   0x01, 0xF0, 0x01, 0xE5, 0x01, 0xBA, 0x01, 0x9B, 0x00, 0xE1, 0x01, 0xF4, 0x01, 0xE5, 0x01,
   0xBA, 0x01, 0x9C, 0x00, 0x61, 0x02, 0xE5, 0x06, 0xEE, 0x01, 0xE7, 0x01, 0xE5, 0x01, 0xBA,
   0x01, 0x9D, 0x00, 0xE6, 0x01, 0xE5, 0x01, 0xF2, 0x01, 0xE5, 0x01, 0xF2, 0x01, 0xBA, 0x01,
   0x9E, 0x00]"
definition lextable :: bytes where
  "lextable = lextable_lo @ lextable_hi"

text \<open>\<open>tolower\<close> of the C locale; bytes above 127 are negative as \<open>char\<close> and unchanged.\<close>

definition tolower :: "u8 \<Rightarrow> u8" where
  "tolower c = (if 65 \<le> c \<and> c \<le> 90 then c + 32 else c)"

function lextable_decode_from :: "nat \<Rightarrow> u8 \<Rightarrow> int option" where
  "lextable_decode_from pos c =
     (if pos + 1 < length lextable then
        if lextable ! (pos + 1) = 0 then Some (int pos)
        else if lextable ! pos AND 0x7f = tolower c
          then Some (int pos + int (unat (lextable ! (pos + 1))) * 2)
        else if lextable ! pos AND 0x80 \<noteq> 0 then Some (-1)
        else lextable_decode_from (pos + 2) c
      else None)"
  by pat_completeness auto
termination
  by (relation "measure (\<lambda>(pos, _). length lextable - pos)") auto

declare lextable_decode_from.simps [simp del]

definition lextable_decode :: "int \<Rightarrow> u8 \<Rightarrow> int option" where
  "lextable_decode pos c = (if pos \<ge> 0 then lextable_decode_from (nat pos) c else Some pos)"

definition minilex_set :: "bytes list" where
  "minilex_set =
    [str ''get '',
     str ''post '',
     str ''host:'',
     str ''connection:'',
     str ''sec-websocket-key1:'',
     str ''sec-websocket-key2:'',
     str ''sec-websocket-protocol:'',
     str ''upgrade:'',
     str ''origin:'',
     str ''sec-websocket-draft:'',
     [0x0d, 0x0a],
     str ''sec-websocket-key:'',
     str ''sec-websocket-version:'',
     str ''sec-websocket-origin:'',
     str ''sec-websocket-extensions:'',
     str ''sec-websocket-accept:'',
     str ''sec-websocket-nonce:'',
     str ''http/1.1 '',
     str ''accept:'',
     str ''if-modified-since:'',
     str ''accept-encoding:'',
     str ''accept-language:'',
     str ''pragma:'',
     str ''cache-control:'',
     str ''authorization:'',
     str ''cookie:'',
     str ''content-length:'',
     str ''content-type:'',
     str ''date:'',
     str ''range:'',
     str ''referer:'']"

text \<open>
  Decoding a whole name, as the \<open>WSI_TOKEN_NAME_PART\<close> state does character by character: the
  token index when the last character reaches a terminal marker.
\<close>

fun lex_run :: "int \<Rightarrow> bytes \<Rightarrow> u8 option" where
  "lex_run pos [] = None"
| "lex_run pos (c # cs) =
     (case lextable_decode pos c of
        None \<Rightarrow> None
      | Some p \<Rightarrow>
          if p < 0 then None
          else if lextable ! (nat p + 1) = 0
            then (if cs = [] then Some (lextable ! nat p AND 0x7f) else None)
          else lex_run p cs)"

subsection \<open>Every word of the table\<close>

definition lex_ok :: "nat \<Rightarrow> bool" where
  "lex_ok pos \<longleftrightarrow> pos + 1 < length lextable \<and>
     (lextable ! (pos + 1) \<noteq> 0 \<longrightarrow>
        pos + 2 * unat (lextable ! (pos + 1)) + 1 < length lextable \<and>
        (lextable ! pos AND 0x80 = 0 \<longrightarrow> pos + 3 < length lextable \<and> lextable ! (pos + 3) \<noteq> 0))"

text \<open>
  The words from a suffix of the table: jumps are forward and relative, so the recursion is on
  the suffix.
\<close>

function lex_words :: "bytes \<Rightarrow> (bytes \<times> u8) list" where
  "lex_words (b # d # rest) =
     (if d = 0 then [([], b AND 0x7f)]
      else map (\<lambda>(w, t). ((b AND 0x7f) # w, t)) (lex_words (drop (2 * unat d - 2) rest))
             @ (if b AND 0x80 \<noteq> 0 then [] else lex_words rest))"
| "lex_words [] = []"
| "lex_words [b] = []"
  by pat_completeness auto
termination
  by (relation "measure length") auto

text \<open>
  The shape that makes first-match decoding complete: entries of one state spell different
  characters, only a state's single entry is a terminal, and jumps stay inside the table.
\<close>

definition lex_branch :: "bytes \<Rightarrow> bool" where
  "lex_branch xs = (case xs of b # d # _ \<Rightarrow> d \<noteq> 0 | _ \<Rightarrow> False)"

fun lex_siblings :: "bytes \<Rightarrow> bytes" where
  "lex_siblings (b # d # rest) = (b AND 0x7f) # (if b AND 0x80 \<noteq> 0 then [] else lex_siblings rest)"
| "lex_siblings _ = []"

function lex_det :: "bytes \<Rightarrow> bool" where
  "lex_det (b # d # rest) =
     (if d = 0 then True
      else lex_det (drop (2 * unat d - 2) rest) \<and>
        (if b AND 0x80 \<noteq> 0 then True
         else lex_branch rest \<and> b AND 0x7f \<notin> set (lex_siblings rest) \<and> lex_det rest))"
| "lex_det [] = False"
| "lex_det [b] = False"
  by pat_completeness auto
termination
  by (relation "measure length") auto

lemma lex_words_table:
  "lex_words lextable = map (\<lambda>i. (minilex_set ! i, of_nat i))
     [0, 1, 22, 2, 17, 3, 26, 27, 25, 23, 4, 5, 11, 6, 9, 12, 13, 14, 15, 16, 7, 8, 10, 18, 20, 21, 24, 19, 28, 29, 30]"
  by (simp add: lextable_def lextable_lo_def lextable_hi_def minilex_set_def str_def)

lemma lex_det_table: "lex_det lextable \<and> lex_branch lextable"
  by (simp add: lextable_def lextable_lo_def lextable_hi_def lex_branch_def)

subsection \<open>The lexer accepts exactly those words\<close>

lemma lex_words_first:
  "lex_branch xs \<Longrightarrow> lex_det xs \<Longrightarrow> (w, t) \<in> set (lex_words xs) \<Longrightarrow>
   \<exists>c cs. w = c # cs \<and> c \<in> set (lex_siblings xs)"
proof (induction xs arbitrary: w rule: lex_words.induct)
  case (1 b d rest)
  then have d: "d \<noteq> 0" by (simp add: lex_branch_def)
  show ?case
  proof (cases "(w, t) \<in> set (lex_words rest) \<and> b AND 0x80 = 0")
    case True
    with "1.prems"(2) d have "lex_branch rest" "lex_det rest" by simp_all
    with "1.IH"(2) [OF d] True obtain c cs where "w = c # cs" "c \<in> set (lex_siblings rest)"
      by blast
    with True show ?thesis by simp
  next
    case False
    with "1.prems"(3) d show ?thesis by (auto split: if_splits)
  qed
qed (simp_all add: lex_branch_def)

lemma drop_entry:
  assumes "b # d # rest = drop pos lextable"
  shows "pos + 1 < length lextable" and "lextable ! pos = b" and "lextable ! (pos + 1) = d"
    and "drop (pos + 2) lextable = rest"
proof -
  have "length (b # d # rest) = length lextable - pos" using assms by simp
  then show len: "pos + 1 < length lextable" by simp
  have "(b # d # rest) ! 0 = lextable ! pos" unfolding assms using len by simp
  then show "lextable ! pos = b" by simp
  have "(b # d # rest) ! 1 = lextable ! (pos + 1)" unfolding assms using len by simp
  then show "lextable ! (pos + 1) = d" by simp
  have "drop 2 (b # d # rest) = drop (pos + 2) lextable" unfolding assms by (simp add: add.commute)
  then show "drop (pos + 2) lextable = rest" by simp
qed

lemma decode_entry:
  assumes "b # d # rest = drop pos lextable" and "d \<noteq> 0"
  shows "lextable_decode_from pos c =
    (if b AND 0x7f = tolower c then Some (int (pos + 2 * unat d))
     else if b AND 0x80 \<noteq> 0 then Some (-1)
     else lextable_decode_from (pos + 2) c)"
proof -
  note e = drop_entry [OF assms(1)]
  show ?thesis
    by (subst lextable_decode_from.simps) (use e(1) assms(2) in \<open>simp add: e(2,3) [simplified]\<close>)
qed

definition lex_next :: "int option \<Rightarrow> bytes \<Rightarrow> u8 option" where
  "lex_next r cs = (case r of None \<Rightarrow> None
     | Some p \<Rightarrow> if p < 0 then None
         else if lextable ! (nat p + 1) = 0
           then (if cs = [] then Some (lextable ! nat p AND 0x7f) else None)
         else lex_run p cs)"

lemma lex_run_next: "lex_run (int pos) (c # cs) = lex_next (lextable_decode_from pos c) cs"
  by (simp add: lex_next_def lextable_decode_def)

lemma lex_next_jump:
  assumes "b # d # rest = drop pos lextable"
  shows "lex_next (Some (int pos)) cs =
    (if d = 0 then (if cs = [] then Some (b AND 0x7f) else None) else lex_run (int pos) cs)"
  using drop_entry(2,3) [OF assms] by (simp add: lex_next_def)

lemma lex_run_entry:
  assumes "xs = drop pos lextable" and "lex_branch xs" and "lex_det xs"
  shows "lex_run (int pos) (c # cs) = Some t \<longleftrightarrow> (tolower c # map tolower cs, t) \<in> set (lex_words xs)"
  using assms
proof (induction xs arbitrary: pos c cs t rule: lex_words.induct)
  case (1 b d rest)
  let ?jump = "drop (2 * unat d - 2) rest"
  from "1.prems"(2) have d: "d \<noteq> 0" by (simp add: lex_branch_def)
  with "1.prems"(3) have det: "lex_det ?jump" by simp
  note entry = drop_entry [OF "1.prems"(1)] and dec = decode_entry [OF "1.prems"(1) d]
  from d have "unat d \<noteq> 0" by (simp add: unat_eq_0)
  then have "2 * unat d - 2 + (pos + 2) = pos + 2 * unat d" by simp
  then have jump: "?jump = drop (pos + 2 * unat d) lextable"
    unfolding entry(4) [symmetric] drop_drop by (rule arg_cong)
  show ?case
  proof (cases "b AND 0x7f = tolower c")
    case True
    have others: "(tolower c # map tolower cs, t) \<notin> set (lex_words rest)" if "b AND 0x80 = 0"
      using lex_words_first [of rest "tolower c # map tolower cs" t] "1.prems"(3) that d True
      by (auto simp del: lex_words.simps)
    obtain b' d' rest' where j: "?jump = b' # d' # rest'"
      using det by (cases ?jump rule: lex_words.cases) auto
    have run: "lex_run (int pos) (c # cs) =
        (if d' = 0 then (if cs = [] then Some (b' AND 0x7f) else None)
         else lex_run (int (pos + 2 * unat d)) cs)"
      unfolding lex_run_next dec using True lex_next_jump [OF trans [OF j [symmetric] jump]] by simp
    have words: "(tolower c # map tolower cs, t) \<in> set (lex_words (b # d # rest))
        \<longleftrightarrow> (map tolower cs, t) \<in> set (lex_words ?jump)"
      using others True d by auto
    show ?thesis
    proof (cases "d' = 0")
      case True
      then have "lex_words ?jump = [([], b' AND 0x7f)]" unfolding j by simp
      then show ?thesis unfolding run words using True by auto
    next
      case False
      then have br: "lex_branch ?jump" unfolding j by (simp add: lex_branch_def)
      show ?thesis
      proof (cases cs)
        case Nil
        have "([], t) \<notin> set (lex_words ?jump)" using lex_words_first [OF br det] by blast
        then show ?thesis unfolding run words using False Nil by simp
      next
        case (Cons c' cs')
        show ?thesis unfolding run words
          using "1.IH"(1) [OF d jump br det, of c' cs' t] False Cons
          by (simp del: lex_words.simps of_nat_add)
      qed
    qed
  next
    case ne: False
    show ?thesis
    proof (cases "b AND 0x80 \<noteq> 0")
      case True
      have "lex_run (int pos) (c # cs) = None"
        unfolding lex_run_next dec using True ne by (simp add: lex_next_def)
      moreover have "(tolower c # map tolower cs, t) \<notin> set (lex_words (b # d # rest))"
        using ne True d by auto
      ultimately show ?thesis by simp
    next
      case nl: False
      have "lex_run (int pos) (c # cs) = lex_run (int (pos + 2)) (c # cs)"
        unfolding lex_run_next dec using ne nl by simp
      moreover have "lex_branch rest" "lex_det rest" using "1.prems"(3) d nl by simp_all
      then have "lex_run (int (pos + 2)) (c # cs) = Some t
          \<longleftrightarrow> (tolower c # map tolower cs, t) \<in> set (lex_words rest)"
        by (rule "1.IH"(2) [OF d nl entry(4) [symmetric]])
      moreover have "(tolower c # map tolower cs, t) \<in> set (lex_words (b # d # rest))
          \<longleftrightarrow> (tolower c # map tolower cs, t) \<in> set (lex_words rest)"
        using ne nl d by auto
      ultimately show ?thesis by simp
    qed
  qed
next
  case 2
  from "2.prems"(2) show ?case by (simp add: lex_branch_def)
next
  case (3 b)
  from "3.prems"(2) show ?case by (simp add: lex_branch_def)
qed

lemma length_minilex_set: "length minilex_set = 31"
  by (simp add: minilex_set_def)

lemma minilex_set_nonempty: "[] \<notin> set minilex_set"
  by (simp add: minilex_set_def byte_simps)

lemma lex_words_set:
  "(w, t) \<in> set (lex_words lextable) \<longleftrightarrow> unat t < length minilex_set \<and> w = minilex_set ! unat t"
proof -
  let ?perm = "[0, 1, 22, 2, 17, 3, 26, 27, 25, 23, 4, 5, 11, 6, 9, 12, 13, 14, 15, 16, 7, 8, 10,
    18, 20, 21, 24, 19, 28, 29, 30] :: nat list"
  have "(w, t) \<in> set (lex_words lextable)
      \<longleftrightarrow> (\<exists>i \<in> set ?perm. w = minilex_set ! i \<and> t = of_nat i)"
    unfolding lex_words_table by auto
  also have "set ?perm = {..<31}" by (auto simp: numeral_eq_Suc less_Suc_eq)
  also have "(\<exists>i \<in> {..<31}. w = minilex_set ! i \<and> t = of_nat i)
      \<longleftrightarrow> unat t < 31 \<and> w = minilex_set ! unat t"
    by (auto simp: unat_of_nat intro!: bexI [of _ "unat t"])
  finally show ?thesis by (simp add: length_minilex_set)
qed

lemma lex_run_words:
  "lex_run 0 w = Some t \<longleftrightarrow> unat t < length minilex_set \<and> map tolower w = minilex_set ! unat t"
proof (cases w)
  case Nil
  have "minilex_set ! unat t \<noteq> []" if "unat t < length minilex_set"
    using nth_mem [OF that] minilex_set_nonempty by metis
  with Nil show ?thesis by auto
next
  case (Cons c cs)
  have "lex_run (int 0) (c # cs) = Some t
      \<longleftrightarrow> (tolower c # map tolower cs, t) \<in> set (lex_words lextable)"
    by (rule lex_run_entry) (simp_all add: lex_det_table)
  then show ?thesis by (simp add: Cons lex_words_set del: lex_run.simps)
qed

text \<open>C25: The header lexer is correct: running it over a byte string from the start of the table
  ends on a terminal marker with index \<open>t\<close> exactly when the string, in any letter case, is the
  token number \<open>t\<close> of the set in \<open>minilex.c\<close>. So the generated table matches its source.\<close>

theorem lexer_accepts_token_set:
  "lex_run 0 w = Some t \<longleftrightarrow> unat t < length minilex_set \<and> map tolower w = minilex_set ! unat t"
  by (rule lex_run_words)

end
