(* ===== verification/Header_Parser.thy ===== *)
theory Header_Parser
  imports Lextable
begin

text \<open>
  The HTTP header parser of \<open>lib/parsers.c\<close>: the header store \<open>struct allocated_headers\<close> of
  \<open>lib/private-libwebsockets.h\<close> (fragments chained through their indices over one byte array)
  and \<open>libwebsocket_parse\<close>, one byte per call, with its URI unescaping and path state machines.
  Each \<open>goto\<close> label of the function is a definition. The result is \<open>None\<close> where the C code would
  touch memory outside an array of the store, else the new state and the returned int.

  Indices, lengths and positions are natural numbers: they are bounded by the arrays, whose
  bounds are reached (and the model stops) before a 16 bit counter can wrap.
\<close>

section \<open>State\<close>

abbreviation (input) "WSI_TOKEN_GET_URI \<equiv> (0::nat)"
abbreviation (input) "WSI_TOKEN_POST_URI \<equiv> (1::nat)"
abbreviation (input) "WSI_TOKEN_HOST \<equiv> (2::nat)"
abbreviation (input) "WSI_TOKEN_CONNECTION \<equiv> (3::nat)"
abbreviation (input) "WSI_TOKEN_PROTOCOL \<equiv> (6::nat)"
abbreviation (input) "WSI_TOKEN_UPGRADE \<equiv> (7::nat)"
abbreviation (input) "WSI_TOKEN_ORIGIN \<equiv> (8::nat)"
abbreviation (input) "WSI_TOKEN_CHALLENGE \<equiv> (10::nat)"
abbreviation (input) "WSI_TOKEN_KEY \<equiv> (11::nat)"
abbreviation (input) "WSI_TOKEN_VERSION \<equiv> (12::nat)"
abbreviation (input) "WSI_TOKEN_SWORIGIN \<equiv> (13::nat)"
abbreviation (input) "WSI_TOKEN_EXTENSIONS \<equiv> (14::nat)"
abbreviation (input) "WSI_TOKEN_ACCEPT \<equiv> (15::nat)"
abbreviation (input) "WSI_TOKEN_HTTP \<equiv> (17::nat)"
abbreviation (input) "WSI_TOKEN_HTTP_CONTENT_LENGTH \<equiv> (26::nat)"
abbreviation (input) "WSI_TOKEN_HTTP_REFERER \<equiv> (30::nat)"
abbreviation (input) "WSI_TOKEN_HTTP_URI_ARGS \<equiv> (31::nat)"
abbreviation (input) "WSI_TOKEN_COUNT \<equiv> (38::nat)"
abbreviation (input) "WSI_TOKEN_NAME_PART \<equiv> (39::nat)"
abbreviation (input) "WSI_TOKEN_SKIPPING \<equiv> (40::nat)"
abbreviation (input) "WSI_TOKEN_SKIPPING_SAW_CR \<equiv> (41::nat)"
abbreviation (input) "WSI_PARSING_COMPLETE \<equiv> (42::nat)"

abbreviation (input) "LWS_MAX_HEADER_LEN \<equiv> (1024::nat)"
abbreviation (input) "HDR_FRAGS \<equiv> (76::nat)"

datatype uri_path_states =
  URIPS_IDLE | URIPS_SEEN_SLASH | URIPS_SEEN_SLASH_DOT | URIPS_SEEN_SLASH_DOT_DOT | URIPS_ARGUMENTS

datatype uri_esc_states = URIES_IDLE | URIES_SEEN_PERCENT | URIES_SEEN_PERCENT_H1

record lws_fragments =
  frag_offset :: nat
  frag_len :: nat
  frag_next :: nat

record allocated_headers =
  ah_next_frag :: nat
  ah_pos :: nat
  ah_frag_index :: "nat list"
  ah_frags :: "lws_fragments list"
  ah_data :: bytes

text \<open>\<open>struct _lws_header_related\<close>, with the two members of \<open>struct libwebsocket\<close> that the parser
  sets.\<close>

record hdr_wsi =
  hdr_ah :: allocated_headers
  lextable_pos :: int
  parser_state :: nat
  hdr_ups :: uri_path_states
  hdr_ues :: uri_esc_states
  esc_stash :: u8
  ietf_spec_revision :: u8
  hdr_parsing_completed :: bool

type_synonym hdr_result = "(hdr_wsi \<times> int) option"

section \<open>The header store\<close>

definition lws_allocate_header_table :: "allocated_headers \<Rightarrow> allocated_headers" where
  "lws_allocate_header_table malloced = malloced
     \<lparr>ah_frag_index := replicate WSI_TOKEN_COUNT 0, ah_next_frag := 0, ah_pos := 0\<rparr>"

text \<open>The chain walk: it would not return on a cyclic chain.\<close>

partial_function (option) frag_chain_len :: "lws_fragments list \<Rightarrow> nat \<Rightarrow> nat \<Rightarrow> nat option" where
  "frag_chain_len frags n len =
     Option.bind (aget frags n) (\<lambda>f.
       if frag_next f = 0 then Some (len + frag_len f)
       else frag_chain_len frags (frag_next f) (len + frag_len f))"

definition lws_hdr_total_length :: "allocated_headers \<Rightarrow> nat \<Rightarrow> nat option" where
  "lws_hdr_total_length ah h = do {
     n \<leftarrow> aget (ah_frag_index ah) h;
     if n = 0 then Some 0 else frag_chain_len (ah_frags ah) n 0 }"

text \<open>The C string that starts at an offset of an array; \<open>None\<close> when no terminator follows.\<close>

fun cstr :: "bytes \<Rightarrow> bytes option" where
  "cstr [] = None"
| "cstr (c # cs) = (if c = 0 then Some [] else map_option ((#) c) (cstr cs))"

text \<open>
  \<open>lws_hdr_copy\<close>: \<open>strcpy\<close> of each fragment at the running destination (which advances by the
  fragment's \<open>len\<close>, whatever \<open>strcpy\<close> wrote). The destination is an array of \<open>len\<close> bytes.
\<close>

partial_function (option) hdr_copy_loop ::
    "allocated_headers \<Rightarrow> nat \<Rightarrow> bytes \<Rightarrow> nat \<Rightarrow> bytes option" where
  "hdr_copy_loop ah n buf dest =
     Option.bind (aget (ah_frags ah) n) (\<lambda>f.
     Option.bind (cstr (drop (frag_offset f) (ah_data ah))) (\<lambda>s.
     Option.bind (ablit buf dest (s @ [0])) (\<lambda>buf.
       if frag_next f = 0 then Some buf
       else hdr_copy_loop ah (frag_next f) buf (dest + frag_len f))))"

definition lws_hdr_copy :: "allocated_headers \<Rightarrow> bytes \<Rightarrow> nat \<Rightarrow> (bytes \<times> int) option" where
  "lws_hdr_copy ah dest h = do {
     toklen \<leftarrow> lws_hdr_total_length ah h;
     if length dest \<le> toklen then Some (dest, -1)
     else do {
       n \<leftarrow> aget (ah_frag_index ah) h;
       if n = 0 then Some (dest, 0)
       else do { buf \<leftarrow> hdr_copy_loop ah n dest 0; Some (buf, int toklen) } } }"

text \<open>\<open>lws_hdr_simple_ptr\<close> as the offset into the data it points to; \<open>Some None\<close> is \<open>NULL\<close>.\<close>

definition lws_hdr_simple_ptr :: "allocated_headers \<Rightarrow> nat \<Rightarrow> nat option option" where
  "lws_hdr_simple_ptr ah h = do {
     n \<leftarrow> aget (ah_frag_index ah) h;
     if n = 0 then Some None
     else do { f \<leftarrow> aget (ah_frags ah) n; Some (Some (frag_offset f)) } }"

text \<open>The members of the current fragment \<open>frags[next_frag_index]\<close>.\<close>

definition cur_frag :: "allocated_headers \<Rightarrow> lws_fragments option" where
  "cur_frag ah = aget (ah_frags ah) (ah_next_frag ah)"

definition set_cur_len :: "(nat \<Rightarrow> nat) \<Rightarrow> allocated_headers \<Rightarrow> allocated_headers option" where
  "set_cur_len g ah = do {
     f \<leftarrow> cur_frag ah;
     frags \<leftarrow> aset (ah_frags ah) (ah_next_frag ah) (f\<lparr>frag_len := g (frag_len f)\<rparr>);
     Some (ah\<lparr>ah_frags := frags\<rparr>) }"

definition put_data :: "allocated_headers \<Rightarrow> u8 \<Rightarrow> allocated_headers option" where
  "put_data ah c = do {
     dat \<leftarrow> aset (ah_data ah) (ah_pos ah) c;
     Some (ah\<lparr>ah_data := dat, ah_pos := ah_pos ah + 1\<rparr>) }"

text \<open>A new empty fragment at the current position, in the slot \<open>next_frag_index\<close> already names.\<close>

definition open_frag :: "allocated_headers \<Rightarrow> allocated_headers option" where
  "open_frag ah = do {
     frags \<leftarrow> aset (ah_frags ah) (ah_next_frag ah)
                \<lparr>frag_offset = ah_pos ah, frag_len = 0, frag_next = 0\<rparr>;
     Some (ah\<lparr>ah_frags := frags\<rparr>) }"

definition set_frag_index :: "allocated_headers \<Rightarrow> nat \<Rightarrow> allocated_headers option" where
  "set_frag_index ah h = do {
     fi \<leftarrow> aset (ah_frag_index ah) h (ah_next_frag ah);
     Some (ah\<lparr>ah_frag_index := fi\<rparr>) }"

text \<open>\<open>issue_char\<close>: with the end-of-store check, then the byte, counted unless it is \<open>NUL\<close>.\<close>

definition issue_char :: "allocated_headers \<Rightarrow> u8 \<Rightarrow> (allocated_headers \<times> int) option" where
  "issue_char ah c =
     (if ah_pos ah = LWS_MAX_HEADER_LEN then Some (ah, -1)
      else do {
        ah \<leftarrow> put_data ah c;
        ah \<leftarrow> (if c \<noteq> 0 then set_cur_len Suc ah else Some ah);
        Some (ah, 0) })"

fun simple_create_loop :: "allocated_headers \<Rightarrow> bytes \<Rightarrow> (allocated_headers \<times> int) option" where
  "simple_create_loop ah [] = issue_char ah 0"
| "simple_create_loop ah (c # cs) = do {
     (ah, r) \<leftarrow> issue_char ah c;
     if r < 0 then Some (ah, -1) else simple_create_loop ah cs }"

definition lws_hdr_simple_create ::
    "allocated_headers \<Rightarrow> nat \<Rightarrow> bytes \<Rightarrow> (allocated_headers \<times> int) option" where
  "lws_hdr_simple_create ah h s =
     (let ah = ah\<lparr>ah_next_frag := ah_next_frag ah + 1\<rparr> in
      if ah_next_frag ah = HDR_FRAGS then Some (ah, -1)
      else do {
        ah \<leftarrow> set_frag_index ah h;
        ah \<leftarrow> open_frag ah;
        simple_create_loop ah s })"

text \<open>\<open>char_to_hex\<close>: the digit's value, -1 for any other character.\<close>

definition char_to_hex :: "u8 \<Rightarrow> int" where
  "char_to_hex c =
     (if 0x30 \<le> c \<and> c \<le> 0x39 then uint c - 0x30
      else if 0x61 \<le> c \<and> c \<le> 0x66 then uint c - 0x61 + 10
      else if 0x41 \<le> c \<and> c \<le> 0x46 then uint c - 0x41 + 10
      else -1)"

text \<open>\<open>atoi\<close> on a C string: white space, a sign, then digits.\<close>

definition c_isspace :: "u8 \<Rightarrow> bool" where
  "c_isspace c \<longleftrightarrow> c = 0x20 \<or> 0x09 \<le> c \<and> c \<le> 0x0d"

definition c_isdigit :: "u8 \<Rightarrow> bool" where
  "c_isdigit c \<longleftrightarrow> 0x30 \<le> c \<and> c \<le> 0x39"

definition atoi_digits :: "bytes \<Rightarrow> int" where
  "atoi_digits s = foldl (\<lambda>n c. n * 10 + (uint c - 0x30)) 0 (takeWhile c_isdigit s)"

definition c_atoi :: "bytes \<Rightarrow> int" where
  "c_atoi s = (case dropWhile c_isspace s of
      [] \<Rightarrow> 0
    | c # cs \<Rightarrow> if c = 0x2d then - atoi_digits cs
                else if c = 0x2b then atoi_digits cs
                else atoi_digits (c # cs))"

declare frag_chain_len.simps [code] hdr_copy_loop.simps [code]

section \<open>The parser\<close>

definition set_parsing_complete :: "hdr_wsi \<Rightarrow> hdr_result" where
  "set_parsing_complete w = do {
     let ah = hdr_ah w;
     up \<leftarrow> lws_hdr_total_length ah WSI_TOKEN_UPGRADE;
     ver \<leftarrow> (if up \<noteq> 0 then lws_hdr_total_length ah WSI_TOKEN_VERSION else Some 0);
     rev \<leftarrow> (if ver \<noteq> 0
             then do {
               p \<leftarrow> lws_hdr_simple_ptr ah WSI_TOKEN_VERSION;
               off \<leftarrow> p;
               s \<leftarrow> cstr (drop off (ah_data ah));
               Some (word_of_int (c_atoi s)) }
             else Some (ietf_spec_revision w));
     Some (w\<lparr>ietf_spec_revision := rev, parser_state := WSI_PARSING_COMPLETE,
             hdr_parsing_completed := True\<rparr>, 0) }"

definition parse_swallow :: "hdr_wsi \<Rightarrow> hdr_result" where
  "parse_swallow w =
     (if parser_state w = WSI_TOKEN_CHALLENGE then set_parsing_complete w else Some (w, 0))"

definition parse_spill :: "hdr_wsi \<Rightarrow> u8 \<Rightarrow> hdr_result" where
  "parse_spill w c = do {
     (ah, r) \<leftarrow> issue_char (hdr_ah w) c;
     let w = w\<lparr>hdr_ah := ah\<rparr>;
     if r < 0 then Some (w, -1) else parse_swallow w }"

text \<open>The \<open>?\<close> that starts the URI arguments: no bound is checked here.\<close>

definition start_uri_args :: "hdr_wsi \<Rightarrow> hdr_result" where
  "start_uri_args w = do {
     ah \<leftarrow> put_data (hdr_ah w) 0;
     let ah = ah\<lparr>ah_next_frag := ah_next_frag ah + 1\<rparr>;
     ah \<leftarrow> open_frag ah;
     ah \<leftarrow> set_frag_index ah WSI_TOKEN_HTTP_URI_ARGS;
     parse_swallow (w\<lparr>hdr_ah := ah, hdr_ups := URIPS_ARGUMENTS\<rparr>) }"

definition parse_check_eol :: "hdr_wsi \<Rightarrow> u8 \<Rightarrow> hdr_result" where
  "parse_check_eol w c =
     (if parser_state w \<noteq> WSI_TOKEN_CHALLENGE \<and> c = 0x0d
      then parse_spill (w\<lparr>parser_state := WSI_TOKEN_SKIPPING_SAW_CR\<rparr>) 0
      else if c = 0x3f then start_uri_args w
      else parse_spill w c)"

text \<open>Backing up one directory level: the do-while loop of the \<open>/..\<close> case. The length bounds its
  rounds, so the length is fuel enough; \<open>pos\<close> is never below the length there.\<close>

fun backup_loop :: "nat \<Rightarrow> bytes \<Rightarrow> nat \<Rightarrow> nat \<Rightarrow> (nat \<times> nat) option" where
  "backup_loop 0 dat pos len = None"
| "backup_loop (Suc fuel) dat pos len =
     (if pos = 0 then None
      else let pos = pos - 1; len = len - 1 in do {
        again \<leftarrow> (if len > 1 then do { d \<leftarrow> aget dat pos; Some (d \<noteq> 0x2f) } else Some False);
        if again then backup_loop fuel dat pos len else Some (pos, len) })"

definition uri_backup :: "allocated_headers \<Rightarrow> allocated_headers option" where
  "uri_backup ah = do {
     f \<leftarrow> cur_frag ah;
     if frag_len f > 2 then do {
       (pos, len) \<leftarrow> backup_loop (frag_len f) (ah_data ah) (ah_pos ah - 1) (frag_len f - 1);
       ah \<leftarrow> set_cur_len (\<lambda>_. len) ah;
       Some (ah\<lparr>ah_pos := pos\<rparr>) }
     else Some ah }"

definition parse_uri_path :: "hdr_wsi \<Rightarrow> u8 \<Rightarrow> hdr_result" where
  "parse_uri_path w c =
     (case hdr_ups w of
        URIPS_IDLE \<Rightarrow>
          parse_check_eol (if c = 0x2f then w\<lparr>hdr_ups := URIPS_SEEN_SLASH\<rparr> else w) c
      | URIPS_SEEN_SLASH \<Rightarrow>
          if c = 0x2f then parse_swallow w
          else if c = 0x2e then parse_swallow (w\<lparr>hdr_ups := URIPS_SEEN_SLASH_DOT\<rparr>)
          else parse_check_eol (w\<lparr>hdr_ups := URIPS_IDLE\<rparr>) c
      | URIPS_SEEN_SLASH_DOT \<Rightarrow>
          if c = 0x2e then do {
            ah \<leftarrow> uri_backup (hdr_ah w);
            parse_swallow (w\<lparr>hdr_ah := ah, hdr_ups := URIPS_SEEN_SLASH_DOT_DOT\<rparr>) }
          else if c = 0x2f then parse_swallow (w\<lparr>hdr_ups := URIPS_SEEN_SLASH\<rparr>)
          else do {
            (ah, _) \<leftarrow> issue_char (hdr_ah w) 0x2e;
            parse_check_eol (w\<lparr>hdr_ah := ah, hdr_ups := URIPS_IDLE\<rparr>) c }
      | URIPS_SEEN_SLASH_DOT_DOT \<Rightarrow>
          if c = 0x2e \<or> c = 0x2f then parse_swallow w
          else parse_check_eol (w\<lparr>hdr_ups := URIPS_SEEN_SLASH\<rparr>) c
      | URIPS_ARGUMENTS \<Rightarrow> parse_check_eol w c)"

text \<open>\<open>%xx\<close>: \<open>again\<close> is the recursive call on the character that was stashed.\<close>

definition parse_uri_esc :: "(hdr_wsi \<Rightarrow> u8 \<Rightarrow> hdr_result) \<Rightarrow> hdr_wsi \<Rightarrow> u8 \<Rightarrow> hdr_result" where
  "parse_uri_esc again w c =
     (case hdr_ues w of
        URIES_IDLE \<Rightarrow>
          if c = 0x25 then parse_swallow (w\<lparr>hdr_ues := URIES_SEEN_PERCENT\<rparr>)
          else parse_uri_path w c
      | URIES_SEEN_PERCENT \<Rightarrow>
          if char_to_hex c < 0 then do {
            (ah, r) \<leftarrow> issue_char (hdr_ah w) 0x25;
            let w = w\<lparr>hdr_ah := ah\<rparr>;
            if r < 0 then Some (w, -1)
            else parse_uri_path (w\<lparr>hdr_ues := URIES_IDLE\<rparr>) c }
          else parse_swallow (w\<lparr>esc_stash := c, hdr_ues := URIES_SEEN_PERCENT_H1\<rparr>)
      | URIES_SEEN_PERCENT_H1 \<Rightarrow>
          if char_to_hex c < 0 then do {
            (ah, _) \<leftarrow> issue_char (hdr_ah w) 0x25;
            (w, r) \<leftarrow> again (w\<lparr>hdr_ah := ah, hdr_ues := URIES_IDLE\<rparr>) (esc_stash w);
            if r < 0 then Some (w, -1) else parse_uri_path w c }
          else parse_uri_path (w\<lparr>hdr_ues := URIES_IDLE\<rparr>)
                 (push_bit 4 (word_of_int (char_to_hex (esc_stash w))) OR word_of_int (char_to_hex c)))"

definition parse_value :: "(hdr_wsi \<Rightarrow> u8 \<Rightarrow> hdr_result) \<Rightarrow> hdr_wsi \<Rightarrow> u8 \<Rightarrow> hdr_result" where
  "parse_value again w c = do {
     let ah = hdr_ah w;
     n \<leftarrow> aget (ah_frag_index ah) (parser_state w);
     f \<leftarrow> aget (ah_frags ah) n;
     if frag_len f = 0 \<and> c = 0x20 then Some (w, 0)
     else if parser_state w \<noteq> WSI_TOKEN_GET_URI \<and> parser_state w \<noteq> WSI_TOKEN_POST_URI
       then parse_check_eol w c
     else if c = 0x20 then do {
       g \<leftarrow> cur_frag ah;
       (ah, r) \<leftarrow> (if frag_len g = 0 then issue_char ah 0x2f else Some (ah, 0));
       let w = w\<lparr>hdr_ah := ah\<rparr>;
       if r < 0 then Some (w, -1)
       else parse_spill (w\<lparr>parser_state := WSI_TOKEN_SKIPPING\<rparr>) 0 }
     else parse_uri_esc again w c }"

partial_function (option) chain_last :: "lws_fragments list \<Rightarrow> nat \<Rightarrow> nat option" where
  "chain_last frags n =
     Option.bind (aget frags n) (\<lambda>f.
       if frag_next f = 0 then Some n else chain_last frags (frag_next f))"

declare chain_last.simps [code]

definition start_fragment :: "hdr_wsi \<Rightarrow> hdr_result" where
  "start_fragment w =
     (let ah = (hdr_ah w)\<lparr>ah_next_frag := ah_next_frag (hdr_ah w) + 1\<rparr> in
      if ah_next_frag ah = HDR_FRAGS then Some (w\<lparr>hdr_ah := ah\<rparr>, -1)
      else do {
        ah \<leftarrow> open_frag ah;
        n \<leftarrow> aget (ah_frag_index ah) (parser_state w);
        if n = 0 then do {
          ah \<leftarrow> set_frag_index ah (parser_state w);
          Some (w\<lparr>hdr_ah := ah\<rparr>, 0) }
        else do {
          k \<leftarrow> chain_last (ah_frags ah) n;
          f \<leftarrow> aget (ah_frags ah) k;
          frags \<leftarrow> aset (ah_frags ah) k (f\<lparr>frag_next := ah_next_frag ah\<rparr>);
          let ah = ah\<lparr>ah_frags := frags\<rparr>;
          (if ah_pos ah = LWS_MAX_HEADER_LEN then Some (w\<lparr>hdr_ah := ah\<rparr>, -1)
           else do {
             ah \<leftarrow> put_data ah 0x20;
             ah \<leftarrow> set_cur_len Suc ah;
             Some (w\<lparr>hdr_ah := ah\<rparr>, 0) }) } })"

definition parse_name_part :: "hdr_wsi \<Rightarrow> u8 \<Rightarrow> hdr_result" where
  "parse_name_part w c = do {
     p \<leftarrow> lextable_decode (lextable_pos w) c;
     let w = w\<lparr>lextable_pos := p\<rparr>;
     let fi = ah_frag_index (hdr_ah w);
     get \<leftarrow> aget fi WSI_TOKEN_GET_URI;
     post \<leftarrow> aget fi WSI_TOKEN_POST_URI;
     http \<leftarrow> aget fi WSI_TOKEN_HTTP;
     if p < 0 then
       (if get \<noteq> 0 \<or> post \<noteq> 0 \<or> http \<noteq> 0
        then Some (w\<lparr>parser_state := WSI_TOKEN_SKIPPING\<rparr>, 0) else Some (w, -1))
     else do {
       d \<leftarrow> aget lextable (nat p + 1);
       if d \<noteq> 0 then Some (w, 0)
       else do {
         b \<leftarrow> aget lextable (nat p);
         let n = unat (b AND 0x7f);
         if n = WSI_TOKEN_GET_URI \<and> get \<noteq> 0 then Some (w, -1)
         else if n = WSI_TOKEN_POST_URI \<and> post \<noteq> 0 then Some (w, -1)
         else do {
           let n = (if n = WSI_TOKEN_SWORIGIN then WSI_TOKEN_ORIGIN else n);
           let w = w\<lparr>parser_state := WSI_TOKEN_GET_URI + n\<rparr>;
           (if n = WSI_TOKEN_CHALLENGE then set_parsing_complete w else start_fragment w) } } } }"

text \<open>
  \<open>libwebsocket_parse\<close>. The recursive call sees a hexadecimal digit in the state
  \<open>URIES_IDLE\<close>, which makes no further call: a depth of two is enough
  (lemma \<open>parse_depth_enough\<close>).
\<close>

fun parse_depth :: "nat \<Rightarrow> hdr_wsi \<Rightarrow> u8 \<Rightarrow> hdr_result" where
  "parse_depth 0 w c = None"
| "parse_depth (Suc depth) w c =
     (if parser_state w \<le> WSI_TOKEN_HTTP_REFERER then parse_value (parse_depth depth) w c
      else if parser_state w = WSI_TOKEN_NAME_PART then parse_name_part w c
      else if parser_state w = WSI_TOKEN_SKIPPING then
        Some (if c = 0x0d then w\<lparr>parser_state := WSI_TOKEN_SKIPPING_SAW_CR\<rparr> else w, 0)
      else if parser_state w = WSI_TOKEN_SKIPPING_SAW_CR then
        Some (if c = 0x0a then w\<lparr>parser_state := WSI_TOKEN_NAME_PART, lextable_pos := 0\<rparr>
              else w\<lparr>parser_state := WSI_TOKEN_SKIPPING\<rparr>, 0)
      else Some (w, 0))"

definition libwebsocket_parse :: "hdr_wsi \<Rightarrow> u8 \<Rightarrow> hdr_result" where
  "libwebsocket_parse = parse_depth 2"

text \<open>The callers' loop: byte by byte, stopping at the first error.\<close>

fun parse_bytes :: "hdr_wsi \<Rightarrow> bytes \<Rightarrow> hdr_result" where
  "parse_bytes w [] = Some (w, 0)"
| "parse_bytes w (c # cs) = do {
     (w, r) \<leftarrow> libwebsocket_parse w c;
     if r < 0 then Some (w, r) else parse_bytes w cs }"

definition hdr_start :: "allocated_headers \<Rightarrow> hdr_wsi" where
  "hdr_start malloced = \<lparr>hdr_ah = lws_allocate_header_table malloced, lextable_pos = 0,
     parser_state = WSI_TOKEN_NAME_PART, hdr_ups = URIPS_IDLE, hdr_ues = URIES_IDLE,
     esc_stash = 0, ietf_spec_revision = 0, hdr_parsing_completed = False\<rparr>"


section \<open>The invariant of the store\<close>

definition sealed :: "allocated_headers \<Rightarrow> nat \<Rightarrow> nat \<Rightarrow> bool" where
  "sealed ah n lim \<longleftrightarrow>
     (\<exists>k. frag_offset (ah_frags ah ! n) \<le> k \<and> k < lim \<and> ah_data ah ! k = 0)"

definition frag_ok :: "allocated_headers \<Rightarrow> nat \<Rightarrow> bool" where
  "frag_ok ah n \<longleftrightarrow>
     (let f = ah_frags ah ! n; nf = ah_next_frag ah; cur = frag_offset (ah_frags ah ! nf) in
        (frag_next f = 0 \<or> n < frag_next f \<and> frag_next f \<le> nf) \<and>
        (if n = nf then frag_offset f + frag_len f \<le> ah_pos ah
         else frag_offset f + frag_len f \<le> cur \<and> sealed ah n cur))"

definition ah_ok :: "allocated_headers \<Rightarrow> bool" where
  "ah_ok ah \<longleftrightarrow>
     length (ah_frag_index ah) = WSI_TOKEN_COUNT \<and> length (ah_frags ah) = HDR_FRAGS \<and>
     length (ah_data ah) = LWS_MAX_HEADER_LEN \<and> ah_next_frag ah < HDR_FRAGS \<and>
     ah_pos ah \<le> LWS_MAX_HEADER_LEN \<and>
     (\<forall>h < WSI_TOKEN_COUNT. ah_frag_index ah ! h \<le> ah_next_frag ah) \<and>
     (\<forall>n. 0 < n \<longrightarrow> n \<le> ah_next_frag ah \<longrightarrow> frag_ok ah n)"

definition cur_sealed :: "allocated_headers \<Rightarrow> bool" where
  "cur_sealed ah \<longleftrightarrow> ah_next_frag ah = 0 \<or> sealed ah (ah_next_frag ah) (ah_pos ah)"

text \<open>Where the lexer may stand in its table: a well-formed suffix whose words are known tokens.\<close>

definition lex_at :: "bytes \<Rightarrow> bool" where
  "lex_at xs \<longleftrightarrow> lex_det xs \<and> (\<forall>p \<in> set (lex_words xs). snd p < 31)"

definition hdr_ok :: "hdr_wsi \<Rightarrow> bool" where
  "hdr_ok w \<longleftrightarrow> ah_ok (hdr_ah w) \<and>
     (parser_state w \<le> WSI_TOKEN_HTTP_REFERER \<longrightarrow>
        parser_state w \<noteq> WSI_TOKEN_CHALLENGE \<and> ah_frag_index (hdr_ah w) ! parser_state w \<noteq> 0) \<and>
     (parser_state w > WSI_TOKEN_HTTP_REFERER \<longrightarrow> cur_sealed (hdr_ah w)) \<and>
     (hdr_ues w = URIES_SEEN_PERCENT_H1 \<longrightarrow> 0 \<le> char_to_hex (esc_stash w)) \<and>
     (parser_state w = WSI_TOKEN_NAME_PART \<longrightarrow> 0 \<le> lextable_pos w \<and>
        lex_branch (drop (nat (lextable_pos w)) lextable) \<and>
        lex_at (drop (nat (lextable_pos w)) lextable))"

text \<open>Same fragment table shape: what \<open>issue_char\<close> and \<open>uri_backup\<close> keep.\<close>

definition same_slots :: "allocated_headers \<Rightarrow> allocated_headers \<Rightarrow> bool" where
  "same_slots ah ah' \<longleftrightarrow>
     ah_next_frag ah' = ah_next_frag ah \<and> ah_frag_index ah' = ah_frag_index ah"

lemma same_slots_refl [simp]: "same_slots ah ah"
  by (simp add: same_slots_def)

lemma same_slots_trans: "same_slots a b \<Longrightarrow> same_slots b c \<Longrightarrow> same_slots a c"
  by (simp add: same_slots_def)

lemma ah_okD:
  assumes "ah_ok ah"
  shows "length (ah_frag_index ah) = WSI_TOKEN_COUNT" "length (ah_frags ah) = HDR_FRAGS"
    "length (ah_data ah) = LWS_MAX_HEADER_LEN" "ah_next_frag ah < HDR_FRAGS"
    "ah_pos ah \<le> LWS_MAX_HEADER_LEN"
    "h < WSI_TOKEN_COUNT \<Longrightarrow> ah_frag_index ah ! h \<le> ah_next_frag ah"
    "0 < n \<Longrightarrow> n \<le> ah_next_frag ah \<Longrightarrow> frag_ok ah n"
  using assms by (simp_all add: ah_ok_def)

lemma ah_ok_cur:
  "ah_ok ah \<Longrightarrow> 0 < ah_next_frag ah \<Longrightarrow>
   frag_offset (ah_frags ah ! ah_next_frag ah) + frag_len (ah_frags ah ! ah_next_frag ah) \<le> ah_pos ah"
  by (drule ah_okD(7) [of _ "ah_next_frag _"]) (auto simp: frag_ok_def Let_def)

lemma issue_char_ok:
  assumes ok: "ah_ok ah" and cur: "0 < ah_next_frag ah"
  obtains ah' r where "issue_char ah c = Some (ah', r)" "ah_ok ah'" "same_slots ah ah'"
    "r = 0 \<or> r = -1" "c = 0 \<Longrightarrow> r = 0 \<Longrightarrow> cur_sealed ah'"
    "ah_pos ah' = (if r = 0 then ah_pos ah + 1 else ah_pos ah)"
    "r = -1 \<Longrightarrow> ah' = ah \<and> ah_pos ah = LWS_MAX_HEADER_LEN"
proof (cases "ah_pos ah = LWS_MAX_HEADER_LEN")
  case True
  then show ?thesis using that [of ah "-1"] ok by (simp add: issue_char_def)
next
  case False
  note D = ah_okD [OF ok]
  from False D(5) have pos: "ah_pos ah < LWS_MAX_HEADER_LEN" by simp
  let ?f = "ah_frags ah ! ah_next_frag ah"
  let ?frags = "if c \<noteq> 0 then (ah_frags ah)[ah_next_frag ah := ?f\<lparr>frag_len := Suc (frag_len ?f)\<rparr>]
    else ah_frags ah"
  let ?ah = "ah\<lparr>ah_data := (ah_data ah)[ah_pos ah := c], ah_pos := ah_pos ah + 1, ah_frags := ?frags\<rparr>"
  have run: "issue_char ah c = Some (?ah, 0)"
    using pos D by (simp add: issue_char_def put_data_def set_cur_len_def cur_frag_def access_simps)
  have le: "frag_offset ?f + frag_len ?f \<le> ah_pos ah" by (rule ah_ok_cur [OF ok cur])
  have "frag_ok ?ah n" if "0 < n" "n \<le> ah_next_frag ah" for n
    using D(7) [OF that] le D(2,4)
    by (cases "n = ah_next_frag ah")
       (auto simp: frag_ok_def Let_def sealed_def nth_list_update)
  then have "ah_ok ?ah" using D pos by (simp add: ah_ok_def)
  moreover have "cur_sealed ?ah" if "c = 0"
    using that le pos D(3) by (auto simp: cur_sealed_def sealed_def intro!: exI [of _ "ah_pos ah"])
  ultimately show ?thesis using that [OF run] by (simp add: same_slots_def)
qed


text \<open>What a step returns: an error, or a state in which the invariant holds. \<open>val_good\<close> is a step
  inside a header value.\<close>

definition hdr_good :: "hdr_result \<Rightarrow> bool" where
  "hdr_good res \<longleftrightarrow> (\<exists>w r. res = Some (w, r) \<and> (r = -1 \<or> r = 0 \<and> hdr_ok w))"

definition val_ok :: "hdr_wsi \<Rightarrow> bool" where
  "val_ok w \<longleftrightarrow> hdr_ok w \<and> parser_state w \<le> WSI_TOKEN_HTTP_REFERER"

definition val_good :: "nat \<Rightarrow> hdr_wsi \<Rightarrow> hdr_result \<Rightarrow> bool" where
  "val_good n w res \<longleftrightarrow> (\<exists>w' r. res = Some (w', r) \<and>
     (r = -1 \<or> r = 0 \<and> val_ok w' \<and> same_slots (hdr_ah w) (hdr_ah w') \<and>
        parser_state w' = parser_state w \<and> ah_pos (hdr_ah w') \<le> ah_pos (hdr_ah w) + n))"

lemma val_good_hdr_good: "val_good n w res \<Longrightarrow> hdr_good res"
  by (auto simp: val_good_def hdr_good_def val_ok_def)

lemma val_good_mono: "val_good n w res \<Longrightarrow> n \<le> m \<Longrightarrow> val_good m w res"
  by (fastforce simp: val_good_def)

lemma val_okD:
  assumes "val_ok w"
  shows "ah_ok (hdr_ah w)" "parser_state w \<le> WSI_TOKEN_HTTP_REFERER"
    "parser_state w \<noteq> WSI_TOKEN_CHALLENGE" "ah_frag_index (hdr_ah w) ! parser_state w \<noteq> 0"
    "0 < ah_next_frag (hdr_ah w)"
    "hdr_ues w = URIES_SEEN_PERCENT_H1 \<Longrightarrow> 0 \<le> char_to_hex (esc_stash w)"
proof -
  show *: "ah_ok (hdr_ah w)" "parser_state w \<le> WSI_TOKEN_HTTP_REFERER"
    "parser_state w \<noteq> WSI_TOKEN_CHALLENGE" "ah_frag_index (hdr_ah w) ! parser_state w \<noteq> 0"
    "hdr_ues w = URIES_SEEN_PERCENT_H1 \<Longrightarrow> 0 \<le> char_to_hex (esc_stash w)"
    using assms by (simp_all add: val_ok_def hdr_ok_def)
  show "0 < ah_next_frag (hdr_ah w)" using ah_okD(6) [OF *(1), of "parser_state w"] *(2,4) by simp
qed

lemma val_okI:
  "val_ok w \<Longrightarrow> ah_ok ah \<Longrightarrow> same_slots (hdr_ah w) ah \<Longrightarrow> hdr_ah w' = ah \<Longrightarrow>
   parser_state w' = parser_state w \<Longrightarrow>
   (hdr_ues w' = URIES_SEEN_PERCENT_H1 \<Longrightarrow> 0 \<le> char_to_hex (esc_stash w')) \<Longrightarrow> val_ok w'"
  by (auto simp: val_ok_def hdr_ok_def same_slots_def)

lemma val_ok_ups [simp]: "val_ok (w\<lparr>hdr_ups := u\<rparr>) = val_ok w"
  by (simp add: val_ok_def hdr_ok_def)

lemma val_ok_ues_idle [simp]: "val_ok w \<Longrightarrow> val_ok (w\<lparr>hdr_ues := URIES_IDLE\<rparr>)"
  by (simp add: val_ok_def hdr_ok_def)

lemma parse_swallow_ok: "val_ok w \<Longrightarrow> val_good 0 w (parse_swallow w)"
  by (simp add: parse_swallow_def val_good_def val_okD)

lemma parse_spill_val:
  assumes ok: "val_ok w"
  shows "val_good 1 w (parse_spill w c)"
proof -
  note D = val_okD [OF ok]
  obtain ah r where run: "issue_char (hdr_ah w) c = Some (ah, r)" and
    *: "ah_ok ah" "same_slots (hdr_ah w) ah" "r = 0 \<or> r = -1"
      "ah_pos ah = (if r = 0 then ah_pos (hdr_ah w) + 1 else ah_pos (hdr_ah w))"
    by (rule issue_char_ok [OF D(1,5)])
  from ok *(1,2) D(6) have "val_ok (w\<lparr>hdr_ah := ah\<rparr>)" by (auto intro: val_okI)
  with run * D(3) show ?thesis
    by (auto simp: parse_spill_def parse_swallow_def val_good_def)
qed

lemma parse_spill_end:
  assumes ok: "val_ok w" and st: "st = WSI_TOKEN_SKIPPING \<or> st = WSI_TOKEN_SKIPPING_SAW_CR"
  shows "hdr_good (parse_spill (w\<lparr>parser_state := st\<rparr>) 0)"
proof -
  note D = val_okD [OF ok]
  obtain ah r where run: "issue_char (hdr_ah w) 0 = Some (ah, r)" and
    *: "ah_ok ah" "r = 0 \<or> r = -1" "r = 0 \<Longrightarrow> cur_sealed ah"
    using issue_char_ok [OF D(1,5), of 0] by metis
  with st D(6) show ?thesis
    by (auto simp: parse_spill_def parse_swallow_def hdr_good_def hdr_ok_def)
qed

lemma start_uri_args_ok:
  assumes ok: "val_ok w" and room: "ah_next_frag (hdr_ah w) < HDR_FRAGS - 1"
    "ah_pos (hdr_ah w) < LWS_MAX_HEADER_LEN"
  shows "hdr_good (start_uri_args w)"
proof -
  note D = val_okD [OF ok]
  define ah where "ah = hdr_ah w"
  note D1 = ah_okD [OF D(1), folded ah_def]
  note room = room [folded ah_def]
  let ?n = "ah_next_frag ah"
  let ?ah = "ah\<lparr>ah_data := (ah_data ah)[ah_pos ah := 0], ah_pos := ah_pos ah + 1,
    ah_next_frag := ?n + 1,
    ah_frags := (ah_frags ah)[?n + 1 := \<lparr>frag_offset = ah_pos ah + 1, frag_len = 0, frag_next = 0\<rparr>],
    ah_frag_index := (ah_frag_index ah)[WSI_TOKEN_HTTP_URI_ARGS := ?n + 1]\<rparr>"
  have run: "start_uri_args w = parse_swallow (w\<lparr>hdr_ah := ?ah, hdr_ups := URIPS_ARGUMENTS\<rparr>)"
    using room D1 by (simp add: start_uri_args_def ah_def [symmetric] put_data_def open_frag_def
      set_frag_index_def access_simps)
  have le: "frag_offset (ah_frags ah ! ?n) + frag_len (ah_frags ah ! ?n) \<le> ah_pos ah"
    using ah_ok_cur [OF D(1,5)] by (simp add: ah_def)
  have "frag_ok ?ah n" if n: "0 < n" "n \<le> ?n + 1" for n
  proof (cases "n \<le> ?n")
    case True
    from D1(7) [OF n(1) True] le D1(2,3) room show ?thesis
      by (cases "n = ?n")
         (auto simp: frag_ok_def Let_def sealed_def nth_list_update intro!: exI [of _ "ah_pos ah"])
  next
    case False
    with n have "n = ?n + 1" by simp
    then show ?thesis using room D1(2) by (simp add: frag_ok_def)
  qed
  moreover have "(ah_frag_index ah)[WSI_TOKEN_HTTP_URI_ARGS := ?n + 1] ! h \<le> ?n + 1"
    if "h < WSI_TOKEN_COUNT" for h
    using D1(6) [OF that] D1(1) that by (simp add: nth_list_update)
  ultimately have "ah_ok ?ah" using D1 room by (auto simp: ah_ok_def)
  then have "val_ok (w\<lparr>hdr_ah := ?ah, hdr_ups := URIPS_ARGUMENTS\<rparr>)"
    using D D1(1) by (simp add: val_ok_def hdr_ok_def ah_def [symmetric] nth_list_update)
  from parse_swallow_ok [OF this] show ?thesis unfolding run by (rule val_good_hdr_good)
qed

definition args_room :: "nat \<Rightarrow> hdr_wsi \<Rightarrow> u8 \<Rightarrow> bool" where
  "args_room n w c \<longleftrightarrow> c \<noteq> 0x3f \<or>
     ah_next_frag (hdr_ah w) < HDR_FRAGS - 1 \<and> ah_pos (hdr_ah w) + n < LWS_MAX_HEADER_LEN"

lemma parse_check_eol_val:
  "val_ok w \<Longrightarrow> c \<noteq> 0x0d \<Longrightarrow> c \<noteq> 0x3f \<Longrightarrow> val_good 1 w (parse_check_eol w c)"
  by (simp add: parse_check_eol_def parse_spill_val del: One_nat_def)

lemma parse_check_eol_ok:
  assumes "val_ok w" and "args_room 0 w c"
  shows "hdr_good (parse_check_eol w c)"
  using assms val_okD(3) [OF assms(1)] parse_spill_end start_uri_args_ok
    val_good_hdr_good [OF parse_spill_val]
  by (simp add: parse_check_eol_def args_room_def)

lemma backup_loop_ok:
  "\<lbrakk>len \<le> fuel + 1; 1 < len; len \<le> pos; pos \<le> length dat\<rbrakk> \<Longrightarrow>
   \<exists>k. 0 < k \<and> k < len \<and> backup_loop fuel dat pos len = Some (pos - k, len - k)"
proof (induction fuel arbitrary: pos len)
  case (Suc fuel)
  show ?case
  proof (cases "len - 1 > 1 \<and> dat ! (pos - 1) \<noteq> 0x2f")
    case True
    have "\<exists>k. 0 < k \<and> k < len - 1 \<and>
        backup_loop fuel dat (pos - 1) (len - 1) = Some (pos - 1 - k, len - 1 - k)"
      by (rule Suc.IH) (use True Suc.prems in auto)
    then obtain k where
      "0 < k" "k < len - 1" "backup_loop fuel dat (pos - 1) (len - 1) = Some (pos - 1 - k, len - 1 - k)"
      by blast
    with True Suc.prems show ?thesis
      by (intro exI [of _ "Suc k"]) (simp add: access_simps)
  next
    case False
    with Suc.prems show ?thesis
      by (intro exI [of _ 1]) (auto simp: access_simps Let_def)
  qed
qed simp

lemma uri_backup_ok:
  assumes ok: "ah_ok ah" and cur: "0 < ah_next_frag ah"
  obtains ah' where "uri_backup ah = Some ah'" "ah_ok ah'" "same_slots ah ah'" "ah_pos ah' \<le> ah_pos ah"
proof (cases "frag_len (ah_frags ah ! ah_next_frag ah) > 2")
  case False
  then show ?thesis using that [of ah] ok ah_okD(2,4) [OF ok]
    by (simp add: uri_backup_def cur_frag_def access_simps)
next
  case True
  note D = ah_okD [OF ok]
  let ?n = "ah_next_frag ah" and ?f = "ah_frags ah ! ah_next_frag ah"
  have le: "frag_offset ?f + frag_len ?f \<le> ah_pos ah" by (rule ah_ok_cur [OF ok cur])
  have "\<exists>k. 0 < k \<and> k < frag_len ?f - 1 \<and>
    backup_loop (frag_len ?f) (ah_data ah) (ah_pos ah - 1) (frag_len ?f - 1)
       = Some (ah_pos ah - 1 - k, frag_len ?f - 1 - k)"
    by (rule backup_loop_ok) (use True le D(3,5) in auto)
  then obtain k where k: "0 < k" "k < frag_len ?f - 1"
    "backup_loop (frag_len ?f) (ah_data ah) (ah_pos ah - 1) (frag_len ?f - 1)
       = Some (ah_pos ah - 1 - k, frag_len ?f - 1 - k)" by blast
  let ?ah = "ah\<lparr>ah_frags := (ah_frags ah)[?n := ?f\<lparr>frag_len := frag_len ?f - 1 - k\<rparr>],
    ah_pos := ah_pos ah - 1 - k\<rparr>"
  have "uri_backup ah = Some ?ah"
    using True k D(2,4) by (simp add: uri_backup_def cur_frag_def set_cur_len_def access_simps)
  moreover have "frag_ok ?ah n" if "0 < n" "n \<le> ?n" for n
    using D(7) [OF that] k le D(2,4)
    by (cases "n = ?n") (auto simp: frag_ok_def Let_def sealed_def)
  then have "ah_ok ?ah" using D by (simp add: ah_ok_def)
  ultimately show ?thesis using that by (simp add: same_slots_def)
qed

lemma val_good_ups: "val_good n (w\<lparr>hdr_ups := u\<rparr>) res = val_good n w res"
  by (simp add: val_good_def)

lemma val_good_from:
  "val_good n w res \<Longrightarrow> same_slots (hdr_ah v) (hdr_ah w) \<Longrightarrow> parser_state w = parser_state v \<Longrightarrow>
   ah_pos (hdr_ah w) \<le> ah_pos (hdr_ah v) + k \<Longrightarrow> val_good (n + k) v res"
  by (fastforce simp: val_good_def same_slots_def)

lemma issue_dot_ok:
  assumes ok: "val_ok w"
  obtains ah r where "issue_char (hdr_ah w) c = Some (ah, r)" "r = 0 \<or> r = -1"
    "val_ok (w\<lparr>hdr_ah := ah\<rparr>)" "same_slots (hdr_ah w) ah"
    "ah_pos ah \<le> ah_pos (hdr_ah w) + 1"
proof -
  note D = val_okD [OF ok]
  obtain ah r where run: "issue_char (hdr_ah w) c = Some (ah, r)" and
    *: "ah_ok ah" "same_slots (hdr_ah w) ah" "r = 0 \<or> r = -1"
      "ah_pos ah = (if r = 0 then ah_pos (hdr_ah w) + 1 else ah_pos (hdr_ah w))"
    by (rule issue_char_ok [OF D(1,5)])
  moreover from ok *(1,2) D(6) have "val_ok (w\<lparr>hdr_ah := ah\<rparr>)" by (auto intro: val_okI)
  ultimately show ?thesis using that by (simp split: if_splits)
qed


text \<open>An ordinary byte in the path state machine stays inside the value; any byte keeps the invariant.\<close>

lemma parse_uri_path_val:
  assumes ok: "val_ok w" and c: "c \<noteq> 0x0d" "c \<noteq> 0x3f"
  shows "val_good 2 w (parse_uri_path w c)"
proof -
  note eol = val_good_mono [OF parse_check_eol_val [OF _ c], of _ 2]
  note swallow = val_good_mono [OF parse_swallow_ok, of _ 2]
  show ?thesis
  proof (cases "hdr_ups w")
    case URIPS_SEEN_SLASH_DOT
    obtain ah r where dot: "issue_char (hdr_ah w) 0x2e = Some (ah, r)"
      "val_ok (w\<lparr>hdr_ah := ah\<rparr>)" "same_slots (hdr_ah w) ah" "ah_pos ah \<le> ah_pos (hdr_ah w) + 1"
      by (rule issue_dot_ok [OF ok])
    have "val_good (1 + 1) w (parse_check_eol (w\<lparr>hdr_ah := ah, hdr_ups := URIPS_IDLE\<rparr>) c)"
      by (rule val_good_from [OF parse_check_eol_val]) (use dot c in simp_all)
    moreover obtain ah' where up: "uri_backup (hdr_ah w) = Some ah'" "ah_ok ah'"
      "same_slots (hdr_ah w) ah'" "ah_pos ah' \<le> ah_pos (hdr_ah w)"
      using uri_backup_ok [OF val_okD(1,5) [OF ok]] by blast
    have "val_ok (w\<lparr>hdr_ah := ah'\<rparr>)"
      by (rule val_okI [OF ok up(2,3)]) (use val_okD(6) [OF ok] in simp_all)
    then have "val_good (0 + 2) w
        (parse_swallow (w\<lparr>hdr_ah := ah', hdr_ups := URIPS_SEEN_SLASH_DOT_DOT\<rparr>))"
      by (intro val_good_from [OF parse_swallow_ok]) (use up in auto)
    moreover have "val_good 2 w (parse_swallow (w\<lparr>hdr_ups := URIPS_SEEN_SLASH\<rparr>))"
      using swallow [of "w\<lparr>hdr_ups := URIPS_SEEN_SLASH\<rparr>"] ok by (simp add: val_good_ups)
    ultimately show ?thesis using URIPS_SEEN_SLASH_DOT dot(1) up(1)
      by (simp add: parse_uri_path_def numeral_2_eq_2)
  qed (use ok eol [of w] swallow [of w] eol [of "w\<lparr>hdr_ups := u\<rparr>" for u]
         swallow [of "w\<lparr>hdr_ups := u\<rparr>" for u]
       in \<open>auto simp: parse_uri_path_def val_good_ups\<close>)
qed

lemma args_room_ups [simp]: "args_room n (w\<lparr>hdr_ups := u\<rparr>) c = args_room n w c"
  by (simp add: args_room_def)

lemma args_room_mono: "args_room n w c \<Longrightarrow> m \<le> n \<Longrightarrow> args_room m w c"
  by (auto simp: args_room_def)

lemma parse_uri_path_ok:
  assumes ok: "val_ok w" and room: "args_room 1 w c"
  shows "hdr_good (parse_uri_path w c)"
proof (cases "c = 0x0d \<or> c = 0x3f")
  case False
  then show ?thesis using parse_uri_path_val [OF ok] val_good_hdr_good by blast
next
  case True
  have room0: "args_room 0 w c" by (rule args_room_mono [OF room]) simp
  obtain ah r where dot: "issue_char (hdr_ah w) 0x2e = Some (ah, r)"
    "val_ok (w\<lparr>hdr_ah := ah\<rparr>)" "same_slots (hdr_ah w) ah" "ah_pos ah \<le> ah_pos (hdr_ah w) + 1"
    by (rule issue_dot_ok [OF ok])
  have "args_room 0 (w\<lparr>hdr_ah := ah, hdr_ups := URIPS_IDLE\<rparr>) c"
    using room dot(3,4) by (auto simp: args_room_def same_slots_def)
  moreover have "val_ok (w\<lparr>hdr_ah := ah, hdr_ups := URIPS_IDLE\<rparr>)" using dot(2) by simp
  ultimately show ?thesis using True ok room0 dot(1)
    by (auto simp: parse_uri_path_def parse_check_eol_ok split: uri_path_states.split)
qed

lemma char_to_hex_plain:
  assumes "0 \<le> char_to_hex c"
  shows "c \<noteq> 0x0d" "c \<noteq> 0x3f" "c \<noteq> 0x20" "c \<noteq> 0x25"
  using assms by (auto simp: char_to_hex_def split: if_splits)

text \<open>The recursive call, on a hexadecimal digit.\<close>

lemma parse_depth_hex:
  assumes ok: "val_ok w" and hex: "0 \<le> char_to_hex c" and idle: "hdr_ues w = URIES_IDLE"
    and uri: "parser_state w \<le> 1"
  shows "parse_depth (Suc d) w c = parse_uri_path w c"
proof -
  note D = val_okD [OF ok] and c = char_to_hex_plain [OF hex]
  have "ah_frag_index (hdr_ah w) ! parser_state w < HDR_FRAGS"
    using ah_okD(4,6) [OF D(1)] uri by (meson le_less_trans less_le_trans one_less_numeral_iff
      order_le_less_trans semiring_norm(76) zero_less_one)
  with D uri c idle ah_okD(1,2,4) [OF D(1)] show ?thesis
    by (auto simp: parse_value_def parse_uri_esc_def access_simps Let_def)
qed


text \<open>The byte that reaches the path state machine, and the condition under which a \<open>?\<close> there has
  room in the store.\<close>

definition uri_char :: "hdr_wsi \<Rightarrow> u8 \<Rightarrow> u8" where
  "uri_char w c =
     (if parser_state w \<le> WSI_TOKEN_POST_URI \<and> hdr_ues w = URIES_SEEN_PERCENT_H1 \<and> 0 \<le> char_to_hex c
      then push_bit 4 (word_of_int (char_to_hex (esc_stash w))) OR word_of_int (char_to_hex c)
      else c)"

definition args_safe :: "hdr_wsi \<Rightarrow> u8 \<Rightarrow> bool" where
  "args_safe w c \<longleftrightarrow> args_room 4 w (uri_char w c)"

lemma args_room_ues [simp]: "args_room n (w\<lparr>hdr_ues := u\<rparr>) c = args_room n w c"
  by (simp add: args_room_def)

lemma args_room_slots:
  "args_room n w c \<Longrightarrow> same_slots (hdr_ah w) (hdr_ah w') \<Longrightarrow>
   ah_pos (hdr_ah w') \<le> ah_pos (hdr_ah w) + k \<Longrightarrow> m + k \<le> n \<Longrightarrow> args_room m w' c"
  by (auto simp: args_room_def same_slots_def)

lemma val_ok_stash [simp]:
  "val_ok w \<Longrightarrow> 0 \<le> char_to_hex c \<Longrightarrow>
   val_ok (w\<lparr>esc_stash := c, hdr_ues := URIES_SEEN_PERCENT_H1\<rparr>)"
  by (simp add: val_ok_def hdr_ok_def)

lemma parse_uri_esc_ok:
  assumes ok: "val_ok w" and uri: "parser_state w \<le> WSI_TOKEN_POST_URI" and room: "args_safe w c"
  shows "hdr_good (parse_uri_esc (parse_depth (Suc d)) w c)"
proof -
  note r = room [unfolded args_safe_def]
  have room1: "args_room 1 w (uri_char w c)" by (rule args_room_mono [OF r]) simp
  note swallow = val_good_hdr_good [OF parse_swallow_ok]
  obtain ah n where pc: "issue_char (hdr_ah w) 0x25 = Some (ah, n)" "n = 0 \<or> n = -1"
    "val_ok (w\<lparr>hdr_ah := ah\<rparr>)" "same_slots (hdr_ah w) ah" "ah_pos ah \<le> ah_pos (hdr_ah w) + 1"
    by (rule issue_dot_ok [OF ok])
  let ?w = "w\<lparr>hdr_ah := ah, hdr_ues := URIES_IDLE\<rparr>"
  have okw: "val_ok ?w" using val_ok_ues_idle [OF pc(3)] by simp
  show ?thesis
  proof (cases "hdr_ues w")
    case URIES_IDLE
    then show ?thesis using parse_uri_path_ok [OF ok, of c] room1 ok swallow
      by (auto simp: parse_uri_esc_def uri_char_def val_ok_def hdr_ok_def)
  next
    case URIES_SEEN_PERCENT
    then have "args_room 4 w c" using r by (simp add: uri_char_def)
    then have "args_room 1 ?w c" by (rule args_room_slots [where k = 1]) (use pc in simp_all)
    from parse_uri_path_ok [OF okw this] URIES_SEEN_PERCENT pc swallow [OF val_ok_stash [OF ok]]
    show ?thesis by (auto simp: parse_uri_esc_def hdr_good_def)
  next
    case H1: URIES_SEEN_PERCENT_H1
    show ?thesis
    proof (cases "char_to_hex c < 0")
      case False
      then show ?thesis using H1 uri parse_uri_path_ok [OF val_ok_ues_idle [OF ok]] room1
        by (simp add: parse_uri_esc_def uri_char_def)
    next
      case True
      note hex = val_okD(6) [OF ok H1]
      have again: "parse_depth (Suc d) ?w (esc_stash w) = parse_uri_path ?w (esc_stash w)"
        by (rule parse_depth_hex [OF okw hex]) (use uri in simp_all)
      from parse_uri_path_val [OF okw char_to_hex_plain(1,2) [OF hex]]
      obtain w' n' where w': "parse_uri_path ?w (esc_stash w) = Some (w', n')"
        "n' = -1 \<or> n' = 0 \<and> val_ok w' \<and> same_slots ah (hdr_ah w') \<and>
           ah_pos (hdr_ah w') \<le> ah_pos ah + 2" by (auto simp: val_good_def)
      have "hdr_good (parse_uri_path w' c)" if "n' = 0"
      proof (rule parse_uri_path_ok)
        show "val_ok w'" using w'(2) that by simp
        have "args_room 4 w c" using r True by (simp add: uri_char_def)
        moreover have "same_slots (hdr_ah w) (hdr_ah w')" "ah_pos (hdr_ah w') \<le> ah_pos (hdr_ah w) + 3"
          using w'(2) that pc(4,5) by (auto intro: same_slots_trans)
        ultimately show "args_room 1 w' c" by (rule args_room_slots) simp
      qed
      then show ?thesis using H1 True pc(1) again w'
        by (auto simp: parse_uri_esc_def hdr_good_def)
    qed
  qed
qed

lemma parse_value_ok:
  assumes ok: "val_ok w" and room: "args_safe w c"
  shows "hdr_good (parse_value (parse_depth (Suc d)) w c)"
proof -
  note D = val_okD [OF ok] and D1 = ah_okD [OF val_okD(1) [OF ok]]
  have "ah_frag_index (hdr_ah w) ! parser_state w \<le> ah_next_frag (hdr_ah w)"
    by (rule D1(6)) (use D(2) in simp)
  then have idx: "ah_frag_index (hdr_ah w) ! parser_state w < HDR_FRAGS" using D1(4) by simp
  have good: "hdr_good (Some (w, 0))" using ok by (simp add: hdr_good_def val_ok_def)
  have "args_room 0 w c" if "parser_state w > 1"
    by (rule args_room_mono [of 4]) (use that room in \<open>simp_all add: args_safe_def uri_char_def\<close>)
  then have eol: "hdr_good (parse_check_eol w c)" if "parser_state w > 1"
    using that parse_check_eol_ok [OF ok] by blast
  have esc: "hdr_good (parse_uri_esc (parse_depth (Suc d)) w c)" if "parser_state w \<le> 1"
    using parse_uri_esc_ok [OF ok that room] .
  obtain ah r where sl: "issue_char (hdr_ah w) 0x2f = Some (ah, r)" "r = 0 \<or> r = -1"
    "val_ok (w\<lparr>hdr_ah := ah\<rparr>)" by (rule issue_dot_ok [OF ok])
  have "hdr_good (parse_spill (w'\<lparr>parser_state := WSI_TOKEN_SKIPPING\<rparr>) 0)" if "val_ok w'" for w'
    using parse_spill_end [OF that] by simp
  note spill = this
  have space: "hdr_good (do {
      g \<leftarrow> cur_frag (hdr_ah w);
      (ah, r) \<leftarrow> (if frag_len g = 0 then issue_char (hdr_ah w) 0x2f else Some (hdr_ah w, 0));
      let w = w\<lparr>hdr_ah := ah\<rparr>;
      if r < 0 then Some (w, -1) else parse_spill (w\<lparr>parser_state := WSI_TOKEN_SKIPPING\<rparr>) 0 })"
  proof (cases "frag_len (ah_frags (hdr_ah w) ! ah_next_frag (hdr_ah w)) = 0")
    case True
    with D1(2,4) sl spill [OF sl(3)] show ?thesis
      by (auto simp: cur_frag_def access_simps hdr_good_def)
  next
    case False
    with D1(2,4) spill [OF ok] show ?thesis by (simp add: cur_frag_def access_simps)
  qed
  have "aget (ah_frag_index (hdr_ah w)) (parser_state w)
      = Some (ah_frag_index (hdr_ah w) ! parser_state w)"
    using D(2) D1(1) by (simp add: access_simps)
  moreover have "aget (ah_frags (hdr_ah w)) (ah_frag_index (hdr_ah w) ! parser_state w)
      = Some (ah_frags (hdr_ah w) ! (ah_frag_index (hdr_ah w) ! parser_state w))"
    using idx D1(2) by (simp add: access_simps)
  ultimately have run: "parse_value again w c =
     (if frag_len (ah_frags (hdr_ah w) ! (ah_frag_index (hdr_ah w) ! parser_state w)) = 0 \<and> c = 0x20
      then Some (w, 0)
      else if parser_state w > 1 then parse_check_eol w c
      else if c = 0x20 then do {
        g \<leftarrow> cur_frag (hdr_ah w);
        (ah, r) \<leftarrow> (if frag_len g = 0 then issue_char (hdr_ah w) 0x2f else Some (hdr_ah w, 0));
        let w = w\<lparr>hdr_ah := ah\<rparr>;
        if r < 0 then Some (w, -1) else parse_spill (w\<lparr>parser_state := WSI_TOKEN_SKIPPING\<rparr>) 0 }
      else parse_uri_esc again w c)" for again
    unfolding parse_value_def Let_def by (auto simp: not_less le_Suc_eq)
  from good eol esc space show ?thesis unfolding run by (auto simp del: parse_depth.simps)
qed

subsection \<open>Fragment chains end\<close>

lemma frag_next_ok:
  assumes "ah_ok ah" "0 < n" "n \<le> ah_next_frag ah"
  shows "n < length (ah_frags ah)"
    "frag_next (ah_frags ah ! n) = 0 \<or>
     n < frag_next (ah_frags ah ! n) \<and> frag_next (ah_frags ah ! n) \<le> ah_next_frag ah"
  using ah_okD(2,4) [OF assms(1)] assms(2,3) ah_okD(7) [OF assms]
  by (simp_all add: frag_ok_def Let_def)

lemma frag_chain_len_total:
  assumes ok: "ah_ok ah" and n: "0 < n" "n \<le> ah_next_frag ah"
  shows "\<exists>l. frag_chain_len (ah_frags ah) n acc = Some l"
  using n
proof (induction "ah_next_frag ah - n" arbitrary: n acc rule: less_induct)
  case less
  note N = frag_next_ok [OF ok less.prems]
  show ?case
    by (subst frag_chain_len.simps) (use N less in \<open>auto simp: access_simps\<close>)
qed

lemma chain_last_total:
  assumes ok: "ah_ok ah" and n: "0 < n" "n \<le> ah_next_frag ah"
  shows "\<exists>k. chain_last (ah_frags ah) n = Some k \<and> n \<le> k \<and> k \<le> ah_next_frag ah \<and>
    frag_next (ah_frags ah ! k) = 0"
  using n
proof (induction "ah_next_frag ah - n" arbitrary: n rule: less_induct)
  case less
  note N = frag_next_ok [OF ok less.prems]
  show ?case
  proof (cases "frag_next (ah_frags ah ! n) = 0")
    case True
    with N less.prems show ?thesis by (subst chain_last.simps) (simp add: access_simps)
  next
    case False
    let ?m = "frag_next (ah_frags ah ! n)"
    have "\<exists>k. chain_last (ah_frags ah) ?m = Some k \<and> ?m \<le> k \<and> k \<le> ah_next_frag ah \<and>
        frag_next (ah_frags ah ! k) = 0"
      by (rule less.hyps) (use N False less.prems in auto)
    then obtain k where
      "chain_last (ah_frags ah) ?m = Some k" "?m \<le> k" "k \<le> ah_next_frag ah"
      "frag_next (ah_frags ah ! k) = 0" by blast
    with N False show ?thesis by (subst chain_last.simps) (simp add: access_simps)
  qed
qed

lemma total_length_total:
  assumes "ah_ok ah" "h < WSI_TOKEN_COUNT"
  shows "\<exists>l. lws_hdr_total_length ah h = Some l"
  using assms frag_chain_len_total [OF assms(1), of "ah_frag_index ah ! h" 0] ah_okD(1,6) [OF assms(1)]
  by (auto simp: lws_hdr_total_length_def access_simps)

lemma cstr_total:
  "(\<exists>k. n \<le> k \<and> k < length d \<and> d ! k = 0) \<Longrightarrow> \<exists>s. cstr (drop n d) = Some s"
proof (induction d arbitrary: n)
  case (Cons c cs)
  show ?case
  proof (cases n)
    case (Suc m)
    from Cons.prems obtain k where "n \<le> k" "k < length (c # cs)" "(c # cs) ! k = 0" by blast
    with Suc have "m \<le> k - 1 \<and> k - 1 < length cs \<and> cs ! (k - 1) = 0" by (cases k) auto
    with Cons.IH [of m] Suc show ?thesis by auto
  next
    case 0
    from Cons.prems obtain k where k: "k < length (c # cs)" "(c # cs) ! k = 0" by blast
    with Cons.IH [of 0] 0 show ?thesis by (cases k) auto
  qed
qed simp

lemma sealed_frag:
  assumes ok: "ah_ok ah" and cs: "cur_sealed ah" and n: "0 < n" "n \<le> ah_next_frag ah"
  shows "\<exists>s. cstr (drop (frag_offset (ah_frags ah ! n)) (ah_data ah)) = Some s"
proof -
  have "\<exists>k. frag_offset (ah_frags ah ! n) \<le> k \<and> k < ah_pos ah \<and> ah_data ah ! k = 0"
  proof (cases "n = ah_next_frag ah")
    case True
    then show ?thesis using cs n by (simp add: cur_sealed_def sealed_def)
  next
    case False
    with ah_okD(7) [OF ok n] ah_ok_cur [OF ok] n show ?thesis
      by (fastforce simp: frag_ok_def Let_def sealed_def)
  qed
  with ah_okD(3,5) [OF ok] show ?thesis by (intro cstr_total) fastforce
qed

lemma set_parsing_complete_ok:
  assumes ok: "ah_ok (hdr_ah w)" and cs: "cur_sealed (hdr_ah w)"
    and ues: "hdr_ues w = URIES_SEEN_PERCENT_H1 \<Longrightarrow> 0 \<le> char_to_hex (esc_stash w)"
  shows "hdr_good (set_parsing_complete w)"
proof -
  note D = ah_okD [OF ok]
  obtain up where up: "lws_hdr_total_length (hdr_ah w) WSI_TOKEN_UPGRADE = Some up"
    using total_length_total [OF ok, of WSI_TOKEN_UPGRADE] by auto
  obtain v where v: "lws_hdr_total_length (hdr_ah w) WSI_TOKEN_VERSION = Some v"
    using total_length_total [OF ok, of WSI_TOKEN_VERSION] by auto
  let ?n = "ah_frag_index (hdr_ah w) ! WSI_TOKEN_VERSION"
  have idx: "?n \<le> ah_next_frag (hdr_ah w)" using D(6) by simp
  have ptr: "\<exists>off s. lws_hdr_simple_ptr (hdr_ah w) WSI_TOKEN_VERSION = Some (Some off) \<and>
      cstr (drop off (ah_data (hdr_ah w))) = Some s" if "v \<noteq> 0"
  proof -
    have "?n \<noteq> 0" using v that D(1)
      by (auto simp: lws_hdr_total_length_def access_simps split: if_splits)
    with sealed_frag [OF ok cs _ idx] idx D(1,2,4) show ?thesis
      by (simp add: lws_hdr_simple_ptr_def access_simps)
  qed
  show ?thesis
  proof (cases "up \<noteq> 0 \<and> v \<noteq> 0")
    case True
    with up v ptr ok cs ues show ?thesis
      by (auto simp: set_parsing_complete_def hdr_good_def hdr_ok_def Let_def)
  next
    case False
    with up v ok cs ues show ?thesis
      by (cases "up = 0") (auto simp: set_parsing_complete_def hdr_good_def hdr_ok_def Let_def)
  qed
qed


subsection \<open>A name part\<close>

lemma lex_at_entry:
  assumes "lex_at (b # d # rest)" and "d \<noteq> 0"
  shows "lex_at (drop (2 * unat d - 2) rest)" "b AND 0x80 = 0 \<Longrightarrow> lex_branch rest \<and> lex_at rest"
proof -
  show "lex_at (drop (2 * unat d - 2) rest)" using assms by (simp add: lex_at_def ball_Un split_def)
  show "lex_branch rest \<and> lex_at rest" if "b AND 0x80 = 0"
    using assms that by (simp add: lex_at_def ball_Un split_def)
qed

lemma lex_at_start: "lex_branch lextable \<and> lex_at lextable"
  using lex_det_table
  by (auto simp: lex_at_def lex_words_set length_minilex_set word_less_nat_alt)

lemma lextable_decode_ends:
  "xs = drop pos lextable \<Longrightarrow> lex_branch xs \<Longrightarrow> lex_at xs \<Longrightarrow>
   \<exists>q. lextable_decode_from pos c = Some q \<and> (q < 0 \<or> lex_at (drop (nat q) lextable))"
proof (induction xs arbitrary: pos rule: lex_words.induct)
  case (1 b d rest)
  let ?jump = "drop (2 * unat d - 2) rest"
  from "1.prems"(2) have d: "d \<noteq> 0" by (simp add: lex_branch_def)
  note entry = drop_entry [OF "1.prems"(1)] and dec = decode_entry [OF "1.prems"(1) d]
  from d have "unat d \<noteq> 0" by (simp add: unat_eq_0)
  then have "2 * unat d - 2 + (pos + 2) = pos + 2 * unat d" by simp
  then have jump: "?jump = drop (pos + 2 * unat d) lextable"
    unfolding entry(4) [symmetric] drop_drop by (rule arg_cong)
  have det: "lex_at (drop (pos + 2 * unat d) lextable)"
    unfolding jump [symmetric] by (rule lex_at_entry(1) [OF "1.prems"(3) d])
  show ?case
  proof (cases "b AND 0x7f = tolower c \<or> b AND 0x80 \<noteq> 0")
    case True
    then show ?thesis unfolding dec using det by (auto simp: nat_add_distrib nat_mult_distrib)
  next
    case False
    then have "lex_branch rest" "lex_at rest" using lex_at_entry(2) [OF "1.prems"(3) d] by simp_all
    with "1.IH"(2) [OF d _ entry(4) [symmetric]] False show ?thesis unfolding dec by simp
  qed
next
  case 2
  from "2.prems"(2) show ?case by (simp add: lex_branch_def)
next
  case (3 b)
  from "3.prems"(2) show ?case by (simp add: lex_branch_def)
qed

lemma lexpos_step:
  assumes "0 \<le> p" and "lex_branch (drop (nat p) lextable)" and "lex_at (drop (nat p) lextable)"
  obtains q where "lextable_decode p c = Some q"
    "q < 0 \<or> (nat q + 1 < length lextable \<and>
       (if lextable ! (nat q + 1) = 0 then lextable ! nat q AND 0x7f < 31
        else lex_branch (drop (nat q) lextable) \<and> lex_at (drop (nat q) lextable)))"
proof -
  obtain q where q: "lextable_decode p c = Some q" "q < 0 \<or> lex_at (drop (nat q) lextable)"
    using lextable_decode_ends [OF refl assms(2,3), of c] assms(1) by (auto simp: lextable_decode_def)
  have "nat q + 1 < length lextable \<and> (if lextable ! (nat q + 1) = 0
      then lextable ! nat q AND 0x7f < 31 else lex_branch (drop (nat q) lextable))"
    if det: "lex_at (drop (nat q) lextable)"
  proof -
    obtain b d rest where j: "b # d # rest = drop (nat q) lextable"
      using det by (cases "drop (nat q) lextable" rule: lex_words.cases) (auto simp: lex_at_def)
    show ?thesis unfolding drop_entry(2,3) [OF j] using drop_entry(1) [OF j] det
      unfolding j [symmetric] by (auto simp: lex_branch_def lex_at_def)
  qed
  with q that show ?thesis by (metis (full_types))
qed

lemma chain_last_update:
  assumes ok: "ah_ok ah" and m: "ah_next_frag ah < m" and n: "0 < n" "n \<le> ah_next_frag ah"
  shows "chain_last ((ah_frags ah)[m := x]) n = chain_last (ah_frags ah) n"
  using n
proof (induction "ah_next_frag ah - n" arbitrary: n rule: less_induct)
  case less
  note N = frag_next_ok [OF ok less.prems]
  have "chain_last ((ah_frags ah)[m := x]) (frag_next (ah_frags ah ! n))
      = chain_last (ah_frags ah) (frag_next (ah_frags ah ! n))" if "frag_next (ah_frags ah ! n) \<noteq> 0"
    by (rule less.hyps) (use N that less.prems in auto)
  then show ?case
    by (subst (1 2) chain_last.simps) (use N less.prems m in \<open>auto simp: access_simps\<close>)
qed

lemma start_fragment_ok:
  assumes ok: "ah_ok (hdr_ah w)" and cs: "cur_sealed (hdr_ah w)"
    and st: "parser_state w \<le> WSI_TOKEN_HTTP_REFERER" "parser_state w \<noteq> WSI_TOKEN_CHALLENGE"
    and ues: "hdr_ues w = URIES_SEEN_PERCENT_H1 \<Longrightarrow> 0 \<le> char_to_hex (esc_stash w)"
  shows "hdr_good (start_fragment w)"
proof (cases "ah_next_frag (hdr_ah w) + 1 = HDR_FRAGS")
  case True
  then show ?thesis by (simp add: start_fragment_def hdr_good_def)
next
  case False
  define ah where "ah = hdr_ah w"
  note D = ah_okD [OF ok, folded ah_def] and ok = ok [folded ah_def] and cs = cs [folded ah_def]
  let ?n = "ah_next_frag ah"
  from False D(4) have room: "?n + 1 < HDR_FRAGS" by (simp add: ah_def)
  define ah1 where "ah1 = ah\<lparr>ah_next_frag := ?n + 1,
    ah_frags := (ah_frags ah)[?n + 1 := \<lparr>frag_offset = ah_pos ah, frag_len = 0, frag_next = 0\<rparr>]\<rparr>"
  have "frag_ok ah1 n" if n: "0 < n" "n \<le> ?n + 1" for n
  proof (cases "n \<le> ?n")
    case True
    have le: "frag_offset (ah_frags ah ! ?n) + frag_len (ah_frags ah ! ?n) \<le> ah_pos ah"
      using ah_ok_cur [OF ok] n True by simp
    show ?thesis
    proof (cases "n = ?n")
      case True
      then show ?thesis using D(7) [OF n(1)] le cs n room D(2)
        by (auto simp: ah1_def frag_ok_def Let_def sealed_def cur_sealed_def)
    next
      case False
      then show ?thesis using D(7) [OF n(1) True] le True room D(2)
        by (fastforce simp: ah1_def frag_ok_def Let_def sealed_def)
    qed
  next
    case False
    with n have "n = ?n + 1" by simp
    then show ?thesis using room D(2) by (simp add: frag_ok_def ah1_def)
  qed
  moreover have "ah_frag_index ah ! h \<le> ?n + 1" if "h < WSI_TOKEN_COUNT" for h
    using D(6) [OF that] by simp
  ultimately have ok1: "ah_ok ah1" using D room by (auto simp: ah_ok_def ah1_def)
  have op: "open_frag (hdr_ah w\<lparr>ah_next_frag := ah_next_frag (hdr_ah w) + 1\<rparr>) = Some ah1"
    using room D(2) by (simp add: open_frag_def ah1_def ah_def access_simps)
  have run: "start_fragment w = do {
        n \<leftarrow> aget (ah_frag_index ah1) (parser_state w);
        if n = 0 then do {
          ah \<leftarrow> set_frag_index ah1 (parser_state w);
          Some (w\<lparr>hdr_ah := ah\<rparr>, 0) }
        else do {
          k \<leftarrow> chain_last (ah_frags ah1) n;
          f \<leftarrow> aget (ah_frags ah1) k;
          frags \<leftarrow> aset (ah_frags ah1) k (f\<lparr>frag_next := ah_next_frag ah1\<rparr>);
          let ah = ah1\<lparr>ah_frags := frags\<rparr>;
          (if ah_pos ah = LWS_MAX_HEADER_LEN then Some (w\<lparr>hdr_ah := ah\<rparr>, -1)
           else do {
             ah \<leftarrow> put_data ah 0x20;
             ah \<leftarrow> set_cur_len Suc ah;
             Some (w\<lparr>hdr_ah := ah\<rparr>, 0) }) } }"
    unfolding start_fragment_def Let_def op using room by (simp add: ah_def)
  show ?thesis
  proof (cases "ah_frag_index ah1 ! parser_state w = 0")
    case True
    let ?ah = "ah1\<lparr>ah_frag_index := (ah_frag_index ah1)[parser_state w := ah_next_frag ah1]\<rparr>"
    have "frag_ok ?ah n = frag_ok ah1 n" for n by (simp add: frag_ok_def sealed_def)
    moreover have "ah_frag_index ?ah ! h \<le> ah_next_frag ah1" if "h < WSI_TOKEN_COUNT" for h
      using ah_okD(1,6) [OF ok1] that by (cases "h = parser_state w") simp_all
    ultimately have "ah_ok ?ah" using ok1 by (simp add: ah_ok_def)
    moreover have "0 < ah_next_frag ah1" by (simp add: ah1_def)
    ultimately have "hdr_ok (w\<lparr>hdr_ah := ?ah\<rparr>)"
      using st ues ah_okD(1) [OF ok1] by (simp add: hdr_ok_def)
    then show ?thesis unfolding run using st ah_okD(1) [OF ok1] True
      by (simp add: set_frag_index_def access_simps hdr_good_def)
  next
    case False
    let ?h = "ah_frag_index ah ! parser_state w"
    have fi: "ah_frag_index ah1 = ah_frag_index ah" by (simp add: ah1_def)
    have h: "0 < ?h" "?h \<le> ?n" using False st(1) D(6) by (simp_all add: fi)
    obtain k where k: "chain_last (ah_frags ah) ?h = Some k" "?h \<le> k" "k \<le> ?n"
      "frag_next (ah_frags ah ! k) = 0"
      using chain_last_total [OF ok h] by blast
    have k1: "chain_last (ah_frags ah1) ?h = Some k"
      using chain_last_update [OF ok _ h, of "?n + 1"] k(1) by (simp add: ah1_def)
    define ah2 where "ah2 = ah1\<lparr>ah_frags :=
      (ah_frags ah1)[k := (ah_frags ah1 ! k)\<lparr>frag_next := ah_next_frag ah1\<rparr>]\<rparr>"
    have "frag_ok ah2 n" if n: "0 < n" "n \<le> ah_next_frag ah1" for n
      using ah_okD(7) [OF ok1 n] k(3) ah_okD(2,4) [OF ok1]
      by (auto simp: ah2_def frag_ok_def Let_def sealed_def nth_list_update ah1_def)
    then have ok2: "ah_ok ah2" using ok1 by (simp add: ah_ok_def ah2_def)
    have cur2: "0 < ah_next_frag ah2" by (simp add: ah2_def ah1_def)
    have run2: "start_fragment w =
        (if ah_pos ah2 = LWS_MAX_HEADER_LEN then Some (w\<lparr>hdr_ah := ah2\<rparr>, -1)
         else do {
             ah \<leftarrow> put_data ah2 0x20;
             ah \<leftarrow> set_cur_len Suc ah;
             Some (w\<lparr>hdr_ah := ah\<rparr>, 0) })"
      unfolding run using False h k1 k(3) room st(1) D(1) ah_okD(2) [OF ok1]
      by (simp add: fi access_simps ah2_def Let_def)
    obtain ah3 r where i: "issue_char ah2 0x20 = Some (ah3, r)" "ah_ok ah3" "same_slots ah2 ah3"
      "r = 0 \<or> r = -1"
      using issue_char_ok [OF ok2 cur2, of "0x20"] by metis
    have "hdr_ok (w\<lparr>hdr_ah := ah3\<rparr>)"
      using st ues i(2,3) False by (simp add: hdr_ok_def same_slots_def ah2_def)
    then show ?thesis unfolding run2 using i(1)
      by (auto simp: issue_char_def hdr_good_def split: if_splits Option.bind_splits)
  qed
qed

lemma parse_name_part_ok:
  assumes ok: "hdr_ok w" and st: "parser_state w = WSI_TOKEN_NAME_PART"
  shows "hdr_good (parse_name_part w c)"
proof -
  from ok st have D0: "ah_ok (hdr_ah w)" "cur_sealed (hdr_ah w)" "0 \<le> lextable_pos w"
    "lex_branch (drop (nat (lextable_pos w)) lextable)"
    "lex_at (drop (nat (lextable_pos w)) lextable)"
    "hdr_ues w = URIES_SEEN_PERCENT_H1 \<Longrightarrow> 0 \<le> char_to_hex (esc_stash w)"
    by (simp_all add: hdr_ok_def)
  note D = ah_okD [OF D0(1)]
  obtain q where q: "lextable_decode (lextable_pos w) c = Some q"
    "q < 0 \<or> (nat q + 1 < length lextable \<and>
       (if lextable ! (nat q + 1) = 0 then lextable ! nat q AND 0x7f < 31
        else lex_branch (drop (nat q) lextable) \<and> lex_at (drop (nat q) lextable)))"
    by (rule lexpos_step [OF D0(3-5)])
  let ?w = "w\<lparr>lextable_pos := q\<rparr>"
  let ?t = "unat (lextable ! nat q AND 0x7f)"
  let ?n = "if ?t = WSI_TOKEN_SWORIGIN then WSI_TOKEN_ORIGIN else ?t"
  have good: "hdr_good (Some (v, -1))" for v by (simp add: hdr_good_def)
  have skip: "hdr_good (Some (?w\<lparr>parser_state := WSI_TOKEN_SKIPPING\<rparr>, 0))"
    using D0 by (simp add: hdr_good_def hdr_ok_def)
  have complete: "hdr_good (set_parsing_complete (?w\<lparr>parser_state := k\<rparr>))" for k
    by (rule set_parsing_complete_ok) (use D0 in simp_all)
  have frag: "hdr_good (start_fragment (?w\<lparr>parser_state := k\<rparr>))"
    if "k \<le> WSI_TOKEN_HTTP_REFERER" "k \<noteq> WSI_TOKEN_CHALLENGE" for k
    by (rule start_fragment_ok) (use D0 that in simp_all)
  show ?thesis
  proof (cases "q < 0")
    case True
    then show ?thesis using D(1) q(1) good skip
      by (simp add: parse_name_part_def access_simps Let_def)
  next
    case False
    then have idx: "nat q + 1 < length lextable" using q(2) by simp
    show ?thesis
    proof (cases "lextable ! (nat q + 1) = 0")
      case nt: False
      have "hdr_ok ?w" using D0 q(2) False nt st by (simp add: hdr_ok_def)
      then show ?thesis using D(1) q(1) False nt idx
        by (simp add: parse_name_part_def access_simps Let_def hdr_good_def)
    next
      case True
      with q(2) False have "lextable ! nat q AND 0x7f < 31" by simp
      then have "?t < 31" by (simp add: word_less_nat_alt)
      then have "?n \<le> WSI_TOKEN_HTTP_REFERER" by simp
      from frag [OF this] show ?thesis using D(1) q(1) False True idx good complete [of ?n]
        by (cases "?t = WSI_TOKEN_SWORIGIN"; cases "?t = WSI_TOKEN_CHALLENGE")
           (simp_all add: parse_name_part_def access_simps Let_def)
    qed
  qed
qed


section \<open>Memory safety of the parser\<close>

lemma hdr_step_ok:
  assumes ok: "hdr_ok w" and room: "args_safe w c"
  shows "hdr_good (libwebsocket_parse w c)"
proof -
  have "hdr_good (parse_value (parse_depth 1) w c)" if "parser_state w \<le> WSI_TOKEN_HTTP_REFERER"
    using parse_value_ok [of w c 0] that ok room by (simp add: val_ok_def)
  moreover have "hdr_good (parse_name_part w c)" if "parser_state w = WSI_TOKEN_NAME_PART"
    using parse_name_part_ok [OF ok that] .
  moreover have "hdr_good (Some (w', 0))" if "hdr_ok w'" for w'
    using that by (simp add: hdr_good_def)
  moreover have "hdr_ok (w\<lparr>parser_state := k\<rparr>)"
    if "parser_state w > WSI_TOKEN_HTTP_REFERER" "k = WSI_TOKEN_SKIPPING \<or> k = WSI_TOKEN_SKIPPING_SAW_CR"
    for k using ok that by (auto simp: hdr_ok_def)
  moreover have "hdr_ok (w\<lparr>parser_state := WSI_TOKEN_NAME_PART, lextable_pos := 0\<rparr>)"
    if "parser_state w > WSI_TOKEN_HTTP_REFERER" using ok that lex_at_start by (simp add: hdr_ok_def)
  ultimately show ?thesis using ok
    unfolding libwebsocket_parse_def numeral_2_eq_2 One_nat_def
    by (auto simp: simp del: parse_depth.simps(1))
qed


text \<open>The unescaping state is only left idle by a percent sign.\<close>

lemma ues_set_parsing_complete: "set_parsing_complete w = Some (w', r) \<Longrightarrow> hdr_ues w' = hdr_ues w"
  by (auto simp: set_parsing_complete_def Let_def split: if_splits Option.bind_splits)

lemma ues_swallow: "parse_swallow w = Some (w', r) \<Longrightarrow> hdr_ues w' = hdr_ues w"
  by (auto simp: parse_swallow_def dest: ues_set_parsing_complete split: if_splits)

lemma ues_spill: "parse_spill w c = Some (w', r) \<Longrightarrow> hdr_ues w' = hdr_ues w"
  by (auto simp: parse_spill_def Let_def dest!: ues_swallow split: if_splits Option.bind_splits)

lemma ues_check_eol: "parse_check_eol w c = Some (w', r) \<Longrightarrow> hdr_ues w' = hdr_ues w"
  by (auto simp: parse_check_eol_def start_uri_args_def Let_def dest!: ues_swallow ues_spill
      split: if_splits Option.bind_splits)

lemma ues_uri_path: "parse_uri_path w c = Some (w', r) \<Longrightarrow> hdr_ues w' = hdr_ues w"
  by (auto simp: parse_uri_path_def dest!: ues_swallow ues_check_eol
      split: if_splits Option.bind_splits uri_path_states.splits)

lemma ues_start_fragment: "start_fragment w = Some (w', r) \<Longrightarrow> hdr_ues w' = hdr_ues w"
  by (auto simp: start_fragment_def Let_def split: if_splits Option.bind_splits)

lemma ues_name_part: "parse_name_part w c = Some (w', r) \<Longrightarrow> hdr_ues w' = hdr_ues w"
  by (auto simp: parse_name_part_def Let_def dest!: ues_start_fragment ues_set_parsing_complete
      split: if_splits Option.bind_splits)

lemma ues_parse:
  "libwebsocket_parse w c = Some (w', r) \<Longrightarrow> hdr_ues w = URIES_IDLE \<Longrightarrow> c \<noteq> 0x25 \<Longrightarrow>
   hdr_ues w' = URIES_IDLE"
  by (auto simp: libwebsocket_parse_def numeral_2_eq_2 parse_value_def parse_uri_esc_def Let_def
      dest!: ues_uri_path ues_check_eol ues_name_part ues_spill
      split: if_splits Option.bind_splits)

text \<open>Every question mark of the input, escaped ones included, finds room for the arguments: a free fragment and four bytes
  of the store.\<close>

fun args_fit :: "hdr_wsi \<Rightarrow> bytes \<Rightarrow> bool" where
  "args_fit w [] \<longleftrightarrow> True"
| "args_fit w (c # cs) \<longleftrightarrow> args_safe w c \<and>
     (case libwebsocket_parse w c of None \<Rightarrow> True | Some (w', r) \<Rightarrow> r = 0 \<longrightarrow> args_fit w' cs)"

lemma parse_bytes_fit: "hdr_ok w \<Longrightarrow> args_fit w cs \<Longrightarrow> hdr_good (parse_bytes w cs)"
proof (induction cs arbitrary: w)
  case Nil
  then show ?case by (simp add: hdr_good_def)
next
  case (Cons c cs)
  have "args_safe w c" using Cons.prems(2) by simp
  from hdr_step_ok [OF Cons.prems(1) this] obtain w' r where
    s: "libwebsocket_parse w c = Some (w', r)" "r = -1 \<or> r = 0 \<and> hdr_ok w'"
    by (auto simp: hdr_good_def)
  show ?case
  proof (cases "r = -1")
    case True
    with s show ?thesis by (simp add: hdr_good_def)
  next
    case False
    with s Cons.prems(2) Cons.IH [of w'] show ?thesis by simp
  qed
qed

lemma plain_fits: "hdr_ues w = URIES_IDLE \<Longrightarrow> 0x3f \<notin> set cs \<Longrightarrow> 0x25 \<notin> set cs \<Longrightarrow> args_fit w cs"
proof (induction cs arbitrary: w)
  case (Cons c cs)
  then have "args_safe w c" by (simp add: args_safe_def uri_char_def args_room_def)
  moreover have "args_fit w' cs" if "libwebsocket_parse w c = Some (w', r)" for w' r
    using Cons.IH [of w'] Cons.prems ues_parse [OF that] by simp
  ultimately show ?case by (auto split: option.split)
qed simp

lemma parse_bytes_ok:
  "hdr_ok w \<Longrightarrow> hdr_ues w = URIES_IDLE \<Longrightarrow> 0x3f \<notin> set cs \<Longrightarrow> 0x25 \<notin> set cs \<Longrightarrow>
   hdr_good (parse_bytes w cs)"
  by (intro parse_bytes_fit plain_fits)

lemma hdr_start_ok:
  assumes "length (ah_frags m) = HDR_FRAGS" "length (ah_data m) = LWS_MAX_HEADER_LEN"
  shows "hdr_ok (hdr_start m)"
  using assms lex_at_start
  by (simp add: hdr_ok_def hdr_start_def lws_allocate_header_table_def ah_ok_def cur_sealed_def)

text \<open>C27: One step of the header parser is memory safe and keeps the store well formed: in a state
  that satisfies the invariant (fragment chains increasing, fragments inside the data and
  terminated, the lexer on a well-formed suffix of its table), the parser reads and writes inside
  its arrays for every byte, and either rejects or returns a state with the invariant, provided
  that a question mark finds room in the store.\<close>

theorem parse_step_safe:
  assumes "hdr_ok w" and "args_safe w c"
  shows "\<exists>w' r. libwebsocket_parse w c = Some (w', r) \<and> (r = -1 \<or> r = 0 \<and> hdr_ok w')"
  using hdr_step_ok [OF assms] by (simp add: hdr_good_def)

definition blank_store :: allocated_headers where
  "blank_store = \<lparr>ah_next_frag = 0, ah_pos = 0, ah_frag_index = [],
     ah_frags = replicate HDR_FRAGS \<lparr>frag_offset = 0, frag_len = 0, frag_next = 0\<rparr>,
     ah_data = replicate LWS_MAX_HEADER_LEN 0\<rparr>"

lemma blank_store_start: "hdr_ok (hdr_start blank_store)"
  by (rule hdr_start_ok) (simp_all add: blank_store_def)

theorem parse_step_safe_witness:
  "\<exists>w' r. libwebsocket_parse (hdr_start blank_store) 0x47 = Some (w', r) \<and>
     (r = -1 \<or> r = 0 \<and> hdr_ok w')"
  by (rule parse_step_safe [OF blank_store_start])
     (simp add: args_safe_def uri_char_def args_room_def hdr_start_def)

text \<open>C9: Parsing a whole request is memory safe: from a fresh store, whatever memory \<open>malloc\<close>
  returned, every input, with escapes and URI arguments, is parsed to its end, or rejected,
  without an access outside the store, as long as each question mark in it (or decoded from an escape) finds a free
  fragment and four free bytes; an input without question marks and percent signs always is.\<close>

theorem parse_input_safe:
  assumes "length (ah_frags m) = HDR_FRAGS" and "length (ah_data m) = LWS_MAX_HEADER_LEN"
    and "args_fit (hdr_start m) input \<or> 0x3f \<notin> set input \<and> 0x25 \<notin> set input"
  shows "\<exists>w r. parse_bytes (hdr_start m) input = Some (w, r) \<and> (r = -1 \<or> r = 0 \<and> hdr_ok w)"
proof -
  have "args_fit (hdr_start m) input" using assms(3) plain_fits [of "hdr_start m" input] by (auto simp: hdr_start_def)
  from parse_bytes_fit [OF hdr_start_ok [OF assms(1,2)] this] show ?thesis by (simp add: hdr_good_def)
qed

theorem parse_input_safe_witness:
  "\<exists>w r. parse_bytes (hdr_start blank_store) (str ''GET /a%2fb?x=%41&y?z HTTP/1.1'') = Some (w, r) \<and>
     (r = -1 \<or> r = 0 \<and> hdr_ok w)"
proof -
  have "args_fit (hdr_start blank_store) (str ''GET /a%2fb?x=%41&y?z HTTP/1.1'')" by code_simp
  then show ?thesis by (intro parse_input_safe) (simp_all add: blank_store_def)
qed

section \<open>Reading a header line\<close>

lemma libwebsocket_parse_eq:
  "libwebsocket_parse w c =
     (if parser_state w \<le> WSI_TOKEN_HTTP_REFERER then parse_value (parse_depth 1) w c
      else if parser_state w = WSI_TOKEN_NAME_PART then parse_name_part w c
      else if parser_state w = WSI_TOKEN_SKIPPING then
        Some (if c = 0x0d then w\<lparr>parser_state := WSI_TOKEN_SKIPPING_SAW_CR\<rparr> else w, 0)
      else if parser_state w = WSI_TOKEN_SKIPPING_SAW_CR then
        Some (if c = 0x0a then w\<lparr>parser_state := WSI_TOKEN_NAME_PART, lextable_pos := 0\<rparr>
              else w\<lparr>parser_state := WSI_TOKEN_SKIPPING\<rparr>, 0)
      else Some (w, 0))"
  unfolding libwebsocket_parse_def numeral_2_eq_2 One_nat_def by (rule parse_depth.simps(2))

lemma parse_name_run:
  assumes "hdr_ok w" and "parser_state w = WSI_TOKEN_NAME_PART"
    and "lex_run (lextable_pos w) cs = Some t"
    and "unat t \<noteq> WSI_TOKEN_CHALLENGE" and "unat t \<noteq> WSI_TOKEN_SWORIGIN"
    and "ah_frag_index (hdr_ah w) ! unat t = 0"
  shows "\<exists>q. parse_bytes w cs = do {
      (w', r) \<leftarrow> start_fragment (w\<lparr>lextable_pos := q, parser_state := unat t\<rparr>);
      if r < 0 then Some (w', r) else Some (w', 0) }"
  using assms
proof (induction cs arbitrary: w)
  case (Cons c cs)
  note D = ah_okD(1) [of "hdr_ah w"]
  have fi: "length (ah_frag_index (hdr_ah w)) = WSI_TOKEN_COUNT"
    using Cons.prems(1) D by (simp add: hdr_ok_def)
  obtain q where q: "lextable_decode (lextable_pos w) c = Some q"
    "q < 0 \<or> (nat q + 1 < length lextable \<and>
       (if lextable ! (nat q + 1) = 0 then lextable ! nat q AND 0x7f < 31
        else lex_branch (drop (nat q) lextable) \<and> lex_at (drop (nat q) lextable)))"
    using lexpos_step [of "lextable_pos w" c] Cons.prems(1,2) by (auto simp: hdr_ok_def)
  from Cons.prems(3) q(1) have nonneg: "\<not> q < 0" by (auto split: if_splits)
  with q(2) have idx: "nat q + 1 < length lextable" by simp
  have step: "libwebsocket_parse w c = parse_name_part w c"
    using Cons.prems(2) by (simp add: libwebsocket_parse_eq)
  show ?case
  proof (cases "lextable ! (nat q + 1) = 0")
    case True
    with Cons.prems(3) q(1) nonneg have t: "cs = []" "t = lextable ! nat q AND 0x7f"
      by (auto split: if_splits)
    have "parse_name_part w c
        = start_fragment (w\<lparr>lextable_pos := q, parser_state := unat t\<rparr>)"
      unfolding t(2) using q(1) nonneg idx True fi Cons.prems(4-6) [unfolded t(2)]
      by (auto simp: parse_name_part_def access_simps Let_def)
    then show ?thesis unfolding t(1) by (intro exI [of _ q], cases "start_fragment (w\<lparr>lextable_pos := q, parser_state := unat t\<rparr>)")
        (auto simp: step)
  next
    case False
    have "libwebsocket_parse w c = Some (w\<lparr>lextable_pos := q\<rparr>, 0)"
      unfolding step using q(1) nonneg idx False fi
      by (simp add: parse_name_part_def access_simps Let_def)
    moreover have "\<exists>p. parse_bytes (w\<lparr>lextable_pos := q\<rparr>) cs = do {
        (w', r) \<leftarrow> start_fragment (w\<lparr>lextable_pos := q\<rparr>\<lparr>lextable_pos := p, parser_state := unat t\<rparr>);
        if r < 0 then Some (w', r) else Some (w', 0) }"
      by (rule Cons.IH) (use Cons.prems q nonneg False in \<open>auto simp: hdr_ok_def\<close>)
    ultimately show ?thesis by simp
  qed
qed simp

text \<open>The bytes of a value, appended to the current fragment.\<close>

definition append_value :: "allocated_headers \<Rightarrow> bytes \<Rightarrow> allocated_headers" where
  "append_value ah v =
     (let n = ah_next_frag ah; f = ah_frags ah ! n in
      ah\<lparr>ah_data := take (ah_pos ah) (ah_data ah) @ v @ drop (ah_pos ah + length v) (ah_data ah),
         ah_pos := ah_pos ah + length v,
         ah_frags := (ah_frags ah)[n := f\<lparr>frag_len := frag_len f + length v\<rparr>]\<rparr>)"

lemma append_value_Nil: "append_value ah [] = ah"
  by (simp add: append_value_def Let_def)

lemma append_value_Cons:
  assumes "length (ah_data ah) = LWS_MAX_HEADER_LEN" "ah_pos ah < LWS_MAX_HEADER_LEN"
    and "ah_next_frag ah < length (ah_frags ah)"
  shows "append_value (append_value ah [c]) cs = append_value ah (c # cs)"
  using assms by (simp add: append_value_def Let_def add.commute)

lemma issue_char_append:
  assumes "length (ah_data ah) = LWS_MAX_HEADER_LEN" "ah_pos ah < LWS_MAX_HEADER_LEN"
    and "ah_next_frag ah < length (ah_frags ah)" and "c \<noteq> 0"
  shows "issue_char ah c = Some (append_value ah [c], 0)"
  using assms by (simp add: issue_char_def put_data_def set_cur_len_def cur_frag_def access_simps
      append_value_def Let_def upd_conv_take_nth_drop)


lemma parse_bytes_append:
  "parse_bytes w cs = Some (w', 0) \<Longrightarrow> parse_bytes w (cs @ ds) = parse_bytes w' ds"
  by (induction cs arbitrary: w) (auto split: Option.bind_splits if_splits)

definition value_byte :: "u8 \<Rightarrow> bool" where
  "value_byte c \<longleftrightarrow> c \<noteq> 0 \<and> c \<noteq> 0x0d \<and> c \<noteq> 0x3f"

lemma parse_value_run:
  assumes "length (ah_data ah) = LWS_MAX_HEADER_LEN" "length (ah_frags ah) = HDR_FRAGS"
    "length (ah_frag_index ah) = WSI_TOKEN_COUNT"
    and "hdr_ah w = ah" and "WSI_TOKEN_POST_URI < parser_state w"
    and "parser_state w \<le> WSI_TOKEN_HTTP_REFERER" "parser_state w \<noteq> WSI_TOKEN_CHALLENGE"
    and "ah_frag_index ah ! parser_state w = ah_next_frag ah" "ah_next_frag ah < HDR_FRAGS"
    and "\<forall>c \<in> set v. value_byte c" and "ah_pos ah + length v \<le> LWS_MAX_HEADER_LEN"
    and "frag_len (ah_frags ah ! ah_next_frag ah) \<noteq> 0 \<or> (v \<noteq> [] \<longrightarrow> hd v \<noteq> 0x20)"
  shows "parse_bytes w v = Some (w\<lparr>hdr_ah := append_value ah v\<rparr>, 0)"
  using assms
proof (induction v arbitrary: w ah)
  case Nil
  then show ?case by (simp add: append_value_Nil)
next
  case (Cons c v)
  let ?ah = "append_value ah [c]"
  have app: "issue_char ah c = Some (?ah, 0)"
    by (rule issue_char_append) (use Cons.prems in \<open>auto simp: value_byte_def\<close>)
  have step: "libwebsocket_parse w c = Some (w\<lparr>hdr_ah := ?ah\<rparr>, 0)"
    using Cons.prems app
    by (auto simp: libwebsocket_parse_eq parse_value_def parse_check_eol_def
        parse_spill_def parse_swallow_def access_simps value_byte_def)
  have "parse_bytes (w\<lparr>hdr_ah := ?ah\<rparr>) v = Some (w\<lparr>hdr_ah := ?ah\<rparr>\<lparr>hdr_ah := append_value ?ah v\<rparr>, 0)"
    by (rule Cons.IH) (use Cons.prems in \<open>auto simp: append_value_def Let_def\<close>)
  with step append_value_Cons [of ah c v] Cons.prems show ?case by simp
qed

lemma cstr_append: "0 \<notin> set v \<Longrightarrow> cstr (v @ 0 # xs) = Some v"
  by (induction v) auto

definition header_line :: "bytes \<Rightarrow> bytes \<Rightarrow> bytes" where
  "header_line name v = name @ [0x20] @ v @ [0x0d, 0x0a]"

text \<open>The store after one complete line for a header not seen before.\<close>

definition add_header :: "allocated_headers \<Rightarrow> nat \<Rightarrow> bytes \<Rightarrow> allocated_headers" where
  "add_header ah h v =
     (let n = ah_next_frag ah + 1 in
      \<lparr>ah_next_frag = n, ah_pos = ah_pos ah + length v + 1,
       ah_frag_index = (ah_frag_index ah)[h := n],
       ah_frags = (ah_frags ah)[n := \<lparr>frag_offset = ah_pos ah, frag_len = length v, frag_next = 0\<rparr>],
       ah_data = take (ah_pos ah) (ah_data ah) @ v @ [0] @ drop (ah_pos ah + length v + 1) (ah_data ah)\<rparr>)"

lemma parse_header_spaces:
  assumes ok: "hdr_ok w" and st: "parser_state w = WSI_TOKEN_NAME_PART" "lextable_pos w = 0"
    and name: "h < length minilex_set" "map tolower name = minilex_set ! h"
    and h: "h \<notin> {WSI_TOKEN_GET_URI, WSI_TOKEN_POST_URI, WSI_TOKEN_CHALLENGE, WSI_TOKEN_SWORIGIN}"
    and new: "ah_frag_index (hdr_ah w) ! h = 0"
    and room: "ah_next_frag (hdr_ah w) + 1 < HDR_FRAGS"
      "ah_pos (hdr_ah w) + length v < LWS_MAX_HEADER_LEN"
    and v: "\<forall>c \<in> set v. value_byte c" "v \<noteq> [] \<longrightarrow> hd v \<noteq> 0x20"
  shows "parse_bytes w (name @ replicate k 0x20 @ v @ [0x0d, 0x0a]) =
    Some (w\<lparr>hdr_ah := add_header (hdr_ah w) h v, lextable_pos := 0\<rparr>, 0)"
proof -
  define ah where "ah = hdr_ah w"
  have "ah_ok ah" using ok by (simp add: hdr_ok_def ah_def)
  note D = ah_okD [OF this] and room = room [folded ah_def] and new = new [folded ah_def]
  let ?n = "ah_next_frag ah + 1"
  have h31: "h < 31" using name(1) by (simp add: length_minilex_set)
  define ah1 where "ah1 = ah\<lparr>ah_next_frag := ?n, ah_frag_index := (ah_frag_index ah)[h := ?n],
    ah_frags := (ah_frags ah)[?n := \<lparr>frag_offset = ah_pos ah, frag_len = 0, frag_next = 0\<rparr>]\<rparr>"
  have "unat (word_of_nat h :: u8) = h" using h31 by (simp add: unat_of_nat)
  then have "lex_run (lextable_pos w) name = Some (word_of_nat h)"
    using name by (simp add: lex_run_words st(2))
  with parse_name_run [OF ok st(1) this] h new \<open>unat _ = h\<close> obtain q where
    q: "parse_bytes w name = do {
      (w', r) \<leftarrow> start_fragment (w\<lparr>lextable_pos := q, parser_state := h\<rparr>);
      if r < 0 then Some (w', r) else Some (w', 0) }"
    by (auto simp: ah_def)
  let ?w1 = "w\<lparr>lextable_pos := q, parser_state := h, hdr_ah := ah1\<rparr>"
  have p1: "parse_bytes w name = Some (?w1, 0)"
    unfolding q using room new D(1,2) h31
    by (simp add: start_fragment_def Let_def open_frag_def set_frag_index_def access_simps
        ah_def [symmetric] ah1_def)
  have idx1: "length (ah_data ah1) = LWS_MAX_HEADER_LEN" "length (ah_frags ah1) = HDR_FRAGS"
    "length (ah_frag_index ah1) = WSI_TOKEN_COUNT" "ah_frag_index ah1 ! h = ah_next_frag ah1"
    "ah_next_frag ah1 < HDR_FRAGS" "frag_len (ah_frags ah1 ! ah_next_frag ah1) = 0"
    "ah_pos ah1 = ah_pos ah"
    using D room h31 by (simp_all add: ah1_def)
  have p2: "parse_bytes ?w1 (replicate k 0x20) = Some (?w1, 0)"
    by (induction k) (use h h31 idx1 in \<open>simp_all add: libwebsocket_parse_eq parse_value_def access_simps\<close>)
  have p3: "parse_bytes ?w1 v = Some (?w1\<lparr>hdr_ah := append_value ah1 v\<rparr>, 0)"
    by (rule parse_value_run) (use h h31 idx1 v room in auto)
  let ?w2 = "?w1\<lparr>hdr_ah := append_value ah1 v\<rparr>"
  let ?ah3 = "add_header ah h v"
  have "issue_char (append_value ah1 v) 0 = Some (?ah3, 0)"
    using idx1 room D by (simp add: issue_char_def put_data_def append_value_def Let_def access_simps
        add_header_def ah1_def list_update_append Cons_nth_drop_Suc [symmetric])
  then have "libwebsocket_parse ?w2 0x0d
      = Some (?w2\<lparr>parser_state := WSI_TOKEN_SKIPPING_SAW_CR, hdr_ah := ?ah3\<rparr>, 0)"
    using h h31 idx1
    by (auto simp: libwebsocket_parse_eq parse_value_def parse_check_eol_def
        parse_spill_def parse_swallow_def access_simps append_value_def Let_def)
  then have p4: "parse_bytes ?w2 [0x0d, 0x0a]
      = Some (w\<lparr>hdr_ah := ?ah3, lextable_pos := 0\<rparr>, 0)"
    using st(1) by (simp add: libwebsocket_parse_eq)
  show ?thesis unfolding ah_def [symmetric]
    using parse_bytes_append [OF p1, of "replicate k 0x20 @ v @ [0x0d, 0x0a]"]
      parse_bytes_append [OF p2, of "v @ [0x0d, 0x0a]"] parse_bytes_append [OF p3, of "[0x0d, 0x0a]"]
      p4 by simp
qed



lemma add_header_copy:
  assumes "length (ah_frag_index ah) = WSI_TOKEN_COUNT" "length (ah_frags ah) = HDR_FRAGS"
    "length (ah_data ah) = LWS_MAX_HEADER_LEN" and "h < WSI_TOKEN_COUNT"
    and "ah_next_frag ah + 1 < HDR_FRAGS" "ah_pos ah + length v < LWS_MAX_HEADER_LEN"
    and "0 \<notin> set v" and "length v < length dest"
  shows "lws_hdr_total_length (add_header ah h v) h = Some (length v)"
    and "lws_hdr_copy (add_header ah h v) dest h
      = Some (v @ [0] @ drop (length v + 1) dest, int (length v))"
proof -
  let ?n = "ah_next_frag ah + 1" and ?ah = "add_header ah h v"
  have f: "aget (ah_frag_index ?ah) h = Some ?n"
    "aget (ah_frags ?ah) ?n = Some \<lparr>frag_offset = ah_pos ah, frag_len = length v, frag_next = 0\<rparr>"
    "drop (ah_pos ah) (ah_data ?ah) = v @ 0 # drop (ah_pos ah + length v + 1) (ah_data ah)"
    using assms by (simp_all add: add_header_def Let_def access_simps)
  show len: "lws_hdr_total_length ?ah h = Some (length v)"
    using f by (simp add: lws_hdr_total_length_def frag_chain_len.simps)
  have "hdr_copy_loop ?ah ?n dest 0 = Some (v @ [0] @ drop (length v + 1) dest)"
    by (subst hdr_copy_loop.simps) (use f assms(7,8) in \<open>simp add: cstr_append access_simps\<close>)
  then show "lws_hdr_copy ?ah dest h = Some (v @ [0] @ drop (length v + 1) dest, int (length v))"
    using len f(1) assms(8) by (simp add: lws_hdr_copy_def)
qed

text \<open>C24: A header line is stored and read back: at the start of a name, a complete line for a
  known header not seen before (its name in any letter case, a value without NUL, carriage return
  or question mark and without a leading space) leaves the parser at the next name, and
  \<open>lws_hdr_copy\<close> then returns exactly the value, terminated. The entries of the other headers and
  all bytes stored before are unchanged.\<close>

theorem header_line_roundtrip:
  assumes "hdr_ok w" and "parser_state w = WSI_TOKEN_NAME_PART" and "lextable_pos w = 0"
    and "h < length minilex_set" and "map tolower name = minilex_set ! h"
    and "h \<notin> {WSI_TOKEN_GET_URI, WSI_TOKEN_POST_URI, WSI_TOKEN_CHALLENGE, WSI_TOKEN_SWORIGIN}"
    and "ah_frag_index (hdr_ah w) ! h = 0" and "ah_next_frag (hdr_ah w) + 1 < HDR_FRAGS"
    and "ah_pos (hdr_ah w) + length v < LWS_MAX_HEADER_LEN"
    and "\<forall>c \<in> set v. value_byte c" and "v \<noteq> [] \<longrightarrow> hd v \<noteq> 0x20" and "length v < length dest"
  shows "\<exists>w'. parse_bytes w (header_line name v) = Some (w', 0) \<and>
    parser_state w' = WSI_TOKEN_NAME_PART \<and> lextable_pos w' = 0 \<and>
    lws_hdr_total_length (hdr_ah w') h = Some (length v) \<and>
    lws_hdr_copy (hdr_ah w') dest h = Some (v @ [0] @ drop (length v + 1) dest, int (length v)) \<and>
    (\<forall>k. k \<noteq> h \<longrightarrow> ah_frag_index (hdr_ah w') ! k = ah_frag_index (hdr_ah w) ! k) \<and>
    take (ah_next_frag (hdr_ah w) + 1) (ah_frags (hdr_ah w'))
      = take (ah_next_frag (hdr_ah w) + 1) (ah_frags (hdr_ah w)) \<and>
    take (ah_pos (hdr_ah w)) (ah_data (hdr_ah w')) = take (ah_pos (hdr_ah w)) (ah_data (hdr_ah w))"
proof -
  have "ah_ok (hdr_ah w)" using assms(1) by (simp add: hdr_ok_def)
  note D = ah_okD [OF this]
  have "h < WSI_TOKEN_COUNT" using assms(4) by (simp add: length_minilex_set)
  moreover have "0 \<notin> set v" using assms(10) by (auto simp: value_byte_def)
  ultimately have "lws_hdr_total_length (add_header (hdr_ah w) h v) h = Some (length v)"
    "lws_hdr_copy (add_header (hdr_ah w) h v) dest h
      = Some (v @ [0] @ drop (length v + 1) dest, int (length v))"
    using add_header_copy [OF D(1-3)] assms(8,9,12) by blast+
  moreover have "parse_bytes w (header_line name v)
      = Some (w\<lparr>hdr_ah := add_header (hdr_ah w) h v, lextable_pos := 0\<rparr>, 0)"
    using parse_header_spaces [OF assms(1-11), of 1] by (simp add: header_line_def)
  ultimately show ?thesis using assms(2,9) D(3) by (simp add: add_header_def Let_def)
qed

theorem header_line_roundtrip_witness:
  "\<exists>w'. parse_bytes (hdr_start blank_store) (header_line (str ''Host:'') (str ''a.b'')) = Some (w', 0) \<and>
    lws_hdr_copy (hdr_ah w') (replicate 8 0) WSI_TOKEN_HOST
      = Some (str ''a.b'' @ [0] @ replicate 4 0, 3)"
proof -
  have "map tolower (str ''Host:'') = minilex_set ! 2"
    by (simp add: str_def tolower_def minilex_set_def)
  from header_line_roundtrip [OF blank_store_start _ _ _ this, of "str ''a.b''" "replicate 8 0"]
  have "\<exists>w'. parse_bytes (hdr_start blank_store) (header_line (str ''Host:'') (str ''a.b'')) = Some (w', 0)
    \<and> lws_hdr_copy (hdr_ah w') (replicate 8 0) 2 = Some (str ''a.b'' @ [0] @ drop 4 (replicate 8 0), 3)"
    by (simp add: hdr_start_def lws_allocate_header_table_def blank_store_def length_minilex_set
        value_byte_def) (auto simp: str_def)
  then show ?thesis by simp
qed

end
