(* ===== verification/Uri_Path.thy ===== *)
theory Uri_Path
  imports Header_Parser
begin

text \<open>
  The URI path state machine of \<open>libwebsocket_parse\<close>: for a request path that starts with a
  slash, no empty and no dot segment survives the unescaping and the normalisation, so the stored path cannot
  climb out of the document root. The section on quirks shows what the machine does otherwise.
\<close>

definition path_bytes :: "allocated_headers \<Rightarrow> bytes" where
  "path_bytes ah = (let f = ah_frags ah ! ah_next_frag ah in
     take (frag_len f) (drop (frag_offset f) (ah_data ah)))"

text \<open>Behind a slash there is no other slash, and no dot followed by a dot, a slash or the end.\<close>

definition clean_segments :: "bytes \<Rightarrow> bool" where
  "clean_segments s \<longleftrightarrow>
     (\<forall>i < length s. s ! i = 0x2f \<longrightarrow> i + 1 < length s \<longrightarrow> s ! (i + 1) \<noteq> 0x2f \<and>
        (s ! (i + 1) = 0x2e \<longrightarrow> i + 2 < length s \<and> s ! (i + 2) \<noteq> 0x2e \<and> s ! (i + 2) \<noteq> 0x2f))"

definition path_ok :: "hdr_wsi \<Rightarrow> bool" where
  "path_ok w \<longleftrightarrow>
     (let ah = hdr_ah w; f = ah_frags ah ! ah_next_frag ah; s = path_bytes ah in
        ah_pos ah = frag_offset f + frag_len f \<and> s \<noteq> [] \<and> hd s = 0x2f \<and> clean_segments s \<and>
        (hdr_ups w = URIPS_IDLE \<longrightarrow> last s \<noteq> 0x2f))"

lemma clean_segments_snoc:
  assumes s: "clean_segments s" and c: "s \<noteq> [] \<Longrightarrow> last s = 0x2f \<Longrightarrow> c \<noteq> 0x2e \<and> c \<noteq> 0x2f"
  shows "clean_segments (s @ [c])"
  unfolding clean_segments_def
proof (intro allI impI)
  fix i assume i: "i < length (s @ [c])" "(s @ [c]) ! i = 0x2f" "i + 1 < length (s @ [c])"
  show "(s @ [c]) ! (i + 1) \<noteq> 0x2f \<and> ((s @ [c]) ! (i + 1) = 0x2e \<longrightarrow>
      i + 2 < length (s @ [c]) \<and> (s @ [c]) ! (i + 2) \<noteq> 0x2e \<and> (s @ [c]) ! (i + 2) \<noteq> 0x2f)"
  proof (cases "i + 1 < length s")
    case True
    then show ?thesis using s i by (auto simp: clean_segments_def nth_append)
  next
    case False
    with i(3) have "i = length s - 1" "s \<noteq> []" by auto
    with i c show ?thesis by (simp add: nth_append last_conv_nth)
  qed
qed

lemma clean_segments_dot:
  assumes s: "clean_segments s" and c: "c \<noteq> 0x2e" "c \<noteq> 0x2f"
  shows "clean_segments (s @ [0x2e, c])"
  unfolding clean_segments_def
proof (intro allI impI)
  fix i assume i: "i < length (s @ [0x2e, c])" "(s @ [0x2e, c]) ! i = 0x2f" "i + 1 < length (s @ [0x2e, c])"
  consider "i + 1 < length s" | "i + 1 = length s" | "i = length s" | "i = length s + 1"
    using i(1) by fastforce
  then show "(s @ [0x2e, c]) ! (i + 1) \<noteq> 0x2f \<and> ((s @ [0x2e, c]) ! (i + 1) = 0x2e \<longrightarrow>
      i + 2 < length (s @ [0x2e, c]) \<and> (s @ [0x2e, c]) ! (i + 2) \<noteq> 0x2e \<and> (s @ [0x2e, c]) ! (i + 2) \<noteq> 0x2f)"
  proof cases
    case 1
    then show ?thesis using s i by (auto simp: clean_segments_def nth_append)
  next
    case 2
    then have "(s @ [0x2e, c]) ! (i + 2) = c" using nth_append_length_plus [of s "[0x2e, c]" 1] by simp
    moreover have "(s @ [0x2e, c]) ! (i + 1) = 0x2e" using 2 by simp
    ultimately show ?thesis using 2 c by simp
  next
    case 3
    then show ?thesis using i by (simp add: nth_append)
  next
    case 4
    then show ?thesis using i by simp
  qed
qed

lemma clean_segments_take:
  assumes "clean_segments s" and "k < length s" and "k = 1 \<or> s ! k = 0x2f"
  shows "clean_segments (take k s)"
  unfolding clean_segments_def
proof (intro allI impI)
  fix i assume i: "i < length (take k s)" "take k s ! i = 0x2f" "i + 1 < length (take k s)"
  then have n: "s ! (i + 1) \<noteq> 0x2f" "s ! (i + 1) = 0x2e \<longrightarrow> i + 2 < length s \<and> s ! (i + 2) \<noteq> 0x2e \<and> s ! (i + 2) \<noteq> 0x2f"
    using assms(1) by (auto simp: clean_segments_def)
  moreover have "s ! (i + 1) = 0x2e \<longrightarrow> i + 2 \<noteq> k" using n assms(3) i by auto
  ultimately show "take k s ! (i + 1) \<noteq> 0x2f \<and> (take k s ! (i + 1) = 0x2e \<longrightarrow>
      i + 2 < length (take k s) \<and> take k s ! (i + 2) \<noteq> 0x2e \<and> take k s ! (i + 2) \<noteq> 0x2f)"
    using i assms(2) by auto
qed

subsection \<open>What the steps do to the path\<close>

lemma path_append:
  assumes ok: "ah_ok ah" and cur: "0 < ah_next_frag ah"
    and at: "ah_pos ah = frag_offset (ah_frags ah ! ah_next_frag ah) + frag_len (ah_frags ah ! ah_next_frag ah)"
    and run: "issue_char ah c = Some (ah', 0)" and c: "c \<noteq> 0"
  shows "path_bytes ah' = path_bytes ah @ [c]"
    and "ah_pos ah' = frag_offset (ah_frags ah' ! ah_next_frag ah') + frag_len (ah_frags ah' ! ah_next_frag ah')"
proof -
  note D = ah_okD [OF ok]
  have pos: "ah_pos ah < LWS_MAX_HEADER_LEN" using run D(5) by (auto simp: issue_char_def split: if_splits)
  have "ah' = append_value ah [c]" using issue_char_append [OF D(3) pos _ c] run D(2,4) by simp
  with D pos at show "path_bytes ah' = path_bytes ah @ [c]"
    "ah_pos ah' = frag_offset (ah_frags ah' ! ah_next_frag ah') + frag_len (ah_frags ah' ! ah_next_frag ah')"
    by (simp_all add: append_value_def Let_def path_bytes_def drop_take)
qed

lemma backup_loop_stop:
  "\<lbrakk>len \<le> fuel + 1; 1 < len; len \<le> pos; pos \<le> length dat\<rbrakk> \<Longrightarrow>
   \<exists>k. 0 < k \<and> k < len \<and> backup_loop fuel dat pos len = Some (pos - k, len - k) \<and>
     (len - k = 1 \<or> dat ! (pos - k) = 0x2f)"
proof (induction fuel arbitrary: pos len)
  case (Suc fuel)
  show ?case
  proof (cases "len - 1 > 1 \<and> dat ! (pos - 1) \<noteq> 0x2f")
    case True
    have "\<exists>k. 0 < k \<and> k < len - 1 \<and>
        backup_loop fuel dat (pos - 1) (len - 1) = Some (pos - 1 - k, len - 1 - k) \<and>
        (len - 1 - k = 1 \<or> dat ! (pos - 1 - k) = 0x2f)"
      by (rule Suc.IH) (use True Suc.prems in auto)
    then obtain k where
      "0 < k" "k < len - 1" "backup_loop fuel dat (pos - 1) (len - 1) = Some (pos - 1 - k, len - 1 - k)"
      "len - 1 - k = 1 \<or> dat ! (pos - 1 - k) = 0x2f"
      by blast
    with True Suc.prems show ?thesis
      by (intro exI [of _ "Suc k"]) (simp add: access_simps)
  next
    case False
    with Suc.prems show ?thesis
      by (intro exI [of _ 1]) (auto simp: access_simps Let_def)
  qed
qed simp

lemma path_backup:
  assumes ok: "ah_ok ah" and cur: "0 < ah_next_frag ah"
    and at: "ah_pos ah = frag_offset (ah_frags ah ! ah_next_frag ah) + frag_len (ah_frags ah ! ah_next_frag ah)"
    and run: "uri_backup ah = Some ah'" and s: "clean_segments (path_bytes ah)"
      "path_bytes ah \<noteq> []" "hd (path_bytes ah) = 0x2f"
  shows "clean_segments (path_bytes ah')" and "path_bytes ah' \<noteq> []" and "hd (path_bytes ah') = 0x2f"
    and "ah_pos ah' = frag_offset (ah_frags ah' ! ah_next_frag ah') + frag_len (ah_frags ah' ! ah_next_frag ah')"
proof -
  note D = ah_okD [OF ok]
  let ?n = "ah_next_frag ah"
  let ?f = "ah_frags ah ! ?n"
  have "clean_segments (path_bytes ah') \<and> path_bytes ah' \<noteq> [] \<and> hd (path_bytes ah') = 0x2f \<and>
    ah_pos ah' = frag_offset (ah_frags ah' ! ah_next_frag ah') + frag_len (ah_frags ah' ! ah_next_frag ah')"
  proof (cases "frag_len ?f > 2")
    case False
    then have "ah' = ah" using run D(2,4) by (simp add: uri_backup_def cur_frag_def access_simps)
    then show ?thesis using s at by simp
  next
    case True
    have "\<exists>k. 0 < k \<and> k < frag_len ?f - 1 \<and>
      backup_loop (frag_len ?f) (ah_data ah) (ah_pos ah - 1) (frag_len ?f - 1)
        = Some (ah_pos ah - 1 - k, frag_len ?f - 1 - k) \<and>
      (frag_len ?f - 1 - k = 1 \<or> ah_data ah ! (ah_pos ah - 1 - k) = 0x2f)"
      by (rule backup_loop_stop) (use True at D(3,5) in auto)
    then obtain k where k: "0 < k" "k < frag_len ?f - 1"
      "backup_loop (frag_len ?f) (ah_data ah) (ah_pos ah - 1) (frag_len ?f - 1)
        = Some (ah_pos ah - 1 - k, frag_len ?f - 1 - k)"
      "frag_len ?f - 1 - k = 1 \<or> ah_data ah ! (ah_pos ah - 1 - k) = 0x2f" by blast
    let ?m = "frag_len ?f - 1 - k"
    have ah': "ah' = ah\<lparr>ah_frags := (ah_frags ah)[?n := ?f\<lparr>frag_len := ?m\<rparr>], ah_pos := ah_pos ah - 1 - k\<rparr>"
      using run True k D(2,4) by (simp add: uri_backup_def cur_frag_def set_cur_len_def access_simps)
    have m: "0 < ?m" "?m < frag_len ?f" using k by auto
    have len: "length (path_bytes ah) = frag_len ?f" using at D(3,5) by (simp add: path_bytes_def Let_def)
    have p: "path_bytes ah' = take ?m (path_bytes ah)"
      using D(2,4) m by (simp add: ah' path_bytes_def Let_def min_def)
    have "path_bytes ah ! ?m = ah_data ah ! (ah_pos ah - 1 - k)"
      using m at k D(3,5) by (simp add: path_bytes_def Let_def)
    then have "clean_segments (take ?m (path_bytes ah))"
      using clean_segments_take [OF s(1), of ?m] m len k(4) by auto
    moreover have "take ?m (path_bytes ah) \<noteq> []" "hd (take ?m (path_bytes ah)) = 0x2f"
      using s m by auto
    moreover have "ah_pos ah' = frag_offset (ah_frags ah' ! ah_next_frag ah')
        + frag_len (ah_frags ah' ! ah_next_frag ah')"
      using D(2,4) at k by (simp add: ah')
    ultimately show ?thesis by (simp add: p)
  qed
  then show "clean_segments (path_bytes ah')" and "path_bytes ah' \<noteq> []" and "hd (path_bytes ah') = 0x2f"
    and "ah_pos ah' = frag_offset (ah_frags ah' ! ah_next_frag ah') + frag_len (ah_frags ah' ! ah_next_frag ah')"
    by blast+
qed


definition uri_ok :: "hdr_wsi \<Rightarrow> bool" where
  "uri_ok w \<longleftrightarrow> val_ok w \<and> parser_state w \<le> WSI_TOKEN_POST_URI \<and> path_ok w"

definition path_byte :: "u8 \<Rightarrow> bool" where
  "path_byte c \<longleftrightarrow> c \<noteq> 0 \<and> c \<noteq> 0x0d \<and> c \<noteq> 0x3f"

lemma path_okD:
  assumes "path_ok w"
  shows "ah_pos (hdr_ah w) = frag_offset (ah_frags (hdr_ah w) ! ah_next_frag (hdr_ah w))
      + frag_len (ah_frags (hdr_ah w) ! ah_next_frag (hdr_ah w))"
    "path_bytes (hdr_ah w) \<noteq> []" "hd (path_bytes (hdr_ah w)) = 0x2f"
    "clean_segments (path_bytes (hdr_ah w))"
    "hdr_ups w = URIPS_IDLE \<Longrightarrow> last (path_bytes (hdr_ah w)) \<noteq> 0x2f"
  using assms by (simp_all add: path_ok_def Let_def)

lemma path_issue:
  assumes ok: "uri_ok w" and run: "issue_char (hdr_ah w) c = Some (ah, 0)" and c: "c \<noteq> 0"
  shows "path_bytes ah = path_bytes (hdr_ah w) @ [c]"
    and "ah_pos ah = frag_offset (ah_frags ah ! ah_next_frag ah) + frag_len (ah_frags ah ! ah_next_frag ah)"
  using path_append [OF _ _ _ run c] ok val_okD [of w] path_okD(1) [of w] by (auto simp: uri_ok_def)

lemma check_eol_issue:
  assumes ok: "val_ok w" and c: "path_byte c" and run: "parse_check_eol w c = Some (w', 0)"
  obtains ah where "issue_char (hdr_ah w) c = Some (ah, 0)" "w' = w\<lparr>hdr_ah := ah\<rparr>"
proof -
  obtain ah r where i: "issue_char (hdr_ah w) c = Some (ah, r)" "r = 0 \<or> r = -1"
    using issue_char_ok [OF val_okD(1,5) [OF ok]] by metis
  with run c val_okD(3) [OF ok] that [of ah] show ?thesis
    by (auto simp: parse_check_eol_def parse_spill_def parse_swallow_def path_byte_def split: if_splits)
qed

lemma path_check_eol:
  assumes ok: "uri_ok w" and c: "path_byte c" and run: "parse_check_eol (w\<lparr>hdr_ups := u\<rparr>) c = Some (w', 0)"
    and dot: "last (path_bytes (hdr_ah w)) = 0x2f \<Longrightarrow> c \<noteq> 0x2e \<and> c \<noteq> 0x2f" and idle: "u = URIPS_IDLE \<Longrightarrow> c \<noteq> 0x2f"
  shows "path_ok w'"
proof -
  have "val_ok (w\<lparr>hdr_ups := u\<rparr>)" using ok by (simp add: uri_ok_def)
  from check_eol_issue [OF this c run] obtain ah where
    i: "issue_char (hdr_ah w) c = Some (ah, 0)" "w' = w\<lparr>hdr_ups := u, hdr_ah := ah\<rparr>" by auto
  have "c \<noteq> 0" using c by (simp add: path_byte_def)
  note app = path_issue [OF ok i(1) this]
  have "path_ok w" using ok by (simp add: uri_ok_def)
  note P = path_okD [OF this]
  from clean_segments_snoc [OF P(4)] dot have "clean_segments (path_bytes (hdr_ah w) @ [c])" by blast
  then show ?thesis using app P(2,3) idle by (simp add: path_ok_def i(2) Let_def)
qed

lemma path_uri_path:
  assumes ok: "uri_ok w" and c: "path_byte c" and run: "parse_uri_path w c = Some (w', 0)"
    and args: "hdr_ups w \<noteq> URIPS_ARGUMENTS"
  shows "path_ok w' \<and> hdr_ups w' \<noteq> URIPS_ARGUMENTS"
proof -
  have val: "val_ok w" and path: "path_ok w" using ok by (simp_all add: uri_ok_def)
  note P = path_okD [OF path] and V = val_okD [OF val]
  have swallow: "parse_swallow v = Some (v, 0)" if "parser_state v = parser_state w" for v
    using that V(3) by (simp add: parse_swallow_def)
  have ups: "hdr_ups v' = u" if "parse_check_eol (v\<lparr>hdr_ups := u\<rparr>) c = Some (v', 0)" "val_ok v" for v v' u
    using that c check_eol_issue [of "v\<lparr>hdr_ups := u\<rparr>" c v'] by fastforce
  show ?thesis
  proof (cases "hdr_ups w")
    case URIPS_IDLE
    then have id: "w\<lparr>hdr_ups := URIPS_IDLE\<rparr> = w" by simp
    let ?u = "if c = 0x2f then URIPS_SEEN_SLASH else URIPS_IDLE"
    have "parse_check_eol (w\<lparr>hdr_ups := ?u\<rparr>) c = Some (w', 0)"
      using run URIPS_IDLE by (cases "c = 0x2f") (simp_all add: parse_uri_path_def id)
    with path_check_eol [OF ok c this] ups [OF this val] P(5) URIPS_IDLE show ?thesis
      by (auto split: if_splits)
  next
    case URIPS_SEEN_SLASH
    show ?thesis
    proof (cases "c = 0x2f \<or> c = 0x2e")
      case True
      with run URIPS_SEEN_SLASH P show ?thesis
        by (auto simp: parse_uri_path_def swallow path_ok_def Let_def path_bytes_def)
    next
      case False
      with run URIPS_SEEN_SLASH have "parse_check_eol (w\<lparr>hdr_ups := URIPS_IDLE\<rparr>) c = Some (w', 0)"
        by (simp add: parse_uri_path_def)
      with path_check_eol [OF ok c this] ups [OF this val] False show ?thesis by auto
    qed
  next
    case URIPS_SEEN_SLASH_DOT
    consider "c = 0x2e" | "c = 0x2f" | "c \<noteq> 0x2e" "c \<noteq> 0x2f" by blast
    then show ?thesis
    proof cases
      case 1
      obtain ah where up: "uri_backup (hdr_ah w) = Some ah" using uri_backup_ok [OF V(1,5)] by blast
      from path_backup [OF V(1,5) P(1) up P(4,2,3)] 1 run URIPS_SEEN_SLASH_DOT up show ?thesis
        by (auto simp: parse_uri_path_def swallow path_ok_def Let_def)
    next
      case 2
      with run URIPS_SEEN_SLASH_DOT P show ?thesis
        by (auto simp: parse_uri_path_def swallow path_ok_def Let_def path_bytes_def)
    next
      case 3
      obtain ah r where dot: "issue_char (hdr_ah w) 0x2e = Some (ah, r)" "r = 0 \<or> r = -1"
        "val_ok (w\<lparr>hdr_ah := ah\<rparr>)" by (rule issue_dot_ok [OF val])
      have fin: "parse_check_eol (w\<lparr>hdr_ah := ah, hdr_ups := URIPS_IDLE\<rparr>) c = Some (w', 0)"
        using run URIPS_SEEN_SLASH_DOT 3 dot(1) by (simp add: parse_uri_path_def)
      have "val_ok (w\<lparr>hdr_ah := ah, hdr_ups := URIPS_IDLE\<rparr>)" using dot(3) by simp
      from check_eol_issue [OF this c fin] obtain ah' where
        i: "issue_char ah c = Some (ah', 0)" "w' = w\<lparr>hdr_ups := URIPS_IDLE, hdr_ah := ah'\<rparr>" by auto
      have r: "r = 0"
      proof (rule ccontr)
        assume "r \<noteq> 0"
        with dot(1,2) have "ah = hdr_ah w" "ah_pos (hdr_ah w) = LWS_MAX_HEADER_LEN"
          by (auto simp: issue_char_def split: if_splits Option.bind_splits)
        with i(1) show False by (simp add: issue_char_def)
      qed
      note p1 = path_issue [OF ok dot(1) [unfolded r], simplified]
      have "c \<noteq> 0" using c by (simp add: path_byte_def)
      note p2 = path_append [OF val_okD(1,5) [OF dot(3), simplified] p1(2) i(1) this]
      have "path_bytes ah' = path_bytes (hdr_ah w) @ [0x2e, c]" using p1(1) p2(1) by simp
      with clean_segments_dot [OF P(4) 3] p2(2) P(2,3) 3 show ?thesis
        by (simp add: path_ok_def i(2) Let_def)
    qed
  next
    case URIPS_SEEN_SLASH_DOT_DOT
    show ?thesis
    proof (cases "c = 0x2f \<or> c = 0x2e")
      case True
      with run URIPS_SEEN_SLASH_DOT_DOT path show ?thesis by (auto simp: parse_uri_path_def swallow)
    next
      case False
      with run URIPS_SEEN_SLASH_DOT_DOT have
        "parse_check_eol (w\<lparr>hdr_ups := URIPS_SEEN_SLASH\<rparr>) c = Some (w', 0)"
        by (auto simp: parse_uri_path_def)
      with path_check_eol [OF ok c this] ups [OF this val] False show ?thesis by auto
    qed
  qed (use args in simp)
qed


text \<open>A request whose path is being read: no empty or dot segment so far, and the arguments not begun.\<close>

definition in_path :: "hdr_wsi \<Rightarrow> bool" where
  "in_path w \<longleftrightarrow> uri_ok w \<and> hdr_ups w \<noteq> URIPS_ARGUMENTS"

lemma in_path_uri_path:
  assumes ok: "in_path w" and c: "path_byte c" and run: "parse_uri_path w c = Some (w', 0)"
  shows "in_path w'"
proof -
  from c have "c \<noteq> 0x0d" "c \<noteq> 0x3f" by (simp_all add: path_byte_def)
  with ok parse_uri_path_val [of w c] run have "val_ok w' \<and> parser_state w' = parser_state w"
    by (auto simp: in_path_def uri_ok_def val_good_def)
  with path_uri_path [OF _ c run] ok show ?thesis by (auto simp: in_path_def uri_ok_def)
qed

lemma in_path_issue:
  assumes ok: "in_path w" and run: "issue_char (hdr_ah w) 0x25 = Some (ah, r)" and r: "r = 0 \<or> r = -1"
  shows "in_path (w\<lparr>hdr_ah := ah, hdr_ues := URIES_IDLE\<rparr>)"
proof -
  have val: "val_ok w" and uri: "uri_ok w" and path: "path_ok w"
    using ok by (simp_all add: in_path_def uri_ok_def)
  obtain ah' r' where i: "issue_char (hdr_ah w) 0x25 = Some (ah', r')" "val_ok (w\<lparr>hdr_ah := ah'\<rparr>)"
    by (rule issue_dot_ok [OF val])
  with run have "val_ok (w\<lparr>hdr_ah := ah\<rparr>)" by simp
  from val_ok_ues_idle [OF this] have v: "val_ok (w\<lparr>hdr_ah := ah, hdr_ues := URIES_IDLE\<rparr>)" by simp
  have "path_ok (w\<lparr>hdr_ah := ah, hdr_ues := URIES_IDLE\<rparr>)"
  proof (cases "r = 0")
    case True
    note app = path_issue [OF uri run [unfolded True], simplified] and P = path_okD [OF path]
    have "clean_segments (path_bytes (hdr_ah w) @ [0x25])" by (rule clean_segments_snoc [OF P(4)]) simp
    then show ?thesis using app P(2,3) by (simp add: path_ok_def Let_def)
  next
    case False
    with run r have "ah = hdr_ah w" by (auto simp: issue_char_def split: if_splits Option.bind_splits)
    then show ?thesis using path by (simp add: path_ok_def)
  qed
  with v ok show ?thesis by (simp add: in_path_def uri_ok_def)
qed

lemma in_path_swallow:
  assumes "in_path w" and "hdr_ah v = hdr_ah w" "parser_state v = parser_state w" "hdr_ups v = hdr_ups w"
    and "val_ok v" and "parse_swallow v = Some (w', 0)"
  shows "in_path w'"
proof -
  have "w' = v" using assms val_okD(3) [of v] by (simp add: parse_swallow_def)
  then show ?thesis using assms by (simp add: in_path_def uri_ok_def path_ok_def)
qed

lemma in_path_esc:
  assumes ok: "in_path w" and c: "path_byte (uri_char w c)"
    and run: "parse_uri_esc (parse_depth 1) w c = Some (w', 0)"
  shows "in_path w'"
proof -
  have val: "val_ok w" and ps: "parser_state w \<le> 1" using ok by (simp_all add: in_path_def uri_ok_def)
  have idle: "in_path (v\<lparr>hdr_ues := URIES_IDLE\<rparr>)" if "in_path v" for v
    using that by (simp add: in_path_def uri_ok_def path_ok_def)
  obtain ah n where pc: "issue_char (hdr_ah w) 0x25 = Some (ah, n)" "n = 0 \<or> n = -1"
    by (rule issue_dot_ok [OF val])
  let ?w = "w\<lparr>hdr_ah := ah, hdr_ues := URIES_IDLE\<rparr>"
  note pw = in_path_issue [OF ok pc]
  show ?thesis
  proof (cases "hdr_ues w")
    case URIES_IDLE
    show ?thesis
    proof (cases "c = 0x25")
      case True
      with run URIES_IDLE have "parse_swallow (w\<lparr>hdr_ues := URIES_SEEN_PERCENT\<rparr>) = Some (w', 0)"
        by (simp add: parse_uri_esc_def)
      moreover have "val_ok (w\<lparr>hdr_ues := URIES_SEEN_PERCENT\<rparr>)"
        using val by (simp add: val_ok_def hdr_ok_def)
      ultimately show ?thesis using in_path_swallow [OF ok, of "w\<lparr>hdr_ues := URIES_SEEN_PERCENT\<rparr>"] by simp
    next
      case False
      with run c in_path_uri_path [OF ok, of c w'] URIES_IDLE show ?thesis
        by (simp add: parse_uri_esc_def uri_char_def)
    qed
  next
    case URIES_SEEN_PERCENT
    show ?thesis
    proof (cases "char_to_hex c < 0")
      case True
      with run URIES_SEEN_PERCENT pc have "parse_uri_path ?w c = Some (w', 0)"
        by (auto simp: parse_uri_esc_def split: if_splits)
      with in_path_uri_path [OF pw _ this] c URIES_SEEN_PERCENT show ?thesis by (simp add: uri_char_def)
    next
      case False
      with run URIES_SEEN_PERCENT have
        "parse_swallow (w\<lparr>esc_stash := c, hdr_ues := URIES_SEEN_PERCENT_H1\<rparr>) = Some (w', 0)"
        by (simp add: parse_uri_esc_def)
      with in_path_swallow [OF ok _ _ _ val_ok_stash [OF val] this] False show ?thesis by simp
    qed
  next
    case H1: URIES_SEEN_PERCENT_H1
    show ?thesis
    proof (cases "char_to_hex c < 0")
      case False
      then have "parse_uri_path (w\<lparr>hdr_ues := URIES_IDLE\<rparr>) (uri_char w c) = Some (w', 0)"
        using run H1 ps by (simp add: parse_uri_esc_def uri_char_def)
      from in_path_uri_path [OF idle [OF ok] c this] show ?thesis .
    next
      case True
      note hex = val_okD(6) [OF val H1]
      have valw: "val_ok ?w" using pw by (simp add: in_path_def uri_ok_def)
      have "parse_depth (Suc 0) ?w (esc_stash w) = parse_uri_path ?w (esc_stash w)"
        by (rule parse_depth_hex [OF valw hex]) (use ps in simp_all)
      then have "do { (w1, r) \<leftarrow> parse_uri_path ?w (esc_stash w);
          if r < 0 then Some (w1, -1) else parse_uri_path w1 c } = Some (w', 0)"
        using run H1 True pc(1) by (simp add: parse_uri_esc_def)
      moreover from parse_uri_path_val [OF valw char_to_hex_plain(1,2) [OF hex]]
      obtain w1 r where w1: "parse_uri_path ?w (esc_stash w) = Some (w1, r)" "r = 0 \<or> r = -1"
        by (auto simp: val_good_def)
      ultimately have r: "r = 0" and fin: "parse_uri_path w1 c = Some (w', 0)" by auto
      have "path_byte (esc_stash w)"
        using hex char_to_hex_plain [OF hex] by (auto simp: path_byte_def char_to_hex_def)
      from in_path_uri_path [OF pw this w1(1) [unfolded r]] have "in_path w1" .
      from in_path_uri_path [OF this _ fin] c True show ?thesis by (simp add: uri_char_def)
    qed
  qed
qed

lemma in_path_step:
  assumes ok: "in_path w" and c: "c \<noteq> 0x20" "path_byte (uri_char w c)"
    and run: "libwebsocket_parse w c = Some (w', 0)"
  shows "in_path w'"
proof -
  have "val_ok w" "parser_state w \<le> 1" using ok by (simp_all add: in_path_def uri_ok_def)
  then have "parse_uri_esc (parse_depth 1) w c = Some (w', 0)"
    using run c(1) unfolding libwebsocket_parse_eq parse_value_def
    by (auto simp: Let_def le_Suc_eq split: Option.bind_splits if_splits)
  from in_path_esc [OF ok c(2) this] show ?thesis .
qed

text \<open>The bytes of a path as the parser meets them: neither they nor what an escape decodes to
  ends the path.\<close>

fun path_input :: "hdr_wsi \<Rightarrow> bytes \<Rightarrow> bool" where
  "path_input w [] \<longleftrightarrow> True"
| "path_input w (c # cs) \<longleftrightarrow> c \<noteq> 0x20 \<and> path_byte (uri_char w c) \<and>
     (case libwebsocket_parse w c of Some (w', r) \<Rightarrow> r = 0 \<and> path_input w' cs | None \<Rightarrow> False)"

lemma in_path_run:
  "in_path w \<Longrightarrow> path_input w cs \<Longrightarrow>
   \<exists>w'. parse_bytes w cs = Some (w', 0) \<and> in_path w'"
proof (induction cs arbitrary: w)
  case (Cons c cs)
  then obtain w' where "libwebsocket_parse w c = Some (w', 0)" "path_input w' cs"
    by (auto split: option.splits)
  with Cons in_path_step [of w c w'] show ?case by auto
qed simp


lemma get_slash:
  assumes "length (ah_frags m) = HDR_FRAGS" and "length (ah_data m) = LWS_MAX_HEADER_LEN"
  obtains w where "parse_bytes (hdr_start m) (str ''GET /'') = Some (w, 0)" "in_path w"
proof -
  note ok = hdr_start_ok [OF assms]
  let ?ah = "lws_allocate_header_table m"
  have "lex_run 0 (str ''GET '') = Some 0"
    unfolding lex_run_words by (simp add: str_def tolower_def minilex_set_def)
  then have "\<exists>q. parse_bytes (hdr_start m) (str ''GET '') = do {
      (w', r) \<leftarrow> start_fragment ((hdr_start m)\<lparr>lextable_pos := q, parser_state := unat (0::u8)\<rparr>);
      if r < 0 then Some (w', r) else Some (w', 0) }"
    by (intro parse_name_run [OF ok])
       (simp_all add: hdr_start_def lws_allocate_header_table_def)
  then obtain q where q: "parse_bytes (hdr_start m) (str ''GET '') = do {
      (w', r) \<leftarrow> start_fragment ((hdr_start m)\<lparr>lextable_pos := q, parser_state := 0\<rparr>);
      if r < 0 then Some (w', r) else Some (w', 0) }" by auto
  define ah1 where "ah1 = ?ah\<lparr>ah_next_frag := 1, ah_frag_index := (replicate WSI_TOKEN_COUNT 0)[0 := 1],
    ah_frags := (ah_frags m)[1 := \<lparr>frag_offset = 0, frag_len = 0, frag_next = 0\<rparr>]\<rparr>"
  let ?w1 = "(hdr_start m)\<lparr>lextable_pos := q, parser_state := 0, hdr_ah := ah1\<rparr>"
  have p1: "parse_bytes (hdr_start m) (str ''GET '') = Some (?w1, 0)"
    unfolding q using assms
    by (simp add: start_fragment_def Let_def open_frag_def set_frag_index_def access_simps
        hdr_start_def lws_allocate_header_table_def ah1_def)
  have f: "length (ah_frags ah1) = HDR_FRAGS" "length (ah_data ah1) = LWS_MAX_HEADER_LEN"
    "length (ah_frag_index ah1) = WSI_TOKEN_COUNT" "ah_frag_index ah1 ! 0 = 1" "ah_next_frag ah1 = 1"
    "ah_pos ah1 = 0" "ah_frags ah1 ! 1 = \<lparr>frag_offset = 0, frag_len = 0, frag_next = 0\<rparr>"
    using assms by (simp_all add: ah1_def lws_allocate_header_table_def)
  have a: "issue_char ah1 0x2f = Some (append_value ah1 [0x2f], 0)"
    by (rule issue_char_append) (simp_all add: f)
  let ?w = "?w1\<lparr>hdr_ups := URIPS_SEEN_SLASH, hdr_ah := append_value ah1 [0x2f]\<rparr>"
  have p2: "parse_bytes ?w1 [0x2f] = Some (?w, 0)"
    using f a by (simp add: libwebsocket_parse_eq parse_value_def access_simps parse_uri_esc_def
        hdr_start_def parse_uri_path_def parse_check_eol_def parse_spill_def parse_swallow_def)
  have "str ''GET /'' = str ''GET '' @ [0x2f]" by (simp add: str_def)
  then have run: "parse_bytes (hdr_start m) (str ''GET /'') = Some (?w, 0)"
    using parse_bytes_append [OF p1, of "[0x2f]"] p2 by simp
  have "hdr_good (parse_bytes (hdr_start m) (str ''GET /''))"
    by (rule parse_bytes_ok [OF ok]) (simp_all add: hdr_start_def str_def)
  then have "hdr_ok ?w" using run by (simp add: hdr_good_def)
  moreover have "path_bytes (append_value ah1 [0x2f]) = [0x2f]"
    using f by (simp add: path_bytes_def append_value_def Let_def)
  ultimately have "in_path ?w" using f
    by (simp add: in_path_def uri_ok_def val_ok_def path_ok_def clean_segments_def append_value_def Let_def)
  with run that show ?thesis by blast
qed

text \<open>C10: Request paths are normalised safely: after \<open>GET /\<close>, whatever bytes follow (percent
  escapes included, as long as neither a byte nor what an escape decodes to ends the path: a space, a question mark, a
  carriage return, a zero), the path stored for the request starts with a slash and has no empty, \<open>.\<close> or \<open>..\<close> segment.\<close>

theorem uri_path_no_dot_segments:
  assumes "length (ah_frags m) = HDR_FRAGS" and "length (ah_data m) = LWS_MAX_HEADER_LEN"
    and "parse_bytes (hdr_start m) (str ''GET /'') = Some (w, 0)" and "path_input w u"
  shows "\<exists>w'. parse_bytes (hdr_start m) (str ''GET /'' @ u) = Some (w', 0) \<and>
    path_bytes (hdr_ah w') \<noteq> [] \<and> hd (path_bytes (hdr_ah w')) = 0x2f \<and>
    clean_segments (path_bytes (hdr_ah w'))"
proof -
  obtain v where v: "parse_bytes (hdr_start m) (str ''GET /'') = Some (v, 0)" "in_path v"
    by (rule get_slash [OF assms(1,2)])
  with assms(3) have "in_path w" by simp
  from in_path_run [OF this assms(4)] obtain w' where "parse_bytes w u = Some (w', 0)" "in_path w'" by blast
  then show ?thesis using parse_bytes_append [OF assms(3), of u]
    by (auto simp: in_path_def uri_ok_def dest: path_okD)
qed

definition start_path :: hdr_wsi where
  "start_path = (case parse_bytes (hdr_start blank_store) (str ''GET /'') of
     Some (w, _) \<Rightarrow> w | None \<Rightarrow> hdr_start blank_store)"

theorem uri_path_no_dot_segments_witness:
  "\<exists>w'. parse_bytes (hdr_start blank_store) (str ''GET /'' @ str ''a//%2e%2e/%2fb'') = Some (w', 0) \<and>
    clean_segments (path_bytes (hdr_ah w'))"
proof -
  have l: "length (ah_frags blank_store) = HDR_FRAGS" "length (ah_data blank_store) = LWS_MAX_HEADER_LEN"
    by (simp_all add: blank_store_def)
  have "parse_bytes (hdr_start blank_store) (str ''GET /'') = Some (start_path, 0)"
    by (rule get_slash [OF l]) (simp add: start_path_def)
  moreover have "path_input start_path (str ''a//%2e%2e/%2fb'')" by code_simp
  ultimately show ?thesis using uri_path_no_dot_segments [OF l] by blast
qed

section \<open>Quirks\<close>

definition stored_uri :: "bytes \<Rightarrow> bytes option" where
  "stored_uri u = do {
     (w, r) \<leftarrow> parse_bytes (hdr_start blank_store) (str ''GET '' @ u @ [0x20]);
     cstr (ah_data (hdr_ah w)) }"

text \<open>Backing up over a directory also removes the slash before it, which the next state takes to be
  there: the name that follows is glued to the parent. A path without a leading slash is not
  normalised at all.\<close>

lemma uri_dot_dot_glues: "stored_uri (str ''/a/b/../c'') = Some (str ''/ac'')"
  by code_simp

lemma uri_no_slash_kept: "stored_uri (str ''../cc'') = Some (str ''../cc'')"
  by code_simp

lemma question_mark_step:
  assumes "hdr_ok w" and "WSI_TOKEN_POST_URI < parser_state w" and "parser_state w \<le> WSI_TOKEN_HTTP_REFERER"
  shows "libwebsocket_parse w 0x3f = start_uri_args w"
    and "ah_next_frag (hdr_ah w) = HDR_FRAGS - 1 \<or> ah_pos (hdr_ah w) = LWS_MAX_HEADER_LEN \<Longrightarrow>
      start_uri_args w = None"
    and "ah_next_frag (hdr_ah w) < HDR_FRAGS - 1 \<Longrightarrow> ah_pos (hdr_ah w) < LWS_MAX_HEADER_LEN \<Longrightarrow>
      \<exists>w'. start_uri_args w = Some (w', 0) \<and> hdr_ok w' \<and> parser_state w' = parser_state w \<and>
        ah_next_frag (hdr_ah w') = ah_next_frag (hdr_ah w) + 1"
proof -
  have val: "val_ok w" using assms by (simp add: val_ok_def)
  note D = val_okD [OF val] and D1 = ah_okD [OF val_okD(1) [OF val]]
  have "ah_frag_index (hdr_ah w) ! parser_state w \<le> ah_next_frag (hdr_ah w)"
    by (rule D1(6)) (use D(2) in simp)
  then show "libwebsocket_parse w 0x3f = start_uri_args w"
    using assms(2,3) D(3) D1(1,2,4)
    by (simp add: libwebsocket_parse_eq parse_value_def parse_check_eol_def access_simps Let_def)
  show "start_uri_args w = None"
    if "ah_next_frag (hdr_ah w) = HDR_FRAGS - 1 \<or> ah_pos (hdr_ah w) = LWS_MAX_HEADER_LEN"
    using that D1(2,3) by (auto simp: start_uri_args_def put_data_def open_frag_def aset_def)
  assume room: "ah_next_frag (hdr_ah w) < HDR_FRAGS - 1" "ah_pos (hdr_ah w) < LWS_MAX_HEADER_LEN"
  have good: "hdr_good (start_uri_args w)" by (rule start_uri_args_ok [OF val room])
  have "\<exists>w'. start_uri_args w = Some (w', 0) \<and> parser_state w' = parser_state w \<and>
      ah_next_frag (hdr_ah w') = ah_next_frag (hdr_ah w) + 1"
    using room D1(1-3) D(3) by (simp add: start_uri_args_def put_data_def open_frag_def
      set_frag_index_def access_simps parse_swallow_def)
  with good show "\<exists>w'. start_uri_args w = Some (w', 0) \<and> hdr_ok w' \<and> parser_state w' = parser_state w \<and>
        ah_next_frag (hdr_ah w') = ah_next_frag (hdr_ah w) + 1" by (auto simp: hdr_good_def)
qed

text \<open>C40: The question mark is not bounded: in the value of any header other than the request line,
  a run of question marks long enough to use up the 76 fragment slots writes outside the header
  store. A request of about eighty bytes is enough.\<close>

theorem question_marks_overflow:
  assumes "hdr_ok w" and "WSI_TOKEN_POST_URI < parser_state w" and "parser_state w \<le> WSI_TOKEN_HTTP_REFERER"
    and "HDR_FRAGS \<le> ah_next_frag (hdr_ah w) + n"
  shows "parse_bytes w (replicate n 0x3f) = None"
  using assms
proof (induction n arbitrary: w)
  case 0
  then have "ah_next_frag (hdr_ah w) < HDR_FRAGS" by (auto simp: hdr_ok_def dest: ah_okD)
  with 0 show ?case by simp
next
  case (Suc n)
  note S = question_mark_step [OF Suc.prems(1-3)]
  have le: "ah_next_frag (hdr_ah w) \<le> HDR_FRAGS - 1" "ah_pos (hdr_ah w) \<le> LWS_MAX_HEADER_LEN"
    using Suc.prems(1) ah_okD(4,5) [of "hdr_ah w"] by (auto simp: hdr_ok_def)
  show ?case
  proof (cases "ah_next_frag (hdr_ah w) = HDR_FRAGS - 1 \<or> ah_pos (hdr_ah w) = LWS_MAX_HEADER_LEN")
    case True
    then show ?thesis using S(1,2) by simp
  next
    case False
    with le S(3) obtain w' where w': "start_uri_args w = Some (w', 0)" "hdr_ok w'"
      "parser_state w' = parser_state w" "ah_next_frag (hdr_ah w') = ah_next_frag (hdr_ah w) + 1"
      by (metis le_neq_implies_less)
    then have "parse_bytes w' (replicate n 0x3f) = None" using Suc.prems by (intro Suc.IH) auto
    then show ?thesis using S(1) w'(1) by simp
  qed
qed

definition host_value :: hdr_wsi where
  "host_value = (case parse_bytes (hdr_start blank_store) (str ''Host: '') of
     Some (w, _) \<Rightarrow> w | None \<Rightarrow> hdr_start blank_store)"

theorem question_marks_overflow_witness:
  "parse_bytes host_value (replicate 75 0x3f) = None \<and> parser_state host_value = WSI_TOKEN_HOST"
proof -
  have "hdr_good (parse_bytes (hdr_start blank_store) (str ''Host: ''))"
    by (rule parse_bytes_ok [OF blank_store_start]) (simp_all add: hdr_start_def str_def)
  moreover have "map_option snd (parse_bytes (hdr_start blank_store) (str ''Host: '')) = Some 0"
    by code_simp
  ultimately have "hdr_ok host_value" by (auto simp: hdr_good_def host_value_def)
  moreover have "parser_state host_value = WSI_TOKEN_HOST \<and> ah_next_frag (hdr_ah host_value) = 1"
    by code_simp
  ultimately show ?thesis using question_marks_overflow [of host_value 75] by simp
qed

end
