(* ===== verification/Ws_Conn.thy ===== *)
theory Ws_Conn
  imports Prelude
begin

text \<open>
  The connection of \<open>lib/private-libwebsockets.h\<close>: the enumerations, \<open>struct libwebsocket\<close> with the
  websocket member of its union, and the environment a connection talks to. The socket, the random
  device and \<open>poll\<close> answer from scripts kept in the state; user callbacks and extension callbacks,
  which are not the library's code, are functions of the configuration. The socket's output is
  collected in \<open>ws_wire\<close>, the payload handed to the user in \<open>ws_delivered\<close>.
\<close>

section \<open>Enumerations and constants\<close>

datatype lws_connection_states =
  WSI_STATE_HTTP | WSI_STATE_HTTP_ISSUING_FILE | WSI_STATE_HTTP_HEADERS | WSI_STATE_HTTP_BODY
| WSI_STATE_DEAD_SOCKET | WSI_STATE_ESTABLISHED | WSI_STATE_CLIENT_UNCONNECTED
| WSI_STATE_RETURNED_CLOSE_ALREADY | WSI_STATE_AWAITING_CLOSE_ACK

datatype lws_rx_parse_state =
  LWS_RXPS_NEW
| LWS_RXPS_04_MASK_NONCE_1 | LWS_RXPS_04_MASK_NONCE_2 | LWS_RXPS_04_MASK_NONCE_3
| LWS_RXPS_04_FRAME_HDR_1 | LWS_RXPS_04_FRAME_HDR_LEN
| LWS_RXPS_04_FRAME_HDR_LEN16_2 | LWS_RXPS_04_FRAME_HDR_LEN16_1
| LWS_RXPS_04_FRAME_HDR_LEN64_8 | LWS_RXPS_04_FRAME_HDR_LEN64_7 | LWS_RXPS_04_FRAME_HDR_LEN64_6
| LWS_RXPS_04_FRAME_HDR_LEN64_5 | LWS_RXPS_04_FRAME_HDR_LEN64_4 | LWS_RXPS_04_FRAME_HDR_LEN64_3
| LWS_RXPS_04_FRAME_HDR_LEN64_2 | LWS_RXPS_04_FRAME_HDR_LEN64_1
| LWS_RXPS_07_COLLECT_FRAME_KEY_1 | LWS_RXPS_07_COLLECT_FRAME_KEY_2
| LWS_RXPS_07_COLLECT_FRAME_KEY_3 | LWS_RXPS_07_COLLECT_FRAME_KEY_4
| LWS_RXPS_PAYLOAD_UNTIL_LENGTH_EXHAUSTED

datatype connection_mode =
  LWS_CONNMODE_HTTP_SERVING | LWS_CONNMODE_HTTP_SERVING_ACCEPTED | LWS_CONNMODE_PRE_WS_SERVING_ACCEPT
| LWS_CONNMODE_WS_SERVING | LWS_CONNMODE_WS_CLIENT | LWS_CONNMODE_SSL_ACK_PENDING
| LWS_CONNMODE_WS_CLIENT_WAITING_CONNECT | LWS_CONNMODE_WS_CLIENT_WAITING_PROXY_REPLY
| LWS_CONNMODE_WS_CLIENT_ISSUE_HANDSHAKE | LWS_CONNMODE_WS_CLIENT_WAITING_SSL
| LWS_CONNMODE_WS_CLIENT_WAITING_SERVER_REPLY | LWS_CONNMODE_WS_CLIENT_WAITING_EXTENSION_CONNECT
| LWS_CONNMODE_WS_CLIENT_PENDING_CANDIDATE_CHILD | LWS_CONNMODE_SERVER_LISTENER

datatype cb_reason =
  LWS_CALLBACK_RECEIVE | LWS_CALLBACK_CLIENT_RECEIVE | LWS_CALLBACK_CLIENT_RECEIVE_PONG
| LWS_CALLBACK_CLIENT_WRITEABLE | LWS_CALLBACK_SERVER_WRITEABLE | LWS_CALLBACK_HTTP_FILE_COMPLETION
| LWS_CALLBACK_HTTP_WRITEABLE

datatype ext_reason =
  LWS_EXT_CALLBACK_PACKET_TX_PRESEND | LWS_EXT_CALLBACK_PACKET_TX_DO_SEND
| LWS_EXT_CALLBACK_EXTENDED_PAYLOAD_RX | LWS_EXT_CALLBACK_REQUEST_ON_WRITEABLE
| LWS_EXT_CALLBACK_IS_WRITEABLE | LWS_EXT_CALLBACK_PAYLOAD_TX | LWS_EXT_CALLBACK_PAYLOAD_RX

abbreviation (input) "LWS_WS_OPCODE_07__CONTINUATION \<equiv> (0::u8)"
abbreviation (input) "LWS_WS_OPCODE_07__TEXT_FRAME \<equiv> (1::u8)"
abbreviation (input) "LWS_WS_OPCODE_07__BINARY_FRAME \<equiv> (2::u8)"
abbreviation (input) "LWS_WS_OPCODE_07__CLOSE \<equiv> (8::u8)"
abbreviation (input) "LWS_WS_OPCODE_07__PING \<equiv> (9::u8)"
abbreviation (input) "LWS_WS_OPCODE_07__PONG \<equiv> (10::u8)"

abbreviation (input) "LWS_WRITE_TEXT \<equiv> (0::u8)"
abbreviation (input) "LWS_WRITE_BINARY \<equiv> (1::u8)"
abbreviation (input) "LWS_WRITE_CONTINUATION \<equiv> (2::u8)"
abbreviation (input) "LWS_WRITE_HTTP \<equiv> (3::u8)"
abbreviation (input) "LWS_WRITE_CLOSE \<equiv> (4::u8)"
abbreviation (input) "LWS_WRITE_PING \<equiv> (5::u8)"
abbreviation (input) "LWS_WRITE_PONG \<equiv> (6::u8)"
abbreviation (input) "LWS_WRITE_NO_FIN \<equiv> (0x40::u8)"

abbreviation (input) "LWS_SEND_BUFFER_PRE_PADDING \<equiv> (18::nat)"
abbreviation (input) "LWS_SEND_BUFFER_POST_PADDING \<equiv> (4::nat)"
abbreviation (input) "LWS_MAX_SOCKET_IO_BUF \<equiv> (4096::nat)"

section \<open>The connection\<close>

text \<open>What one \<open>send\<close> on the socket answers.\<close>

datatype send_result = Send_accepts nat | Send_again | Send_error

text \<open>
  \<open>struct lws_tokens\<close>: a pointer into an array and a length. \<open>tok_own\<close> tells that the pointer is
  into a buffer of an extension's own, not the buffer the caller passed.
\<close>

record tokens =
  tok_mem :: bytes
  tok_off :: nat
  tok_len :: nat
  tok_own :: bool

definition tok_bytes :: "tokens \<Rightarrow> bytes" where
  "tok_bytes t = take (tok_len t) (drop (tok_off t) (tok_mem t))"

record 'x wsi =
  ws_mode :: connection_mode
  ws_state :: lws_connection_states
  ws_rev :: u8
  ws_rx_state :: lws_rx_parse_state
  ws_rx_buf :: bytes
  ws_rx_head :: nat
  ws_nonce :: bytes
  ws_mask_index :: u8
  ws_packet_length :: u64
  ws_opcode :: u8
  ws_final :: bool
  ws_rsv :: u8
  ws_binary :: bool
  ws_zero_nonce :: bool
  ws_close_reason :: u16
  ws_masked :: bool
  ws_inside_frame :: bool
  ws_clean_buffer :: bool
  ws_rxflow_buffer :: "bytes option"
  ws_rxflow_pos :: nat
  ws_rxflow_allow :: bool
  ws_rxflow_pending :: bool
  ws_trunc :: "bytes option"
  ws_trunc_off :: nat
  ws_trunc_len :: nat
  ws_ext_pending :: bool
  ws_pollin :: bool
  ws_pollout :: bool
  ws_ext_user :: 'x
  ws_sends :: "send_result list"
  ws_polls :: "bool list"
  ws_randoms :: "bytes list"
  ws_mallocs :: "bool list"
  ws_wire :: bytes
  ws_delivered :: "(cb_reason \<times> bytes) list"

type_synonym 'x lws_extension = "'x \<Rightarrow> ext_reason \<Rightarrow> tokens \<Rightarrow> int \<times> tokens \<times> 'x"
type_synonym 'x user_callback = "'x wsi \<Rightarrow> cb_reason \<Rightarrow> bytes \<Rightarrow> int \<times> 'x wsi"

text \<open>The protocol's settings, the active extensions in order, and the user's callback.\<close>

record 'x lws_cfg =
  cfg_rx_buffer_size :: nat
  cfg_no_buffer_all_partial_tx :: bool
  cfg_exts :: "'x lws_extension list"
  cfg_callback :: "'x user_callback option"

text \<open>Values of the sub-calls: \<open>None\<close> is an access outside an array, an \<open>assert\<close> that fails, or
  a loop that does not end.\<close>

type_synonym 'x ws_result = "('x wsi \<times> int) option"

section \<open>The extensions' callbacks\<close>

text \<open>Every active extension is shown the tokens; a negative answer stops the walk.\<close>

fun exts_show :: "'x lws_extension list \<Rightarrow> ext_reason \<Rightarrow> 'x \<Rightarrow> tokens \<Rightarrow> bool
    \<Rightarrow> tokens \<times> 'x \<times> bool \<times> bool" where
  "exts_show [] r x t spill = (t, x, spill, False)"
| "exts_show (e # es) r x t spill =
     (case e x r t of (m, t', x') \<Rightarrow>
        if m < 0 then (t', x', spill, True) else exts_show es r x' t' (spill \<or> m \<noteq> 0))"

text \<open>A walk in which any answer but zero counts, and none stops it.\<close>

fun exts_any :: "'x lws_extension list \<Rightarrow> ext_reason \<Rightarrow> 'x \<Rightarrow> tokens \<Rightarrow> bool \<Rightarrow> tokens \<times> 'x \<times> bool" where
  "exts_any [] r x t h = (t, x, h)"
| "exts_any (e # es) r x t h =
     (case e x r t of (m, t', x') \<Rightarrow> exts_any es r x' t' (h \<or> m \<noteq> 0))"

text \<open>The walk of \<open>PACKET_TX_DO_SEND\<close>: the first answer but zero wins.\<close>

fun exts_send :: "'x lws_extension list \<Rightarrow> 'x \<Rightarrow> tokens \<Rightarrow> int \<times> tokens \<times> 'x" where
  "exts_send [] x t = (0, t, x)"
| "exts_send (e # es) x t =
     (case e x LWS_EXT_CALLBACK_PACKET_TX_DO_SEND t of (m, t', x') \<Rightarrow>
        if m \<noteq> 0 then (m, t', x') else exts_send es x' t')"

text \<open>The largest answer, for \<open>IS_WRITEABLE\<close>.\<close>

fun exts_max :: "'x lws_extension list \<Rightarrow> ext_reason \<Rightarrow> 'x \<Rightarrow> tokens \<Rightarrow> int \<Rightarrow> int \<times> 'x" where
  "exts_max [] r x t h = (h, x)"
| "exts_max (e # es) r x t h =
     (case e x r t of (m, _, x') \<Rightarrow> exts_max es r x' t (if m > h then m else h))"

definition no_tokens :: tokens where
  "no_tokens = \<lparr>tok_mem = [], tok_off = 0, tok_len = 0, tok_own = True\<rparr>"

section \<open>Poll events and the environment\<close>

text \<open>\<open>libwebsocket_callback_on_writable\<close> of a connection in the poll table.\<close>

definition callback_on_writable :: "'x lws_cfg \<Rightarrow> 'x wsi \<Rightarrow> 'x wsi" where
  "callback_on_writable cfg w =
     (case exts_any (cfg_exts cfg) LWS_EXT_CALLBACK_REQUEST_ON_WRITEABLE (ws_ext_user w) no_tokens False of
        (_, x, handled) \<Rightarrow>
          if handled then w\<lparr>ws_ext_user := x\<rparr> else w\<lparr>ws_ext_user := x, ws_pollout := True\<rparr>)"

text \<open>\<open>lws_send_pipe_choked\<close>: a pending truncated send counts as choked; otherwise \<open>poll\<close> answers,
  from a script whose end means choked.\<close>

definition lws_send_pipe_choked :: "'x wsi \<Rightarrow> bool \<times> 'x wsi" where
  "lws_send_pipe_choked w =
     (if ws_trunc w \<noteq> None then (True, w)
      else case ws_polls w of
        [] \<Rightarrow> (True, w)
      | b # bs \<Rightarrow> (\<not> b, w\<lparr>ws_polls := bs\<rparr>))"

text \<open>\<open>malloc\<close> and the random device; both scripts mean success when they are used up, the random
  device then giving zeros.\<close>

definition env_malloc :: "'x wsi \<Rightarrow> bool \<times> 'x wsi" where
  "env_malloc w = (case ws_mallocs w of [] \<Rightarrow> (True, w) | b # bs \<Rightarrow> (b, w\<lparr>ws_mallocs := bs\<rparr>))"

definition libwebsockets_get_random :: "'x wsi \<Rightarrow> nat \<Rightarrow> bytes \<times> 'x wsi" where
  "libwebsockets_get_random w n =
     (case ws_randoms w of
        [] \<Rightarrow> (replicate n 0, w)
      | r # rs \<Rightarrow> (take n r, w\<lparr>ws_randoms := rs\<rparr>))"

text \<open>\<open>send\<close> on the socket: what it accepts goes on the wire.\<close>

definition env_send :: "'x wsi \<Rightarrow> bytes \<Rightarrow> send_result \<times> 'x wsi" where
  "env_send w d =
     (case ws_sends w of
        [] \<Rightarrow> (Send_again, w)
      | Send_accepts k # rs \<Rightarrow>
          (let n = min k (length d) in
             (Send_accepts n, w\<lparr>ws_sends := rs, ws_wire := ws_wire w @ take n d\<rparr>))
      | r # rs \<Rightarrow> (r, w\<lparr>ws_sends := rs\<rparr>))"

section \<open>Receive flow control\<close>

definition libwebsocket_rx_flow_control :: "'x wsi \<Rightarrow> bool \<Rightarrow> 'x wsi" where
  "libwebsocket_rx_flow_control w enable =
     (if enable = ws_rxflow_allow w then w
      else w\<lparr>ws_rxflow_pending := True, ws_rxflow_allow := enable\<rparr>)"

definition rx_flow_control_apply :: "'x lws_cfg \<Rightarrow> 'x wsi \<Rightarrow> int \<times> 'x wsi" where
  "rx_flow_control_apply cfg w =
     (if \<not> ws_rxflow_pending w then (0, w)
      else if ws_rxflow_buffer w \<noteq> None then (0, callback_on_writable cfg w)
      else (1, w\<lparr>ws_rxflow_pending := False, ws_pollin := ws_rxflow_allow w\<rparr>))"

text \<open>\<open>user_callback_handle_rxflow\<close>; the payload is logged as delivered.\<close>

definition user_callback_handle_rxflow ::
    "'x lws_cfg \<Rightarrow> 'x user_callback \<Rightarrow> 'x wsi \<Rightarrow> cb_reason \<Rightarrow> bytes \<Rightarrow> int \<times> 'x wsi" where
  "user_callback_handle_rxflow cfg cb w reason d =
     (case cb (w\<lparr>ws_delivered := ws_delivered w @ [(reason, d)]\<rparr>) reason d of
        (n, w) \<Rightarrow> if n = 0 then rx_flow_control_apply cfg w else (n, w))"

section \<open>Union transition and the receive buffer\<close>

text \<open>Becoming a websocket connection: the union is zeroed, receiving is allowed, and the receive
  buffer is allocated for the protocol's frame size with its paddings. \<open>None\<close> inside is the
  allocation that fails.\<close>

definition rx_size :: "'x lws_cfg \<Rightarrow> nat" where
  "rx_size cfg = (if cfg_rx_buffer_size cfg = 0 then LWS_MAX_SOCKET_IO_BUF else cfg_rx_buffer_size cfg)"

definition ws_transition :: "'x lws_cfg \<Rightarrow> connection_mode \<Rightarrow> bytes \<Rightarrow> 'x wsi \<Rightarrow> bool \<times> 'x wsi" where
  "ws_transition cfg mode junk w =
     (let w = w\<lparr>ws_mode := mode, ws_rx_buf := [], ws_rx_head := 0, ws_nonce := [0, 0, 0, 0],
                ws_mask_index := 0, ws_packet_length := 0, ws_opcode := 0, ws_final := False,
                ws_rsv := 0, ws_binary := False, ws_zero_nonce := False, ws_close_reason := 0,
                ws_masked := False, ws_inside_frame := False, ws_clean_buffer := False,
                ws_rxflow_buffer := None, ws_rxflow_pos := 0, ws_rxflow_pending := False,
                ws_rxflow_allow := True\<rparr>;
          n = rx_size cfg + LWS_SEND_BUFFER_PRE_PADDING + LWS_SEND_BUFFER_POST_PADDING;
          (ok, w) = env_malloc w in
      if ok then (True, w\<lparr>ws_rx_buf := take n (junk @ replicate n 0)\<rparr>) else (False, w))"

end
