(* ===== verification/Output.thy ===== *)
theory Output
  imports Ws_Conn
begin

text \<open>
  The transmit path, \<open>lib/output.c\<close>: framing and masking in the caller's buffer
  (\<open>libwebsocket_write\<close>), the extension loop, the raw send with its buffering of what the socket
  did not take, and the \<open>POLLOUT\<close> service of \<open>lib/libwebsockets.c\<close> that sends it later.
\<close>

section \<open>Sending bytes\<close>

text \<open>Where the bytes of a raw send are: in the pending truncated send, or in another buffer.\<close>

datatype raw_source = Pending | Buffer tokens

text \<open>The bookkeeping after a send of \<open>n\<close> bytes out of \<open>d\<close> (label \<open>handle_truncated_send\<close>).\<close>

definition handle_truncated_send :: "'x lws_cfg \<Rightarrow> 'x wsi \<Rightarrow> bytes \<Rightarrow> nat \<Rightarrow> 'x ws_result" where
  "handle_truncated_send cfg w d n =
     (if ws_trunc w \<noteq> None then
        (if ws_trunc_len w < n then None
         else let w = w\<lparr>ws_trunc_off := ws_trunc_off w + n, ws_trunc_len := ws_trunc_len w - n\<rparr> in
           if ws_trunc_len w = 0 then Some (w\<lparr>ws_trunc := None\<rparr>, int (length d))
           else Some (callback_on_writable cfg w, int n))
      else if n < length d then
        (if ws_clean_buffer w then Some (w, int n)
         else case env_malloc w of (ok, w) \<Rightarrow>
           if ok then
             Some (callback_on_writable cfg
                     (w\<lparr>ws_trunc := Some (drop n d), ws_trunc_off := 0, ws_trunc_len := length d - n\<rparr>),
                   int (length d))
           else Some (w, -1))
      else Some (w, int n))"

text \<open>The bytes \<open>truncated_send_malloc + truncated_send_offset\<close>, \<open>truncated_send_len\<close> of them.\<close>

definition trunc_bytes :: "'x wsi \<Rightarrow> bytes" where
  "trunc_bytes w = (case ws_trunc w of None \<Rightarrow> []
     | Some m \<Rightarrow> take (ws_trunc_len w) (drop (ws_trunc_off w) m))"

definition raw_tokens :: "'x wsi \<Rightarrow> raw_source \<Rightarrow> tokens" where
  "raw_tokens w src = (case src of
      Pending \<Rightarrow> \<lparr>tok_mem = trunc_bytes w, tok_off = 0, tok_len = ws_trunc_len w, tok_own = False\<rparr>
    | Buffer t \<Rightarrow> t)"

text \<open>
  \<open>lws_issue_raw\<close>. Sending another buffer while a truncated send is pending is the failing
  \<open>assert\<close> of the code.
\<close>

definition lws_issue_raw :: "'x lws_cfg \<Rightarrow> 'x wsi \<Rightarrow> raw_source \<Rightarrow> 'x ws_result" where
  "lws_issue_raw cfg w src =
     (if ws_trunc w \<noteq> None \<and> src \<noteq> Pending then None
      else case exts_send (cfg_exts cfg) (ws_ext_user w) (raw_tokens w src) of
        (m, t, x) \<Rightarrow>
          let w = w\<lparr>ws_ext_user := x\<rparr>; d = tok_bytes (t\<lparr>tok_len := tok_len (raw_tokens w src)\<rparr>) in
          if m < 0 then Some (w, -1)
          else if m \<noteq> 0 then handle_truncated_send cfg w d (nat m)
          else case env_send w d of
            (Send_accepts n, w) \<Rightarrow> handle_truncated_send cfg w d n
          | (Send_again, w) \<Rightarrow> handle_truncated_send cfg w d 0
          | (Send_error, w) \<Rightarrow> Some (w, -1))"

text \<open>
  \<open>lws_issue_raw_ext_access\<close>: the loop goes round again as long as an extension has more to spill
  and the pipe takes it. The result is the length given, whatever the raw send returned.
\<close>

partial_function (option) ext_access_loop ::
    "'x lws_cfg \<Rightarrow> 'x wsi \<Rightarrow> tokens \<Rightarrow> nat \<Rightarrow> 'x ws_result" where
  "ext_access_loop cfg w t len =
     (case exts_show (cfg_exts cfg) LWS_EXT_CALLBACK_PACKET_TX_PRESEND (ws_ext_user w) t False of
        (t, x, spill, fatal) \<Rightarrow>
          let w = w\<lparr>ws_ext_user := x\<rparr> in
          if fatal then Some (w, -1)
          else let w = (if tok_own t then w\<lparr>ws_clean_buffer := False\<rparr> else w) in
            Option.bind (if tok_len t \<noteq> 0 then lws_issue_raw cfg w (Buffer t) else Some (w, 0)) (\<lambda>(w, n).
              if n < 0 then Some (w, -1)
              else if \<not> spill then Some (w, int len)
              else case lws_send_pipe_choked w of (choked, w) \<Rightarrow>
                if \<not> choked \<and> ws_trunc w = None then ext_access_loop cfg w no_tokens len
                else Some ((callback_on_writable cfg w)\<lparr>ws_ext_pending := True\<rparr>, int len)))"

declare ext_access_loop.simps [code]

definition lws_issue_raw_ext_access :: "'x lws_cfg \<Rightarrow> 'x wsi \<Rightarrow> tokens \<Rightarrow> 'x ws_result" where
  "lws_issue_raw_ext_access cfg w t = ext_access_loop cfg w t (tok_len t)"

section \<open>Framing\<close>

text \<open>The opcode of a write protocol; \<open>None\<close> is the default case of the switch.\<close>

definition write_opcode :: "u8 \<Rightarrow> u8 option" where
  "write_opcode protocol =
     (let p = protocol AND 0xf in
      if p = LWS_WRITE_TEXT then Some LWS_WS_OPCODE_07__TEXT_FRAME
      else if p = LWS_WRITE_BINARY then Some LWS_WS_OPCODE_07__BINARY_FRAME
      else if p = LWS_WRITE_CONTINUATION then Some LWS_WS_OPCODE_07__CONTINUATION
      else if p = LWS_WRITE_CLOSE then Some LWS_WS_OPCODE_07__CLOSE
      else if p = LWS_WRITE_PING then Some LWS_WS_OPCODE_07__PING
      else if p = LWS_WRITE_PONG then Some LWS_WS_OPCODE_07__PONG
      else None)"

definition ws_header :: "u8 \<Rightarrow> u8 \<Rightarrow> nat \<Rightarrow> bytes" where
  "ws_header n is_masked_bit len =
     (if len < 126 then [n, word_of_nat len OR is_masked_bit]
      else if len < 65536 then
        [n, 126 OR is_masked_bit, word_of_nat (len div 2 ^ 8), word_of_nat len]
      else
        [n, 127 OR is_masked_bit, word_of_nat (len div 2 ^ 56) AND 0x7f, word_of_nat (len div 2 ^ 48),
         word_of_nat (len div 2 ^ 40), word_of_nat (len div 2 ^ 32), word_of_nat (len div 2 ^ 24),
         word_of_nat (len div 2 ^ 16), word_of_nat (len div 2 ^ 8), word_of_nat len])"

text \<open>A store at \<open>buf[-pre]\<close> and on.\<close>

definition put_before :: "bytes \<Rightarrow> nat \<Rightarrow> nat \<Rightarrow> bytes \<Rightarrow> bytes option" where
  "put_before mem off pre bs = (if pre \<le> off then ablit mem (off - pre) bs else None)"

text \<open>The masking loop: \<open>k\<close> bytes from \<open>p\<close> are combined with the nonce.\<close>

fun mask_loop :: "nat \<Rightarrow> bytes \<Rightarrow> nat \<Rightarrow> bytes \<Rightarrow> u8 \<Rightarrow> (bytes \<times> u8) option" where
  "mask_loop 0 mem p nonce i = Some (mem, i)"
| "mask_loop (Suc k) mem p nonce i = do {
     b \<leftarrow> aget mem p;
     m \<leftarrow> aget nonce (unat (i AND 3));
     mem \<leftarrow> aset mem p (b XOR m);
     mask_loop k mem (p + 1) nonce (i + 1) }"

text \<open>\<open>libwebsocket_0405_frame_mask_generate\<close>; the result says whether it failed.\<close>

definition frame_mask_generate :: "'x wsi \<Rightarrow> bool \<times> 'x wsi" where
  "frame_mask_generate w =
     (case libwebsockets_get_random w 4 of (r, w) \<Rightarrow>
        let w = w\<lparr>ws_nonce := r @ drop (length r) (ws_nonce w)\<rparr> in
        if length r \<noteq> 4 then (True, w) else (False, w\<lparr>ws_mask_index := 0\<rparr>))"

text \<open>
  The header of revision 13 in front of the payload (the switch on the protocol and the length).
  The result is the tokens, with the two bytes of a close reason in front, the number of header
  bytes \<open>pre\<close>, and the position of the mask when there is one; \<open>Inl ()\<close> is the return of -1.
\<close>

definition frame_header :: "'x wsi \<Rightarrow> tokens \<Rightarrow> u8 \<Rightarrow> (unit + tokens \<times> nat \<times> nat option) option" where
  "frame_header w t protocol =
     (if ws_rev w \<noteq> 13 then Some (Inr (t, 0, None))
      else let masked7 = (ws_mode w = LWS_CONNMODE_WS_CLIENT) in do {
        dropmask \<leftarrow> (if \<not> masked7 then Some None
                    else if 4 \<le> tok_off t then Some (Some (tok_off t - 4)) else None);
        case write_opcode protocol of
          None \<Rightarrow> Some (Inl ())
        | Some n \<Rightarrow> do {
            t \<leftarrow> (if n = LWS_WS_OPCODE_07__CLOSE \<and> ws_close_reason w \<noteq> 0 then do {
                    mem \<leftarrow> put_before (tok_mem t) (tok_off t) 2 (be16 (ws_close_reason w));
                    Some (t\<lparr>tok_mem := mem, tok_off := tok_off t - 2, tok_len := tok_len t + 2\<rparr>) }
                  else Some t);
            let n = (if protocol AND LWS_WRITE_NO_FIN = 0 then n OR 0x80 else n);
            let hdr = ws_header n (if masked7 then 0x80 else 0) (tok_len t);
            let pre = length hdr + (if masked7 then 4 else 0);
            mem \<leftarrow> put_before (tok_mem t) (tok_off t) pre hdr;
            Some (Inr (t\<lparr>tok_mem := mem\<rparr>, pre, dropmask)) } })"

text \<open>From the label \<open>do_more_inside_frame\<close> to the mask in place.\<close>

definition mask_payload :: "'x wsi \<Rightarrow> tokens \<Rightarrow> nat option \<Rightarrow> ('x wsi \<times> tokens \<times> bool) option" where
  "mask_payload w t dropmask =
     (if ws_mode w \<noteq> LWS_CONNMODE_WS_CLIENT then Some (w, t, True)
      else case (if ws_inside_frame w then (False, w) else frame_mask_generate w) of
        (True, w) \<Rightarrow> Some (w, t, False)
      | (False, w) \<Rightarrow>
          case dropmask of
            None \<Rightarrow> Some (w, t, True)
          | Some p \<Rightarrow> do {
              (mem, i) \<leftarrow> mask_loop (tok_len t) (tok_mem t) (p + 4) (ws_nonce w) (ws_mask_index w);
              mem \<leftarrow> ablit mem p (ws_nonce w);
              Some (w\<lparr>ws_mask_index := i\<rparr>, t\<lparr>tok_mem := mem\<rparr>, True) })"

text \<open>From the label \<open>send_raw\<close> to the end.\<close>

definition send_raw :: "'x lws_cfg \<Rightarrow> 'x wsi \<Rightarrow> tokens \<Rightarrow> nat \<Rightarrow> nat \<Rightarrow> u8 \<Rightarrow> 'x ws_result" where
  "send_raw cfg w t pre orig_len protocol =
     (if tok_off t < pre then None
      else let frame = t\<lparr>tok_off := tok_off t - pre, tok_len := tok_len t + pre\<rparr> in
        if protocol \<in> {LWS_WRITE_CLOSE, LWS_WRITE_HTTP, LWS_WRITE_PONG, LWS_WRITE_PING}
        then lws_issue_raw cfg w (Buffer frame)
        else do {
          (w, n) \<leftarrow> lws_issue_raw_ext_access cfg (w\<lparr>ws_inside_frame := True\<rparr>) (frame\<lparr>tok_own := False\<rparr>);
          if n < 0 then Some (w, n)
          else if n = int (tok_len frame) then Some (w\<lparr>ws_inside_frame := False\<rparr>, int orig_len)
          else Some (w, n - int pre) })"

text \<open>
  \<open>libwebsocket_write\<close> of the \<open>len\<close> bytes at offset \<open>off\<close> of the caller's array \<open>mem\<close>. The header
  and the mask are written into the array in front of the payload, which is masked in place: the
  second component is the caller's array afterwards.
\<close>

definition libwebsocket_write ::
    "'x lws_cfg \<Rightarrow> 'x wsi \<Rightarrow> bytes \<Rightarrow> nat \<Rightarrow> nat \<Rightarrow> u8 \<Rightarrow> ('x wsi \<times> bytes \<times> int) option" where
  "libwebsocket_write cfg w mem off len protocol =
     (let t = \<lparr>tok_mem = mem, tok_off = off, tok_len = len, tok_own = False\<rparr>;
          finish = (\<lambda>w t pre dropmask. do {
            (w, t, ok) \<leftarrow> mask_payload w t dropmask;
            let mem' = (if tok_own t then mem else tok_mem t);
            if \<not> ok then Some (w, mem', -1)
            else do { (w, n) \<leftarrow> send_raw cfg w t pre len protocol; Some (w, mem', n) } }) in
      if len = 0 \<and> protocol \<notin> {LWS_WRITE_CLOSE, LWS_WRITE_PING, LWS_WRITE_PONG} then Some (w, mem, 0)
      else if protocol = LWS_WRITE_HTTP then do {
        (w, n) \<leftarrow> send_raw cfg w t 0 len protocol; Some (w, mem, n) }
      else if ws_state w \<noteq> WSI_STATE_ESTABLISHED then Some (w, mem, -1)
      else if ws_inside_frame w then finish w t 0 None
      else
        let w = w\<lparr>ws_clean_buffer := \<not> cfg_no_buffer_all_partial_tx cfg\<rparr> in
        case (if protocol \<in> {LWS_WRITE_PING, LWS_WRITE_PONG, LWS_WRITE_CLOSE}
              then (t, ws_ext_user w, False, False)
              else exts_show (cfg_exts cfg) LWS_EXT_CALLBACK_PAYLOAD_TX (ws_ext_user w) t False) of
          (t, x, _, fatal) \<Rightarrow>
            let w = w\<lparr>ws_ext_user := x\<rparr> in
            if fatal then Some (w, mem, -1)
            else let w = (if tok_own t then w\<lparr>ws_clean_buffer := False\<rparr> else w) in do {
              r \<leftarrow> frame_header w t protocol;
              case r of
                Inl _ \<Rightarrow> Some (w, mem, -1)
              | Inr (t, pre, dropmask) \<Rightarrow> finish w t pre dropmask })"

section \<open>Sending when the socket is writable\<close>

text \<open>The loop that lets the extensions spill what they hold; \<open>Inl\<close> returns from the handler.\<close>

partial_function (option) pollout_spill :: "'x lws_cfg \<Rightarrow> 'x wsi \<Rightarrow> ('x wsi \<times> int option) option" where
  "pollout_spill cfg w =
     (case exts_show (cfg_exts cfg) LWS_EXT_CALLBACK_PACKET_TX_PRESEND (ws_ext_user w) no_tokens False of
        (t, x, spill, fatal) \<Rightarrow>
          let w = w\<lparr>ws_ext_user := x\<rparr> in
          if fatal then Some (w, Some (-1))
          else if tok_len t = 0 then (if spill then pollout_spill cfg w else Some (w, None))
          else Option.bind (lws_issue_raw cfg w (Buffer t)) (\<lambda>(w, n).
            if n < 0 \<or> n \<noteq> int (tok_len t) then Some (w, Some (-1))
            else if \<not> spill then Some (w, None)
            else case lws_send_pipe_choked w of (choked, w) \<Rightarrow>
              if \<not> choked then pollout_spill cfg w else Some (w, Some 0)))"

declare pollout_spill.simps [code]

definition notify_writable :: "'x lws_cfg \<Rightarrow> 'x wsi \<Rightarrow> 'x ws_result" where
  "notify_writable cfg w =
     (case cfg_callback cfg of None \<Rightarrow> None
      | Some cb \<Rightarrow>
          (case user_callback_handle_rxflow cfg cb w
                 (if ws_mode w = LWS_CONNMODE_WS_CLIENT then LWS_CALLBACK_CLIENT_WRITEABLE
                  else LWS_CALLBACK_SERVER_WRITEABLE) [] of (n, w) \<Rightarrow> Some (w, n)))"

definition lws_handle_POLLOUT_event :: "'x lws_cfg \<Rightarrow> 'x wsi \<Rightarrow> bool \<Rightarrow> 'x ws_result" where
  "lws_handle_POLLOUT_event cfg w pollfd =
     (if ws_trunc w \<noteq> None then do { (w, _) \<leftarrow> lws_issue_raw cfg w Pending; Some (w, 0) }
      else case exts_max (cfg_exts cfg) LWS_EXT_CALLBACK_IS_WRITEABLE (ws_ext_user w) no_tokens 0 of
        (handled, x) \<Rightarrow>
          let w = w\<lparr>ws_ext_user := x\<rparr>;
              user_service = (\<lambda>w. notify_writable cfg (if pollfd then w\<lparr>ws_pollout := False\<rparr> else w)) in
          if handled = 1 then notify_writable cfg w
          else if \<not> ws_ext_pending w \<or> handled = 2 then user_service w
          else do {
            (w, r) \<leftarrow> pollout_spill cfg w;
            case r of Some n \<Rightarrow> Some (w, n)
            | None \<Rightarrow> user_service (w\<lparr>ws_ext_pending := False\<rparr>) })"


section \<open>Frames\<close>

text \<open>The payload combined with the nonce, from mask index \<open>i\<close>.\<close>

fun mask_bytes :: "bytes \<Rightarrow> u8 \<Rightarrow> bytes \<Rightarrow> bytes" where
  "mask_bytes nonce i [] = []"
| "mask_bytes nonce i (b # bs) = (b XOR nonce ! unat (i AND 3)) # mask_bytes nonce (i + 1) bs"

text \<open>A frame on the wire: first byte, optional mask, payload.\<close>

definition ws_encode :: "u8 \<Rightarrow> bytes option \<Rightarrow> bytes \<Rightarrow> bytes" where
  "ws_encode b0 key p = (case key of
      None \<Rightarrow> ws_header b0 0 (length p) @ p
    | Some k \<Rightarrow> ws_header b0 0x80 (length p) @ k @ mask_bytes k 0 p)"

definition first_byte :: "u8 \<Rightarrow> u8 \<Rightarrow> u8" where
  "first_byte protocol opc = (if protocol AND LWS_WRITE_NO_FIN = 0 then opc OR 0x80 else opc)"

lemma length_mask_bytes [simp]: "length (mask_bytes nonce i bs) = length bs"
  by (induction bs arbitrary: i) auto

lemma mask_bytes_mask_bytes: "mask_bytes nonce i (mask_bytes nonce i bs) = bs"
  by (induction bs arbitrary: i) (auto simp: xor.assoc)

lemma mask_bytes_append:
  "mask_bytes nonce i (xs @ ys) = mask_bytes nonce i xs @ mask_bytes nonce (i + word_of_nat (length xs)) ys"
  by (induction xs arbitrary: i) (auto simp: algebra_simps)

lemma length_ws_header: "length (ws_header n m len) = (if len < 126 then 2 else if len < 65536 then 4 else 10)"
  by (simp add: ws_header_def)

lemma length_ws_header_le: "length (ws_header n m len) \<le> 10"
  by (simp add: length_ws_header)

lemma mask_index_bound: "unat (i AND 3 :: u8) < 4"
  using unat_take_bit_bound [of 2 i] by (simp add: u8_masks(1) [symmetric])

lemma mask_loop_run:
  assumes "length nonce = 4"
  shows "p + length bs \<le> length mem \<Longrightarrow> take (length bs) (drop p mem) = bs \<Longrightarrow>
    mask_loop (length bs) mem p nonce i
      = Some (take p mem @ mask_bytes nonce i bs @ drop (p + length bs) mem, i + word_of_nat (length bs))"
proof (induction bs arbitrary: mem p i)
  case (Cons b bs)
  have p: "p < length mem" using Cons.prems(1) by simp
  then have d: "drop p mem = mem ! p # drop (p + 1) mem" by (simp add: Cons_nth_drop_Suc)
  with Cons.prems(2) have b: "mem ! p = b" "take (length bs) (drop (p + 1) mem) = bs" by simp_all
  have idx: "unat (i AND 3) < length nonce" using mask_index_bound assms by simp
  let ?x = "b XOR nonce ! unat (i AND 3)"
  have "mask_loop (length bs) (mem[p := ?x]) (p + 1) nonce (i + 1) = Some
      (take (p + 1) (mem[p := ?x]) @ mask_bytes nonce (i + 1) bs @ drop (p + 1 + length bs) (mem[p := ?x]),
       i + 1 + word_of_nat (length bs))"
    by (rule Cons.IH) (use Cons.prems(1) b in simp_all)
  moreover have "take (p + 1) (mem[p := ?x]) = take p mem @ [?x]"
    using p by (simp add: take_Suc_conv_app_nth)
  ultimately show ?case using p idx b by (simp add: access_simps algebra_simps)
qed simp


section \<open>The output stream\<close>

text \<open>What has been issued: the bytes on the wire, then those of the pending truncated send.\<close>

definition out_stream :: "'x wsi \<Rightarrow> bytes" where
  "out_stream w = ws_wire w @ trunc_bytes w"

definition trunc_ok :: "'x wsi \<Rightarrow> bool" where
  "trunc_ok w \<longleftrightarrow> (case ws_trunc w of None \<Rightarrow> True
     | Some m \<Rightarrow> 0 < ws_trunc_len w \<and> ws_trunc_off w + ws_trunc_len w = length m)"

lemma trunc_bytes_ok: "trunc_ok w \<Longrightarrow> ws_trunc w = Some m \<Longrightarrow> trunc_bytes w = drop (ws_trunc_off w) m"
  by (auto simp: trunc_bytes_def trunc_ok_def)

lemma length_trunc_bytes: "trunc_ok w \<Longrightarrow> ws_trunc w \<noteq> None \<Longrightarrow> length (trunc_bytes w) = ws_trunc_len w"
  by (auto simp: trunc_bytes_def trunc_ok_def)

lemma callback_on_writable_none:
  "cfg_exts cfg = [] \<Longrightarrow> callback_on_writable cfg w = w\<lparr>ws_pollout := True\<rparr>"
  by (simp add: callback_on_writable_def)

lemma trunc_bytes_pollout [simp]: "trunc_bytes (w\<lparr>ws_pollout := b\<rparr>) = trunc_bytes w"
  by (simp add: trunc_bytes_def split: option.split)

lemma out_stream_flags [simp]:
  "out_stream (w\<lparr>ws_inside_frame := b\<rparr>) = out_stream w"
  "out_stream (w\<lparr>ws_clean_buffer := b\<rparr>) = out_stream w"
  "trunc_ok (w\<lparr>ws_inside_frame := b\<rparr>) = trunc_ok w"
  by (simp_all add: out_stream_def trunc_bytes_def trunc_ok_def split: option.split)

lemma tok_bytes_all: "tok_bytes \<lparr>tok_mem = d, tok_off = 0, tok_len = length d, tok_own = b\<rparr> = d"
  by (simp add: tok_bytes_def)

text \<open>The system fails a send of \<open>n\<close> bytes: the socket has an error, or does not take all of them and there is no memory to
  keep the rest.\<close>

definition send_fails :: "'x wsi \<Rightarrow> nat \<Rightarrow> bool" where
  "send_fails w n \<longleftrightarrow>
     (let no_memory = (case ws_mallocs w of [] \<Rightarrow> False | b # _ \<Rightarrow> \<not> b)
      in case ws_sends w of
        Send_error # _ \<Rightarrow> True
      | Send_accepts k # _ \<Rightarrow> k < n \<and> no_memory
      | _ \<Rightarrow> no_memory)"

lemma send_fails_updates [simp]:
  "send_fails (w\<lparr>ws_inside_frame := b\<rparr>) n = send_fails w n"
  "send_fails (w\<lparr>ws_clean_buffer := b\<rparr>) n = send_fails w n"
  "send_fails (w\<lparr>ws_nonce := k, ws_mask_index := i\<rparr>) n = send_fails w n"
  "send_fails (w\<lparr>ws_randoms := rs\<rparr>) n = send_fails w n"
  by (simp_all add: send_fails_def)

text \<open>A send of a buffer when nothing is pending and partial sends are to be buffered: the whole buffer
  is issued, part of it perhaps as a pending send, unless the system fails.\<close>

lemma issue_buffer:
  assumes exts: "cfg_exts cfg = []" and idle: "ws_trunc w = None" and keep: "\<not> ws_clean_buffer w"
    and len: "tok_off t + tok_len t \<le> length (tok_mem t)" "0 < tok_len t"
  obtains w' r where "lws_issue_raw cfg w (Buffer t) = Some (w', r)"
    "r = -1 \<or> r = int (tok_len t) \<and> out_stream w' = out_stream w @ tok_bytes t \<and> trunc_ok w'"
    "r = -1 \<longleftrightarrow> send_fails w (tok_len t)"
    "ws_wire w' = ws_wire w @ take (length (ws_wire w') - length (ws_wire w)) (tok_bytes t)"
proof -
  let ?d = "tok_bytes t"
  have d: "length ?d = tok_len t" using len by (simp add: tok_bytes_def)
  have w: "out_stream w = ws_wire w" using idle by (simp add: out_stream_def trunc_bytes_def)
  have upd: "w\<lparr>ws_ext_user := ws_ext_user w\<rparr> = w" "t\<lparr>tok_len := tok_len t\<rparr> = t" by simp_all
  have run: "lws_issue_raw cfg w (Buffer t) = (case env_send w ?d of
            (Send_accepts n, w) \<Rightarrow> handle_truncated_send cfg w ?d n
          | (Send_again, w) \<Rightarrow> handle_truncated_send cfg w ?d 0
          | (Send_error, w) \<Rightarrow> Some (w, -1))"
    unfolding lws_issue_raw_def raw_tokens_def raw_source.case Let_def exts exts_send.simps prod.case upd
    using idle by simp
  have buffered: "\<exists>w' r. handle_truncated_send cfg v ?d n = Some (w', r) \<and>
      (r = -1 \<or> r = int (tok_len t) \<and> out_stream w' = ws_wire v @ drop n ?d \<and> trunc_ok w') \<and>
      (r = -1 \<longleftrightarrow> n < tok_len t \<and> (case ws_mallocs v of [] \<Rightarrow> False | b # _ \<Rightarrow> \<not> b)) \<and> ws_wire w' = ws_wire v"
    if "ws_trunc v = None" "\<not> ws_clean_buffer v" "n \<le> length ?d" for v :: "'a wsi" and n
  proof (cases "n < length ?d")
    case True
    obtain ok v' where m: "env_malloc v = (ok, v')" by (cases "env_malloc v")
    then have "ws_wire v' = ws_wire v" "ok \<longleftrightarrow> \<not> (case ws_mallocs v of [] \<Rightarrow> False | b # _ \<Rightarrow> \<not> b)"
      by (auto simp: env_malloc_def split: list.splits)
    then show ?thesis using that True d m
      by (auto simp: handle_truncated_send_def callback_on_writable_none [OF exts] out_stream_def
          trunc_bytes_def trunc_ok_def)
  next
    case False
    then show ?thesis using that d
      by (simp add: handle_truncated_send_def out_stream_def trunc_bytes_def trunc_ok_def)
  qed
  show ?thesis
  proof (cases "ws_sends w")
    case Nil
    then have "env_send w ?d = (Send_again, w)" by (simp add: env_send_def)
    with buffered [OF idle keep, of 0] run that w Nil len(2) show ?thesis by (auto simp: send_fails_def)
  next
    case (Cons s rs)
    show ?thesis
    proof (cases s)
      case (Send_accepts k)
      let ?n = "min k (length ?d)" and ?v = "w\<lparr>ws_sends := rs, ws_wire := ws_wire w @ take (min k (length ?d)) ?d\<rparr>"
      have "env_send w ?d = (Send_accepts ?n, ?v)" using Cons Send_accepts by (simp add: env_send_def Let_def)
      moreover have "?n < tok_len t \<longleftrightarrow> k < tok_len t" using d by auto
      moreover from buffered [of ?v ?n] idle keep obtain w' r where
        "handle_truncated_send cfg ?v ?d ?n = Some (w', r)"
        "r = -1 \<or> r = int (tok_len t) \<and> out_stream w' = ws_wire ?v @ drop ?n ?d \<and> trunc_ok w'"
        "r = -1 \<longleftrightarrow> ?n < tok_len t \<and> (case ws_mallocs w of [] \<Rightarrow> False | b # _ \<Rightarrow> \<not> b)" "ws_wire w' = ws_wire ?v" by auto
      ultimately show ?thesis using that run w Cons Send_accepts by (auto simp: send_fails_def)
    next
      case Send_again
      with Cons have "env_send w ?d = (Send_again, w\<lparr>ws_sends := rs\<rparr>)" by (simp add: env_send_def)
      with buffered [of "w\<lparr>ws_sends := rs\<rparr>" 0] idle keep run that w Cons Send_again len(2) show ?thesis
        by (auto simp: send_fails_def)
    next
      case Send_error
      with Cons have "env_send w ?d = (Send_error, w\<lparr>ws_sends := rs\<rparr>)" by (simp add: env_send_def)
      with run that Cons Send_error show ?thesis by (auto simp: send_fails_def)
    qed
  qed
qed


text \<open>Sending what is pending neither loses nor repeats a byte, and ends the pending send when the
  socket takes all of it.\<close>

lemma issue_pending:
  assumes exts: "cfg_exts cfg = []" and ok: "trunc_ok w" and pend: "ws_trunc w \<noteq> None"
  obtains w' r where "lws_issue_raw cfg w Pending = Some (w', r)" "out_stream w' = out_stream w" "trunc_ok w'"
    "ws_sends w' = tl (ws_sends w)"
    "\<And>k rs. ws_sends w = Send_accepts k # rs \<Longrightarrow> length (trunc_bytes w') = length (trunc_bytes w) - k"
proof -
  let ?d = "trunc_bytes w"
  have d: "length ?d = ws_trunc_len w" by (rule length_trunc_bytes [OF ok pend])
  have upd: "w\<lparr>ws_ext_user := ws_ext_user w\<rparr> = w" by simp
  have bytes: "tok_bytes (\<lparr>tok_mem = ?d, tok_off = 0, tok_len = ws_trunc_len w, tok_own = False\<rparr>
      \<lparr>tok_len := ws_trunc_len w\<rparr>) = ?d" using d by (simp add: tok_bytes_def)
  have run: "lws_issue_raw cfg w Pending = (case env_send w ?d of
            (Send_accepts n, w) \<Rightarrow> handle_truncated_send cfg w ?d n
          | (Send_again, w) \<Rightarrow> handle_truncated_send cfg w ?d 0
          | (Send_error, w) \<Rightarrow> Some (w, -1))"
    unfolding lws_issue_raw_def raw_tokens_def raw_source.case Let_def exts exts_send.simps prod.case upd
      bytes using bytes by (auto split: prod.split send_result.split)
  obtain m where m: "ws_trunc w = Some m" using pend by auto
  have moved: "\<exists>w' r. handle_truncated_send cfg v ?d n = Some (w', r) \<and>
      out_stream w' = ws_wire v @ drop n ?d \<and> trunc_ok w' \<and> length (trunc_bytes w') = length ?d - n \<and>
      ws_sends w' = ws_sends v"
    if "ws_trunc v = Some m" "ws_trunc_off v = ws_trunc_off w" "ws_trunc_len v = ws_trunc_len w"
      "n \<le> ws_trunc_len w" for v :: "'a wsi" and n
  proof (cases "n = ws_trunc_len w")
    case True
    then show ?thesis using that d
      by (auto simp: handle_truncated_send_def out_stream_def trunc_bytes_def trunc_ok_def Let_def)
  next
    case False
    then show ?thesis using that ok m
      by (auto simp: handle_truncated_send_def out_stream_def trunc_bytes_def trunc_ok_def Let_def
          callback_on_writable_none [OF exts] add.commute drop_take)
  qed
  have out: "out_stream w = ws_wire w @ ?d" by (simp add: out_stream_def)
  show ?thesis
  proof (cases "ws_sends w")
    case Nil
    then have "env_send w ?d = (Send_again, w)" by (simp add: env_send_def)
    with moved [of w 0] m run out that Nil show ?thesis by auto
  next
    case (Cons s rs)
    show ?thesis
    proof (cases s)
      case (Send_accepts k)
      let ?n = "min k (length ?d)" and ?v = "w\<lparr>ws_sends := rs, ws_wire := ws_wire w @ take (min k (length ?d)) ?d\<rparr>"
      have e: "env_send w ?d = (Send_accepts ?n, ?v)" using Cons Send_accepts by (simp add: env_send_def Let_def)
      from moved [of ?v ?n] m d obtain w' r where
        h: "handle_truncated_send cfg ?v ?d ?n = Some (w', r)" "out_stream w' = ws_wire ?v @ drop ?n ?d"
        "trunc_ok w'" "length (trunc_bytes w') = length ?d - ?n" "ws_sends w' = ws_sends ?v" by auto
      show ?thesis
      proof (rule that)
        show "lws_issue_raw cfg w Pending = Some (w', r)" using run e h(1) by simp
        show "out_stream w' = out_stream w" using h(2) out by simp
        show "ws_sends w' = tl (ws_sends w)" using h(5) Cons by simp
        show "length (trunc_bytes w') = length ?d - k'" if "ws_sends w = Send_accepts k' # rs'" for k' rs'
          using h(4) that Cons Send_accepts by simp
      qed (rule h(3))
    next
      case Send_again
      with Cons have "env_send w ?d = (Send_again, w\<lparr>ws_sends := rs\<rparr>)" by (simp add: env_send_def)
      with moved [of "w\<lparr>ws_sends := rs\<rparr>" 0] m run out that Cons Send_again show ?thesis by auto
    next
      case Send_error
      with Cons have "env_send w ?d = (Send_error, w\<lparr>ws_sends := rs\<rparr>)" by (simp add: env_send_def)
      with run that ok Cons Send_error show ?thesis
        by (auto simp: out_stream_def trunc_bytes_def trunc_ok_def split: option.splits)
    qed
  qed
qed

text \<open>The header in front of the payload.\<close>

lemma put_before_at:
  assumes "length bs \<le> pre" "pre \<le> off" "off \<le> length mem"
  shows "put_before mem off pre bs = Some (take (off - pre) mem @ bs @ drop (off - pre + length bs) mem)"
  using assms by (simp add: put_before_def ablit_def)

definition tok_ok :: "tokens \<Rightarrow> bool" where
  "tok_ok t \<longleftrightarrow> LWS_SEND_BUFFER_PRE_PADDING \<le> tok_off t \<and> tok_off t + tok_len t \<le> length (tok_mem t)"

definition with_reason :: "'x wsi \<Rightarrow> u8 \<Rightarrow> bytes \<Rightarrow> bytes" where
  "with_reason w opc p =
     (if opc = LWS_WS_OPCODE_07__CLOSE \<and> ws_close_reason w \<noteq> 0 then be16 (ws_close_reason w) @ p else p)"

lemma frame_server:
  assumes rev: "ws_rev w = 13" and mode: "ws_mode w \<noteq> LWS_CONNMODE_WS_CLIENT"
    and opc: "write_opcode protocol = Some opc" and t: "tok_ok t"
  obtains t' pre where "frame_header w t protocol = Some (Inr (t', pre, None))"
    "pre \<le> tok_off t'" "tok_off t' + tok_len t' \<le> length (tok_mem t')"
    "tok_own t' = tok_own t" "length (tok_mem t') = length (tok_mem t)"
    "0 < tok_len t' + pre"
    "tok_bytes (t'\<lparr>tok_off := tok_off t' - pre, tok_len := tok_len t' + pre\<rparr>)
       = ws_encode (first_byte protocol opc) None (with_reason w opc (tok_bytes t))"
proof -
  let ?p = "with_reason w opc (tok_bytes t)"
  let ?two = "opc = LWS_WS_OPCODE_07__CLOSE \<and> ws_close_reason w \<noteq> 0"
  define t1 where "t1 = (if ?two then t\<lparr>tok_mem := take (tok_off t - 2) (tok_mem t) @ be16 (ws_close_reason w)
      @ drop (tok_off t) (tok_mem t), tok_off := tok_off t - 2, tok_len := tok_len t + 2\<rparr> else t)"
  have off: "18 \<le> tok_off t" "tok_off t + tok_len t \<le> length (tok_mem t)" using t by (simp_all add: tok_ok_def)
  have t1: "(if ?two then do {
                    mem \<leftarrow> put_before (tok_mem t) (tok_off t) 2 (be16 (ws_close_reason w));
                    Some (t\<lparr>tok_mem := mem, tok_off := tok_off t - 2, tok_len := tok_len t + 2\<rparr>) }
                  else Some t) = Some t1"
  proof (cases ?two)
    case True
    have "tok_off t - 2 + length (be16 (ws_close_reason w)) = tok_off t" using off by simp
    then have "put_before (tok_mem t) (tok_off t) 2 (be16 (ws_close_reason w))
        = Some (take (tok_off t - 2) (tok_mem t) @ be16 (ws_close_reason w) @ drop (tok_off t) (tok_mem t))"
      using off put_before_at [of "be16 (ws_close_reason w)" 2 "tok_off t" "tok_mem t"] by simp
    then show ?thesis using True by (simp add: t1_def)
  next
    case False
    then show ?thesis unfolding t1_def by (simp only: if_False)
  qed
  have t1p: "16 \<le> tok_off t1" "tok_off t1 + tok_len t1 \<le> length (tok_mem t1)" "tok_len t1 = length ?p"
    "take (tok_len t1) (drop (tok_off t1) (tok_mem t1)) = ?p" "tok_own t1 = tok_own t"
    "length (tok_mem t1) = length (tok_mem t)"
    using off by (auto simp: t1_def with_reason_def tok_bytes_def)
  let ?b = "first_byte protocol opc"
  let ?hdr = "ws_header ?b 0 (length ?p)"
  let ?pre = "length ?hdr"
  have pre: "?pre \<le> 10" "2 \<le> ?pre" by (simp_all add: length_ws_header)
  let ?mem = "take (tok_off t1 - ?pre) (tok_mem t1) @ ?hdr @ drop (tok_off t1) (tok_mem t1)"
  have "put_before (tok_mem t1) (tok_off t1) ?pre ?hdr = Some ?mem"
    using put_before_at [of ?hdr ?pre "tok_off t1" "tok_mem t1"] pre t1p(1,2) by simp
  then have run: "frame_header w t protocol = Some (Inr (t1\<lparr>tok_mem := ?mem\<rparr>, ?pre, None))"
    using rev mode opc t1 t1p(3) by (simp add: frame_header_def first_byte_def Let_def)
  show ?thesis
  proof (rule that [OF run])
    show "tok_bytes (t1\<lparr>tok_mem := ?mem\<rparr>\<lparr>tok_off := tok_off (t1\<lparr>tok_mem := ?mem\<rparr>) - ?pre,
        tok_len := tok_len (t1\<lparr>tok_mem := ?mem\<rparr>) + ?pre\<rparr>) = ws_encode ?b None ?p"
      using t1p pre by (simp add: tok_bytes_def ws_encode_def add.commute)
  qed (use t1p pre in auto)
qed


lemma get_random_keeps:
  "libwebsockets_get_random w n = (r, v) \<Longrightarrow> \<exists>rs. v = w\<lparr>ws_randoms := rs\<rparr>"
  by (auto simp: libwebsockets_get_random_def split: list.splits intro: exI [of _ "ws_randoms w"])

lemma take_drop_split: "take k (drop n xs) @ drop (n + k) xs = drop n xs"
  by (metis add.commute append_take_drop_id drop_drop)

lemma ablit_mid: "length X = length Y \<Longrightarrow> ablit (A @ X @ B) (length A) Y = Some (A @ Y @ B)"
  by (simp add: ablit_def)

lemma mask_loop_mid:
  "length key = 4 \<Longrightarrow> mask_loop (length p) (A @ p @ B) (length A) key i
     = Some (A @ mask_bytes key i p @ B, i + word_of_nat (length p))"
  using mask_loop_run [of key "length A" p "A @ p @ B" i] by simp

text \<open>The client's frame: header, nonce, masked payload. It is so for every frame but a close with a
  reason (see below).\<close>

lemma frame_client:
  assumes rev: "ws_rev w = 13" and mode: "ws_mode w = LWS_CONNMODE_WS_CLIENT"
    and opc: "write_opcode protocol = Some opc" and t: "tok_ok t"
    and plain: "opc = LWS_WS_OPCODE_07__CLOSE \<longrightarrow> ws_close_reason w = 0"
    and fresh: "\<not> ws_inside_frame w" and key: "libwebsockets_get_random w 4 = (key, v)" "length key = 4"
    and nonce: "length (ws_nonce w) = 4"
  obtains t' pre where "frame_header w t protocol = Some (Inr (t', pre, Some (tok_off t - 4)))"
    "\<exists>i t''. mask_payload w t' (Some (tok_off t - 4))
       = Some (v\<lparr>ws_nonce := key, ws_mask_index := i\<rparr>, t'', True) \<and>
     pre \<le> tok_off t'' \<and> tok_off t'' + tok_len t'' \<le> length (tok_mem t'') \<and> tok_own t'' = tok_own t \<and>
     0 < tok_len t'' + pre \<and>
     tok_bytes (t''\<lparr>tok_off := tok_off t'' - pre, tok_len := tok_len t'' + pre\<rparr>)
       = ws_encode (first_byte protocol opc) (Some key) (tok_bytes t)"
proof -
  have off: "18 \<le> tok_off t" "tok_off t + tok_len t \<le> length (tok_mem t)" using t by (simp_all add: tok_ok_def)
  define p where "p = tok_bytes t"
  let ?b = "first_byte protocol opc"
  have lp: "tok_len t = length p" using off by (simp add: tok_bytes_def p_def)
  define hdr where "hdr = ws_header ?b 0x80 (length p)"
  have pre: "length hdr \<le> 10" "2 \<le> length hdr" by (simp_all add: length_ws_header hdr_def)
  define A where "A = take (tok_off t - (length hdr + 4)) (tok_mem t)"
  define H where "H = take (length hdr) (drop (length A) (tok_mem t))"
  define K where "K = take 4 (drop (tok_off t - 4) (tok_mem t))"
  define R where "R = drop (tok_off t + length p) (tok_mem t)"
  have lens: "length A = tok_off t - (length hdr + 4)" "length H = length hdr" "length K = 4"
    using off pre by (simp_all add: A_def H_def K_def)
  have mem: "tok_mem t = A @ H @ K @ p @ R"
  proof -
    have "length A + length hdr = tok_off t - 4" using lens(1) off pre by simp
    then have "drop (length A) (tok_mem t) = H @ drop (tok_off t - 4) (tok_mem t)"
      unfolding H_def using take_drop_split [of "length hdr" "length A" "tok_mem t"] by simp
    moreover have "tok_off t - 4 + 4 = tok_off t" using off by simp
    then have "drop (tok_off t - 4) (tok_mem t) = K @ drop (tok_off t) (tok_mem t)"
      unfolding K_def using take_drop_split [of 4 "tok_off t - 4" "tok_mem t"] by simp
    moreover have "drop (tok_off t) (tok_mem t) = p @ R"
      using take_drop_split [of "tok_len t" "tok_off t" "tok_mem t"]
      by (simp only: R_def lp [symmetric]) (simp add: p_def tok_bytes_def)
    moreover have "tok_mem t = A @ drop (length A) (tok_mem t)"
      unfolding lens(1) unfolding A_def by simp
    ultimately show ?thesis by simp
  qed
  have offs: "tok_off t = length A + length hdr + 4" using lens(1) off pre by simp
  let ?m1 = "A @ hdr @ K @ p @ R" and ?m2 = "A @ hdr @ K @ mask_bytes key 0 p @ R"
    and ?m3 = "A @ hdr @ key @ mask_bytes key 0 p @ R"
  have "put_before (tok_mem t) (tok_off t) (length hdr + 4) hdr = Some ?m1"
    using ablit_mid [of H hdr A "K @ p @ R"] lens(2) by (simp add: put_before_def mem offs)
  then have run: "frame_header w t protocol
      = Some (Inr (t\<lparr>tok_mem := ?m1\<rparr>, length hdr + 4, Some (tok_off t - 4)))"
    using rev mode opc off plain lp by (auto simp: frame_header_def first_byte_def Let_def hdr_def)
  have loop: "mask_loop (tok_len t) ?m1 (tok_off t) key 0 = Some (?m2, word_of_nat (length p))"
    using mask_loop_mid [OF key(2), of p "A @ hdr @ K" R 0] lens(3) lp offs by (simp add: add.assoc)
  have blit: "ablit ?m2 (tok_off t - 4) key = Some ?m3"
    using ablit_mid [of K key "A @ hdr" "mask_bytes key 0 p @ R"] lens(3) key(2) offs by simp
  let ?t = "t\<lparr>tok_mem := ?m3\<rparr>"
  have "tok_off t - 4 + 4 = tok_off t" using off by simp
  then have mask: "mask_payload w (t\<lparr>tok_mem := ?m1\<rparr>) (Some (tok_off t - 4))
      = Some (v\<lparr>ws_nonce := key, ws_mask_index := word_of_nat (length p)\<rparr>, ?t, True)"
    using mode fresh key loop blit nonce get_random_keeps [OF key(1)]
    by (auto simp: mask_payload_def frame_mask_generate_def)
  have "tok_bytes (?t\<lparr>tok_off := tok_off t - (length hdr + 4), tok_len := tok_len t + (length hdr + 4)\<rparr>)
      = ws_encode ?b (Some key) p"
    using offs lp key(2) by (simp add: tok_bytes_def ws_encode_def hdr_def)
  moreover have "length hdr + 4 \<le> tok_off t" "tok_off t + tok_len t \<le> length ?m3"
    using offs lp key(2) by simp_all
  moreover have "0 < tok_len t + (length hdr + 4)" by simp
  ultimately show ?thesis using mask p_def
    by (intro that [OF run] exI [of _ "word_of_nat (length p)"] exI [of _ ?t]) simp
qed


section \<open>Writing a message\<close>

definition write_ready :: "'x lws_cfg \<Rightarrow> 'x wsi \<Rightarrow> bool" where
  "write_ready cfg w \<longleftrightarrow> cfg_exts cfg = [] \<and> ws_state w = WSI_STATE_ESTABLISHED \<and> ws_rev w = 13 \<and>
     \<not> ws_inside_frame w \<and> ws_trunc w = None \<and> length (ws_nonce w) = 4"

text \<open>The frame a write makes of a payload: masked by the next random nonce on a client.\<close>

definition next_frame :: "'x wsi \<Rightarrow> u8 \<Rightarrow> u8 \<Rightarrow> bytes \<Rightarrow> bytes" where
  "next_frame w protocol opc p =
     ws_encode (first_byte protocol opc)
       (if ws_mode w = LWS_CONNMODE_WS_CLIENT then Some (fst (libwebsockets_get_random w 4)) else None)
       (with_reason w opc p)"

definition mask_sane :: "'x wsi \<Rightarrow> u8 \<Rightarrow> bool" where
  "mask_sane w opc \<longleftrightarrow> (ws_mode w = LWS_CONNMODE_WS_CLIENT \<longrightarrow>
     length (fst (libwebsockets_get_random w 4)) = 4 \<and>
     (opc = LWS_WS_OPCODE_07__CLOSE \<longrightarrow> ws_close_reason w = 0))"

text \<open>What \<open>libwebsocket_write\<close> does when it is ready.\<close>

lemma write_start:
  assumes "write_ready cfg w" and "len \<noteq> 0 \<or> protocol \<in> {LWS_WRITE_CLOSE, LWS_WRITE_PING, LWS_WRITE_PONG}"
    and "protocol \<noteq> LWS_WRITE_HTTP"
  shows "libwebsocket_write cfg w mem off len protocol = do {
      r \<leftarrow> frame_header (w\<lparr>ws_clean_buffer := \<not> cfg_no_buffer_all_partial_tx cfg\<rparr>)
            \<lparr>tok_mem = mem, tok_off = off, tok_len = len, tok_own = False\<rparr> protocol;
      case r of
        Inl _ \<Rightarrow> Some (w\<lparr>ws_clean_buffer := \<not> cfg_no_buffer_all_partial_tx cfg\<rparr>, mem, -1)
      | Inr (t, pre, dropmask) \<Rightarrow> do {
          (w, t, ok) \<leftarrow> mask_payload (w\<lparr>ws_clean_buffer := \<not> cfg_no_buffer_all_partial_tx cfg\<rparr>) t dropmask;
          let mem' = (if tok_own t then mem else tok_mem t);
          if \<not> ok then Some (w, mem', -1)
          else do { (w, n) \<leftarrow> send_raw cfg w t pre len protocol; Some (w, mem', n) } } }"
proof -
  have upd: "v\<lparr>ws_ext_user := ws_ext_user v\<rparr> = v" for v :: "'a wsi" by simp
  show ?thesis using assms unfolding libwebsocket_write_def write_ready_def Let_def
    by (auto simp: upd)
qed

lemma send_raw_frame:
  assumes cfg: "cfg_exts cfg = []" and idle: "ws_trunc w = None" and keep: "\<not> ws_clean_buffer w"
    and t: "pre \<le> tok_off t" "tok_off t + tok_len t \<le> length (tok_mem t)" "0 < tok_len t + pre"
  obtains w' r where "send_raw cfg w t pre orig_len protocol = Some (w', r)"
    "r = -1 \<or> 0 \<le> r \<and> trunc_ok w' \<and>
       out_stream w' = out_stream w @ tok_bytes (t\<lparr>tok_off := tok_off t - pre, tok_len := tok_len t + pre\<rparr>)"
    "r = -1 \<longleftrightarrow> send_fails w (tok_len t + pre)"
    "r \<noteq> -1 \<Longrightarrow> protocol \<in> {LWS_WRITE_CLOSE, LWS_WRITE_HTTP, LWS_WRITE_PONG, LWS_WRITE_PING} \<Longrightarrow> r = int (tok_len t + pre)"
    "r \<noteq> -1 \<Longrightarrow> protocol \<notin> {LWS_WRITE_CLOSE, LWS_WRITE_HTTP, LWS_WRITE_PONG, LWS_WRITE_PING} \<Longrightarrow>
       r = int orig_len \<and> \<not> ws_inside_frame w'"
proof -
  let ?f = "t\<lparr>tok_off := tok_off t - pre, tok_len := tok_len t + pre\<rparr>"
  have f: "tok_off ?f + tok_len ?f \<le> length (tok_mem ?f)" "0 < tok_len ?f" using t by simp_all
  show ?thesis
  proof (cases "protocol \<in> {LWS_WRITE_CLOSE, LWS_WRITE_HTTP, LWS_WRITE_PONG, LWS_WRITE_PING}")
    case True
    obtain w' r where i: "lws_issue_raw cfg w (Buffer ?f) = Some (w', r)"
      "r = -1 \<or> r = int (tok_len ?f) \<and> out_stream w' = out_stream w @ tok_bytes ?f \<and> trunc_ok w'"
      "r = -1 \<longleftrightarrow> send_fails w (tok_len ?f)"
      by (rule issue_buffer [OF cfg idle keep f]) blast
    show ?thesis
    proof (rule that)
      show "send_raw cfg w t pre orig_len protocol = Some (w', r)"
        using True i(1) t(1) by (simp add: send_raw_def Let_def)
    qed (use i(2,3) True in auto)
  next
    case False
    let ?w = "w\<lparr>ws_inside_frame := True\<rparr>" and ?g = "?f\<lparr>tok_own := False\<rparr>"
    have w: "ws_trunc ?w = None" "\<not> ws_clean_buffer ?w" using idle keep by simp_all
    have g: "tok_off ?g + tok_len ?g \<le> length (tok_mem ?g)" "0 < tok_len ?g" using f by simp_all
    obtain w' r where i: "lws_issue_raw cfg ?w (Buffer ?g) = Some (w', r)"
      "r = -1 \<or> r = int (tok_len ?g) \<and> out_stream w' = out_stream ?w @ tok_bytes ?g \<and> trunc_ok w'"
      "r = -1 \<longleftrightarrow> send_fails w (tok_len t + pre)"
      by (rule issue_buffer [OF cfg w g]) simp
    have same: "out_stream ?w = out_stream w" "tok_bytes ?g = tok_bytes ?f"
      by (simp_all add: tok_bytes_def)
    have access: "lws_issue_raw_ext_access cfg ?w ?g = Some (w', if r < 0 then -1 else int (tok_len ?g))"
      unfolding lws_issue_raw_ext_access_def
      by (subst ext_access_loop.simps) (use cfg i(1) f(2) in \<open>simp add: Let_def\<close>)
    show ?thesis
    proof (cases "r < 0")
      case True
      have "send_raw cfg w t pre orig_len protocol = Some (w', -1)"
        using False access t(1) True by (simp add: send_raw_def Let_def)
      then show ?thesis by (rule that) (use i(2,3) True in auto)
    next
      case nonneg: False
      let ?v = "w'\<lparr>ws_inside_frame := False\<rparr>"
      have sr: "send_raw cfg w t pre orig_len protocol = Some (?v, int orig_len)"
        using False access t(1) nonneg by (simp add: send_raw_def Let_def)
      have B: "0 \<le> int orig_len \<and> trunc_ok ?v \<and> out_stream ?v = out_stream w @ tok_bytes ?f"
        using i(2) same nonneg by auto
      show ?thesis by (rule that [OF sr disjI2 [OF B]]) (use i(3) nonneg False in auto)
    qed
  qed
qed

lemma write_frame:
  assumes "write_ready cfg w" and "cfg_no_buffer_all_partial_tx cfg"
    and "LWS_SEND_BUFFER_PRE_PADDING \<le> off" and "off + len \<le> length mem"
    and "write_opcode protocol = Some opc" and "protocol \<noteq> LWS_WRITE_HTTP"
    and "len \<noteq> 0 \<or> protocol \<in> {LWS_WRITE_CLOSE, LWS_WRITE_PING, LWS_WRITE_PONG}"
    and "mask_sane w opc"
  shows "\<exists>w' mem' r. libwebsocket_write cfg w mem off len protocol = Some (w', mem', r) \<and>
    (if send_fails w (length (next_frame w protocol opc (take len (drop off mem)))) then r = -1
     else trunc_ok w' \<and> out_stream w' = out_stream w @ next_frame w protocol opc (take len (drop off mem)) \<and>
       r = int (if protocol \<in> {LWS_WRITE_CLOSE, LWS_WRITE_PONG, LWS_WRITE_PING}
                then length (next_frame w protocol opc (take len (drop off mem))) else len))"
proof -
  let ?t = "\<lparr>tok_mem = mem, tok_off = off, tok_len = len, tok_own = False\<rparr>"
  let ?w = "w\<lparr>ws_clean_buffer := False\<rparr>" and ?p = "take len (drop off mem)"
  have R: "cfg_exts cfg = []" "ws_state w = WSI_STATE_ESTABLISHED" "ws_rev w = 13" "\<not> ws_inside_frame w"
    "ws_trunc w = None" "length (ws_nonce w) = 4" using assms(1) by (simp_all add: write_ready_def)
  have tok: "tok_ok ?t" using assms(3,4) by (simp add: tok_ok_def)
  note start = write_start [OF assms(1) assms(7,6), of mem off]
  have "\<exists>v t' pre dm t''. frame_header ?w ?t protocol = Some (Inr (t', pre, dm)) \<and>
      mask_payload ?w t' dm = Some (v, t'', True) \<and> ws_trunc v = None \<and> \<not> ws_clean_buffer v \<and>
      out_stream v = out_stream w \<and> (\<forall>n. send_fails v n = send_fails w n) \<and>
      pre \<le> tok_off t'' \<and> tok_off t'' + tok_len t'' \<le> length (tok_mem t'') \<and> 0 < tok_len t'' + pre \<and>
      tok_bytes (t''\<lparr>tok_off := tok_off t'' - pre, tok_len := tok_len t'' + pre\<rparr>)
        = next_frame w protocol opc ?p"
  proof (cases "ws_mode w = LWS_CONNMODE_WS_CLIENT")
    case False
    have rev: "ws_rev ?w = 13" and mode: "ws_mode ?w \<noteq> LWS_CONNMODE_WS_CLIENT" using R False by simp_all
    obtain t' pre where f: "frame_header ?w ?t protocol = Some (Inr (t', pre, None))"
      "pre \<le> tok_off t'" "tok_off t' + tok_len t' \<le> length (tok_mem t')" "0 < tok_len t' + pre"
      "tok_bytes (t'\<lparr>tok_off := tok_off t' - pre, tok_len := tok_len t' + pre\<rparr>)
         = ws_encode (first_byte protocol opc) None (with_reason ?w opc (tok_bytes ?t))"
      using frame_server [OF rev mode assms(5) tok] by metis
    have "mask_payload ?w t' None = Some (?w, t', True)" using False by (simp add: mask_payload_def)
    with f R False show ?thesis
      by (intro exI [of _ ?w] exI [of _ t'] exI [of _ pre] exI [of _ None])
         (simp add: next_frame_def out_stream_def trunc_bytes_def with_reason_def tok_bytes_def)
  next
    case True
    obtain key v where kv: "libwebsockets_get_random w 4 = (key, v)" by (cases "libwebsockets_get_random w 4")
    have key: "length key = 4" "opc = LWS_WS_OPCODE_07__CLOSE \<longrightarrow> ws_close_reason w = 0"
      using assms(8) True kv by (simp_all add: mask_sane_def)
    have kv': "libwebsockets_get_random ?w 4 = (key, v\<lparr>ws_clean_buffer := False\<rparr>)"
      using kv by (auto simp: libwebsockets_get_random_def split: list.splits)
    have nonce: "length (ws_nonce ?w) = 4" and fresh: "\<not> ws_inside_frame ?w"
      and rev: "ws_rev ?w = 13" and mode: "ws_mode ?w = LWS_CONNMODE_WS_CLIENT"
      and plain: "opc = LWS_WS_OPCODE_07__CLOSE \<longrightarrow> ws_close_reason ?w = 0"
      using R True key(2) by simp_all
    obtain t' pre where f: "frame_header ?w ?t protocol = Some (Inr (t', pre, Some (tok_off ?t - 4)))"
      and m: "\<exists>i t''. mask_payload ?w t' (Some (tok_off ?t - 4))
         = Some (v\<lparr>ws_clean_buffer := False, ws_nonce := key, ws_mask_index := i\<rparr>, t'', True) \<and>
       pre \<le> tok_off t'' \<and> tok_off t'' + tok_len t'' \<le> length (tok_mem t'') \<and> tok_own t'' = tok_own ?t \<and>
       0 < tok_len t'' + pre \<and>
       tok_bytes (t''\<lparr>tok_off := tok_off t'' - pre, tok_len := tok_len t'' + pre\<rparr>)
         = ws_encode (first_byte protocol opc) (Some key) (tok_bytes ?t)"
      by (rule frame_client [OF rev mode assms(5) tok plain fresh kv' key(1) nonce])
    from m obtain i t'' where m: "mask_payload ?w t' (Some (tok_off ?t - 4))
         = Some (v\<lparr>ws_clean_buffer := False, ws_nonce := key, ws_mask_index := i\<rparr>, t'', True)"
      "pre \<le> tok_off t''" "tok_off t'' + tok_len t'' \<le> length (tok_mem t'')" "0 < tok_len t'' + pre"
      "tok_bytes (t''\<lparr>tok_off := tok_off t'' - pre, tok_len := tok_len t'' + pre\<rparr>)
         = ws_encode (first_byte protocol opc) (Some key) (tok_bytes ?t)" by (elim exE conjE)
    from get_random_keeps [OF kv] R have v: "ws_trunc v = None" "out_stream v = out_stream w" "send_fails v n = send_fails w n" for n
      by (auto simp: out_stream_def trunc_bytes_def)
    show ?thesis
      by (intro exI conjI) (rule f, rule m(1), use m v True kv key in
        \<open>auto simp: next_frame_def out_stream_def trunc_bytes_def with_reason_def tok_bytes_def\<close>)
  qed
  then obtain v t' pre dm t'' where F: "frame_header ?w ?t protocol = Some (Inr (t', pre, dm))"
    "mask_payload ?w t' dm = Some (v, t'', True)" "ws_trunc v = None" "\<not> ws_clean_buffer v"
    "out_stream v = out_stream w" "\<forall>n. send_fails v n = send_fails w n"
    "pre \<le> tok_off t''" "tok_off t'' + tok_len t'' \<le> length (tok_mem t'')" "0 < tok_len t'' + pre"
    "tok_bytes (t''\<lparr>tok_off := tok_off t'' - pre, tok_len := tok_len t'' + pre\<rparr>)
        = next_frame w protocol opc ?p" by (elim exE conjE)
  obtain w' r where S: "send_raw cfg v t'' pre len protocol = Some (w', r)"
    "r = -1 \<or> 0 \<le> r \<and> trunc_ok w' \<and> out_stream w' = out_stream w @ next_frame w protocol opc ?p"
    "r = -1 \<longleftrightarrow> send_fails w (tok_len t'' + pre)"
    "r \<noteq> -1 \<Longrightarrow> protocol \<in> {LWS_WRITE_CLOSE, LWS_WRITE_HTTP, LWS_WRITE_PONG, LWS_WRITE_PING} \<Longrightarrow> r = int (tok_len t'' + pre)"
    "r \<noteq> -1 \<Longrightarrow> protocol \<notin> {LWS_WRITE_CLOSE, LWS_WRITE_HTTP, LWS_WRITE_PONG, LWS_WRITE_PING} \<Longrightarrow>
       r = int len \<and> \<not> ws_inside_frame w'"
    by (rule send_raw_frame [OF R(1) F(3,4,7-9), of len protocol, unfolded F(5,10) F(6) [rule_format]]) blast
  have len: "length (next_frame w protocol opc ?p) = tok_len t'' + pre"
    using arg_cong [OF F(10), of length] F(7,8) by (simp add: tok_bytes_def)
  have "libwebsocket_write cfg w mem off len protocol
      = Some (w', if tok_own t'' then mem else tok_mem t'', r)"
    unfolding start using F(1,2) S(1) assms(2) by (simp add: Let_def)
  with S(2-5) assms(6) show ?thesis unfolding len by auto
qed



text \<open>A connection to evaluate on.\<close>

definition new_wsi :: "connection_mode \<Rightarrow> unit wsi" where
  "new_wsi mode = \<lparr>ws_mode = mode, ws_state = WSI_STATE_ESTABLISHED, ws_rev = 13,
     ws_rx_state = LWS_RXPS_NEW, ws_rx_buf = replicate 42 0, ws_rx_head = 0, ws_nonce = [0, 0, 0, 0],
     ws_mask_index = 0, ws_packet_length = 0, ws_opcode = 0, ws_final = False, ws_rsv = 0,
     ws_binary = False, ws_zero_nonce = False, ws_close_reason = 0, ws_masked = False,
     ws_inside_frame = False, ws_clean_buffer = False, ws_rxflow_buffer = None, ws_rxflow_pos = 0,
     ws_rxflow_allow = True, ws_rxflow_pending = False, ws_trunc = None, ws_trunc_off = 0,
     ws_trunc_len = 0, ws_ext_pending = False, ws_pollin = True, ws_pollout = False, ws_ext_user = (),
     ws_sends = [], ws_polls = [], ws_randoms = [], ws_mallocs = [], ws_wire = [], ws_delivered = []\<rparr>"

definition new_cfg :: "bool \<Rightarrow> unit lws_cfg" where
  "new_cfg buffered = \<lparr>cfg_rx_buffer_size = 20, cfg_no_buffer_all_partial_tx = buffered, cfg_exts = [],
     cfg_callback = Some (\<lambda>w _ _. (0, w))\<rparr>"


section \<open>Draining a pending send\<close>

text \<open>Several \<open>POLLOUT\<close> events in a row.\<close>

fun pollouts :: "'x lws_cfg \<Rightarrow> nat \<Rightarrow> 'x wsi \<Rightarrow> 'x wsi option" where
  "pollouts cfg 0 w = Some w"
| "pollouts cfg (Suc n) w = do { (w, _) \<leftarrow> lws_handle_POLLOUT_event cfg w True; pollouts cfg n w }"

lemma pollout_pending:
  assumes exts: "cfg_exts cfg = []" and ok: "trunc_ok w" and pend: "ws_trunc w \<noteq> None"
    and sends: "ws_sends w = Send_accepts k # rs"
  obtains w' where "lws_handle_POLLOUT_event cfg w True = Some (w', 0)" "out_stream w' = out_stream w"
    "trunc_ok w'" "length (trunc_bytes w') = length (trunc_bytes w) - k" "ws_sends w' = rs"
proof -
  obtain w' r where "lws_issue_raw cfg w Pending = Some (w', r)" "out_stream w' = out_stream w" "trunc_ok w'"
    "ws_sends w' = tl (ws_sends w)" "length (trunc_bytes w') = length (trunc_bytes w) - k"
    using issue_pending [OF exts ok pend] sends by metis
  with that [of w'] pend sends show ?thesis by (simp add: lws_handle_POLLOUT_event_def)
qed

text \<open>C28: A truncated send is finished: while the socket takes at least one byte at each \<open>POLLOUT\<close>
  event, some number of events, at most the number of pending bytes, ends the pending send, and
  then exactly what had been issued is on the wire.\<close>

theorem pollouts_drain:
  assumes "cfg_exts cfg = []" and "trunc_ok w"
    and "ws_sends w = map Send_accepts ks @ rs" and "\<forall>k \<in> set ks. 0 < k"
    and "length (trunc_bytes w) \<le> length ks"
  shows "\<exists>n w'. n \<le> length (trunc_bytes w) \<and> pollouts cfg n w = Some w' \<and> ws_trunc w' = None \<and>
    ws_wire w' = out_stream w"
  using assms
proof (induction ks arbitrary: w)
  case Nil
  then have "ws_trunc w = None" using length_trunc_bytes [of w] by (auto simp: trunc_ok_def split: option.splits)
  then show ?case by (intro exI [of _ 0]) (simp add: out_stream_def trunc_bytes_def)
next
  case (Cons k ks)
  show ?case
  proof (cases "ws_trunc w = None")
    case True
    then show ?thesis by (intro exI [of _ 0]) (simp add: out_stream_def trunc_bytes_def)
  next
    case False
    from Cons.prems(3) have "ws_sends w = Send_accepts k # map Send_accepts ks @ rs" by simp
    from pollout_pending [OF Cons.prems(1,2) False this] obtain w' where
      w': "lws_handle_POLLOUT_event cfg w True = Some (w', 0)" "out_stream w' = out_stream w" "trunc_ok w'"
        "length (trunc_bytes w') = length (trunc_bytes w) - k" "ws_sends w' = map Send_accepts ks @ rs" by blast
    have pos: "0 < length (trunc_bytes w)" "0 < k"
      using False Cons.prems(2,4) length_trunc_bytes [OF Cons.prems(2) False] by (auto simp: trunc_ok_def)
    have "\<exists>n w''. n \<le> length (trunc_bytes w') \<and> pollouts cfg n w' = Some w'' \<and> ws_trunc w'' = None \<and>
        ws_wire w'' = out_stream w'"
      by (rule Cons.IH) (use Cons.prems w' pos in auto)
    then obtain n w'' where "n \<le> length (trunc_bytes w')" "pollouts cfg n w' = Some w''"
      "ws_trunc w'' = None" "ws_wire w'' = out_stream w'" by blast
    moreover from this(1) w'(4) pos have "Suc n \<le> length (trunc_bytes w)" by linarith
    ultimately show ?thesis using w' by (intro exI [of _ "Suc n"] exI [of _ w'']) simp
  qed
qed

definition pending_wsi :: "unit wsi" where
  "pending_wsi = (new_wsi LWS_CONNMODE_WS_SERVING)
     \<lparr>ws_trunc := Some [1, 2, 3], ws_trunc_off := 1, ws_trunc_len := 2,
      ws_sends := [Send_accepts 1, Send_accepts 5]\<rparr>"

theorem pollouts_drain_witness:
  "\<exists>n w'. n \<le> 2 \<and> pollouts (new_cfg True) n pending_wsi = Some w' \<and> ws_wire w' = [2, 3]"
proof -
  have e: "cfg_exts (new_cfg True) = []" by (simp add: new_cfg_def)
  have o: "trunc_ok pending_wsi" "ws_sends pending_wsi = map Send_accepts [1, 5] @ []"
    by (simp_all add: trunc_ok_def pending_wsi_def)
  have b: "trunc_bytes pending_wsi = [2, 3]" "out_stream pending_wsi = [2, 3]"
    by (simp_all add: trunc_bytes_def out_stream_def pending_wsi_def new_wsi_def)
  have "length (trunc_bytes pending_wsi) = 2" by (simp add: b(1))
  with pollouts_drain [OF e o] b(2) show ?thesis by (simp add: b(1) numeral_2_eq_2) blast
qed

section \<open>What goes wrong\<close>

text \<open>C39: Partial sends are lost without the protocol's flag: with the default setting, in which the
  caller is to resend what was not taken, a data message that the socket takes only in part is
  reported as sent in full; the rest is neither pending nor ever sent, and the next message's header
  follows in the middle of the frame.\<close>

theorem partial_send_lost:
  assumes "write_ready cfg w" and "\<not> cfg_no_buffer_all_partial_tx cfg"
    and "ws_mode w = LWS_CONNMODE_WS_SERVING"
    and "LWS_SEND_BUFFER_PRE_PADDING \<le> off" and "off + len \<le> length mem" and "0 < len"
    and "protocol = LWS_WRITE_TEXT \<or> protocol = LWS_WRITE_BINARY" and "write_opcode protocol = Some opc"
    and "ws_sends w = Send_accepts k # rs"
    and "k < length (next_frame w protocol opc (take len (drop off mem)))"
  shows "\<exists>w' mem'. libwebsocket_write cfg w mem off len protocol = Some (w', mem', int len) \<and>
    ws_wire w' = ws_wire w @ take k (next_frame w protocol opc (take len (drop off mem))) \<and>
    ws_trunc w' = None \<and> \<not> ws_inside_frame w'"
proof -
  let ?t = "\<lparr>tok_mem = mem, tok_off = off, tok_len = len, tok_own = False\<rparr>"
  let ?w = "w\<lparr>ws_clean_buffer := True\<rparr>"
  let ?d = "next_frame w protocol opc (take len (drop off mem))"
  have R: "cfg_exts cfg = []" "ws_rev ?w = 13" "ws_trunc w = None" "ws_mode ?w \<noteq> LWS_CONNMODE_WS_CLIENT"
    using assms(1,3) by (simp_all add: write_ready_def)
  have tok: "tok_ok ?t" using assms(4,5) by (simp add: tok_ok_def)
  have pr: "len \<noteq> 0 \<or> protocol \<in> {LWS_WRITE_CLOSE, LWS_WRITE_PING, LWS_WRITE_PONG}"
    "protocol \<noteq> LWS_WRITE_HTTP" "protocol \<notin> {LWS_WRITE_CLOSE, LWS_WRITE_HTTP, LWS_WRITE_PONG, LWS_WRITE_PING}"
    using assms(6,7) by auto
  note start = write_start [OF assms(1) pr(1,2), of mem off]
  obtain t' pre where f: "frame_header ?w ?t protocol = Some (Inr (t', pre, None))"
    "pre \<le> tok_off t'" "tok_off t' + tok_len t' \<le> length (tok_mem t')" "tok_own t' = tok_own ?t"
    "length (tok_mem t') = length (tok_mem ?t)" "0 < tok_len t' + pre"
    "tok_bytes (t'\<lparr>tok_off := tok_off t' - pre, tok_len := tok_len t' + pre\<rparr>)
       = ws_encode (first_byte protocol opc) None (with_reason ?w opc (tok_bytes ?t))"
    by (rule frame_server [OF R(2,4) assms(8) tok])
  let ?g = "t'\<lparr>tok_off := tok_off t' - pre, tok_len := tok_len t' + pre, tok_own := False\<rparr>"
  have g: "tok_bytes ?g = ?d" using f(7) assms(3)
    by (simp add: tok_bytes_def next_frame_def with_reason_def)
  have len: "length ?d = tok_len ?g" using f(2,3) unfolding g [symmetric] by (simp add: tok_bytes_def)
  let ?v = "?w\<lparr>ws_inside_frame := True, ws_sends := rs, ws_wire := ws_wire w @ take k ?d\<rparr>"
  have upd: "v\<lparr>ws_ext_user := ws_ext_user v\<rparr> = v" for v :: "'a wsi" by simp
  have gb: "tok_bytes (?g\<lparr>tok_len := tok_len ?g\<rparr>) = ?d" using g by (simp add: tok_bytes_def)
  have raw: "lws_issue_raw cfg (?w\<lparr>ws_inside_frame := True\<rparr>) (Buffer ?g) = Some (?v, int k)"
    unfolding lws_issue_raw_def raw_tokens_def raw_source.case Let_def R(1) exts_send.simps prod.case upd gb
    using R(3) assms(9,10)
    by (simp add: env_send_def Let_def handle_truncated_send_def)
  have "lws_issue_raw_ext_access cfg (?w\<lparr>ws_inside_frame := True\<rparr>) ?g = Some (?v, int (tok_len ?g))"
    unfolding lws_issue_raw_ext_access_def
    by (subst ext_access_loop.simps) (use R(1) raw f(6) in \<open>simp add: Let_def\<close>)
  then have "send_raw cfg ?w t' pre len protocol = Some (?v\<lparr>ws_inside_frame := False\<rparr>, int len)"
    using pr(3) f(2) by (simp add: send_raw_def Let_def)
  moreover have "mask_payload ?w t' None = Some (?w, t', True)" using R(4) by (simp add: mask_payload_def)
  ultimately show ?thesis unfolding start using f(1) assms(2) R(3) by (simp add: Let_def)
qed

theorem partial_send_lost_witness:
  "\<exists>w' mem'. libwebsocket_write (new_cfg False)
      ((new_wsi LWS_CONNMODE_WS_SERVING)\<lparr>ws_sends := [Send_accepts 4]\<rparr>) (replicate 40 7) 18 3
      LWS_WRITE_TEXT = Some (w', mem', 3) \<and> ws_wire w' = [0x81, 3, 7, 7] \<and> ws_trunc w' = None"
proof -
  let ?w = "(new_wsi LWS_CONNMODE_WS_SERVING)\<lparr>ws_sends := [Send_accepts 4]\<rparr>"
  have ready: "write_ready (new_cfg False) ?w" "\<not> cfg_no_buffer_all_partial_tx (new_cfg False)"
    "ws_mode ?w = LWS_CONNMODE_WS_SERVING" "ws_sends ?w = Send_accepts 4 # []"
    by (simp_all add: write_ready_def new_wsi_def new_cfg_def)
  have opc: "write_opcode LWS_WRITE_TEXT = Some LWS_WS_OPCODE_07__TEXT_FRAME" by code_simp
  have frame: "next_frame ?w LWS_WRITE_TEXT LWS_WS_OPCODE_07__TEXT_FRAME
      (take 3 (drop 18 (replicate 40 7))) = [0x81, 3, 7, 7, 7]" "ws_wire ?w = []" by code_simp+
  have part: "4 < length (next_frame ?w LWS_WRITE_TEXT LWS_WS_OPCODE_07__TEXT_FRAME
      (take 3 (drop 18 (replicate 40 7))))" unfolding frame by simp
  have "\<exists>w' mem'. libwebsocket_write (new_cfg False) ?w (replicate 40 7) 18 3 LWS_WRITE_TEXT
      = Some (w', mem', int 3) \<and>
    ws_wire w' = ws_wire ?w @ take 4 (next_frame ?w LWS_WRITE_TEXT LWS_WS_OPCODE_07__TEXT_FRAME
      (take 3 (drop 18 (replicate 40 7)))) \<and> ws_trunc w' = None \<and> \<not> ws_inside_frame w'"
    by (rule partial_send_lost [OF ready(1-3) _ _ _ _ opc ready(4) part]) simp_all
  then show ?thesis unfolding frame by auto
qed


text \<open>
  A client's close frame with a reason is malformed: the mask position is taken before the two bytes
  of the reason are put in front of the payload, so the nonce lands on the reason, the key field
  keeps what the buffer held, and the last two bytes masked lie behind the payload.
\<close>

lemma client_close_reason_malformed:
  "map_option (\<lambda>(w, mem, r). (ws_wire w, r))
     (libwebsocket_write (new_cfg True)
       ((new_wsi LWS_CONNMODE_WS_CLIENT)\<lparr>ws_sends := [Send_accepts 99], ws_close_reason := 1000,
          ws_randoms := [[0xa1, 0xa2, 0xa3, 0xa4]]\<rparr>) (replicate 40 0x55) 18 0 LWS_WRITE_CLOSE)
   = Some ([0x88, 0x82, 0x55, 0x55, 0xa1, 0xa2, 0xa3, 0xa4], 8)"
  by code_simp

text \<open>Sending anything while a truncated send is pending runs into the assertion, so does the answer
  to a ping.\<close>

lemma write_while_pending:
  assumes "ws_trunc w \<noteq> None" and "pre \<le> tok_off t"
    and "protocol \<in> {LWS_WRITE_CLOSE, LWS_WRITE_HTTP, LWS_WRITE_PONG, LWS_WRITE_PING}"
  shows "send_raw cfg w t pre n protocol = None"
  using assms by (simp add: send_raw_def lws_issue_raw_def Let_def)

section \<open>The output stream as an interface\<close>

text \<open>
  What a writer needs to know of a transmit path: emitting a message appends its bytes to the
  stream, and a flush leaves the stream alone. Any interleaving of messages and flushes then puts
  the messages' bytes into the stream, in order and each once.
\<close>

datatype 'm stream_op = Emit 'm | Flush

fun run_ops :: "('s \<Rightarrow> bool) \<Rightarrow> ('s \<Rightarrow> 'm \<Rightarrow> 's option) \<Rightarrow> ('s \<Rightarrow> 's option) \<Rightarrow> 's
    \<Rightarrow> 'm stream_op list \<Rightarrow> 's option" where
  "run_ops can_emit emit flush s [] = Some s"
| "run_ops can_emit emit flush s (Emit m # ops) =
     (if can_emit s then Option.bind (emit s m) (\<lambda>s. run_ops can_emit emit flush s ops) else None)"
| "run_ops can_emit emit flush s (Flush # ops) =
     Option.bind (flush s) (\<lambda>s. run_ops can_emit emit flush s ops)"

fun emitted :: "('m \<Rightarrow> bytes) \<Rightarrow> 'm stream_op list \<Rightarrow> bytes" where
  "emitted bytes_of [] = []"
| "emitted bytes_of (Emit m # ops) = bytes_of m @ emitted bytes_of ops"
| "emitted bytes_of (Flush # ops) = emitted bytes_of ops"

locale byte_stream =
  fixes stream :: "'s \<Rightarrow> bytes" and ready :: "'s \<Rightarrow> bool" and can_emit :: "'s \<Rightarrow> bool"
    and emit :: "'s \<Rightarrow> 'm \<Rightarrow> 's option" and flush :: "'s \<Rightarrow> 's option" and bytes_of :: "'m \<Rightarrow> bytes"
  assumes emit_appends:
    "ready s \<Longrightarrow> can_emit s \<Longrightarrow> emit s m = Some s' \<Longrightarrow> ready s' \<and> stream s' = stream s @ bytes_of m"
    and flush_keeps: "ready s \<Longrightarrow> flush s = Some s' \<Longrightarrow> ready s' \<and> stream s' = stream s"
begin

lemma run_ops_stream:
  "ready s \<Longrightarrow> run_ops can_emit emit flush s ops = Some s' \<Longrightarrow>
   ready s' \<and> stream s' = stream s @ emitted bytes_of ops"
proof (induction ops arbitrary: s)
  case (Cons op ops)
  then show ?case
    by (cases op) (auto split: if_splits Option.bind_splits dest: emit_appends flush_keeps)
qed simp

end

text \<open>What the transmit path leaves alone.\<close>

definition same_conn :: "'x wsi \<Rightarrow> 'x wsi \<Rightarrow> bool" where
  "same_conn w v \<longleftrightarrow> ws_mode v = ws_mode w \<and> ws_state v = ws_state w \<and> ws_rev v = ws_rev w \<and>
     ws_close_reason v = ws_close_reason w \<and> ws_nonce v = ws_nonce w \<and> ws_rx_buf v = ws_rx_buf w \<and>
     ws_rx_head v = ws_rx_head w \<and> ws_delivered v = ws_delivered w \<and> ws_rx_state v = ws_rx_state w"

lemma same_conn_refl [simp]: "same_conn w w"
  by (simp add: same_conn_def)

lemma same_conn_trans: "same_conn a b \<Longrightarrow> same_conn b c \<Longrightarrow> same_conn a c"
  by (simp add: same_conn_def)

lemma same_conn_handle:
  "cfg_exts cfg = [] \<Longrightarrow> handle_truncated_send cfg w d n = Some (w', r) \<Longrightarrow>
   same_conn w w' \<and> ws_inside_frame w' = ws_inside_frame w"
  by (auto simp: handle_truncated_send_def env_malloc_def callback_on_writable_none same_conn_def Let_def
      split: if_splits list.splits)

lemma same_conn_send: "env_send w d = (s, w') \<Longrightarrow> same_conn w w' \<and> ws_inside_frame w' = ws_inside_frame w"
  by (auto simp: env_send_def same_conn_def Let_def split: list.splits send_result.splits)

lemma same_conn_issue:
  assumes "cfg_exts cfg = []" and "lws_issue_raw cfg w src = Some (w', r)"
  shows "same_conn w w' \<and> ws_inside_frame w' = ws_inside_frame w"
proof -
  have upd: "v\<lparr>ws_ext_user := ws_ext_user v\<rparr> = v" for v :: "'a wsi" by simp
  obtain s v where s: "env_send w (tok_bytes (raw_tokens w src\<lparr>tok_len := tok_len (raw_tokens w src)\<rparr>)) = (s, v)"
    by (cases "env_send w (tok_bytes (raw_tokens w src\<lparr>tok_len := tok_len (raw_tokens w src)\<rparr>))")
  from assms(2) have "s = Send_error \<and> w' = v \<or> (\<exists>d n. handle_truncated_send cfg v d n = Some (w', r))"
    unfolding lws_issue_raw_def Let_def assms(1) exts_send.simps prod.case upd s
    by (auto split: if_splits send_result.splits)
  with same_conn_send [OF s] same_conn_handle [OF assms(1)] show ?thesis
    by (metis same_conn_trans)
qed

lemma same_conn_send_raw:
  assumes cfg: "cfg_exts cfg = []" and run: "send_raw cfg w t pre n protocol = Some (w', r)"
  shows "same_conn w w'"
proof -
  have *: "same_conn w (w'\<lparr>ws_inside_frame := b\<rparr>)" if "same_conn (w\<lparr>ws_inside_frame := a\<rparr>) w'" for a b w'
    using that by (simp add: same_conn_def)
  have loop: "same_conn v v'" if "lws_issue_raw_ext_access cfg v u = Some (v', k)" "\<not> tok_own u" for v v' u k
    using that cfg unfolding lws_issue_raw_ext_access_def
    by (subst (asm) ext_access_loop.simps)
       (auto simp: Let_def split: if_splits Option.bind_splits dest!: same_conn_issue [OF cfg])
  show ?thesis using run
    by (auto simp: send_raw_def Let_def split: if_splits Option.bind_splits
        dest!: loop same_conn_issue [OF cfg] intro: * simp: same_conn_def)
qed

section \<open>The server's writer\<close>

definition server_ready :: "'x lws_cfg \<Rightarrow> 'x wsi \<Rightarrow> bool" where
  "server_ready cfg w \<longleftrightarrow> cfg_exts cfg = [] \<and> cfg_no_buffer_all_partial_tx cfg \<and>
     ws_state w = WSI_STATE_ESTABLISHED \<and> ws_rev w = 13 \<and> ws_mode w = LWS_CONNMODE_WS_SERVING \<and>
     ws_close_reason w = 0 \<and> \<not> ws_inside_frame w \<and> length (ws_nonce w) = 4 \<and> trunc_ok w"

text \<open>A message is a write protocol and a payload; the payload is put into a padded buffer.\<close>

definition ws_emit :: "'x lws_cfg \<Rightarrow> 'x wsi \<Rightarrow> u8 \<times> bytes \<Rightarrow> 'x wsi option" where
  "ws_emit cfg w m =
     (case m of (protocol, p) \<Rightarrow>
        if protocol = LWS_WRITE_HTTP \<or> p = [] then None
        else do {
          (w', _, r) \<leftarrow> libwebsocket_write cfg w
             (replicate LWS_SEND_BUFFER_PRE_PADDING 0 @ p @ replicate LWS_SEND_BUFFER_POST_PADDING 0)
             LWS_SEND_BUFFER_PRE_PADDING (length p) protocol;
          if r < 0 then None else Some w' })"

definition ws_flush :: "'x lws_cfg \<Rightarrow> 'x wsi \<Rightarrow> 'x wsi option" where
  "ws_flush cfg w = (if ws_trunc w = None then Some w
     else map_option fst (lws_handle_POLLOUT_event cfg w True))"

definition message_bytes :: "u8 \<times> bytes \<Rightarrow> bytes" where
  "message_bytes m = (case m of (protocol, p) \<Rightarrow>
     case write_opcode protocol of None \<Rightarrow> [] | Some opc \<Rightarrow> ws_encode (first_byte protocol opc) None p)"


lemma send_raw_control:
  assumes "cfg_exts cfg = []" and "protocol \<in> {LWS_WRITE_CLOSE, LWS_WRITE_HTTP, LWS_WRITE_PONG, LWS_WRITE_PING}"
    and "send_raw cfg w t pre n protocol = Some (w', r)"
  shows "ws_inside_frame w' = ws_inside_frame w"
  using assms same_conn_issue [OF assms(1)] by (auto simp: send_raw_def Let_def split: if_splits)

lemma server_write:
  assumes ready: "server_ready cfg w" and idle: "ws_trunc w = None"
    and p: "LWS_SEND_BUFFER_PRE_PADDING \<le> off" "off + len \<le> length mem" "0 < len \<or> protocol \<in> {LWS_WRITE_CLOSE, LWS_WRITE_PING, LWS_WRITE_PONG}"
    and opc: "write_opcode protocol = Some opc" and http: "protocol \<noteq> LWS_WRITE_HTTP"
  obtains w' mem' r where "libwebsocket_write cfg w mem off len protocol = Some (w', mem', r)"
    "r = -1 \<or> 0 \<le> r \<and> server_ready cfg w' \<and> out_stream w' = out_stream w @
       ws_encode (first_byte protocol opc) None (take len (drop off mem))"
    "r = -1 \<longleftrightarrow> send_fails w (length (ws_encode (first_byte protocol opc) None (take len (drop off mem))))"
    "same_conn w w'" "length mem' = length mem"
proof -
  have R: "cfg_exts cfg = []" "cfg_no_buffer_all_partial_tx cfg" "ws_rev (w\<lparr>ws_clean_buffer := False\<rparr>) = 13"
    "ws_mode (w\<lparr>ws_clean_buffer := False\<rparr>) \<noteq> LWS_CONNMODE_WS_CLIENT" "write_ready cfg w"
    using ready idle by (simp_all add: server_ready_def write_ready_def)
  let ?t = "\<lparr>tok_mem = mem, tok_off = off, tok_len = len, tok_own = False\<rparr>"
  let ?w = "w\<lparr>ws_clean_buffer := False\<rparr>"
  have tok: "tok_ok ?t" using p by (simp add: tok_ok_def)
  have l: "len \<noteq> 0 \<or> protocol \<in> {LWS_WRITE_CLOSE, LWS_WRITE_PING, LWS_WRITE_PONG}" using p(3) by auto
  note start = write_start [OF R(5) l http, of mem off]
  obtain t' pre where f: "frame_header ?w ?t protocol = Some (Inr (t', pre, None))"
    "pre \<le> tok_off t'" "tok_off t' + tok_len t' \<le> length (tok_mem t')" "tok_own t' = tok_own ?t"
    "length (tok_mem t') = length (tok_mem ?t)" "0 < tok_len t' + pre"
    "tok_bytes (t'\<lparr>tok_off := tok_off t' - pre, tok_len := tok_len t' + pre\<rparr>)
       = ws_encode (first_byte protocol opc) None (with_reason ?w opc (tok_bytes ?t))"
    by (rule frame_server [OF R(3,4) opc tok])
  have frame: "ws_encode (first_byte protocol opc) None (with_reason ?w opc (tok_bytes ?t))
      = ws_encode (first_byte protocol opc) None (take len (drop off mem))"
    using ready by (simp add: with_reason_def tok_bytes_def server_ready_def)
  have wi: "ws_trunc ?w = None" "\<not> ws_clean_buffer ?w" using idle by simp_all
  obtain w' r where S: "send_raw cfg ?w t' pre len protocol = Some (w', r)"
    "r = -1 \<or> 0 \<le> r \<and> trunc_ok w' \<and> out_stream w' = out_stream ?w @
       ws_encode (first_byte protocol opc) None (take len (drop off mem))"
    "r = -1 \<longleftrightarrow> send_fails ?w (tok_len t' + pre)"
    "r \<noteq> -1 \<Longrightarrow> protocol \<notin> {LWS_WRITE_CLOSE, LWS_WRITE_HTTP, LWS_WRITE_PONG, LWS_WRITE_PING} \<Longrightarrow>
       r = int len \<and> \<not> ws_inside_frame w'"
    by (rule send_raw_frame [OF R(1) wi f(2,3,6), of len protocol, unfolded f(7) frame]) blast
  have "length (ws_encode (first_byte protocol opc) None (take len (drop off mem))) = tok_len t' + pre"
    using arg_cong [OF f(7), of length] f(2,3) unfolding frame by (simp add: tok_bytes_def)
  then have fails: "r = -1 \<longleftrightarrow> send_fails w (length (ws_encode (first_byte protocol opc) None (take len (drop off mem))))"
    using S(3) by simp
  have same: "same_conn w w'" using same_conn_send_raw [OF R(1) S(1)] by (simp add: same_conn_def)
  have inside: "\<not> ws_inside_frame w'" if "r \<noteq> -1"
  proof (cases "protocol \<in> {LWS_WRITE_CLOSE, LWS_WRITE_HTTP, LWS_WRITE_PONG, LWS_WRITE_PING}")
    case True
    from send_raw_control [OF R(1) True S(1)] ready show ?thesis by (simp add: server_ready_def)
  next
    case False
    with S(4) that show ?thesis by simp
  qed
  have "mask_payload ?w t' None = Some (?w, t', True)" using R(4) by (simp add: mask_payload_def)
  then have run: "libwebsocket_write cfg w mem off len protocol
      = Some (w', if tok_own t' then mem else tok_mem t', r)"
    unfolding start using f(1) R(2) S(1) by (simp add: Let_def)
  show ?thesis using that [OF run _ fails same] f(5) S(2) inside ready same
    by (auto simp: server_ready_def same_conn_def)
qed

lemma ws_emit_appends:
  assumes "server_ready cfg w" and "ws_trunc w = None" and "ws_emit cfg w m = Some w'"
  shows "server_ready cfg w' \<and> out_stream w' = out_stream w @ message_bytes m"
proof -
  obtain protocol p where m: "m = (protocol, p)" by (cases m)
  let ?mem = "replicate LWS_SEND_BUFFER_PRE_PADDING 0 @ p @ replicate LWS_SEND_BUFFER_POST_PADDING 0"
  from assms(3) m have http: "protocol \<noteq> LWS_WRITE_HTTP" and p: "p \<noteq> []"
    by (auto simp: ws_emit_def split: if_splits)
  show ?thesis
  proof (cases "write_opcode protocol")
    case None
    have "libwebsocket_write cfg w ?mem 18 (length p) protocol
        = Some (w\<lparr>ws_clean_buffer := \<not> cfg_no_buffer_all_partial_tx cfg\<rparr>, ?mem, -1)"
      using write_start [of cfg w "length p" protocol ?mem 18] assms(1,2) None http p
      by (simp add: server_ready_def write_ready_def frame_header_def)
    then show ?thesis using assms(3) m http p by (simp add: ws_emit_def)
  next
    case (Some opc)
    obtain v mem' r where W: "libwebsocket_write cfg w ?mem 18 (length p) protocol = Some (v, mem', r)"
      "r = -1 \<or> 0 \<le> r \<and> server_ready cfg v \<and> out_stream v = out_stream w @
         ws_encode (first_byte protocol opc) None (take (length p) (drop 18 ?mem))"
      by (rule server_write [OF assms(1,2) _ _ _ Some http, of 18 "length p" ?mem]) (use p in \<open>simp_all, blast?\<close>)
    with assms(3) m http p Some show ?thesis
      by (auto simp: ws_emit_def message_bytes_def split: if_splits)
  qed
qed

lemma ws_flush_keeps:
  assumes "server_ready cfg w" and "ws_flush cfg w = Some w'"
  shows "server_ready cfg w' \<and> out_stream w' = out_stream w"
proof (cases "ws_trunc w = None")
  case True
  with assms show ?thesis by (simp add: ws_flush_def)
next
  case False
  have R: "cfg_exts cfg = []" "trunc_ok w" using assms(1) by (simp_all add: server_ready_def)
  obtain v r where i: "lws_issue_raw cfg w Pending = Some (v, r)" "out_stream v = out_stream w" "trunc_ok v"
    using issue_pending [OF R False] by metis
  with False assms(2) have "v = w'" by (auto simp: ws_flush_def lws_handle_POLLOUT_event_def)
  with i same_conn_issue [OF R(1) i(1)] assms(1) show ?thesis
    by (simp add: server_ready_def same_conn_def)
qed

interpretation tx: byte_stream out_stream "server_ready cfg" "\<lambda>w. ws_trunc w = None" "ws_emit cfg"
    "ws_flush cfg" message_bytes for cfg
  by unfold_locales (use ws_emit_appends ws_flush_keeps in blast)+



end
