(* ===== verification/Ws_Rx.thy ===== *)
theory Ws_Rx
  imports Output
begin

text \<open>
  The receive path: the frame parser of a server connection (\<open>libwebsocket_rx_sm\<close> and
  \<open>libwebsocket_interpret_incoming_packet\<close> of \<open>lib/parsers.c\<close>, with the receive flow control of
  \<open>lib/libwebsockets.c\<close>) and that of a client connection (\<open>libwebsocket_client_rx_sm\<close> of
  \<open>lib/client-parser.c\<close>), one byte per call. A result of \<open>None\<close> is an access outside the receive
  buffer or the nonce, a missing callback that the code calls, or a failing assertion of the send path.
\<close>

section \<open>Steps the two parsers share\<close>

text \<open>The first byte of a frame.\<close>

definition rx_first :: "'x wsi \<Rightarrow> u8 \<Rightarrow> 'x wsi" where
  "rx_first w c =
     (let opc = c AND 0x0f in
      w\<lparr>ws_opcode := opc, ws_rsv := c AND 0x70, ws_final := bit c 7,
        ws_binary := (if opc = LWS_WS_OPCODE_07__TEXT_FRAME \<or> opc = LWS_WS_OPCODE_07__BINARY_FRAME
                      then opc = LWS_WS_OPCODE_07__BINARY_FRAME else ws_binary w),
        ws_rx_state := LWS_RXPS_04_FRAME_HDR_LEN\<rparr>)"

text \<open>A byte of an extended length, shifted into its place (64 bit \<open>size_t\<close>).\<close>

definition rx_len_or :: "'x wsi \<Rightarrow> u8 \<Rightarrow> nat \<Rightarrow> lws_rx_parse_state \<Rightarrow> 'x wsi" where
  "rx_len_or w c shift st =
     w\<lparr>ws_packet_length := ws_packet_length w OR push_bit shift (ucast c), ws_rx_state := st\<rparr>"

definition rx_nonce :: "'x wsi \<Rightarrow> nat \<Rightarrow> u8 \<Rightarrow> lws_rx_parse_state \<Rightarrow> 'x wsi option" where
  "rx_nonce w i c st = do {
     n \<leftarrow> aset (ws_nonce w) i c;
     Some (w\<lparr>ws_nonce := n, ws_zero_nonce := (ws_zero_nonce w \<and> c = 0), ws_rx_state := st\<rparr>) }"

text \<open>One payload byte into the receive buffer, unmasked unless the flag says plain.\<close>

definition rx_store :: "'x wsi \<Rightarrow> bool \<Rightarrow> u8 \<Rightarrow> 'x wsi option" where
  "rx_store w plain c = do {
     (b, w) \<leftarrow> (if plain then Some (c, w)
                else do {
                  m \<leftarrow> aget (ws_nonce w) (unat (ws_mask_index w AND 3));
                  Some (c XOR m, w\<lparr>ws_mask_index := ws_mask_index w + 1\<rparr>) });
     buf \<leftarrow> aset (ws_rx_buf w) (LWS_SEND_BUFFER_PRE_PADDING + ws_rx_head w) b;
     Some (w\<lparr>ws_rx_buf := buf, ws_rx_head := ws_rx_head w + 1\<rparr>) }"

definition rx_tokens :: "'x wsi \<Rightarrow> tokens" where
  "rx_tokens w = \<lparr>tok_mem = ws_rx_buf w, tok_off = LWS_SEND_BUFFER_PRE_PADDING,
     tok_len = ws_rx_head w, tok_own = False\<rparr>"

text \<open>\<open>libwebsocket_write\<close> of what the receive buffer holds.\<close>

definition rx_parrot :: "'x lws_cfg \<Rightarrow> 'x wsi \<Rightarrow> u8 \<Rightarrow> 'x ws_result" where
  "rx_parrot cfg w protocol = do {
     (w', buf, n) \<leftarrow> libwebsocket_write cfg w (ws_rx_buf w) LWS_SEND_BUFFER_PRE_PADDING (ws_rx_head w) protocol;
     Some (w'\<lparr>ws_rx_buf := buf\<rparr>, n) }"

text \<open>The payload after the extensions, with the terminator written behind it.\<close>

definition rx_terminate :: "'x wsi \<Rightarrow> tokens \<Rightarrow> ('x wsi \<times> bytes) option" where
  "rx_terminate w t = do {
     mem \<leftarrow> aset (tok_mem t) (tok_off t + tok_len t) 0;
     Some (if tok_own t then w else w\<lparr>ws_rx_buf := mem\<rparr>, tok_bytes t) }"

section \<open>The server's parser\<close>

text \<open>Label \<open>spill\<close>: control frames are answered here, data goes to the extensions and the user.\<close>

definition rx_spill :: "'x lws_cfg \<Rightarrow> 'x wsi \<Rightarrow> 'x ws_result" where
  "rx_spill cfg w =
     (let opc = ws_opcode w in
      if opc = LWS_WS_OPCODE_07__CLOSE then
        (if ws_state w = WSI_STATE_AWAITING_CLOSE_ACK then Some (w, -1)
         else do {
           (w, n) \<leftarrow> rx_parrot cfg w LWS_WRITE_CLOSE;
           Some (w\<lparr>ws_state := WSI_STATE_RETURNED_CLOSE_ALREADY\<rparr>, -1) })
      else if opc = LWS_WS_OPCODE_07__PING then do {
        (w, n) \<leftarrow> rx_parrot cfg w LWS_WRITE_PONG;
        if n < 0 then Some (w, -1) else Some (w\<lparr>ws_rx_head := 0\<rparr>, 0) }
      else if opc = LWS_WS_OPCODE_07__PONG then Some (w\<lparr>ws_rx_head := 0\<rparr>, 0)
      else if opc \<notin> {LWS_WS_OPCODE_07__TEXT_FRAME, LWS_WS_OPCODE_07__BINARY_FRAME,
                     LWS_WS_OPCODE_07__CONTINUATION} then
        (case exts_any (cfg_exts cfg) LWS_EXT_CALLBACK_EXTENDED_PAYLOAD_RX (ws_ext_user w)
                (rx_tokens w) False of
           (_, x, _) \<Rightarrow> Some (w\<lparr>ws_ext_user := x, ws_rx_head := 0\<rparr>, 0))
      else case exts_show (cfg_exts cfg) LWS_EXT_CALLBACK_PAYLOAD_RX (ws_ext_user w) (rx_tokens w) False of
        (t, x, _, fatal) \<Rightarrow>
          let w = w\<lparr>ws_ext_user := x\<rparr> in
          if fatal then Some (w, -1)
          else do {
            (w, r) \<leftarrow>
              (if tok_len t > 0 then do {
                 (w, d) \<leftarrow> rx_terminate w t;
                 (case cfg_callback cfg of
                    None \<Rightarrow> Some (w, 0)
                  | Some cb \<Rightarrow>
                      (case user_callback_handle_rxflow cfg cb w LWS_CALLBACK_RECEIVE d of
                         (n, w) \<Rightarrow> Some (w, n))) }
               else Some (w, 0));
            Some (w\<lparr>ws_rx_head := 0\<rparr>, r) })"

definition rx_payload :: "'x lws_cfg \<Rightarrow> 'x wsi \<Rightarrow> u8 \<Rightarrow> 'x ws_result" where
  "rx_payload cfg w c = do {
     w \<leftarrow> rx_store w (ws_zero_nonce w) c;
     let w = w\<lparr>ws_packet_length := ws_packet_length w - 1\<rparr>;
     if ws_packet_length w = 0 then rx_spill cfg (w\<lparr>ws_rx_state := LWS_RXPS_NEW\<rparr>)
     else if ws_rx_head w \<noteq> rx_size cfg then Some (w, 0)
     else rx_spill cfg w }"

definition rx_length :: "'x lws_cfg \<Rightarrow> 'x wsi \<Rightarrow> u8 \<Rightarrow> 'x ws_result" where
  "rx_length cfg w c =
     (let w = w\<lparr>ws_masked := bit c 7\<rparr>; l = c AND 0x7f in
      if l = 126 then
        (if ws_opcode w AND 8 \<noteq> 0 then Some (w, -1)
         else Some (w\<lparr>ws_rx_state := LWS_RXPS_04_FRAME_HDR_LEN16_2\<rparr>, 0))
      else if l = 127 then
        (if ws_opcode w AND 8 \<noteq> 0 then Some (w, -1)
         else Some (w\<lparr>ws_rx_state := LWS_RXPS_04_FRAME_HDR_LEN64_8\<rparr>, 0))
      else let w = w\<lparr>ws_packet_length := ucast l\<rparr> in
        if ws_masked w then Some (w\<lparr>ws_rx_state := LWS_RXPS_07_COLLECT_FRAME_KEY_1\<rparr>, 0)
        else if ws_packet_length w \<noteq> 0
          then Some (w\<lparr>ws_rx_state := LWS_RXPS_PAYLOAD_UNTIL_LENGTH_EXHAUSTED\<rparr>, 0)
        else rx_spill cfg (w\<lparr>ws_rx_state := LWS_RXPS_NEW\<rparr>))"

definition rx_after_len :: "'x wsi \<Rightarrow> lws_rx_parse_state" where
  "rx_after_len w = (if ws_masked w then LWS_RXPS_07_COLLECT_FRAME_KEY_1
     else LWS_RXPS_PAYLOAD_UNTIL_LENGTH_EXHAUSTED)"

definition libwebsocket_rx_sm :: "'x lws_cfg \<Rightarrow> 'x wsi \<Rightarrow> u8 \<Rightarrow> 'x ws_result" where
  "libwebsocket_rx_sm cfg w c =
     (case ws_rx_state w of
        LWS_RXPS_NEW \<Rightarrow>
          (if ws_rev w = 13 then Some (rx_first (w\<lparr>ws_zero_nonce := True\<rparr>) c, 0) else Some (w, 0))
      | LWS_RXPS_04_MASK_NONCE_1 \<Rightarrow>
          map_option (\<lambda>w. (w, 0)) (rx_nonce w 1 c LWS_RXPS_04_MASK_NONCE_2)
      | LWS_RXPS_04_MASK_NONCE_2 \<Rightarrow>
          map_option (\<lambda>w. (w, 0)) (rx_nonce w 2 c LWS_RXPS_04_MASK_NONCE_3)
      | LWS_RXPS_04_MASK_NONCE_3 \<Rightarrow>
          map_option (\<lambda>w. (w\<lparr>ws_mask_index := 0\<rparr>, 0)) (rx_nonce w 3 c LWS_RXPS_04_FRAME_HDR_1)
      | LWS_RXPS_04_FRAME_HDR_1 \<Rightarrow> Some (rx_first w c, 0)
      | LWS_RXPS_04_FRAME_HDR_LEN \<Rightarrow> rx_length cfg w c
      | LWS_RXPS_04_FRAME_HDR_LEN16_2 \<Rightarrow>
          Some (w\<lparr>ws_packet_length := push_bit 8 (ucast c), ws_rx_state := LWS_RXPS_04_FRAME_HDR_LEN16_1\<rparr>, 0)
      | LWS_RXPS_04_FRAME_HDR_LEN16_1 \<Rightarrow> Some (rx_len_or w c 0 (rx_after_len w), 0)
      | LWS_RXPS_04_FRAME_HDR_LEN64_8 \<Rightarrow>
          (if bit c 7 then Some (w, -1)
           else Some (w\<lparr>ws_packet_length := push_bit 56 (ucast c),
                        ws_rx_state := LWS_RXPS_04_FRAME_HDR_LEN64_7\<rparr>, 0))
      | LWS_RXPS_04_FRAME_HDR_LEN64_7 \<Rightarrow> Some (rx_len_or w c 48 LWS_RXPS_04_FRAME_HDR_LEN64_6, 0)
      | LWS_RXPS_04_FRAME_HDR_LEN64_6 \<Rightarrow> Some (rx_len_or w c 40 LWS_RXPS_04_FRAME_HDR_LEN64_5, 0)
      | LWS_RXPS_04_FRAME_HDR_LEN64_5 \<Rightarrow> Some (rx_len_or w c 32 LWS_RXPS_04_FRAME_HDR_LEN64_4, 0)
      | LWS_RXPS_04_FRAME_HDR_LEN64_4 \<Rightarrow> Some (rx_len_or w c 24 LWS_RXPS_04_FRAME_HDR_LEN64_3, 0)
      | LWS_RXPS_04_FRAME_HDR_LEN64_3 \<Rightarrow> Some (rx_len_or w c 16 LWS_RXPS_04_FRAME_HDR_LEN64_2, 0)
      | LWS_RXPS_04_FRAME_HDR_LEN64_2 \<Rightarrow> Some (rx_len_or w c 8 LWS_RXPS_04_FRAME_HDR_LEN64_1, 0)
      | LWS_RXPS_04_FRAME_HDR_LEN64_1 \<Rightarrow> Some (rx_len_or w c 0 (rx_after_len w), 0)
      | LWS_RXPS_07_COLLECT_FRAME_KEY_1 \<Rightarrow>
          map_option (\<lambda>w. (w, 0)) (rx_nonce w 0 c LWS_RXPS_07_COLLECT_FRAME_KEY_2)
      | LWS_RXPS_07_COLLECT_FRAME_KEY_2 \<Rightarrow>
          map_option (\<lambda>w. (w, 0)) (rx_nonce w 1 c LWS_RXPS_07_COLLECT_FRAME_KEY_3)
      | LWS_RXPS_07_COLLECT_FRAME_KEY_3 \<Rightarrow>
          map_option (\<lambda>w. (w, 0)) (rx_nonce w 2 c LWS_RXPS_07_COLLECT_FRAME_KEY_4)
      | LWS_RXPS_07_COLLECT_FRAME_KEY_4 \<Rightarrow> do {
          w \<leftarrow> rx_nonce w 3 c LWS_RXPS_PAYLOAD_UNTIL_LENGTH_EXHAUSTED;
          let w = w\<lparr>ws_mask_index := 0\<rparr>;
          if ws_packet_length w = 0 then rx_spill cfg (w\<lparr>ws_rx_state := LWS_RXPS_NEW\<rparr>)
          else Some (w, 0) }
      | LWS_RXPS_PAYLOAD_UNTIL_LENGTH_EXHAUSTED \<Rightarrow> rx_payload cfg w c)"

text \<open>
  \<open>libwebsocket_interpret_incoming_packet\<close>: while receiving is allowed each byte is parsed (and
  counted when it comes from the flow control buffer); otherwise the rest is put aside.
\<close>

fun libwebsocket_interpret_incoming_packet :: "'x lws_cfg \<Rightarrow> 'x wsi \<Rightarrow> bytes \<Rightarrow> 'x ws_result" where
  "libwebsocket_interpret_incoming_packet cfg w [] = Some (w, 0)"
| "libwebsocket_interpret_incoming_packet cfg w (c # cs) =
     (if \<not> ws_rxflow_allow w then
        (if ws_rxflow_buffer w = None
         then Some (w\<lparr>ws_rxflow_buffer := Some (c # cs), ws_rxflow_pos := 0\<rparr>, 1)
         else Some (w, 1))
      else do {
        let w = (if ws_rxflow_buffer w \<noteq> None then w\<lparr>ws_rxflow_pos := ws_rxflow_pos w + 1\<rparr> else w);
        (w, m) \<leftarrow> libwebsocket_rx_sm cfg w c;
        if m < 0 then Some (w, -1) else libwebsocket_interpret_incoming_packet cfg w cs })"

text \<open>The draining of the flow control buffer in \<open>libwebsocket_service_fd\<close>.\<close>

definition rxflow_drain :: "'x lws_cfg \<Rightarrow> 'x wsi \<Rightarrow> 'x ws_result" where
  "rxflow_drain cfg w =
     (case ws_rxflow_buffer w of
        None \<Rightarrow> Some (w, 0)
      | Some b \<Rightarrow>
          if \<not> ws_rxflow_allow w then Some (w, 0)
          else do {
            (w, n) \<leftarrow> libwebsocket_interpret_incoming_packet cfg w (drop (ws_rxflow_pos w) b);
            if n < 0 then Some (w, -1)
            else if ws_rxflow_buffer w = Some b \<and> ws_rxflow_pos w = length b
              then Some (snd (rx_flow_control_apply cfg (w\<lparr>ws_rxflow_buffer := None\<rparr>)), 0)
            else Some (w, 0) })"

section \<open>The client's parser\<close>

definition client_deliver :: "'x lws_cfg \<Rightarrow> 'x wsi \<Rightarrow> cb_reason \<Rightarrow> 'x ws_result" where
  "client_deliver cfg w reason =
     (case exts_show (cfg_exts cfg) LWS_EXT_CALLBACK_PAYLOAD_RX (ws_ext_user w) (rx_tokens w) False of
        (t, x, _, fatal) \<Rightarrow>
          let w = w\<lparr>ws_ext_user := x\<rparr> in
          if fatal then Some (w, -1)
          else if tok_len t = 0 \<and> reason \<noteq> LWS_CALLBACK_CLIENT_RECEIVE_PONG
            then Some (w\<lparr>ws_rx_head := 0\<rparr>, 0)
          else do {
            (w, d) \<leftarrow> rx_terminate w t;
            (case cfg_callback cfg of
               None \<Rightarrow> Some (w\<lparr>ws_rx_head := 0\<rparr>, 0)
             | Some cb \<Rightarrow>
                 (case cb (w\<lparr>ws_delivered := ws_delivered w @ [(reason, d)]\<rparr>) reason d of
                    (_, w) \<Rightarrow> Some (w\<lparr>ws_rx_head := 0\<rparr>, 0))) })"

definition client_spill :: "'x lws_cfg \<Rightarrow> 'x wsi \<Rightarrow> 'x ws_result" where
  "client_spill cfg w =
     (let opc = ws_opcode w in
      if opc = LWS_WS_OPCODE_07__CLOSE then
        (if ws_state w = WSI_STATE_AWAITING_CLOSE_ACK then Some (w, -1)
         else do {
           (w, n) \<leftarrow> rx_parrot cfg w LWS_WRITE_CLOSE;
           Some (w\<lparr>ws_state := WSI_STATE_RETURNED_CLOSE_ALREADY\<rparr>, -1) })
      else if opc = LWS_WS_OPCODE_07__PING then do {
        (w, n) \<leftarrow> rx_parrot cfg w LWS_WRITE_PONG;
        Some (w\<lparr>ws_rx_head := 0\<rparr>, 0) }
      else if opc = LWS_WS_OPCODE_07__PONG then client_deliver cfg w LWS_CALLBACK_CLIENT_RECEIVE_PONG
      else if opc \<notin> {LWS_WS_OPCODE_07__CONTINUATION, LWS_WS_OPCODE_07__TEXT_FRAME,
                     LWS_WS_OPCODE_07__BINARY_FRAME} then
        (case exts_any (cfg_exts cfg) LWS_EXT_CALLBACK_EXTENDED_PAYLOAD_RX (ws_ext_user w)
                (rx_tokens w) False of
           (_, x, _) \<Rightarrow> Some (w\<lparr>ws_ext_user := x, ws_rx_head := 0\<rparr>, 0))
      else client_deliver cfg w LWS_CALLBACK_CLIENT_RECEIVE)"

definition client_payload :: "'x lws_cfg \<Rightarrow> 'x wsi \<Rightarrow> u8 \<Rightarrow> 'x ws_result" where
  "client_payload cfg w c = do {
     w \<leftarrow> rx_store w (\<not> ws_masked w \<or> ws_zero_nonce w) c;
     let w = w\<lparr>ws_packet_length := ws_packet_length w - 1\<rparr>;
     if ws_packet_length w = 0 then client_spill cfg (w\<lparr>ws_rx_state := LWS_RXPS_NEW\<rparr>)
     else if ws_rx_head w \<noteq> rx_size cfg then Some (w, 0)
     else client_spill cfg w }"

text \<open>Where the client goes when the length is complete.\<close>

definition client_after_len :: "'x lws_cfg \<Rightarrow> 'x wsi \<Rightarrow> 'x ws_result" where
  "client_after_len cfg w =
     (if ws_masked w then Some (w\<lparr>ws_rx_state := LWS_RXPS_07_COLLECT_FRAME_KEY_1\<rparr>, 0)
      else if ws_packet_length w \<noteq> 0
        then Some (w\<lparr>ws_rx_state := LWS_RXPS_PAYLOAD_UNTIL_LENGTH_EXHAUSTED\<rparr>, 0)
      else client_spill cfg (w\<lparr>ws_rx_state := LWS_RXPS_NEW\<rparr>))"

text \<open>The short length is the byte itself, the mask bit included.\<close>

definition client_length :: "'x lws_cfg \<Rightarrow> 'x wsi \<Rightarrow> u8 \<Rightarrow> 'x ws_result" where
  "client_length cfg w c =
     (let w = w\<lparr>ws_masked := bit c 7\<rparr>; l = c AND 0x7f in
      if l = 126 then
        (if ws_opcode w AND 8 \<noteq> 0 then Some (w, -1)
         else Some (w\<lparr>ws_rx_state := LWS_RXPS_04_FRAME_HDR_LEN16_2\<rparr>, 0))
      else if l = 127 then
        (if ws_opcode w AND 8 \<noteq> 0 then Some (w, -1)
         else Some (w\<lparr>ws_rx_state := LWS_RXPS_04_FRAME_HDR_LEN64_8\<rparr>, 0))
      else client_after_len cfg (w\<lparr>ws_packet_length := ucast c\<rparr>))"

definition libwebsocket_client_rx_sm :: "'x lws_cfg \<Rightarrow> 'x wsi \<Rightarrow> u8 \<Rightarrow> 'x ws_result" where
  "libwebsocket_client_rx_sm cfg w c =
     (case ws_rx_state w of
        LWS_RXPS_NEW \<Rightarrow> (if ws_rev w = 13 then Some (rx_first w c, 0) else Some (w, 0))
      | LWS_RXPS_04_FRAME_HDR_LEN \<Rightarrow> client_length cfg w c
      | LWS_RXPS_04_FRAME_HDR_LEN16_2 \<Rightarrow>
          Some (w\<lparr>ws_packet_length := push_bit 8 (ucast c), ws_rx_state := LWS_RXPS_04_FRAME_HDR_LEN16_1\<rparr>, 0)
      | LWS_RXPS_04_FRAME_HDR_LEN16_1 \<Rightarrow>
          client_after_len cfg (rx_len_or w c 0 LWS_RXPS_04_FRAME_HDR_LEN16_1)
      | LWS_RXPS_04_FRAME_HDR_LEN64_8 \<Rightarrow>
          (if bit c 7 then Some (w, -1)
           else Some (w\<lparr>ws_packet_length := push_bit 56 (ucast c),
                        ws_rx_state := LWS_RXPS_04_FRAME_HDR_LEN64_7\<rparr>, 0))
      | LWS_RXPS_04_FRAME_HDR_LEN64_7 \<Rightarrow> Some (rx_len_or w c 48 LWS_RXPS_04_FRAME_HDR_LEN64_6, 0)
      | LWS_RXPS_04_FRAME_HDR_LEN64_6 \<Rightarrow> Some (rx_len_or w c 40 LWS_RXPS_04_FRAME_HDR_LEN64_5, 0)
      | LWS_RXPS_04_FRAME_HDR_LEN64_5 \<Rightarrow> Some (rx_len_or w c 32 LWS_RXPS_04_FRAME_HDR_LEN64_4, 0)
      | LWS_RXPS_04_FRAME_HDR_LEN64_4 \<Rightarrow> Some (rx_len_or w c 24 LWS_RXPS_04_FRAME_HDR_LEN64_3, 0)
      | LWS_RXPS_04_FRAME_HDR_LEN64_3 \<Rightarrow> Some (rx_len_or w c 16 LWS_RXPS_04_FRAME_HDR_LEN64_2, 0)
      | LWS_RXPS_04_FRAME_HDR_LEN64_2 \<Rightarrow> Some (rx_len_or w c 8 LWS_RXPS_04_FRAME_HDR_LEN64_1, 0)
      | LWS_RXPS_04_FRAME_HDR_LEN64_1 \<Rightarrow>
          client_after_len cfg (rx_len_or w c 0 LWS_RXPS_04_FRAME_HDR_LEN64_1)
      | LWS_RXPS_07_COLLECT_FRAME_KEY_1 \<Rightarrow>
          map_option (\<lambda>w. (w, 0)) (rx_nonce w 0 c LWS_RXPS_07_COLLECT_FRAME_KEY_2)
      | LWS_RXPS_07_COLLECT_FRAME_KEY_2 \<Rightarrow>
          map_option (\<lambda>w. (w, 0)) (rx_nonce w 1 c LWS_RXPS_07_COLLECT_FRAME_KEY_3)
      | LWS_RXPS_07_COLLECT_FRAME_KEY_3 \<Rightarrow>
          map_option (\<lambda>w. (w, 0)) (rx_nonce w 2 c LWS_RXPS_07_COLLECT_FRAME_KEY_4)
      | LWS_RXPS_07_COLLECT_FRAME_KEY_4 \<Rightarrow> do {
          w \<leftarrow> rx_nonce w 3 c LWS_RXPS_07_COLLECT_FRAME_KEY_4;
          if ws_packet_length w \<noteq> 0
          then Some (w\<lparr>ws_rx_state := LWS_RXPS_PAYLOAD_UNTIL_LENGTH_EXHAUSTED\<rparr>, 0)
          else client_spill cfg (w\<lparr>ws_rx_state := LWS_RXPS_NEW\<rparr>) }
      | LWS_RXPS_PAYLOAD_UNTIL_LENGTH_EXHAUSTED \<Rightarrow> client_payload cfg w c
      | _ \<Rightarrow> Some (w, 1))"

text \<open>The loop of \<open>libwebsocket_read\<close> for a client.\<close>

fun client_read :: "'x lws_cfg \<Rightarrow> 'x wsi \<Rightarrow> bytes \<Rightarrow> 'x ws_result" where
  "client_read cfg w [] = Some (w, 0)"
| "client_read cfg w (c # cs) = do {
     (w, m) \<leftarrow> libwebsocket_client_rx_sm cfg w c;
     if m < 0 then Some (w, -1) else client_read cfg w cs }"


section \<open>Receiving a frame\<close>

text \<open>The pieces in which a payload reaches the user: the receive buffer is handed over when it is full
  and at the end of the frame. \<open>acc\<close> is what the buffer already holds.\<close>

fun chunks :: "nat \<Rightarrow> bytes \<Rightarrow> bytes \<Rightarrow> bytes list" where
  "chunks n acc [] = (if acc = [] then [] else [acc])"
| "chunks n acc (b # bs) =
     (if bs = [] \<or> length acc + 1 = n then (acc @ [b]) # chunks n [] bs else chunks n (acc @ [b]) bs)"

lemma concat_chunks: "concat (chunks n acc bs) = acc @ bs"
  by (induction n acc bs rule: chunks.induct) auto

lemma chunks_bounds:
  "length acc < n \<Longrightarrow> d \<in> set (chunks n acc bs) \<Longrightarrow> d \<noteq> [] \<and> length d \<le> n"
  by (induction n acc bs rule: chunks.induct) (auto split: if_splits)

text \<open>A user callback that only records, and no extension.\<close>

definition recorder :: "'x lws_cfg \<Rightarrow> bool" where
  "recorder cfg \<longleftrightarrow> cfg_exts cfg = [] \<and> cfg_callback cfg = Some (\<lambda>w _ _. (0, w))"

text \<open>A connection that can receive: its buffer has the size its protocol asks for, and receiving is
  allowed.\<close>

definition rx_live :: "'x lws_cfg \<Rightarrow> 'x wsi \<Rightarrow> bool" where
  "rx_live cfg w \<longleftrightarrow> length (ws_rx_buf w) = rx_size cfg + LWS_SEND_BUFFER_PRE_PADDING + LWS_SEND_BUFFER_POST_PADDING \<and>
     length (ws_nonce w) = 4 \<and> ws_rev w = 13 \<and> ws_rxflow_allow w \<and> \<not> ws_rxflow_pending w \<and>
     ws_rxflow_buffer w = None"

definition rx_between :: "'x lws_cfg \<Rightarrow> 'x wsi \<Rightarrow> bool" where
  "rx_between cfg w \<longleftrightarrow> rx_live cfg w \<and> ws_rx_state w = LWS_RXPS_NEW \<and> ws_rx_head w = 0"

definition rx_holds :: "'x wsi \<Rightarrow> bytes" where
  "rx_holds w = take (ws_rx_head w) (drop LWS_SEND_BUFFER_PRE_PADDING (ws_rx_buf w))"

definition data_opcode :: "u8 \<Rightarrow> bool" where
  "data_opcode opc \<longleftrightarrow> opc \<in> {LWS_WS_OPCODE_07__CONTINUATION, LWS_WS_OPCODE_07__TEXT_FRAME,
     LWS_WS_OPCODE_07__BINARY_FRAME}"

text \<open>In the payload of a data frame: \<open>n\<close> bytes are still to come.\<close>

definition rx_in_payload :: "'x lws_cfg \<Rightarrow> 'x wsi \<Rightarrow> nat \<Rightarrow> bool" where
  "rx_in_payload cfg w n \<longleftrightarrow> rx_live cfg w \<and> ws_rx_state w = LWS_RXPS_PAYLOAD_UNTIL_LENGTH_EXHAUSTED \<and>
     data_opcode (ws_opcode w) \<and> ws_rx_head w < rx_size cfg \<and>
     ws_packet_length w = word_of_nat n \<and> 0 < n \<and> n < 2 ^ 64"

lemma data_opcodeD:
  "data_opcode opc \<Longrightarrow> opc \<noteq> LWS_WS_OPCODE_07__CLOSE \<and> opc \<noteq> LWS_WS_OPCODE_07__PING \<and>
     opc \<noteq> LWS_WS_OPCODE_07__PONG \<and> (opc = 0 \<or> opc = 1 \<or> opc = 2)"
  by (auto simp: data_opcode_def)

lemma rx_terminate_run:
  assumes "length (ws_rx_buf w) = rx_size cfg + 22" "ws_rx_head w \<le> rx_size cfg"
  shows "rx_terminate w (rx_tokens w)
    = Some (w\<lparr>ws_rx_buf := (ws_rx_buf w)[18 + ws_rx_head w := 0]\<rparr>, rx_holds w)"
  using assms by (simp add: rx_terminate_def rx_tokens_def access_simps tok_bytes_def rx_holds_def)

lemma zero_mask: "nonce = [0, 0, 0, 0] \<Longrightarrow> mask_bytes nonce i bs = bs"
proof (induction bs arbitrary: i)
  case (Cons b bs)
  have "unat (i AND 3 :: u8) < 4" by (rule mask_index_bound)
  then have "[0, 0, 0, 0 :: u8] ! unat (i AND 3) = 0" by (auto simp: less_Suc_eq numeral_eq_Suc)
  with Cons show ?case by simp
qed simp

text \<open>The payload bytes in clear.\<close>

definition rx_clear :: "bool \<Rightarrow> 'x wsi \<Rightarrow> bytes \<Rightarrow> bytes" where
  "rx_clear plain w bs = (if plain then bs else mask_bytes (ws_nonce w) (ws_mask_index w) bs)"

lemma rx_clear_Nil [simp]: "rx_clear plain w [] = []"
  by (simp add: rx_clear_def)

lemma rx_clear_single: "rx_clear plain w [c]
    = [if plain then c else c XOR ws_nonce w ! unat (ws_mask_index w AND 3)]"
  by (simp add: rx_clear_def)

definition rx_stored :: "'x wsi \<Rightarrow> bool \<Rightarrow> u8 \<Rightarrow> 'x wsi" where
  "rx_stored w plain c = w\<lparr>ws_rx_buf := (ws_rx_buf w)[18 + ws_rx_head w := hd (rx_clear plain w [c])],
     ws_rx_head := ws_rx_head w + 1, ws_mask_index := ws_mask_index w + (if plain then 0 else 1)\<rparr>"

lemma rx_store_run:
  assumes "rx_live cfg w" "ws_rx_head w < rx_size cfg"
  shows "rx_store w plain c = Some (rx_stored w plain c)"
    "rx_holds (rx_stored w plain c) = rx_holds w @ rx_clear plain w [c]"
proof -
  have "unat (ws_mask_index w AND 3) < length (ws_nonce w)"
    using mask_index_bound assms(1) by (simp add: rx_live_def)
  moreover have "length (ws_rx_buf w) = rx_size cfg + 22" using assms(1) by (simp add: rx_live_def)
  ultimately show "rx_store w plain c = Some (rx_stored w plain c)"
    "rx_holds (rx_stored w plain c) = rx_holds w @ rx_clear plain w [c]"
    using assms(2) by (auto simp: rx_store_def rx_stored_def rx_clear_single access_simps rx_holds_def
        take_Suc_conv_app_nth drop_update_swap)
qed

lemma rx_clear_stored: "rx_clear plain w (c # cs) = rx_clear plain w [c] @ rx_clear plain (rx_stored w plain c) cs"
  by (simp add: rx_clear_def rx_stored_def)

text \<open>The payload loop: whatever its length, the payload arrives in the pieces of \<open>chunks\<close>.\<close>

definition deliveries :: "cb_reason \<Rightarrow> bytes list \<Rightarrow> (cb_reason \<times> bytes) list" where
  "deliveries reason ps = map (Pair reason) ps"

lemma deliveries_simps [simp]:
  "deliveries reason [] = []" "deliveries reason (p # ps) = (reason, p) # deliveries reason ps"
  "deliveries reason (ps @ qs) = deliveries reason ps @ deliveries reason qs"
  by (simp_all add: deliveries_def)

lemma packet_length_dec:
  "0 < n \<Longrightarrow> (word_of_nat n :: u64) - 1 = word_of_nat (n - 1)"
  by (cases n) simp_all

lemma packet_length_zero: "n < 2 ^ 64 \<Longrightarrow> (word_of_nat n :: u64) = 0 \<longleftrightarrow> n = 0"
  by (auto simp: word_of_nat_eq_0_iff dest: nat_dvd_not_less)

text \<open>What a spill of data does in either parser when the user only records.\<close>

definition rx_delivered :: "cb_reason \<Rightarrow> 'x wsi \<Rightarrow> 'x wsi" where
  "rx_delivered reason w = w\<lparr>ws_rx_buf := (ws_rx_buf w)[18 + ws_rx_head w := 0], ws_rx_head := 0,
     ws_delivered := ws_delivered w @ [(reason, rx_holds w)]\<rparr>"

text \<open>
  What the two parsers share, as a contract: bytes are parsed one after the other; in the payload
  state a byte is stored, counted, and the buffer spilled when the frame is complete or the
  buffer full; a spill of data hands the buffer over.
\<close>

locale frame_receiver =
  fixes cfg :: "'x lws_cfg"
    and run :: "'x wsi \<Rightarrow> bytes \<Rightarrow> 'x ws_result"
    and sm :: "'x wsi \<Rightarrow> u8 \<Rightarrow> 'x ws_result"
    and spill :: "'x wsi \<Rightarrow> 'x ws_result"
    and plain :: "bool \<Rightarrow> bool \<Rightarrow> bool"
    and reason :: cb_reason
  assumes run_Nil: "run w [] = Some (w, 0)"
    and run_Cons: "rx_live cfg w \<Longrightarrow> run w (c # cs)
      = do { (w, m) \<leftarrow> sm w c; if m < 0 then Some (w, -1) else run w cs }"
    and sm_payload: "ws_rx_state w = LWS_RXPS_PAYLOAD_UNTIL_LENGTH_EXHAUSTED \<Longrightarrow> sm w c = do {
      w \<leftarrow> rx_store w (plain (ws_masked w) (ws_zero_nonce w)) c;
      let w = w\<lparr>ws_packet_length := ws_packet_length w - 1\<rparr>;
      if ws_packet_length w = 0 then spill (w\<lparr>ws_rx_state := LWS_RXPS_NEW\<rparr>)
      else if ws_rx_head w \<noteq> rx_size cfg then Some (w, 0) else spill w }"
    and spill_data: "rx_live cfg w \<Longrightarrow> data_opcode (ws_opcode w) \<Longrightarrow> 0 < ws_rx_head w \<Longrightarrow>
      ws_rx_head w \<le> rx_size cfg \<Longrightarrow> spill w = Some (rx_delivered reason w, 0)"
begin

abbreviation (input) "clear w \<equiv> rx_clear (plain (ws_masked w) (ws_zero_nonce w)) w"

lemma payload_step:
  fixes c :: u8
  assumes w: "rx_in_payload cfg w (Suc n)"
  defines "v \<equiv> (rx_stored w (plain (ws_masked w) (ws_zero_nonce w)) c)\<lparr>ws_packet_length := word_of_nat n\<rparr>"
  shows "sm w c = (if n = 0 then Some (rx_delivered reason (v\<lparr>ws_rx_state := LWS_RXPS_NEW\<rparr>), 0)
      else if ws_rx_head w + 1 = rx_size cfg then Some (rx_delivered reason v, 0) else Some (v, 0))"
proof -
  let ?s = "rx_stored w (plain (ws_masked w) (ws_zero_nonce w)) c"
  have live: "rx_live cfg w" "ws_rx_head w < rx_size cfg" using w by (simp_all add: rx_in_payload_def)
  have pl: "ws_packet_length ?s - 1 = word_of_nat n"
    using w packet_length_dec [of "Suc n"] by (simp add: rx_in_payload_def rx_stored_def)
  have zero: "(word_of_nat n :: u64) = 0 \<longleftrightarrow> n = 0"
    using packet_length_zero [of n] w by (simp add: rx_in_payload_def)
  have one: "ws_packet_length ?s = 1 \<longleftrightarrow> n = 0" using pl zero by (metis eq_iff_diff_eq_0)
  have head: "ws_rx_head v = ws_rx_head w + 1" by (simp add: v_def rx_stored_def)
  have st: "sm w c = (if n = 0 then spill (v\<lparr>ws_rx_state := LWS_RXPS_NEW\<rparr>)
      else if ws_rx_head v \<noteq> rx_size cfg then Some (v, 0) else spill v)"
    using w by (simp add: sm_payload rx_in_payload_def rx_store_run(1) [OF live] Let_def pl one v_def)
  have v: "rx_live cfg v" "data_opcode (ws_opcode v)" "0 < ws_rx_head v" "ws_rx_head v \<le> rx_size cfg"
    using w by (simp_all add: rx_in_payload_def v_def rx_stored_def rx_live_def)
  then have v': "rx_live cfg (v\<lparr>ws_rx_state := LWS_RXPS_NEW\<rparr>)" by (simp add: rx_live_def)
  show ?thesis unfolding st using spill_data [OF v] spill_data [OF v'] v head by simp
qed

lemma payload_run:
  "rx_in_payload cfg w (length bs) \<Longrightarrow>
    \<exists>w'. run w bs = Some (w', 0) \<and> rx_between cfg w' \<and>
      ws_delivered w' = ws_delivered w @ deliveries reason (chunks (rx_size cfg) (rx_holds w) (clear w bs)) \<and>
      out_stream w' = out_stream w"
proof (induction bs arbitrary: w)
  case Nil
  then show ?case by (simp add: rx_in_payload_def)
next
  case (Cons c bs)
  let ?p = "plain (ws_masked w) (ws_zero_nonce w)"
  let ?v = "(rx_stored w ?p c)\<lparr>ws_packet_length := word_of_nat (length bs)\<rparr>"
  have w: "rx_in_payload cfg w (Suc (length bs))" using Cons.prems by simp
  then have live: "rx_live cfg w" "ws_rx_head w < rx_size cfg" by (simp_all add: rx_in_payload_def)
  have holds: "rx_holds ?v = rx_holds w @ rx_clear ?p w [c]"
    using rx_store_run(2) [OF live] by (simp add: rx_holds_def)
  have lenh: "length (rx_holds w) = ws_rx_head w"
    using live by (simp add: rx_holds_def rx_live_def)
  have rest: "clear w (c # bs) = rx_clear ?p w [c] @ clear ?v bs"
    unfolding rx_clear_stored [of _ w c bs] by (simp add: rx_stored_def rx_clear_def)
  have one: "\<exists>b. rx_clear ?p w [c] = [b]" by (simp add: rx_clear_single)
  have empty: "clear ?v bs = [] \<longleftrightarrow> bs = []" by (simp add: rx_clear_def flip: length_0_conv)
  have vl: "rx_live cfg ?v" "out_stream ?v = out_stream w" "ws_delivered ?v = ws_delivered w"
    "ws_rx_head ?v = ws_rx_head w + 1"
    using live by (simp_all add: rx_live_def rx_stored_def out_stream_def trunc_bytes_def split: option.split)
  have del: "rx_live cfg (rx_delivered reason u)" "out_stream (rx_delivered reason u) = out_stream u"
    "rx_holds (rx_delivered reason u) = []" "clear (rx_delivered reason u) = clear u"
    "ws_delivered (rx_delivered reason u) = ws_delivered u @ [(reason, rx_holds u)]"
    if "rx_live cfg u" for u
    using that by (simp_all add: rx_delivered_def rx_live_def out_stream_def trunc_bytes_def rx_holds_def rx_clear_def
        fun_eq_iff split: option.split)
  note step = payload_step [OF w, of c]
  consider "bs = []" | "bs \<noteq> []" "ws_rx_head w + 1 = rx_size cfg" | "bs \<noteq> []" "ws_rx_head w + 1 \<noteq> rx_size cfg"
    by blast
  then show ?case
  proof cases
    case 1
    let ?u = "?v\<lparr>ws_rx_state := LWS_RXPS_NEW\<rparr>"
    have u: "rx_live cfg ?u" "rx_holds ?u = rx_holds ?v" "ws_delivered ?u = ws_delivered ?v"
      using vl(1) by (simp_all add: rx_live_def rx_holds_def)
    have uo: "out_stream ?u = out_stream ?v" by (simp add: out_stream_def trunc_bytes_def split: option.split)
    have "rx_between cfg (rx_delivered reason ?u)"
      using del(1) [OF u(1)] by (simp add: rx_between_def rx_delivered_def)
    moreover have "run w (c # bs) = Some (rx_delivered reason ?u, 0)"
      using 1 step by (simp add: run_Cons [OF live(1)] run_Nil)
    ultimately show ?thesis using 1 one del [OF u(1)] u uo vl holds by (auto simp: rest)
  next
    case 2
    have "rx_in_payload cfg (rx_delivered reason ?v) (length bs)"
      using w 2 del(1) [OF vl(1)] by (simp add: rx_in_payload_def rx_delivered_def rx_stored_def)
    from Cons.IH [OF this] obtain w' where "run (rx_delivered reason ?v) bs = Some (w', 0)" "rx_between cfg w'"
      "ws_delivered w' = ws_delivered (rx_delivered reason ?v) @ deliveries reason
         (chunks (rx_size cfg) (rx_holds (rx_delivered reason ?v)) (clear ?v bs))"
      "out_stream w' = out_stream (rx_delivered reason ?v)"
      unfolding del(4) [OF vl(1)] by blast
    with 2 step one lenh empty del [OF vl(1)] vl holds show ?thesis
      by (auto simp: run_Cons [OF live(1)] rest)
  next
    case 3
    have "rx_in_payload cfg ?v (length bs)"
      using w 3 vl by (simp add: rx_in_payload_def rx_stored_def)
    from Cons.IH [OF this] obtain w' where "run ?v bs = Some (w', 0)" "rx_between cfg w'"
      "ws_delivered w' = ws_delivered ?v @ deliveries reason (chunks (rx_size cfg) (rx_holds ?v) (clear ?v bs))"
      "out_stream w' = out_stream ?v" by blast
    with 3 step one lenh empty vl holds show ?thesis by (auto simp: run_Cons [OF live(1)] rest)
  qed
qed

text \<open>A payload that fits the buffer is collected whole before its only spill, whatever the opcode.\<close>

lemma collect_run:
  "rx_live cfg w \<Longrightarrow> ws_rx_state w = LWS_RXPS_PAYLOAD_UNTIL_LENGTH_EXHAUSTED \<Longrightarrow> bs \<noteq> [] \<Longrightarrow>
   ws_packet_length w = word_of_nat (length bs) \<Longrightarrow> length bs < 2 ^ 64 \<Longrightarrow>
   ws_rx_head w + length bs \<le> rx_size cfg \<Longrightarrow>
   \<exists>buf i. length buf = length (ws_rx_buf w) \<and>
     (let u = w\<lparr>ws_rx_buf := buf, ws_rx_head := ws_rx_head w + length bs, ws_mask_index := i,
        ws_packet_length := 0, ws_rx_state := LWS_RXPS_NEW\<rparr> in
      rx_holds u = rx_holds w @ clear w bs \<and>
      run w bs = do { (v, m) \<leftarrow> spill u; if m < 0 then Some (v, -1) else Some (v, 0) })"
proof (induction bs arbitrary: w)
  case (Cons c bs)
  let ?p = "plain (ws_masked w) (ws_zero_nonce w)"
  let ?s = "rx_stored w ?p c"
  let ?v = "?s\<lparr>ws_packet_length := word_of_nat (length bs)\<rparr>"
  have live: "rx_live cfg w" "ws_rx_head w < rx_size cfg" using Cons.prems by simp_all
  have pl: "ws_packet_length ?s - 1 = word_of_nat (length bs)"
    using Cons.prems(4) packet_length_dec [of "length (c # bs)"] by (simp add: rx_stored_def)
  have zero: "(word_of_nat (length bs) :: u64) = 0 \<longleftrightarrow> bs = []"
    using packet_length_zero [of "length bs"] Cons.prems(5) by simp
  have one: "ws_packet_length ?s = 1 \<longleftrightarrow> bs = []" using pl zero by (metis eq_iff_diff_eq_0)
  have sm: "sm w c = (if bs = [] then spill (?v\<lparr>ws_rx_state := LWS_RXPS_NEW\<rparr>)
      else if ws_rx_head ?s \<noteq> rx_size cfg then Some (?v, 0) else spill ?v)"
    by (simp add: sm_payload Cons.prems(2) rx_store_run(1) [OF live] Let_def pl one)
  have holds: "rx_holds ?v = rx_holds w @ rx_clear ?p w [c]"
    using rx_store_run(2) [OF live] by (simp add: rx_holds_def)
  have rest: "clear w (c # bs) = rx_clear ?p w [c] @ clear ?v bs"
    unfolding rx_clear_stored [of _ w c bs] by (simp add: rx_stored_def rx_clear_def)
  show ?case
  proof (cases "bs = []")
    case True
    let ?u = "?v\<lparr>ws_rx_state := LWS_RXPS_NEW\<rparr>"
    have h: "rx_holds ?u = rx_holds w @ clear w (c # bs)" using holds rest True by (simp add: rx_holds_def)
    have r: "run w (c # bs) = do { (v, m) \<leftarrow> spill ?u; if m < 0 then Some (v, -1) else Some (v, 0) }"
      using True sm by (simp add: run_Cons [OF live(1)] run_Nil cong: if_cong)
    have u: "w\<lparr>ws_rx_buf := ws_rx_buf ?s, ws_rx_head := ws_rx_head w + length (c # bs),
        ws_mask_index := ws_mask_index ?s, ws_packet_length := 0, ws_rx_state := LWS_RXPS_NEW\<rparr> = ?u"
      using True by (simp add: rx_stored_def)
    have l: "length (ws_rx_buf ?s) = length (ws_rx_buf w)" by (simp add: rx_stored_def)
    show ?thesis unfolding Let_def
      by (intro exI [of _ "ws_rx_buf ?s"] exI [of _ "ws_mask_index ?s"] conjI l) (unfold u, rule h, rule r)
  next
    case False
    have "rx_live cfg ?v" "ws_rx_state ?v = LWS_RXPS_PAYLOAD_UNTIL_LENGTH_EXHAUSTED"
      "ws_packet_length ?v = word_of_nat (length bs)" "length bs < 2 ^ 64"
      "ws_rx_head ?v + length bs \<le> rx_size cfg"
      using Cons.prems live by (simp_all add: rx_live_def rx_stored_def)
    from Cons.IH [OF this(1,2) False this(3-5)] obtain buf i where ih: "length buf = length (ws_rx_buf ?v)"
      "rx_holds (?v\<lparr>ws_rx_buf := buf, ws_rx_head := ws_rx_head ?v + length bs, ws_mask_index := i,
         ws_packet_length := 0, ws_rx_state := LWS_RXPS_NEW\<rparr>) = rx_holds ?v @ clear ?v bs"
      "run ?v bs = do { (v, m) \<leftarrow> spill (?v\<lparr>ws_rx_buf := buf, ws_rx_head := ws_rx_head ?v + length bs,
         ws_mask_index := i, ws_packet_length := 0, ws_rx_state := LWS_RXPS_NEW\<rparr>);
         if m < 0 then Some (v, -1) else Some (v, 0) }"
      unfolding Let_def by blast
    have u: "?v\<lparr>ws_rx_buf := buf, ws_rx_head := ws_rx_head ?v + length bs, ws_mask_index := i,
         ws_packet_length := 0, ws_rx_state := LWS_RXPS_NEW\<rparr>
      = w\<lparr>ws_rx_buf := buf, ws_rx_head := ws_rx_head w + length (c # bs), ws_mask_index := i,
         ws_packet_length := 0, ws_rx_state := LWS_RXPS_NEW\<rparr>" by (simp add: rx_stored_def)
    have head: "ws_rx_head ?s \<noteq> rx_size cfg" using False Cons.prems(6) by (cases bs) (simp_all add: rx_stored_def)
    have r: "run w (c # bs) = run ?v bs" using False sm head by (simp add: run_Cons [OF live(1)])
    have l: "length buf = length (ws_rx_buf w)" using ih(1) by (simp add: rx_stored_def)
    show ?thesis unfolding Let_def r rest append_assoc [symmetric] holds [symmetric]
      by (intro exI [of _ buf] exI [of _ i] conjI l) (unfold u [symmetric], rule ih(2), rule ih(3))
  qed
qed simp

end

text \<open>The configurations of \<open>recorder\<close>, and both parsers as receivers for them.\<close>

definition recording :: "nat \<Rightarrow> bool \<Rightarrow> 'x lws_cfg" where
  "recording bufsize flag = \<lparr>cfg_rx_buffer_size = bufsize, cfg_no_buffer_all_partial_tx = flag, cfg_exts = [],
     cfg_callback = Some (\<lambda>w _ _. (0, w))\<rparr>"

lemma recorder_recording [simp]: "recorder (recording bufsize flag)"
  by (simp add: recorder_def recording_def)

lemma recorder_eq: "recorder cfg \<Longrightarrow> cfg = recording (cfg_rx_buffer_size cfg) (cfg_no_buffer_all_partial_tx cfg)"
  by (simp add: recorder_def recording_def)

lemma rx_spill_data:
  assumes cfg: "recorder cfg" and live: "rx_live cfg w" and opc: "data_opcode (ws_opcode w)"
    and head: "0 < ws_rx_head w" "ws_rx_head w \<le> rx_size cfg"
  shows "rx_spill cfg w = Some (rx_delivered LWS_CALLBACK_RECEIVE w, 0)"
proof -
  have t: "rx_terminate w (rx_tokens w) = Some (w\<lparr>ws_rx_buf := (ws_rx_buf w)[18 + ws_rx_head w := 0]\<rparr>, rx_holds w)"
    by (rule rx_terminate_run [of w cfg]) (use live head in \<open>auto simp: rx_live_def\<close>)
  have upd: "w\<lparr>ws_ext_user := ws_ext_user w\<rparr> = w" by simp
  show ?thesis
    using data_opcodeD [OF opc] cfg live head t
    by (auto simp: rx_spill_def recorder_def upd rx_tokens_def Let_def user_callback_handle_rxflow_def
        rx_flow_control_apply_def rx_live_def rx_delivered_def)
qed

lemma client_spill_data:
  assumes cfg: "recorder cfg" and live: "rx_live cfg w" and opc: "data_opcode (ws_opcode w)"
    and head: "0 < ws_rx_head w" "ws_rx_head w \<le> rx_size cfg"
  shows "client_spill cfg w = Some (rx_delivered LWS_CALLBACK_CLIENT_RECEIVE w, 0)"
proof -
  have t: "rx_terminate w (rx_tokens w) = Some (w\<lparr>ws_rx_buf := (ws_rx_buf w)[18 + ws_rx_head w := 0]\<rparr>, rx_holds w)"
    by (rule rx_terminate_run [of w cfg]) (use live head in \<open>auto simp: rx_live_def\<close>)
  have upd: "w\<lparr>ws_ext_user := ws_ext_user w\<rparr> = w" by simp
  show ?thesis
    using data_opcodeD [OF opc] cfg head t
    by (auto simp: client_spill_def client_deliver_def recorder_def upd rx_tokens_def Let_def rx_delivered_def)
qed

interpretation srv: frame_receiver "recording bufsize flag"
  "libwebsocket_interpret_incoming_packet (recording bufsize flag)" "libwebsocket_rx_sm (recording bufsize flag)"
  "rx_spill (recording bufsize flag)" "\<lambda>masked zero. zero" LWS_CALLBACK_RECEIVE for bufsize flag
  by unfold_locales
    (auto simp: rx_live_def rx_spill_data libwebsocket_rx_sm_def rx_payload_def)

interpretation cli: frame_receiver "recording bufsize flag"
  "client_read (recording bufsize flag)" "libwebsocket_client_rx_sm (recording bufsize flag)"
  "client_spill (recording bufsize flag)" "\<lambda>masked zero. \<not> masked \<or> zero" LWS_CALLBACK_CLIENT_RECEIVE for bufsize flag
  by unfold_locales
    (auto simp: rx_live_def client_spill_data libwebsocket_client_rx_sm_def client_payload_def)

section \<open>The header of a frame\<close>

text \<open>The length bytes that the sender writes, joined again.\<close>

lemma byte_of_length:
  "k + 8 \<le> 64 \<Longrightarrow> (word_of_nat (n div 2 ^ k) :: u8) = ucast (drop_bit k (word_of_nat n :: u64))"
  by (rule bit_word_eqI) (auto simp: bit_simps simp flip: drop_bit_eq_div)

lemma length_bits: "n < 2 ^ k \<Longrightarrow> k \<le> j \<Longrightarrow> \<not> bit (word_of_nat n :: u64) j"
  using bit_take_bit_iff [of k n j] by (simp add: bit_simps take_bit_nat_eq_self)

lemma join16: "(\<And>j. 16 \<le> j \<Longrightarrow> \<not> bit x j) \<Longrightarrow>
    push_bit 8 (ucast (ucast (drop_bit 8 x) :: u8)) OR ucast (ucast x :: u8) = (x :: u64)"
  by (rule bit_word_eqI) (auto simp: bit_simps intro: leI, (metis add.commute le_add_diff_inverse2 le_less_linear less_diff_conv2 numeral_Bit0 )+)

lemma len16_join:
  assumes "n < 65536"
  shows "push_bit 8 (ucast (word_of_nat (n div 2 ^ 8) :: u8)) OR ucast (word_of_nat n :: u8) = (word_of_nat n :: u64)"
proof -
  have "(word_of_nat n :: u8) = ucast (word_of_nat n :: u64)" using byte_of_length [of 0 n] by simp
  then show ?thesis unfolding byte_of_length [of 8 n, simplified]
    using join16 [of "word_of_nat n"] length_bits [of n 16] assms byte_of_length [of 8 n] by simp
qed

lemma byte_slice: "bit (push_bit k (ucast (ucast (drop_bit k x) :: u8)) :: u64) j
    \<longleftrightarrow> j < 64 \<and> k \<le> j \<and> j < k + 8 \<and> bit (x :: u64) j"
  by (auto simp: bit_simps)

lemma join64:
  fixes x :: u64
  defines "B \<equiv> (\<lambda>k. push_bit k (ucast (ucast (drop_bit k x) :: u8)) :: u64)"
  shows "B 56 OR B 48 OR B 40 OR B 32 OR B 24 OR B 16 OR B 8 OR B 0 = x"
  unfolding B_def
  by (rule bit_word_eqI) (simp only: bit_or_iff byte_slice, auto simp: not_less)

lemma len64_join:
  assumes "n < 2 ^ 63"
  shows "push_bit 56 (ucast (word_of_nat (n div 2 ^ 56) AND 0x7f :: u8)) OR
     push_bit 48 (ucast (word_of_nat (n div 2 ^ 48) :: u8)) OR
     push_bit 40 (ucast (word_of_nat (n div 2 ^ 40) :: u8)) OR
     push_bit 32 (ucast (word_of_nat (n div 2 ^ 32) :: u8)) OR
     push_bit 24 (ucast (word_of_nat (n div 2 ^ 24) :: u8)) OR
     push_bit 16 (ucast (word_of_nat (n div 2 ^ 16) :: u8)) OR
     push_bit 8 (ucast (word_of_nat (n div 2 ^ 8) :: u8)) OR
     ucast (word_of_nat n :: u8) = (word_of_nat n :: u64)"
    "\<not> bit (word_of_nat (n div 2 ^ 56) AND 0x7f :: u8) 7"
proof -
  define x :: u64 where "x = word_of_nat n"
  have nb: "\<not> bit x 63" using length_bits [of n 63 63] assms by (simp add: x_def)
  have b: "(word_of_nat (n div 2 ^ k) :: u8) = ucast (drop_bit k x)" if "k + 8 \<le> 64" for k
    using byte_of_length [OF that] by (simp add: x_def)
  have z: "(word_of_nat n :: u8) = ucast (drop_bit 0 x)" using b [of 0] by simp
  have m: "ucast (drop_bit 56 x) AND 0x7f = (ucast (drop_bit 56 x) :: u8)"
    by (rule bit_word_eqI) (use nb in \<open>auto simp: u8_masks bit_simps dest!: bit_u8_cases\<close>)
  have bs: "(word_of_nat (n div 2 ^ 56) :: u8) = ucast (drop_bit 56 x)"
    "(word_of_nat (n div 2 ^ 48) :: u8) = ucast (drop_bit 48 x)"
    "(word_of_nat (n div 2 ^ 40) :: u8) = ucast (drop_bit 40 x)"
    "(word_of_nat (n div 2 ^ 32) :: u8) = ucast (drop_bit 32 x)"
    "(word_of_nat (n div 2 ^ 24) :: u8) = ucast (drop_bit 24 x)"
    "(word_of_nat (n div 2 ^ 16) :: u8) = ucast (drop_bit 16 x)"
    "(word_of_nat (n div 2 ^ 8) :: u8) = ucast (drop_bit 8 x)"
    by (rule b, simp)+
  show "push_bit 56 (ucast (word_of_nat (n div 2 ^ 56) AND 0x7f :: u8)) OR
     push_bit 48 (ucast (word_of_nat (n div 2 ^ 48) :: u8)) OR
     push_bit 40 (ucast (word_of_nat (n div 2 ^ 40) :: u8)) OR
     push_bit 32 (ucast (word_of_nat (n div 2 ^ 32) :: u8)) OR
     push_bit 24 (ucast (word_of_nat (n div 2 ^ 24) :: u8)) OR
     push_bit 16 (ucast (word_of_nat (n div 2 ^ 16) :: u8)) OR
     push_bit 8 (ucast (word_of_nat (n div 2 ^ 8) :: u8)) OR
     ucast (word_of_nat n :: u8) = (word_of_nat n :: u64)"
    unfolding bs z m x_def [symmetric] using join64 [of x] by (simp only: push_bit_0_id id_apply)
  show "\<not> bit (word_of_nat (n div 2 ^ 56) AND 0x7f :: u8) 7"
    unfolding u8_masks by (simp add: bit_simps)
qed

lemma len7_short:
  assumes "n < 126"
  shows "(word_of_nat n OR 0x80 :: u8) AND 0x7f = word_of_nat n" "bit (word_of_nat n OR 0x80 :: u8) 7"
    "(word_of_nat n :: u8) AND 0x7f = word_of_nat n" "\<not> bit (word_of_nat n :: u8) 7"
    "(word_of_nat n :: u8) \<noteq> 126" "(word_of_nat n :: u8) \<noteq> 127"
    "(ucast (word_of_nat n :: u8) :: u64) = word_of_nat n"
proof -
  have u: "unat (word_of_nat n :: u8) = n" using assms by (simp add: unat_of_nat take_bit_nat_eq_self)
  have t: "take_bit 7 n = n" using assms by (simp add: take_bit_nat_eq_self)
  show "(word_of_nat n OR 0x80 :: u8) AND 0x7f = word_of_nat n"
    "(word_of_nat n :: u8) AND 0x7f = word_of_nat n"
    using t by (simp_all add: u8_masks take_bit_of_nat)
  show "bit (word_of_nat n OR 0x80 :: u8) 7" by (simp add: bit_simps)
  have "\<not> bit (take_bit 7 n) 7" by (simp add: bit_take_bit_iff)
  then show "\<not> bit (word_of_nat n :: u8) 7" unfolding t by (simp add: bit_simps)
  show "(word_of_nat n :: u8) \<noteq> 126" "(word_of_nat n :: u8) \<noteq> 127" using u assms by auto
  show "(ucast (word_of_nat n :: u8) :: u64) = word_of_nat n"
    by (metis u of_nat_unat)
qed

end
