(* ===== verification/Ws_Frames.thy ===== *)
theory Ws_Frames
  imports Ws_Rx
begin

text \<open>
  Whole frames through the two receive parsers: the frame that \<open>ws_encode\<close> describes, masked for
  the server and plain for the client, is taken apart again whatever its length, and a stream of
  frames is delivered in order however the network cuts it. With the output theorems this gives
  the link from a sending peer to a receiving one.
\<close>

section \<open>Streams of messages\<close>

text \<open>Segments as they arrive, each given to the parser by one read.\<close>

fun feed :: "('s \<Rightarrow> bytes \<Rightarrow> ('s \<times> int) option) \<Rightarrow> 's \<Rightarrow> bytes list \<Rightarrow> ('s \<times> int) option" where
  "feed run s [] = Some (s, 0)"
| "feed run s (seg # segs) = do {
     (s, n) \<leftarrow> run s seg;
     if n < 0 then Some (s, n) else feed run s segs }"

text \<open>A receiver that takes bytes one after the other and understands one encoded message.\<close>

locale message_receiver =
  fixes run :: "'s \<Rightarrow> bytes \<Rightarrow> ('s \<times> int) option"
    and ready :: "'s \<Rightarrow> bool"
    and got :: "'s \<Rightarrow> 'd list"
    and enc :: "'m \<Rightarrow> bytes"
    and ok :: "'m \<Rightarrow> bool"
    and pieces :: "'m \<Rightarrow> 'd list"
  assumes run_Nil: "run s [] = Some (s, 0)"
    and run_append: "run s xs = Some (t, 0) \<Longrightarrow> run s (xs @ ys) = run t ys"
    and run_split: "run s (xs @ ys) = Some (t, 0) \<Longrightarrow> \<exists>u. run s xs = Some (u, 0) \<and> run u ys = Some (t, 0)"
    and message: "ready s \<Longrightarrow> ok m \<Longrightarrow>
      \<exists>t. run s (enc m) = Some (t, 0) \<and> ready t \<and> got t = got s @ pieces m"
begin

lemma messages: "ready s \<Longrightarrow> (\<forall>m \<in> set ms. ok m) \<Longrightarrow>
    \<exists>t. run s (concat (map enc ms)) = Some (t, 0) \<and> ready t \<and> got t = got s @ concat (map pieces ms)"
proof (induction ms arbitrary: s)
  case (Cons m ms)
  then obtain u where "run s (enc m) = Some (u, 0)" "ready u" "got u = got s @ pieces m"
    using message by (meson list.set_intros(1))
  with Cons.IH [of u] Cons.prems show ?case by (auto simp: run_append)
qed (simp add: run_Nil)

lemma feed_concat: "run s (concat segs) = Some (t, 0) \<Longrightarrow> feed run s segs = Some (t, 0)"
proof (induction segs arbitrary: s)
  case (Cons seg segs)
  then obtain u where "run s seg = Some (u, 0)" "run u (concat segs) = Some (t, 0)"
    using run_split by fastforce
  with Cons.IH show ?case by simp
qed (simp add: run_Nil)

lemma feed_messages:
  assumes "ready s" "\<forall>m \<in> set ms. ok m" "concat segs = concat (map enc ms)"
  shows "\<exists>t. feed run s segs = Some (t, 0) \<and> ready t \<and> got t = got s @ concat (map pieces ms)"
  using messages [OF assms(1,2)] feed_concat [of s segs] assms(3) by auto

end

section \<open>The server\<close>

lemma server_payload_run:
  assumes "recorder cfg" "rx_in_payload cfg w (length bs)"
  shows "\<exists>w'. libwebsocket_interpret_incoming_packet cfg w bs = Some (w', 0) \<and> rx_between cfg w' \<and>
      ws_delivered w' = ws_delivered w @ deliveries LWS_CALLBACK_RECEIVE
        (chunks (rx_size cfg) (rx_holds w) (rx_clear (ws_zero_nonce w) w bs)) \<and>
      out_stream w' = out_stream w"
  using srv.payload_run assms(2) recorder_eq [OF assms(1)] by metis

lemma interpret_step: "ws_rxflow_allow w \<Longrightarrow> ws_rxflow_buffer w = None \<Longrightarrow>
    libwebsocket_interpret_incoming_packet cfg w (c # cs) = do {
      (w, m) \<leftarrow> libwebsocket_rx_sm cfg w c;
      if m < 0 then Some (w, -1) else libwebsocket_interpret_incoming_packet cfg w cs }"
  by simp

lemma interpret_append:
  "libwebsocket_interpret_incoming_packet cfg w xs = Some (w', 0) \<Longrightarrow>
   libwebsocket_interpret_incoming_packet cfg w (xs @ ys) = libwebsocket_interpret_incoming_packet cfg w' ys"
proof (induction xs arbitrary: w)
  case (Cons c cs)
  let ?w = "if ws_rxflow_buffer w \<noteq> None then w\<lparr>ws_rxflow_pos := ws_rxflow_pos w + 1\<rparr> else w"
  have allow: "ws_rxflow_allow w" using Cons.prems by (auto split: if_splits)
  with Cons.prems obtain v m where sm: "libwebsocket_rx_sm cfg ?w c = Some (v, m)" "\<not> m < 0"
    "libwebsocket_interpret_incoming_packet cfg v cs = Some (w', 0)"
    by (auto simp: Let_def split: if_splits bind_splits)
  with Cons.IH [OF sm(3)] allow show ?case by (simp add: Let_def)
qed simp

text \<open>The parser after the length of a masked frame.\<close>

definition rx_sized :: "'x wsi \<Rightarrow> u8 \<Rightarrow> nat \<Rightarrow> 'x wsi" where
  "rx_sized w b0 n = (rx_first (w\<lparr>ws_zero_nonce := True\<rparr>) b0)\<lparr>ws_masked := True,
     ws_packet_length := word_of_nat n, ws_rx_state := LWS_RXPS_07_COLLECT_FRAME_KEY_1\<rparr>"

lemma rx_first_simps [simp]:
  "ws_rxflow_allow (rx_first w c) = ws_rxflow_allow w" "ws_rxflow_buffer (rx_first w c) = ws_rxflow_buffer w"
  "ws_opcode (rx_first w c) = c AND 0x0f" "ws_rx_state (rx_first w c) = LWS_RXPS_04_FRAME_HDR_LEN"
  "ws_zero_nonce (rx_first w c) = ws_zero_nonce w" "ws_nonce (rx_first w c) = ws_nonce w"
  "ws_rx_buf (rx_first w c) = ws_rx_buf w" "ws_rx_head (rx_first w c) = ws_rx_head w"
  "ws_rev (rx_first w c) = ws_rev w" "ws_rxflow_pending (rx_first w c) = ws_rxflow_pending w"
  "ws_delivered (rx_first w c) = ws_delivered w" "ws_wire (rx_first w c) = ws_wire w"
  "ws_trunc (rx_first w c) = ws_trunc w" "ws_trunc_off (rx_first w c) = ws_trunc_off w"
  "ws_trunc_len (rx_first w c) = ws_trunc_len w" "ws_state (rx_first w c) = ws_state w"
  "ws_mode (rx_first w c) = ws_mode w"
  by (simp_all add: rx_first_def Let_def)

lemma server_first:
  assumes "rx_live cfg w" "ws_rx_state w = LWS_RXPS_NEW"
  shows "libwebsocket_interpret_incoming_packet cfg w (b0 # cs)
    = libwebsocket_interpret_incoming_packet cfg (rx_first (w\<lparr>ws_zero_nonce := True\<rparr>) b0) cs"
  using assms by (simp add: libwebsocket_rx_sm_def rx_live_def)

lemma server_length_short:
  assumes live: "rx_live cfg w" "ws_rx_state w = LWS_RXPS_NEW" and n: "n < 126"
  shows "libwebsocket_interpret_incoming_packet cfg w (b0 # (word_of_nat n OR 0x80) # cs)
    = libwebsocket_interpret_incoming_packet cfg (rx_sized w b0 n) cs"
  unfolding server_first [OF live]
  using live len7_short [OF n]
  by (simp add: interpret_step libwebsocket_rx_sm_def rx_live_def rx_length_def Let_def rx_sized_def)

lemma server_length_run:
  assumes live: "rx_live cfg w" "ws_rx_state w = LWS_RXPS_NEW"
    and n: "n < 2 ^ 63" "n < 126 \<or> (b0 AND 0x0f) AND 8 = 0"
  shows "libwebsocket_interpret_incoming_packet cfg w (ws_header b0 0x80 n @ cs)
    = libwebsocket_interpret_incoming_packet cfg (rx_sized w b0 n) cs"
proof -
  consider "n < 126" | "126 \<le> n" "n < 65536" | "65536 \<le> n" by linarith
  then show ?thesis
  proof cases
    case 1
    then show ?thesis using server_length_short [OF live] by (simp add: ws_header_def del: libwebsocket_interpret_incoming_packet.simps)
  next
    case 2
    with n have "(b0 AND 0x0f) AND 8 = 0" by simp
    with 2 live len16_join [of n] show ?thesis
      by (simp add: ws_header_def server_first [OF live] interpret_step libwebsocket_rx_sm_def rx_live_def rx_length_def rx_len_or_def
         rx_after_len_def Let_def rx_sized_def and.assoc del: libwebsocket_interpret_incoming_packet.simps)
  next
    case 3
    with n have "(b0 AND 0x0f) AND 8 = 0" by simp
    with 3 live len64_join [of n] n show ?thesis
      by (simp add: ws_header_def server_first [OF live] interpret_step libwebsocket_rx_sm_def rx_live_def rx_length_def rx_len_or_def
         rx_after_len_def Let_def rx_sized_def or.assoc and.assoc del: libwebsocket_interpret_incoming_packet.simps)
  qed
qed
lemma rx_sized_live: "rx_live cfg w \<Longrightarrow> rx_live cfg (rx_sized w b0 n)"
  by (simp add: rx_live_def rx_sized_def)

definition rx_keyed :: "'x wsi \<Rightarrow> u8 \<Rightarrow> nat \<Rightarrow> bytes \<Rightarrow> 'x wsi" where
  "rx_keyed w b0 n key = (rx_sized w b0 n)\<lparr>ws_nonce := key, ws_zero_nonce := (key = [0, 0, 0, 0]),
     ws_rx_state := LWS_RXPS_PAYLOAD_UNTIL_LENGTH_EXHAUSTED, ws_mask_index := 0\<rparr>"

lemma rx_nonce_in: "i < length (ws_nonce w) \<Longrightarrow> rx_nonce w i c st
    = Some (w\<lparr>ws_nonce := (ws_nonce w)[i := c], ws_zero_nonce := (ws_zero_nonce w \<and> c = 0), ws_rx_state := st\<rparr>)"
  by (simp add: rx_nonce_def access_simps)

lemma len4E: "length xs = 4 \<Longrightarrow> (\<And>a b c d. xs = [a, b, c, d] \<Longrightarrow> P) \<Longrightarrow> P"
  by (auto simp: numeral_eq_Suc length_Suc_conv)

lemma server_key_run:
  assumes live: "rx_live cfg w" and key: "length key = 4" and n: "n < 2 ^ 64"
  shows "libwebsocket_interpret_incoming_packet cfg (rx_sized w b0 n) (key @ cs)
    = (if n = 0 then do {
         (v, m) \<leftarrow> rx_spill cfg ((rx_keyed w b0 n key)\<lparr>ws_rx_state := LWS_RXPS_NEW\<rparr>);
         if m < 0 then Some (v, -1) else libwebsocket_interpret_incoming_packet cfg v cs }
       else libwebsocket_interpret_incoming_packet cfg (rx_keyed w b0 n key) cs)"
proof -
  obtain a b c d where k: "key = [a, b, c, d]" using len4E [OF key] .
  obtain x y z u where m: "ws_nonce w = [x, y, z, u]" using len4E live by (metis rx_live_def)
  have zero: "(word_of_nat n :: u64) = 0 \<longleftrightarrow> n = 0" using packet_length_zero [OF n] .
  show ?thesis
    using live m zero
    by (auto simp: k rx_sized_def rx_keyed_def interpret_step libwebsocket_rx_sm_def rx_live_def
        rx_nonce_in Let_def simp del: libwebsocket_interpret_incoming_packet.simps)
qed

lemma rx_spill_empty:
  assumes "recorder cfg" "data_opcode (ws_opcode w)" "ws_rx_head w = 0"
  shows "rx_spill cfg w = Some (w, 0)"
proof -
  have "w\<lparr>ws_ext_user := ws_ext_user w\<rparr> = w" "w\<lparr>ws_rx_head := 0\<rparr> = w" using assms(3) by simp_all
  with assms data_opcodeD [OF assms(2)] show ?thesis
    by (auto simp: rx_spill_def recorder_def rx_tokens_def Let_def)
qed

lemma interpret_split:
  "libwebsocket_interpret_incoming_packet cfg w (xs @ ys) = Some (w', 0) \<Longrightarrow>
   \<exists>v. libwebsocket_interpret_incoming_packet cfg w xs = Some (v, 0) \<and>
     libwebsocket_interpret_incoming_packet cfg v ys = Some (w', 0)"
proof (induction xs arbitrary: w)
  case (Cons c cs)
  let ?w = "if ws_rxflow_buffer w \<noteq> None then w\<lparr>ws_rxflow_pos := ws_rxflow_pos w + 1\<rparr> else w"
  have allow: "ws_rxflow_allow w" using Cons.prems by (auto split: if_splits)
  with Cons.prems obtain v m where sm: "libwebsocket_rx_sm cfg ?w c = Some (v, m)" "\<not> m < 0"
    "libwebsocket_interpret_incoming_packet cfg v (cs @ ys) = Some (w', 0)"
    by (auto simp: Let_def split: if_splits bind_splits)
  with Cons.IH [OF sm(3)] allow show ?case by (simp add: Let_def)
qed simp

lemma server_frame:
  assumes cfg: "recorder cfg" and w: "rx_between cfg w" and opc: "data_opcode (b0 AND 0x0f)"
    and key: "length key = 4" and p: "length p < 2 ^ 63"
  shows "\<exists>w'. libwebsocket_interpret_incoming_packet cfg w (ws_encode b0 (Some key) p) = Some (w', 0) \<and>
    rx_between cfg w' \<and> ws_delivered w' = ws_delivered w @ deliveries LWS_CALLBACK_RECEIVE (chunks (rx_size cfg) [] p) \<and>
    out_stream w' = out_stream w"
proof -
  have live: "rx_live cfg w" "ws_rx_state w = LWS_RXPS_NEW" "ws_rx_head w = 0"
    using w by (simp_all add: rx_between_def)
  have ctl: "(b0 AND 0x0f) AND 8 = 0" using data_opcodeD [OF opc] by auto
  have pos: "0 < rx_size cfg" by (simp add: rx_size_def)
  let ?k = "rx_keyed w b0 (length p) key"
  have same: "ws_delivered ?k = ws_delivered w" "out_stream ?k = out_stream w"
    by (simp_all add: rx_keyed_def rx_sized_def out_stream_def trunc_bytes_def split: option.split)
  have run: "libwebsocket_interpret_incoming_packet cfg w (ws_encode b0 (Some key) p)
     = libwebsocket_interpret_incoming_packet cfg (rx_sized w b0 (length p)) (key @ mask_bytes key 0 p)"
    using server_length_run [OF live(1,2), of "length p" b0] p ctl by (simp add: ws_encode_def)
  show ?thesis
  proof (cases "p = []")
    case True
    let ?n = "?k\<lparr>ws_rx_state := LWS_RXPS_NEW\<rparr>"
    have "rx_spill cfg ?n = Some (?n, 0)"
      by (rule rx_spill_empty [OF cfg]) (use opc live in \<open>simp_all add: rx_keyed_def rx_sized_def\<close>)
    moreover have "rx_between cfg ?n" using live key by (simp add: rx_between_def rx_live_def rx_keyed_def rx_sized_def)
    moreover have "out_stream ?n = out_stream w" "ws_delivered ?n = ws_delivered w"
      using same by (simp_all add: out_stream_def trunc_bytes_def split: option.splits)
    ultimately show ?thesis using run True server_key_run [OF live(1) key, of 0 b0 "[]"]
      by (simp add: deliveries_def)
  next
    case False
    have in_p: "rx_in_payload cfg ?k (length (mask_bytes key 0 p))"
      using False live opc p pos key by (simp add: rx_in_payload_def rx_live_def rx_keyed_def rx_sized_def)
    have k: "rx_holds ?k = []" using live by (simp add: rx_keyed_def rx_sized_def rx_holds_def)
    have clear: "rx_clear (ws_zero_nonce ?k) ?k (mask_bytes key 0 p) = p"
      by (auto simp: rx_clear_def rx_keyed_def mask_bytes_mask_bytes zero_mask)
    from server_payload_run [OF cfg in_p] obtain w' where
      "libwebsocket_interpret_incoming_packet cfg ?k (mask_bytes key 0 p) = Some (w', 0)" "rx_between cfg w'"
      "ws_delivered w' = ws_delivered ?k @ deliveries LWS_CALLBACK_RECEIVE (chunks (rx_size cfg) [] p)"
      "out_stream w' = out_stream ?k"
      unfolding k clear by blast
    with run False p server_key_run [OF live(1) key, of "length p" b0 "mask_bytes key 0 p"] same show ?thesis by simp
  qed
qed



section \<open>The client\<close>

lemma client_step: "client_read cfg w (c # cs) = do {
    (w, m) \<leftarrow> libwebsocket_client_rx_sm cfg w c;
    if m < 0 then Some (w, -1) else client_read cfg w cs }"
  by simp

lemma client_append: "client_read cfg w xs = Some (w', 0) \<Longrightarrow> client_read cfg w (xs @ ys) = client_read cfg w' ys"
  by (induction xs arbitrary: w) (auto split: bind_splits if_splits)

lemma client_split: "client_read cfg w (xs @ ys) = Some (w', 0) \<Longrightarrow>
   \<exists>v. client_read cfg w xs = Some (v, 0) \<and> client_read cfg v ys = Some (w', 0)"
proof (induction xs arbitrary: w)
  case (Cons c cs)
  then obtain v m where "libwebsocket_client_rx_sm cfg w c = Some (v, m)" "\<not> m < 0"
    "client_read cfg v (cs @ ys) = Some (w', 0)"
    by (auto split: if_splits bind_splits)
  with Cons.IH show ?case by simp
qed simp

definition client_sized :: "'x wsi \<Rightarrow> u8 \<Rightarrow> nat \<Rightarrow> 'x wsi" where
  "client_sized w b0 n = (rx_first w b0)\<lparr>ws_masked := False, ws_packet_length := word_of_nat n,
     ws_rx_state := (if n = 0 then LWS_RXPS_NEW else LWS_RXPS_PAYLOAD_UNTIL_LENGTH_EXHAUSTED)\<rparr>"

lemma client_first:
  assumes "ws_rx_state w = LWS_RXPS_NEW" "ws_rev w = 13"
  shows "client_read cfg w (b0 # cs) = client_read cfg (rx_first w b0) cs"
  using assms by (simp add: libwebsocket_client_rx_sm_def)

lemma client_length_run:
  assumes w: "ws_rx_state w = LWS_RXPS_NEW" "ws_rev w = 13"
    and n: "n < 2 ^ 63" "n < 126 \<or> (b0 AND 0x0f) AND 8 = 0"
  shows "client_read cfg w (ws_header b0 0 n @ cs)
    = (if n = 0 then do { (v, m) \<leftarrow> client_spill cfg (client_sized w b0 n);
         if m < 0 then Some (v, -1) else client_read cfg v cs }
       else client_read cfg (client_sized w b0 n) cs)"
proof -
  have zero: "(word_of_nat n :: u64) = 0 \<longleftrightarrow> n = 0" using packet_length_zero [of n] n(1) by simp
  consider "n < 126" | "126 \<le> n" "n < 65536" | "65536 \<le> n" by linarith
  then show ?thesis
  proof cases
    case 1
    have "client_read cfg w (b0 # word_of_nat n # cs) = (if n = 0 then do { (v, m) \<leftarrow> client_spill cfg (client_sized w b0 n);
         if m < 0 then Some (v, -1) else client_read cfg v cs }
       else client_read cfg (client_sized w b0 n) cs)"
      unfolding client_first [OF w] using zero len7_short [OF 1]
      by (simp add: client_step libwebsocket_client_rx_sm_def client_length_def
          client_after_len_def Let_def client_sized_def del: client_read.simps)
    with 1 show ?thesis by (simp add: ws_header_def del: client_read.simps)
  next
    case 2
    with n have "(b0 AND 0x0f) AND 8 = 0" by simp
    with 2 w zero len16_join [of n] show ?thesis
      by (simp add: ws_header_def client_step libwebsocket_client_rx_sm_def client_length_def
         rx_len_or_def client_after_len_def Let_def client_sized_def and.assoc del: client_read.simps)
  next
    case 3
    with n have "(b0 AND 0x0f) AND 8 = 0" by simp
    with 3 w zero len64_join [of n] n show ?thesis
      by (simp add: ws_header_def client_step libwebsocket_client_rx_sm_def client_length_def
         rx_len_or_def client_after_len_def Let_def client_sized_def or.assoc and.assoc del: client_read.simps)
  qed
qed

lemma client_spill_empty:
  assumes "recorder cfg" "data_opcode (ws_opcode w)" "ws_rx_head w = 0"
  shows "client_spill cfg w = Some (w, 0)"
proof -
  have "w\<lparr>ws_ext_user := ws_ext_user w\<rparr> = w" "w\<lparr>ws_rx_head := 0\<rparr> = w" using assms(3) by simp_all
  with assms data_opcodeD [OF assms(2)] show ?thesis
    by (auto simp: client_spill_def client_deliver_def recorder_def rx_tokens_def Let_def)
qed

lemma client_payload_run:
  assumes "recorder cfg" "rx_in_payload cfg w (length bs)" "\<not> ws_masked w"
  shows "\<exists>w'. client_read cfg w bs = Some (w', 0) \<and> rx_between cfg w' \<and>
      ws_delivered w' = ws_delivered w @ deliveries LWS_CALLBACK_CLIENT_RECEIVE
        (chunks (rx_size cfg) (rx_holds w) bs) \<and> out_stream w' = out_stream w"
  using cli.payload_run [of "cfg_rx_buffer_size cfg" "cfg_no_buffer_all_partial_tx cfg" w bs]
    assms(2,3) recorder_eq [OF assms(1)] by (simp add: rx_clear_def)

lemma client_frame:
  assumes cfg: "recorder cfg" and w: "rx_between cfg w" and opc: "data_opcode (b0 AND 0x0f)"
    and p: "length p < 2 ^ 63"
  shows "\<exists>w'. client_read cfg w (ws_encode b0 None p) = Some (w', 0) \<and> rx_between cfg w' \<and>
    ws_delivered w' = ws_delivered w @ deliveries LWS_CALLBACK_CLIENT_RECEIVE (chunks (rx_size cfg) [] p) \<and>
    out_stream w' = out_stream w"
proof -
  have live: "rx_live cfg w" "ws_rx_state w = LWS_RXPS_NEW" "ws_rx_head w = 0" "ws_rev w = 13"
    using w by (simp_all add: rx_between_def rx_live_def)
  have ctl: "(b0 AND 0x0f) AND 8 = 0" using data_opcodeD [OF opc] by auto
  have pos: "0 < rx_size cfg" by (simp add: rx_size_def)
  let ?k = "client_sized w b0 (length p)"
  have same: "ws_delivered ?k = ws_delivered w" "out_stream ?k = out_stream w" "rx_holds ?k = []" "\<not> ws_masked ?k"
    using live(3) by (simp_all add: client_sized_def out_stream_def trunc_bytes_def rx_holds_def split: option.split)
  note run = client_length_run [OF live(2,4), of "length p" b0 cfg p]
  show ?thesis
  proof (cases "p = []")
    case True
    have "client_spill cfg (client_sized w b0 0) = Some (client_sized w b0 0, 0)"
      by (rule client_spill_empty [OF cfg]) (use opc live in \<open>simp_all add: client_sized_def\<close>)
    moreover have "rx_between cfg (client_sized w b0 0)"
      using live by (simp add: rx_between_def rx_live_def client_sized_def)
    ultimately show ?thesis using run True same ctl by (simp add: ws_encode_def)
  next
    case False
    have "rx_in_payload cfg ?k (length p)"
      using False live opc p pos by (simp add: rx_in_payload_def rx_live_def client_sized_def)
    from client_payload_run [OF cfg this same(4)] run False p ctl same show ?thesis by (simp add: ws_encode_def)
  qed
qed

section \<open>Both as receivers of messages\<close>

definition server_message_ok :: "u8 \<times> bytes \<times> bytes \<Rightarrow> bool" where
  "server_message_ok m \<longleftrightarrow> (case m of (b0, key, p) \<Rightarrow>
     data_opcode (b0 AND 0x0f) \<and> length key = 4 \<and> length p < 2 ^ 63)"

definition client_message_ok :: "u8 \<times> bytes \<Rightarrow> bool" where
  "client_message_ok m \<longleftrightarrow> (case m of (b0, p) \<Rightarrow> data_opcode (b0 AND 0x0f) \<and> length p < 2 ^ 63)"

interpretation srv_link: message_receiver "libwebsocket_interpret_incoming_packet (recording bufsize flag :: 'x lws_cfg)"
  "rx_between (recording bufsize flag :: 'x lws_cfg)" ws_delivered "\<lambda>(b0, key, p). ws_encode b0 (Some key) p"
  server_message_ok "\<lambda>(b0, key, p). deliveries LWS_CALLBACK_RECEIVE (chunks (rx_size (recording bufsize flag :: 'x lws_cfg)) [] p)"
  for bufsize flag
proof (unfold_locales, goal_cases)
  case (4 s m)
  obtain b0 key p where m: "m = (b0, key, p)" by (cases m)
  show ?case using server_frame [OF recorder_recording 4(1), of b0 key p] 4(2)
    by (auto simp: m server_message_ok_def)
qed (use interpret_append interpret_split in auto)

interpretation cli_link: message_receiver "client_read (recording bufsize flag :: 'x lws_cfg)"
  "rx_between (recording bufsize flag :: 'x lws_cfg)" ws_delivered "\<lambda>(b0, p). ws_encode b0 None p"
  client_message_ok "\<lambda>(b0, p). deliveries LWS_CALLBACK_CLIENT_RECEIVE (chunks (rx_size (recording bufsize flag :: 'x lws_cfg)) [] p)"
  for bufsize flag
proof (unfold_locales, goal_cases)
  case (4 s m)
  obtain b0 p where m: "m = (b0, p)" by (cases m)
  show ?case using client_frame [OF recorder_recording 4(1), of b0 p] 4(2)
    by (auto simp: m client_message_ok_def)
qed (use client_append client_split in auto)


text \<open>C21: Whatever cuts the network makes: a stream of masked data frames of any lengths, given to the
  server in segments of any sizes, is taken apart into exactly the payloads that were masked, each
  handed to the user in the pieces the receive buffer allows, in order, and the parser is between
  frames again.\<close>

theorem server_receives_frames:
  fixes cfg :: "'x lws_cfg"
  assumes "recorder cfg" and "rx_between cfg w" and "\<forall>m \<in> set ms. server_message_ok m"
    and "concat segs = concat (map (\<lambda>(b0, key, p). ws_encode b0 (Some key) p) ms)"
  shows "\<exists>w'. feed (libwebsocket_interpret_incoming_packet cfg) w segs = Some (w', 0) \<and> rx_between cfg w' \<and>
    ws_delivered w' = ws_delivered w @
      concat (map (\<lambda>(b0, key, p). deliveries LWS_CALLBACK_RECEIVE (chunks (rx_size cfg) [] p)) ms)"
  using srv_link.feed_messages [of "cfg_rx_buffer_size cfg" "cfg_no_buffer_all_partial_tx cfg" w ms segs]
    assms recorder_eq [OF assms(1)] by simp

theorem server_receives_frames_witness:
  "\<exists>w'. feed (libwebsocket_interpret_incoming_packet (new_cfg True)) (new_wsi LWS_CONNMODE_WS_SERVING)
      [[0x81, 0x82, 1], [2, 3, 4, 0x49], [0x6b]] = Some (w', 0) \<and>
    ws_delivered w' = [(LWS_CALLBACK_RECEIVE, [0x48, 0x69])]"
proof -
  have r: "recorder (new_cfg True)" by (simp add: recorder_def new_cfg_def)
  have b: "rx_between (new_cfg True) (new_wsi LWS_CONNMODE_WS_SERVING)"
    by (simp add: rx_between_def rx_live_def new_cfg_def new_wsi_def rx_size_def)
  have ok: "\<forall>m \<in> set [(0x81, [1, 2, 3, 4], [0x48, 0x69])]. server_message_ok m"
    by (simp add: server_message_ok_def data_opcode_def)
  have c: "concat [[0x81, 0x82, 1], [2, 3, 4, 0x49], [0x6b]]
      = concat (map (\<lambda>(b0, key, p). ws_encode b0 (Some key) p) [(0x81, [1, 2, 3, 4], [0x48, 0x69])])"
    by code_simp
  have d: "ws_delivered (new_wsi LWS_CONNMODE_WS_SERVING) @
      concat (map (\<lambda>(b0, key, p). deliveries LWS_CALLBACK_RECEIVE (chunks (rx_size (new_cfg True)) [] p))
        [(0x81, [1, 2, 3, 4], [0x48, 0x69])]) = [(LWS_CALLBACK_RECEIVE, [0x48, 0x69])]"
    by code_simp
  show ?thesis using server_receives_frames [OF r b ok c] unfolding d by auto
qed

section \<open>From one peer to the other\<close>

definition data_protocol :: "u8 \<Rightarrow> bool" where
  "data_protocol protocol = (case write_opcode protocol of None \<Rightarrow> False | Some opc \<Rightarrow> data_opcode opc)"

lemma data_opcode_first_byte: "data_opcode opc \<Longrightarrow> data_opcode (first_byte protocol opc AND 0x0f)"
  by (auto simp: data_opcode_def first_byte_def)

fun sent :: "'m stream_op list \<Rightarrow> 'm list" where
  "sent [] = []"
| "sent (Emit m # ops) = m # sent ops"
| "sent (Flush # ops) = sent ops"

lemma emitted_sent: "emitted f ops = concat (map f (sent ops))"
  by (induction ops rule: sent.induct) auto

definition as_frame :: "u8 \<times> bytes \<Rightarrow> u8 \<times> bytes" where
  "as_frame m = (case m of (protocol, p) \<Rightarrow> (first_byte protocol (the (write_opcode protocol)), p))"

lemma message_as_frame:
  assumes "data_protocol (fst m)" "length (snd m) < 2 ^ 63"
  shows "message_bytes m = (\<lambda>(b0, p). ws_encode b0 None p) (as_frame m)" "client_message_ok (as_frame m)"
  using assms by (cases m; auto simp: message_bytes_def as_frame_def data_protocol_def client_message_ok_def
      data_opcode_first_byte split: option.splits)+

lemma server_to_client_stream:
  fixes ccfg :: "'x lws_cfg"
  assumes tx: "server_ready scfg s" "out_stream s = []"
      "run_ops (\<lambda>w. ws_trunc w = None) (ws_emit scfg) (ws_flush scfg) s ops = Some s'"
    and ok: "\<forall>m \<in> set (sent ops). data_protocol (fst m) \<and> length (snd m) < 2 ^ 63"
    and rx: "recorder ccfg" "rx_between ccfg c" "concat segs = out_stream s'"
  shows "\<exists>c'. feed (client_read ccfg) c segs = Some (c', 0) \<and> rx_between ccfg c' \<and>
    ws_delivered c' = ws_delivered c @
      concat (map (\<lambda>(_, p). deliveries LWS_CALLBACK_CLIENT_RECEIVE (chunks (rx_size ccfg) [] p)) (sent ops))"
proof -
  let ?e = "\<lambda>(b0, p). ws_encode b0 None p" and ?ms = "map as_frame (sent ops)"
  have "out_stream s' = concat (map message_bytes (sent ops))"
    using tx.run_ops_stream [OF tx(1,3)] tx(2) by (simp add: emitted_sent)
  also have "map message_bytes (sent ops) = map ?e ?ms"
    using ok message_as_frame(1) by (simp add: map_eq_conv)
  finally have segs: "concat segs = concat (map ?e ?ms)" using rx(3) by simp
  have "\<forall>m \<in> set ?ms. client_message_ok m" using ok message_as_frame(2) by auto
  from cli_link.feed_messages [of "cfg_rx_buffer_size ccfg" "cfg_no_buffer_all_partial_tx ccfg" c ?ms segs] this
  have "\<exists>t. feed (client_read ccfg) c segs = Some (t, 0) \<and> rx_between ccfg t \<and> ws_delivered t = ws_delivered c @
      concat (map (\<lambda>(b0, p). deliveries LWS_CALLBACK_CLIENT_RECEIVE (chunks (rx_size ccfg) [] p)) ?ms)"
    using rx(2) segs recorder_eq [OF rx(1)] by simp
  moreover have "map (\<lambda>(b0, p). deliveries LWS_CALLBACK_CLIENT_RECEIVE (chunks (rx_size ccfg) [] p)) ?ms
      = map (\<lambda>(_, p). deliveries LWS_CALLBACK_CLIENT_RECEIVE (chunks (rx_size ccfg) [] p)) (sent ops)"
    by (simp add: as_frame_def split: prod.split)
  ultimately show ?thesis by (simp only:)
qed



text \<open>C2: From a writing client to a receiving server: a data message that \<open>libwebsocket_write\<close> masks
  with the client's random nonce and issues arrives at the server as the payload that was written,
  whatever segments the network makes of the wire.\<close>

theorem client_to_server:
  fixes scfg :: "'x lws_cfg"
  assumes "write_ready ccfg c" and "cfg_no_buffer_all_partial_tx ccfg" and "ws_mode c = LWS_CONNMODE_WS_CLIENT"
    and "length (fst (libwebsockets_get_random c 4)) = 4" and "ws_wire c = []"
    and "LWS_SEND_BUFFER_PRE_PADDING \<le> off" and "off + len \<le> length mem" and "0 < len" and "len < 2 ^ 63"
    and "data_protocol protocol" and "protocol \<noteq> LWS_WRITE_HTTP"
    and "libwebsocket_write ccfg c mem off len protocol = Some (c', mem', r)" and "r \<noteq> -1"
    and "ws_trunc c' = None"
    and "recorder scfg" and "rx_between scfg s" and "concat segs = ws_wire c'"
  shows "\<exists>s'. feed (libwebsocket_interpret_incoming_packet scfg) s segs = Some (s', 0) \<and>
    rx_between scfg s' \<and> ws_delivered s' = ws_delivered s @
      deliveries LWS_CALLBACK_RECEIVE (chunks (rx_size scfg) [] (take len (drop off mem)))"
proof -
  let ?key = "fst (libwebsockets_get_random c 4)" and ?p = "take len (drop off mem)"
  obtain opc where opc: "write_opcode protocol = Some opc" "data_opcode opc"
    using assms(10) by (auto simp: data_protocol_def split: option.splits)
  have nc: "opc \<noteq> LWS_WS_OPCODE_07__CLOSE" using data_opcodeD [OF opc(2)] by simp
  have sane: "mask_sane c opc" using assms(4) nc by (simp add: mask_sane_def)
  have l: "len \<noteq> 0 \<or> protocol \<in> {LWS_WRITE_CLOSE, LWS_WRITE_PING, LWS_WRITE_PONG}" using assms(8) by simp
  have idle: "ws_trunc c = None" using assms(1) by (simp add: write_ready_def)
  have "out_stream c' = out_stream c @ next_frame c protocol opc ?p"
    using write_frame [OF assms(1,2,6,7) opc(1) assms(11) l sane] assms(12,13) by (auto split: if_splits)
  then have wire: "ws_wire c' = ws_encode (first_byte protocol opc) (Some ?key) ?p"
    using assms(3,5,14) idle nc by (simp add: out_stream_def trunc_bytes_def next_frame_def with_reason_def)
  let ?ms = "[(first_byte protocol opc, ?key, ?p)]"
  have "\<forall>m \<in> set ?ms. server_message_ok m"
    using assms(4,7,9) data_opcode_first_byte [OF opc(2)] by (simp add: server_message_ok_def)
  with srv_link.feed_messages [of "cfg_rx_buffer_size scfg" "cfg_no_buffer_all_partial_tx scfg" s ?ms segs]
    assms(16,17) wire recorder_eq [OF assms(15)] show ?thesis by simp
qed

theorem client_to_server_witness:
  "\<exists>c' mem' r s'. libwebsocket_write (new_cfg True)
      ((new_wsi LWS_CONNMODE_WS_CLIENT)\<lparr>ws_sends := [Send_accepts 99], ws_randoms := [[1, 2, 3, 4]]\<rparr>)
      (replicate 18 0 @ [0x48, 0x69] @ replicate 4 0) 18 2 LWS_WRITE_TEXT = Some (c', mem', r) \<and>
    feed (libwebsocket_interpret_incoming_packet (new_cfg True)) (new_wsi LWS_CONNMODE_WS_SERVING)
      [ws_wire c'] = Some (s', 0) \<and>
    ws_delivered s' = [(LWS_CALLBACK_RECEIVE, [0x48, 0x69])]"
proof -
  let ?c = "new_cfg True" and ?s = "new_wsi LWS_CONNMODE_WS_SERVING"
  let ?w = "(new_wsi LWS_CONNMODE_WS_CLIENT)\<lparr>ws_sends := [Send_accepts 99], ws_randoms := [[1, 2, 3, 4]]\<rparr>"
  let ?mem = "replicate 18 0 @ [0x48, 0x69] @ replicate 4 0 :: bytes"
  have ready: "write_ready ?c ?w" "cfg_no_buffer_all_partial_tx ?c" "ws_mode ?w = LWS_CONNMODE_WS_CLIENT"
    "length (fst (libwebsockets_get_random ?w 4)) = 4" "ws_wire ?w = []"
    by (simp_all add: write_ready_def new_wsi_def new_cfg_def libwebsockets_get_random_def)
  have len: "(18 :: nat) \<le> 18" "18 + 2 \<le> length ?mem" "(0 :: nat) < 2" "(2 :: nat) < 2 ^ 63" by simp_all
  have data: "data_protocol LWS_WRITE_TEXT" "LWS_WRITE_TEXT \<noteq> LWS_WRITE_HTTP"
    by (simp_all add: data_protocol_def write_opcode_def data_opcode_def)
  have "case libwebsocket_write ?c ?w ?mem 18 2 LWS_WRITE_TEXT of
      None \<Rightarrow> False | Some (c', _, r) \<Rightarrow> Option.is_none (ws_trunc c') \<and> r \<noteq> -1" by code_simp
  then obtain c' mem' r where W: "libwebsocket_write ?c ?w ?mem 18 2 LWS_WRITE_TEXT = Some (c', mem', r)"
    "r \<noteq> -1" "ws_trunc c' = None"
    by (auto simp: Option.is_none_def split: option.splits prod.splits)
  have r: "recorder ?c" by (simp add: recorder_def new_cfg_def)
  have b: "rx_between ?c ?s" by (simp add: rx_between_def rx_live_def new_cfg_def new_wsi_def rx_size_def)
  have d: "ws_delivered ?s @ deliveries LWS_CALLBACK_RECEIVE (chunks (rx_size ?c) [] (take 2 (drop 18 ?mem)))
      = [(LWS_CALLBACK_RECEIVE, [0x48, 0x69])]" by code_simp
  have "concat [ws_wire c'] = ws_wire c'" by simp
  from client_to_server [OF ready len data W r b this] W(1) show ?thesis
    unfolding d by blast
qed

end
