(* ===== verification/Ws_Control.thy ===== *)
theory Ws_Control
  imports Ws_Frames
begin

text \<open>
  Control frames and hostile input on a server connection: a ping is answered by the pong of its
  payload, control frames with an extended length are refused by both parsers, and no byte
  whatever takes the receive state machine out of its buffer while nothing is pending to be sent.
  Also three inputs on which the parsers go wrong.
\<close>

section \<open>Ping\<close>

lemma server_collect_run:
  assumes "rx_live cfg w" "ws_rx_state w = LWS_RXPS_PAYLOAD_UNTIL_LENGTH_EXHAUSTED" "bs \<noteq> []"
    "ws_packet_length w = word_of_nat (length bs)" "length bs < 2 ^ 64"
    "ws_rx_head w + length bs \<le> rx_size cfg" and cfg: "recorder cfg"
  obtains buf i u where "length buf = length (ws_rx_buf w)"
    "u = w\<lparr>ws_rx_buf := buf, ws_rx_head := ws_rx_head w + length bs, ws_mask_index := i,
       ws_packet_length := 0, ws_rx_state := LWS_RXPS_NEW\<rparr>"
    "rx_holds u = rx_holds w @ rx_clear (ws_zero_nonce w) w bs"
    "libwebsocket_interpret_incoming_packet cfg w bs
       = do { (v, m) \<leftarrow> rx_spill cfg u; if m < 0 then Some (v, -1) else Some (v, 0) }"
  using srv.collect_run [of "cfg_rx_buffer_size cfg" "cfg_no_buffer_all_partial_tx cfg" w bs] assms(1-6)
    recorder_eq [OF cfg] unfolding Let_def by (metis (no_types, lifting))

lemma ping_spill:
  assumes ready: "server_ready cfg u" "ws_trunc u = None" and opc: "ws_opcode u = LWS_WS_OPCODE_07__PING"
    and buf: "18 + ws_rx_head u \<le> length (ws_rx_buf u)"
  obtains v r where "rx_spill cfg u = Some (v, r)"
    "r = -1 \<or> r = 0 \<and> server_ready cfg v \<and> out_stream v = out_stream u @ ws_encode 0x8a None (rx_holds u) \<and>
       ws_delivered v = ws_delivered u \<and> ws_rx_state v = ws_rx_state u \<and> ws_rx_head v = 0 \<and>
       length (ws_rx_buf v) = length (ws_rx_buf u)"
    "r = -1 \<longleftrightarrow> send_fails u (length (ws_encode 0x8a None (rx_holds u)))"
proof -
  have pong: "write_opcode LWS_WRITE_PONG = Some LWS_WS_OPCODE_07__PONG" by (simp add: write_opcode_def)
  obtain w' mem' r where W: "libwebsocket_write cfg u (ws_rx_buf u) 18 (ws_rx_head u) LWS_WRITE_PONG = Some (w', mem', r)"
    "r = -1 \<or> 0 \<le> r \<and> server_ready cfg w' \<and> out_stream w' = out_stream u @
       ws_encode (first_byte LWS_WRITE_PONG LWS_WS_OPCODE_07__PONG) None (take (ws_rx_head u) (drop 18 (ws_rx_buf u)))"
    "r = -1 \<longleftrightarrow> send_fails u (length (ws_encode (first_byte LWS_WRITE_PONG LWS_WS_OPCODE_07__PONG) None (take (ws_rx_head u) (drop 18 (ws_rx_buf u)))))"
    "same_conn u w'" "length mem' = length (ws_rx_buf u)"
    by (rule server_write [OF ready, of 18 "ws_rx_head u" "ws_rx_buf u" LWS_WRITE_PONG])
      (use buf pong in \<open>simp_all (no_asm_simp), blast?\<close>)
  have fb: "first_byte LWS_WRITE_PONG LWS_WS_OPCODE_07__PONG = 0x8a" by (simp add: first_byte_def)
  have fails: "r = -1 \<longleftrightarrow> send_fails u (length (ws_encode 0x8a None (rx_holds u)))" using W(3) by (simp add: fb rx_holds_def)
  let ?v = "w'\<lparr>ws_rx_buf := mem', ws_rx_head := 0\<rparr>"
  have same: "out_stream ?v = out_stream w'" "server_ready cfg ?v = server_ready cfg w'"
    by (simp_all add: out_stream_def trunc_bytes_def server_ready_def trunc_ok_def split: option.split)
  show ?thesis
  proof (cases "r = -1")
    case True
    then have "rx_spill cfg u = Some (w'\<lparr>ws_rx_buf := mem'\<rparr>, -1)"
      using opc W(1) by (simp add: rx_spill_def rx_parrot_def)
    then show ?thesis by (rule that) (use True fails in simp_all)
  next
    case False
    with W(2) have r: "\<not> r < 0" "server_ready cfg w'"
      "out_stream w' = out_stream u @ ws_encode 0x8a None (rx_holds u)" by (simp_all add: fb rx_holds_def)
    have "rx_spill cfg u = Some (?v, 0)"
      using opc W(1) r(1) by (simp add: rx_spill_def rx_parrot_def)
    then show ?thesis
      by (rule that) (use same r W(4,5) False fails in \<open>simp_all add: same_conn_def\<close>)
  qed
qed

lemma ping_run:
  assumes cfg: "recorder cfg" and w: "rx_between cfg w" and ready: "server_ready cfg w" "ws_trunc w = None"
    and opc: "b0 AND 0x0f = LWS_WS_OPCODE_07__PING" and key: "length key = 4"
    and p: "length p < 126" "length p \<le> rx_size cfg"
  shows "\<exists>w' r. libwebsocket_interpret_incoming_packet cfg w (ws_encode b0 (Some key) p) = Some (w', r) \<and>
    (if send_fails w (length (ws_encode 0x8a None p)) then r = -1
     else r = 0 \<and> server_ready cfg w' \<and> out_stream w' = out_stream w @ ws_encode 0x8a None p \<and>
      ws_delivered w' = ws_delivered w \<and> ws_rx_state w' = LWS_RXPS_NEW \<and> ws_rx_head w' = 0)"
proof -
  have live: "rx_live cfg w" "ws_rx_state w = LWS_RXPS_NEW" "ws_rx_head w = 0"
    using w by (simp_all add: rx_between_def)
  let ?k = "rx_keyed w b0 (length p) key"
  have run: "libwebsocket_interpret_incoming_packet cfg w (ws_encode b0 (Some key) p)
     = libwebsocket_interpret_incoming_packet cfg (rx_sized w b0 (length p)) (key @ mask_bytes key 0 p)"
    using server_length_run [OF live(1,2), of "length p" b0] p by (simp add: ws_encode_def)
  have p64: "length p < 2 ^ 64" using p(1) by simp
  note keyrun = server_key_run [OF live(1) key p64, of b0 "mask_bytes key 0 p"]
  have klive: "rx_live cfg ?k" "ws_opcode ?k = LWS_WS_OPCODE_07__PING" "ws_trunc ?k = None" "server_ready cfg ?k"
    "out_stream ?k = out_stream w" "ws_delivered ?k = ws_delivered w" "rx_holds ?k = []" "ws_rx_head ?k = 0"
    "rx_clear (ws_zero_nonce ?k) ?k (mask_bytes key 0 p) = p"
    using live key opc ready
    by (auto simp: rx_live_def rx_keyed_def rx_sized_def server_ready_def trunc_ok_def out_stream_def trunc_bytes_def
        rx_holds_def rx_clear_def mask_bytes_mask_bytes zero_mask split: option.splits)
       (simp_all add: rx_first_def Let_def)
  have "\<exists>u buf i. u = ?k\<lparr>ws_rx_buf := buf, ws_rx_head := length p, ws_mask_index := i, ws_packet_length := 0,
      ws_rx_state := LWS_RXPS_NEW\<rparr> \<and> length buf = length (ws_rx_buf ?k) \<and> rx_holds u = p \<and>
    libwebsocket_interpret_incoming_packet cfg (rx_sized w b0 (length p)) (key @ mask_bytes key 0 p)
      = do { (v, m) \<leftarrow> rx_spill cfg u; if m < 0 then Some (v, -1) else Some (v, 0) }"
  proof (cases "p = []")
    case True
    have u: "?k\<lparr>ws_rx_state := LWS_RXPS_NEW\<rparr> = ?k\<lparr>ws_rx_buf := ws_rx_buf ?k, ws_rx_head := length p,
        ws_mask_index := ws_mask_index ?k, ws_packet_length := 0, ws_rx_state := LWS_RXPS_NEW\<rparr>"
      using True live(3) by (simp add: rx_keyed_def rx_sized_def)
    have h: "rx_holds (?k\<lparr>ws_rx_state := LWS_RXPS_NEW\<rparr>) = p"
      using True klive(7) by (simp add: rx_holds_def)
    have r: "libwebsocket_interpret_incoming_packet cfg (rx_sized w b0 (length p)) (key @ mask_bytes key 0 p)
      = do { (v, m) \<leftarrow> rx_spill cfg (?k\<lparr>ws_rx_state := LWS_RXPS_NEW\<rparr>); if m < 0 then Some (v, -1) else Some (v, 0) }"
      unfolding keyrun using True by (simp cong: if_cong)
    show ?thesis
      by (intro exI conjI, rule u, rule refl, rule h, rule r)
  next
    case False
    have ne: "mask_bytes key 0 p \<noteq> []" using False by (metis length_mask_bytes length_0_conv)
    then have "ws_rx_state ?k = LWS_RXPS_PAYLOAD_UNTIL_LENGTH_EXHAUSTED" "mask_bytes key 0 p \<noteq> []"
      "ws_packet_length ?k = word_of_nat (length (mask_bytes key 0 p))" "length (mask_bytes key 0 p) < 2 ^ 64"
      "ws_rx_head ?k + length (mask_bytes key 0 p) \<le> rx_size cfg"
      using p klive(8) by (simp_all add: rx_keyed_def rx_sized_def)
    note fits = this
    obtain buf i u where c: "length buf = length (ws_rx_buf ?k)"
      "u = ?k\<lparr>ws_rx_buf := buf, ws_rx_head := ws_rx_head ?k + length (mask_bytes key 0 p), ws_mask_index := i,
       ws_packet_length := 0, ws_rx_state := LWS_RXPS_NEW\<rparr>"
      "rx_holds u = rx_holds ?k @ rx_clear (ws_zero_nonce ?k) ?k (mask_bytes key 0 p)"
      "libwebsocket_interpret_incoming_packet cfg ?k (mask_bytes key 0 p)
         = do { (v, m) \<leftarrow> rx_spill cfg u; if m < 0 then Some (v, -1) else Some (v, 0) }"
      by (rule server_collect_run [OF klive(1) fits cfg])
    note c' = c [unfolded klive(7-9) length_mask_bytes append_Nil add_0]
    have "length p \<noteq> 0" using False by simp
    with c' show ?thesis unfolding keyrun
      by (intro exI [of _ u] exI [of _ buf] exI [of _ i]) auto
  qed
  then obtain u buf i where u: "u = ?k\<lparr>ws_rx_buf := buf, ws_rx_head := length p, ws_mask_index := i, ws_packet_length := 0,
      ws_rx_state := LWS_RXPS_NEW\<rparr>" "length buf = length (ws_rx_buf ?k)" "rx_holds u = p"
    "libwebsocket_interpret_incoming_packet cfg (rx_sized w b0 (length p)) (key @ mask_bytes key 0 p)
      = do { (v, m) \<leftarrow> rx_spill cfg u; if m < 0 then Some (v, -1) else Some (v, 0) }" by blast
  have U: "server_ready cfg u" "ws_trunc u = None" "ws_opcode u = LWS_WS_OPCODE_07__PING"
    "18 + ws_rx_head u \<le> length (ws_rx_buf u)" "out_stream u = out_stream w" "ws_delivered u = ws_delivered w"
    "ws_rx_state u = LWS_RXPS_NEW" "send_fails u n = send_fails w n" for n
    using klive(1-6) p u(2) by (auto simp: u(1) server_ready_def trunc_ok_def rx_live_def out_stream_def trunc_bytes_def
        send_fails_def rx_keyed_def rx_sized_def rx_first_def Let_def)
  obtain v r where "rx_spill cfg u = Some (v, r)"
    "r = -1 \<or> r = 0 \<and> server_ready cfg v \<and> out_stream v = out_stream u @ ws_encode 0x8a None (rx_holds u) \<and>
       ws_delivered v = ws_delivered u \<and> ws_rx_state v = ws_rx_state u \<and> ws_rx_head v = 0 \<and>
       length (ws_rx_buf v) = length (ws_rx_buf u)"
    "r = -1 \<longleftrightarrow> send_fails u (length (ws_encode 0x8a None (rx_holds u)))"
    by (rule ping_spill [OF U(1-4)])
  then show ?thesis unfolding run u(4) using U(5-8) u(3) by auto
qed



section \<open>No input leaves the receive buffer\<close>

definition rx_ok :: "'x lws_cfg \<Rightarrow> 'x wsi \<Rightarrow> bool" where
  "rx_ok cfg w \<longleftrightarrow> length (ws_rx_buf w) = rx_size cfg + LWS_SEND_BUFFER_PRE_PADDING + LWS_SEND_BUFFER_POST_PADDING \<and>
     ws_rx_head w < rx_size cfg"

lemma server_ready_cong:
  assumes "ws_state v = ws_state w" "ws_rev v = ws_rev w" "ws_mode v = ws_mode w"
    "ws_close_reason v = ws_close_reason w" "ws_inside_frame v = ws_inside_frame w" "ws_nonce v = ws_nonce w"
    "ws_trunc v = ws_trunc w" "ws_trunc_off v = ws_trunc_off w" "ws_trunc_len v = ws_trunc_len w"
  shows "server_ready cfg v = server_ready cfg w"
  unfolding server_ready_def trunc_ok_def assms by (rule refl)

lemma server_ready_updates [simp]:
  "server_ready cfg (w\<lparr>ws_rx_state := s\<rparr>) = server_ready cfg w"
  "server_ready cfg (w\<lparr>ws_packet_length := l\<rparr>) = server_ready cfg w"
  "server_ready cfg (w\<lparr>ws_masked := b\<rparr>) = server_ready cfg w"
  "server_ready cfg (w\<lparr>ws_mask_index := i\<rparr>) = server_ready cfg w"
  "server_ready cfg (w\<lparr>ws_zero_nonce := b\<rparr>) = server_ready cfg w"
  "server_ready cfg (w\<lparr>ws_rxflow_pos := n\<rparr>) = server_ready cfg w"
  "server_ready cfg (w\<lparr>ws_rxflow_buffer := b'\<rparr>) = server_ready cfg w"
  "server_ready cfg (w\<lparr>ws_rx_buf := bs\<rparr>) = server_ready cfg w"
  "server_ready cfg (w\<lparr>ws_rx_head := n\<rparr>) = server_ready cfg w"
  "server_ready cfg (w\<lparr>ws_delivered := ds\<rparr>) = server_ready cfg w"
  "server_ready cfg (rx_first w c) = server_ready cfg w"
  by (rule server_ready_cong; simp add: rx_first_def Let_def)+

lemma rx_flow_apply_keeps:
  assumes "cfg_exts cfg = []"
  shows "server_ready cfg (snd (rx_flow_control_apply cfg w)) = server_ready cfg w"
    "ws_rx_buf (snd (rx_flow_control_apply cfg w)) = ws_rx_buf w"
    "0 \<le> fst (rx_flow_control_apply cfg w)"
proof -
  show "server_ready cfg (snd (rx_flow_control_apply cfg w)) = server_ready cfg w"
    by (rule server_ready_cong) (simp_all add: rx_flow_control_apply_def callback_on_writable_def assms)
qed (auto simp: rx_flow_control_apply_def callback_on_writable_def assms)

text \<open>The receiver sends a reply only for a control frame; that is safe while nothing is pending.\<close>

definition reply_safe :: "'x wsi \<Rightarrow> bool" where
  "reply_safe w \<longleftrightarrow> ws_trunc w = None \<or> ws_opcode w \<notin> {LWS_WS_OPCODE_07__CLOSE, LWS_WS_OPCODE_07__PING}"

lemma reply_safe_updates [simp]:
  "reply_safe (w\<lparr>ws_rx_state := s\<rparr>) = reply_safe w"
  "reply_safe (w\<lparr>ws_packet_length := l\<rparr>) = reply_safe w"
  "reply_safe (w\<lparr>ws_masked := b\<rparr>) = reply_safe w"
  "reply_safe (w\<lparr>ws_mask_index := i\<rparr>) = reply_safe w"
  "reply_safe (w\<lparr>ws_rxflow_pos := n\<rparr>) = reply_safe w"
  by (simp_all add: reply_safe_def)

lemma rx_spill_safe:
  assumes cfg: "recorder cfg" and ready: "server_ready cfg w" "reply_safe w"
    and buf: "length (ws_rx_buf w) = rx_size cfg + 22" "ws_rx_head w \<le> rx_size cfg"
  shows "\<exists>w' r. rx_spill cfg w = Some (w', r) \<and> (r < 0 \<or> rx_ok cfg w' \<and> server_ready cfg w')"
proof -
  have size: "0 < rx_size cfg" by (simp add: rx_size_def)
  have inb: "18 + ws_rx_head w \<le> length (ws_rx_buf w)" using buf by simp
  have R: "ws_state w = WSI_STATE_ESTABLISHED" "cfg_exts cfg = []" using ready by (simp_all add: server_ready_def)
  have upd: "w\<lparr>ws_ext_user := ws_ext_user w\<rparr> = w" by simp
  have keep: "rx_ok cfg (w\<lparr>ws_rx_head := 0\<rparr>)" "server_ready cfg (w\<lparr>ws_rx_head := 0\<rparr>)"
    using buf size ready(1) by (simp_all add: rx_ok_def)
  consider "ws_opcode w = LWS_WS_OPCODE_07__CLOSE" | "ws_opcode w = LWS_WS_OPCODE_07__PING"
    | "data_opcode (ws_opcode w)"
    | "ws_opcode w \<noteq> LWS_WS_OPCODE_07__CLOSE" "ws_opcode w \<noteq> LWS_WS_OPCODE_07__PING" "\<not> data_opcode (ws_opcode w)"
    by blast
  then show ?thesis
  proof cases
    case 1
    have idle: "ws_trunc w = None" using ready(2) 1 by (simp add: reply_safe_def)
    have c: "write_opcode LWS_WRITE_CLOSE = Some LWS_WS_OPCODE_07__CLOSE" by (simp add: write_opcode_def)
    have "\<exists>w' mem' r. libwebsocket_write cfg w (ws_rx_buf w) 18 (ws_rx_head w) LWS_WRITE_CLOSE = Some (w', mem', r)"
      by (rule server_write [OF ready(1) idle, of 18 "ws_rx_head w" "ws_rx_buf w" LWS_WRITE_CLOSE])
        (use inb c in \<open>simp_all add: exI\<close>)
    then obtain w' mem' r where
      "libwebsocket_write cfg w (ws_rx_buf w) 18 (ws_rx_head w) LWS_WRITE_CLOSE = Some (w', mem', r)" by blast
    with 1 R show ?thesis by (simp add: rx_spill_def rx_parrot_def)
  next
    case 2
    have idle: "ws_trunc w = None" using ready(2) 2 by (simp add: reply_safe_def)
    obtain v r where "rx_spill cfg w = Some (v, r)"
      "r = -1 \<or> r = 0 \<and> server_ready cfg v \<and> out_stream v = out_stream w @ ws_encode 0x8a None (rx_holds w) \<and>
       ws_delivered v = ws_delivered w \<and> ws_rx_state v = ws_rx_state w \<and> ws_rx_head v = 0 \<and>
       length (ws_rx_buf v) = length (ws_rx_buf w)" by (rule ping_spill [OF ready(1) idle 2 inb]) blast
    with buf size show ?thesis by (auto simp: rx_ok_def)
  next
    case 3
    show ?thesis
    proof (cases "ws_rx_head w = 0")
      case True
      have "w\<lparr>ws_rx_head := 0\<rparr> = w" using True by simp
      with rx_spill_empty [OF cfg 3 True] keep show ?thesis by auto
    next
      case False
      let ?t = "w\<lparr>ws_rx_buf := (ws_rx_buf w)[18 + ws_rx_head w := 0]\<rparr>"
      let ?d = "?t\<lparr>ws_delivered := ws_delivered ?t @ [(LWS_CALLBACK_RECEIVE, rx_holds w)]\<rparr>"
      obtain n v where a: "rx_flow_control_apply cfg ?d = (n, v)" by (cases "rx_flow_control_apply cfg ?d")
      have k: "server_ready cfg v = server_ready cfg ?d" "ws_rx_buf v = ws_rx_buf ?d" "0 \<le> n"
        using rx_flow_apply_keeps [OF R(2), of ?d] unfolding a by simp_all
      have "rx_spill cfg w = Some (v\<lparr>ws_rx_head := 0\<rparr>, n)"
        using data_opcodeD [OF 3] cfg rx_terminate_run [OF buf] a False
        by (auto simp: rx_spill_def recorder_def upd Let_def user_callback_handle_rxflow_def rx_tokens_def)
      moreover have "server_ready cfg (v\<lparr>ws_rx_head := 0\<rparr>)" "rx_ok cfg (v\<lparr>ws_rx_head := 0\<rparr>)"
        using k ready(1) buf size by (simp_all add: rx_ok_def)
      ultimately show ?thesis by blast
    qed
  next
    case 4
    then have "rx_spill cfg w = Some (w\<lparr>ws_rx_head := 0\<rparr>, 0)"
      using R(2) upd by (auto simp: rx_spill_def data_opcode_def Let_def)
    with keep show ?thesis by auto
  qed
qed

text \<open>With a send pending the reply runs into the assertion of the send path.\<close>

lemma rx_spill_pending:
  assumes ready: "server_ready cfg w" and pend: "\<not> reply_safe w"
    and buf: "length (ws_rx_buf w) = rx_size cfg + 22" "ws_rx_head w \<le> rx_size cfg"
  shows "rx_spill cfg w = None"
proof -
  let ?w = "w\<lparr>ws_clean_buffer := False\<rparr>"
  let ?t = "\<lparr>tok_mem = ws_rx_buf w, tok_off = 18, tok_len = ws_rx_head w, tok_own = False\<rparr>"
  have R: "cfg_exts cfg = []" "cfg_no_buffer_all_partial_tx cfg" "ws_state w = WSI_STATE_ESTABLISHED" "\<not> ws_inside_frame w"
    "ws_rev ?w = 13" "ws_mode ?w \<noteq> LWS_CONNMODE_WS_CLIENT" using ready by (simp_all add: server_ready_def)
  have tok: "tok_ok ?t" using buf by (simp add: tok_ok_def)
  have stop: "libwebsocket_write cfg w (ws_rx_buf w) 18 (ws_rx_head w) p = None"
    if "p \<in> {LWS_WRITE_CLOSE, LWS_WRITE_PONG}" "write_opcode p = Some opc" for p :: u8 and opc
  proof -
    note p = that
    obtain t' pre where f: "frame_header ?w ?t p = Some (Inr (t', pre, None))" "pre \<le> tok_off t'"
      using frame_server [OF R(5,6) p(2) tok] by metis
    have "send_raw cfg ?w t' pre (ws_rx_head w) p = None"
      using f(2) p(1) pend by (auto simp: send_raw_def lws_issue_raw_def reply_safe_def)
    moreover have "mask_payload ?w t' None = Some (?w, t', True)" using R(6) by (simp add: mask_payload_def)
    moreover have "v\<lparr>ws_ext_user := ws_ext_user v\<rparr> = v" for v :: "'a wsi" by simp
    ultimately show ?thesis using p(1) f(1) R by (auto simp: libwebsocket_write_def Let_def)
  qed
  have "write_opcode LWS_WRITE_CLOSE = Some LWS_WS_OPCODE_07__CLOSE" "write_opcode LWS_WRITE_PONG = Some LWS_WS_OPCODE_07__PONG"
    by (simp_all add: write_opcode_def)
  from stop [OF _ this(1)] stop [OF _ this(2)] pend R(3) show ?thesis
    by (auto simp: rx_spill_def rx_parrot_def reply_safe_def)
qed

lemma rx_ok_updates [simp]:
  "rx_ok cfg (w\<lparr>ws_rx_state := s\<rparr>) = rx_ok cfg w"
  "rx_ok cfg (w\<lparr>ws_packet_length := l\<rparr>) = rx_ok cfg w"
  "rx_ok cfg (w\<lparr>ws_masked := b\<rparr>) = rx_ok cfg w"
  "rx_ok cfg (w\<lparr>ws_mask_index := i\<rparr>) = rx_ok cfg w"
  "rx_ok cfg (w\<lparr>ws_zero_nonce := b\<rparr>) = rx_ok cfg w"
  "rx_ok cfg (w\<lparr>ws_rxflow_pos := n\<rparr>) = rx_ok cfg w"
  "rx_ok cfg (w\<lparr>ws_rxflow_buffer := b'\<rparr>) = rx_ok cfg w"
  "rx_ok cfg (w\<lparr>ws_trunc := m\<rparr>) = rx_ok cfg w"
  "rx_ok cfg (rx_first w c) = rx_ok cfg w"
  by (simp_all add: rx_ok_def)


lemma rx_nonce_safe:
  assumes "server_ready cfg w" "rx_ok cfg w" "i < 4"
  obtains v where "rx_nonce w i c st = Some v" "server_ready cfg v" "rx_ok cfg v" "reply_safe v = reply_safe w"
    "ws_rx_state v = st"
proof -
  have "i < length (ws_nonce w)" using assms by (simp add: server_ready_def)
  moreover have "server_ready cfg (w\<lparr>ws_nonce := (ws_nonce w)[i := c], ws_zero_nonce := b, ws_rx_state := st\<rparr>)" for b
    using assms(1) unfolding server_ready_def trunc_ok_def by (cases "ws_trunc w") auto
  ultimately show ?thesis using assms(2)
    by (intro that [OF rx_nonce_in]) (simp_all add: rx_ok_def reply_safe_def)
qed

text \<open>A step that is safe unless \<open>b\<close>: it must not fail then, and what it leads to is in order.\<close>

definition rx_safe_result :: "'x lws_cfg \<Rightarrow> bool \<Rightarrow> 'x ws_result \<Rightarrow> bool" where
  "rx_safe_result cfg b res \<longleftrightarrow>
     (case res of None \<Rightarrow> b | Some (w, r) \<Rightarrow> r < 0 \<or> rx_ok cfg w \<and> server_ready cfg w)"

lemma rx_safe_spill:
  assumes "recorder cfg" "server_ready cfg w" "length (ws_rx_buf w) = rx_size cfg + 22" "ws_rx_head w \<le> rx_size cfg"
  shows "rx_safe_result cfg (\<not> reply_safe w) (rx_spill cfg w)"
proof (cases "reply_safe w")
  case True
  then show ?thesis using rx_spill_safe [OF assms(1,2) True assms(3,4)] by (auto simp: rx_safe_result_def)
next
  case False
  with rx_spill_pending [OF assms(2) False] assms(3,4) show ?thesis by (simp add: rx_safe_result_def)
qed

lemma rx_safe_okI: "server_ready cfg w \<Longrightarrow> rx_ok cfg w \<Longrightarrow> rx_safe_result cfg b (Some (w, r))"
  by (simp add: rx_safe_result_def)

lemma rx_payload_safe:
  assumes cfg: "recorder cfg" and w: "server_ready cfg w" "rx_ok cfg w"
  shows "rx_safe_result cfg (\<not> reply_safe w) (rx_payload cfg w c)"
proof -
  let ?s = "rx_stored w (ws_zero_nonce w) c"
  have "unat (ws_mask_index w AND 3) < length (ws_nonce w)"
    using mask_index_bound w(1) by (simp add: server_ready_def)
  then have st: "rx_store w (ws_zero_nonce w) c = Some ?s"
    using w(2) by (auto simp: rx_store_def rx_stored_def rx_clear_single access_simps rx_ok_def)
  have s: "server_ready cfg ?s" "reply_safe ?s = reply_safe w" "length (ws_rx_buf ?s) = rx_size cfg + 22"
    "ws_rx_head ?s \<le> rx_size cfg"
    using w by (simp_all add: rx_stored_def rx_ok_def reply_safe_def)
  have sp: "rx_safe_result cfg (\<not> reply_safe w) (rx_spill cfg (?s\<lparr>ws_packet_length := l\<rparr>))"
    "rx_safe_result cfg (\<not> reply_safe w) (rx_spill cfg (?s\<lparr>ws_packet_length := l, ws_rx_state := x\<rparr>))" for l x
    using rx_safe_spill [OF cfg, of "?s\<lparr>ws_packet_length := l\<rparr>"] rx_safe_spill [OF cfg, of "?s\<lparr>ws_packet_length := l, ws_rx_state := x\<rparr>"] s
    by simp_all
  show ?thesis
  proof (cases "ws_rx_head ?s = rx_size cfg")
    case True
    with sp show ?thesis by (simp add: rx_payload_def st Let_def)
  next
    case False
    then have "rx_safe_result cfg (\<not> reply_safe w) (Some (?s\<lparr>ws_packet_length := l\<rparr>, 0))" for l
      using s by (intro rx_safe_okI) (simp_all add: rx_ok_def)
    with sp show ?thesis by (simp add: rx_payload_def st Let_def)
  qed
qed

lemma rx_sm_safe:
  assumes cfg: "recorder cfg" and w: "server_ready cfg w" "rx_ok cfg w"
  shows "rx_safe_result cfg (\<not> reply_safe w) (libwebsocket_rx_sm cfg w c)"
proof -
  have buf: "length (ws_rx_buf w) = rx_size cfg + 22" "ws_rx_head w \<le> rx_size cfg"
    using w(2) by (simp_all add: rx_ok_def)
  have ok: "rx_safe_result cfg (\<not> reply_safe w) (Some (v, r))" if "server_ready cfg v = server_ready cfg w" "rx_ok cfg v = rx_ok cfg w" for v r
    using that w by (intro rx_safe_okI) simp_all
  have fatal: "rx_safe_result cfg (\<not> reply_safe w) (Some (v, -1))" for v by (simp add: rx_safe_result_def)
  have key: "rx_safe_result cfg (\<not> reply_safe w) (map_option (\<lambda>w. (f w, 0)) (rx_nonce w i c st))"
    if "i < 4" "\<And>v. server_ready cfg (f v) = server_ready cfg v" "\<And>v. rx_ok cfg (f v) = rx_ok cfg v" for i st f
    by (rule rx_nonce_safe [OF w(1,2) that(1), of c st]) (use that in \<open>simp add: rx_safe_okI\<close>)
  have lst: "rx_safe_result cfg (\<not> reply_safe w) (rx_length cfg w c)"
    using rx_safe_spill [OF cfg, of "w\<lparr>ws_masked := bit c 7, ws_packet_length := ucast (c AND 0x7f), ws_rx_state := LWS_RXPS_NEW\<rparr>"]
      w buf by (auto simp: rx_length_def Let_def intro!: ok fatal)
  have last: "rx_safe_result cfg (\<not> reply_safe w) (do {
          w \<leftarrow> rx_nonce w 3 c LWS_RXPS_PAYLOAD_UNTIL_LENGTH_EXHAUSTED;
          let w = w\<lparr>ws_mask_index := 0\<rparr>;
          if ws_packet_length w = 0 then rx_spill cfg (w\<lparr>ws_rx_state := LWS_RXPS_NEW\<rparr>)
          else Some (w, 0) })"
  proof -
    obtain v where v: "rx_nonce w 3 c LWS_RXPS_PAYLOAD_UNTIL_LENGTH_EXHAUSTED = Some v" "server_ready cfg v"
      "rx_ok cfg v" "reply_safe v = reply_safe w" "ws_rx_state v = LWS_RXPS_PAYLOAD_UNTIL_LENGTH_EXHAUSTED"
      by (rule rx_nonce_safe [OF w(1,2), of 3]) simp_all
    have "rx_safe_result cfg (\<not> reply_safe w) (rx_spill cfg (v\<lparr>ws_mask_index := 0, ws_rx_state := LWS_RXPS_NEW\<rparr>))"
      using rx_safe_spill [OF cfg, of "v\<lparr>ws_mask_index := 0, ws_rx_state := LWS_RXPS_NEW\<rparr>"] v by (simp add: rx_ok_def)
    with v show ?thesis by (simp add: Let_def rx_safe_okI)
  qed
  show ?thesis
    unfolding libwebsocket_rx_sm_def
    using key [of _ id] key [of 3 "\<lambda>w. w\<lparr>ws_mask_index := 0\<rparr>"] lst last rx_payload_safe [OF cfg w]
    by (cases "ws_rx_state w") (auto intro!: ok fatal simp: rx_len_or_def)
qed

lemma rx_run_only_pending:
  assumes cfg: "recorder cfg"
  shows "server_ready cfg w \<Longrightarrow> rx_ok cfg w \<Longrightarrow>
    (\<exists>w' r. libwebsocket_interpret_incoming_packet cfg w bs = Some (w', r) \<and> (r < 0 \<or> rx_ok cfg w' \<and> server_ready cfg w')) \<or>
    libwebsocket_interpret_incoming_packet cfg w bs = None \<and>
    (\<exists>n w'. n < length bs \<and> libwebsocket_interpret_incoming_packet cfg w (take n bs) = Some (w', 0) \<and> \<not> reply_safe w' \<and>
       libwebsocket_interpret_incoming_packet cfg w' [bs ! n] = None \<and>
       libwebsocket_interpret_incoming_packet cfg (w'\<lparr>ws_trunc := None\<rparr>) [bs ! n] \<noteq> None)"
proof (induction bs arbitrary: w)
  case (Cons c bs)
  let ?w = "if ws_rxflow_buffer w \<noteq> None then w\<lparr>ws_rxflow_pos := ws_rxflow_pos w + 1\<rparr> else w"
  have w: "server_ready cfg ?w" "rx_ok cfg ?w" "reply_safe ?w = reply_safe w" using Cons.prems by simp_all
  note step = rx_sm_safe [OF cfg w(1,2), of c, unfolded rx_safe_result_def]
  show ?case
  proof (cases "ws_rxflow_allow w")
    case False
    then show ?thesis using Cons.prems by (auto split: option.splits)
  next
    case allow: True
    show ?thesis
    proof (cases "libwebsocket_rx_sm cfg ?w c")
      case None
      have "server_ready cfg (?w\<lparr>ws_trunc := None\<rparr>)" using w(1) by (simp add: server_ready_def trunc_ok_def)
      from rx_sm_safe [OF cfg this, of c] w(2) have idle: "libwebsocket_rx_sm cfg (?w\<lparr>ws_trunc := None\<rparr>) c \<noteq> None"
        by (auto simp: rx_safe_result_def reply_safe_def split: option.splits)
      have eq: "?w\<lparr>ws_trunc := None\<rparr> = (if ws_rxflow_buffer w \<noteq> None
          then w\<lparr>ws_trunc := None, ws_rxflow_pos := ws_rxflow_pos w + 1\<rparr> else w\<lparr>ws_trunc := None\<rparr>)" by simp
      have "libwebsocket_interpret_incoming_packet cfg (w\<lparr>ws_trunc := None\<rparr>) [c] \<noteq> None"
        using idle [unfolded eq] allow by (auto simp: Let_def)
      moreover have "libwebsocket_interpret_incoming_packet cfg w [c] = None"
        "libwebsocket_interpret_incoming_packet cfg w (c # bs) = None" using None allow by (simp_all add: Let_def)
      moreover have "\<not> reply_safe w" using step None w(3) by simp
      ultimately show ?thesis by (intro disjI2 conjI exI [of _ 0] exI [of _ w]) simp_all
    next
      case (Some a)
      obtain v r where v: "libwebsocket_rx_sm cfg ?w c = Some (v, r)" using Some by (cases a) simp
      show ?thesis
      proof (cases "r < 0")
        case True
        then show ?thesis using v allow by (intro disjI1) (simp add: Let_def)
      next
        case False
        have run: "libwebsocket_interpret_incoming_packet cfg w (c # cs) = libwebsocket_interpret_incoming_packet cfg v cs" for cs
          using v allow False by (simp add: Let_def)
        have "server_ready cfg v" "rx_ok cfg v" using step v False by simp_all
        from Cons.IH [OF this] show ?thesis
        proof (elim disjE exE conjE)
          fix n w'
          assume "libwebsocket_interpret_incoming_packet cfg v bs = None" "n < length bs" "libwebsocket_interpret_incoming_packet cfg v (take n bs) = Some (w', 0)" "\<not> reply_safe w'"
            "libwebsocket_interpret_incoming_packet cfg w' [bs ! n] = None"
            "libwebsocket_interpret_incoming_packet cfg (w'\<lparr>ws_trunc := None\<rparr>) [bs ! n] \<noteq> None"
          then show ?thesis by (intro disjI2 conjI exI [of _ "Suc n"] exI [of _ w']) (simp_all only: run take_Suc_Cons nth_Cons_Suc length_Cons Suc_less_eq simp_thms)
        qed (simp only: run; blast)+
      qed
    qed
  qed
qed simp

text \<open>C8: No input drives the server's receiver out of its buffers: from any state of the parser with
  its buffers allocated, whatever bytes arrive, every access stays inside the receive buffer and the
  nonce, and the parser goes on with the buffer not full or closes the connection. The one
  exception is a ping or close frame whose reply meets a send that is still pending (the
  assertion of \<open>lws_issue_raw\<close>): the byte that fails would not fail with nothing pending.\<close>

theorem rx_input_safe:
  assumes "recorder cfg" and "server_ready cfg w" and "rx_ok cfg w"
  shows "(\<exists>w' r. libwebsocket_interpret_incoming_packet cfg w bs = Some (w', r) \<and> (r < 0 \<or> rx_ok cfg w' \<and> server_ready cfg w')) \<or>
    libwebsocket_interpret_incoming_packet cfg w bs = None \<and>
    (\<exists>n w'. n < length bs \<and> libwebsocket_interpret_incoming_packet cfg w (take n bs) = Some (w', 0) \<and>
       ws_trunc w' \<noteq> None \<and> ws_opcode w' \<in> {LWS_WS_OPCODE_07__CLOSE, LWS_WS_OPCODE_07__PING} \<and>
       libwebsocket_interpret_incoming_packet cfg w' [bs ! n] = None \<and>
       libwebsocket_interpret_incoming_packet cfg (w'\<lparr>ws_trunc := None\<rparr>) [bs ! n] \<noteq> None)"
  using rx_run_only_pending [OF assms, of bs] unfolding reply_safe_def by blast

text \<open>A masked frame of two bytes, in the middle of the next header.\<close>

theorem rx_input_safe_witness:
  "\<exists>w' r. libwebsocket_interpret_incoming_packet (new_cfg True) (new_wsi LWS_CONNMODE_WS_SERVING) [0x82, 0x82, 1, 2, 3, 4, 5, 6, 0xff] = Some (w', r) \<and>
    rx_ok (new_cfg True) w' \<and> server_ready (new_cfg True) w' \<and> ws_delivered w' = [(LWS_CALLBACK_RECEIVE, [4, 4])]"
proof -
  let ?c = "new_cfg True" and ?w = "new_wsi LWS_CONNMODE_WS_SERVING" and ?bs = "[0x82, 0x82, 1, 2, 3, 4, 5, 6, 0xff :: u8]"
  have h: "recorder ?c" "server_ready ?c ?w" "rx_ok ?c ?w"
    by (simp_all add: recorder_def rx_ok_def rx_size_def server_ready_def trunc_ok_def new_wsi_def new_cfg_def)
  have run: "map_option (\<lambda>(w, r). (ws_delivered w, r)) (libwebsocket_interpret_incoming_packet ?c ?w ?bs) = Some ([(LWS_CALLBACK_RECEIVE, [4, 4])], 0)"
    by code_simp
  then obtain w' where w': "libwebsocket_interpret_incoming_packet ?c ?w ?bs = Some (w', 0)" "ws_delivered w' = [(LWS_CALLBACK_RECEIVE, [4, 4])]"
    by auto
  from rx_input_safe [OF h, of ?bs] w'(1) have "rx_ok ?c w' \<and> server_ready ?c w'" by (simp only: option.inject prod.inject option.distinct) auto
  then show ?thesis using w' by blast
qed

section \<open>Control frames with an extended length\<close>

text \<open>C38: A control frame that asks for an extended length is refused by both parsers: the byte after
  the opcode makes them ask for the connection to be closed, with nothing stored or delivered.\<close>

theorem control_length_refused:
  assumes "ws_rx_state w = LWS_RXPS_04_FRAME_HDR_LEN" and "ws_opcode w AND 8 \<noteq> 0"
    and "c AND 0x7f = 126 \<or> c AND 0x7f = 127"
  shows "libwebsocket_rx_sm cfg w c = Some (w\<lparr>ws_masked := bit c 7\<rparr>, -1) \<and>
    libwebsocket_client_rx_sm cfg w c = Some (w\<lparr>ws_masked := bit c 7\<rparr>, -1)"
  using assms by (auto simp: libwebsocket_rx_sm_def libwebsocket_client_rx_sm_def rx_length_def client_length_def Let_def)

theorem control_length_refused_witness:
  "libwebsocket_rx_sm (new_cfg True) ((new_wsi LWS_CONNMODE_WS_SERVING)
      \<lparr>ws_rx_state := LWS_RXPS_04_FRAME_HDR_LEN, ws_opcode := 9\<rparr>) 0xfe
    = Some ((new_wsi LWS_CONNMODE_WS_SERVING)
      \<lparr>ws_rx_state := LWS_RXPS_04_FRAME_HDR_LEN, ws_opcode := 9, ws_masked := True\<rparr>, -1)"
proof -
  let ?w = "(new_wsi LWS_CONNMODE_WS_SERVING)\<lparr>ws_rx_state := LWS_RXPS_04_FRAME_HDR_LEN, ws_opcode := 9\<rparr>"
  have "ws_rx_state ?w = LWS_RXPS_04_FRAME_HDR_LEN" "ws_opcode ?w AND 8 \<noteq> 0"
    "(0xfe :: u8) AND 0x7f = 126 \<or> (0xfe :: u8) AND 0x7f = 127" by simp_all
  from control_length_refused [OF this, of "new_cfg True"] show ?thesis by simp
qed

section \<open>Inputs on which the parsers go wrong\<close>

text \<open>A masked frame to a client: the mask bit is counted into the length.\<close>

lemma client_masked_length:
  assumes "ws_rx_state w = LWS_RXPS_04_FRAME_HDR_LEN" and "n < 126"
  shows "libwebsocket_client_rx_sm cfg w (word_of_nat n OR 0x80)
    = Some (w\<lparr>ws_masked := True, ws_packet_length := word_of_nat n OR 0x80,
        ws_rx_state := LWS_RXPS_07_COLLECT_FRAME_KEY_1\<rparr>, 0)"
proof -
  have "(ucast (word_of_nat n OR 0x80 :: u8) :: u64) = ucast (word_of_nat n :: u8) OR 0x80"
    by (simp add: unsigned_or_eq)
  with assms len7_short [OF assms(2)] show ?thesis
    by (simp add: libwebsocket_client_rx_sm_def client_length_def client_after_len_def Let_def)
qed

text \<open>A plain frame to the server whose extended length is zero: the length wraps and the next frames
  are swallowed as its payload.\<close>

lemma zero_extended_length_wraps:
  assumes w: "ws_rx_state w = LWS_RXPS_04_FRAME_HDR_LEN16_1" "\<not> ws_masked w" "ws_packet_length w = 0"
    "ws_zero_nonce w" "ws_rx_head w < rx_size cfg" "ws_rx_head w + 1 \<noteq> rx_size cfg" "length (ws_rx_buf w) = rx_size cfg + 22"
    "ws_rxflow_allow w" "ws_rxflow_buffer w = None"
  shows "\<exists>v. libwebsocket_interpret_incoming_packet cfg w [0, c] = Some (v, 0) \<and>
    ws_rx_state v = LWS_RXPS_PAYLOAD_UNTIL_LENGTH_EXHAUSTED \<and> ws_packet_length v = -1"
  using w by (simp add: interpret_step libwebsocket_rx_sm_def rx_len_or_def rx_after_len_def rx_payload_def rx_store_def
      access_simps Let_def libwebsocket_interpret_incoming_packet.simps(1)
      del: libwebsocket_interpret_incoming_packet.simps(2))

end
