(* ===== verification/Kernel_List.thy ===== *)
theory Kernel_List
  imports Prelude
begin

text \<open>
  The intrusive doubly linked lists of \<open>test-server/list.h\<close>. The heap maps the address of a
  \<open>struct list_head\<close> to its two pointers; address 0 is \<open>NULL\<close>, and following or writing through it
  is \<open>None\<close>. Every inline function is a definition that does the same reads and writes in the same
  order. \<open>lists_in h L\<close> says that the heap holds exactly the lists of the map \<open>L\<close>, from list heads to
  the entries in order; the refinement lemmas show what each function does to \<open>L\<close>.
\<close>

section \<open>The heap and the functions\<close>

type_synonym addr = nat

record lheap =
  nxt :: "addr \<Rightarrow> addr"
  prv :: "addr \<Rightarrow> addr"

definition get_next :: "lheap \<Rightarrow> addr \<Rightarrow> addr option" where
  "get_next h a = (if a = 0 then None else Some (nxt h a))"

definition get_prev :: "lheap \<Rightarrow> addr \<Rightarrow> addr option" where
  "get_prev h a = (if a = 0 then None else Some (prv h a))"

definition set_next :: "addr \<Rightarrow> addr \<Rightarrow> lheap \<Rightarrow> lheap option" where
  "set_next a b h = (if a = 0 then None else Some (h\<lparr>nxt := (nxt h)(a := b)\<rparr>))"

definition set_prev :: "addr \<Rightarrow> addr \<Rightarrow> lheap \<Rightarrow> lheap option" where
  "set_prev a b h = (if a = 0 then None else Some (h\<lparr>prv := (prv h)(a := b)\<rparr>))"

definition INIT_LIST_HEAD :: "addr \<Rightarrow> lheap \<Rightarrow> lheap option" where
  "INIT_LIST_HEAD l h = do { h \<leftarrow> set_next l l h; set_prev l l h }"

definition list_add_between :: "addr \<Rightarrow> addr \<Rightarrow> addr \<Rightarrow> lheap \<Rightarrow> lheap option" where
  "list_add_between new prev next h = do {
     h \<leftarrow> set_prev next new h;
     h \<leftarrow> set_next new next h;
     h \<leftarrow> set_prev new prev h;
     set_next prev new h }"

definition list_add :: "addr \<Rightarrow> addr \<Rightarrow> lheap \<Rightarrow> lheap option" where
  "list_add new head h = do { n \<leftarrow> get_next h head; list_add_between new head n h }"

definition list_add_tail :: "addr \<Rightarrow> addr \<Rightarrow> lheap \<Rightarrow> lheap option" where
  "list_add_tail new head h = do { p \<leftarrow> get_prev h head; list_add_between new p head h }"

definition list_del_between :: "addr \<Rightarrow> addr \<Rightarrow> lheap \<Rightarrow> lheap option" where
  "list_del_between prev next h = do { h \<leftarrow> set_prev next prev h; set_next prev next h }"

definition list_del_entry :: "addr \<Rightarrow> lheap \<Rightarrow> lheap option" where
  "list_del_entry entry h = do {
     p \<leftarrow> get_prev h entry; n \<leftarrow> get_next h entry; list_del_between p n h }"

text \<open>The poison values of \<open>list_del\<close> are \<open>NULL\<close> here.\<close>

definition list_del :: "addr \<Rightarrow> lheap \<Rightarrow> lheap option" where
  "list_del entry h = do {
     h \<leftarrow> list_del_entry entry h; h \<leftarrow> set_next entry 0 h; set_prev entry 0 h }"

definition list_replace :: "addr \<Rightarrow> addr \<Rightarrow> lheap \<Rightarrow> lheap option" where
  "list_replace old new h = do {
     n \<leftarrow> get_next h old;
     h \<leftarrow> set_next new n h;
     h \<leftarrow> set_prev n new h;
     p \<leftarrow> get_prev h old;
     h \<leftarrow> set_prev new p h;
     set_next p new h }"

definition list_replace_init :: "addr \<Rightarrow> addr \<Rightarrow> lheap \<Rightarrow> lheap option" where
  "list_replace_init old new h = do { h \<leftarrow> list_replace old new h; INIT_LIST_HEAD old h }"

definition list_del_init :: "addr \<Rightarrow> lheap \<Rightarrow> lheap option" where
  "list_del_init entry h = do { h \<leftarrow> list_del_entry entry h; INIT_LIST_HEAD entry h }"

definition list_move :: "addr \<Rightarrow> addr \<Rightarrow> lheap \<Rightarrow> lheap option" where
  "list_move entry head h = do { h \<leftarrow> list_del_entry entry h; list_add entry head h }"

definition list_move_tail :: "addr \<Rightarrow> addr \<Rightarrow> lheap \<Rightarrow> lheap option" where
  "list_move_tail entry head h = do { h \<leftarrow> list_del_entry entry h; list_add_tail entry head h }"

definition list_is_last :: "lheap \<Rightarrow> addr \<Rightarrow> addr \<Rightarrow> bool option" where
  "list_is_last h entry head = map_option (\<lambda>n. n = head) (get_next h entry)"

definition list_empty :: "lheap \<Rightarrow> addr \<Rightarrow> bool option" where
  "list_empty h head = map_option (\<lambda>n. n = head) (get_next h head)"

definition list_empty_careful :: "lheap \<Rightarrow> addr \<Rightarrow> bool option" where
  "list_empty_careful h head = do {
     n \<leftarrow> get_next h head; p \<leftarrow> get_prev h head; Some (n = head \<and> n = p) }"

definition list_rotate_left :: "addr \<Rightarrow> lheap \<Rightarrow> lheap option" where
  "list_rotate_left head h = do {
     e \<leftarrow> list_empty h head;
     if e then Some h else do { f \<leftarrow> get_next h head; list_move_tail f head h } }"

definition list_is_singular :: "lheap \<Rightarrow> addr \<Rightarrow> bool option" where
  "list_is_singular h head = do {
     e \<leftarrow> list_empty h head; n \<leftarrow> get_next h head; p \<leftarrow> get_prev h head; Some (\<not> e \<and> n = p) }"

definition list_cut_between :: "addr \<Rightarrow> addr \<Rightarrow> addr \<Rightarrow> lheap \<Rightarrow> lheap option" where
  "list_cut_between l head entry h = do {
     new_first \<leftarrow> get_next h entry;
     hn \<leftarrow> get_next h head;
     h \<leftarrow> set_next l hn h;
     h \<leftarrow> set_prev hn l h;
     h \<leftarrow> set_prev l entry h;
     h \<leftarrow> set_next entry l h;
     h \<leftarrow> set_next head new_first h;
     set_prev new_first head h }"

definition list_cut_position :: "addr \<Rightarrow> addr \<Rightarrow> addr \<Rightarrow> lheap \<Rightarrow> lheap option" where
  "list_cut_position l head entry h = do {
     e \<leftarrow> list_empty h head;
     s \<leftarrow> list_is_singular h head;
     n \<leftarrow> get_next h head;
     if e then Some h
     else if s \<and> n \<noteq> entry \<and> head \<noteq> entry then Some h
     else if entry = head then INIT_LIST_HEAD l h
     else list_cut_between l head entry h }"

definition list_splice_between :: "addr \<Rightarrow> addr \<Rightarrow> addr \<Rightarrow> lheap \<Rightarrow> lheap option" where
  "list_splice_between l prev next h = do {
     first \<leftarrow> get_next h l;
     last \<leftarrow> get_prev h l;
     h \<leftarrow> set_prev first prev h;
     h \<leftarrow> set_next prev first h;
     h \<leftarrow> set_next last next h;
     set_prev next last h }"

definition list_splice :: "addr \<Rightarrow> addr \<Rightarrow> lheap \<Rightarrow> lheap option" where
  "list_splice l head h = do {
     e \<leftarrow> list_empty h l;
     if e then Some h else do { n \<leftarrow> get_next h head; list_splice_between l head n h } }"

definition list_splice_tail :: "addr \<Rightarrow> addr \<Rightarrow> lheap \<Rightarrow> lheap option" where
  "list_splice_tail l head h = do {
     e \<leftarrow> list_empty h l;
     if e then Some h else do { p \<leftarrow> get_prev h head; list_splice_between l p head h } }"

definition list_splice_init :: "addr \<Rightarrow> addr \<Rightarrow> lheap \<Rightarrow> lheap option" where
  "list_splice_init l head h = do {
     e \<leftarrow> list_empty h l;
     if e then Some h
     else do { n \<leftarrow> get_next h head; h \<leftarrow> list_splice_between l head n h; INIT_LIST_HEAD l h } }"

definition list_splice_tail_init :: "addr \<Rightarrow> addr \<Rightarrow> lheap \<Rightarrow> lheap option" where
  "list_splice_tail_init l head h = do {
     e \<leftarrow> list_empty h l;
     if e then Some h
     else do { p \<leftarrow> get_prev h head; h \<leftarrow> list_splice_between l p head h; INIT_LIST_HEAD l h } }"

text \<open>\<open>list_for_each\<close>: the entries met on the way, at most \<open>fuel\<close> of them.\<close>

fun list_walk :: "nat \<Rightarrow> lheap \<Rightarrow> addr \<Rightarrow> addr \<Rightarrow> addr list option" where
  "list_walk 0 h pos head = None"
| "list_walk (Suc fuel) h pos head =
     (if pos = head then Some []
      else do { n \<leftarrow> get_next h pos; xs \<leftarrow> list_walk fuel h n head; Some (pos # xs) })"

definition list_for_each :: "nat \<Rightarrow> lheap \<Rightarrow> addr \<Rightarrow> addr list option" where
  "list_for_each fuel h head = do { n \<leftarrow> get_next h head; list_walk fuel h n head }"

section \<open>Segments and lists\<close>

text \<open>From \<open>a\<close> the pointers lead through \<open>xs\<close> to \<open>b\<close>, and back.\<close>

fun seg :: "lheap \<Rightarrow> addr \<Rightarrow> addr list \<Rightarrow> addr \<Rightarrow> bool" where
  "seg h a [] b \<longleftrightarrow> nxt h a = b \<and> prv h b = a"
| "seg h a (x # xs) b \<longleftrightarrow> nxt h a = x \<and> prv h x = a \<and> seg h x xs b"

lemma seg_append: "seg h a (xs @ y # ys) b \<longleftrightarrow> seg h a xs y \<and> seg h y ys b"
  by (induction xs arbitrary: a) auto

lemma seg_first: "seg h a xs b \<Longrightarrow> nxt h a = hd (xs @ [b])"
  by (cases xs) auto

lemma seg_last: "seg h a xs b \<Longrightarrow> prv h b = last (a # xs)"
  by (induction xs arbitrary: a) auto

text \<open>A segment depends on the next pointers of all but its end and the previous pointers of all but its
  start.\<close>

lemma seg_cong:
  "(\<And>p. p \<in> set (a # xs) \<Longrightarrow> nxt h' p = nxt h p) \<Longrightarrow> (\<And>p. p \<in> set (xs @ [b]) \<Longrightarrow> prv h' p = prv h p) \<Longrightarrow>
   seg h' a xs b = seg h a xs b"
  by (induction xs arbitrary: a) auto

lemma seg_frame:
  "seg h a xs b \<Longrightarrow> \<forall>p \<in> set (a # xs). nxt h' p = nxt h p \<Longrightarrow> \<forall>p \<in> set (xs @ [b]). prv h' p = prv h p \<Longrightarrow>
   seg h' a xs b"
  using seg_cong [of a xs h' h b] by blast

definition linked :: "lheap \<Rightarrow> addr \<Rightarrow> addr list \<Rightarrow> bool" where
  "linked h head xs \<longleftrightarrow> seg h head xs head \<and> distinct (head # xs) \<and> 0 \<notin> set (head # xs)"

definition cells :: "(addr \<rightharpoonup> addr list) \<Rightarrow> addr set" where
  "cells L = {p. \<exists>head xs. L head = Some xs \<and> p \<in> set (head # xs)}"

definition lists_in :: "lheap \<Rightarrow> (addr \<rightharpoonup> addr list) \<Rightarrow> bool" where
  "lists_in h L \<longleftrightarrow> (\<forall>head xs. L head = Some xs \<longrightarrow> linked h head xs) \<and>
     (\<forall>a xs b ys. L a = Some xs \<longrightarrow> L b = Some ys \<longrightarrow> a \<noteq> b \<longrightarrow> set (a # xs) \<inter> set (b # ys) = {})"

lemma linked_cong:
  "(\<And>p. p \<in> set (head # xs) \<Longrightarrow> nxt h' p = nxt h p \<and> prv h' p = prv h p) \<Longrightarrow> linked h' head xs = linked h head xs"
  unfolding linked_def by (subst seg_cong [of head xs h' h head]) auto

text \<open>An operation that changes pointers of one list only, and makes of it another list without taking
  cells of the others, does the same to the map.\<close>

lemma lists_in_change:
  assumes L: "lists_in h L" "L a = Some xs" and new: "linked h' a ys"
    and frame: "\<And>p. p \<notin> set (a # xs) \<union> set ys \<Longrightarrow> nxt h' p = nxt h p \<and> prv h' p = prv h p"
    and fresh: "\<And>p. p \<in> set ys \<Longrightarrow> p \<in> set xs \<or> p \<notin> cells L"
  shows "lists_in h' (L(a \<mapsto> ys))"
proof -
  have other: "linked h' b zs" "set (a # ys) \<inter> set (b # zs) = {}" if b: "L b = Some zs" "b \<noteq> a" for b zs
  proof -
    have dis: "set (a # xs) \<inter> set (b # zs) = {}" using L b unfolding lists_in_def by blast
    moreover have "set ys \<inter> set (b # zs) = {}" using fresh dis b(1) by (fastforce simp: cells_def)
    ultimately show dis': "set (a # ys) \<inter> set (b # zs) = {}" by auto
    have "linked h' b zs = linked h b zs"
    proof (rule linked_cong)
      fix p assume "p \<in> set (b # zs)"
      then have "p \<notin> set (a # xs) \<union> set ys" using dis dis' by auto
      then show "nxt h' p = nxt h p \<and> prv h' p = prv h p" by (rule frame)
    qed
    then show "linked h' b zs" using L(1) b by (auto simp: lists_in_def)
  qed
  have "set (b # zs) \<inter> set (c # ws) = {}" if "L b = Some zs" "L c = Some ws" "b \<noteq> c" for b c zs ws
    using L(1) that unfolding lists_in_def by blast
  with other new show ?thesis unfolding lists_in_def by (auto split: if_splits) blast+
qed


section \<open>What the functions do to one list\<close>

lemmas step_defs = get_next_def get_prev_def set_next_def set_prev_def

lemma add_between:
  assumes l: "linked h a (xs @ ys)" and new: "new \<notin> set (a # xs @ ys)" "new \<noteq> 0"
  obtains h' where "list_add_between new (last (a # xs)) (hd (ys @ [a])) h = Some h'"
    "linked h' a (xs @ new # ys)" "\<forall>p. p \<notin> set (a # new # xs @ ys) \<longrightarrow> nxt h' p = nxt h p \<and> prv h' p = prv h p"
proof -
  let ?p = "last (a # xs)" and ?n = "hd (ys @ [a])"
  let ?h = "h\<lparr>nxt := (nxt h)(new := ?n, ?p := new), prv := (prv h)(?n := new, new := ?p)\<rparr>"
  have mem: "?p \<in> set (a # xs)" "?n \<in> set (ys @ [a])" by (simp_all only: last_in_set list.distinct not_False_eq_True) (cases ys; simp)
  from l have pos: "?p \<noteq> 0" "?n \<noteq> 0" using mem by (auto simp: linked_def)
  then have eq: "list_add_between new ?p ?n h = Some ?h"
    using new by (simp add: list_add_between_def step_defs)
  have "seg ?h a (xs @ new # ys) a"
  proof (cases xs rule: rev_cases)
    case Nil
    then show ?thesis using l new
      by (cases ys) (auto simp: linked_def seg_append elim!: seg_frame)
  next
    case (snoc xs' x)
    then show ?thesis using l new
      by (cases ys) (auto simp: linked_def seg_append elim!: seg_frame)
  qed
  then have "linked ?h a (xs @ new # ys)" using l new by (auto simp: linked_def)
  moreover have "\<forall>q. q \<notin> set (a # new # xs @ ys) \<longrightarrow> nxt ?h q = nxt h q \<and> prv ?h q = prv h q"
    using mem by auto
  ultimately show thesis using eq by (intro that [of ?h])
qed


lemma last_mem: "last (a # xs) \<in> set (a # xs)"
  by (rule last_in_set) simp

lemma hd_mem: "hd (ys @ [a]) \<in> set (a # ys)"
  by (cases ys) auto

lemma del_between:
  assumes l: "linked h a (xs @ e # ys)"
  obtains h' where "list_del_between (last (a # xs)) (hd (ys @ [a])) h = Some h'"
    "linked h' a (xs @ ys)" "\<forall>p. p \<notin> set (a # xs @ ys) \<longrightarrow> nxt h' p = nxt h p \<and> prv h' p = prv h p"
proof -
  let ?p = "last (a # xs)" and ?n = "hd (ys @ [a])"
  let ?h = "h\<lparr>nxt := (nxt h)(?p := ?n), prv := (prv h)(?n := ?p)\<rparr>"
  have mem: "?p \<in> set (a # xs)" "?n \<in> set (a # ys)" by (rule last_mem hd_mem)+
  from l have pos: "?p \<noteq> 0" "?n \<noteq> 0" using mem by (auto simp: linked_def)
  then have eq: "list_del_between ?p ?n h = Some ?h"
    by (simp add: list_del_between_def step_defs)
  have "seg ?h a (xs @ ys) a"
  proof (cases xs rule: rev_cases)
    case Nil
    then show ?thesis using l
      by (cases ys) (auto simp: linked_def seg_append elim!: seg_frame)
  next
    case (snoc xs' x)
    then show ?thesis using l
      by (cases ys) (auto simp: linked_def seg_append elim!: seg_frame)
  qed
  then have "linked ?h a (xs @ ys)" using l by (auto simp: linked_def)
  moreover have "\<forall>q. q \<notin> set (a # xs @ ys) \<longrightarrow> nxt ?h q = nxt h q \<and> prv ?h q = prv h q"
    using mem by auto
  ultimately show thesis using eq by (intro that [of ?h])
qed

fun path :: "lheap \<Rightarrow> addr list \<Rightarrow> bool" where
  "path h (x # y # xs) \<longleftrightarrow> nxt h x = y \<and> prv h y = x \<and> path h (y # xs)"
| "path h _ \<longleftrightarrow> True"

lemma seg_path: "seg h a xs b \<longleftrightarrow> path h (a # xs @ [b])"
  by (induction xs arbitrary: a) auto

lemma path_joined:
  "us \<noteq> [] \<Longrightarrow> vs \<noteq> [] \<Longrightarrow>
   path h (us @ vs) \<longleftrightarrow> path h us \<and> nxt h (last us) = hd vs \<and> prv h (hd vs) = last us \<and> path h vs"
  by (induction us rule: induct_list012) (auto simp: neq_Nil_conv)

lemma seg_path_first: "seg h a ys b \<longleftrightarrow> nxt h a = hd (ys @ [b]) \<and> prv h (hd (ys @ [b])) = a \<and> path h (ys @ [b])"
  by (cases ys) (auto simp: seg_path)

lemma seg_path_both:
  "seg h a (xs @ [e]) b \<longleftrightarrow> nxt h a = hd (xs @ [e]) \<and> prv h (hd (xs @ [e])) = a \<and> path h (xs @ [e]) \<and>
     nxt h e = b \<and> prv h b = e"
  using path_joined [of "xs @ [e]" "[b]" h] by (cases xs) (auto simp: seg_path)

lemma path_frame:
  "path h us \<Longrightarrow> \<forall>q \<in> set (butlast us). nxt h' q = nxt h q \<Longrightarrow> \<forall>q \<in> set (tl us). prv h' q = prv h q \<Longrightarrow> path h' us"
  by (induction us rule: induct_list012) auto

lemma last_notin_butlast: "distinct xs \<Longrightarrow> xs \<noteq> [] \<Longrightarrow> last xs \<notin> set (butlast xs)"
  by (cases xs rule: rev_cases) auto

lemma set_butlast_subset: "set (butlast xs) \<subseteq> set xs"
  by (auto dest: in_set_butlastD)

lemma splice_between:
  assumes l: "linked h a (xs @ ys)" and z: "linked h l zs" "zs \<noteq> []"
    and dis: "set (a # xs @ ys) \<inter> set (l # zs) = {}"
  obtains h' where "list_splice_between l (last (a # xs)) (hd (ys @ [a])) h = Some h'"
    "linked h' a (xs @ zs @ ys)"
    "\<forall>p. p \<notin> set (a # xs @ zs @ ys) \<longrightarrow> nxt h' p = nxt h p \<and> prv h' p = prv h p"
proof -
  let ?p = "last (a # xs)" and ?n = "hd (ys @ [a])" and ?f = "hd zs" and ?g = "last zs"
  let ?h = "h\<lparr>nxt := (nxt h)(?p := ?f, ?g := ?n), prv := (prv h)(?f := ?p, ?n := ?g)\<rparr>"
  have mem: "?p \<in> set (a # xs)" "?n \<in> set (a # ys)" "?f \<in> set zs" "?g \<in> set zs"
    by (rule last_mem hd_mem hd_in_set [OF z(2)] last_in_set [OF z(2)])+
  have nz: "q \<noteq> 0" if "q \<in> set (a # xs) \<union> set (a # ys) \<union> set zs" for q
    using that l z by (auto simp: linked_def)
  have pos: "?p \<noteq> 0" "?n \<noteq> 0" "?f \<noteq> 0" "?g \<noteq> 0" "l \<noteq> 0"
    using mem nz z(1) by (blast, blast, blast, blast, simp add: linked_def)
  have "nxt h l = ?f" "prv h l = ?g" using z seg_first [of h l zs l] seg_last [of h l zs l]
    by (auto simp: linked_def)
  then have eq: "list_splice_between l ?p ?n h = Some ?h"
    using pos by (simp add: list_splice_between_def step_defs)
  have d: "distinct (a # xs)" "distinct (ys @ [a])" "distinct (l # zs)" "set zs \<inter> set (a # xs @ ys) = {}"
    "set xs \<inter> set (ys @ [a]) = {}"
    using l z dis by (auto simp: linked_def)
  have cut: "path h (a # xs)" "path h (ys @ [a])" "path h zs"
    using l z path_joined [of "a # xs" "ys @ [a]" h] path_joined [of "[l]" "zs @ [l]" h]
      path_joined [of zs "[l]" h] by (auto simp: linked_def seg_path)
  have "path ?h (a # xs)"
    using cut(1)
  proof (rule path_frame)
    have "?p \<notin> set (butlast (a # xs))" using d(1) by (rule last_notin_butlast) simp
    moreover have "set (butlast (a # xs)) \<subseteq> set (a # xs)" by (rule set_butlast_subset)
    ultimately show "\<forall>q \<in> set (butlast (a # xs)). nxt ?h q = nxt h q" using d mem by auto
    show "\<forall>q \<in> set (tl (a # xs)). prv ?h q = prv h q" using d mem by auto
  qed
  moreover have "path ?h zs"
    using cut(3)
  proof (rule path_frame)
    have "?g \<notin> set (butlast zs)" using d(3) z(2) by (intro last_notin_butlast) auto
    then show "\<forall>q \<in> set (butlast zs). nxt ?h q = nxt h q"
      using d mem by (auto dest: in_set_butlastD)
    have "?f \<notin> set (tl zs)" using d(3) z(2) by (cases zs) auto
    then show "\<forall>q \<in> set (tl zs). prv ?h q = prv h q" using d mem by (auto dest: list.set_sel(2) [OF z(2)])
  qed
  moreover have "path ?h (ys @ [a])"
    using cut(2)
  proof (rule path_frame)
    show "\<forall>q \<in> set (butlast (ys @ [a])). nxt ?h q = nxt h q" using d mem by auto
    have "?n \<notin> set (tl (ys @ [a]))" using d(2) by (cases ys) auto
    moreover have "set (tl (ys @ [a])) \<subseteq> set (ys @ [a])" by (cases ys) auto
    ultimately show "\<forall>q \<in> set (tl (ys @ [a])). prv ?h q = prv h q" using d mem by auto
  qed
  moreover have "nxt ?h ?p = ?f" "prv ?h ?f = ?p" "nxt ?h ?g = ?n" "prv ?h ?n = ?g" using d mem by auto
  ultimately have "seg ?h a (xs @ zs @ ys) a"
    using z(2) path_joined [of "a # xs" "zs @ ys @ [a]" ?h] path_joined [of zs "ys @ [a]" ?h]
    by (simp add: seg_path)
  then have "linked ?h a (xs @ zs @ ys)" using l z dis by (auto simp: linked_def)
  moreover have "\<forall>q. q \<notin> set (a # xs @ zs @ ys) \<longrightarrow> nxt ?h q = nxt h q \<and> prv ?h q = prv h q"
    using mem by auto
  ultimately show thesis using eq by (intro that [of ?h])
qed


section \<open>What the functions do to all the lists of the heap\<close>

lemma linked_head: "linked h a xs \<Longrightarrow> nxt h a = hd (xs @ [a]) \<and> prv h a = last (a # xs) \<and> a \<noteq> 0"
  using seg_first [of h a xs a] seg_last [of h a xs a] by (auto simp: linked_def)

lemma linked_entry:
  "linked h a (xs @ e # ys) \<Longrightarrow> nxt h e = hd (ys @ [a]) \<and> prv h e = last (a # xs) \<and> e \<noteq> 0"
  using seg_first [of h e ys a] seg_last [of h a xs e] by (auto simp: linked_def seg_append)

lemma lists_inD: "lists_in h L \<Longrightarrow> L a = Some xs \<Longrightarrow> linked h a xs"
  by (auto simp: lists_in_def)

lemma lists_in_disjoint:
  "lists_in h L \<Longrightarrow> L a = Some xs \<Longrightarrow> L b = Some ys \<Longrightarrow> a \<noteq> b \<Longrightarrow> set (a # xs) \<inter> set (b # ys) = {}"
  unfolding lists_in_def by blast

lemma lists_in_drop: "lists_in h L \<Longrightarrow> lists_in h (L(a := None))"
  unfolding lists_in_def by (auto split: if_splits)

lemma in_cells: "L a = Some xs \<Longrightarrow> p \<in> set (a # xs) \<Longrightarrow> p \<in> cells L"
  by (auto simp: cells_def)

lemma lists_in_frame:
  "lists_in h L \<Longrightarrow> (\<And>p. p \<in> cells L \<Longrightarrow> nxt h' p = nxt h p \<and> prv h' p = prv h p) \<Longrightarrow> lists_in h' L"
  unfolding lists_in_def using linked_cong [of _ _ h' h] by (metis in_cells)

lemma cells_drop:
  assumes "lists_in h L" "L l = Some zs" shows "cells (L(l := None)) = cells L - set (l # zs)"
proof (rule set_eqI)
  fix p
  show "p \<in> cells (L(l := None)) \<longleftrightarrow> p \<in> cells L - set (l # zs)"
  proof
    assume "p \<in> cells (L(l := None))"
    then obtain b xs where b: "b \<noteq> l" "L b = Some xs" "p \<in> set (b # xs)"
      by (auto simp: cells_def split: if_splits)
    then show "p \<in> cells L - set (l # zs)" using lists_in_disjoint [OF assms(1) b(2) assms(2) b(1)]
      by (auto dest: in_cells)
  next
    assume "p \<in> cells L - set (l # zs)"
    then obtain b xs where b: "L b = Some xs" "p \<in> set (b # xs)" "p \<notin> set (l # zs)"
      by (auto simp: cells_def)
    then have "b \<noteq> l" using assms(2) by auto
    then show "p \<in> cells (L(l := None))" using b by (auto simp: cells_def)
  qed
qed

lemma lists_in_new:
  assumes "lists_in h L" "a \<notin> cells L" "linked h a []" shows "lists_in h (L(a \<mapsto> []))"
  using assms unfolding lists_in_def by (auto simp: cells_def split: if_splits)

text \<open>A list over fresh memory.\<close>

lemma INIT_LIST_HEAD_lists:
  assumes L: "lists_in h L" and a: "a \<notin> cells L" "a \<noteq> 0"
  obtains h' where "INIT_LIST_HEAD a h = Some h'" "lists_in h' (L(a \<mapsto> []))"
proof
  let ?h = "h\<lparr>nxt := (nxt h)(a := a), prv := (prv h)(a := a)\<rparr>"
  show "INIT_LIST_HEAD a h = Some ?h" using a by (simp add: INIT_LIST_HEAD_def step_defs)
  have "lists_in ?h L" using L by (rule lists_in_frame) (use a in auto)
  then show "lists_in ?h (L(a \<mapsto> []))" using a by (intro lists_in_new) (auto simp: linked_def)
qed

text \<open>Insertion between two neighbours.\<close>

lemma add_between_lists:
  assumes L: "lists_in h L" "L a = Some (xs @ ys)" and new: "new \<notin> cells L" "new \<noteq> 0"
  obtains h' where "list_add_between new (last (a # xs)) (hd (ys @ [a])) h = Some h'"
    "lists_in h' (L(a \<mapsto> xs @ new # ys))"
proof -
  have n: "new \<notin> set (a # xs @ ys)" using new L(2) in_cells by blast
  obtain h' where h': "list_add_between new (last (a # xs)) (hd (ys @ [a])) h = Some h'"
    "linked h' a (xs @ new # ys)" "\<forall>p. p \<notin> set (a # new # xs @ ys) \<longrightarrow> nxt h' p = nxt h p \<and> prv h' p = prv h p"
    by (rule add_between [OF lists_inD [OF L] n new(2)])
  have "lists_in h' (L(a \<mapsto> xs @ new # ys))"
    by (rule lists_in_change [OF L h'(2)]) (use h'(3) new in auto)
  with h'(1) show thesis by (rule that)
qed

lemma list_add_lists:
  assumes L: "lists_in h L" "L a = Some xs" and new: "new \<notin> cells L" "new \<noteq> 0"
  obtains h' where "list_add new a h = Some h'" "lists_in h' (L(a \<mapsto> new # xs))"
  using add_between_lists [of h L a "[]" xs new] assms linked_head [OF lists_inD [OF L]]
  by (auto simp: list_add_def get_next_def)

lemma list_add_tail_lists:
  assumes L: "lists_in h L" "L a = Some xs" and new: "new \<notin> cells L" "new \<noteq> 0"
  obtains h' where "list_add_tail new a h = Some h'" "lists_in h' (L(a \<mapsto> xs @ [new]))"
  using add_between_lists [of h L a xs "[]" new] assms linked_head [OF lists_inD [OF L]]
  by (auto simp: list_add_tail_def get_prev_def)

text \<open>Removal of an entry; the entry itself keeps its pointers.\<close>

lemma list_del_entry_lists:
  assumes L: "lists_in h L" "L a = Some (xs @ e # ys)"
  obtains h' where "list_del_entry e h = Some h'" "lists_in h' (L(a \<mapsto> xs @ ys))"
    "e \<notin> cells (L(a \<mapsto> xs @ ys))" "e \<noteq> 0"
proof -
  note l = lists_inD [OF L] and e = linked_entry [OF lists_inD [OF L]]
  obtain h' where h': "list_del_between (last (a # xs)) (hd (ys @ [a])) h = Some h'" "linked h' a (xs @ ys)"
    "\<forall>p. p \<notin> set (a # xs @ ys) \<longrightarrow> nxt h' p = nxt h p \<and> prv h' p = prv h p"
    by (rule del_between [OF l])
  have "lists_in h' (L(a \<mapsto> xs @ ys))"
    by (rule lists_in_change [OF L h'(2)]) (use h'(3) in auto)
  moreover have "list_del_entry e h = Some h'"
    using h'(1) e by (simp add: list_del_entry_def get_prev_def get_next_def)
  moreover have "e \<notin> cells (L(a \<mapsto> xs @ ys))"
  proof
    assume "e \<in> cells (L(a \<mapsto> xs @ ys))"
    then obtain b zs where b: "(L(a \<mapsto> xs @ ys)) b = Some zs" "e \<in> set (b # zs)" by (auto simp: cells_def)
    then have "b \<noteq> a" using l by (auto simp: linked_def)
    then show False using lists_in_disjoint [OF L, of b zs] b by auto
  qed
  ultimately show thesis using e that by blast
qed


lemma list_del_lists:
  assumes L: "lists_in h L" "L a = Some (xs @ e # ys)"
  obtains h' where "list_del e h = Some h'" "lists_in h' (L(a \<mapsto> xs @ ys))" "nxt h' e = 0" "prv h' e = 0"
    "e \<notin> cells (L(a \<mapsto> xs @ ys))"
proof -
  obtain h1 where h1: "list_del_entry e h = Some h1" "lists_in h1 (L(a \<mapsto> xs @ ys))"
    "e \<notin> cells (L(a \<mapsto> xs @ ys))" "e \<noteq> 0"
    by (rule list_del_entry_lists [OF L])
  let ?h = "h1\<lparr>nxt := (nxt h1)(e := 0), prv := (prv h1)(e := 0)\<rparr>"
  have "lists_in ?h (L(a \<mapsto> xs @ ys))" using h1(2) by (rule lists_in_frame) (use h1(3) in auto)
  moreover have "list_del e h = Some ?h" using h1 by (simp add: list_del_def step_defs)
  ultimately show thesis using h1(3) by (intro that [of ?h]) auto
qed

lemma list_del_init_lists:
  assumes L: "lists_in h L" "L a = Some (xs @ e # ys)"
  obtains h' where "list_del_init e h = Some h'" "lists_in h' (L(a \<mapsto> xs @ ys, e \<mapsto> []))"
proof -
  obtain h1 where h1: "list_del_entry e h = Some h1" "lists_in h1 (L(a \<mapsto> xs @ ys))"
    "e \<notin> cells (L(a \<mapsto> xs @ ys))" "e \<noteq> 0"
    by (rule list_del_entry_lists [OF L])
  obtain h2 where "INIT_LIST_HEAD e h1 = Some h2" "lists_in h2 (L(a \<mapsto> xs @ ys, e \<mapsto> []))"
    by (rule INIT_LIST_HEAD_lists [OF h1(2-4)])
  with h1(1) show thesis by (intro that [of h2]) (auto simp: list_del_init_def)
qed

lemma list_move_lists:
  assumes L: "lists_in h L" "L a = Some (xs @ e # ys)" and b: "(L(a \<mapsto> xs @ ys)) b = Some zs"
  obtains h' where "list_move e b h = Some h'" "lists_in h' (L(a \<mapsto> xs @ ys, b \<mapsto> e # zs))"
proof -
  obtain h1 where h1: "list_del_entry e h = Some h1" "lists_in h1 (L(a \<mapsto> xs @ ys))"
    "e \<notin> cells (L(a \<mapsto> xs @ ys))" "e \<noteq> 0"
    by (rule list_del_entry_lists [OF L])
  obtain h2 where "list_add e b h1 = Some h2" "lists_in h2 (L(a \<mapsto> xs @ ys, b \<mapsto> e # zs))"
    by (rule list_add_lists [OF h1(2) b h1(3,4)])
  with h1(1) show thesis by (intro that [of h2]) (auto simp: list_move_def)
qed

lemma list_move_tail_lists:
  assumes L: "lists_in h L" "L a = Some (xs @ e # ys)" and b: "(L(a \<mapsto> xs @ ys)) b = Some zs"
  obtains h' where "list_move_tail e b h = Some h'" "lists_in h' (L(a \<mapsto> xs @ ys, b \<mapsto> zs @ [e]))"
proof -
  obtain h1 where h1: "list_del_entry e h = Some h1" "lists_in h1 (L(a \<mapsto> xs @ ys))"
    "e \<notin> cells (L(a \<mapsto> xs @ ys))" "e \<noteq> 0"
    by (rule list_del_entry_lists [OF L])
  obtain h2 where "list_add_tail e b h1 = Some h2" "lists_in h2 (L(a \<mapsto> xs @ ys, b \<mapsto> zs @ [e]))"
    by (rule list_add_tail_lists [OF h1(2) b h1(3,4)])
  with h1(1) show thesis by (intro that [of h2]) (auto simp: list_move_tail_def)
qed

text \<open>The queries.\<close>

lemma list_empty_lists: "lists_in h L \<Longrightarrow> L a = Some xs \<Longrightarrow> list_empty h a = Some (xs = [])"
  using linked_head [of h a xs] lists_inD [of h L a xs]
  by (cases xs) (auto simp: list_empty_def get_next_def linked_def)

lemma list_is_last_lists:
  "lists_in h L \<Longrightarrow> L a = Some (xs @ e # ys) \<Longrightarrow> list_is_last h e a = Some (ys = [])"
  using linked_entry [of h a xs e ys] lists_inD [of h L a "xs @ e # ys"]
  by (cases ys) (auto simp: list_is_last_def get_next_def linked_def)

lemma list_is_singular_lists:
  assumes "lists_in h L" "L a = Some xs" shows "list_is_singular h a = Some (length xs = 1)"
proof -
  note l = lists_inD [OF assms]
  have "hd (xs @ [a]) = last (a # xs) \<longleftrightarrow> length xs = 1" if "xs \<noteq> []"
    using that l by (cases xs; cases "tl xs" rule: rev_cases) (auto simp: linked_def)
  then show ?thesis
    using linked_head [OF l] list_empty_lists [OF assms] l
    by (cases "xs = []") (auto simp: list_is_singular_def get_next_def get_prev_def)
qed

lemma list_empty_careful_lists:
  assumes "lists_in h L" "L a = Some xs" shows "list_empty_careful h a = Some (xs = [])"
  using linked_head [OF lists_inD [OF assms]] lists_inD [OF assms]
  by (cases xs) (auto simp: list_empty_careful_def get_next_def get_prev_def linked_def)

lemma list_rotate_left_lists:
  assumes L: "lists_in h L" "L a = Some xs"
  obtains h' where "list_rotate_left a h = Some h'" "lists_in h' (L(a \<mapsto> rotate1 xs))"
proof (cases xs)
  case Nil
  then show thesis using L list_empty_lists [OF L] that [of h]
    by (simp add: list_rotate_left_def fun_upd_idem)
next
  case (Cons x ys)
  have L': "L a = Some ([] @ x # ys)" "(L(a \<mapsto> [] @ ys)) a = Some ys" using L(2) Cons by auto
  obtain h' where "list_move_tail x a h = Some h'" "lists_in h' (L(a \<mapsto> [] @ ys, a \<mapsto> ys @ [x]))"
    by (rule list_move_tail_lists [OF L(1) L'])
  then show thesis using that [of h'] Cons list_empty_lists [OF L] linked_head [OF lists_inD [OF L]]
    by (simp add: list_rotate_left_def get_next_def)
qed

text \<open>The traversal meets the entries in order, and ends.\<close>

lemma list_walk_seg:
  "seg h a xs b \<Longrightarrow> b \<notin> set xs \<Longrightarrow> 0 \<notin> set xs \<Longrightarrow> length xs < fuel \<Longrightarrow> list_walk fuel h (nxt h a) b = Some xs"
proof (induction xs arbitrary: a fuel)
  case Nil
  then show ?case by (cases fuel) auto
next
  case (Cons x xs)
  then show ?case by (cases fuel) (auto simp: get_next_def)
qed

lemma list_for_each_lists:
  "lists_in h L \<Longrightarrow> L a = Some xs \<Longrightarrow> length xs < fuel \<Longrightarrow> list_for_each fuel h a = Some xs"
  using lists_inD [of h L a xs] list_walk_seg [of h a xs a fuel]
  by (auto simp: list_for_each_def get_next_def linked_def)


text \<open>Splices. The emptied list head keeps its pointers, or is initialised again.\<close>

lemma lists_in_put:
  assumes "lists_in h L" "set (a # xs) \<inter> cells L = {}" "linked h a xs" shows "lists_in h (L(a \<mapsto> xs))"
proof -
  have other: "set (a # xs) \<inter> set (b # ys) = {}" if "L b = Some ys" for b ys
    using assms(2) in_cells [of L b ys, OF that] by blast
  show ?thesis unfolding lists_in_def
  proof (intro conjI allI impI)
    fix b ys assume "(L(a \<mapsto> xs)) b = Some ys"
    then show "linked h b ys" using assms(3) lists_inD [OF assms(1)] by (cases "b = a") auto
  next
    fix b ys c zs assume "(L(a \<mapsto> xs)) b = Some ys" "(L(a \<mapsto> xs)) c = Some zs" "b \<noteq> c"
    then show "set (b # ys) \<inter> set (c # zs) = {}"
      using other lists_in_disjoint [OF assms(1), of b ys c zs]
      by (cases "b = a"; cases "c = a") (simp_all only: fun_upd_same fun_upd_other option.inject, blast+)
  qed
qed

lemma splice_between_lists:
  assumes L: "lists_in h L" "L a = Some (xs @ ys)" "L l = Some zs" and ne: "zs \<noteq> []" "l \<noteq> a"
  obtains h' where "list_splice_between l (last (a # xs)) (hd (ys @ [a])) h = Some h'"
    "lists_in h' (L(l := None, a \<mapsto> xs @ zs @ ys))" "l \<notin> cells (L(l := None, a \<mapsto> xs @ zs @ ys))" "l \<noteq> 0"
proof -
  have dis: "set (a # xs @ ys) \<inter> set (l # zs) = {}"
    using lists_in_disjoint [OF L] ne(2) by auto
  obtain h' where h': "list_splice_between l (last (a # xs)) (hd (ys @ [a])) h = Some h'"
    "linked h' a (xs @ zs @ ys)"
    "\<forall>p. p \<notin> set (a # xs @ zs @ ys) \<longrightarrow> nxt h' p = nxt h p \<and> prv h' p = prv h p"
    by (rule splice_between [OF lists_inD [OF L(1,2)] lists_inD [OF L(1,3)] ne(1) dis])
  let ?L = "L(l := None)"
  have L': "lists_in h ?L" "?L a = Some (xs @ ys)" using L lists_in_drop ne by auto
  have c: "cells ?L = cells L - set (l # zs)" by (rule cells_drop [OF L(1,3)])
  have "lists_in h' (?L(a \<mapsto> xs @ zs @ ys))"
  proof (rule lists_in_change [OF L' h'(2)])
    show "nxt h' p = nxt h p \<and> prv h' p = prv h p" if "p \<notin> set (a # xs @ ys) \<union> set (xs @ zs @ ys)" for p
      using that h'(3) by auto
    show "p \<in> set (xs @ ys) \<or> p \<notin> cells ?L" if "p \<in> set (xs @ zs @ ys)" for p
      using that c by auto
  qed
  moreover have l: "l \<noteq> 0" "l \<notin> set zs" using lists_inD [OF L(1,3)] by (auto simp: linked_def)
  moreover have "l \<notin> cells (?L(a \<mapsto> xs @ zs @ ys))"
  proof -
    have "cells (?L(a \<mapsto> xs @ zs @ ys)) \<subseteq> cells ?L \<union> set (a # xs @ zs @ ys)" by (auto simp: cells_def split: if_splits)
    moreover have "l \<notin> set (a # xs @ zs @ ys)" using dis l by auto
    ultimately show ?thesis using c by auto
  qed
  ultimately show thesis using h'(1) by (intro that [of h'])
qed


lemma list_splice_lists:
  assumes L: "lists_in h L" "L a = Some xs" "L l = Some zs" and ne: "zs \<noteq> []" "l \<noteq> a"
  obtains h' where "list_splice l a h = Some h'" "lists_in h' (L(l := None, a \<mapsto> zs @ xs))"
proof -
  have L': "L a = Some ([] @ xs)" using L by simp
  obtain h' where "list_splice_between l (last (a # [])) (hd (xs @ [a])) h = Some h'"
    "lists_in h' (L(l := None, a \<mapsto> [] @ zs @ xs))"
    by (rule splice_between_lists [OF L(1) L' L(3) ne])
  then show thesis using that [of h'] ne list_empty_lists [OF L(1,3)] linked_head [OF lists_inD [OF L(1,2)]]
    by (simp add: list_splice_def get_next_def)
qed

lemma list_splice_tail_lists:
  assumes L: "lists_in h L" "L a = Some xs" "L l = Some zs" and ne: "zs \<noteq> []" "l \<noteq> a"
  obtains h' where "list_splice_tail l a h = Some h'" "lists_in h' (L(l := None, a \<mapsto> xs @ zs))"
proof -
  have L': "L a = Some (xs @ [])" using L by simp
  obtain h' where "list_splice_between l (last (a # xs)) (hd ([] @ [a])) h = Some h'"
    "lists_in h' (L(l := None, a \<mapsto> xs @ zs @ []))"
    by (rule splice_between_lists [OF L(1) L' L(3) ne])
  then show thesis using that [of h'] ne list_empty_lists [OF L(1,3)] linked_head [OF lists_inD [OF L(1,2)]]
    by (simp add: list_splice_tail_def get_prev_def)
qed

lemma list_splice_init_lists:
  assumes L: "lists_in h L" "L a = Some xs" "L l = Some zs" and ne: "l \<noteq> a"
  obtains h' where "list_splice_init l a h = Some h'" "lists_in h' (L(a \<mapsto> zs @ xs, l \<mapsto> []))"
proof (cases "zs = []")
  case True
  then show thesis using L list_empty_lists [OF L(1,3)] that [of h] ne
    by (simp add: list_splice_init_def fun_upd_idem)
next
  case False
  have L': "L a = Some ([] @ xs)" using L by simp
  obtain h1 where h1: "list_splice_between l (last (a # [])) (hd (xs @ [a])) h = Some h1"
    "lists_in h1 (L(l := None, a \<mapsto> [] @ zs @ xs))" "l \<notin> cells (L(l := None, a \<mapsto> [] @ zs @ xs))" "l \<noteq> 0"
    by (rule splice_between_lists [OF L(1) L' L(3) False ne])
  obtain h2 where h2: "INIT_LIST_HEAD l h1 = Some h2" "lists_in h2 (L(l := None, a \<mapsto> [] @ zs @ xs, l \<mapsto> []))"
    by (rule INIT_LIST_HEAD_lists [OF h1(2-4)])
  have "L(l := None, a \<mapsto> [] @ zs @ xs, l \<mapsto> []) = L(a \<mapsto> zs @ xs, l \<mapsto> [])" using ne by (auto simp: fun_eq_iff)
  then show thesis
    using that [of h2] h1(1) h2 False list_empty_lists [OF L(1,3)] linked_head [OF lists_inD [OF L(1,2)]]
    by (simp add: list_splice_init_def get_next_def)
qed

lemma list_splice_tail_init_lists:
  assumes L: "lists_in h L" "L a = Some xs" "L l = Some zs" and ne: "l \<noteq> a"
  obtains h' where "list_splice_tail_init l a h = Some h'" "lists_in h' (L(a \<mapsto> xs @ zs, l \<mapsto> []))"
proof (cases "zs = []")
  case True
  then show thesis using L list_empty_lists [OF L(1,3)] that [of h] ne
    by (simp add: list_splice_tail_init_def fun_upd_idem)
next
  case False
  have L': "L a = Some (xs @ [])" using L by simp
  obtain h1 where h1: "list_splice_between l (last (a # xs)) (hd ([] @ [a])) h = Some h1"
    "lists_in h1 (L(l := None, a \<mapsto> xs @ zs @ []))" "l \<notin> cells (L(l := None, a \<mapsto> xs @ zs @ []))" "l \<noteq> 0"
    by (rule splice_between_lists [OF L(1) L' L(3) False ne])
  obtain h2 where h2: "INIT_LIST_HEAD l h1 = Some h2" "lists_in h2 (L(l := None, a \<mapsto> xs @ zs @ [], l \<mapsto> []))"
    by (rule INIT_LIST_HEAD_lists [OF h1(2-4)])
  have "L(l := None, a \<mapsto> xs @ zs @ [], l \<mapsto> []) = L(a \<mapsto> xs @ zs, l \<mapsto> [])" using ne by (auto simp: fun_eq_iff)
  then show thesis
    using that [of h2] h1(1) h2 False list_empty_lists [OF L(1,3)] linked_head [OF lists_inD [OF L(1,2)]]
    by (simp add: list_splice_tail_init_def get_prev_def)
qed

text \<open>Replacing an entry is removing it and inserting the new one in its place.\<close>

lemma list_replace_lists:
  assumes L: "lists_in h L" "L a = Some (xs @ old # ys)" and new: "new \<notin> cells L" "new \<noteq> 0"
  obtains h' where "list_replace old new h = Some h'" "lists_in h' (L(a \<mapsto> xs @ new # ys))"
proof -
  note l = lists_inD [OF L] and e = linked_entry [OF lists_inD [OF L]]
  let ?p = "last (a # xs)" and ?n = "hd (ys @ [a])"
  obtain h1 where h1: "list_del_entry old h = Some h1" "lists_in h1 (L(a \<mapsto> xs @ ys))"
    by (rule list_del_entry_lists [OF L])
  have n: "new \<notin> cells (L(a \<mapsto> xs @ ys))"
    using new(1) in_cells [of L a "xs @ old # ys" new] L(2) by (auto simp: cells_def split: if_splits)
  have La: "(L(a \<mapsto> xs @ ys)) a = Some (xs @ ys)" by simp
  obtain h2 where h2: "list_add_between new ?p ?n h1 = Some h2"
    "lists_in h2 (L(a \<mapsto> xs @ ys, a \<mapsto> xs @ new # ys))"
    by (rule add_between_lists [OF h1(2) La n new(2)])
  have mem: "?p \<in> set (a # xs)" "?n \<in> set (a # ys)" by (rule last_mem hd_mem)+
  then have nz: "?p \<noteq> 0" "?n \<noteq> 0" using l by (auto simp: linked_def)
  have neq: "?n \<noteq> old" "?p \<noteq> old" "new \<noteq> old" "new \<noteq> ?n" "new \<noteq> ?p"
    using mem l new(1) in_cells [of L a "xs @ old # ys"] L(2) by (auto simp: linked_def)
  define p n where "p = ?p" and "n = ?n"
  note pn = p_def [symmetric] n_def [symmetric]
  have "list_replace old new h = Some h2"
    using h1(1) h2(1) e nz neq new(2) unfolding pn
    by (auto simp: list_replace_def list_del_entry_def list_del_between_def list_add_between_def step_defs
        fun_upd_twist)
  with h2(2) show thesis by (intro that [of h2]) auto
qed


text \<open>Cutting a list after an entry moves the entries up to it to another list head.\<close>

lemma cut_between:
  assumes a: "linked h a (xs @ e # ys)" and l: "l \<notin> set (a # xs @ e # ys)" "l \<noteq> 0"
  obtains h' where "list_cut_between l a e h = Some h'" "linked h' l (xs @ [e])" "linked h' a ys"
    "\<forall>p. p \<notin> set (a # l # xs @ e # ys) \<longrightarrow> nxt h' p = nxt h p \<and> prv h' p = prv h p"
proof -
  let ?f = "hd (xs @ [e])" and ?n = "hd (ys @ [a])"
  let ?h = "h\<lparr>nxt := (nxt h)(l := ?f, e := l, a := ?n), prv := (prv h)(?f := l, l := e, ?n := a)\<rparr>"
  have mem: "?f \<in> set (e # xs)" "?n \<in> set (a # ys)" by (rule hd_mem)+
  have d: "distinct (a # l # xs @ e # ys)" "0 \<notin> set (a # l # xs @ e # ys)" using a l by (auto simp: linked_def)
  have nz: "?f \<noteq> 0" "?n \<noteq> 0" using mem d by auto
  have "?n \<noteq> l" "?f \<noteq> ?n" using mem d by auto
  moreover have "nxt h a = ?f" using linked_head [OF a] by (cases xs) auto
  ultimately have eq: "list_cut_between l a e h = Some ?h"
    using nz l linked_entry [OF a] linked_head [OF a] d by (simp add: list_cut_between_def step_defs)
  have cut: "path h (xs @ [e])" "path h (ys @ [a])"
    using a path_joined [of "[a]" "(xs @ [e]) @ ys @ [a]" h] path_joined [of "xs @ [e]" "ys @ [a]" h]
    by (auto simp: linked_def seg_path)
  have "path ?h (xs @ [e])"
    using cut(1)
  proof (rule path_frame)
    show "\<forall>q \<in> set (butlast (xs @ [e])). nxt ?h q = nxt h q" using d mem by auto
    have "?f \<notin> set (tl (xs @ [e]))" using d by (cases xs) auto
    moreover have "set (tl (xs @ [e])) \<subseteq> set (xs @ [e])" by (cases xs) auto
    ultimately show "\<forall>q \<in> set (tl (xs @ [e])). prv ?h q = prv h q" using d mem by auto
  qed
  moreover have "path ?h (ys @ [a])"
    using cut(2)
  proof (rule path_frame)
    show "\<forall>q \<in> set (butlast (ys @ [a])). nxt ?h q = nxt h q" using d mem by auto
    have "?n \<notin> set (tl (ys @ [a]))" using d by (cases ys) auto
    moreover have "set (tl (ys @ [a])) \<subseteq> set (ys @ [a])" by (cases ys) auto
    ultimately show "\<forall>q \<in> set (tl (ys @ [a])). prv ?h q = prv h q" using d mem by auto
  qed
  moreover have "nxt ?h l = ?f" "prv ?h ?f = l" "nxt ?h e = l" "prv ?h l = e" "nxt ?h a = ?n" "prv ?h ?n = a"
    using d mem by auto
  ultimately have "seg ?h l (xs @ [e]) l" "seg ?h a ys a"
    unfolding seg_path_both seg_path_first [of ?h a ys a] by blast+
  then have "linked ?h l (xs @ [e])" "linked ?h a ys" using d by (auto simp: linked_def)
  moreover have "\<forall>q. q \<notin> set (a # l # xs @ e # ys) \<longrightarrow> nxt ?h q = nxt h q \<and> prv ?h q = prv h q" using mem by auto
  ultimately show thesis using eq by (intro that [of ?h])
qed

lemma list_cut_position_lists:
  assumes L: "lists_in h L" "L a = Some (xs @ e # ys)" and l: "l \<notin> cells L" "l \<noteq> 0"
  obtains h' where "list_cut_position l a e h = Some h'" "lists_in h' (L(l \<mapsto> xs @ [e], a \<mapsto> ys))"
proof -
  note a = lists_inD [OF L]
  have n: "l \<notin> set (a # xs @ e # ys)" using l(1) in_cells [of L a "xs @ e # ys"] L(2) by blast
  obtain h' where h': "list_cut_between l a e h = Some h'" "linked h' l (xs @ [e])" "linked h' a ys"
    "\<forall>p. p \<notin> set (a # l # xs @ e # ys) \<longrightarrow> nxt h' p = nxt h p \<and> prv h' p = prv h p"
    by (rule cut_between [OF a n l(2)])
  have ea: "e \<noteq> a" using a by (auto simp: linked_def)
  have "nxt h a = e" if "length (xs @ e # ys) = 1" using that linked_head [OF a] by auto
  then have "list_cut_position l a e h = Some h'"
    using h'(1) ea list_empty_lists [OF L] list_is_singular_lists [OF L] linked_head [OF a]
    by (auto simp: list_cut_position_def get_next_def)
  moreover
  let ?L = "L(a := None)"
  have c: "cells ?L = cells L - set (a # xs @ e # ys)" by (rule cells_drop [OF L])
  have 1: "lists_in h' ?L"
    by (rule lists_in_frame [OF lists_in_drop [OF L(1)]]) (use h'(4) c l in auto)
  have 2: "lists_in h' (?L(l \<mapsto> xs @ [e]))"
    by (rule lists_in_put [OF 1 _ h'(2)]) (use c l in auto)
  have "cells (?L(l \<mapsto> xs @ [e])) \<subseteq> cells ?L \<union> set (l # xs @ [e])" by (auto simp: cells_def split: if_splits)
  then have "set (a # ys) \<inter> cells (?L(l \<mapsto> xs @ [e])) = {}" using c n a by (auto simp: linked_def)
  then have "lists_in h' (?L(l \<mapsto> xs @ [e], a \<mapsto> ys))" by (rule lists_in_put [OF 2 _ h'(3)])
  moreover have "?L(l \<mapsto> xs @ [e], a \<mapsto> ys) = L(l \<mapsto> xs @ [e], a \<mapsto> ys)" using n by (auto simp: fun_eq_iff)
  ultimately show thesis by (intro that [of h']) auto
qed


section \<open>Sequences of list operations\<close>

text \<open>A call of a list function. An operation on an entry also names the list the entry is in, which the
  code does not get and does not need.\<close>

datatype list_op =
    Init addr
  | Add addr addr
  | Add_Tail addr addr
  | Del addr addr
  | Del_Init addr addr
  | Move addr addr addr
  | Move_Tail addr addr addr
  | Replace addr addr addr
  | Rotate addr
  | Cut addr addr addr
  | Splice addr addr
  | Splice_Tail addr addr
  | Splice_Init addr addr
  | Splice_Tail_Init addr addr

fun list_call :: "list_op \<Rightarrow> lheap \<Rightarrow> lheap option" where
  "list_call (Init a) h = INIT_LIST_HEAD a h"
| "list_call (Add e a) h = list_add e a h"
| "list_call (Add_Tail e a) h = list_add_tail e a h"
| "list_call (Del e a) h = list_del e h"
| "list_call (Del_Init e a) h = list_del_init e h"
| "list_call (Move e a b) h = list_move e b h"
| "list_call (Move_Tail e a b) h = list_move_tail e b h"
| "list_call (Replace old new a) h = list_replace old new h"
| "list_call (Rotate a) h = list_rotate_left a h"
| "list_call (Cut l a e) h = list_cut_position l a e h"
| "list_call (Splice l a) h = list_splice l a h"
| "list_call (Splice_Tail l a) h = list_splice_tail l a h"
| "list_call (Splice_Init l a) h = list_splice_init l a h"
| "list_call (Splice_Tail_Init l a) h = list_splice_tail_init l a h"

text \<open>What the calls do to sequences. \<open>None\<close> is a call that list.h forbids: a node that is in a list
  already is added, an entry is removed from a list it is not in, the address is \<open>NULL\<close>.\<close>

definition before :: "addr \<Rightarrow> addr list \<Rightarrow> addr list" where
  "before e xs = takeWhile (\<lambda>x. x \<noteq> e) xs"

definition behind :: "addr \<Rightarrow> addr list \<Rightarrow> addr list" where
  "behind e xs = tl (dropWhile (\<lambda>x. x \<noteq> e) xs)"

lemma split_at: "e \<in> set xs \<Longrightarrow> xs = before e xs @ e # behind e xs"
  by (induction xs) (auto simp: before_def behind_def)

definition fresh :: "(addr \<rightharpoonup> addr list) \<Rightarrow> addr \<Rightarrow> bool" where
  "fresh L a \<longleftrightarrow> a \<noteq> 0 \<and> a \<notin> cells L"

fun list_spec :: "list_op \<Rightarrow> (addr \<rightharpoonup> addr list) \<Rightarrow> (addr \<rightharpoonup> addr list) option" where
  "list_spec (Init a) L = (if fresh L a then Some (L(a \<mapsto> [])) else None)"
| "list_spec (Add e a) L = do { xs \<leftarrow> L a; if fresh L e then Some (L(a \<mapsto> e # xs)) else None }"
| "list_spec (Add_Tail e a) L = do { xs \<leftarrow> L a; if fresh L e then Some (L(a \<mapsto> xs @ [e])) else None }"
| "list_spec (Del e a) L = do {
     xs \<leftarrow> L a; if e \<in> set xs then Some (L(a \<mapsto> before e xs @ behind e xs)) else None }"
| "list_spec (Del_Init e a) L = do {
     xs \<leftarrow> L a; if e \<in> set xs then Some (L(a \<mapsto> before e xs @ behind e xs, e \<mapsto> [])) else None }"
| "list_spec (Move e a b) L = do {
     xs \<leftarrow> L a;
     let L' = L(a \<mapsto> before e xs @ behind e xs);
     ys \<leftarrow> L' b;
     if e \<in> set xs then Some (L'(b \<mapsto> e # ys)) else None }"
| "list_spec (Move_Tail e a b) L = do {
     xs \<leftarrow> L a;
     let L' = L(a \<mapsto> before e xs @ behind e xs);
     ys \<leftarrow> L' b;
     if e \<in> set xs then Some (L'(b \<mapsto> ys @ [e])) else None }"
| "list_spec (Replace old new a) L = do {
     xs \<leftarrow> L a;
     if old \<in> set xs \<and> fresh L new then Some (L(a \<mapsto> before old xs @ new # behind old xs)) else None }"
| "list_spec (Rotate a) L = do { xs \<leftarrow> L a; Some (L(a \<mapsto> rotate1 xs)) }"
| "list_spec (Cut l a e) L = do {
     xs \<leftarrow> L a;
     if e \<in> set xs \<and> fresh L l then Some (L(l \<mapsto> before e xs @ [e], a \<mapsto> behind e xs)) else None }"
| "list_spec (Splice l a) L = do {
     xs \<leftarrow> L a; zs \<leftarrow> L l; if l \<noteq> a \<and> zs \<noteq> [] then Some (L(l := None, a \<mapsto> zs @ xs)) else None }"
| "list_spec (Splice_Tail l a) L = do {
     xs \<leftarrow> L a; zs \<leftarrow> L l; if l \<noteq> a \<and> zs \<noteq> [] then Some (L(l := None, a \<mapsto> xs @ zs)) else None }"
| "list_spec (Splice_Init l a) L = do {
     xs \<leftarrow> L a; zs \<leftarrow> L l; if l \<noteq> a then Some (L(a \<mapsto> zs @ xs, l \<mapsto> [])) else None }"
| "list_spec (Splice_Tail_Init l a) L = do {
     xs \<leftarrow> L a; zs \<leftarrow> L l; if l \<noteq> a then Some (L(a \<mapsto> xs @ zs, l \<mapsto> [])) else None }"

lemma list_call_refines:
  assumes L: "lists_in h L" and s: "list_spec op L = Some L'"
  shows "\<exists>h'. list_call op h = Some h' \<and> lists_in h' L'"
proof -
  have at: "L a = Some (before e zs @ e # behind e zs)" if "L a = Some zs" "e \<in> set zs" for a e zs
    using that split_at [of e zs] by simp
  show ?thesis
  proof (cases op)
    case (Init a)
    then show ?thesis using s INIT_LIST_HEAD_lists [OF L, of a] by (auto simp: fresh_def split: if_splits)
  next
    case (Add e a)
    then show ?thesis using s list_add_lists [OF L, of a _ e]
      by (auto simp: fresh_def bind_eq_Some_conv split: if_splits)
  next
    case (Add_Tail e a)
    then show ?thesis using s list_add_tail_lists [OF L, of a _ e]
      by (auto simp: fresh_def bind_eq_Some_conv split: if_splits)
  next
    case (Del e a)
    then show ?thesis using s list_del_lists [OF L at, of a _ e]
      by (auto simp: bind_eq_Some_conv split: if_splits)
  next
    case (Del_Init e a)
    then show ?thesis using s list_del_init_lists [OF L at, of a _ e]
      by (auto simp: bind_eq_Some_conv split: if_splits)
  next
    case (Move e a b)
    then obtain zs ys where z: "L a = Some zs" "e \<in> set zs" and y: "(L(a \<mapsto> before e zs @ behind e zs)) b = Some ys"
      and L': "L' = L(a \<mapsto> before e zs @ behind e zs, b \<mapsto> e # ys)"
      using s by (auto simp: bind_eq_Some_conv Let_def simp del: fun_upd_apply split: if_splits)
    show ?thesis using list_move_lists [OF L at [OF z] y] Move L' by auto
  next
    case (Move_Tail e a b)
    then obtain zs ys where z: "L a = Some zs" "e \<in> set zs" and y: "(L(a \<mapsto> before e zs @ behind e zs)) b = Some ys"
      and L': "L' = L(a \<mapsto> before e zs @ behind e zs, b \<mapsto> ys @ [e])"
      using s by (auto simp: bind_eq_Some_conv Let_def simp del: fun_upd_apply split: if_splits)
    show ?thesis using list_move_tail_lists [OF L at [OF z] y] Move_Tail L' by auto
  next
    case (Replace old new a)
    then show ?thesis using s list_replace_lists [OF L at, of a _ old new]
      by (auto simp: fresh_def bind_eq_Some_conv split: if_splits)
  next
    case (Rotate a)
    then show ?thesis using s list_rotate_left_lists [OF L, of a] by (auto simp: bind_eq_Some_conv)
  next
    case (Cut l a e)
    then show ?thesis using s list_cut_position_lists [OF L at, of a _ e l]
      by (auto simp: fresh_def bind_eq_Some_conv split: if_splits)
  next
    case (Splice l a)
    then obtain xs zs where z: "L a = Some xs" "L l = Some zs" "zs \<noteq> []" "l \<noteq> a" and L': "L' = L(l := None, a \<mapsto> zs @ xs)"
      using s by (auto simp: bind_eq_Some_conv simp del: fun_upd_apply split: if_splits)
    show ?thesis using list_splice_lists [OF L z] Splice L' by auto
  next
    case (Splice_Tail l a)
    then obtain xs zs where z: "L a = Some xs" "L l = Some zs" "zs \<noteq> []" "l \<noteq> a" and L': "L' = L(l := None, a \<mapsto> xs @ zs)"
      using s by (auto simp: bind_eq_Some_conv simp del: fun_upd_apply split: if_splits)
    show ?thesis using list_splice_tail_lists [OF L z] Splice_Tail L' by auto
  next
    case (Splice_Init l a)
    then obtain xs zs where z: "L a = Some xs" "L l = Some zs" "l \<noteq> a" and L': "L' = L(a \<mapsto> zs @ xs, l \<mapsto> [])"
      using s by (auto simp: bind_eq_Some_conv simp del: fun_upd_apply split: if_splits)
    show ?thesis using list_splice_init_lists [OF L z] Splice_Init L' by auto
  next
    case (Splice_Tail_Init l a)
    then obtain xs zs where z: "L a = Some xs" "L l = Some zs" "l \<noteq> a" and L': "L' = L(a \<mapsto> xs @ zs, l \<mapsto> [])"
      using s by (auto simp: bind_eq_Some_conv simp del: fun_upd_apply split: if_splits)
    show ?thesis using list_splice_tail_init_lists [OF L z] Splice_Tail_Init L' by auto
  qed
qed

interpretation linux_list: simulation lists_in list_call list_spec
  by unfold_locales (rule list_call_refines)

text \<open>C20: For every sequence of calls of the list functions that respects their contract, the pointers of
  the heap do to each list what the calls do to sequences, and walking a list then meets exactly its entries
  in order. No call dereferences \<open>NULL\<close>.\<close>

theorem list_calls_refine_sequences:
  assumes "lists_in h L" "run_steps list_spec ops L = Some L'"
  shows "\<exists>h'. run_steps list_call ops h = Some h' \<and> lists_in h' L' \<and>
    (\<forall>a xs. L' a = Some xs \<longrightarrow> list_for_each (Suc (length xs)) h' a = Some xs \<and> list_empty h' a = Some (xs = []))"
  using linux_list.run [OF assms] list_for_each_lists list_empty_lists by blast

lemma lists_in_empty: "lists_in h Map.empty"
  by (simp add: lists_in_def)

lemma list_calls_refine_sequences_witness:
  "\<exists>h'. run_steps list_call [Init 1, Init 2, Add_Tail 5 1, Add_Tail 6 1, Add 7 1, Move_Tail 5 1 2, Splice_Tail_Init 2 1]
       \<lparr>nxt = \<lambda>_. 0, prv = \<lambda>_. 0\<rparr> = Some h' \<and> list_for_each 4 h' 1 = Some [7, 6, 5]"
proof -
  have "run_steps list_spec [Init 1, Init 2, Add_Tail 5 1, Add_Tail 6 1, Add 7 1, Move_Tail 5 1 2, Splice_Tail_Init 2 1]
      Map.empty = Some (Map.empty(1 \<mapsto> [7, 6, 5], 2 \<mapsto> []))"
    by (simp add: fresh_def cells_def before_def behind_def fun_upd_twist)
  from list_calls_refine_sequences [OF lists_in_empty this, of "\<lparr>nxt = \<lambda>_. 0, prv = \<lambda>_. 0\<rparr>"]
  obtain h' where h': "run_steps list_call [Init 1, Init 2, Add_Tail 5 1, Add_Tail 6 1, Add 7 1, Move_Tail 5 1 2,
      Splice_Tail_Init 2 1] \<lparr>nxt = \<lambda>_. 0, prv = \<lambda>_. 0\<rparr> = Some h'"
    "\<forall>a xs. [1 \<mapsto> [7, 6, 5], 2 \<mapsto> []] a = Some xs \<longrightarrow>
      list_for_each (Suc (length xs)) h' a = Some xs \<and> list_empty h' a = Some (xs = [])"
    by blast
  from h'(2) [rule_format, of 1 "[7, 6, 5]"] have "list_for_each 4 h' 1 = Some [7, 6, 5]"
    by (simp add: eval_nat_numeral)
  with h'(1) show ?thesis by blast
qed

end
