(* ===== verification/Tea.thy ===== *)
theory Tea
  imports Prelude
begin

text \<open>
  The block cipher of the local management connection (\<open>test-server/http_client.c\<close>): the key derived from
  the time, the encryption and decryption of one block of two words, and their use on an array of words.
  A cast of a byte buffer to \<open>uint32_t*\<close> is \<open>words_of\<close> on a little-endian host.
\<close>

section \<open>The code\<close>

definition hash :: "u32 \<Rightarrow> u32" where
  "hash x =
     (let x = (drop_bit 16 x XOR x) * 0x45d9f3b;
          x = (drop_bit 16 x XOR x) * 0x45d9f3b
      in drop_bit 16 x XOR x)"

type_synonym key = "u32 \<times> u32 \<times> u32 \<times> u32"

text \<open>The last word of the key comes from the time, rounded up to minutes; \<open>t\<close> is the answer of \<open>time\<close>.\<close>

definition generate_key :: "int \<Rightarrow> key \<Rightarrow> key" where
  "generate_key t k = (case k of (k0, k1, k2, _) \<Rightarrow>
     (k0, k1, k2, hash ((word_of_int t + 60 - 1) div 60)))"

definition tea_delta :: u32 where
  "tea_delta = 0x9e3779b9"

definition encry_cycle :: "key \<Rightarrow> u32 \<times> u32 \<times> u32 \<Rightarrow> u32 \<times> u32 \<times> u32" where
  "encry_cycle k st = (case k of (k0, k1, k2, k3) \<Rightarrow> case st of (v0, v1, s) \<Rightarrow>
     let s = s + tea_delta;
         v0 = v0 + ((push_bit 4 v1 + k0) XOR (v1 + s) XOR (drop_bit 5 v1 + k1));
         v1 = v1 + ((push_bit 4 v0 + k2) XOR (v0 + s) XOR (drop_bit 5 v0 + k3))
     in (v0, v1, s))"

definition decry_cycle :: "key \<Rightarrow> u32 \<times> u32 \<times> u32 \<Rightarrow> u32 \<times> u32 \<times> u32" where
  "decry_cycle k st = (case k of (k0, k1, k2, k3) \<Rightarrow> case st of (v0, v1, s) \<Rightarrow>
     let v1 = v1 - ((push_bit 4 v0 + k2) XOR (v0 + s) XOR (drop_bit 5 v0 + k3));
         v0 = v0 - ((push_bit 4 v1 + k0) XOR (v1 + s) XOR (drop_bit 5 v1 + k1));
         s = s - tea_delta
     in (v0, v1, s))"

definition encry :: "u32 \<times> u32 \<Rightarrow> key \<Rightarrow> u32 \<times> u32" where
  "encry v k = (case (encry_cycle k ^^ 32) (fst v, snd v, 0) of (v0, v1, s) \<Rightarrow> (v0, v1))"

definition decry :: "u32 \<times> u32 \<Rightarrow> key \<Rightarrow> u32 \<times> u32" where
  "decry v k = (case (decry_cycle k ^^ 32) (fst v, snd v, 0xC6EF3720) of (v0, v1, s) \<Rightarrow> (v0, v1))"

text \<open>The loops over an array of words; \<open>None\<close> when a block reaches outside it.\<close>

fun crypt_blocks :: "(u32 \<times> u32 \<Rightarrow> u32 \<times> u32) \<Rightarrow> nat \<Rightarrow> u32 list \<Rightarrow> u32 list option" where
  "crypt_blocks f 0 v = Some v"
| "crypt_blocks f (Suc n) (a # b # v) =
     (case f (a, b) of (a', b') \<Rightarrow> map_option (\<lambda>v'. a' # b' # v') (crypt_blocks f n v))"
| "crypt_blocks f (Suc n) _ = None"

definition tea_key :: key where
  "tea_key = (0x53726438, 0x89742910, 0x47492018, 0x0)"

definition encry2 :: "int \<Rightarrow> u32 list \<Rightarrow> int \<Rightarrow> u32 list option" where
  "encry2 t v len =
     (if len mod 2 = 0 then crypt_blocks (\<lambda>b. encry b (generate_key t tea_key)) (nat (len div 2)) v else None)"

definition decry2 :: "int \<Rightarrow> u32 list \<Rightarrow> int \<Rightarrow> u32 list option" where
  "decry2 t v len =
     (if len mod 2 = 0 then crypt_blocks (\<lambda>b. decry b (generate_key t tea_key)) (nat (len div 2)) v else None)"

text \<open>A byte array seen as words, and back.\<close>

fun words_of :: "bytes \<Rightarrow> u32 list" where
  "words_of (a # b # c # d # r) = of_le32 [a, b, c, d] # words_of r"
| "words_of _ = []"

definition bytes_of :: "u32 list \<Rightarrow> bytes" where
  "bytes_of ws = concat (map le32 ws)"

section \<open>Decryption inverts encryption\<close>

lemma decry_cycle_encry_cycle: "decry_cycle k (encry_cycle k st) = st"
  by (cases k; cases st) (simp add: encry_cycle_def decry_cycle_def Let_def)

lemma encry_cycle_decry_cycle: "encry_cycle k (decry_cycle k st) = st"
  by (cases k; cases st) (simp add: encry_cycle_def decry_cycle_def Let_def)

lemma cycles_inverse:
  fixes f g :: "'a \<Rightarrow> 'a"
  assumes "\<And>st. g (f st) = st" shows "(g ^^ n) ((f ^^ n) st) = st"
proof (induction n arbitrary: st)
  case (Suc n)
  have "(g ^^ Suc n) ((f ^^ Suc n) st) = (g ^^ n) (g (f ((f ^^ n) st)))" by (simp add: funpow_swap1)
  then show ?case using Suc.IH by (simp add: assms)
qed simp

lemma encry_sum: "snd (snd ((encry_cycle k ^^ n) st)) = snd (snd st) + of_nat n * tea_delta"
  by (induction n) (auto simp: encry_cycle_def Let_def algebra_simps split: prod.splits)

lemma decry_sum: "snd (snd ((decry_cycle k ^^ n) st)) = snd (snd st) - of_nat n * tea_delta"
  by (induction n) (auto simp: decry_cycle_def Let_def algebra_simps split: prod.splits)

lemma tea_sum: "32 * tea_delta = 0xC6EF3720"
  by (simp add: tea_delta_def)

lemma decry_encry: "decry (encry v k) k = v"
proof -
  obtain v0 v1 s where e: "(encry_cycle k ^^ 32) (fst v, snd v, 0) = (v0, v1, s)" by (cases "(encry_cycle k ^^ 32) (fst v, snd v, 0)")
  have "s = 0xC6EF3720" using encry_sum [of 32 k "(fst v, snd v, 0)"] e tea_sum by simp
  then show ?thesis
    using cycles_inverse [of "decry_cycle k" "encry_cycle k" 32 "(fst v, snd v, 0)", OF decry_cycle_encry_cycle] e
    by (simp add: encry_def decry_def)
qed

lemma encry_decry: "encry (decry v k) k = v"
proof -
  obtain v0 v1 s where e: "(decry_cycle k ^^ 32) (fst v, snd v, 0xC6EF3720) = (v0, v1, s)"
    by (cases "(decry_cycle k ^^ 32) (fst v, snd v, 0xC6EF3720)")
  have "s = 0" using decry_sum [of 32 k "(fst v, snd v, 0xC6EF3720)"] e tea_sum by simp
  then show ?thesis
    using cycles_inverse [of "encry_cycle k" "decry_cycle k" 32 "(fst v, snd v, 0xC6EF3720)", OF encry_cycle_decry_cycle] e
    by (simp add: encry_def decry_def)
qed

lemma crypt_blocks_defined: "2 * n \<le> length v \<Longrightarrow> \<exists>w. crypt_blocks f n v = Some w \<and> length w = length v"
  by (induction f n v rule: crypt_blocks.induct) (auto split: prod.splits)

lemma crypt_blocks_inverse:
  "(\<And>b. g (f b) = b) \<Longrightarrow> crypt_blocks f n v = Some w \<Longrightarrow> crypt_blocks g n w = Some v"
proof (induction f n v arbitrary: w rule: crypt_blocks.induct)
  case (2 f n a b v)
  obtain a' b' where ab: "f (a, b) = (a', b')" by (cases "f (a, b)")
  with "2.prems" obtain w' where w: "crypt_blocks f n v = Some w'" "w = a' # b' # w'" by auto
  have "g (a', b') = (a, b)" using "2.prems"(1) [of "(a, b)"] ab by simp
  moreover have "crypt_blocks g n w' = Some v" using "2.IH" [OF ab [symmetric] "2.prems"(1) w(1)] .
  ultimately show ?case using w by simp
qed auto

lemma same_minute:
  assumes "0 \<le> t" "0 \<le> t'" "t + 60 < 2 ^ 32" "t' + 60 < 2 ^ 32" "(t + 59) div 60 = (t' + 59) div 60"
  shows "generate_key t k = generate_key t' k"
proof -
  have "(word_of_int x + 60 - 1) div 60 = (word_of_int ((x + 59) div 60) :: u32)" if "0 \<le> x" "x + 60 < 2 ^ 32" for x
  proof -
    have "uint (word_of_int (x + 59) :: u32) = x + 59"
      using that unfolding uint_word_of_int_eq by (intro take_bit_int_eq_self) auto
    then have "(word_of_int (x + 59) :: u32) div 60 = word_of_int ((x + 59) div 60)"
      by (simp add: word_div_def del: of_int_add)
    then show ?thesis by (simp add: add.commute)
  qed
  with assms show ?thesis by (simp add: generate_key_def split: prod.splits)
qed

text \<open>C31: A block array encrypted by one side and decrypted by the other within the same minute of the clock
  comes back unchanged, and encryption of an array of even length always succeeds.\<close>

theorem tea_roundtrip:
  assumes "even len" "0 \<le> len" "len \<le> int (length v)"
    and "0 \<le> t" "0 \<le> t'" "t + 60 < 2 ^ 32" "t' + 60 < 2 ^ 32" "(t + 59) div 60 = (t' + 59) div 60"
  shows "\<exists>w. encry2 t v len = Some w \<and> length w = length v \<and> decry2 t' w len = Some v"
proof -
  have n: "2 * nat (len div 2) \<le> length v" using assms(1-3) by auto
  obtain w where w: "crypt_blocks (\<lambda>b. encry b (generate_key t tea_key)) (nat (len div 2)) v = Some w" "length w = length v"
    using crypt_blocks_defined [OF n] by blast
  have "crypt_blocks (\<lambda>b. decry b (generate_key t tea_key)) (nat (len div 2)) w = Some v"
    by (rule crypt_blocks_inverse [OF _ w(1)]) (rule decry_encry)
  then show ?thesis using w assms(1) same_minute [OF assms(4-8)]
    by (simp add: encry2_def decry2_def even_iff_mod_2_eq_zero)
qed

lemma tea_roundtrip_witness:
  "\<exists>w. encry2 1000 [1, 2, 3, 4] 4 = Some w \<and> length w = length [1, 2, 3, 4 :: u32] \<and> decry2 1010 w 4 = Some [1, 2, 3, 4]"
  using tea_roundtrip [of 4 "[1, 2, 3, 4]" 1000 1010] by simp

end
