(* ===== verification/Tunnel_State.thy ===== *)
theory Tunnel_State
  imports Prelude Kernel_List
begin

text \<open>
  The state of the tunnel (\<open>test-server/http_client.h\<close>) and the operations of \<open>test-server/http_client.c\<close>
  every part of it uses: the poll table, the pools of buffers and contexts, the buffers prepared from the
  server's messages, and the queue to the server.

  Buffers and contexts are numbered; a list head of the code is a value of \<open>blist\<close> or \<open>clist\<close> and the list
  behind it a list of numbers, which theory \<open>Kernel_List\<close> justifies. The flag \<open>b_linked\<close> tells whether the
  node of a buffer is on a list, that is whether its pointers are neither \<open>NULL\<close> nor the poison of
  \<open>list_del\<close>: adding a linked node or removing an unlinked one is \<open>None\<close>, as are a failed assertion and an
  access outside an array. The answers of the operating system are a sequence the state consumes, and what
  the program asks of it is a log.
\<close>

section \<open>Constants and data\<close>

definition CALLER_CACHES :: nat where "CALLER_CACHES = 256"
definition HTTPBUF_CACHES :: nat where "HTTPBUF_CACHES = 256"
definition HTTP_BUF_SIZE :: int where "HTTP_BUF_SIZE = 2048"
definition HTTP_IN_MAX :: nat where "HTTP_IN_MAX = 20480"
definition HTTP_C_MAGIC :: u32 where "HTTP_C_MAGIC = 0x10293874"
definition HTTP_C_VERSION :: u8 where "HTTP_C_VERSION = 1"
definition HTTP_C_REQ :: u8 where "HTTP_C_REQ = 1"
definition HTTP_C_RESP :: u8 where "HTTP_C_RESP = 2"
definition HTTP_C_HAND :: u8 where "HTTP_C_HAND = 3"
definition HTTP_C_TUNNELREQ :: u8 where "HTTP_C_TUNNELREQ = 5"
definition HTTP_C_TUNNELRESP :: u8 where "HTTP_C_TUNNELRESP = 6"
definition HTTP_C_FORWARD :: u8 where "HTTP_C_FORWARD = 0x10"
definition HTTP_C_FORWARD_REQ :: u8 where "HTTP_C_FORWARD_REQ = 0x11"
definition HTTP_C_FORWARD_RESP :: u8 where "HTTP_C_FORWARD_RESP = 0x12"
definition HTTP_C_HEADER_LEN :: nat where "HTTP_C_HEADER_LEN = 16"
definition WEBSOCK_MIN_PACK_SIZE :: nat where "WEBSOCK_MIN_PACK_SIZE = 40"
definition HTTP_TIMEOUT_SECS :: int where "HTTP_TIMEOUT_SECS = 8"

text \<open>From \<open>buf\<close>, aligned to eight bytes behind the padding, at least this much of \<open>real_buf\<close> remains.\<close>

definition BUF_ROOM :: nat where "BUF_ROOM = 2053"

text \<open>The packed header in front of every message, as the bytes it has in memory.\<close>

record http_c_header =
  h_magic :: u32
  h_version :: u8
  h_type :: u8
  h_seq :: u16
  h_length :: u32
  h_reserved :: u32

definition header_bytes :: "http_c_header \<Rightarrow> bytes" where
  "header_bytes h = le32 (h_magic h) @ [h_version h, h_type h] @ le16 (h_seq h) @ le32 (h_length h)
     @ le32 (h_reserved h)"

text \<open>A header with its fields in network order.\<close>

definition mk_header :: "u8 \<Rightarrow> u16 \<Rightarrow> u32 \<Rightarrow> http_c_header" where
  "mk_header type seq len =
     \<lparr>h_magic = htonl HTTP_C_MAGIC, h_version = HTTP_C_VERSION, h_type = type, h_seq = htons seq,
      h_length = htonl len, h_reserved = 0\<rparr>"

datatype calling_status = CALLING_READY | CALLING_PENDING | CALLING_FINISH
datatype caller_status = CALLER_FINISH | CALLER_PENDING | CALLER_CONTINUE
datatype caller_state = CALLER_STATE_CONNECT | CALLER_STATE_WRITE | CALLER_STATE_READ

definition CALLING_PRIO_LOW :: int where "CALLING_PRIO_LOW = 1"
definition CALLING_PRIO_COUNT :: int where "CALLING_PRIO_COUNT = 2"

text \<open>The heads of the lists of buffers: the pool, the \<open>list_todo\<close> of every \<open>http_buf\<close>, and the local list
  of \<open>http_parse\<close>.\<close>

datatype blist =
    Buf_Caches | Prepare | Toserver
  | Ctx_Read nat | Ctx_Write nat | Cli_Read nat | Cli_Write nat | Fwd_Write nat | Parse_Local

text \<open>The heads of the lists of contexts by \<open>node\<close>.\<close>

datatype clist = Ctx_Caches | Ready int | Run_Local int

record http_buf_info =
  b_data :: bytes
  b_start :: int
  b_len :: int
  b_total :: int
  b_linked :: bool

record http_buf =
  curr :: "nat option"
  hb_len :: int
  hb_total :: int
  hb_type :: u8
  hb_seq :: u16

datatype ctx_func = Run_Connect | Run_Write | Run_Read
datatype cli_func = Cli_Do_Read | Cli_Do_Write
datatype fwd_func = Fwd_Do_Connect | Fwd_Do_Read | Fwd_Do_Write

text \<open>The resume point of a coroutine is the number of its \<open>ccrReturn\<close>, 0 before the first.\<close>

record http_context =
  c_ccr :: nat
  c_linked :: bool
  c_tlinked :: bool
  c_status :: calling_status
  c_state :: caller_state
  c_func :: ctx_func
  c_prio :: int
  c_timeout :: int
  c_errcode :: int
  c_is_chunk :: bool
  c_pfd :: "nat option"
  c_sockfd :: int
  c_hostname :: bytes
  c_port :: u16
  c_revents :: u16
  c_seq :: u16

record tcp_client_context =
  k_ccr :: nat
  k_status :: calling_status
  k_func :: cli_func
  k_timeout :: int
  k_pfd :: "nat option"
  k_fd :: int
  k_req_seq :: int
  k_idle :: bool
  k_header_parsed :: bool

record tcp_forward_context =
  f_ccr :: nat
  f_status :: calling_status
  f_func :: fwd_func
  f_idle :: bool
  f_errcode :: int
  f_type :: u32
  f_pfd :: "nat option"
  f_fd :: int
  f_host :: u32
  f_port :: u16
  f_seq :: u16

record tcp_server_context =
  s_ccr :: nat
  client_len :: int
  s_status :: calling_status
  s_pfd :: "nat option"
  serv_fd :: int
  s_seq :: int

record pollfd =
  p_fd :: int
  p_events :: u16
  p_revents :: u16

definition POLLIN :: u16 where "POLLIN = 1"
definition POLLOUT :: u16 where "POLLOUT = 4"
definition POLLERR :: u16 where "POLLERR = 8"
definition POLLHUP :: u16 where "POLLHUP = 16"

text \<open>What \<open>http_lookup\<close> points to.\<close>

datatype common_context = Http nat | Server | Client nat | Forward nat

section \<open>The operating system\<close>

record answer =
  a_ret :: int
  a_errno :: int
  a_data :: bytes

definition EINTR :: int where "EINTR = 4"
definition EAGAIN :: int where "EAGAIN = 11"
definition EALREADY :: int where "EALREADY = 114"
definition EINPROGRESS :: int where "EINPROGRESS = 115"

datatype call =
    Time | Alloc | Dtablesize | Socket | Bind int | Accept int | Resolve bytes
  | Connect int u32 u16 | Read int int | Write int bytes | Close int
  | Go_Writable | Ws_Write bytes | Write_Again | Ws_Closed

record mgmt =
  ready_len :: int
  list_timeout :: "nat list"
  clists :: "clist \<Rightarrow> nat list"
  total_add :: int
  total_process :: int
  max_fds :: int
  pollfds :: "pollfd list"
  fd_lookup :: "int list"
  count_pollfds :: int
  http_lookup :: "common_context option list"
  sync_prepare :: bool
  sync_time :: int
  last_alive_time :: int
  toserver :: bool
  shakehand :: bool
  client_id :: u32
  username :: bytes
  local_host :: bytes
  local_port :: int
  tcp_server :: tcp_server_context
  list_client :: "nat list"
  list_forward :: "nat list"
  len_forward :: int
  blists :: "blist \<Rightarrow> nat list"
  hbufs :: "blist \<Rightarrow> http_buf"
  bufs :: "nat \<Rightarrow> http_buf_info"
  ctxs :: "nat \<Rightarrow> http_context"
  clients :: "nat \<Rightarrow> tcp_client_context"
  forwards :: "nat \<Rightarrow> tcp_forward_context"
  next_client :: nat
  next_forward :: nat
  answers :: "nat \<Rightarrow> answer"
  calls :: "call list"

text \<open>A call takes the next answer and is logged.\<close>

definition sys :: "call \<Rightarrow> mgmt \<Rightarrow> answer \<times> mgmt" where
  "sys c s = (answers s (length (calls s)), s\<lparr>calls := calls s @ [c]\<rparr>)"

definition get_time :: "mgmt \<Rightarrow> int \<times> mgmt" where
  "get_time s = (case sys Time s of (a, s) \<Rightarrow> (a_ret a, s))"

text \<open>\<open>read\<close> fills at most the room it is given; 0 is the end of the stream, a negative value an error.\<close>

definition sys_read :: "int \<Rightarrow> int \<Rightarrow> mgmt \<Rightarrow> (int \<times> bytes \<times> int) \<times> mgmt" where
  "sys_read fd left s = (case sys (Read fd left) s of (a, s) \<Rightarrow>
     let d = take (nat left) (a_data a)
     in ((if d = [] then min (a_ret a) 0 else int (length d), d, a_errno a), s))"

text \<open>\<open>write\<close> takes at most what it is given.\<close>

definition sys_write :: "int \<Rightarrow> bytes \<Rightarrow> mgmt \<Rightarrow> (int \<times> int) \<times> mgmt" where
  "sys_write fd d s = (case sys (Write fd d) s of (a, s) \<Rightarrow>
     ((min (a_ret a) (int (length d)), a_errno a), s))"


definition upd_buf :: "nat \<Rightarrow> (http_buf_info \<Rightarrow> http_buf_info) \<Rightarrow> mgmt \<Rightarrow> mgmt" where
  "upd_buf b f s = s\<lparr>bufs := (bufs s)(b := f (bufs s b))\<rparr>"

definition upd_hb :: "blist \<Rightarrow> (http_buf \<Rightarrow> http_buf) \<Rightarrow> mgmt \<Rightarrow> mgmt" where
  "upd_hb l f s = s\<lparr>hbufs := (hbufs s)(l := f (hbufs s l))\<rparr>"

definition upd_ctx :: "nat \<Rightarrow> (http_context \<Rightarrow> http_context) \<Rightarrow> mgmt \<Rightarrow> mgmt" where
  "upd_ctx c f s = s\<lparr>ctxs := (ctxs s)(c := f (ctxs s c))\<rparr>"

definition set_bl :: "blist \<Rightarrow> nat list \<Rightarrow> mgmt \<Rightarrow> mgmt" where
  "set_bl l bs s = s\<lparr>blists := (blists s)(l := bs)\<rparr>"

definition set_cl :: "clist \<Rightarrow> nat list \<Rightarrow> mgmt \<Rightarrow> mgmt" where
  "set_cl l cs s = s\<lparr>clists := (clists s)(l := cs)\<rparr>"

section \<open>The list functions on the lists of the state\<close>

definition bl_add :: "nat \<Rightarrow> blist \<Rightarrow> mgmt \<Rightarrow> mgmt option" where
  "bl_add b l s = (if b_linked (bufs s b) then None
     else Some (set_bl l (b # blists s l) (upd_buf b (b_linked_update (\<lambda>_. True)) s)))"

definition bl_add_tail :: "nat \<Rightarrow> blist \<Rightarrow> mgmt \<Rightarrow> mgmt option" where
  "bl_add_tail b l s = (if b_linked (bufs s b) then None
     else Some (set_bl l (blists s l @ [b]) (upd_buf b (b_linked_update (\<lambda>_. True)) s)))"

definition bl_del :: "nat \<Rightarrow> blist \<Rightarrow> mgmt \<Rightarrow> mgmt option" where
  "bl_del b l s = (if b_linked (bufs s b) \<and> b \<in> set (blists s l)
     then Some (set_bl l (remove1 b (blists s l)) (upd_buf b (b_linked_update (\<lambda>_. False)) s)) else None)"

text \<open>\<open>list_splice_init\<close> puts a list in front of another one, \<open>list_splice_tail_init\<close> behind it.\<close>

definition bl_splice_init :: "blist \<Rightarrow> blist \<Rightarrow> mgmt \<Rightarrow> mgmt" where
  "bl_splice_init l l' s = set_bl l [] (set_bl l' (blists s l @ blists s l') s)"

definition bl_splice_tail_init :: "blist \<Rightarrow> blist \<Rightarrow> mgmt \<Rightarrow> mgmt" where
  "bl_splice_tail_init l l' s = set_bl l [] (set_bl l' (blists s l' @ blists s l) s)"

definition next_buf_info :: "blist \<Rightarrow> mgmt \<Rightarrow> nat option" where
  "next_buf_info l s = (case blists s l of [] \<Rightarrow> None | b # _ \<Rightarrow> Some b)"

text \<open>\<open>node\<close> of a context is on the pool or on a ready list; \<open>list_del\<close> does not need to know on which.\<close>

definition cl_add :: "nat \<Rightarrow> clist \<Rightarrow> mgmt \<Rightarrow> mgmt option" where
  "cl_add c l s = (if c_linked (ctxs s c) then None
     else Some (set_cl l (c # clists s l) (upd_ctx c (c_linked_update (\<lambda>_. True)) s)))"

definition cl_del :: "nat \<Rightarrow> mgmt \<Rightarrow> mgmt option" where
  "cl_del c s = (if c_linked (ctxs s c)
     then Some (upd_ctx c (c_linked_update (\<lambda>_. False)) (s\<lparr>clists := (\<lambda>l. remove1 c (clists s l))\<rparr>)) else None)"

section \<open>The poll table\<close>

definition mgmt_add_fd :: "int \<Rightarrow> u16 \<Rightarrow> mgmt \<Rightarrow> (nat option \<times> mgmt) option" where
  "mgmt_add_fd fd events s =
     (if max_fds s \<le> fd then Some (None, s)
      else if fd < 0 \<or> count_pollfds s < 0 then None
      else do {
        lookup \<leftarrow> aset (fd_lookup s) (nat fd) (count_pollfds s);
        fds \<leftarrow> aset (pollfds s) (nat (count_pollfds s)) \<lparr>p_fd = fd, p_events = events, p_revents = 0\<rparr>;
        Some (Some (nat (count_pollfds s)),
          s\<lparr>fd_lookup := lookup, pollfds := fds, count_pollfds := count_pollfds s + 1\<rparr>) })"

definition mgmt_del_fd :: "int \<Rightarrow> mgmt \<Rightarrow> (int \<times> mgmt) option" where
  "mgmt_del_fd fd s =
     (let s = s\<lparr>count_pollfds := count_pollfds s - 1\<rparr>
      in if count_pollfds s = 0 then Some (-1, s)
      else if fd < 0 \<or> count_pollfds s < 0 then None
      else do {
        m \<leftarrow> aget (fd_lookup s) (nat fd);
        last \<leftarrow> aget (pollfds s) (nat (count_pollfds s));
        fds \<leftarrow> if m < 0 then None else aset (pollfds s) (nat m) last;
        lookup \<leftarrow> if p_fd last < 0 then None else aset (fd_lookup s) (nat (p_fd last)) m;
        Some (0, s\<lparr>pollfds := fds, fd_lookup := lookup\<rparr>) })"

definition set_lookup :: "int \<Rightarrow> common_context option \<Rightarrow> mgmt \<Rightarrow> mgmt option" where
  "set_lookup fd c s = (if fd < 0 then None else do {
     t \<leftarrow> aset (http_lookup s) (nat fd) c; Some (s\<lparr>http_lookup := t\<rparr>) })"

text \<open>An access through a \<open>struct pollfd*\<close>.\<close>

definition get_pfd :: "nat option \<Rightarrow> mgmt \<Rightarrow> pollfd option" where
  "get_pfd p s = do { i \<leftarrow> p; aget (pollfds s) i }"

definition upd_pfd :: "nat option \<Rightarrow> (pollfd \<Rightarrow> pollfd) \<Rightarrow> mgmt \<Rightarrow> mgmt option" where
  "upd_pfd p f s = do {
     i \<leftarrow> p; x \<leftarrow> aget (pollfds s) i; fds \<leftarrow> aset (pollfds s) i (f x); Some (s\<lparr>pollfds := fds\<rparr>) }"

definition want_write :: "pollfd \<Rightarrow> pollfd" where
  "want_write p = p\<lparr>p_events := (p_events p OR POLLOUT) AND NOT POLLIN\<rparr>"

definition want_read :: "pollfd \<Rightarrow> pollfd" where
  "want_read p = p\<lparr>p_events := (p_events p AND NOT POLLOUT) OR POLLIN\<rparr>"

section \<open>The pools\<close>

definition alloc_context :: "mgmt \<Rightarrow> (nat option \<times> mgmt) option" where
  "alloc_context s = (case clists s Ctx_Caches of
     [] \<Rightarrow> Some (None, s)
   | c # _ \<Rightarrow> do { s \<leftarrow> cl_del c s; Some (Some c, s) })"

definition free_context :: "nat option \<Rightarrow> mgmt \<Rightarrow> mgmt option" where
  "free_context c s = (case c of None \<Rightarrow> Some s | Some c \<Rightarrow> cl_add c Ctx_Caches s)"

definition alloc_buf :: "mgmt \<Rightarrow> (nat option \<times> mgmt) option" where
  "alloc_buf s = (case blists s Buf_Caches of
     [] \<Rightarrow> Some (None, s)
   | b # _ \<Rightarrow> do {
       s \<leftarrow> bl_del b Buf_Caches s;
       Some (Some b, upd_buf b (\<lambda>x. x\<lparr>b_len := 0, b_start := 0, b_total := 0\<rparr>) s) })"

definition free_buf :: "nat option \<Rightarrow> mgmt \<Rightarrow> mgmt option" where
  "free_buf b s = (case b of None \<Rightarrow> Some s | Some b \<Rightarrow> bl_add b Buf_Caches s)"

text \<open>\<open>memcpy\<close> into a buffer and out of one.\<close>

definition buf_write :: "nat \<Rightarrow> int \<Rightarrow> bytes \<Rightarrow> mgmt \<Rightarrow> mgmt option" where
  "buf_write b i d s = (if i < 0 then None else do {
     x \<leftarrow> ablit (b_data (bufs s b)) (nat i) d;
     Some (upd_buf b (b_data_update (\<lambda>_. x)) s) })"

definition buf_read :: "nat \<Rightarrow> int \<Rightarrow> int \<Rightarrow> mgmt \<Rightarrow> bytes option" where
  "buf_read b i n s =
     (if i < 0 \<or> n < 0 \<or> int (length (b_data (bufs s b))) < i + n then None
      else Some (take (nat n) (drop (nat i) (b_data (bufs s b)))))"

definition release_prepare :: "mgmt \<Rightarrow> mgmt option" where
  "release_prepare s = do {
     s \<leftarrow> free_buf (curr (hbufs s Prepare)) s;
     let s = upd_hb Prepare (\<lambda>h. h\<lparr>curr := None, hb_len := 0, hb_total := 0, hb_type := 0\<rparr>) s;
     Some (bl_splice_init Prepare Buf_Caches s) }"

definition save_prepare :: "nat \<Rightarrow> mgmt \<Rightarrow> mgmt option" where
  "save_prepare b s = (let n = b_start (bufs s b) in do {
     let s = upd_buf b (\<lambda>x. x\<lparr>b_len := n, b_total := n\<rparr>) s;
     let s = upd_hb Prepare (\<lambda>h. h\<lparr>hb_len := hb_len h + n\<rparr>) s;
     s \<leftarrow> bl_add_tail b Prepare s;
     let s = upd_buf b (b_start_update (\<lambda>_. 0)) s;
     Some (upd_hb Prepare (curr_update (\<lambda>_. None)) s) })"

section \<open>The queue to the server\<close>

definition http_mgmt_toserver :: "mgmt \<Rightarrow> mgmt option" where
  "http_mgmt_toserver s =
     (if toserver s then Some s
      else if curr (hbufs s Toserver) \<noteq> None then None
      else
        let s = upd_hb Toserver (curr_update (\<lambda>_. next_buf_info Toserver s)) s
        in if curr (hbufs s Toserver) = None then Some s
           else case sys Go_Writable s of (_, s) \<Rightarrow> Some (s\<lparr>toserver := True\<rparr>))"

definition http_mgmt_writable :: "mgmt \<Rightarrow> (int \<times> mgmt) option" where
  "http_mgmt_writable s =
     (if \<not> toserver s then None
      else do {
        (rc, s) \<leftarrow> (case curr (hbufs s Toserver) of
            None \<Rightarrow> Some (-1, s)
          | Some b \<Rightarrow>
              if b_len (bufs s b) = 0 then None
              else do {
                d \<leftarrow> buf_read b 0 (b_len (bufs s b)) s;
                let (a, s) = sys (Ws_Write d) s;
                let rc = (if a_ret a < 0 \<or> a_ret a < b_len (bufs s b) then -1 else 0);
                s \<leftarrow> bl_del b Toserver s;
                s \<leftarrow> free_buf (Some b) s;
                Some (rc, s) });
        let s = upd_hb Toserver (curr_update (\<lambda>_. next_buf_info Toserver s)) s;
        if curr (hbufs s Toserver) \<noteq> None then Some (rc, snd (sys Write_Again s))
        else Some (rc, s\<lparr>toserver := False\<rparr>) })"


section \<open>Start\<close>

definition zero_buf :: http_buf_info where
  "zero_buf = \<lparr>b_data = replicate BUF_ROOM 0, b_start = 0, b_len = 0, b_total = 0, b_linked = False\<rparr>"

definition zero_hb :: http_buf where
  "zero_hb = \<lparr>curr = None, hb_len = 0, hb_total = 0, hb_type = 0, hb_seq = 0\<rparr>"

definition zero_context :: http_context where
  "zero_context = \<lparr>c_ccr = 0, c_linked = False, c_tlinked = False, c_status = CALLING_READY,
     c_state = CALLER_STATE_CONNECT, c_func = Run_Connect, c_prio = 0, c_timeout = 0, c_errcode = 0,
     c_is_chunk = False, c_pfd = None, c_sockfd = 0, c_hostname = [], c_port = 0, c_revents = 0,
     c_seq = 0\<rparr>"

definition zero_client :: tcp_client_context where
  "zero_client = \<lparr>k_ccr = 0, k_status = CALLING_READY, k_func = Cli_Do_Read, k_timeout = 0, k_pfd = None,
     k_fd = 0, k_req_seq = 0, k_idle = False, k_header_parsed = False\<rparr>"

definition zero_forward :: tcp_forward_context where
  "zero_forward = \<lparr>f_ccr = 0, f_status = CALLING_READY, f_func = Fwd_Do_Connect, f_idle = False, f_errcode = 0,
     f_type = 0, f_pfd = None, f_fd = 0, f_host = 0, f_port = 0, f_seq = 0\<rparr>"

definition zero_mgmt :: "(nat \<Rightarrow> answer) \<Rightarrow> call list \<Rightarrow> mgmt" where
  "zero_mgmt ans log =
     \<lparr>ready_len = 0, list_timeout = [], clists = \<lambda>_. [], total_add = 0, total_process = 0, max_fds = 0,
      pollfds = [], fd_lookup = [], count_pollfds = 0, http_lookup = [], sync_prepare = False, sync_time = 0,
      last_alive_time = 0, toserver = False, shakehand = False, client_id = 0, username = [], local_host = [],
      local_port = 0,
      tcp_server = \<lparr>s_ccr = 0, client_len = 0, s_status = CALLING_READY, s_pfd = None, serv_fd = 0, s_seq = 0\<rparr>,
      list_client = [], list_forward = [], len_forward = 0, blists = \<lambda>_. [], hbufs = \<lambda>_. zero_hb,
      bufs = \<lambda>_. zero_buf, ctxs = \<lambda>_. zero_context, clients = \<lambda>_. zero_client,
      forwards = \<lambda>_. zero_forward, next_client = 0, next_forward = 0, answers = ans, calls = log\<rparr>"

definition http_mgmt_param_init :: "mgmt \<Rightarrow> mgmt" where
  "http_mgmt_param_init s =
     (let s = upd_hb Prepare (\<lambda>h. h\<lparr>curr := None, hb_len := 0, hb_total := 0\<rparr>) s;
          s = upd_hb Toserver (\<lambda>h. h\<lparr>curr := None, hb_len := 0, hb_total := 0\<rparr>) s;
          s = s\<lparr>sync_prepare := False, toserver := False, shakehand := False, total_process := 0, client_id := 0\<rparr>
      in case get_time s of (t, s) \<Rightarrow> s\<lparr>last_alive_time := t\<rparr>)"

definition tcp_server_init :: "mgmt \<Rightarrow> (int \<times> mgmt) option" where
  "tcp_server_init s =
     (let s = s\<lparr>tcp_server := (tcp_server s)\<lparr>s_status := CALLING_PENDING\<rparr>, list_client := []\<rparr>;
          (a, s) = sys Socket s
      in if a_ret a = -1 then Some (-1, s)
      else
        let fd = a_ret a; (n, s) = sys (Bind fd) s
        in if a_ret n < 0 then Some (-1, s)
        else do {
          let s = s\<lparr>tcp_server := (tcp_server s)\<lparr>serv_fd := fd\<rparr>\<rparr>;
          (p, s) \<leftarrow> mgmt_add_fd fd (POLLIN OR POLLERR OR POLLHUP) s;
          let s = s\<lparr>tcp_server := (tcp_server s)\<lparr>s_pfd := p\<rparr>\<rparr>;
          s \<leftarrow> set_lookup fd (Some Server) s;
          Some (0, s) })"

fun add_all :: "(nat \<Rightarrow> mgmt \<Rightarrow> mgmt option) \<Rightarrow> nat list \<Rightarrow> mgmt \<Rightarrow> mgmt option" where
  "add_all f [] s = Some s"
| "add_all f (i # is) s = do { s \<leftarrow> f i s; add_all f is s }"

text \<open>\<open>malloc\<close> answers 0 when there is no memory. The table of slots starts with zeros here; no slot is read
  before it is written.\<close>

definition http_mgmt_init :: "mgmt \<Rightarrow> (int \<times> mgmt) option" where
  "http_mgmt_init s =
     (let s = zero_mgmt (answers s) (calls s);
          (n, s) = sys Dtablesize s;
          (m1, s) = sys Alloc s; (m2, s) = sys Alloc s; (m3, s) = sys Alloc s;
          size' = nat (a_ret n);
          s = s\<lparr>max_fds := a_ret n,
                pollfds := replicate size' \<lparr>p_fd = 0, p_events = 0, p_revents = 0\<rparr>,
                fd_lookup := replicate size' 0,
                http_lookup := if a_ret m3 = 0 then [] else replicate size' None\<rparr>
      in if a_ret m1 = 0 \<or> a_ret m2 = 0 then Some (-1, s)
      else
        let (m4, s) = sys Alloc s
        in if a_ret m4 = 0 then Some (-1, s)
        else do {
          s \<leftarrow> add_all (\<lambda>c. cl_add c Ctx_Caches) [0..<CALLER_CACHES] s;
          let (m5, s) = sys Alloc s;
          if a_ret m5 = 0 then Some (-1, s)
          else do {
            s \<leftarrow> add_all (\<lambda>b. bl_add b Buf_Caches) [0..<HTTPBUF_CACHES] s;
            tcp_server_init s } })"

section \<open>The handshake message\<close>

text \<open>\<open>%d\<close>\<close>

function dec :: "nat \<Rightarrow> bytes" where
  "dec n = (if n < 10 then [of_nat (48 + n)] else dec (n div 10) @ [of_nat (48 + n mod 10)])"
  by pat_completeness auto
termination by (relation "measure id") auto

definition dec_int :: "int \<Rightarrow> bytes" where
  "dec_int i = (if i < 0 then str ''-'' @ dec (nat (- i)) else dec (nat i))"

definition handshake_text :: "mgmt \<Rightarrow> bytes" where
  "handshake_text s = str (''{'' @ [CHR 0x22] @ ''username'' @ [CHR 0x22] @ '':'' @ [CHR 0x22]) @ username s
     @ str ([CHR 0x22] @ '','' @ [CHR 0x22] @ ''host'' @ [CHR 0x22] @ '':'' @ [CHR 0x22]) @ local_host s
     @ str ([CHR 0x22] @ '','' @ [CHR 0x22] @ ''port'' @ [CHR 0x22] @ '':'') @ dec_int (local_port s) @ str ''}''"

definition http_mgmt_handshake :: "mgmt \<Rightarrow> mgmt option" where
  "http_mgmt_handshake s =
     (let shake = handshake_text s; len = length shake + HTTP_C_HEADER_LEN
      in if 512 \<le> length shake then None
      else do {
        (b, s) \<leftarrow> alloc_buf s;
        b \<leftarrow> b;
        s \<leftarrow> buf_write b 0 (header_bytes (mk_header HTTP_C_HAND 0 (of_nat len))) s;
        s \<leftarrow> buf_write b (int HTTP_C_HEADER_LEN) shake s;
        let s = upd_buf b (\<lambda>x. x\<lparr>b_start := 0, b_len := int len, b_total := int len\<rparr>) s;
        s \<leftarrow> bl_add b Toserver s;
        let s = upd_hb Toserver (curr_update (\<lambda>_. next_buf_info Toserver s)) s;
        Some (s\<lparr>toserver := True\<rparr>) })"

definition http_mgmt_isshake :: "mgmt \<Rightarrow> bool" where
  "http_mgmt_isshake s = shakehand s"

end
