(* ===== verification/Tunnel_Http.thy ===== *)
theory Tunnel_Http
  imports Tunnel_State
begin

text \<open>
  The requests the tunnel carries to the local web server (\<open>test-server/http_client.c\<close>): one context per
  request, a coroutine that connects, writes the request and reads the response, the removal of the chunked
  transfer coding, the ready lists and the timeouts. An \<open>assert\<close> that fails, a dereference of \<open>NULL\<close> and
  an access outside an array are \<open>None\<close>; so is a loop that never ends.
\<close>

section \<open>Strings\<close>

text \<open>The string at an offset of a buffer: up to the first zero byte, which must be inside.\<close>

definition cstr_at :: "bytes \<Rightarrow> nat \<Rightarrow> bytes option" where
  "cstr_at d i = (if 0 \<in> set (drop i d) then Some (takeWhile (\<lambda>x. x \<noteq> 0) (drop i d)) else None)"

text \<open>\<open>strstr\<close> and \<open>strcasestr\<close>: the offset of the first occurrence.\<close>

fun find_sub :: "bytes \<Rightarrow> bytes \<Rightarrow> nat option" where
  "find_sub p [] = (if p = [] then Some 0 else None)"
| "find_sub p (x # xs) = (if take (length p) (x # xs) = p then Some 0 else map_option Suc (find_sub p xs))"

definition to_lower :: "u8 \<Rightarrow> u8" where
  "to_lower x = (if 65 \<le> x \<and> x \<le> 90 then x + 32 else x)"

definition find_case :: "bytes \<Rightarrow> bytes \<Rightarrow> nat option" where
  "find_case p s = find_sub (map to_lower p) (map to_lower s)"

definition is_space :: "u8 \<Rightarrow> bool" where
  "is_space x \<longleftrightarrow> x = 32 \<or> (9 \<le> x \<and> x \<le> 13)"

definition str_strip :: "bytes \<Rightarrow> bytes" where
  "str_strip s = filter (\<lambda>x. \<not> is_space x) s"

definition crlf :: bytes where "crlf = [13, 10]"

text \<open>\<open>atoi\<close>, for values that an \<open>int\<close> holds.\<close>

definition is_digit :: "u8 \<Rightarrow> bool" where
  "is_digit x \<longleftrightarrow> 48 \<le> x \<and> x \<le> 57"

definition sign_of :: "bytes \<Rightarrow> bool \<times> bytes" where
  "sign_of s = (case s of [] \<Rightarrow> (False, []) | x # r \<Rightarrow> if x = 45 then (True, r) else if x = 43 then (False, r) else (False, s))"

definition atoi :: "bytes \<Rightarrow> int option" where
  "atoi s = (case sign_of (dropWhile is_space s) of (neg, r) \<Rightarrow>
     let v = foldl (\<lambda>n x. n * 10 + (uint x - 48)) 0 (takeWhile is_digit r); v = (if neg then - v else v)
     in if - (2 ^ 31) \<le> v \<and> v < 2 ^ 31 then Some v else None)"

text \<open>\<open>sscanf\<close> with \<open>%x\<close>: no digits leave the variable alone (\<open>None\<close> when it has no value yet), a value over
  32 bits is undefined.\<close>

definition hex_value :: "u8 \<Rightarrow> int option" where
  "hex_value x = (if is_digit x then Some (uint x - 48)
     else if 97 \<le> to_lower x \<and> to_lower x \<le> 102 then Some (uint (to_lower x) - 87) else None)"

definition hex_prefix :: "bytes \<Rightarrow> bytes" where
  "hex_prefix s = (if take 1 s = [48] \<and> map to_lower (take 1 (drop 1 s)) = [120] then drop 2 s else s)"

definition scan_hex :: "bytes \<Rightarrow> int option \<Rightarrow> int option" where
  "scan_hex s old = (case sign_of (dropWhile is_space s) of (neg, r) \<Rightarrow>
     let ds = takeWhile (\<lambda>x. hex_value x \<noteq> None) (hex_prefix r);
         v = foldl (\<lambda>n x. n * 16 + the (hex_value x)) 0 ds
     in if ds = [] then old
        else if 2 ^ 32 \<le> v then None
        else Some (sint (word_of_int (if neg then - v else v) :: u32)))"

section \<open>Ready lists and timeouts\<close>

fun timeout_insert :: "(nat \<Rightarrow> int) \<Rightarrow> nat \<Rightarrow> nat list \<Rightarrow> nat list" where
  "timeout_insert t new [] = [new]"
| "timeout_insert t new (e # es) = (if t new < t e then new # e # es else e # timeout_insert t new es)"

definition insert_timeout :: "nat \<Rightarrow> mgmt \<Rightarrow> mgmt option" where
  "insert_timeout c s = (if c_tlinked (ctxs s c) then None
     else Some (upd_ctx c (c_tlinked_update (\<lambda>_. True))
       (s\<lparr>list_timeout := timeout_insert (\<lambda>c. c_timeout (ctxs s c)) c (list_timeout s)\<rparr>)))"

definition insert_ready_prio :: "nat \<Rightarrow> mgmt \<Rightarrow> mgmt option" where
  "insert_ready_prio c s =
     (let prio = c_prio (ctxs s c);
          prio = (if prio < 0 \<or> CALLING_PRIO_COUNT \<le> prio then CALLING_PRIO_LOW else prio);
          s = upd_ctx c (c_prio_update (\<lambda>_. prio)) s
      in do { s \<leftarrow> cl_add c (Ready prio) s; Some (s\<lparr>ready_len := ready_len s + 1\<rparr>) })"

section \<open>The error answer\<close>

definition error_text :: bytes where
  "error_text = str ''HTTP/1.1 404 Not Found'' @ crlf @ str ''Content-Length: 1635'' @ crlf
     @ str ''Content-Type: text/html'' @ crlf @ str ''Connection: Close'' @ crlf"

text \<open>The length goes through \<open>htons\<close> into a field of 32 bits, as the code writes it.\<close>

definition generate_error :: "nat \<Rightarrow> mgmt \<Rightarrow> mgmt option" where
  "generate_error c s = do {
     (b, s) \<leftarrow> alloc_buf s;
     case b of
       None \<Rightarrow> Some s
     | Some b \<Rightarrow>
         let tmp_len = of_nat (length error_text + HTTP_C_HEADER_LEN) :: u16;
             header = (mk_header HTTP_C_RESP (c_seq (ctxs s c)) 0)\<lparr>h_length := ucast (htons tmp_len)\<rparr>
         in do {
           s \<leftarrow> buf_write b (int HTTP_C_HEADER_LEN) (error_text @ [0]) s;
           s \<leftarrow> buf_write b 0 (header_bytes header) s;
           let s = upd_buf b (\<lambda>x. x\<lparr>b_start := 0, b_len := uint tmp_len, b_total := uint tmp_len\<rparr>) s;
           s \<leftarrow> bl_add_tail b Toserver s;
           http_mgmt_toserver s } }"

section \<open>The coroutine of a request\<close>

definition http_context_connect :: "nat \<Rightarrow> mgmt \<Rightarrow> (caller_status \<times> mgmt) option" where
  "http_context_connect c s = do {
     pfd \<leftarrow> get_pfd (c_pfd (ctxs s c)) s;
     let connected = upd_ctx c (\<lambda>x. x\<lparr>c_state := CALLER_STATE_WRITE, c_func := Run_Write, c_ccr := 0\<rparr>);
     if p_revents pfd = POLLOUT then Some (CALLER_CONTINUE, connected s)
     else
       let (addr, s) = sys (Resolve (c_hostname (ctxs s c))) s;
           (rc, s) = sys (Connect (c_sockfd (ctxs s c)) (word_of_int (a_ret addr)) (c_port (ctxs s c))) s
       in if 0 \<le> a_ret rc then Some (CALLER_CONTINUE, connected s)
       else if a_errno rc = EALREADY \<or> a_errno rc = EINPROGRESS then do {
         s \<leftarrow> upd_pfd (c_pfd (ctxs s c)) want_write s;
         Some (CALLER_CONTINUE, upd_ctx c (c_ccr_update (\<lambda>_. 1)) s) }
       else Some (CALLER_FINISH, upd_ctx c (\<lambda>x. x\<lparr>c_errcode := 3, c_ccr := 2\<rparr>) s) }"

text \<open>The rest of the loop of \<open>http_context_write\<close> after \<open>write\<close> returned \<open>n\<close>: the status it returns, or
  \<open>None\<close> when the buffer is done and the loop goes on.\<close>

definition write_advance :: "nat \<Rightarrow> int \<Rightarrow> mgmt \<Rightarrow> (caller_status option \<times> mgmt) option" where
  "write_advance c n s = do {
     b \<leftarrow> curr (hbufs s (Ctx_Write c));
     let s = upd_buf b (\<lambda>x. x\<lparr>b_len := b_len x - n\<rparr>) s;
     if 0 < b_len (bufs s b) then
       Some (Some CALLER_PENDING, upd_ctx c (c_ccr_update (\<lambda>_. 4)) (upd_buf b (\<lambda>x. x\<lparr>b_start := b_start x + n\<rparr>) s))
     else do {
       s \<leftarrow> bl_del b (Ctx_Write c) s;
       s \<leftarrow> free_buf (Some b) s;
       Some (None, upd_hb (Ctx_Write c) (curr_update (\<lambda>_. next_buf_info (Ctx_Write c) s)) s) } }"

definition write_done :: "nat \<Rightarrow> mgmt \<Rightarrow> (caller_status \<times> mgmt) option" where
  "write_done c s = do {
     s \<leftarrow> upd_pfd (c_pfd (ctxs s c)) want_read s;
     let s = upd_ctx c (\<lambda>x. x\<lparr>c_state := CALLER_STATE_READ, c_ccr := 0, c_func := Run_Read\<rparr>) s;
     Some (CALLER_PENDING, bl_splice_init (Ctx_Write c) Buf_Caches s) }"

partial_function (option) write_loop :: "nat \<Rightarrow> mgmt \<Rightarrow> (caller_status \<times> mgmt) option" where
  "write_loop c s =
     (case curr (hbufs s (Ctx_Write c)) of
        None \<Rightarrow> write_done c s
      | Some b \<Rightarrow>
          Option.bind (buf_read b (b_start (bufs s b)) (b_len (bufs s b)) s) (\<lambda>d.
          (case sys_write (c_sockfd (ctxs s c)) d s of ((n, errno), s) \<Rightarrow>
             if n < 0 then
               Some (if errno = EINTR \<or> errno = EAGAIN
                     then (CALLER_PENDING, upd_ctx c (c_ccr_update (\<lambda>_. 2)) s)
                     else (CALLER_FINISH, upd_ctx c (c_ccr_update (\<lambda>_. 3)) s))
             else
               Option.bind (write_advance c n s) (\<lambda>(r, s).
               (case r of Some st \<Rightarrow> Some (st, s) | None \<Rightarrow> write_loop c s)))))"

text \<open>On entry the local \<open>n\<close> is 0, so a coroutine that stopped on \<open>EAGAIN\<close> goes on as if 0 bytes had been
  written.\<close>

definition http_context_write :: "nat \<Rightarrow> mgmt \<Rightarrow> (caller_status \<times> mgmt) option" where
  "http_context_write c s =
     (if c_ccr (ctxs s c) = 0 then
        let s = upd_hb (Ctx_Write c) (curr_update (\<lambda>_. next_buf_info (Ctx_Write c) s)) s
        in if curr (hbufs s (Ctx_Write c)) = None
           then Some (CALLER_FINISH, upd_ctx c (\<lambda>x. x\<lparr>c_errcode := 4, c_ccr := 1\<rparr>) s)
           else write_loop c s
      else if c_ccr (ctxs s c) = 2 \<or> c_ccr (ctxs s c) = 3 then do {
        (r, s) \<leftarrow> write_advance c 0 s;
        case r of Some st \<Rightarrow> Some (st, s) | None \<Rightarrow> write_loop c s }
      else write_loop c s)"


section \<open>The response\<close>

definition context_save_read :: "nat \<Rightarrow> nat \<Rightarrow> mgmt \<Rightarrow> mgmt option" where
  "context_save_read c b s = (let n = b_start (bufs s b) in do {
     let s = upd_buf b (\<lambda>x. x\<lparr>b_len := n, b_total := n\<rparr>) s;
     let s = upd_hb (Ctx_Read c) (\<lambda>h. h\<lparr>hb_len := hb_len h + n\<rparr>) s;
     let s = upd_buf b (b_start_update (\<lambda>_. 0)) s;
     s \<leftarrow> bl_add_tail b (Ctx_Read c) s;
     Some (upd_hb (Ctx_Read c) (curr_update (\<lambda>_. None)) s) })"

text \<open>The end of the header, or 0, or -1; the code copies the header into a spare buffer to search it.\<close>

definition http_chunk_check :: "nat \<Rightarrow> nat \<Rightarrow> mgmt \<Rightarrow> (int \<times> mgmt) option" where
  "http_chunk_check c b s = do {
     s \<leftarrow> buf_write b (b_len (bufs s b)) [0] s;
     text \<leftarrow> cstr_at (b_data (bufs s b)) 0;
     case find_sub (crlf @ crlf) text of
       None \<Rightarrow> Some (0, s)
     | Some p \<Rightarrow>
         let offset = p + 4 in do {
           (tb, s) \<leftarrow> alloc_buf s;
           case tb of
             None \<Rightarrow> Some (-1, upd_ctx c (c_errcode_update (\<lambda>_. 11)) s)
           | Some tb \<Rightarrow> do {
               d \<leftarrow> buf_read b 0 (int offset) s;
               s \<leftarrow> buf_write tb 0 d s;
               s \<leftarrow> buf_write tb (int offset) [0] s;
               header \<leftarrow> cstr_at (b_data (bufs s tb)) 0;
               let chunked = (case find_case (str ''Transfer-Encoding:'') header of
                   None \<Rightarrow> False
                 | Some q \<Rightarrow> find_case (str ''chunked'') (drop q header) \<noteq> None);
               let s = (if chunked then upd_ctx c (c_is_chunk_update (\<lambda>_. True)) s else s);
               s \<leftarrow> free_buf (Some tb) s;
               Some (int offset, s) } } }"

datatype chunk_state = CHUNK_BEGIN | CHUNK_LRLN | CHUNK_GET_SIZE

text \<open>The local variables of \<open>http_parse\<close>; \<open>plist\<close> is the list \<open>Parse_Local\<close>.\<close>

record parse_vars =
  v_rc :: int
  v_state :: chunk_state
  v_offset :: int
  v_size :: "int option"
  v_j :: int
  v_str :: bytes
  v_last_i :: int
  v_new_total :: int
  v_buf :: "nat option"
  v_last :: "nat option"
  v_plist :: bool

definition HTTP_CHUNK_MAX :: int where "HTTP_CHUNK_MAX = 32"

definition at :: "nat \<Rightarrow> int \<Rightarrow> mgmt \<Rightarrow> u8 option" where
  "at b i s = (if i < 0 then None else aget (b_data (bufs s b)) (nat i))"

text \<open>The loop of state \<open>CHUNK_BEGIN\<close>: the characters of the size up to a carriage return.\<close>

function chunk_line :: "mgmt \<Rightarrow> nat \<Rightarrow> int \<Rightarrow> int \<Rightarrow> bytes \<Rightarrow> (int \<times> int \<times> bytes) option" where
  "chunk_line s b i j cs =
     (if i < b_len (bufs s b) \<and> j < HTTP_CHUNK_MAX then
        case at b i s of
          None \<Rightarrow> None
        | Some x \<Rightarrow> if x = 13 then Some (i, j, cs) else chunk_line s b (i + 1) (j + 1) (cs @ [x])
      else Some (i, j, cs))"
  by pat_completeness auto
termination by (relation "measure (\<lambda>(s, b, i, j, cs). nat (b_len (bufs s b) - i))") auto

text \<open>The common end of a buffer: free it unless it is the one being filled, and go to the next.\<close>

definition next_input :: "nat \<Rightarrow> parse_vars \<Rightarrow> mgmt \<Rightarrow> (parse_vars \<times> mgmt) option" where
  "next_input c v s = do {
     s \<leftarrow> (if v_buf v \<noteq> v_last v then free_buf (v_buf v) s else Some s);
     Some (v\<lparr>v_buf := next_buf_info (Ctx_Read c) s\<rparr>, s) }"

definition step_begin :: "nat \<Rightarrow> parse_vars \<Rightarrow> mgmt \<Rightarrow> (parse_vars \<times> mgmt) option" where
  "step_begin c v s = do {
     b \<leftarrow> v_buf v;
     (i, j, cs) \<leftarrow> chunk_line s b (v_offset v) (v_j v) (v_str v);
     let v = v\<lparr>v_j := j, v_str := cs\<rparr>;
     if j = HTTP_CHUNK_MAX then Some (v\<lparr>v_rc := -1\<rparr>, upd_ctx c (c_errcode_update (\<lambda>_. 12)) s)
     else if i = b_len (bufs s b) then do {
       (v, s) \<leftarrow> next_input c v s;
       case v_buf v of
         None \<Rightarrow> Some (v\<lparr>v_rc := -1\<rparr>, s)
       | Some b' \<Rightarrow> do { s \<leftarrow> bl_del b' (Ctx_Read c) s; Some (v\<lparr>v_offset := 0\<rparr>, s) } }
     else Some (v\<lparr>v_offset := i + 1, v_state := CHUNK_LRLN, v_j := 0\<rparr>, s) }"

definition finish_chunks :: "nat \<Rightarrow> parse_vars \<Rightarrow> mgmt \<Rightarrow> (parse_vars \<times> mgmt) option" where
  "finish_chunks c v s = do {
     s \<leftarrow> (if v_buf v \<noteq> v_last v then free_buf (v_buf v) s else Some s);
     dst \<leftarrow> v_last v;
     s \<leftarrow> (if 0 < v_last_i v
           then bl_add_tail dst Parse_Local (upd_buf dst (\<lambda>x. x\<lparr>b_len := v_last_i v, b_total := v_last_i v\<rparr>) s)
           else free_buf (Some dst) s);
     let s = bl_splice_init (Ctx_Read c) Buf_Caches s;
     let s = bl_splice_init Parse_Local (Ctx_Read c) s;
     let s = upd_hb (Ctx_Read c) (hb_len_update (\<lambda>_. v_new_total v)) s;
     Some (v\<lparr>v_rc := 0, v_buf := None, v_last := None, v_plist := False\<rparr>, s) }"

definition step_lrln :: "nat \<Rightarrow> parse_vars \<Rightarrow> mgmt \<Rightarrow> (parse_vars \<times> mgmt) option" where
  "step_lrln c v s = do {
     b \<leftarrow> v_buf v;
     (v, s) \<leftarrow> (if v_offset v = b_len (bufs s b) then do {
         (v, s) \<leftarrow> next_input c v s;
         case v_buf v of
           None \<Rightarrow> Some (v\<lparr>v_rc := -1\<rparr>, s)
         | Some b' \<Rightarrow> do { s \<leftarrow> bl_del b' (Ctx_Read c) s; Some (v\<lparr>v_offset := 0\<rparr>, s) } }
       else Some (v, s));
     if v_rc v < 0 then Some (v, s)
     else do {
       b \<leftarrow> v_buf v;
       x \<leftarrow> at b (v_offset v) s;
       if x \<noteq> 10 then Some (v\<lparr>v_rc := -1\<rparr>, s)
       else
         let v = v\<lparr>v_offset := v_offset v + 1, v_j := 0\<rparr>
         in if v_str v = [] \<or> hd (v_str v) = 0 then Some (v\<lparr>v_state := CHUNK_BEGIN, v_str := []\<rparr>, s)
         else do {
           size' \<leftarrow> scan_hex (takeWhile (\<lambda>x. x \<noteq> 0) (v_str v)) (v_size v);
           let v = v\<lparr>v_state := CHUNK_GET_SIZE, v_size := Some size', v_str := []\<rparr>;
           if size' = 0 then finish_chunks c v s else Some (v, s) } } }"


text \<open>The loop of state \<open>CHUNK_GET_SIZE\<close>; its first result is the position it stopped at.\<close>

function copy_chunk :: "nat \<Rightarrow> int \<Rightarrow> int \<Rightarrow> parse_vars \<Rightarrow> mgmt \<Rightarrow> (int \<times> parse_vars \<times> mgmt) option" where
  "copy_chunk b sz i v s =
     (if i < b_len (bufs s b) \<and> v_j v < sz then
        case v_last v of
          None \<Rightarrow> None
        | Some dst \<Rightarrow>
           (case at b i s of
              None \<Rightarrow> None
            | Some x \<Rightarrow>
               (case buf_write dst (v_last_i v) [x] s of
                  None \<Rightarrow> None
                | Some s \<Rightarrow>
                    let v = v\<lparr>v_j := v_j v + 1, v_last_i := v_last_i v + 1, v_new_total := v_new_total v + 1\<rparr>
                    in if HTTP_BUF_SIZE \<le> v_last_i v then
                      (case bl_add_tail dst Parse_Local
                          (upd_buf dst (\<lambda>y. y\<lparr>b_len := v_last_i v, b_start := 0, b_total := 0\<rparr>) s) of
                         None \<Rightarrow> None
                       | Some s \<Rightarrow>
                          (case alloc_buf s of
                             Some (Some new, s) \<Rightarrow> copy_chunk b sz (i + 1) (v\<lparr>v_last := Some new, v_last_i := 0\<rparr>) s
                           | _ \<Rightarrow> None))
                    else copy_chunk b sz (i + 1) v s))
      else Some (i, v, s))"
  by pat_completeness auto
termination by (relation "measure (\<lambda>(b, sz, i, v, s). nat (sz - v_j v))") auto

text \<open>When the list of buffers is used up here, the code removes the node of a \<open>NULL\<close> buffer.\<close>

definition step_size :: "nat \<Rightarrow> parse_vars \<Rightarrow> mgmt \<Rightarrow> (parse_vars \<times> mgmt) option" where
  "step_size c v s = do {
     b \<leftarrow> v_buf v;
     sz \<leftarrow> v_size v;
     (i, v, s) \<leftarrow> copy_chunk b sz (v_offset v) v s;
     if i = b_len (bufs s b) then do {
       (v, s) \<leftarrow> next_input c v s;
       b' \<leftarrow> v_buf v;
       s \<leftarrow> bl_del b' (Ctx_Read c) s;
       Some (v\<lparr>v_offset := 0\<rparr>, s) }
     else if v_j v = sz then Some (v\<lparr>v_state := CHUNK_BEGIN, v_offset := i, v_j := 0\<rparr>, s)
     else Some (v, s) }"

definition parse_step :: "nat \<Rightarrow> parse_vars \<Rightarrow> mgmt \<Rightarrow> (parse_vars \<times> mgmt) option" where
  "parse_step c v s = (case v_state v of
     CHUNK_BEGIN \<Rightarrow> step_begin c v s
   | CHUNK_LRLN \<Rightarrow> step_lrln c v s
   | CHUNK_GET_SIZE \<Rightarrow> step_size c v s)"

partial_function (option) parse_loop :: "nat \<Rightarrow> parse_vars \<Rightarrow> mgmt \<Rightarrow> (parse_vars \<times> mgmt) option" where
  "parse_loop c v s =
     (if 0 < v_rc v then Option.bind (parse_step c v s) (\<lambda>(v, s). parse_loop c v s) else Some (v, s))"

definition http_parse :: "nat \<Rightarrow> mgmt \<Rightarrow> (int \<times> mgmt) option" where
  "http_parse c s =
     (let s = set_bl Parse_Local [] s
      in case next_buf_info (Ctx_Read c) s of
           None \<Rightarrow> Some (-1, upd_ctx c (c_errcode_update (\<lambda>_. 15)) s)
         | Some b \<Rightarrow> do {
             (rc, s) \<leftarrow> http_chunk_check c b s;
             if rc < 0 then Some (-1, s)
             else if \<not> c_is_chunk (ctxs s c) then Some (0, s)
             else do {
               s \<leftarrow> bl_del b (Ctx_Read c) s;
               (v, s) \<leftarrow> parse_loop c
                 \<lparr>v_rc = rc, v_state = CHUNK_BEGIN, v_offset = rc, v_size = None, v_j = 0, v_str = [], v_last_i = rc,
                  v_new_total = rc, v_buf = Some b, v_last = Some b, v_plist = True\<rparr> s;
               if v_rc v < 0 then do {
                 s \<leftarrow> free_buf (v_last v) s;
                 s \<leftarrow> (if v_buf v \<noteq> v_last v then free_buf (v_buf v) s else Some s);
                 let s = (if v_plist v then bl_splice_init Parse_Local Buf_Caches s else s);
                 Some (v_rc v, s) }
               else Some (v_rc v, s) } })"

definition http_context_finish :: "nat \<Rightarrow> mgmt \<Rightarrow> (int \<times> mgmt) option" where
  "http_context_finish c s = do {
     (rc, s) \<leftarrow> http_parse c s;
     if rc \<noteq> 0 then Some (-1, s)
     else do {
       let s = upd_hb (Ctx_Read c) (\<lambda>h. h\<lparr>hb_len := hb_len h + int HTTP_C_HEADER_LEN\<rparr>) s;
       let header = mk_header HTTP_C_RESP (c_seq (ctxs s c)) (word_of_int (hb_len (hbufs s (Ctx_Read c))));
       (b, s) \<leftarrow> alloc_buf s;
       b \<leftarrow> b;
       s \<leftarrow> buf_write b 0 (header_bytes header) s;
       let s = upd_buf b (\<lambda>x. x\<lparr>b_start := 0, b_len := int HTTP_C_HEADER_LEN, b_total := int HTTP_C_HEADER_LEN\<rparr>) s;
       s \<leftarrow> bl_add b (Ctx_Read c) s;
       let s = bl_splice_tail_init (Ctx_Read c) Toserver s;
       let s = upd_hb (Ctx_Read c) (hb_len_update (\<lambda>_. 0)) s;
       s \<leftarrow> http_mgmt_toserver s;
       Some (0, s) } }"

definition http_context_read :: "nat \<Rightarrow> mgmt \<Rightarrow> (caller_status \<times> mgmt) option" where
  "http_context_read c s =
     (if c_ccr (ctxs s c) = 1 then Some (CALLER_PENDING, upd_ctx c (c_ccr_update (\<lambda>_. 2)) s)
      else do {
        (b, s) \<leftarrow> (case curr (hbufs s (Ctx_Read c)) of
            Some b \<Rightarrow> Some (b, s)
          | None \<Rightarrow> do {
              (b, s) \<leftarrow> alloc_buf s;
              b \<leftarrow> b;
              Some (b, upd_hb (Ctx_Read c) (curr_update (\<lambda>_. Some b)) s) });
        let left = HTTP_BUF_SIZE - b_start (bufs s b);
        if left \<le> 0 then None
        else case sys_read (c_sockfd (ctxs s c)) left s of ((n, d, errno), s) \<Rightarrow>
          if 0 < n then do {
            s \<leftarrow> buf_write b (b_start (bufs s b)) d s;
            let s = upd_buf b (\<lambda>x. x\<lparr>b_start := b_start x + n\<rparr>) s;
            s \<leftarrow> (if HTTP_BUF_SIZE \<le> b_start (bufs s b) then context_save_read c b s else Some s);
            Some (CALLER_PENDING, upd_ctx c (c_ccr_update (\<lambda>_. 2)) s) }
          else if n = 0 \<or> (errno \<noteq> EINTR \<and> errno \<noteq> EAGAIN) then do {
            s \<leftarrow> (if b_start (bufs s b) = 0
                  then do { s \<leftarrow> free_buf (Some b) s; Some (upd_hb (Ctx_Read c) (curr_update (\<lambda>_. None)) s) }
                  else context_save_read c b s);
            (rc, s) \<leftarrow> http_context_finish c s;
            Some (CALLER_FINISH, upd_ctx c (c_ccr_update (\<lambda>_. 1)) s) }
          else Some (CALLER_PENDING, upd_ctx c (c_ccr_update (\<lambda>_. 2)) s) })"

section \<open>Release and creation\<close>

definition release_socket :: "nat \<Rightarrow> mgmt \<Rightarrow> mgmt option" where
  "release_socket c s = (let fd = c_sockfd (ctxs s c)
     in if 0 < fd then do {
          let s = snd (sys (Close fd) s);
          (_, s) \<leftarrow> mgmt_del_fd fd s;
          s \<leftarrow> set_lookup fd None s;
          Some (upd_ctx c (c_sockfd_update (\<lambda>_. -1)) s) }
        else Some s)"

text \<open>The second assignment clears \<open>buf_read.curr\<close> again, where \<open>buf_write.curr\<close> was freed.\<close>

definition release_bufs :: "nat \<Rightarrow> mgmt \<Rightarrow> mgmt option" where
  "release_bufs c s = do {
     s \<leftarrow> (case curr (hbufs s (Ctx_Read c)) of
         None \<Rightarrow> Some s
       | Some b \<Rightarrow> do { s \<leftarrow> free_buf (Some b) s; Some (upd_hb (Ctx_Read c) (curr_update (\<lambda>_. None)) s) });
     s \<leftarrow> (case curr (hbufs s (Ctx_Write c)) of
         None \<Rightarrow> Some s
       | Some b \<Rightarrow> do { s \<leftarrow> free_buf (Some b) s; Some (upd_hb (Ctx_Read c) (curr_update (\<lambda>_. None)) s) });
     Some (bl_splice_init (Ctx_Read c) Buf_Caches (bl_splice_init (Ctx_Write c) Buf_Caches s)) }"

definition release_node :: "nat \<Rightarrow> mgmt \<Rightarrow> mgmt option" where
  "release_node c s =
     (if \<not> c_tlinked (ctxs s c) then None
      else do {
        let s = upd_ctx c (c_tlinked_update (\<lambda>_. False)) (s\<lparr>list_timeout := remove1 c (list_timeout s)\<rparr>);
        s \<leftarrow> free_context (Some c) s;
        Some (s\<lparr>total_process := total_process s + 1\<rparr>) })"

definition http_context_release :: "nat \<Rightarrow> mgmt \<Rightarrow> mgmt option" where
  "http_context_release c s = do {
     let s = upd_ctx c (c_status_update (\<lambda>_. CALLING_FINISH)) s;
     s \<leftarrow> release_socket c s;
     s \<leftarrow> release_bufs c s;
     release_node c s }"

definition http_context_init :: "nat \<Rightarrow> mgmt \<Rightarrow> mgmt option" where
  "http_context_init c s = do {
     let s = upd_ctx c (\<lambda>x. x\<lparr>c_errcode := 0, c_state := CALLER_STATE_CONNECT, c_func := Run_Connect,
               c_status := CALLING_READY, c_ccr := 0\<rparr>) s;
     s \<leftarrow> insert_ready_prio c s;
     s \<leftarrow> insert_timeout c s;
     let s = s\<lparr>total_add := total_add s + 1\<rparr>;
     (p, s) \<leftarrow> mgmt_add_fd (c_sockfd (ctxs s c)) (POLLIN OR POLLERR OR POLLHUP) s;
     let s = upd_ctx c (c_pfd_update (\<lambda>_. p)) s;
     set_lookup (c_sockfd (ctxs s c)) (Some (Http c)) s }"

text \<open>The local \<open>hostname\<close> has 128 bytes; a longer host name overruns it. The result is \<open>(rc, host, port)\<close>.\<close>

definition get_host_from_buf :: "bytes \<Rightarrow> (int \<times> bytes \<times> u16) option" where
  "get_host_from_buf d = do {
     text \<leftarrow> cstr_at d 0;
     case find_sub (str ''host:'') text of
       None \<Rightarrow> Some (1, [], 0)
     | Some p \<Rightarrow>
         (case find_sub crlf (drop (p + 5) text) of
            None \<Rightarrow> Some (1, [], 0)
          | Some n \<Rightarrow>
              if 128 \<le> n then None
              else
                let hostname = take n (drop (p + 5) text)
                in (case find_sub [58] hostname of
                      None \<Rightarrow> Some (0, str_strip hostname, 80)
                    | Some k \<Rightarrow> do {
                        port \<leftarrow> atoi (drop (k + 1) hostname);
                        Some (0, str_strip (take k hostname), word_of_int port) })) }"

definition host_init :: "nat \<Rightarrow> mgmt \<Rightarrow> (int \<times> mgmt) option" where
  "host_init c s = do {
     b \<leftarrow> next_buf_info Prepare s;
     (rc, host, port) \<leftarrow> get_host_from_buf (b_data (bufs s b));
     Some (rc, if rc = 0 then upd_ctx c (\<lambda>x. x\<lparr>c_hostname := host, c_port := port\<rparr>) s else s) }"

text \<open>The context is not given back when the creation fails: the test before \<open>free_context\<close> is for \<open>NULL\<close>.\<close>

definition http_context_create :: "int \<Rightarrow> mgmt \<Rightarrow> (int \<times> mgmt) option" where
  "http_context_create timeout s = do {
     (c, s) \<leftarrow> alloc_context s;
     case c of
       None \<Rightarrow> Some (0, s)
     | Some c \<Rightarrow> do {
         let s = upd_ctx c (\<lambda>_. zero_context) s;
         let s = upd_hb (Ctx_Read c) (\<lambda>_. zero_hb) (upd_hb (Ctx_Write c) (\<lambda>_. zero_hb) s);
         (rc, s) \<leftarrow> host_init c s;
         if rc \<noteq> 0 then Some (rc, s)
         else
           let (a, s) = sys Socket s
           in if a_ret a = -1 then Some (-1, s)
           else do {
             let s = upd_ctx c (c_sockfd_update (\<lambda>_. a_ret a)) s;
             let s = set_bl (Ctx_Read c) [] (set_bl (Ctx_Write c) [] s);
             let (t, s) = get_time s;
             let s = upd_ctx c (\<lambda>x. x\<lparr>c_timeout := t + timeout, c_seq := hb_seq (hbufs s Prepare)\<rparr>) s;
             let s = bl_splice_init Prepare (Ctx_Write c) s;
             s \<leftarrow> http_context_init c s;
             Some (0, s) } } }"

section \<open>Running contexts\<close>

definition ctx_run :: "nat \<Rightarrow> mgmt \<Rightarrow> (caller_status \<times> mgmt) option" where
  "ctx_run c s = (case c_func (ctxs s c) of
     Run_Connect \<Rightarrow> http_context_connect c s
   | Run_Write \<Rightarrow> http_context_write c s
   | Run_Read \<Rightarrow> http_context_read c s)"

definition drop_ready :: "nat \<Rightarrow> mgmt \<Rightarrow> mgmt option" where
  "drop_ready c s = (if c_status (ctxs s c) = CALLING_READY
     then do { s \<leftarrow> cl_del c s; Some (s\<lparr>ready_len := ready_len s - 1\<rparr>) } else Some s)"

definition http_context_execute :: "nat \<Rightarrow> mgmt \<Rightarrow> mgmt option" where
  "http_context_execute c s = do {
     s \<leftarrow> drop_ready c s;
     (st, s) \<leftarrow> ctx_run c s;
     case st of
       CALLER_FINISH \<Rightarrow> do {
         s \<leftarrow> (if c_errcode (ctxs s c) \<noteq> 0 then generate_error c s else Some s);
         http_context_release c s }
     | CALLER_CONTINUE \<Rightarrow> insert_ready_prio c s
     | CALLER_PENDING \<Rightarrow> Some (upd_ctx c (c_status_update (\<lambda>_. CALLING_PENDING)) s) }"

fun release_expired :: "int \<Rightarrow> nat list \<Rightarrow> mgmt \<Rightarrow> mgmt option" where
  "release_expired now [] s = Some s"
| "release_expired now (c # cs) s =
     (if now < c_timeout (ctxs s c) then Some s
      else do { s \<leftarrow> drop_ready c s; s \<leftarrow> http_context_release c s; release_expired now cs s })"

definition http_mgmt_run_timeout :: "mgmt \<Rightarrow> mgmt option" where
  "http_mgmt_run_timeout s = (case get_time s of (now, s) \<Rightarrow> release_expired now (list_timeout s) s)"

fun release_contexts :: "nat list \<Rightarrow> mgmt \<Rightarrow> mgmt option" where
  "release_contexts [] s = Some s"
| "release_contexts (c # cs) s = do { s \<leftarrow> drop_ready c s; s \<leftarrow> http_context_release c s; release_contexts cs s }"

definition http_mgmt_release_all :: "mgmt \<Rightarrow> mgmt option" where
  "http_mgmt_release_all s = do { s \<leftarrow> release_prepare s; release_contexts (list_timeout s) s }"

end
