(* ===== verification/Tunnel_Forward.thy ===== *)
theory Tunnel_Forward
  imports Tunnel_Http
begin

text \<open>
  Forwarded TCP connections (\<open>test-server/http_client.c\<close>): on a message of the server the tunnel connects to
  a local host, sends it what the server sends and wraps what it answers into messages to the server.
\<close>

definition upd_fwd :: "nat \<Rightarrow> (tcp_forward_context \<Rightarrow> tcp_forward_context) \<Rightarrow> mgmt \<Rightarrow> mgmt" where
  "upd_fwd f g s = s\<lparr>forwards := (forwards s)(f := g (forwards s f))\<rparr>"

section \<open>The coroutine of a connection\<close>

definition tcp_forward_connect :: "nat \<Rightarrow> mgmt \<Rightarrow> (caller_status \<times> mgmt) option" where
  "tcp_forward_connect f s = do {
     pfd \<leftarrow> get_pfd (f_pfd (forwards s f)) s;
     let connected = (\<lambda>s. do {
       s \<leftarrow> upd_pfd (f_pfd (forwards s f)) want_read s;
       Some (CALLER_PENDING, upd_fwd f (\<lambda>x. x\<lparr>f_func := Fwd_Do_Read, f_ccr := 0, f_idle := True\<rparr>) s) });
     if p_revents pfd = POLLOUT then connected s
     else
       let (rc, s) = sys (Connect (f_fd (forwards s f)) (f_host (forwards s f)) (f_port (forwards s f))) s
       in if 0 \<le> a_ret rc then connected s
       else if a_errno rc = EALREADY \<or> a_errno rc = EINPROGRESS then do {
         s \<leftarrow> upd_pfd (f_pfd (forwards s f)) want_write s;
         Some (CALLER_CONTINUE, upd_fwd f (f_ccr_update (\<lambda>_. 1)) s) }
       else Some (CALLER_FINISH, upd_fwd f (\<lambda>x. x\<lparr>f_errcode := 3, f_ccr := 2\<rparr>) s) }"

text \<open>The part of the write loop behind \<open>write\<close>.\<close>

definition fwd_advance :: "nat \<Rightarrow> int \<Rightarrow> mgmt \<Rightarrow> (caller_status option \<times> mgmt) option" where
  "fwd_advance f n s = do {
     b \<leftarrow> curr (hbufs s (Fwd_Write f));
     let s = upd_buf b (\<lambda>x. x\<lparr>b_len := b_len x - n\<rparr>) s;
     if 0 < b_len (bufs s b) then
       Some (Some CALLER_PENDING, upd_fwd f (f_ccr_update (\<lambda>_. 4)) (upd_buf b (\<lambda>x. x\<lparr>b_start := b_start x + n\<rparr>) s))
     else do {
       s \<leftarrow> bl_del b (Fwd_Write f) s;
       s \<leftarrow> free_buf (Some b) s;
       Some (None, upd_hb (Fwd_Write f) (curr_update (\<lambda>_. next_buf_info (Fwd_Write f) s)) s) } }"

partial_function (option) fwd_write_loop :: "nat \<Rightarrow> mgmt \<Rightarrow> (caller_status \<times> mgmt) option" where
  "fwd_write_loop f s =
     (case curr (hbufs s (Fwd_Write f)) of
        None \<Rightarrow>
          Option.bind (upd_pfd (f_pfd (forwards s f)) want_read s) (\<lambda>s.
          Some (CALLER_PENDING, upd_fwd f (\<lambda>x. x\<lparr>f_func := Fwd_Do_Read, f_ccr := 0, f_idle := True\<rparr>) s))
      | Some b \<Rightarrow>
          Option.bind (buf_read b (b_start (bufs s b)) (b_len (bufs s b)) s) (\<lambda>d.
          (case sys_write (f_fd (forwards s f)) d s of ((n, errno), s) \<Rightarrow>
             if n < 0 then
               Some (if errno = EINTR \<or> errno = EAGAIN
                     then (CALLER_PENDING, upd_fwd f (f_ccr_update (\<lambda>_. 1)) s)
                     else (CALLER_FINISH, upd_fwd f (f_ccr_update (\<lambda>_. 2)) s))
             else if n = 0 \<and> errno \<noteq> EINTR \<and> errno \<noteq> EAGAIN then
               Some (CALLER_FINISH, upd_fwd f (f_ccr_update (\<lambda>_. 3)) s)
             else
               Option.bind (fwd_advance f n s) (\<lambda>(r, s).
               (case r of Some st \<Rightarrow> Some (st, s) | None \<Rightarrow> fwd_write_loop f s)))))"

definition tcp_forward_write :: "nat \<Rightarrow> mgmt \<Rightarrow> (caller_status \<times> mgmt) option" where
  "tcp_forward_write f s =
     (let s = upd_fwd f (f_idle_update (\<lambda>_. False)) s
      in if f_ccr (forwards s f) = 0 then
        (if curr (hbufs s (Fwd_Write f)) \<noteq> None then None
         else fwd_write_loop f (upd_hb (Fwd_Write f) (curr_update (\<lambda>_. next_buf_info (Fwd_Write f) s)) s))
      else if f_ccr (forwards s f) \<le> 3 then do {
        (r, s) \<leftarrow> fwd_advance f 0 s;
        case r of Some st \<Rightarrow> Some (st, s) | None \<Rightarrow> fwd_write_loop f s }
      else fwd_write_loop f s)"

text \<open>The message around a piece of \<open>n\<close> bytes: the header, the length of the piece, the piece, and zeros up
  to the smallest message.\<close>

definition tcp_forward_read :: "nat \<Rightarrow> mgmt \<Rightarrow> (caller_status \<times> mgmt) option" where
  "tcp_forward_read f s =
     (let s = upd_fwd f (f_idle_update (\<lambda>_. False)) s;
          header_len = int HTTP_C_HEADER_LEN + 4
      in do {
        (b, s) \<leftarrow> alloc_buf s;
        (st, s) \<leftarrow> (case b of
            None \<Rightarrow> Some (CALLER_PENDING, s)
          | Some b \<Rightarrow>
              (case sys_read (f_fd (forwards s f)) (HTTP_BUF_SIZE - header_len) s of ((n, d, errno), s) \<Rightarrow>
                if 0 < n then do {
                  s \<leftarrow> buf_write b header_len d s;
                  s \<leftarrow> buf_write b (int HTTP_C_HEADER_LEN) (be32 (word_of_int n)) s;
                  let pad = nat (int WEBSOCK_MIN_PACK_SIZE - (n + header_len));
                  s \<leftarrow> buf_write b (n + header_len) (replicate pad 0) s;
                  let len = n + header_len + int pad;
                  let s = upd_buf b (\<lambda>x. x\<lparr>b_start := 0, b_len := len, b_total := len\<rparr>) s;
                  s \<leftarrow> buf_write b 0 (header_bytes
                         (mk_header HTTP_C_FORWARD_RESP (f_seq (forwards s f)) (word_of_int len))) s;
                  s \<leftarrow> bl_add_tail b Toserver s;
                  s \<leftarrow> http_mgmt_toserver s;
                  s \<leftarrow> (if blists s (Fwd_Write f) \<noteq> [] then do {
                      let s = upd_fwd f (f_func_update (\<lambda>_. Fwd_Do_Write)) s;
                      s \<leftarrow> upd_pfd (f_pfd (forwards s f)) want_write s;
                      Some (upd_fwd f (f_ccr_update (\<lambda>_. 0)) s) }
                    else Some s);
                  Some (CALLER_PENDING, s) }
                else do {
                  s \<leftarrow> free_buf (Some b) s;
                  Some (if n = 0 \<or> (errno \<noteq> EINTR \<and> errno \<noteq> EAGAIN) then CALLER_FINISH else CALLER_PENDING, s) }));
        Some (st, upd_fwd f (f_idle_update (\<lambda>_. True)) s) })"

section \<open>Closing and release\<close>

definition closed_text :: bytes where
  "closed_text = str ''CLOSED!''"

definition tcp_forward_closing :: "nat \<Rightarrow> mgmt \<Rightarrow> (int \<times> mgmt) option" where
  "tcp_forward_closing f s = do {
     (b, s) \<leftarrow> alloc_buf s;
     case b of
       None \<Rightarrow> Some (-1, s)
     | Some b \<Rightarrow>
         let header_len = HTTP_C_HEADER_LEN + 4; len = int WEBSOCK_MIN_PACK_SIZE;
             s = upd_buf b (\<lambda>x. x\<lparr>b_start := 0, b_len := len, b_total := len\<rparr>) s
         in do {
           s \<leftarrow> buf_write b 0 (header_bytes
                  (mk_header HTTP_C_FORWARD_RESP (f_seq (forwards s f)) (word_of_int len))) s;
           s \<leftarrow> buf_write b (int header_len) (replicate (WEBSOCK_MIN_PACK_SIZE - header_len) 0) s;
           s \<leftarrow> buf_write b (int header_len) (closed_text @ [0]) s;
           s \<leftarrow> buf_write b (int HTTP_C_HEADER_LEN) (be32 (of_nat (length closed_text + 1))) s;
           s \<leftarrow> bl_add_tail b Toserver s;
           s \<leftarrow> http_mgmt_toserver s;
           Some (0, s) } }"

definition tcp_forward_release :: "nat \<Rightarrow> mgmt \<Rightarrow> mgmt option" where
  "tcp_forward_release f s = do {
     (_, s) \<leftarrow> tcp_forward_closing f s;
     let s = upd_fwd f (f_status_update (\<lambda>_. CALLING_FINISH)) s;
     if f \<notin> set (list_forward s) then None
     else do {
       let s = s\<lparr>list_forward := remove1 f (list_forward s)\<rparr>;
       let fd = f_fd (forwards s f);
       s \<leftarrow> (if 0 < fd then do {
           (_, s) \<leftarrow> mgmt_del_fd fd s;
           s \<leftarrow> set_lookup fd None s;
           Some (snd (sys (Close fd) s)) }
         else Some s);
       s \<leftarrow> free_buf (curr (hbufs s (Fwd_Write f))) s;
       let s = bl_splice_init (Fwd_Write f) Buf_Caches s;
       Some (s\<lparr>len_forward := len_forward s - 1\<rparr>) } }"

section \<open>Messages of the server\<close>

definition tcp_forward_create :: "u16 \<Rightarrow> bytes \<Rightarrow> u16 \<Rightarrow> u32 \<Rightarrow> mgmt \<Rightarrow> (int \<times> mgmt) option" where
  "tcp_forward_create seq host port type s =
     (let (m, s) = sys Alloc s
      in if a_ret m = 0 then Some (-1, s)
      else
        let (a, s) = sys Socket s
        in if a_ret a = -1 then Some (-1, s)
        else do {
          let fd = a_ret a;
          let (addr, s) = sys (Resolve host) s;
          let f = next_forward s;
          let s = s\<lparr>forwards := (forwards s)(f := zero_forward\<lparr>f_seq := seq, f_host := word_of_int (a_ret addr),
                      f_port := port, f_type := type, f_fd := fd, f_idle := True\<rparr>), next_forward := f + 1\<rparr>;
          let s = set_bl (Fwd_Write f) [] (upd_hb (Fwd_Write f) (\<lambda>_. zero_hb) s);
          (p, s) \<leftarrow> mgmt_add_fd fd (POLLIN OR POLLERR OR POLLHUP) s;
          let s = upd_fwd f (f_pfd_update (\<lambda>_. p)) s;
          s \<leftarrow> set_lookup fd (Some (Forward f)) s;
          let s = upd_fwd f (\<lambda>x. x\<lparr>f_func := Fwd_Do_Connect, f_status := CALLING_READY\<rparr>) s;
          Some (0, s\<lparr>list_forward := f # list_forward s, len_forward := len_forward s + 1\<rparr>) })"

definition find_forward :: "mgmt \<Rightarrow> nat option" where
  "find_forward s = List.find (\<lambda>f. hb_seq (hbufs s Prepare) = f_seq (forwards s f)) (list_forward s)"

text \<open>The host name is copied to 128 bytes of the stack.\<close>

definition process_tcp_forward :: "mgmt \<Rightarrow> (int \<times> mgmt) option" where
  "process_tcp_forward s =
     (if hb_len (hbufs s Prepare) < 8 then Some (-1, s)
      else do {
        b \<leftarrow> next_buf_info Prepare s;
        h \<leftarrow> buf_read b 0 8 s;
        let seq = of_be16 h;
        let port = of_be16 (drop 2 h);
        let type = of_be32 (drop 4 h);
        if type = 1 then
          (case find_forward s of
             None \<Rightarrow> Some (-1, s)
           | Some f \<Rightarrow> do {
               s \<leftarrow> tcp_forward_release f s;
               s \<leftarrow> release_prepare s;
               Some (0, s) })
        else do {
          let n = b_len (bufs s b) - 8;
          d \<leftarrow> buf_read b 8 n s;
          if 126 < n then None
          else do {
            (_, s) \<leftarrow> tcp_forward_create seq (takeWhile (\<lambda>x. x \<noteq> 0) d) port type s;
            s \<leftarrow> release_prepare s;
            Some (0, s) } } })"

definition process_tcp_forwardresp :: "mgmt \<Rightarrow> (int \<times> mgmt) option" where
  "process_tcp_forwardresp s =
     (case find_forward s of
        None \<Rightarrow> Some (-1, s)
      | Some f \<Rightarrow>
          let s = bl_splice_tail_init Prepare (Fwd_Write f) s
          in if curr (hbufs s Prepare) \<noteq> None then None
          else do {
            s \<leftarrow> release_prepare s;
            if f_idle (forwards s f) then do {
              let s = upd_fwd f (f_func_update (\<lambda>_. Fwd_Do_Write)) s;
              s \<leftarrow> upd_pfd (f_pfd (forwards s f)) want_write s;
              Some (0, upd_fwd f (f_ccr_update (\<lambda>_. 0)) s) }
            else Some (0, s) })"

end
