(* ===== verification/Tunnel_Tcp.thy ===== *)
theory Tunnel_Tcp
  imports Tunnel_State Tea
begin

text \<open>
  The local management server (\<open>test-server/http_client.c\<close>): it accepts clients on a local socket, decrypts
  their requests and queues them to the server under a sequence number of its own, and passes the answers
  and events of the server to the clients, encrypted.
\<close>

definition upd_cli :: "nat \<Rightarrow> (tcp_client_context \<Rightarrow> tcp_client_context) \<Rightarrow> mgmt \<Rightarrow> mgmt" where
  "upd_cli k f s = s\<lparr>clients := (clients s)(k := f (clients s k))\<rparr>"

definition upd_srv :: "(tcp_server_context \<Rightarrow> tcp_server_context) \<Rightarrow> mgmt \<Rightarrow> mgmt" where
  "upd_srv f s = s\<lparr>tcp_server := f (tcp_server s)\<rparr>"

text \<open>The cipher on a part of a buffer, through a pointer to words.\<close>

definition crypt_buf ::
  "(int \<Rightarrow> u32 list \<Rightarrow> int \<Rightarrow> u32 list option) \<Rightarrow> nat \<Rightarrow> nat \<Rightarrow> int \<Rightarrow> mgmt \<Rightarrow> mgmt option" where
  "crypt_buf f b off len s = (case get_time s of (t, s) \<Rightarrow> do {
     ws \<leftarrow> f t (words_of (drop off (b_data (bufs s b)))) len;
     buf_write b (int off) (bytes_of ws) s })"

section \<open>From the server to the clients\<close>

text \<open>The switch of an idle client to its write state.\<close>

definition wake_client :: "nat \<Rightarrow> mgmt \<Rightarrow> mgmt option" where
  "wake_client k s =
     (if k_idle (clients s k) then do {
        let s = upd_cli k (k_ccr_update (\<lambda>_. 0)) s;
        s \<leftarrow> upd_pfd (k_pfd (clients s k)) want_write s;
        Some (upd_cli k (\<lambda>x. x\<lparr>k_func := Cli_Do_Write, k_status := CALLING_READY, k_idle := False\<rparr>) s) }
      else Some s)"

text \<open>The low byte of the client's number is its own number.\<close>

definition client_header :: "u8 \<Rightarrow> nat \<Rightarrow> mgmt \<Rightarrow> http_c_header" where
  "client_header type k s = mk_header type (word_of_int (k_req_seq (clients s k)) AND 0xFF)
     (word_of_int (hb_len (hbufs s Prepare) + int HTTP_C_HEADER_LEN))"

fun tunnel_req_clients :: "nat option \<Rightarrow> nat list \<Rightarrow> mgmt \<Rightarrow> mgmt option" where
  "tunnel_req_clients src [] s = Some s"
| "tunnel_req_clients src (k # ks) s = do {
     let header = client_header HTTP_C_REQ k s;
     (b, s) \<leftarrow> alloc_buf s;
     b \<leftarrow> b;
     s \<leftarrow> buf_write b 0 (header_bytes header) s;
     src' \<leftarrow> src;
     d \<leftarrow> buf_read src' 0 (b_len (bufs s src')) s;
     s \<leftarrow> buf_write b (int HTTP_C_HEADER_LEN) d s;
     let n = b_len (bufs s src') + int HTTP_C_HEADER_LEN;
     let s = upd_buf b (\<lambda>x. x\<lparr>b_start := 0, b_len := n, b_total := n\<rparr>) s;
     s \<leftarrow> bl_add b (Cli_Write k) s;
     s \<leftarrow> wake_client k s;
     tunnel_req_clients src ks s }"

text \<open>The comparison with \<open>sizeof\<close> is unsigned.\<close>

definition process_tunnel_req :: "mgmt \<Rightarrow> (int \<times> mgmt) option" where
  "process_tunnel_req s =
     (if hb_len (hbufs s Prepare) < 0 \<or> HTTP_BUF_SIZE - int HTTP_C_HEADER_LEN < hb_len (hbufs s Prepare) then Some (-1, s)
      else do {
        s \<leftarrow> tunnel_req_clients (next_buf_info Prepare s) (list_client s) s;
        s \<leftarrow> release_prepare s;
        Some (0, s) })"

definition process_tunnel_resp :: "mgmt \<Rightarrow> (int \<times> mgmt) option" where
  "process_tunnel_resp s =
     (case List.find (\<lambda>k. uint (hb_seq (hbufs s Prepare)) = k_req_seq (clients s k)) (list_client s) of
        None \<Rightarrow> Some (-1, s)
      | Some k \<Rightarrow> do {
          let header = client_header HTTP_C_RESP k s;
          (b, s) \<leftarrow> alloc_buf s;
          b \<leftarrow> b;
          s \<leftarrow> buf_write b 0 (header_bytes header) s;
          let s = upd_buf b (\<lambda>x. x\<lparr>b_start := 0, b_len := int HTTP_C_HEADER_LEN, b_total := int HTTP_C_HEADER_LEN\<rparr>) s;
          s \<leftarrow> bl_add b Prepare s;
          let s = bl_splice_tail_init Prepare (Cli_Write k) s;
          s \<leftarrow> wake_client k s;
          Some (0, s) })"

section \<open>From a client to the server\<close>

definition tcp_client_save_read :: "nat \<Rightarrow> nat \<Rightarrow> mgmt \<Rightarrow> mgmt option" where
  "tcp_client_save_read k b s = (let n = b_start (bufs s b) in do {
     let s = upd_buf b (\<lambda>x. x\<lparr>b_len := n, b_total := n\<rparr>) s;
     let s = upd_hb (Cli_Read k) (\<lambda>h. h\<lparr>hb_len := hb_len h + n\<rparr>) s;
     let s = upd_buf b (b_start_update (\<lambda>_. 0)) s;
     s \<leftarrow> bl_add_tail b (Cli_Read k) s;
     Some (upd_hb (Cli_Read k) (curr_update (\<lambda>_. None)) s) })"

definition tcp_client_parse_req :: "nat \<Rightarrow> mgmt \<Rightarrow> mgmt option" where
  "tcp_client_parse_req k s =
     http_mgmt_toserver (upd_hb (Cli_Read k) (\<lambda>h. h\<lparr>hb_len := 0, hb_total := 0\<rparr>)
       (bl_splice_tail_init (Cli_Read k) Toserver s))"

text \<open>The request header in the buffer: decrypted, numbered and marked as a tunnel request.\<close>

definition client_parse_header :: "nat \<Rightarrow> nat \<Rightarrow> mgmt \<Rightarrow> mgmt option" where
  "client_parse_header k b s = do {
     s \<leftarrow> crypt_buf decry2 b 0 (int HTTP_C_HEADER_LEN div 4) s;
     h \<leftarrow> buf_read b 0 (int HTTP_C_HEADER_LEN) s;
     let s = upd_srv (\<lambda>x. x\<lparr>s_seq := (s_seq x + 1) mod 256\<rparr>) s;
     let seq = uint (of_be16 (drop 6 h)) OR s_seq (tcp_server s) * 256;
     let s = upd_cli k (k_req_seq_update (\<lambda>_. seq)) s;
     s \<leftarrow> buf_write b 0 (take 5 h @ [HTTP_C_TUNNELREQ] @ be16 (word_of_int seq) @ drop 8 h) s;
     let s = upd_hb (Cli_Read k) (hb_total_update (\<lambda>_. sint (of_be32 (drop 8 h)))) s;
     Some (upd_cli k (k_header_parsed_update (\<lambda>_. True)) s) }"

definition client_received :: "nat \<Rightarrow> nat \<Rightarrow> int \<Rightarrow> bytes \<Rightarrow> mgmt \<Rightarrow> mgmt option" where
  "client_received k b n d s = do {
     s \<leftarrow> buf_write b (b_start (bufs s b)) d s;
     let s = upd_buf b (\<lambda>x. x\<lparr>b_start := b_start x + n\<rparr>) s;
     (bi, s) \<leftarrow> (if HTTP_BUF_SIZE \<le> b_start (bufs s b)
                then do { s \<leftarrow> tcp_client_save_read k b s; Some (curr (hbufs s (Cli_Read k)), s) }
                else Some (Some b, s));
     s \<leftarrow> (if k_header_parsed (clients s k) then Some s
           else do { b \<leftarrow> bi;
             if int HTTP_C_HEADER_LEN \<le> b_start (bufs s b) then client_parse_header k b s else Some s });
     if hb_total (hbufs s (Cli_Read k)) mod 8 \<noteq> 0 then None
     else do {
       b \<leftarrow> bi;
       if hb_len (hbufs s (Cli_Read k)) + b_start (bufs s b) < hb_total (hbufs s (Cli_Read k)) then Some s
       else do {
         s \<leftarrow> crypt_buf decry2 b HTTP_C_HEADER_LEN ((hb_total (hbufs s (Cli_Read k)) - int HTTP_C_HEADER_LEN) div 4) s;
         s \<leftarrow> tcp_client_save_read k b s;
         let s = bl_splice_tail_init (Cli_Read k) Toserver s;
         let s = upd_hb (Cli_Read k) (\<lambda>h. h\<lparr>hb_len := 0, hb_total := 0\<rparr>) s;
         let s = upd_cli k (k_header_parsed_update (\<lambda>_. False)) s;
         s \<leftarrow> http_mgmt_toserver s;
         Some (upd_cli k (k_idle_update (\<lambda>_. True)) s) } } }"

definition tcp_client_read :: "nat \<Rightarrow> mgmt \<Rightarrow> (caller_status \<times> mgmt) option" where
  "tcp_client_read k s =
     (let s = upd_cli k (k_idle_update (\<lambda>_. False)) s;
          pending = (\<lambda>s. (CALLER_PENDING, upd_cli k (k_ccr_update (\<lambda>_. 2)) s))
      in if k_ccr (clients s k) = 1 then Some (pending s)
      else do {
        (b, s) \<leftarrow> (case curr (hbufs s (Cli_Read k)) of
            Some b \<Rightarrow> Some (b, s)
          | None \<Rightarrow> do {
              (b, s) \<leftarrow> alloc_buf s;
              b \<leftarrow> b;
              Some (b, upd_hb (Cli_Read k) (curr_update (\<lambda>_. Some b)) s) });
        let left = HTTP_BUF_SIZE - b_start (bufs s b);
        if left \<le> 0 then None
        else case sys_read (k_fd (clients s k)) left s of ((n, d, errno), s) \<Rightarrow>
          if 0 < n then do { s \<leftarrow> client_received k b n d s; Some (pending s) }
          else if n = 0 \<or> (errno \<noteq> EINTR \<and> errno \<noteq> EAGAIN) then do {
            s \<leftarrow> (if b_start (bufs s b) = 0
                  then do { s \<leftarrow> free_buf (Some b) s; Some (upd_hb (Cli_Read k) (curr_update (\<lambda>_. None)) s) }
                  else tcp_client_save_read k b s);
            Some (CALLER_FINISH, upd_cli k (k_ccr_update (\<lambda>_. 1)) s) }
          else Some (pending s) })"

text \<open>The assertion after \<open>write\<close> leaves only the branch in which the whole buffer was taken.\<close>

partial_function (option) cli_write_loop :: "nat \<Rightarrow> mgmt \<Rightarrow> (caller_status \<times> mgmt) option" where
  "cli_write_loop k s =
     (case curr (hbufs s (Cli_Write k)) of
        None \<Rightarrow>
          Option.bind (upd_pfd (k_pfd (clients s k)) want_read s) (\<lambda>s.
          Some (CALLER_PENDING,
            upd_cli k (\<lambda>x. x\<lparr>k_func := Cli_Do_Read, k_ccr := 0, k_idle := True\<rparr>) s))
      | Some b \<Rightarrow>
          let len = (b_len (bufs s b) + 7) div 8 * 8;
              s = upd_buf b (b_len_update (\<lambda>_. len)) s
          in Option.bind (crypt_buf encry2 b 0 (len div 4) s) (\<lambda>s.
             Option.bind (buf_read b (b_start (bufs s b)) len s) (\<lambda>d.
             (case sys_write (k_fd (clients s k)) d s of ((n, errno), s) \<Rightarrow>
                if n \<noteq> len \<or> b_start (bufs s b) \<noteq> 0 then None
                else
                  let s = upd_buf b (\<lambda>x. x\<lparr>b_len := b_len x - n\<rparr>) s
                  in Option.bind (bl_del b (Cli_Write k) s) (\<lambda>s.
                     Option.bind (free_buf (Some b) s) (\<lambda>s.
                     cli_write_loop k
                       (upd_hb (Cli_Write k) (curr_update (\<lambda>_. next_buf_info (Cli_Write k) s)) s)))))))"

definition tcp_client_write :: "nat \<Rightarrow> mgmt \<Rightarrow> (caller_status \<times> mgmt) option" where
  "tcp_client_write k s =
     (let s = upd_cli k (k_idle_update (\<lambda>_. False)) s
      in if k_ccr (clients s k) \<noteq> 0 \<or> curr (hbufs s (Cli_Write k)) \<noteq> None then None
      else cli_write_loop k (upd_hb (Cli_Write k) (curr_update (\<lambda>_. next_buf_info (Cli_Write k) s)) s))"

section \<open>The server socket\<close>

text \<open>A coroutine that returned on \<open>EAGAIN\<close> (1) goes on behind the test with the local \<open>clientfd\<close> at -1, one
  that found no memory (2) with \<open>tcp_client\<close> at \<open>NULL\<close>.\<close>

definition accept_client :: "int \<Rightarrow> mgmt \<Rightarrow> (caller_status \<times> mgmt) option" where
  "accept_client fd s =
     (let (m, s) = sys Alloc s
      in if a_ret m = 0 then
        Some (CALLER_PENDING, upd_srv (s_ccr_update (\<lambda>_. 2)) (snd (sys (Close fd) s)))
      else do {
        let k = next_client s;
        let (t, s) = get_time s;
        let s = s\<lparr>clients := (clients s)(k := zero_client\<lparr>k_fd := fd, k_func := Cli_Do_Read,
                    k_status := CALLING_PENDING, k_idle := True, k_timeout := t\<rparr>),
                  next_client := k + 1, list_client := k # list_client s\<rparr>;
        let s = upd_hb (Cli_Read k) (\<lambda>_. zero_hb) (upd_hb (Cli_Write k) (\<lambda>_. zero_hb) s);
        let s = set_bl (Cli_Read k) [] (set_bl (Cli_Write k) [] s);
        (p, s) \<leftarrow> mgmt_add_fd fd (POLLIN OR POLLERR OR POLLHUP) s;
        let s = upd_cli k (k_pfd_update (\<lambda>_. p)) s;
        let s = upd_srv (\<lambda>x. x\<lparr>client_len := client_len x + 1\<rparr>) s;
        s \<leftarrow> set_lookup fd (Some (Client k)) s;
        Some (CALLER_PENDING, upd_srv (s_ccr_update (\<lambda>_. 3)) s) })"

definition tcp_server_callback :: "mgmt \<Rightarrow> (caller_status \<times> mgmt) option" where
  "tcp_server_callback s =
     (if s_ccr (tcp_server s) = 1 then accept_client (-1) s
      else if s_ccr (tcp_server s) = 2 then None
      else
        let (a, s) = sys (Accept (serv_fd (tcp_server s))) s
        in if a_ret a < 0 \<and> (a_errno a = EINTR \<or> a_errno a = EAGAIN)
           then Some (CALLER_CONTINUE, upd_srv (s_ccr_update (\<lambda>_. 1)) s)
           else accept_client (a_ret a) s)"

definition tcp_client_release :: "nat \<Rightarrow> mgmt \<Rightarrow> mgmt option" where
  "tcp_client_release k s =
     (if k \<notin> set (list_client s) then None
      else do {
        let s = s\<lparr>list_client := remove1 k (list_client s)\<rparr>;
        let fd = k_fd (clients s k);
        s \<leftarrow> (if 0 < fd then do {
            (_, s) \<leftarrow> mgmt_del_fd fd s;
            s \<leftarrow> set_lookup fd None s;
            Some (snd (sys (Close fd) s)) }
          else Some s);
        s \<leftarrow> free_buf (curr (hbufs s (Cli_Read k))) s;
        let s = bl_splice_init (Cli_Read k) Buf_Caches s;
        s \<leftarrow> free_buf (curr (hbufs s (Cli_Write k))) s;
        let s = bl_splice_init (Cli_Write k) Buf_Caches s;
        Some (upd_srv (\<lambda>x. x\<lparr>client_len := client_len x - 1\<rparr>) s) })"

definition cli_run :: "nat \<Rightarrow> mgmt \<Rightarrow> (caller_status \<times> mgmt) option" where
  "cli_run k s = (case k_func (clients s k) of
     Cli_Do_Read \<Rightarrow> tcp_client_read k s | Cli_Do_Write \<Rightarrow> tcp_client_write k s)"

definition next_status :: "caller_status \<Rightarrow> calling_status" where
  "next_status st = (if st = CALLER_CONTINUE then CALLING_READY else CALLING_PENDING)"

fun run_clients :: "nat list \<Rightarrow> mgmt \<Rightarrow> mgmt option" where
  "run_clients [] s = Some s"
| "run_clients (k # ks) s =
     (if k_status (clients s k) = CALLING_READY then do {
        (st, s) \<leftarrow> cli_run k s;
        run_clients ks (upd_cli k (k_status_update (\<lambda>_. next_status st)) s) }
      else run_clients ks s)"

definition tcp_server_run :: "mgmt \<Rightarrow> mgmt option" where
  "tcp_server_run s = do {
     s \<leftarrow> run_clients (list_client s) s;
     if s_status (tcp_server s) = CALLING_READY then do {
       (st, s) \<leftarrow> tcp_server_callback s;
       Some (upd_srv (s_status_update (\<lambda>_. next_status st)) s) }
     else Some s }"

end
