(* ===== verification/Tunnel_Service.thy ===== *)
theory Tunnel_Service
  imports Tunnel_Forward Tunnel_Tcp
begin

text \<open>
  The entry points of the tunnel (\<open>test-server/http_client.c\<close>, \<open>test-server/web-tunnel.c\<close>): the messages
  the websocket delivers are collected and dispatched by type, the poll events go to the context of their
  descriptor, and the main loop runs what is ready.
\<close>

section \<open>Messages of the server\<close>

definition prepare_process :: "mgmt \<Rightarrow> mgmt option" where
  "prepare_process s =
     (let or_release = (\<lambda>r. do { (rc, s) \<leftarrow> r; if rc \<noteq> 0 then release_prepare s else Some s });
          type = hb_type (hbufs s Prepare);
          finish = (\<lambda>s.
            let s = upd_hb Prepare (\<lambda>h. h\<lparr>hb_len := 0, hb_total := 0, hb_type := 0\<rparr>) s;
                s = s\<lparr>sync_prepare := False\<rparr>
            in case get_time s of (t, s) \<Rightarrow> s\<lparr>sync_time := t\<rparr>)
      in do {
        s \<leftarrow> (if type = HTTP_C_HAND then
               (case next_buf_info Prepare s of
                  None \<Rightarrow> Some s
                | Some b \<Rightarrow> do {
                    d \<leftarrow> buf_read b 0 4 s;
                    release_prepare (s\<lparr>client_id := of_be32 d, shakehand := True\<rparr>) })
             else if type = HTTP_C_TUNNELREQ then or_release (process_tunnel_req s)
             else if type = HTTP_C_TUNNELRESP then or_release (process_tunnel_resp s)
             else if type = HTTP_C_REQ then or_release (http_context_create 10 s)
             else if type = HTTP_C_FORWARD then or_release (process_tcp_forward s)
             else if type = HTTP_C_FORWARD_REQ then do { s \<leftarrow> or_release (process_tcp_forwardresp s); release_prepare s }
             else release_prepare s);
        Some (finish s) })"

text \<open>The header of a message: the code returned for a bad one, or 0 with the bytes behind it. The length is
  unsigned: one below 16 wraps, as \<open>total_len\<close> it is negative.\<close>

definition prepare_sync :: "bytes \<Rightarrow> mgmt \<Rightarrow> (int \<times> bytes \<times> mgmt) option" where
  "prepare_sync d s =
     (if length d < 16 then Some (10, d, s)
      else if of_be32 d \<noteq> HTTP_C_MAGIC \<or> d ! 4 \<noteq> HTTP_C_VERSION then Some (11, d, s)
      else do {
        s \<leftarrow> release_prepare s;
        let len = of_be32 (drop 8 d);
        if HTTP_IN_MAX < unat len then Some (12, d, s)
        else
          let s = s\<lparr>sync_prepare := True\<rparr>;
              (t, s) = get_time s;
              s = s\<lparr>sync_time := t\<rparr>;
              s = upd_hb Prepare (\<lambda>h. h\<lparr>hb_total := sint (len - 16), hb_type := d ! 5, hb_seq := of_be16 (drop 6 d)\<rparr>) s
          in Some (0, drop 16 d, s) })"

text \<open>The loop over the buffer \<open>bi\<close>, a local variable: when the message before was cut short by the timeout
  it still is the buffer that was given back to the pool.\<close>

partial_function (option) prepare_loop :: "nat option \<Rightarrow> bytes \<Rightarrow> mgmt \<Rightarrow> (int \<times> mgmt) option" where
  "prepare_loop bi d s =
     Option.bind
       (case bi of
          Some b \<Rightarrow> Some (Some b, s)
        | None \<Rightarrow> Option.bind (alloc_buf s) (\<lambda>(bi, s).
            (case bi of
               None \<Rightarrow> Some (None, s)
             | Some b \<Rightarrow> Some (Some b, upd_hb Prepare (curr_update (\<lambda>_. Some b)) s))))
       (\<lambda>(bi, s).
         (case bi of
            None \<Rightarrow> Option.bind (release_prepare s) (\<lambda>s. Some (4, s))
          | Some b \<Rightarrow>
              if HTTP_BUF_SIZE < b_start (bufs s b) + int (length d) then
                Option.bind (save_prepare b s) (\<lambda>s. prepare_loop (curr (hbufs s Prepare)) d s)
              else
                Option.bind (buf_write b (b_start (bufs s b)) d s) (\<lambda>s.
                  let s = upd_buf b (\<lambda>x. x\<lparr>b_start := b_start x + int (length d)\<rparr>) s;
                      tmp_len = b_start (bufs s b) + hb_len (hbufs s Prepare);
                      total = hb_total (hbufs s Prepare)
                  in if total \<le> tmp_len then
                       let s = upd_buf b (\<lambda>x. x\<lparr>b_start := b_start x - (tmp_len - total)\<rparr>) s
                       in Option.bind (save_prepare b s) (\<lambda>s.
                          Option.bind (prepare_process s) (\<lambda>s. Some (0, s)))
                     else Some (0, s))))"

definition http_mgmt_prepare :: "bytes \<Rightarrow> mgmt \<Rightarrow> (int \<times> mgmt) option" where
  "http_mgmt_prepare d s =
     (let bi = curr (hbufs s Prepare)
      in if HTTP_BUF_SIZE \<le> int (length d) then None
      else do {
        (rc, d, s) \<leftarrow> (if sync_prepare s then Some (0, d, s) else prepare_sync d s);
        if rc \<noteq> 0 then Some (rc, s)
        else if d = [] then Some (0, s)
        else prepare_loop bi d s })"

section \<open>Poll events\<close>

definition service_http :: "nat \<Rightarrow> u16 \<Rightarrow> mgmt \<Rightarrow> mgmt option" where
  "service_http c revents s =
     (if revents AND (POLLERR OR POLLHUP) \<noteq> 0 then do {
        s \<leftarrow> drop_ready c s;
        s \<leftarrow> (if c_state (ctxs s c) = CALLER_STATE_READ
              then map_option snd (http_context_finish c s) else Some s);
        http_context_release c s }
      else http_context_execute c (upd_ctx c (c_revents_update (\<lambda>_. revents)) s))"

definition service_client :: "nat \<Rightarrow> u16 \<Rightarrow> mgmt \<Rightarrow> mgmt option" where
  "service_client k revents s =
     (if revents AND (POLLERR OR POLLHUP) \<noteq> 0 then tcp_client_release k s
      else do {
        (st, s) \<leftarrow> cli_run k s;
        if st = CALLER_FINISH then tcp_client_release k s
        else Some (upd_cli k (k_status_update (\<lambda>_. next_status st)) s) })"

definition fwd_run :: "nat \<Rightarrow> mgmt \<Rightarrow> (caller_status \<times> mgmt) option" where
  "fwd_run f s = (case f_func (forwards s f) of
     Fwd_Do_Connect \<Rightarrow> tcp_forward_connect f s
   | Fwd_Do_Read \<Rightarrow> tcp_forward_read f s
   | Fwd_Do_Write \<Rightarrow> tcp_forward_write f s)"

definition service_forward :: "nat \<Rightarrow> mgmt \<Rightarrow> mgmt option" where
  "service_forward f s = do {
     (st, s) \<leftarrow> fwd_run f s;
     if st = CALLER_FINISH then tcp_forward_release f s
     else Some (upd_fwd f (f_status_update (\<lambda>_. next_status st)) s) }"

definition service_server :: "mgmt \<Rightarrow> mgmt option" where
  "service_server s = do {
     (st, s) \<leftarrow> tcp_server_callback (upd_srv (s_status_update (\<lambda>_. CALLING_READY)) s);
     Some (upd_srv (s_status_update (\<lambda>_. next_status st)) s) }"

definition http_mgmt_service :: "nat \<Rightarrow> mgmt \<Rightarrow> (int \<times> mgmt) option" where
  "http_mgmt_service i s = do {
     pfd \<leftarrow> get_pfd (Some i) s;
     if p_revents pfd = 0 then Some (-1, s)
     else if p_fd pfd < 0 then None
     else do {
       ref \<leftarrow> aget (http_lookup s) (nat (p_fd pfd));
       case ref of
         None \<Rightarrow> Some (0, s)
       | Some r \<Rightarrow> do {
           s \<leftarrow> (case r of
               Server \<Rightarrow> service_server s
             | Http c \<Rightarrow> service_http c (p_revents pfd) s
             | Client k \<Rightarrow> service_client k (p_revents pfd) s
             | Forward f \<Rightarrow> service_forward f s);
           s \<leftarrow> upd_pfd (Some i) (p_revents_update (\<lambda>_. 0)) s;
           Some (0, s) } } }"

section \<open>The main loop\<close>

fun execute_all :: "nat list \<Rightarrow> mgmt \<Rightarrow> mgmt option" where
  "execute_all [] s = Some s"
| "execute_all (c # cs) s = do { s \<leftarrow> http_context_execute c s; execute_all cs s }"

definition take_ready :: "int \<Rightarrow> mgmt \<Rightarrow> mgmt" where
  "take_ready p s = set_cl (Ready p) [] (set_cl (Run_Local p) (clists s (Ready p)) s)"

definition http_mgmt_run :: "mgmt \<Rightarrow> mgmt option" where
  "http_mgmt_run s = do {
     let s = take_ready 1 (take_ready 0 s);
     s \<leftarrow> execute_all (clists s (Run_Local 0)) s;
     s \<leftarrow> execute_all (clists s (Run_Local 1)) s;
     s \<leftarrow> tcp_server_run s;
     let (now, s) = get_time s;
     let s = (if sync_prepare s \<and> HTTP_TIMEOUT_SECS < now - sync_time s then s\<lparr>sync_prepare := False\<rparr> else s);
     Some (if 4 * HTTP_TIMEOUT_SECS < now - last_alive_time s then snd (sys Ws_Closed s) else s) }"

section \<open>The callbacks of the library\<close>

datatype poll_reason = Add_Poll_Fd int u16 | Del_Poll_Fd int | Change_Mode_Poll_Fd int u16 | Other_Poll

definition callback_http :: "poll_reason \<Rightarrow> mgmt \<Rightarrow> (int \<times> mgmt) option" where
  "callback_http reason s = (case reason of
     Add_Poll_Fd fd events \<Rightarrow> do {
       (p, s) \<leftarrow> mgmt_add_fd fd events s;
       Some (if p = None then 1 else 0, s) }
   | Del_Poll_Fd fd \<Rightarrow> do { (_, s) \<leftarrow> mgmt_del_fd fd s; Some (0, s) }
   | Change_Mode_Poll_Fd fd events \<Rightarrow>
       if fd < 0 then None
       else do {
         m \<leftarrow> aget (fd_lookup s) (nat fd);
         s \<leftarrow> (if m < 0 then None else upd_pfd (Some (nat m)) (p_events_update (\<lambda>_. events)) s);
         Some (0, s) }
   | Other_Poll \<Rightarrow> Some (0, s))"

datatype ws_reason = Client_Established | Connection_Error | Ws_Is_Closed | Client_Receive bytes | Client_Writeable
  | Other_Reason

text \<open>The flag is \<open>was_closed\<close>.\<close>

definition callback_dumb_increment :: "ws_reason \<Rightarrow> bool \<times> mgmt \<Rightarrow> (int \<times> bool \<times> mgmt) option" where
  "callback_dumb_increment reason st = (case st of (closed, s) \<Rightarrow> (case reason of
     Client_Established \<Rightarrow> Some (0, closed, snd (sys Write_Again s))
   | Connection_Error \<Rightarrow> Some (0, True, s)
   | Ws_Is_Closed \<Rightarrow> Some (0, True, s)
   | Client_Receive d \<Rightarrow> do { (_, s) \<leftarrow> http_mgmt_prepare d s; Some (0, closed, s) }
   | Client_Writeable \<Rightarrow> do {
       s \<leftarrow> (if http_mgmt_isshake s then Some s else http_mgmt_handshake s);
       (n, s) \<leftarrow> http_mgmt_writable s;
       Some (n, closed, s) }
   | Other_Reason \<Rightarrow> Some (0, closed, s)))"

end
