(* ===== verification/Poll_Table.thy ===== *)
theory Poll_Table
  imports Tunnel_Service
begin

text \<open>
  The poll table of the tunnel is a finite map from descriptors to their events: the slots stay dense, every
  polled descriptor is looked up at its slot, and adding, removing and changing one does what it does to
  the map, for any sequence of the library's callbacks.
\<close>

section \<open>The poll table\<close>

text \<open>Every used slot is the one its descriptor is looked up at.\<close>

definition fds_ok :: "mgmt \<Rightarrow> bool" where
  "fds_ok s \<longleftrightarrow> 0 \<le> count_pollfds s \<and> count_pollfds s \<le> max_fds s \<and> length (pollfds s) = nat (max_fds s) \<and>
     length (fd_lookup s) = nat (max_fds s) \<and>
     (\<forall>i < nat (count_pollfds s). 0 \<le> p_fd (pollfds s ! i) \<and> p_fd (pollfds s ! i) < max_fds s \<and>
        fd_lookup s ! nat (p_fd (pollfds s ! i)) = int i)"

text \<open>The events and returned events of a descriptor that is polled.\<close>

definition polled :: "mgmt \<Rightarrow> int \<Rightarrow> (u16 \<times> u16) option" where
  "polled s fd =
     (if 0 \<le> fd \<and> fd < max_fds s then
        let i = fd_lookup s ! nat fd
        in if 0 \<le> i \<and> i < count_pollfds s \<and> p_fd (pollfds s ! nat i) = fd
           then Some (p_events (pollfds s ! nat i), p_revents (pollfds s ! nat i)) else None
      else None)"

lemma polled_slot:
  "fds_ok s \<Longrightarrow> i < nat (count_pollfds s) \<Longrightarrow>
   polled s (p_fd (pollfds s ! i)) = Some (p_events (pollfds s ! i), p_revents (pollfds s ! i))"
  by (auto simp: fds_ok_def polled_def Let_def)

lemma polled_SomeD:
  assumes "fds_ok s" "polled s fd = Some e"
  obtains i where "i < nat (count_pollfds s)" "p_fd (pollfds s ! i) = fd" "fd_lookup s ! nat fd = int i" "0 \<le> fd"
    "fd < max_fds s" "e = (p_events (pollfds s ! i), p_revents (pollfds s ! i))"
  using assms that [of "nat (fd_lookup s ! nat fd)"]
  by (auto simp: polled_def Let_def split: if_splits)

lemma fds_slot:
  "fds_ok s \<Longrightarrow> i < nat (count_pollfds s) \<Longrightarrow>
   0 \<le> p_fd (pollfds s ! i) \<and> p_fd (pollfds s ! i) < max_fds s \<and> fd_lookup s ! nat (p_fd (pollfds s ! i)) = int i"
  by (simp add: fds_ok_def)

text \<open>The descriptors are different, so there is room for one that is not polled yet.\<close>

lemma fds_room:
  assumes ok: "fds_ok s" and fd: "0 \<le> fd" "fd < max_fds s" "polled s fd = None"
  shows "count_pollfds s < max_fds s"
proof (rule ccontr)
  assume "\<not> ?thesis"
  then have n: "nat (count_pollfds s) = nat (max_fds s)" using ok by (auto simp: fds_ok_def)
  let ?f = "\<lambda>i. nat (p_fd (pollfds s ! i))"
  note slot = fds_slot [OF ok, unfolded n]
  have "inj_on ?f {..<nat (max_fds s)}"
  proof (rule inj_onI)
    fix i j assume "i \<in> {..<nat (max_fds s)}" "j \<in> {..<nat (max_fds s)}" "?f i = ?f j"
    then have "int i = int j" using slot unfolding lessThan_iff by metis
    then show "i = j" by simp
  qed
  moreover have "?f i \<in> {..<nat (max_fds s)}" if "i \<in> {..<nat (max_fds s)}" for i
  proof -
    have "0 \<le> p_fd (pollfds s ! i)" "p_fd (pollfds s ! i) < max_fds s" using slot that by blast+
    then show ?thesis unfolding lessThan_iff zless_nat_conj by linarith
  qed
  then have "?f ` {..<nat (max_fds s)} \<subseteq> {..<nat (max_fds s)}" by blast
  ultimately have "?f ` {..<nat (max_fds s)} = {..<nat (max_fds s)}" by (intro endo_inj_surj) auto
  moreover have "nat fd \<in> {..<nat (max_fds s)}" using fd by auto
  ultimately have "nat fd \<in> ?f ` {..<nat (max_fds s)}" by blast
  then obtain i where i: "i < nat (max_fds s)" "?f i = nat fd" unfolding image_iff lessThan_iff by force
  have "0 \<le> p_fd (pollfds s ! i)" using slot i(1) by blast
  with i(2) fd(1) have "p_fd (pollfds s ! i) = fd" by (simp only: eq_nat_nat_iff)
  with polled_slot [OF ok, unfolded n, OF i(1)] fd(3) show False by simp
qed

lemma fds_ok_congs:
  "fds_ok s \<Longrightarrow> max_fds s' = max_fds s \<Longrightarrow> pollfds s' = pollfds s \<Longrightarrow> fd_lookup s' = fd_lookup s \<Longrightarrow>
   count_pollfds s' = count_pollfds s \<Longrightarrow> fds_ok s'"
  by (simp add: fds_ok_def)

lemma mgmt_add_fd_polled:
  assumes ok: "fds_ok s" and fd: "0 \<le> fd" "fd < max_fds s" "polled s fd = None"
  obtains s' where "mgmt_add_fd fd events s = Some (Some (nat (count_pollfds s)), s')" "fds_ok s'"
    "polled s' = (polled s)(fd \<mapsto> (events, 0))" "max_fds s' = max_fds s"
proof -
  note room = fds_room [OF ok fd]
  let ?n = "count_pollfds s"
  let ?s = "s\<lparr>fd_lookup := (fd_lookup s)[nat fd := ?n],
    pollfds := (pollfds s)[nat ?n := \<lparr>p_fd = fd, p_events = events, p_revents = 0\<rparr>], count_pollfds := ?n + 1\<rparr>"
  have free: "p_fd (pollfds s ! i) \<noteq> fd" if "i < nat ?n" for i
    using polled_slot [OF ok that] fd(3) by auto
  have eq: "mgmt_add_fd fd events s = Some (Some (nat ?n), ?s)"
    using ok fd room by (auto simp: mgmt_add_fd_def fds_ok_def access_simps nat_less_iff)
  have ok': "fds_ok ?s"
    using ok fd room free unfolding fds_ok_def by (auto simp: nth_list_update nat_eq_iff2 eq_nat_nat_iff less_Suc_eq nat_add_distrib)
  moreover have "polled ?s = (polled s)(fd \<mapsto> (events, 0))"
  proof
    fix x
    show "polled ?s x = ((polled s)(fd \<mapsto> (events, 0))) x"
    proof (cases "x = fd")
      case True
      then show ?thesis using polled_slot [OF ok', of "nat ?n"] ok fd room
        by (simp add: fds_ok_def nat_less_iff nat_add_distrib)
    next
      case False
      then show ?thesis using ok fd room
        by (auto simp: polled_def Let_def nth_list_update fds_ok_def eq_nat_nat_iff)
    qed
  qed
  ultimately show thesis using eq that by simp
qed


lemma polled_iff:
  "fds_ok s \<Longrightarrow> polled s fd = Some e \<longleftrightarrow>
     (\<exists>i < nat (count_pollfds s). p_fd (pollfds s ! i) = fd \<and> e = (p_events (pollfds s ! i), p_revents (pollfds s ! i)))"
  using polled_slot [of s] by (auto elim!: polled_SomeD)

lemma fds_inj:
  "fds_ok s \<Longrightarrow> i < nat (count_pollfds s) \<Longrightarrow> j < nat (count_pollfds s) \<Longrightarrow>
   p_fd (pollfds s ! i) = p_fd (pollfds s ! j) \<Longrightarrow> i = j"
  using fds_slot [of s i] fds_slot [of s j] by (metis of_nat_eq_iff)

lemma map_upd_None_iff: "(\<And>x e. m' x = Some e \<longleftrightarrow> x \<noteq> a \<and> m x = Some e) \<Longrightarrow> m' = m(a := None)"
  by (rule ext) (metis fun_upd_apply not_Some_eq)

text \<open>Removing a descriptor moves the last slot into its place.\<close>

lemma mgmt_del_fd_polled:
  assumes ok: "fds_ok s" and e: "polled s fd = Some e"
  obtains rc s' where "mgmt_del_fd fd s = Some (rc, s')" "fds_ok s'" "polled s' = (polled s)(fd := None)"
    "max_fds s' = max_fds s"
proof -
  obtain i where i: "i < nat (count_pollfds s)" "p_fd (pollfds s ! i) = fd" "fd_lookup s ! nat fd = int i" "0 \<le> fd"
    "fd < max_fds s" using e by (rule polled_SomeD [OF ok])
  define n where "n = nat (count_pollfds s) - 1"
  have n: "count_pollfds s = int n + 1" "n < nat (count_pollfds s)" "i \<le> n" using i(1) by (auto simp: n_def)
  show thesis
  proof (cases "n = 0")
    case True
    let ?s = "s\<lparr>count_pollfds := 0\<rparr>"
    have "mgmt_del_fd fd s = Some (-1, ?s)" using n True by (simp add: mgmt_del_fd_def)
    moreover have "fds_ok ?s" using ok by (simp add: fds_ok_def)
    moreover have "polled ?s = (polled s)(fd := None)"
      using n True i by (intro map_upd_None_iff) (auto simp: polled_iff [OF ok] polled_iff [OF \<open>fds_ok ?s\<close>])
    ultimately show thesis by (intro that [of "-1" ?s]) auto
  next
    case False
    let ?last = "pollfds s ! n"
    let ?s = "s\<lparr>count_pollfds := int n, pollfds := (pollfds s)[i := ?last],
      fd_lookup := (fd_lookup s)[nat (p_fd ?last) := int i]\<rparr>"
    note last = fds_slot [OF ok n(2)]
    have len: "length (pollfds s) = nat (max_fds s)" "length (fd_lookup s) = nat (max_fds s)"
      "nat (count_pollfds s) \<le> nat (max_fds s)" using ok by (auto simp: fds_ok_def)
    have "n < nat (max_fds s)" "i < nat (max_fds s)" "nat fd < nat (max_fds s)" "nat (p_fd ?last) < nat (max_fds s)"
      using n(2) i(1,4,5) len(3) last by auto
    then have eq: "mgmt_del_fd fd s = Some (0, ?s)"
      using n(1) False i(3,4) len last by (simp add: mgmt_del_fd_def access_simps)
    have ok': "fds_ok ?s" unfolding fds_ok_def
    proof (intro conjI allI impI)
      fix j assume "j < nat (count_pollfds ?s)"
      then have j: "j < n" by simp
      then have js: "j < nat (count_pollfds s)" using n by simp
      show "0 \<le> p_fd (pollfds ?s ! j)" "p_fd (pollfds ?s ! j) < max_fds ?s"
        using j i(1) len fds_slot [OF ok js] last by (auto simp: nth_list_update)
      show "fd_lookup ?s ! nat (p_fd (pollfds ?s ! j)) = int j"
      proof (cases "j = i")
        case True
        then show ?thesis using i(1) len last by simp
      next
        case False
        then have "p_fd (pollfds s ! j) \<noteq> p_fd ?last" using fds_inj [OF ok js n(2)] j by auto
        then show ?thesis using False fds_slot [OF ok js] last by (simp add: nat_eq_iff2 nth_list_update eq_nat_nat_iff)
      qed
    qed (use ok n in \<open>auto simp: fds_ok_def\<close>)
    have "polled ?s = (polled s)(fd := None)"
    proof (rule map_upd_None_iff)
      fix x e
      have slots: "polled ?s x = Some e \<longleftrightarrow>
        (\<exists>j<n. p_fd ((pollfds s)[i := ?last] ! j) = x \<and>
          e = (p_events ((pollfds s)[i := ?last] ! j), p_revents ((pollfds s)[i := ?last] ! j)))"
        using polled_iff [OF ok', of x e] by simp
      have il: "i < length (pollfds s)" using i(1) len by simp
      show "polled ?s x = Some e \<longleftrightarrow> x \<noteq> fd \<and> polled s x = Some e"
      proof
        assume "polled ?s x = Some e"
        then obtain j where j: "j < n" "p_fd ((pollfds s)[i := ?last] ! j) = x"
          "e = (p_events ((pollfds s)[i := ?last] ! j), p_revents ((pollfds s)[i := ?last] ! j))" using slots by blast
        define k where "k = (if j = i then n else j)"
        have k: "k < nat (count_pollfds s)" "k \<noteq> i" "(pollfds s)[i := ?last] ! j = pollfds s ! k"
          using j(1) n il by (auto simp: k_def)
        then have "x \<noteq> fd" using fds_inj [OF ok k(1) i(1)] i(2) j(2) by auto
        with j k show "x \<noteq> fd \<and> polled s x = Some e" unfolding polled_iff [OF ok] by auto
      next
        assume "x \<noteq> fd \<and> polled s x = Some e"
        then obtain k where k: "k < nat (count_pollfds s)" "p_fd (pollfds s ! k) = x"
          "e = (p_events (pollfds s ! k), p_revents (pollfds s ! k))" "x \<noteq> fd" unfolding polled_iff [OF ok] by auto
        then have "k \<noteq> i" using i(2) by auto
        define j where "j = (if k = n then i else k)"
        have "j < n" "(pollfds s)[i := ?last] ! j = pollfds s ! k"
          using k(1) \<open>k \<noteq> i\<close> n il by (auto simp: j_def)
        then show "polled ?s x = Some e" unfolding slots using k by auto
      qed
    qed
    then show thesis using eq ok' by (intro that [of 0 ?s]) auto
  qed
qed


lemma change_events_polled:
  assumes ok: "fds_ok s" and e: "polled s fd = Some e"
  obtains s' where "callback_http (Change_Mode_Poll_Fd fd ev) s = Some (0, s')" "fds_ok s'"
    "polled s' = (polled s)(fd \<mapsto> (ev, snd e))" "max_fds s' = max_fds s"
proof -
  obtain i where i: "i < nat (count_pollfds s)" "p_fd (pollfds s ! i) = fd" "fd_lookup s ! nat fd = int i" "0 \<le> fd"
    "fd < max_fds s" "e = (p_events (pollfds s ! i), p_revents (pollfds s ! i))" using e by (rule polled_SomeD [OF ok])
  let ?s = "s\<lparr>pollfds := (pollfds s)[i := (pollfds s ! i)\<lparr>p_events := ev\<rparr>]\<rparr>"
  have len: "i < length (pollfds s)" "nat fd < length (fd_lookup s)" using ok i(1,4,5) by (auto simp: fds_ok_def)
  then have eq: "callback_http (Change_Mode_Poll_Fd fd ev) s = Some (0, ?s)"
    using i(3,4) by (simp add: callback_http_def upd_pfd_def access_simps)
  have fd': "p_fd (pollfds ?s ! j) = p_fd (pollfds s ! j)" for j using len by (cases "j = i") auto
  then have "fds_ok ?s" using ok by (simp add: fds_ok_def)
  moreover have "polled ?s = (polled s)(fd \<mapsto> (ev, snd e))"
  proof
    fix x
    show "polled ?s x = ((polled s)(fd \<mapsto> (ev, snd e))) x"
    proof (cases "x = fd")
      case True
      then show ?thesis using polled_slot [OF \<open>fds_ok ?s\<close>, of i] i len by simp
    next
      case False
      have "nat (fd_lookup s ! nat x) \<noteq> i" if "p_fd (pollfds s ! nat (fd_lookup s ! nat x)) = x"
        using that i(2) False by auto
      then show ?thesis using False fd' by (auto simp: polled_def Let_def)
    qed
  qed
  ultimately show thesis using eq that by simp
qed

section \<open>Sequences of callbacks\<close>

text \<open>What the callbacks do to the map of polled descriptors; \<open>None\<close> is a call the library does not make: it
  adds a descriptor it has added already, or names one that is not polled.\<close>

type_synonym poll_map = "int \<times> (int \<rightharpoonup> u16 \<times> u16)"

fun poll_spec :: "poll_reason \<Rightarrow> poll_map \<Rightarrow> poll_map option" where
  "poll_spec (Add_Poll_Fd fd ev) (n, m) =
     (if fd < 0 then None else if n \<le> fd then Some (n, m)
      else if m fd = None then Some (n, m(fd \<mapsto> (ev, 0))) else None)"
| "poll_spec (Del_Poll_Fd fd) (n, m) = (if m fd = None then None else Some (n, m(fd := None)))"
| "poll_spec (Change_Mode_Poll_Fd fd ev) (n, m) = map_option (\<lambda>e. (n, m(fd \<mapsto> (ev, snd e)))) (m fd)"
| "poll_spec Other_Poll (n, m) = Some (n, m)"

definition polls :: "mgmt \<Rightarrow> poll_map \<Rightarrow> bool" where
  "polls s pm \<longleftrightarrow> fds_ok s \<and> pm = (max_fds s, polled s)"

definition poll_step :: "poll_reason \<Rightarrow> mgmt \<Rightarrow> mgmt option" where
  "poll_step r s = map_option snd (callback_http r s)"

lemma poll_step_refines:
  assumes "polls s pm" "poll_spec r pm = Some pm'"
  shows "\<exists>s'. poll_step r s = Some s' \<and> polls s' pm'"
proof (cases r)
  case (Add_Poll_Fd fd ev)
  note ok = assms(1) [unfolded polls_def]
  show ?thesis
  proof (cases "max_fds s \<le> fd")
    case True
    then show ?thesis using assms Add_Poll_Fd
      by (auto simp: polls_def poll_step_def callback_http_def mgmt_add_fd_def split: if_splits)
  next
    case False
    then have fd: "0 \<le> fd" "fd < max_fds s" "polled s fd = None" and pm': "pm' = (max_fds s, (polled s)(fd \<mapsto> (ev, 0)))"
      using assms Add_Poll_Fd by (auto simp: polls_def split: if_splits)
    obtain s' where "mgmt_add_fd fd ev s = Some (Some (nat (count_pollfds s)), s')" "fds_ok s'"
      "polled s' = (polled s)(fd \<mapsto> (ev, 0))" "max_fds s' = max_fds s"
      by (rule mgmt_add_fd_polled [OF conjunct1 [OF ok] fd])
    then show ?thesis using Add_Poll_Fd pm' by (simp add: polls_def poll_step_def callback_http_def)
  qed
next
  case (Del_Poll_Fd fd)
  then obtain e where e: "polled s fd = Some e" and pm': "pm' = (max_fds s, (polled s)(fd := None))"
    using assms by (auto simp: polls_def split: if_splits)
  obtain rc s' where "mgmt_del_fd fd s = Some (rc, s')" "fds_ok s'" "polled s' = (polled s)(fd := None)"
    "max_fds s' = max_fds s"
    using assms(1) by (auto simp: polls_def intro: mgmt_del_fd_polled [OF _ e])
  then show ?thesis using Del_Poll_Fd pm' by (simp add: polls_def poll_step_def callback_http_def)
next
  case (Change_Mode_Poll_Fd fd ev)
  then obtain e where e: "polled s fd = Some e" and pm': "pm' = (max_fds s, (polled s)(fd \<mapsto> (ev, snd e)))"
    using assms by (auto simp: polls_def split: if_splits)
  obtain s' where "callback_http (Change_Mode_Poll_Fd fd ev) s = Some (0, s')" "fds_ok s'"
    "polled s' = (polled s)(fd \<mapsto> (ev, snd e))" "max_fds s' = max_fds s"
    using assms(1) by (auto simp: polls_def intro: change_events_polled [OF _ e])
  then show ?thesis using Change_Mode_Poll_Fd pm' by (simp add: polls_def poll_step_def)
next
  case Other_Poll
  then show ?thesis using assms by (simp add: poll_step_def callback_http_def polls_def)
qed

interpretation poll_table: simulation polls poll_step poll_spec
  by unfold_locales (rule poll_step_refines)

text \<open>C17: For every sequence of poll callbacks that adds no descriptor twice and names only polled ones, the
  slots of the poll table are exactly the descriptors of the map the sequence builds, with their events,
  each looked up at its own slot; no access leaves the tables, however many descriptors are added.\<close>

theorem poll_table_is_map:
  assumes "fds_ok s" "run_steps poll_spec rs (max_fds s, polled s) = Some (n, m)"
  shows "\<exists>s'. run_steps poll_step rs s = Some s' \<and> fds_ok s' \<and> polled s' = m"
  using poll_table.run [of s "(max_fds s, polled s)" rs "(n, m)"] assms by (auto simp: polls_def)

lemma poll_table_is_map_witness:
  "\<exists>s'. run_steps poll_step [Add_Poll_Fd 3 1, Add_Poll_Fd 7 1, Change_Mode_Poll_Fd 3 5, Del_Poll_Fd 3]
      ((zero_mgmt (\<lambda>_. \<lparr>a_ret = 0, a_errno = 0, a_data = []\<rparr>) [])\<lparr>max_fds := 10,
        pollfds := replicate 10 \<lparr>p_fd = 0, p_events = 0, p_revents = 0\<rparr>, fd_lookup := replicate 10 0\<rparr>) = Some s' \<and>
     fds_ok s' \<and> polled s' = [7 \<mapsto> (1, 0)]"
proof -
  let ?s = "(zero_mgmt (\<lambda>_. \<lparr>a_ret = 0, a_errno = 0, a_data = []\<rparr>) [])\<lparr>max_fds := 10,
    pollfds := replicate 10 \<lparr>p_fd = 0, p_events = 0, p_revents = 0\<rparr>, fd_lookup := replicate 10 0\<rparr>"
  have "fds_ok ?s" by (simp add: fds_ok_def zero_mgmt_def)
  moreover have "polled ?s = Map.empty" by (rule ext) (simp add: polled_def zero_mgmt_def Let_def)
  moreover have "max_fds ?s = 10" by simp
  moreover have "run_steps poll_spec [Add_Poll_Fd 3 1, Add_Poll_Fd 7 1, Change_Mode_Poll_Fd 3 5, Del_Poll_Fd 3]
      (10, Map.empty) = Some (10, [7 \<mapsto> (1, 0)])"
    by (simp add: fun_upd_twist [of 3 7])
  ultimately show ?thesis
    using poll_table_is_map [of ?s "[Add_Poll_Fd 3 1, Add_Poll_Fd 7 1, Change_Mode_Poll_Fd 3 5, Del_Poll_Fd 3]" 10
        "[7 \<mapsto> (1, 0)]"] by metis
qed

end
