(* ===== verification/Tunnel_Contexts.thy ===== *)
theory Tunnel_Contexts
  imports Poll_Table
begin

text \<open>
  Invariants of the request contexts: the timeout list is sorted, every context on it owns a polled socket
  that leads back to it, and expired contexts, those and no others, are released.
\<close>

section \<open>Reading through updates\<close>

named_theorems state_simps \<open>what an update of one part of the state leaves alone\<close>

definition same_fds :: "mgmt \<Rightarrow> mgmt \<Rightarrow> bool" where
  "same_fds s s' \<longleftrightarrow> max_fds s' = max_fds s \<and> pollfds s' = pollfds s \<and> fd_lookup s' = fd_lookup s \<and>
     count_pollfds s' = count_pollfds s"

lemma same_fds: "same_fds s s' \<Longrightarrow> fds_ok s' = fds_ok s" "same_fds s s' \<Longrightarrow> polled s' = polled s"
  by (simp_all add: same_fds_def fds_ok_def polled_def Let_def fun_eq_iff cong: if_cong)

lemmas upd_defs = upd_ctx_def upd_hb_def upd_buf_def set_bl_def set_cl_def bl_splice_init_def bl_add_def
  free_buf_def cl_add_def cl_del_def free_context_def drop_ready_def

lemma mgmt_del_fd_frame:
  "mgmt_del_fd fd s = Some (rc, s') \<Longrightarrow>
   s' = s\<lparr>count_pollfds := count_pollfds s', pollfds := pollfds s', fd_lookup := fd_lookup s'\<rparr>"
  by (auto simp: mgmt_del_fd_def Let_def bind_eq_Some_conv split: if_splits)

section \<open>The invariant\<close>

definition timeouts_ok :: "mgmt \<Rightarrow> bool" where
  "timeouts_ok s \<longleftrightarrow> sorted (map (\<lambda>c. c_timeout (ctxs s c)) (list_timeout s)) \<and> distinct (list_timeout s) \<and>
     (\<forall>c. c_tlinked (ctxs s c) \<longleftrightarrow> c \<in> set (list_timeout s))"

text \<open>A context in use: on the ready list exactly when its status says so, with a polled socket of its own
  that leads back to it; the buffer it reads into is on no list and no other context reads into it.\<close>

definition live_context :: "mgmt \<Rightarrow> nat \<Rightarrow> bool" where
  "live_context s c \<longleftrightarrow>
     (c_linked (ctxs s c) \<longleftrightarrow> c_status (ctxs s c) = CALLING_READY) \<and>
     0 < c_sockfd (ctxs s c) \<and> c_sockfd (ctxs s c) < max_fds s \<and> polled s (c_sockfd (ctxs s c)) \<noteq> None \<and>
     http_lookup s ! nat (c_sockfd (ctxs s c)) = Some (Http c) \<and>
     (\<forall>b. curr (hbufs s (Ctx_Read c)) = Some b \<longrightarrow> \<not> b_linked (bufs s b) \<and>
        (\<forall>d. curr (hbufs s (Ctx_Read d)) = Some b \<longrightarrow> d \<in> set (list_timeout s) \<longrightarrow> d = c))"

definition contexts_ok :: "mgmt \<Rightarrow> bool" where
  "contexts_ok s \<longleftrightarrow> fds_ok s \<and> length (http_lookup s) = nat (max_fds s) \<and> timeouts_ok s \<and>
     (\<forall>c \<in> set (list_timeout s). live_context s c)"

lemma contexts_ok_same:
  assumes "same_fds s s'" "http_lookup s' = http_lookup s" "list_timeout s' = list_timeout s" "ctxs s' = ctxs s"
    "hbufs s' = hbufs s" "bufs s' = bufs s"
  shows "contexts_ok s' = contexts_ok s"
proof -
  have "max_fds s' = max_fds s" using assms(1) by (simp add: same_fds_def)
  then show ?thesis
    by (simp add: contexts_ok_def live_context_def timeouts_ok_def same_fds [OF assms(1)] assms(2-6))
qed

lemma timeout_insert_sorted:
  "sorted (map t xs) \<Longrightarrow> sorted (map t (timeout_insert t c xs))"
  "set (timeout_insert t c xs) = insert c (set xs)"
  "distinct (timeout_insert t c xs) \<longleftrightarrow> c \<notin> set xs \<and> distinct xs"
proof -
  show set: "set (timeout_insert t c xs) = insert c (set xs)" for xs by (induction xs) auto
  show "sorted (map t xs) \<Longrightarrow> sorted (map t (timeout_insert t c xs))"
    by (induction xs) (auto simp: set)
  show "distinct (timeout_insert t c xs) \<longleftrightarrow> c \<notin> set xs \<and> distinct xs"
    by (induction xs) (auto simp: set)
qed

lemma insert_timeout_ok:
  assumes "timeouts_ok s" "c \<notin> set (list_timeout s)"
  obtains s' where "insert_timeout c s = Some s'" "timeouts_ok s'" "set (list_timeout s') = insert c (set (list_timeout s))"
proof -
  let ?t = "\<lambda>c. c_timeout (ctxs s c)"
  let ?s = "upd_ctx c (c_tlinked_update (\<lambda>_. True)) (s\<lparr>list_timeout := timeout_insert ?t c (list_timeout s)\<rparr>)"
  have "insert_timeout c s = Some ?s" using assms by (simp add: insert_timeout_def timeouts_ok_def)
  moreover have "(\<lambda>d. c_timeout (ctxs ?s d)) = ?t" by (auto simp: upd_ctx_def)
  then have "timeouts_ok ?s" using assms by (auto simp: timeouts_ok_def upd_ctx_def timeout_insert_sorted)
  ultimately show thesis using that by (simp add: upd_ctx_def timeout_insert_sorted)
qed

section \<open>Release\<close>

text \<open>The buffers of a request: the one it reads into and those on its two lists.\<close>

definition bufs_of :: "mgmt \<Rightarrow> nat \<Rightarrow> nat set" where
  "bufs_of s c = set_option (curr (hbufs s (Ctx_Read c))) \<union> set (blists s (Ctx_Read c)) \<union> set (blists s (Ctx_Write c))"

text \<open>What a context needs to be released, apart from its place on the timeout list.\<close>

lemma release_socket_live:
  assumes ok: "fds_ok s" "length (http_lookup s) = nat (max_fds s)"
    and fd: "c_sockfd (ctxs s c) = fd" "0 < fd" "fd < max_fds s" "polled s fd \<noteq> None"
  obtains s' where "release_socket c s = Some s'" "fds_ok s'" "polled s' = (polled s)(fd := None)" "max_fds s' = max_fds s"
    "http_lookup s' = (http_lookup s)[nat fd := None]" "ctxs s' = (ctxs s)(c := (ctxs s c)\<lparr>c_sockfd := -1\<rparr>)"
    "hbufs s' = hbufs s" "bufs s' = bufs s" "blists s' = blists s" "list_timeout s' = list_timeout s"
    "clists s' = clists s" "calls s' = calls s @ [Close fd]"
proof -
  let ?s = "s\<lparr>calls := calls s @ [Close fd]\<rparr>"
  have "same_fds s ?s" by (simp add: same_fds_def)
  note same = same_fds [OF this]
  obtain e where e: "polled ?s fd = Some e" using fd(4) unfolding same by auto
  obtain rc s3 where s3: "mgmt_del_fd fd ?s = Some (rc, s3)" "fds_ok s3" "polled s3 = (polled ?s)(fd := None)"
    "max_fds s3 = max_fds ?s" using ok(1) unfolding same(1) [symmetric] by (rule mgmt_del_fd_polled [OF _ e])
  have s3': "s3 = ?s\<lparr>count_pollfds := count_pollfds s3, pollfds := pollfds s3, fd_lookup := fd_lookup s3\<rparr>"
    by (rule mgmt_del_fd_frame [OF s3(1)])
  have f3: "http_lookup s3 = http_lookup s" "ctxs s3 = ctxs s" "hbufs s3 = hbufs s" "bufs s3 = bufs s" "blists s3 = blists s"
    "list_timeout s3 = list_timeout s" "clists s3 = clists s" "calls s3 = calls s @ [Close fd]" by (subst s3', simp)+
  let ?s' = "upd_ctx c (c_sockfd_update (\<lambda>_. -1)) (s3\<lparr>http_lookup := (http_lookup s)[nat fd := None]\<rparr>)"
  have "release_socket c s = Some ?s'"
    using fd ok(2) s3(1) f3 by (simp add: release_socket_def sys_def set_lookup_def access_simps)
  moreover have "same_fds s3 ?s'" by (simp add: same_fds_def upd_ctx_def)
  note same' = same_fds [OF this]
  ultimately show thesis using s3(2-4) f3
    by (intro that [of ?s']) (simp_all add: same same', simp_all add: upd_ctx_def)
qed

lemma release_bufs_live:
  assumes w: "curr (hbufs s (Ctx_Write c)) = None"
    and r: "\<forall>b. curr (hbufs s (Ctx_Read c)) = Some b \<longrightarrow> \<not> b_linked (bufs s b)"
  obtains s' where "release_bufs c s = Some s'" "same_fds s s'" "http_lookup s' = http_lookup s" "ctxs s' = ctxs s"
    "list_timeout s' = list_timeout s" "hbufs s' = (hbufs s)(Ctx_Read c := (hbufs s (Ctx_Read c))\<lparr>curr := None\<rparr>)"
    "\<forall>b. curr (hbufs s (Ctx_Read c)) \<noteq> Some b \<longrightarrow> b_linked (bufs s' b) = b_linked (bufs s b)"
    "clists s' = clists s" "calls s' = calls s" "bufs_of s' c = {}" "\<forall>d. d \<noteq> c \<longrightarrow> bufs_of s' d = bufs_of s d"
    "set (blists s' Buf_Caches) = bufs_of s c \<union> set (blists s Buf_Caches)"
proof (cases "curr (hbufs s (Ctx_Read c))")
  case None
  then have "hbufs s = (hbufs s)(Ctx_Read c := (hbufs s (Ctx_Read c))\<lparr>curr := None\<rparr>)"
    by (cases "hbufs s (Ctx_Read c)") (auto simp: fun_eq_iff)
  with None w show thesis
    by (intro that [of "bl_splice_init (Ctx_Read c) Buf_Caches (bl_splice_init (Ctx_Write c) Buf_Caches s)"])
      (auto simp: release_bufs_def same_fds_def upd_defs bufs_of_def)
next
  case (Some b)
  let ?s = "upd_hb (Ctx_Read c) (curr_update (\<lambda>_. None))
    (set_bl Buf_Caches (b # blists s Buf_Caches) (upd_buf b (b_linked_update (\<lambda>_. True)) s))"
  from Some w r show thesis
    by (intro that [of "bl_splice_init (Ctx_Read c) Buf_Caches (bl_splice_init (Ctx_Write c) Buf_Caches ?s)"])
      (auto simp: release_bufs_def same_fds_def upd_defs bufs_of_def)
qed

lemma release_node_live:
  assumes "c_tlinked (ctxs s c)" "\<not> c_linked (ctxs s c)"
  obtains s' where "release_node c s = Some s'" "same_fds s s'" "http_lookup s' = http_lookup s"
    "ctxs s' = (ctxs s)(c := (ctxs s c)\<lparr>c_tlinked := False, c_linked := True\<rparr>)" "hbufs s' = hbufs s" "bufs s' = bufs s"
    "list_timeout s' = remove1 c (list_timeout s)" "blists s' = blists s" "calls s' = calls s"
    "clists s' Ctx_Caches = c # clists s Ctx_Caches"
  using assms by (intro that [of "(set_cl Ctx_Caches (c # clists s Ctx_Caches)
      (upd_ctx c (\<lambda>x. x\<lparr>c_tlinked := False, c_linked := True\<rparr>)
        (s\<lparr>list_timeout := remove1 c (list_timeout s)\<rparr>)))\<lparr>total_process := total_process s + 1\<rparr>"])
    (simp_all add: release_node_def upd_defs same_fds_def)


lemma drop_ready_live:
  assumes "c_linked (ctxs s c) \<longleftrightarrow> c_status (ctxs s c) = CALLING_READY"
  obtains s' where "drop_ready c s = Some s'" "same_fds s s'" "http_lookup s' = http_lookup s"
    "ctxs s' = (ctxs s)(c := (ctxs s c)\<lparr>c_linked := False\<rparr>)" "hbufs s' = hbufs s" "bufs s' = bufs s"
    "list_timeout s' = list_timeout s" "blists s' = blists s" "calls s' = calls s"
    "\<forall>d. d \<noteq> c \<longrightarrow> (d \<in> set (clists s' Ctx_Caches) \<longleftrightarrow> d \<in> set (clists s Ctx_Caches))"
proof (cases "c_status (ctxs s c) = CALLING_READY")
  case True
  then show thesis using assms
    by (intro that [of "(upd_ctx c (c_linked_update (\<lambda>_. False)) (s\<lparr>clists := (\<lambda>l. remove1 c (clists s l))\<rparr>))
        \<lparr>ready_len := ready_len s - 1\<rparr>"]) (simp_all add: upd_defs same_fds_def)
next
  case False
  then have "(ctxs s)(c := (ctxs s c)\<lparr>c_linked := False\<rparr>) = ctxs s"
    using assms by (cases "ctxs s c") (auto simp: fun_eq_iff)
  with False show thesis by (intro that [of s]) (simp_all add: drop_ready_def same_fds_def)
qed

text \<open>What it means that the contexts \<open>cs\<close> of a state are released: their sockets are closed, in this order, and nobody
  else's; no closed descriptor is polled or looked up any more, and all others are as before; the contexts are
  back in the pool, all their buffers too, and nothing else of the contexts changed.\<close>

definition released :: "mgmt \<Rightarrow> nat list \<Rightarrow> mgmt \<Rightarrow> bool" where
  "released s cs s' \<longleftrightarrow>
     calls s' = calls s @ map (\<lambda>c. Close (c_sockfd (ctxs s c))) cs \<and>
     polled s' = (\<lambda>fd. if fd \<in> (\<lambda>c. c_sockfd (ctxs s c)) ` set cs then None else polled s fd) \<and>
     length (http_lookup s') = length (http_lookup s) \<and>
     (\<forall>i < length (http_lookup s). http_lookup s' ! i =
        (if i \<in> (\<lambda>c. nat (c_sockfd (ctxs s c))) ` set cs then None else http_lookup s ! i)) \<and>
     (\<forall>c. ctxs s' c = (if c \<in> set cs
        then (ctxs s c)\<lparr>c_linked := True, c_tlinked := False, c_status := CALLING_FINISH, c_sockfd := -1\<rparr> else ctxs s c)) \<and>
     (\<forall>c. c \<in> set cs \<or> c \<in> set (clists s Ctx_Caches) \<longrightarrow> c \<in> set (clists s' Ctx_Caches)) \<and>
     set (blists s' Buf_Caches) = (\<Union>c \<in> set cs. bufs_of s c) \<union> set (blists s Buf_Caches) \<and>
     (\<forall>c. bufs_of s' c = (if c \<in> set cs then {} else bufs_of s c))"

lemma released_none: "released s [] s"
  by (simp add: released_def)

lemma released_Cons:
  assumes a: "released s [c] s1" and b: "released s1 cs s'" and c: "c \<notin> set cs"
  shows "released s (c # cs) s'"
proof -
  have cx: "ctxs s1 d = ctxs s d" "bufs_of s1 d = bufs_of s d" if "d \<in> set cs" for d using a c that by (auto simp: released_def)
  have sock: "map (\<lambda>d. Close (c_sockfd (ctxs s1 d))) cs = map (\<lambda>d. Close (c_sockfd (ctxs s d))) cs"
    "(\<lambda>d. c_sockfd (ctxs s1 d)) ` set cs = (\<lambda>d. c_sockfd (ctxs s d)) ` set cs"
    "(\<lambda>d. nat (c_sockfd (ctxs s1 d))) ` set cs = (\<lambda>d. nat (c_sockfd (ctxs s d))) ` set cs"
    "(\<Union>d \<in> set cs. bufs_of s1 d) = (\<Union>d \<in> set cs. bufs_of s d)"
    using cx by (simp_all cong: map_cong image_cong)
  show ?thesis using a b c unfolding released_def sock by (auto simp: fun_eq_iff)
qed

text \<open>A context that is not in the middle of a write is released, and the invariant holds for the others.\<close>

lemma release_live:
  assumes ok: "contexts_ok s" and c: "c \<in> set (list_timeout s)" and w: "curr (hbufs s (Ctx_Write c)) = None"
  obtains s' where "Option.bind (drop_ready c s) (http_context_release c) = Some s'" "contexts_ok s'"
    "list_timeout s' = remove1 c (list_timeout s)"
    "\<forall>d. d \<noteq> c \<longrightarrow> ctxs s' d = ctxs s d \<and> hbufs s' (Ctx_Write d) = hbufs s (Ctx_Write d)" "released s [c] s'"
proof -
  let ?fd = "c_sockfd (ctxs s c)"
  have live: "live_context s c" using ok c by (simp add: contexts_ok_def)
  have base: "fds_ok s" "length (http_lookup s) = nat (max_fds s)" "timeouts_ok s" using ok by (auto simp: contexts_ok_def)
  obtain s1 where s1: "drop_ready c s = Some s1" "same_fds s s1" "http_lookup s1 = http_lookup s"
    "ctxs s1 = (ctxs s)(c := (ctxs s c)\<lparr>c_linked := False\<rparr>)" "hbufs s1 = hbufs s" "bufs s1 = bufs s"
    "list_timeout s1 = list_timeout s" "blists s1 = blists s" "calls s1 = calls s"
    "\<forall>d. d \<noteq> c \<longrightarrow> (d \<in> set (clists s1 Ctx_Caches) \<longleftrightarrow> d \<in> set (clists s Ctx_Caches))"
    using live by (auto simp: live_context_def intro: drop_ready_live)
  let ?s1 = "upd_ctx c (c_status_update (\<lambda>_. CALLING_FINISH)) s1"
  have f1: "same_fds s ?s1" using s1(2) by (simp add: same_fds_def upd_ctx_def)
  note same1 = same_fds [OF f1]
  have m1: "max_fds ?s1 = max_fds s" using f1 by (simp add: same_fds_def)
  have fd: "0 < ?fd" "?fd < max_fds s" "polled s ?fd \<noteq> None" using live by (auto simp: live_context_def)
  have p1: "fds_ok ?s1" "length (http_lookup ?s1) = nat (max_fds ?s1)" "c_sockfd (ctxs ?s1 c) = ?fd"
    "?fd < max_fds ?s1" "polled ?s1 ?fd \<noteq> None"
    using base fd s1 same1 m1 by (simp_all add: upd_ctx_def)
  obtain s2 where s2: "release_socket c ?s1 = Some s2" "fds_ok s2" "polled s2 = (polled ?s1)(?fd := None)"
    "max_fds s2 = max_fds ?s1" "http_lookup s2 = (http_lookup ?s1)[nat ?fd := None]"
    "ctxs s2 = (ctxs ?s1)(c := (ctxs ?s1 c)\<lparr>c_sockfd := -1\<rparr>)" "hbufs s2 = hbufs ?s1" "bufs s2 = bufs ?s1"
    "blists s2 = blists ?s1" "list_timeout s2 = list_timeout ?s1"
    "clists s2 = clists ?s1" "calls s2 = calls ?s1 @ [Close ?fd]"
    by (rule release_socket_live [OF p1(1,2,3) fd(1) p1(4,5)])
  have h2: "hbufs s2 = hbufs s" "bufs s2 = bufs s" using s1 s2 by (simp_all add: upd_ctx_def)
  have w2: "curr (hbufs s2 (Ctx_Write c)) = None" using w h2 by simp
  have r2: "\<forall>b. curr (hbufs s2 (Ctx_Read c)) = Some b \<longrightarrow> \<not> b_linked (bufs s2 b)"
    using live h2 by (simp add: live_context_def)
  obtain s3 where s3: "release_bufs c s2 = Some s3" "same_fds s2 s3" "http_lookup s3 = http_lookup s2" "ctxs s3 = ctxs s2"
    "list_timeout s3 = list_timeout s2" "hbufs s3 = (hbufs s2)(Ctx_Read c := (hbufs s2 (Ctx_Read c))\<lparr>curr := None\<rparr>)"
    "\<forall>b. curr (hbufs s2 (Ctx_Read c)) \<noteq> Some b \<longrightarrow> b_linked (bufs s3 b) = b_linked (bufs s2 b)"
    "clists s3 = clists s2" "calls s3 = calls s2" "bufs_of s3 c = {}" "\<forall>d. d \<noteq> c \<longrightarrow> bufs_of s3 d = bufs_of s2 d"
    "set (blists s3 Buf_Caches) = bufs_of s2 c \<union> set (blists s2 Buf_Caches)"
    by (rule release_bufs_live [OF w2 r2])
  have c3: "ctxs s3 = (ctxs s)(c := (ctxs s c)\<lparr>c_linked := False, c_status := CALLING_FINISH, c_sockfd := -1\<rparr>)"
    using s1 s2 s3 by (simp add: upd_ctx_def)
  have t3: "c_tlinked (ctxs s3 c)" "\<not> c_linked (ctxs s3 c)" using base(3) c c3 by (simp_all add: timeouts_ok_def)
  obtain s4 where s4: "release_node c s3 = Some s4" "same_fds s3 s4" "http_lookup s4 = http_lookup s3"
    "ctxs s4 = (ctxs s3)(c := (ctxs s3 c)\<lparr>c_tlinked := False, c_linked := True\<rparr>)" "hbufs s4 = hbufs s3"
    "bufs s4 = bufs s3" "list_timeout s4 = remove1 c (list_timeout s3)" "blists s4 = blists s3" "calls s4 = calls s3"
    "clists s4 Ctx_Caches = c # clists s3 Ctx_Caches"
    by (rule release_node_live [OF t3])
  have run: "Option.bind (drop_ready c s) (http_context_release c) = Some s4"
    using s1(1) s2(1) s3(1) s4(1) by (simp add: http_context_release_def)
  have lt: "list_timeout s4 = remove1 c (list_timeout s)" using s1 s2 s3 s4 by (simp add: upd_ctx_def)
  have cx: "ctxs s4 d = ctxs s d" if "d \<noteq> c" for d using that c3 s4 by simp
  have tl: "\<not> c_tlinked (ctxs s4 c)" using s4 by simp
  have hb: "hbufs s4 = (hbufs s)(Ctx_Read c := (hbufs s (Ctx_Read c))\<lparr>curr := None\<rparr>)" using s3 s4 h2 by simp
  have bl: "b_linked (bufs s4 b) = b_linked (bufs s b)" if "curr (hbufs s (Ctx_Read c)) \<noteq> Some b" for b
    using that s3 s4 h2 by simp
  have "same_fds s2 s4" using s3(2) s4(2) by (simp add: same_fds_def)
  note same4 = same_fds [OF this]
  have f4: "fds_ok s4" "polled s4 = (polled s)(?fd := None)" "max_fds s4 = max_fds s"
    using same4 s2 same1 m1 s3(2) s4(2) by (simp_all add: same_fds_def)
  have hl: "http_lookup s4 = (http_lookup s)[nat ?fd := None]" using s1 s2 s3 s4 by (simp add: upd_ctx_def)
  have dist: "distinct (list_timeout s)" using base(3) by (simp add: timeouts_ok_def)
  have set4: "set (list_timeout s4) = set (list_timeout s) - {c}" using lt dist by simp
  have timeouts: "timeouts_ok s4"
  proof -
    have m: "map (\<lambda>d. c_timeout (ctxs s4 d)) (remove1 c (list_timeout s)) = map (\<lambda>d. c_timeout (ctxs s d)) (remove1 c (list_timeout s))"
      using cx dist by (intro map_cong) auto
    have "sorted (map (\<lambda>d. c_timeout (ctxs s d)) (remove1 c (list_timeout s)))"
      using base(3) by (simp add: timeouts_ok_def sorted_map_remove1)
    then have "sorted (map (\<lambda>d. c_timeout (ctxs s4 d)) (list_timeout s4))" by (simp only: lt m)
    moreover have "c_tlinked (ctxs s4 d) \<longleftrightarrow> d \<in> set (list_timeout s4)" for d
      using base(3) cx tl set4 by (cases "d = c") (auto simp: timeouts_ok_def)
    ultimately show ?thesis using dist lt by (simp add: timeouts_ok_def)
  qed
  have "live_context s4 d" if d: "d \<in> set (list_timeout s4)" for d
  proof -
    have d': "d \<in> set (list_timeout s)" "d \<noteq> c" using d set4 by auto
    then have ld: "live_context s d" using ok by (simp add: contexts_ok_def)
    have ne: "c_sockfd (ctxs s d) \<noteq> ?fd" using ld live d'(2) by (auto simp: live_context_def)
    then have nn: "nat (c_sockfd (ctxs s d)) \<noteq> nat ?fd" using ld fd by (auto simp: live_context_def)
    have L: "c_linked (ctxs s d) \<longleftrightarrow> c_status (ctxs s d) = CALLING_READY" "0 < c_sockfd (ctxs s d)"
      "c_sockfd (ctxs s d) < max_fds s" "polled s (c_sockfd (ctxs s d)) \<noteq> None"
      "http_lookup s ! nat (c_sockfd (ctxs s d)) = Some (Http d)"
      "\<And>b. curr (hbufs s (Ctx_Read d)) = Some b \<Longrightarrow> \<not> b_linked (bufs s b)"
      "\<And>b e. curr (hbufs s (Ctx_Read d)) = Some b \<Longrightarrow> curr (hbufs s (Ctx_Read e)) = Some b \<Longrightarrow>
         e \<in> set (list_timeout s) \<Longrightarrow> e = d"
      using ld unfolding live_context_def by blast+
    have cd: "curr (hbufs s (Ctx_Read c)) \<noteq> Some b" if "curr (hbufs s (Ctx_Read d)) = Some b" for b
      using L(7) [OF that _ c] d'(2) by blast
    have cur: "curr (hbufs s4 (Ctx_Read e)) = (if e = c then None else curr (hbufs s (Ctx_Read e)))" for e
      using hb by simp
    have "polled s4 (c_sockfd (ctxs s d)) \<noteq> None" using L(4) f4(2) ne by simp
    moreover have "http_lookup s4 ! nat (c_sockfd (ctxs s d)) = Some (Http d)" using L(5) hl nn by simp
    moreover have "\<not> b_linked (bufs s4 b)" if "curr (hbufs s (Ctx_Read d)) = Some b" for b
      using bl [OF cd [OF that]] L(6) [OF that] by simp
    moreover have "e = d" if "curr (hbufs s (Ctx_Read d)) = Some b" "curr (hbufs s4 (Ctx_Read e)) = Some b"
      "e \<in> set (list_timeout s4)" for b e
      using L(7) [OF that(1), of e] that(2,3) cur [of e] set4 by (auto split: if_splits)
    ultimately show ?thesis unfolding live_context_def cx [OF d'(2)] f4(3) cur [of d] using L(1-3) d'(2) by auto
  qed
  then have "contexts_ok s4" using f4 hl base(2) timeouts by (simp add: contexts_ok_def)
  moreover have "released s [c] s4"
  proof -
    have cl: "calls s4 = calls s @ [Close ?fd]" using s1(9) s2(12) s3(9) s4(9) by (simp add: upd_ctx_def)
    have cc: "ctxs s4 c = (ctxs s c)\<lparr>c_linked := True, c_tlinked := False, c_status := CALLING_FINISH, c_sockfd := -1\<rparr>"
      using c3 s4(4) by simp
    have pool: "d \<in> set (clists s4 Ctx_Caches)" if "d = c \<or> d \<in> set (clists s Ctx_Caches)" for d
      using that s1(10) s2(11) s3(8) s4(10) by (auto simp: upd_ctx_def)
    have same: "bufs_of s2 d = bufs_of s d" "bufs_of s4 d = bufs_of s3 d" "set (blists s2 Buf_Caches) = set (blists s Buf_Caches)" for d
      using h2 s1(8) s2(9) s4(5,8) by (simp_all add: bufs_of_def upd_ctx_def)
    have bufs: "set (blists s4 Buf_Caches) = bufs_of s c \<union> set (blists s Buf_Caches)" "bufs_of s4 c = {}"
      "d \<noteq> c \<Longrightarrow> bufs_of s4 d = bufs_of s d" for d
      using s3(10-12) same s4(8) by simp_all
    show ?thesis unfolding released_def using cl cc cx pool bufs f4(2) hl fd base(2) by (auto simp: fun_eq_iff nth_list_update)
  qed
  ultimately show thesis using run lt cx hb by (intro that [of s4]) auto
qed


section \<open>Timeouts\<close>

text \<open>A state with one request on socket 3 that is to end at time 5; buffer 7 may be the one it writes.\<close>

definition one_request :: "nat option \<Rightarrow> mgmt" where
  "one_request w = (zero_mgmt (\<lambda>_. \<lparr>a_ret = 9, a_errno = 0, a_data = []\<rparr>) [])
     \<lparr>max_fds := 4, count_pollfds := 1, fd_lookup := [0, 0, 0, 0],
      pollfds := replicate 4 \<lparr>p_fd = 3, p_events = 4, p_revents = 0\<rparr>,
      http_lookup := [None, None, None, Some (Http 0)], list_timeout := [0], ready_len := 1,
      ctxs := (\<lambda>_. zero_context)(0 := zero_context\<lparr>c_linked := True, c_tlinked := True, c_sockfd := 3, c_timeout := 5\<rparr>),
      clists := (\<lambda>_. [])(Ready 0 := [0]), blists := (\<lambda>_. [])(Ctx_Write 0 := [7]),
      bufs := (\<lambda>_. zero_buf)(7 := zero_buf\<lparr>b_linked := True\<rparr>),
      hbufs := (\<lambda>_. zero_hb)(Ctx_Write 0 := zero_hb\<lparr>curr := w\<rparr>)\<rparr>"

lemma one_request_ok: "contexts_ok (one_request w)"
  by (auto simp: contexts_ok_def fds_ok_def timeouts_ok_def live_context_def one_request_def zero_mgmt_def
      zero_context_def zero_hb_def zero_buf_def polled_def nth_Cons' Let_def split: if_splits)

lemma one_request_simps:
  "list_timeout (one_request w) = [0]" "c_timeout (ctxs (one_request w) 0) = 5" "fst (get_time (one_request w)) = 9"
  "curr (hbufs (one_request w) (Ctx_Write 0)) = w" "b_linked (bufs (one_request w) 7)"
  by (simp_all add: one_request_def get_time_def sys_def zero_mgmt_def)

lemma sorted_filter_none:
  "sorted (map t (c # cs)) \<Longrightarrow> now < t c \<Longrightarrow> filter (\<lambda>d. now < t d) (c # cs) = c # cs"
  for t :: "nat \<Rightarrow> int"
  by (rule filter_True) force

lemma release_expired_live:
  assumes "contexts_ok s" "list_timeout s = cs"
    and "\<forall>c \<in> set cs. c_timeout (ctxs s c) \<le> now \<longrightarrow> curr (hbufs s (Ctx_Write c)) = None"
  shows "\<exists>s'. release_expired now cs s = Some s' \<and> contexts_ok s' \<and>
    list_timeout s' = filter (\<lambda>c. now < c_timeout (ctxs s c)) cs \<and> released s (filter (\<lambda>c. c_timeout (ctxs s c) \<le> now) cs) s'"
  using assms
proof (induction cs arbitrary: s)
  case Nil
  then show ?case by (simp add: released_none)
next
  case (Cons c cs)
  have srt: "sorted (map (\<lambda>c. c_timeout (ctxs s c)) (c # cs))" and dist: "distinct (c # cs)"
    using Cons.prems(1,2) by (auto simp: contexts_ok_def timeouts_ok_def)
  show ?case
  proof (cases "now < c_timeout (ctxs s c)")
    case True
    have "filter (\<lambda>c. now < c_timeout (ctxs s c)) (c # cs) = c # cs"
      by (rule sorted_filter_none [OF srt True])
    moreover have "filter (\<lambda>c. c_timeout (ctxs s c) \<le> now) (c # cs) = []" using srt True by (force simp: filter_empty_conv)
    ultimately show ?thesis using True Cons.prems(1,2) released_none [of s] by (simp only: release_expired.simps) auto
  next
    case False
    have c: "c \<in> set (list_timeout s)" "curr (hbufs s (Ctx_Write c)) = None" using Cons.prems(2,3) False by auto
    obtain s1 where s1: "Option.bind (drop_ready c s) (http_context_release c) = Some s1" "contexts_ok s1"
      "list_timeout s1 = remove1 c (list_timeout s)"
      "\<forall>d. d \<noteq> c \<longrightarrow> ctxs s1 d = ctxs s d \<and> hbufs s1 (Ctx_Write d) = hbufs s (Ctx_Write d)" "released s [c] s1"
      by (rule release_live [OF Cons.prems(1) c])
    have cs: "list_timeout s1 = cs" using s1(3) Cons.prems(2) by simp
    have same: "ctxs s1 d = ctxs s d" "hbufs s1 (Ctx_Write d) = hbufs s (Ctx_Write d)" if "d \<in> set cs" for d
      using s1(4) that dist by auto
    obtain s' where s': "release_expired now cs s1 = Some s'" "contexts_ok s'"
      "list_timeout s' = filter (\<lambda>c. now < c_timeout (ctxs s1 c)) cs" "released s1 (filter (\<lambda>c. c_timeout (ctxs s1 c) \<le> now) cs) s'"
      using Cons.IH [OF s1(2) cs] Cons.prems(3) same by auto
    have eq: "filter (\<lambda>c. now < c_timeout (ctxs s1 c)) cs = filter (\<lambda>c. now < c_timeout (ctxs s c)) cs"
      "filter (\<lambda>c. c_timeout (ctxs s1 c) \<le> now) cs = filter (\<lambda>c. c_timeout (ctxs s c) \<le> now) cs"
      using same by (auto intro!: filter_cong)
    have "released s (c # filter (\<lambda>c. c_timeout (ctxs s c) \<le> now) cs) s'"
      by (rule released_Cons [OF s1(5) s'(4) [unfolded eq]]) (use dist in simp)
    then show ?thesis using False s1(1) s' eq by (auto simp: bind_eq_Some_conv)
  qed
qed

text \<open>C18: The timeout run releases exactly the requests whose time is over, wherever they are, as long as none of them
  is in the middle of writing its request: their sockets and no others are closed, no longer polled and no longer
  looked up, they and all their buffers are back in the pools, and the other requests are untouched, the
  timeout list sorted and each of them with its own polled socket.\<close>

theorem run_timeout_releases_expired:
  assumes "contexts_ok s"
    and "\<forall>c \<in> set (list_timeout s). c_timeout (ctxs s c) \<le> fst (get_time s) \<longrightarrow> curr (hbufs s (Ctx_Write c)) = None"
  shows "\<exists>s'. http_mgmt_run_timeout s = Some s' \<and> contexts_ok s' \<and>
    list_timeout s' = filter (\<lambda>c. fst (get_time s) < c_timeout (ctxs s c)) (list_timeout s) \<and>
    released (snd (get_time s)) (filter (\<lambda>c. c_timeout (ctxs s c) \<le> fst (get_time s)) (list_timeout s)) s'"
proof -
  let ?s = "snd (get_time s)"
  have g: "?s = s\<lparr>calls := calls s @ [Time]\<rparr>" by (simp add: get_time_def sys_def)
  have "contexts_ok ?s" using assms(1) by (subst contexts_ok_same [of s]) (simp_all add: g same_fds_def)
  moreover have "list_timeout ?s = list_timeout s" "ctxs ?s = ctxs s" "hbufs ?s = hbufs s" by (simp_all add: g)
  ultimately show ?thesis
    using release_expired_live [of ?s "list_timeout s" "fst (get_time s)"] assms(2)
    by (simp add: http_mgmt_run_timeout_def split_beta)
qed

text \<open>A context that is released while a buffer of its request is being written: the buffer is given back to
  the pool although it still is on the list of the request.\<close>

lemma release_mid_write:
  assumes ok: "contexts_ok s" and c: "c \<in> set (list_timeout s)"
    and w: "curr (hbufs s (Ctx_Write c)) = Some b" "b_linked (bufs s b)"
  shows "Option.bind (drop_ready c s) (http_context_release c) = None"
proof -
  let ?fd = "c_sockfd (ctxs s c)"
  have live: "live_context s c" and base: "fds_ok s" "length (http_lookup s) = nat (max_fds s)"
    using ok c by (auto simp: contexts_ok_def)
  obtain s1 where s1: "drop_ready c s = Some s1" "same_fds s s1" "http_lookup s1 = http_lookup s"
    "ctxs s1 = (ctxs s)(c := (ctxs s c)\<lparr>c_linked := False\<rparr>)" "hbufs s1 = hbufs s" "bufs s1 = bufs s"
    "list_timeout s1 = list_timeout s"
    using live by (auto simp: live_context_def intro: drop_ready_live)
  let ?s1 = "upd_ctx c (c_status_update (\<lambda>_. CALLING_FINISH)) s1"
  have f1: "same_fds s ?s1" using s1(2) by (simp add: same_fds_def upd_ctx_def)
  have m1: "max_fds ?s1 = max_fds s" using f1 by (simp add: same_fds_def)
  have fd: "0 < ?fd" "?fd < max_fds s" "polled s ?fd \<noteq> None" using live by (auto simp: live_context_def)
  have p1: "fds_ok ?s1" "length (http_lookup ?s1) = nat (max_fds ?s1)" "c_sockfd (ctxs ?s1 c) = ?fd"
    "?fd < max_fds ?s1" "polled ?s1 ?fd \<noteq> None"
    using base fd s1 same_fds [OF f1] m1 by (simp_all add: upd_ctx_def)
  obtain s2 where s2: "release_socket c ?s1 = Some s2" "hbufs s2 = hbufs ?s1" "bufs s2 = bufs ?s1"
    by (rule release_socket_live [OF p1(1,2,3) fd(1) p1(4,5)])
  have h2: "hbufs s2 = hbufs s" "bufs s2 = bufs s" using s1 s2 by (simp_all add: upd_ctx_def)
  have "release_bufs c s2 = None"
  proof (cases "curr (hbufs s (Ctx_Read c))")
    case None
    then show ?thesis using w by (simp add: release_bufs_def h2 free_buf_def bl_add_def)
  next
    case (Some a)
    then show ?thesis using w by (simp add: release_bufs_def h2 upd_defs)
  qed
  then show ?thesis using s1(1) s2(1) by (simp add: http_context_release_def)
qed

text \<open>C37: When the first expired request is in the middle of writing a buffer, releasing it adds that buffer to
  the pool while it still is on another list: the lists of buffers are corrupted.\<close>

theorem timeout_mid_write_corrupts:
  assumes "contexts_ok s" "list_timeout s = c # cs" "c_timeout (ctxs s c) \<le> fst (get_time s)"
    and "curr (hbufs s (Ctx_Write c)) = Some b" "b_linked (bufs s b)"
  shows "http_mgmt_run_timeout s = None"
proof -
  let ?s = "snd (get_time s)"
  have g: "?s = s\<lparr>calls := calls s @ [Time]\<rparr>" by (simp add: get_time_def sys_def)
  have "contexts_ok ?s" using assms(1) by (subst contexts_ok_same [of s]) (simp_all add: g same_fds_def)
  then have "Option.bind (drop_ready c ?s) (http_context_release c) = None"
    using assms by (intro release_mid_write [of _ _ b]) (simp_all add: g)
  then show ?thesis using assms(2,3) g by (auto simp: http_mgmt_run_timeout_def split_beta bind_eq_None_conv)
qed


lemma run_timeout_releases_expired_witness:
  "\<exists>s'. http_mgmt_run_timeout (one_request None) = Some s' \<and> contexts_ok s' \<and> list_timeout s' = [] \<and>
     calls s' = [Time, Close 3] \<and> polled s' 3 = None \<and> http_lookup s' ! 3 = None \<and> set (blists s' Buf_Caches) = {7}"
proof -
  let ?s = "one_request None"
  let ?t = "snd (get_time ?s)"
  have t: "c_sockfd (ctxs ?t 0) = 3" "calls ?t = [Time]" "length (http_lookup ?t) = 4" "bufs_of ?t 0 = {7}" "blists ?t Buf_Caches = []"
    by (simp_all add: get_time_def sys_def one_request_def zero_mgmt_def bufs_of_def zero_hb_def)
  obtain s' where s': "http_mgmt_run_timeout ?s = Some s'" "contexts_ok s'" "list_timeout s' = []" "released ?t [0] s'"
    using run_timeout_releases_expired [OF one_request_ok, of None] by (auto simp: one_request_simps)
  have "calls s' = [Time, Close 3]" "polled s' 3 = None" "http_lookup s' ! 3 = None" "set (blists s' Buf_Caches) = {7}"
    using s'(4) by (simp_all add: released_def t)
  with s' show ?thesis by blast
qed

lemma timeout_mid_write_corrupts_witness: "http_mgmt_run_timeout (one_request (Some 7)) = None"
  by (rule timeout_mid_write_corrupts [OF one_request_ok, of "Some 7" 0 "[]" 7]) (simp_all add: one_request_simps)

end
