(* ===== verification/Tunnel_Pool.thy ===== *)
theory Tunnel_Pool
  imports Tunnel_Service
begin

text \<open>
  The lists of buffers and of contexts share one contract: a node is on at most one list, and its flag tells
  whether it is on one. The locale \<open>node_lists\<close> states what adding and removing a node does under it and what
  follows for moving nodes between lists; it is interpreted for the buffers and for the contexts. The rest
  are the facts on the buffer operations that the components share.
\<close>

section \<open>Lists of nodes\<close>

definition tidy :: "('l \<Rightarrow> nat list) \<Rightarrow> (nat \<Rightarrow> bool) \<Rightarrow> bool" where
  "tidy L k \<longleftrightarrow> (\<forall>l. distinct (L l)) \<and> (\<forall>l l'. l \<noteq> l' \<longrightarrow> set (L l) \<inter> set (L l') = {}) \<and>
     (\<forall>n. k n \<longleftrightarrow> (\<exists>l. n \<in> set (L l)))"

definition nodes :: "('l \<Rightarrow> nat list) \<Rightarrow> nat set" where
  "nodes L = (\<Union>l. set (L l))"

lemma tidy_linked: "tidy L k \<Longrightarrow> n \<in> set (L l) \<Longrightarrow> k n"
  by (auto simp: tidy_def)

lemma tidy_unique: "tidy L k \<Longrightarrow> n \<in> set (L l) \<Longrightarrow> n \<in> set (L l') \<Longrightarrow> l = l'"
  by (auto simp: tidy_def)

lemma tidy_distinct: "tidy L k \<Longrightarrow> distinct (L l)"
  by (auto simp: tidy_def)

lemma tidy_add:
  assumes "tidy L k" "\<not> k n" "set xs = insert n (set (L l))" "distinct xs"
  shows "tidy (L(l := xs)) (k(n := True))"
  using assms unfolding tidy_def by (auto simp: fun_upd_apply)

lemma tidy_del:
  assumes "tidy L k" "n \<in> set (L l)"
  shows "tidy (L(l := remove1 n (L l))) (k(n := False))"
  unfolding tidy_def
proof (intro conjI allI impI)
  have d: "set (remove1 n (L l)) = set (L l) - {n}" using tidy_distinct [OF assms(1), of l] by simp
  show "distinct ((L(l := remove1 n (L l))) m)" for m using tidy_distinct [OF assms(1)] by simp
  show "set ((L(l := remove1 n (L l))) m) \<inter> set ((L(l := remove1 n (L l))) m') = {}" if "m \<noteq> m'" for m m'
    using assms(1) that d unfolding tidy_def by (auto simp: fun_upd_apply)
  show "(k(n := False)) p \<longleftrightarrow> (\<exists>m. p \<in> set ((L(l := remove1 n (L l))) m))" for p
  proof (cases "p = n")
    case True
    have "n \<notin> set ((L(l := remove1 n (L l))) m)" for m
      using d tidy_unique [OF assms, of m] by (cases "m = l") auto
    then show ?thesis using True by auto
  next
    case False
    have "p \<in> set ((L(l := remove1 n (L l))) m) \<longleftrightarrow> p \<in> set (L m)" for m
      using d False by (cases "m = l") auto
    moreover have "k p \<longleftrightarrow> (\<exists>m. p \<in> set (L m))" using assms(1) by (simp add: tidy_def)
    ultimately show ?thesis using False by simp
  qed
qed

lemma tidy_splice:
  assumes "tidy L k" "l \<noteq> l'" "set xs = set (L l) \<union> set (L l')" "distinct xs"
  shows "tidy (L(l' := xs, l := [])) k"
  using assms unfolding tidy_def by (auto simp: fun_upd_apply) blast+

locale node_lists =
  fixes lists :: "'s \<Rightarrow> 'l \<Rightarrow> nat list"
    and linked :: "'s \<Rightarrow> nat \<Rightarrow> bool"
    and add :: "nat \<Rightarrow> 'l \<Rightarrow> 's \<Rightarrow> 's option"
    and del :: "nat \<Rightarrow> 'l \<Rightarrow> 's \<Rightarrow> 's option"
  assumes add: "\<not> linked s n \<Longrightarrow>
      \<exists>s'. add n l s = Some s' \<and> lists s' = (lists s)(l := n # lists s l) \<and> linked s' = (linked s)(n := True)"
    and add_linked: "linked s n \<Longrightarrow> add n l s = None"
    and del: "tidy (lists s) (linked s) \<Longrightarrow> n \<in> set (lists s l) \<Longrightarrow>
      \<exists>s'. del n l s = Some s' \<and> lists s' = (lists s)(l := remove1 n (lists s l)) \<and> linked s' = (linked s)(n := False)"
begin

lemma add_tidy:
  assumes "tidy (lists s) (linked s)" "\<not> linked s n"
  shows "\<exists>s'. add n l s = Some s' \<and> tidy (lists s') (linked s') \<and> nodes (lists s') = insert n (nodes (lists s))"
proof -
  obtain s' where s': "add n l s = Some s'" "lists s' = (lists s)(l := n # lists s l)" "linked s' = (linked s)(n := True)"
    using add [OF assms(2)] by blast
  moreover have "tidy (lists s') (linked s')" unfolding s'(2,3)
    using assms tidy_distinct [OF assms(1)] by (intro tidy_add) (auto simp: tidy_def)
  moreover have "nodes (lists s') = insert n (nodes (lists s))" unfolding s'(2) by (auto simp: nodes_def split: if_splits)
  ultimately show ?thesis by blast
qed

lemma del_tidy:
  assumes "tidy (lists s) (linked s)" "n \<in> set (lists s l)"
  shows "\<exists>s'. del n l s = Some s' \<and> tidy (lists s') (linked s') \<and> nodes (lists s') = nodes (lists s) - {n} \<and> \<not> linked s' n"
proof -
  obtain s' where s': "del n l s = Some s'" "lists s' = (lists s)(l := remove1 n (lists s l))" "linked s' = (linked s)(n := False)"
    using del [OF assms] by blast
  moreover have "tidy (lists s') (linked s')" unfolding s'(2,3) by (rule tidy_del [OF assms])
  moreover have "nodes (lists s') = nodes (lists s) - {n}"
    unfolding s'(2) using tidy_distinct [OF assms(1), of l] tidy_unique [OF assms(1,2)]
    by (auto simp: nodes_def split: if_splits)
  ultimately show ?thesis by auto
qed

text \<open>Moving a node from one list to another loses none and doubles none.\<close>

lemma move_tidy:
  assumes "tidy (lists s) (linked s)" "n \<in> set (lists s l)"
  shows "\<exists>s'. Option.bind (del n l s) (add n l') = Some s' \<and> tidy (lists s') (linked s') \<and> nodes (lists s') = nodes (lists s)"
proof -
  obtain s1 where s1: "del n l s = Some s1" "tidy (lists s1) (linked s1)" "nodes (lists s1) = nodes (lists s) - {n}"
    "\<not> linked s1 n" using del_tidy [OF assms] by blast
  obtain s2 where "add n l' s1 = Some s2" "tidy (lists s2) (linked s2)" "nodes (lists s2) = insert n (nodes (lists s1))"
    using add_tidy [OF s1(2,4)] by blast
  moreover have "n \<in> nodes (lists s)" using assms(2) by (auto simp: nodes_def)
  ultimately show ?thesis using s1 by auto
qed

end

interpretation buf_nodes: node_lists blists "\<lambda>s b. b_linked (bufs s b)" bl_add bl_del
proof unfold_locales
  fix s :: mgmt and n l assume "tidy (blists s) (\<lambda>b. b_linked (bufs s b))" "n \<in> set (blists s l)"
  then have "b_linked (bufs s n) \<and> n \<in> set (blists s l)" using tidy_linked by fastforce
  then show "\<exists>s'. bl_del n l s = Some s' \<and> blists s' = (blists s)(l := remove1 n (blists s l)) \<and>
      (\<lambda>b. b_linked (bufs s' b)) = (\<lambda>b. b_linked (bufs s b))(n := False)"
    by (simp add: bl_del_def set_bl_def upd_buf_def fun_eq_iff)
qed (simp_all add: bl_add_def set_bl_def upd_buf_def fun_eq_iff)

lemma remove1_elsewhere:
  assumes "tidy L k" "n \<in> set (L l)" shows "(\<lambda>m. remove1 n (L m)) = L(l := remove1 n (L l))"
proof
  fix m
  show "remove1 n (L m) = (L(l := remove1 n (L l))) m"
  proof (cases "m = l")
    case False
    then have "n \<notin> set (L m)" using tidy_unique [OF assms, of m] by blast
    then show ?thesis using False by (simp add: remove1_idem)
  qed simp
qed

interpretation ctx_nodes: node_lists clists "\<lambda>s c. c_linked (ctxs s c)" cl_add "\<lambda>c l. cl_del c"
proof unfold_locales
  fix s :: mgmt and n l assume a: "tidy (clists s) (\<lambda>c. c_linked (ctxs s c))" "n \<in> set (clists s l)"
  then have "c_linked (ctxs s n)" using tidy_linked by fastforce
  then show "\<exists>s'. cl_del n s = Some s' \<and> clists s' = (clists s)(l := remove1 n (clists s l)) \<and>
      (\<lambda>c. c_linked (ctxs s' c)) = (\<lambda>c. c_linked (ctxs s c))(n := False)"
    by (simp add: cl_del_def upd_ctx_def remove1_elsewhere [OF a] fun_eq_iff)
qed (simp_all add: cl_add_def set_cl_def upd_ctx_def fun_eq_iff)


section \<open>Buffers\<close>

definition pool_ok :: "mgmt \<Rightarrow> bool" where
  "pool_ok s \<longleftrightarrow> tidy (blists s) (\<lambda>b. b_linked (bufs s b)) \<and> (\<forall>b. length (b_data (bufs s b)) = BUF_ROOM)"

lemma pool_tidy: "pool_ok s \<Longrightarrow> tidy (blists s) (\<lambda>b. b_linked (bufs s b))"
  by (simp add: pool_ok_def)

lemma pool_room: "pool_ok s \<Longrightarrow> length (b_data (bufs s b)) = BUF_ROOM"
  by (simp add: pool_ok_def)

lemma pool_linked: "pool_ok s \<Longrightarrow> b \<in> set (blists s l) \<Longrightarrow> b_linked (bufs s b)"
  using tidy_linked [OF pool_tidy] by fastforce

text \<open>The state after a buffer is taken from the pool, put on a list or back to the pool.\<close>

definition taken :: "nat \<Rightarrow> mgmt \<Rightarrow> mgmt" where
  "taken b s = upd_buf b (\<lambda>x. x\<lparr>b_linked := False, b_len := 0, b_start := 0, b_total := 0\<rparr>)
     (set_bl Buf_Caches (remove1 b (blists s Buf_Caches)) s)"

lemma alloc_buf_taken:
  "pool_ok s \<Longrightarrow> blists s Buf_Caches = b # bs \<Longrightarrow> alloc_buf s = Some (Some b, taken b s)"
  using pool_linked [of s b Buf_Caches]
  by (simp add: alloc_buf_def bl_del_def taken_def set_bl_def upd_buf_def)

lemma taken_pool:
  assumes "pool_ok s" "b \<in> set (blists s Buf_Caches)" shows "pool_ok (taken b s)"
proof -
  have "(\<lambda>a. b_linked (bufs (taken b s) a)) = (\<lambda>a. b_linked (bufs s a))(b := False)"
    by (auto simp: taken_def set_bl_def upd_buf_def)
  moreover have "blists (taken b s) = (blists s)(Buf_Caches := remove1 b (blists s Buf_Caches))"
    by (simp add: taken_def set_bl_def upd_buf_def)
  ultimately show ?thesis using tidy_del [OF pool_tidy [OF assms(1)] assms(2)] pool_room [OF assms(1)]
    by (simp add: pool_ok_def) (simp add: taken_def set_bl_def upd_buf_def)
qed

lemma upd_buf_pool:
  "pool_ok s \<Longrightarrow> b_linked (f (bufs s b)) = b_linked (bufs s b) \<Longrightarrow>
   length (b_data (f (bufs s b))) = length (b_data (bufs s b)) \<Longrightarrow> pool_ok (upd_buf b f s)"
proof -
  assume a: "pool_ok s" "b_linked (f (bufs s b)) = b_linked (bufs s b)"
    "length (b_data (f (bufs s b))) = length (b_data (bufs s b))"
  then have "(\<lambda>a. b_linked (bufs (upd_buf b f s) a)) = (\<lambda>a. b_linked (bufs s a))" by (auto simp: upd_buf_def)
  with a show ?thesis by (simp add: pool_ok_def) (simp add: upd_buf_def)
qed

lemma upd_hb_pool [simp]: "pool_ok (upd_hb l f s) = pool_ok s"
  by (simp add: pool_ok_def upd_hb_def)

definition put_tail :: "nat \<Rightarrow> blist \<Rightarrow> mgmt \<Rightarrow> mgmt" where
  "put_tail b l s = set_bl l (blists s l @ [b]) (upd_buf b (b_linked_update (\<lambda>_. True)) s)"

definition put_front :: "nat \<Rightarrow> blist \<Rightarrow> mgmt \<Rightarrow> mgmt" where
  "put_front b l s = set_bl l (b # blists s l) (upd_buf b (b_linked_update (\<lambda>_. True)) s)"

lemma bl_add_put: "\<not> b_linked (bufs s b) \<Longrightarrow> bl_add_tail b l s = Some (put_tail b l s)"
  "\<not> b_linked (bufs s b) \<Longrightarrow> bl_add b l s = Some (put_front b l s)"
  by (simp_all add: bl_add_tail_def bl_add_def put_tail_def put_front_def)

lemma put_pool:
  assumes "pool_ok s" "\<not> b_linked (bufs s b)" shows "pool_ok (put_tail b l s)" "pool_ok (put_front b l s)"
proof -
  have n: "b \<notin> set (blists s m)" for m using assms pool_linked by blast
  have k: "(\<lambda>a. b_linked (bufs (put_tail b l s) a)) = (\<lambda>a. b_linked (bufs s a))(b := True)"
    "(\<lambda>a. b_linked (bufs (put_front b l s) a)) = (\<lambda>a. b_linked (bufs s a))(b := True)"
    by (auto simp: put_tail_def put_front_def set_bl_def upd_buf_def)
  have L: "blists (put_tail b l s) = (blists s)(l := blists s l @ [b])"
    "blists (put_front b l s) = (blists s)(l := b # blists s l)"
    by (simp_all add: put_tail_def put_front_def set_bl_def upd_buf_def)
  have d: "length (b_data (bufs (put_tail b l s) a)) = BUF_ROOM" "length (b_data (bufs (put_front b l s) a)) = BUF_ROOM" for a
    using pool_room [OF assms(1)] by (simp_all add: put_tail_def put_front_def set_bl_def upd_buf_def)
  show "pool_ok (put_tail b l s)" "pool_ok (put_front b l s)"
    unfolding pool_ok_def k L using d tidy_distinct [OF pool_tidy [OF assms(1)], of l] n assms
    by (auto intro!: tidy_add pool_tidy)
qed

lemma splice_init_pool: "pool_ok s \<Longrightarrow> l \<noteq> l' \<Longrightarrow> pool_ok (bl_splice_init l l' s)"
  "pool_ok s \<Longrightarrow> l \<noteq> l' \<Longrightarrow> pool_ok (bl_splice_tail_init l l' s)"
proof -
  assume a: "pool_ok s" "l \<noteq> l'"
  have d: "distinct (blists s l @ blists s l')" "distinct (blists s l' @ blists s l)"
    using pool_tidy [OF a(1)] a(2) unfolding tidy_def by (auto simp: distinct_append)
  have "tidy ((blists s)(l' := blists s l @ blists s l', l := [])) (\<lambda>b. b_linked (bufs s b))"
    "tidy ((blists s)(l' := blists s l' @ blists s l, l := [])) (\<lambda>b. b_linked (bufs s b))"
    using pool_tidy [OF a(1)] a(2) d by (auto intro!: tidy_splice)
  then show "pool_ok (bl_splice_init l l' s)" "pool_ok (bl_splice_tail_init l l' s)"
    using a(1) by (simp_all add: pool_ok_def bl_splice_init_def bl_splice_tail_init_def set_bl_def)
qed

definition blit :: "nat \<Rightarrow> bytes \<Rightarrow> http_buf_info \<Rightarrow> http_buf_info" where
  "blit i d x = x\<lparr>b_data := take i (b_data x) @ d @ drop (i + length d) (b_data x)\<rparr>"

lemma blit_simps [simp]: "b_linked (blit i d x) = b_linked x" "b_start (blit i d x) = b_start x"
  "b_len (blit i d x) = b_len x" "b_total (blit i d x) = b_total x"
  by (simp_all add: blit_def)

lemma buf_write_ok:
  "pool_ok s \<Longrightarrow> 0 \<le> i \<Longrightarrow> nat i + length d \<le> BUF_ROOM \<Longrightarrow> buf_write b i d s = Some (upd_buf b (blit (nat i) d) s)"
  using pool_room [of s b] by (simp add: buf_write_def access_simps upd_buf_def blit_def)

lemma blit_pool: "pool_ok s \<Longrightarrow> i + length d \<le> BUF_ROOM \<Longrightarrow> pool_ok (upd_buf b (blit i d) s)"
  using pool_room [of s b] by (intro upd_buf_pool) (auto simp: blit_def)

lemma buf_read_ok:
  "pool_ok s \<Longrightarrow> 0 \<le> i \<Longrightarrow> 0 \<le> n \<Longrightarrow> i + n \<le> int BUF_ROOM \<Longrightarrow>
   buf_read b i n s = Some (take (nat n) (drop (nat i) (b_data (bufs s b))))"
  using pool_room [of s b] by (simp add: buf_read_def)

end
