(* ===== verification/Tunnel_Messages.thy ===== *)
theory Tunnel_Messages
  imports Tunnel_Pool
begin

text \<open>
  Messages on the websocket. A message of the server that arrives in pieces is collected in buffers and
  dispatched once, with exactly its payload; what the tunnel queues to the server is read back by the same
  rules.
\<close>

section \<open>What the buffers hold\<close>

definition piece :: "mgmt \<Rightarrow> nat \<Rightarrow> bytes" where
  "piece s b = take (nat (b_len (bufs s b))) (drop (nat (b_start (bufs s b))) (b_data (bufs s b)))"

definition content :: "blist \<Rightarrow> mgmt \<Rightarrow> bytes" where
  "content l s = concat (map (piece s) (blists s l))"

definition begun :: "mgmt \<Rightarrow> bytes" where
  "begun s = (case curr (hbufs s Prepare) of None \<Rightarrow> []
     | Some b \<Rightarrow> take (nat (b_start (bufs s b))) (b_data (bufs s b)))"

definition collected :: "mgmt \<Rightarrow> bytes" where
  "collected s = content Prepare s @ begun s"

lemma content_cong:
  "blists s' l = blists s l \<Longrightarrow> (\<And>b. b \<in> set (blists s l) \<Longrightarrow> piece s' b = piece s b) \<Longrightarrow> content l s' = content l s"
  by (simp add: content_def cong: map_cong)

text \<open>The state but for the buffers and the synchronisation with the message stream; \<open>others\<close> says that
  collecting touches nothing but the prepared buffers and the pool.\<close>

definition rest :: "mgmt \<Rightarrow> mgmt" where
  "rest s = s\<lparr>bufs := \<lambda>_. zero_buf, blists := \<lambda>_. [], hbufs := \<lambda>_. zero_hb, calls := [], sync_prepare := False,
     sync_time := 0\<rparr>"

definition others :: "mgmt \<Rightarrow> mgmt \<Rightarrow> bool" where
  "others s s' \<longleftrightarrow> rest s' = rest s \<and>
     (\<forall>l. l \<noteq> Prepare \<longrightarrow> l \<noteq> Buf_Caches \<longrightarrow> blists s' l = blists s l \<and>
       (\<forall>b \<in> set (blists s l). bufs s' b = bufs s b)) \<and>
     (\<forall>l. l \<noteq> Prepare \<longrightarrow> hbufs s' l = hbufs s l)"

lemma others_content: "others s s' \<Longrightarrow> l \<noteq> Prepare \<Longrightarrow> l \<noteq> Buf_Caches \<Longrightarrow> content l s' = content l s"
  by (rule content_cong) (simp_all add: others_def piece_def)

lemma others_bufs: "others s s' \<Longrightarrow> l \<noteq> Prepare \<Longrightarrow> l \<noteq> Buf_Caches \<Longrightarrow> b \<in> set (blists s l) \<Longrightarrow> bufs s' b = bufs s b"
  by (simp add: others_def)

lemma others_fields:
  assumes "others s s'" shows "forwards s' = forwards s" "list_forward s' = list_forward s" "pollfds s' = pollfds s"
proof -
  have r: "rest s' = rest s" using assms by (simp add: others_def)
  show "forwards s' = forwards s" "list_forward s' = list_forward s" "pollfds s' = pollfds s"
    using arg_cong [OF r, of forwards] arg_cong [OF r, of list_forward] arg_cong [OF r, of pollfds] by (simp_all add: rest_def)
qed

lemma others_refl [simp]: "others s s"
  by (simp add: others_def)

lemma others_trans [trans]: "others s s' \<Longrightarrow> others s' s'' \<Longrightarrow> others s s''"
  by (simp add: others_def)

text \<open>A change of a buffer that is on no list.\<close>

lemma content_upd_buf: "pool_ok s \<Longrightarrow> \<not> b_linked (bufs s b) \<Longrightarrow> content l (upd_buf b f s) = content l s"
  using pool_linked [of s b l] by (intro content_cong) (auto simp: upd_buf_def piece_def)

lemma content_upd_hb [simp]: "content l (upd_hb k f s) = content l s"
  by (simp add: content_def upd_hb_def piece_def [abs_def])

lemma others_upd_buf: "pool_ok s \<Longrightarrow> \<not> b_linked (bufs s b) \<Longrightarrow> others s (upd_buf b f s)"
  using pool_linked [of s b] by (auto simp: others_def) (auto simp: upd_buf_def rest_def)

lemma others_upd_hb: "others s (upd_hb Prepare f s)"
  by (simp add: others_def) (simp add: upd_hb_def rest_def)

lemma taken_elsewhere:
  assumes "pool_ok s" "b \<in> set (blists s Buf_Caches)" "l \<noteq> Buf_Caches"
  shows "blists (taken b s) l = blists s l" "a \<in> set (blists s l) \<Longrightarrow> bufs (taken b s) a = bufs s a"
proof -
  show "blists (taken b s) l = blists s l" using assms(3) by (simp add: taken_def set_bl_def upd_buf_def)
  show "bufs (taken b s) a = bufs s a" if "a \<in> set (blists s l)"
    using that tidy_unique [OF pool_tidy [OF assms(1)] assms(2)] assms(3) by (auto simp: taken_def set_bl_def upd_buf_def)
qed

lemma content_taken:
  "pool_ok s \<Longrightarrow> b \<in> set (blists s Buf_Caches) \<Longrightarrow> l \<noteq> Buf_Caches \<Longrightarrow> content l (taken b s) = content l s"
  by (rule content_cong) (simp_all add: taken_elsewhere piece_def)

lemma others_taken: "pool_ok s \<Longrightarrow> b \<in> set (blists s Buf_Caches) \<Longrightarrow> others s (taken b s)"
  by (simp add: others_def taken_elsewhere) (simp add: taken_def set_bl_def upd_buf_def rest_def)

lemma content_put_tail:
  assumes "pool_ok s" "\<not> b_linked (bufs s b)"
  shows "content l (put_tail b k s) = (if l = k then content l s @ piece s b else content l s)"
proof -
  have p: "piece (put_tail b k s) = piece s" by (rule ext) (simp add: piece_def put_tail_def set_bl_def upd_buf_def)
  have "blists (put_tail b k s) l = (if l = k then blists s l @ [b] else blists s l)"
    by (simp add: put_tail_def set_bl_def upd_buf_def)
  then show ?thesis by (simp add: content_def p)
qed

section \<open>Collecting\<close>

text \<open>A buffer on a queue holds something.\<close>

definition buf_ok :: "mgmt \<Rightarrow> nat \<Rightarrow> bool" where
  "buf_ok s b \<longleftrightarrow> 0 \<le> b_start (bufs s b) \<and> 0 < b_len (bufs s b) \<and> b_start (bufs s b) + b_len (bufs s b) \<le> int BUF_ROOM"

definition queue_ok :: "blist \<Rightarrow> mgmt \<Rightarrow> bool" where
  "queue_ok l s \<longleftrightarrow> pool_ok s \<and> (\<forall>b \<in> set (blists s l). buf_ok s b)"

lemma queue_pool [simp]: "queue_ok l s \<Longrightarrow> pool_ok s"
  by (simp add: queue_ok_def)

lemma queue_upd_buf: "queue_ok l s \<Longrightarrow> \<not> b_linked (bufs s b) \<Longrightarrow> pool_ok (upd_buf b f s) \<Longrightarrow> queue_ok l (upd_buf b f s)"
proof -
  assume a: "queue_ok l s" "\<not> b_linked (bufs s b)" "pool_ok (upd_buf b f s)"
  then have "bufs (upd_buf b f s) x = bufs s x" if "x \<in> set (blists s l)" for x
    using that pool_linked [of s b l] by (auto simp: upd_buf_def)
  then have "\<forall>x \<in> set (blists s l). buf_ok (upd_buf b f s) x" using a(1) by (simp add: queue_ok_def buf_ok_def)
  then show ?thesis using a(3) by (simp add: queue_ok_def) (simp add: upd_buf_def)
qed

lemma queue_upd_hb [simp]: "queue_ok l (upd_hb k f s) = queue_ok l s"
  by (simp add: queue_ok_def) (simp add: upd_hb_def buf_ok_def [abs_def])

lemma queue_taken:
  "queue_ok l s \<Longrightarrow> b \<in> set (blists s Buf_Caches) \<Longrightarrow> l \<noteq> Buf_Caches \<Longrightarrow> queue_ok l (taken b s)"
  using taken_pool [of s b] by (simp add: queue_ok_def buf_ok_def taken_elsewhere)

lemma queue_put_tail:
  assumes "queue_ok l s" "\<not> b_linked (bufs s b)" "l = k \<Longrightarrow> buf_ok s b" shows "queue_ok l (put_tail b k s)"
proof -
  have "buf_ok (put_tail b k s) a = buf_ok s a" for a by (simp add: buf_ok_def put_tail_def set_bl_def upd_buf_def)
  moreover have "blists (put_tail b k s) l = (if l = k then blists s l @ [b] else blists s l)"
    by (simp add: put_tail_def set_bl_def upd_buf_def)
  ultimately show ?thesis using assms put_pool(1) [of s b k] by (auto simp: queue_ok_def)
qed

definition collecting :: "mgmt \<Rightarrow> bool" where
  "collecting s \<longleftrightarrow> queue_ok Prepare s \<and> pool_ok s \<and> sync_prepare s \<and> hb_len (hbufs s Prepare) = int (length (content Prepare s)) \<and>
     (\<forall>b. curr (hbufs s Prepare) = Some b \<longrightarrow>
        \<not> b_linked (bufs s b) \<and> 0 \<le> b_start (bufs s b) \<and> b_start (bufs s b) \<le> HTTP_BUF_SIZE)"

text \<open>What stays the same while the pieces of one message are collected.\<close>

definition same_message :: "mgmt \<Rightarrow> mgmt \<Rightarrow> bool" where
  "same_message s s' \<longleftrightarrow> others s s' \<and> pool_ok s' \<and> sync_prepare s' = sync_prepare s \<and>
     hb_total (hbufs s' Prepare) = hb_total (hbufs s Prepare) \<and> hb_type (hbufs s' Prepare) = hb_type (hbufs s Prepare) \<and>
     hb_seq (hbufs s' Prepare) = hb_seq (hbufs s Prepare)"

lemma same_message_trans: "same_message s s' \<Longrightarrow> same_message s' s'' \<Longrightarrow> same_message s s''"
  using others_trans by (auto simp: same_message_def)

lemma save_collecting:
  assumes c: "collecting s" and b: "curr (hbufs s Prepare) = Some b" and pos: "0 < b_start (bufs s b)"
  obtains s' where "save_prepare b s = Some s'" "same_message s s'" "collecting s'" "content Prepare s' = collected s"
    "curr (hbufs s' Prepare) = None" "blists s' Buf_Caches = blists s Buf_Caches" "blists s' Prepare = blists s Prepare @ [b]"
proof -
  have ok: "pool_ok s" "\<not> b_linked (bufs s b)" and st: "0 \<le> b_start (bufs s b)" "b_start (bufs s b) \<le> HTTP_BUF_SIZE"
    using c b by (auto simp: collecting_def)
  let ?n = "b_start (bufs s b)"
  let ?s1 = "upd_hb Prepare (\<lambda>h. h\<lparr>hb_len := hb_len h + ?n\<rparr>) (upd_buf b (\<lambda>x. x\<lparr>b_len := ?n, b_total := ?n, b_start := 0\<rparr>) s)"
  let ?s' = "upd_hb Prepare (curr_update (\<lambda>_. None)) (put_tail b Prepare ?s1)"
  have u1: "\<not> b_linked (bufs ?s1 b)" using ok by (simp add: upd_hb_def upd_buf_def)
  have ok1: "pool_ok ?s1" using ok by (auto intro: upd_buf_pool)
  then have ok': "pool_ok ?s'" using put_pool(1) [OF ok1 u1] by simp
  have "queue_ok Prepare ?s1" using c ok ok1 by (simp add: collecting_def queue_upd_buf upd_buf_pool)
  moreover have "buf_ok ?s1 b" using st pos by (simp add: buf_ok_def upd_hb_def upd_buf_def HTTP_BUF_SIZE_def BUF_ROOM_def)
  ultimately have qu: "queue_ok Prepare ?s'" using queue_put_tail [OF _ u1] by simp
  have eq: "save_prepare b s = Some ?s'" using ok(2)
    by (simp add: save_prepare_def Let_def bl_add_tail_def put_tail_def set_bl_def upd_hb_def upd_buf_def)
      (intro mgmt.equality; simp; intro arg_cong [where f = "fun_upd (bufs s) b"] http_buf_info.equality; simp)
  have p: "piece ?s1 b = take (nat ?n) (b_data (bufs s b))" by (simp add: piece_def upd_hb_def upd_buf_def)
  have con: "content l ?s' = (if l = Prepare then collected s else content l s)" for l
    unfolding content_upd_hb content_put_tail [OF ok1 u1] p collected_def begun_def using b content_upd_buf [OF ok] by simp
  have len: "length (collected s) = length (content Prepare s) + nat ?n"
    using pool_room [OF ok(1), of b] st b by (simp add: collected_def begun_def BUF_ROOM_def HTTP_BUF_SIZE_def)
  have bl: "blists ?s' l = (if l = Prepare then blists s l @ [b] else blists s l)" for l
    by (simp add: put_tail_def set_bl_def upd_hb_def upd_buf_def)
  have "bufs ?s' a = bufs s a" if "a \<in> set (blists s l)" for a l
  proof -
    have "a \<noteq> b" using that ok pool_linked [OF ok(1)] by blast
    then show ?thesis by (simp add: put_tail_def set_bl_def upd_hb_def upd_buf_def)
  qed
  then have "others s ?s'" using bl by (simp add: others_def) (simp add: rest_def put_tail_def set_bl_def upd_hb_def upd_buf_def)
  moreover have "hbufs ?s' Prepare = (hbufs s Prepare)\<lparr>hb_len := hb_len (hbufs s Prepare) + ?n, curr := None\<rparr>"
    "sync_prepare ?s' = sync_prepare s"
    by (simp_all add: put_tail_def set_bl_def upd_hb_def upd_buf_def)
  ultimately show thesis using eq ok' qu con len c st(1) bl
    by (intro that [of ?s']) (simp_all add: same_message_def collecting_def)
qed

lemma alloc_collecting:
  assumes c: "collecting s" and n: "curr (hbufs s Prepare) = None" and f: "blists s Buf_Caches = b # bs"
  obtains s' where "alloc_buf s = Some (Some b, taken b s)" "s' = upd_hb Prepare (curr_update (\<lambda>_. Some b)) (taken b s)"
    "same_message s s'" "collecting s'" "collected s' = collected s" "curr (hbufs s' Prepare) = Some b"
    "b_start (bufs s' b) = 0" "blists s' Buf_Caches = bs" "blists s' Prepare = blists s Prepare"
    "content Prepare s' = content Prepare s"
proof -
  let ?s' = "upd_hb Prepare (curr_update (\<lambda>_. Some b)) (taken b s)"
  have ok: "pool_ok s" and m: "b \<in> set (blists s Buf_Caches)" using c f by (auto simp: collecting_def)
  have con: "content Prepare ?s' = content Prepare s" using content_taken [OF ok m] by simp
  have o: "others s ?s'" using others_trans [OF others_taken [OF ok m] others_upd_hb] .
  have h: "hbufs ?s' Prepare = (hbufs s Prepare)\<lparr>curr := Some b\<rparr>" "sync_prepare ?s' = sync_prepare s"
    "\<not> b_linked (bufs ?s' b)" "b_start (bufs ?s' b) = 0" "blists ?s' Buf_Caches = bs" "blists ?s' Prepare = blists s Prepare"
    using f by (simp_all add: taken_def set_bl_def upd_hb_def upd_buf_def)
  have "queue_ok Prepare ?s'" using queue_taken [of Prepare s b] c m by (simp add: collecting_def)
  then show thesis using alloc_buf_taken [OF ok f] taken_pool [OF ok m] c n o con h
    by (intro that [of ?s']) (simp_all add: same_message_def collecting_def collected_def begun_def HTTP_BUF_SIZE_def)
qed

text \<open>A change of the buffer being filled.\<close>

lemma fill_collecting:
  assumes c: "collecting s" and b: "curr (hbufs s Prepare) = Some b"
    and f: "b_linked (f (bufs s b)) = b_linked (bufs s b)" "length (b_data (f (bufs s b))) = length (b_data (bufs s b))"
      "0 \<le> b_start (f (bufs s b))" "b_start (f (bufs s b)) \<le> HTTP_BUF_SIZE"
  shows "same_message s (upd_buf b f s)" "collecting (upd_buf b f s)" "content Prepare (upd_buf b f s) = content Prepare s"
    "blists (upd_buf b f s) = blists s" "curr (hbufs (upd_buf b f s) Prepare) = Some b" "bufs (upd_buf b f s) b = f (bufs s b)"
    "collected (upd_buf b f s) = content Prepare s @ take (nat (b_start (f (bufs s b)))) (b_data (f (bufs s b)))"
proof -
  have ok: "pool_ok s" "\<not> b_linked (bufs s b)" using c b by (auto simp: collecting_def)
  have u: "blists (upd_buf b f s) = blists s" "hbufs (upd_buf b f s) = hbufs s" "sync_prepare (upd_buf b f s) = sync_prepare s"
    "bufs (upd_buf b f s) b = f (bufs s b)" by (simp_all add: upd_buf_def)
  show "same_message s (upd_buf b f s)" "collecting (upd_buf b f s)" "content Prepare (upd_buf b f s) = content Prepare s"
    "blists (upd_buf b f s) = blists s" "curr (hbufs (upd_buf b f s) Prepare) = Some b" "bufs (upd_buf b f s) b = f (bufs s b)"
    "collected (upd_buf b f s) = content Prepare s @ take (nat (b_start (f (bufs s b)))) (b_data (f (bufs s b)))"
    using c b f ok u queue_upd_buf [of Prepare s b f] others_upd_buf [OF ok] content_upd_buf [OF ok] upd_buf_pool [of s f b, OF ok(1) f(1,2)]
    by (simp_all add: same_message_def collecting_def collected_def begun_def)
qed

text \<open>The loop for a piece that fits the buffer being filled: it is appended, and the message is complete once
  the collected bytes are at least as many as the header announced.\<close>

definition appended :: "nat \<Rightarrow> bytes \<Rightarrow> mgmt \<Rightarrow> mgmt" where
  "appended b d s = upd_buf b (\<lambda>x. x\<lparr>b_start := b_start x + int (length d)\<rparr>) (upd_buf b (blit (nat (b_start (bufs s b))) d) s)"

lemma appended_collecting:
  assumes c: "collecting s" and b: "curr (hbufs s Prepare) = Some b" and l: "b_start (bufs s b) + int (length d) \<le> HTTP_BUF_SIZE"
  shows "same_message s (appended b d s)" "collecting (appended b d s)" "content Prepare (appended b d s) = content Prepare s"
    "blists (appended b d s) = blists s" "curr (hbufs (appended b d s) Prepare) = Some b"
    "b_start (bufs (appended b d s) b) = b_start (bufs s b) + int (length d)"
    "collected (appended b d s) = collected s @ d"
proof -
  let ?f = "\<lambda>x. (blit (nat (b_start (bufs s b))) d x)\<lparr>b_start := b_start x + int (length d)\<rparr>"
  have a: "appended b d s = upd_buf b ?f s" by (simp add: appended_def upd_buf_def)
  have st: "0 \<le> b_start (bufs s b)" and room: "length (b_data (bufs s b)) = BUF_ROOM"
    using c b pool_room by (auto simp: collecting_def)
  have len: "nat (b_start (bufs s b)) + length d \<le> BUF_ROOM" using l st by (simp add: HTTP_BUF_SIZE_def BUF_ROOM_def)
  have f: "b_linked (?f (bufs s b)) = b_linked (bufs s b)" "length (b_data (?f (bufs s b))) = length (b_data (bufs s b))"
    "0 \<le> b_start (?f (bufs s b))" "b_start (?f (bufs s b)) \<le> HTTP_BUF_SIZE"
    using room len st l by (simp_all add: blit_def)
  note F = fill_collecting [OF c b, of ?f, OF f]
  have "take (nat (b_start (?f (bufs s b)))) (b_data (?f (bufs s b))) = begun s @ d"
    using b st room len by (simp add: begun_def blit_def nat_add_distrib take_add)
  then show "same_message s (appended b d s)" "collecting (appended b d s)" "content Prepare (appended b d s) = content Prepare s"
    "blists (appended b d s) = blists s" "curr (hbufs (appended b d s) Prepare) = Some b"
    "b_start (bufs (appended b d s) b) = b_start (bufs s b) + int (length d)"
    "collected (appended b d s) = collected s @ d"
    unfolding a using F by (simp_all add: collected_def)
qed

lemma collected_length:
  "collecting s \<Longrightarrow> curr (hbufs s Prepare) = Some b \<Longrightarrow>
   int (length (collected s)) = int (length (content Prepare s)) + b_start (bufs s b)"
  using pool_room [of s b] by (simp add: collecting_def collected_def begun_def HTTP_BUF_SIZE_def BUF_ROOM_def min_def) linarith

lemma loop_fits:
  assumes c: "collecting s" and b: "curr (hbufs s Prepare) = Some b"
    and l: "b_start (bufs s b) + int (length d) \<le> HTTP_BUF_SIZE"
  shows "prepare_loop (Some b) d s =
     (let s = appended b d s; n = int (length (collected s)); total = hb_total (hbufs s Prepare)
      in if total \<le> n then
        do { s \<leftarrow> save_prepare b (upd_buf b (\<lambda>x. x\<lparr>b_start := b_start x - (n - total)\<rparr>) s); s \<leftarrow> prepare_process s; Some (0, s) }
      else Some (0, s))"
proof -
  note A = appended_collecting [OF c b l]
  have ok: "pool_ok s" and st: "0 \<le> b_start (bufs s b)" using c b by (auto simp: collecting_def)
  have w: "buf_write b (b_start (bufs s b)) d s = Some (upd_buf b (blit (nat (b_start (bufs s b))) d) s)"
    using l st by (intro buf_write_ok [OF ok st]) (simp add: HTTP_BUF_SIZE_def BUF_ROOM_def)
  have n: "b_start (bufs (appended b d s) b) + hb_len (hbufs (appended b d s) Prepare) = int (length (collected (appended b d s)))"
    using A(2) collected_length [OF A(2,5)] by (simp add: collecting_def)
  have "prepare_loop (Some b) d s =
     (let s = appended b d s; tmp_len = b_start (bufs s b) + hb_len (hbufs s Prepare); total = hb_total (hbufs s Prepare)
      in if total \<le> tmp_len then
        do { s \<leftarrow> save_prepare b (upd_buf b (\<lambda>x. x\<lparr>b_start := b_start x - (tmp_len - total)\<rparr>) s); s \<leftarrow> prepare_process s; Some (0, s) }
      else Some (0, s))"
    using l by (subst prepare_loop.simps) (simp add: w appended_def [symmetric] Let_def)
  then show ?thesis unfolding Let_def n .
qed

section \<open>One piece\<close>

definition stock :: "mgmt \<Rightarrow> nat" where
  "stock s = length (blists s Buf_Caches) + length (blists s Prepare) + (if curr (hbufs s Prepare) = None then 0 else 1)"

text \<open>A message of \<open>T\<close> bytes is incomplete. A buffer is saved when the next piece does not fit, so that two
  neighbours hold more than 2048 bytes, and twenty-one buffers are enough however the message is cut.\<close>

definition partial :: "nat \<Rightarrow> int \<Rightarrow> mgmt \<Rightarrow> bool" where
  "partial N T s \<longleftrightarrow> collecting s \<and> hb_total (hbufs s Prepare) = T \<and> int (length (collected s)) < T \<and> stock s = N"

definition receiving :: "nat \<Rightarrow> int \<Rightarrow> mgmt \<Rightarrow> bool" where
  "receiving N T s \<longleftrightarrow> partial N T s \<and>
     (case curr (hbufs s Prepare) of None \<Rightarrow> blists s Prepare = []
      | Some b \<Rightarrow> 2049 * int (length (blists s Prepare)) \<le> 2 * int (length (content Prepare s)) + b_start (bufs s b))"

definition feeds :: "nat \<Rightarrow> int \<Rightarrow> mgmt \<Rightarrow> bytes \<Rightarrow> (int \<times> mgmt) option \<Rightarrow> bool" where
  "feeds N T s d r \<longleftrightarrow>
     (if T \<le> int (length (collected s @ d)) then
        \<exists>s'. r = do { s \<leftarrow> prepare_process s'; Some (0, s) } \<and> same_message s s' \<and> collecting s' \<and>
          curr (hbufs s' Prepare) = None \<and> content Prepare s' = take (nat T) (collected s @ d)
      else \<exists>s'. r = Some (0, s') \<and> same_message s s' \<and> receiving N T s' \<and> collected s' = collected s @ d)"

lemma feeds_from: "same_message s0 s \<Longrightarrow> collected s = collected s0 \<Longrightarrow> feeds N T s d r \<Longrightarrow> feeds N T s0 d r"
  unfolding feeds_def by (auto intro: same_message_trans split: if_splits)

lemma feed_fits:
  assumes r: "partial N T s" and b: "curr (hbufs s Prepare) = Some b"
    and k: "2049 * int (length (blists s Prepare)) \<le> 2 * int (length (content Prepare s)) + b_start (bufs s b) + int (length d)"
    and l: "b_start (bufs s b) + int (length d) \<le> HTTP_BUF_SIZE"
  shows "feeds N T s d (prepare_loop (Some b) d s)"
proof -
  have c: "collecting s" and T: "hb_total (hbufs s Prepare) = T" "int (length (collected s)) < T"
    using r by (auto simp: partial_def)
  note A = appended_collecting [OF c b l]
  have T1: "hb_total (hbufs (appended b d s) Prepare) = T" using A(1) T(1) by (simp add: same_message_def)
  note L = loop_fits [OF c b l, unfolded Let_def A(7) T1]
  show ?thesis
  proof (cases "T \<le> int (length (collected s @ d))")
    case True
    let ?m = "int (length (collected s @ d)) - T"
    let ?s2 = "upd_buf b (\<lambda>x. x\<lparr>b_start := b_start x - ?m\<rparr>) (appended b d s)"
    have st: "b_start (bufs (appended b d s) b) = b_start (bufs s b) + int (length d)" by (rule A(6))
    have m: "0 \<le> ?m" "b_start (bufs s b) \<le> b_start (bufs s b) + int (length d) - ?m" "0 \<le> b_start (bufs s b)"
      using True T(2) c b by (auto simp: collecting_def)
    have f: "0 \<le> b_start (bufs s b) + int (length d) - ?m" "b_start (bufs s b) + int (length d) - ?m \<le> HTTP_BUF_SIZE"
      using m l by linarith+
    have pos: "0 < b_start (bufs s b) + int (length d) - ?m"
      using collected_length [OF c b] T(2) m(3) by simp
    have F: "same_message (appended b d s) ?s2" "collecting ?s2" "curr (hbufs ?s2 Prepare) = Some b"
      "collected ?s2 = content Prepare s @ take (nat (b_start (bufs s b) + int (length d) - ?m)) (b_data (bufs (appended b d s) b))"
      "0 < b_start (bufs ?s2 b)"
      using fill_collecting [OF A(2,5), of "\<lambda>x. x\<lparr>b_start := b_start x - ?m\<rparr>"] f pos A(3) by (simp_all add: st)
    define B where "B = nat (b_start (bufs s b) + int (length d) - ?m)"
    define D where "D = b_data (bufs (appended b d s) b)"
    have "collected s @ d = content Prepare s @ take (nat (b_start (bufs s b) + int (length d))) D"
      using A(7) A(3,5) by (simp add: collected_def begun_def st D_def)
    moreover have "nat T = length (content Prepare s) + B" using f(1) collected_length [OF c b] by (simp add: B_def)
    moreover have "B \<le> nat (b_start (bufs s b) + int (length d))" using m(1) by (simp add: B_def)
    ultimately have "take (nat T) (collected s @ d) = content Prepare s @ take B D" by (simp add: min_def)
    with F(4) have "collected ?s2 = take (nat T) (collected s @ d)" by (simp only: B_def D_def)
    moreover have "collecting ?s2" "curr (hbufs ?s2 Prepare) = Some b" "same_message s ?s2"
      using F A(1) same_message_trans by blast+
    ultimately obtain s' where s': "save_prepare b ?s2 = Some s'" "same_message s s'" "collecting s'"
      "content Prepare s' = collected ?s2" "curr (hbufs s' Prepare) = None"
      using save_collecting [of ?s2 b] same_message_trans [of s ?s2] F(5) by blast
    have "prepare_loop (Some b) d s = do { s \<leftarrow> prepare_process s'; Some (0, s) }"
      using L True A(7) s'(1) by simp
    with s' F(4) \<open>collected ?s2 = take (nat T) (collected s @ d)\<close> show ?thesis
      unfolding feeds_def if_P [OF True] by metis
  next
    case False
    have "receiving N T (appended b d s)"
      using r A T1 b k False unfolding receiving_def partial_def stock_def by simp
    then show ?thesis unfolding feeds_def L using False A by auto
  qed
qed

text \<open>With no buffer being filled one is taken from the pool; one that is too full is saved first.\<close>

lemma feed_none:
  assumes r: "receiving N T s" and n: "curr (hbufs s Prepare) = None" and N: "0 < N" and l: "int (length d) \<le> HTTP_BUF_SIZE"
  shows "feeds N T s d (prepare_loop None d s)"
proof -
  have c: "collecting s" and e: "blists s Prepare = []" and st: "length (blists s Buf_Caches) = N"
    using r n by (auto simp: receiving_def partial_def stock_def)
  obtain b bs where f: "blists s Buf_Caches = b # bs" using st N by (cases "blists s Buf_Caches") auto
  obtain s' where a: "alloc_buf s = Some (Some b, taken b s)" "s' = upd_hb Prepare (curr_update (\<lambda>_. Some b)) (taken b s)"
    "same_message s s'" "collecting s'" "collected s' = collected s" "curr (hbufs s' Prepare) = Some b"
    "b_start (bufs s' b) = 0" "blists s' Buf_Caches = bs" "blists s' Prepare = blists s Prepare"
    by (rule alloc_collecting [OF c n f])
  have "prepare_loop None d s = prepare_loop (Some b) d s'"
    unfolding prepare_loop.simps [of None] prepare_loop.simps [of "Some b"] using a(1,2) by simp
  moreover have "partial N T s'" using r a e f st by (simp add: receiving_def partial_def stock_def same_message_def)
  ultimately show ?thesis using feed_fits [of N T s' b d] feeds_from [OF a(3,5)] a e l by simp
qed

lemma feed_piece:
  assumes r: "receiving N T s" and N: "21 \<le> N" and T: "T \<le> int HTTP_IN_MAX - 16" and l: "int (length d) \<le> HTTP_BUF_SIZE"
  shows "feeds N T s d (prepare_loop (curr (hbufs s Prepare)) d s)"
proof (cases "curr (hbufs s Prepare)")
  case None
  then show ?thesis using feed_none [OF r None _ l] N by simp
next
  case (Some b)
  show ?thesis
  proof (cases "b_start (bufs s b) + int (length d) \<le> HTTP_BUF_SIZE")
    case True
    then show ?thesis using feed_fits [OF _ Some _ True] Some r by (simp add: receiving_def)
  next
    case False
    have c: "collecting s" and k: "2049 * int (length (blists s Prepare)) \<le> 2 * int (length (content Prepare s)) + b_start (bufs s b)"
      using r Some by (auto simp: receiving_def partial_def)
    have pos: "0 < b_start (bufs s b)" using False l by simp
    obtain s1 where s1: "save_prepare b s = Some s1" "same_message s s1" "collecting s1" "content Prepare s1 = collected s"
      "curr (hbufs s1 Prepare) = None" "blists s1 Buf_Caches = blists s Buf_Caches" "blists s1 Prepare = blists s Prepare @ [b]"
      by (rule save_collecting [OF c Some pos])
    have st: "stock s = N" "int (length (collected s)) < T" "hb_total (hbufs s1 Prepare) = T"
      using r s1(2) by (auto simp: receiving_def partial_def same_message_def)
    have len: "int (length (collected s)) = int (length (content Prepare s)) + b_start (bufs s b)"
      by (rule collected_length [OF c Some])
    have bst: "0 \<le> b_start (bufs s b)" using c Some by (simp add: collecting_def)
    have "int (length (blists s Prepare)) < 20" using k len st(2) T bst by (simp add: HTTP_IN_MAX_def)
    then have "blists s Buf_Caches \<noteq> []" using st(1) Some N by (auto simp: stock_def)
    then obtain a bs where f: "blists s1 Buf_Caches = a # bs"
      unfolding s1(6) by (meson neq_Nil_conv)
    obtain s2 where s2: "alloc_buf s1 = Some (Some a, taken a s1)" "s2 = upd_hb Prepare (curr_update (\<lambda>_. Some a)) (taken a s1)"
      "same_message s1 s2" "collecting s2" "collected s2 = collected s1" "curr (hbufs s2 Prepare) = Some a"
      "b_start (bufs s2 a) = 0" "blists s2 Buf_Caches = bs" "blists s2 Prepare = blists s1 Prepare" "content Prepare s2 = content Prepare s1"
      by (rule alloc_collecting [OF s1(3,5) f])
    have "prepare_loop (Some b) d s = prepare_loop None d s1"
      using False s1(1,5) by (subst prepare_loop.simps) simp
    also have "\<dots> = prepare_loop (Some a) d s2"
      unfolding prepare_loop.simps [of None] prepare_loop.simps [of "Some a"] using s2(1,2) by simp
    finally have eq: "prepare_loop (Some b) d s = prepare_loop (Some a) d s2" .
    have col: "collected s2 = collected s" using s2(5) s1(4,5) by (simp add: collected_def begun_def)
    have lb: "length (blists s Buf_Caches) = Suc (length bs)" using f s1(6) by (metis length_Cons)
    have "stock s2 = N" using st(1) lb s1(7) s2(6,8,9) Some by (simp add: stock_def)
    moreover have "hb_total (hbufs s2 Prepare) = T" using s2(3) st(3) by (simp add: same_message_def)
    ultimately have "partial N T s2" using s2(4) st(2) col by (simp add: partial_def)
    moreover have "2049 * int (length (blists s2 Prepare)) \<le> 2 * int (length (content Prepare s2)) + b_start (bufs s2 a) + int (length d)"
      using k False len s1(4,7) s2(7,9,10) by (simp add: HTTP_BUF_SIZE_def)
    ultimately have "feeds N T s2 d (prepare_loop (Some a) d s2)"
      using feed_fits [OF _ s2(6), of N T d] s2(7) l by simp
    then show ?thesis using feeds_from [OF same_message_trans [OF s1(2) s2(3)] col] eq Some by simp
  qed
qed

section \<open>A message\<close>

definition deliver :: "bytes list \<Rightarrow> mgmt \<Rightarrow> mgmt option" where
  "deliver = run_steps (\<lambda>d s. map_option snd (http_mgmt_prepare d s))"

lemma deliver_Nil [simp]: "deliver [] s = Some s"
  by (simp add: deliver_def)

lemma deliver_Cons: "deliver (d # ds) s = do { (_, s) \<leftarrow> http_mgmt_prepare d s; deliver ds s }"
  by (cases "http_mgmt_prepare d s") (auto simp: deliver_def)

lemma deliver_append: "deliver (ds @ es) s = do { s \<leftarrow> deliver ds s; deliver es s }"
  by (simp add: deliver_def run_steps_append)

lemma prepare_synced:
  "sync_prepare s \<Longrightarrow> d \<noteq> [] \<Longrightarrow> length d < 2048 \<Longrightarrow> http_mgmt_prepare d s = prepare_loop (curr (hbufs s Prepare)) d s"
  by (simp add: http_mgmt_prepare_def HTTP_BUF_SIZE_def)

lemma receiving_sync: "receiving N T s \<Longrightarrow> sync_prepare s"
  by (simp add: receiving_def partial_def collecting_def)

lemma deliver_part:
  assumes N: "21 \<le> N" and T: "T \<le> int HTTP_IN_MAX - 16"
  shows "receiving N T s \<Longrightarrow> \<forall>d \<in> set ds. d \<noteq> [] \<and> length d < 2048 \<Longrightarrow> int (length (collected s @ concat ds)) < T \<Longrightarrow>
    \<exists>s'. deliver ds s = Some s' \<and> same_message s s' \<and> receiving N T s' \<and> collected s' = collected s @ concat ds"
proof (induction ds arbitrary: s)
  case Nil
  then show ?case by (auto simp: deliver_def same_message_def receiving_def partial_def collecting_def)
next
  case (Cons d ds)
  have d: "d \<noteq> []" "length d < 2048" using Cons.prems(2) by auto
  have "feeds N T s d (http_mgmt_prepare d s)"
    unfolding prepare_synced [OF receiving_sync [OF Cons.prems(1)] d]
    using d by (intro feed_piece [OF Cons.prems(1) N T]) (simp add: HTTP_BUF_SIZE_def)
  then obtain s1 where s1: "http_mgmt_prepare d s = Some (0, s1)" "same_message s s1" "receiving N T s1"
    "collected s1 = collected s @ d"
    using Cons.prems(3) by (auto simp: feeds_def)
  obtain s' where "deliver ds s1 = Some s'" "same_message s1 s'" "receiving N T s'" "collected s' = collected s1 @ concat ds"
    using Cons.IH [OF s1(3)] Cons.prems(2,3) s1(4) by auto
  with s1 same_message_trans [OF s1(2)] show ?case by (auto simp: deliver_Cons)
qed

lemma deliver_rest:
  assumes N: "21 \<le> N" and T: "T \<le> int HTTP_IN_MAX - 16" and r: "receiving N T s"
    and d: "\<forall>d \<in> set (ds @ [e]). d \<noteq> [] \<and> length d < 2048"
    and l: "int (length (collected s @ concat ds)) < T" "T \<le> int (length (collected s @ concat (ds @ [e])))"
  obtains s' where "deliver (ds @ [e]) s = prepare_process s'" "same_message s s'" "collecting s'" "curr (hbufs s' Prepare) = None"
    "content Prepare s' = take (nat T) (collected s @ concat (ds @ [e]))"
proof -
  obtain s1 where s1: "deliver ds s = Some s1" "same_message s s1" "receiving N T s1" "collected s1 = collected s @ concat ds"
    using deliver_part [OF N T r _ l(1)] d by auto
  have e: "e \<noteq> []" "length e < 2048" using d by auto
  have "feeds N T s1 e (http_mgmt_prepare e s1)"
    unfolding prepare_synced [OF receiving_sync [OF s1(3)] e]
    using e by (intro feed_piece [OF s1(3) N T]) (simp add: HTTP_BUF_SIZE_def)
  then obtain s' where s': "http_mgmt_prepare e s1 = do { s \<leftarrow> prepare_process s'; Some (0, s) }" "same_message s1 s'"
    "collecting s'" "curr (hbufs s' Prepare) = None" "content Prepare s' = take (nat T) (collected s1 @ e)"
    using l(2) s1(4) by (auto simp: feeds_def)
  have "deliver (ds @ [e]) s = prepare_process s'"
    using s1(1) s'(1) by (cases "prepare_process s'") (auto simp: deliver_append deliver_Cons)
  with s' same_message_trans [OF s1(2) s'(2)] s1(4) show thesis by (intro that [of s']) auto
qed

lemma header_parts:
  assumes "d = header_bytes (mk_header type seq len) @ r"
  shows "of_be32 d = HTTP_C_MAGIC" "d ! 4 = HTTP_C_VERSION" "d ! 5 = type" "of_be16 (drop 6 d) = seq" "of_be32 (drop 8 d) = len"
    "drop 16 d = r" "16 \<le> length d"
proof -
  have d: "d = be32 HTTP_C_MAGIC @ [HTTP_C_VERSION, type] @ be16 seq @ be32 len @ le32 0 @ r"
    using assms by (simp add: header_bytes_def mk_header_def byte_simps)
  show "of_be32 d = HTTP_C_MAGIC" unfolding d by (rule of_be32_be32)
  have "drop 6 d = be16 seq @ be32 len @ le32 0 @ r" "drop 8 d = be32 len @ le32 0 @ r"
    unfolding d by (simp_all add: be32_def be16_def)
  then show "of_be16 (drop 6 d) = seq" "of_be32 (drop 8 d) = len" by (simp_all only: of_be16_be16 of_be32_be32)
  show "d ! 4 = HTTP_C_VERSION" "d ! 5 = type" unfolding d by (simp_all add: be32_def)
  show "drop 16 d = r" "16 \<le> length d" unfolding d by (simp_all add: be32_def be16_def le32_def)
qed

definition unsynced :: "mgmt \<Rightarrow> bool" where
  "unsynced s \<longleftrightarrow> pool_ok s \<and> \<not> sync_prepare s \<and> curr (hbufs s Prepare) = None \<and>
     21 \<le> length (blists s Buf_Caches) + length (blists s Prepare)"

lemma sync_receiving:
  assumes u: "unsynced s" and n: "0 < n" "n \<le> HTTP_IN_MAX - 16"
  obtains s' where "prepare_sync (header_bytes (mk_header type seq (of_nat (16 + n))) @ r) s = Some (0, r, s')"
    "receiving (length (blists s Buf_Caches) + length (blists s Prepare)) (int n) s'" "collected s' = []" "others s s'" "curr (hbufs s' Prepare) = None"
    "hb_type (hbufs s' Prepare) = type" "hb_seq (hbufs s' Prepare) = seq"
proof -
  define len :: u32 where "len = of_nat (16 + n)"
  define d where "d = header_bytes (mk_header type seq len) @ r"
  note H = header_parts [OF d_def]
  let ?s1 = "bl_splice_init Prepare Buf_Caches (upd_hb Prepare (\<lambda>h. h\<lparr>curr := None, hb_len := 0, hb_total := 0, hb_type := 0\<rparr>) s)"
  have r: "release_prepare s = Some ?s1" using u by (simp add: release_prepare_def free_buf_def unsynced_def)
  have ok: "pool_ok ?s1" using u by (auto simp: unsynced_def intro!: splice_init_pool)
  have len: "unat len = 16 + n" "sint (len - 16) = int n"
  proof -
    show "unat len = 16 + n"
      unfolding len_def unsigned_of_nat using n by (simp add: take_bit_nat_eq_self HTTP_IN_MAX_def)
    have "len - 16 = word_of_int (int n)" by (simp add: len_def)
    then show "sint (len - 16) = int n"
      using n by (simp add: signed_of_nat signed_take_bit_int_eq_self_iff HTTP_IN_MAX_def)
  qed
  let ?s2 = "upd_hb Prepare (\<lambda>h. h\<lparr>hb_total := int n, hb_type := type, hb_seq := seq\<rparr>)
    (?s1\<lparr>sync_prepare := True, calls := calls s @ [Time], sync_time := a_ret (answers s (length (calls s)))\<rparr>)"
  have "\<not> length d < 16" using H(7) by simp
  then have eq: "prepare_sync d s = Some (0, r, ?s2)"
    using n by (simp add: prepare_sync_def H r Let_def len get_time_def sys_def HTTP_IN_MAX_def)
      (simp add: bl_splice_init_def set_bl_def upd_hb_def)
  have c: "content Prepare ?s2 = []" by (simp add: content_def bl_splice_init_def set_bl_def upd_hb_def)
  have h: "hbufs ?s2 Prepare = (hbufs s Prepare)\<lparr>curr := None, hb_len := 0, hb_total := int n, hb_type := type, hb_seq := seq\<rparr>"
    "sync_prepare ?s2" "pool_ok ?s2" "blists ?s2 Prepare = []" "blists ?s2 Buf_Caches = blists s Prepare @ blists s Buf_Caches"
    using ok by (simp_all add: bl_splice_init_def set_bl_def upd_hb_def pool_ok_def)
  have col: "collecting ?s2" "collected ?s2 = []" using c h by (simp_all add: collecting_def queue_ok_def collected_def begun_def)
  have o: "others s ?s2"
    by (simp add: others_def) (simp add: rest_def bl_splice_init_def set_bl_def upd_hb_def)
  show thesis using eq col h o n
    by (intro that [of ?s2]) (simp_all add: d_def len_def receiving_def partial_def stock_def)
qed

lemma delivered:
  assumes u: "unsynced s" and d: "\<forall>d \<in> set (ds @ [e]). d \<noteq> [] \<and> length d < 2048" and first: "16 \<le> length (hd (ds @ [e]))"
    and cat: "concat (ds @ [e]) = header_bytes (mk_header type seq (of_nat (16 + length m))) @ m @ extra"
    and l: "length (concat ds) < 16 + length m" and m: "0 < length m" "length m \<le> HTTP_IN_MAX - 16"
  obtains s' where "deliver (ds @ [e]) s = prepare_process s'" "others s s'" "collecting s'" "content Prepare s' = m"
    "curr (hbufs s' Prepare) = None" "hb_type (hbufs s' Prepare) = type" "hb_seq (hbufs s' Prepare) = seq"
proof -
  let ?h = "header_bytes (mk_header type seq (of_nat (16 + length m)))"
  have hl: "length ?h = 16" by (simp add: header_bytes_def)
  obtain a as where as: "ds @ [e] = a # as" by (cases "ds @ [e]") auto
  have "take 16 (concat (ds @ [e])) = take 16 a" using first as by simp
  then have a: "a = ?h @ drop 16 a" unfolding cat using hl by (metis append_take_drop_id append_eq_conv_conj take_append)
  let ?N = "length (blists s Buf_Caches) + length (blists s Prepare)"
  have N: "21 \<le> ?N" and T: "int (length m) \<le> int HTTP_IN_MAX - 16" using u m by (auto simp: unsynced_def HTTP_IN_MAX_def)
  obtain s1 where s1: "prepare_sync a s = Some (0, drop 16 a, s1)" "receiving ?N (int (length m)) s1" "collected s1 = []"
    "others s s1" "curr (hbufs s1 Prepare) = None" "hb_type (hbufs s1 Prepare) = type" "hb_seq (hbufs s1 Prepare) = seq"
    using sync_receiving [OF u m, of type seq "drop 16 a"] a by metis
  have rest: "drop 16 a @ concat as = m @ extra" using cat a as hl by (metis append_assoc concat.simps(2) same_append_eq)
  have al: "length a < 2048" "\<not> sync_prepare s" using d as u by (auto simp: unsynced_def)
  have eq: "deliver (ds @ [e]) s = deliver (if drop 16 a = [] then as else drop 16 a # as) s1"
  proof (cases "drop 16 a = []")
    case True
    then have "http_mgmt_prepare a s = Some (0, s1)" using al s1(1) by (simp add: http_mgmt_prepare_def HTTP_BUF_SIZE_def)
    then show ?thesis using True as by (simp add: deliver_Cons)
  next
    case False
    have "curr (hbufs s Prepare) = None" using u by (simp add: unsynced_def)
    then have "http_mgmt_prepare a s = http_mgmt_prepare (drop 16 a) s1"
      using al s1(1,5) False receiving_sync [OF s1(2)] by (simp add: http_mgmt_prepare_def HTTP_BUF_SIZE_def)
    then show ?thesis using False as by (simp add: deliver_Cons)
  qed
  obtain es f where ef: "(if drop 16 a = [] then as else drop 16 a # as) = es @ [f]" "length (concat es) < length m"
  proof (cases ds)
    case Nil
    have "as = []" "drop 16 a \<noteq> []" using Nil as rest m by auto
    then show thesis using that [of "[]" "drop 16 a"] m by simp
  next
    case (Cons b bs)
    have "length a = 16 + length (drop 16 a)" using a hl by (metis length_append)
    then have "length (drop 16 a @ concat bs) < length m" using l Cons as by simp
    then show thesis using that [of "if drop 16 a = [] then bs else drop 16 a # bs" e] Cons as
      by (cases "drop 16 a = []") auto
  qed
  have p: "\<forall>x \<in> set (es @ [f]). x \<noteq> [] \<and> length x < 2048"
    using d unfolding ef(1) [symmetric] as by auto
  have all: "concat (es @ [f]) = m @ extra" unfolding ef(1) [symmetric] rest [symmetric]
    by (simp only: concat.simps append_Nil if_distrib [of concat]) (metis append_Nil)
  have b: "int (length (collected s1 @ concat es)) < int (length m)" "int (length m) \<le> int (length (collected s1 @ concat (es @ [f])))"
    using ef(2) unfolding all s1(3) by simp_all
  obtain s' where s': "deliver (es @ [f]) s1 = prepare_process s'" "same_message s1 s'" "collecting s'"
    "curr (hbufs s' Prepare) = None" "content Prepare s' = take (nat (int (length m))) (collected s1 @ concat (es @ [f]))"
    by (rule deliver_rest [OF N T s1(2) p b])
  have "content Prepare s' = m" using s'(5) unfolding all s1(3) by simp
  with s' s1 others_trans [OF s1(4)] eq ef(1) show thesis
    by (intro that [of s']) (simp_all add: same_message_def)
qed

text \<open>A header that does not arrive in one piece is refused, and what follows is taken for the start of a message: the
  message is lost.\<close>

lemma split_header_refused:
  "\<not> sync_prepare s \<Longrightarrow> length d < 16 \<Longrightarrow> http_mgmt_prepare d s = Some (10, s)"
  by (simp add: http_mgmt_prepare_def prepare_sync_def HTTP_BUF_SIZE_def)

text \<open>C5: A message of the server is collected whole. However its bytes are cut into pieces below 2048 bytes of which the first holds at
  least the header of 16 bytes, no piece is answered with an error, and what is dispatched, once and
  when the last byte came, is the state that holds exactly the payload, with the type, number and length of the
  header; bytes behind the message are dropped. Twenty-one buffers are enough for the longest message and the
  rest of the tunnel is not touched.\<close>

theorem message_reassembled:
  assumes "unsynced s" "\<forall>d \<in> set (ds @ [e]). d \<noteq> [] \<and> length d < 2048" "16 \<le> length (hd (ds @ [e]))"
    and "concat (ds @ [e]) = header_bytes (mk_header type seq (of_nat (16 + length m))) @ m @ extra"
    and "length (concat ds) < 16 + length m" "0 < length m" "length m \<le> HTTP_IN_MAX - 16"
  shows "\<exists>s'. deliver (ds @ [e]) s = prepare_process s' \<and> queue_ok Prepare s' \<and> content Prepare s' = m \<and>
    hb_len (hbufs s' Prepare) = int (length m) \<and> hb_type (hbufs s' Prepare) = type \<and> hb_seq (hbufs s' Prepare) = seq \<and>
    curr (hbufs s' Prepare) = None \<and> others s s'"
proof -
  obtain s' where "deliver (ds @ [e]) s = prepare_process s'" "others s s'" "collecting s'" "content Prepare s' = m"
    "curr (hbufs s' Prepare) = None" "hb_type (hbufs s' Prepare) = type" "hb_seq (hbufs s' Prepare) = seq"
    by (rule delivered [OF assms])
  then show ?thesis by (auto simp: collecting_def)
qed

definition stocked :: "nat \<Rightarrow> mgmt" where
  "stocked n = (zero_mgmt (\<lambda>_. \<lparr>a_ret = 0, a_errno = 0, a_data = []\<rparr>) [])
     \<lparr>blists := (\<lambda>_. [])(Buf_Caches := [0..<n]), bufs := \<lambda>b. zero_buf\<lparr>b_linked := b < n\<rparr>\<rparr>"

lemma stocked_unsynced: "21 \<le> n \<Longrightarrow> unsynced (stocked n)"
  by (auto simp: unsynced_def pool_ok_def tidy_def stocked_def zero_mgmt_def zero_hb_def zero_buf_def split: if_splits)

lemma message_reassembled_witness:
  "\<exists>s'. deliver [header_bytes (mk_header HTTP_C_HAND 9 18), [7, 8]] (stocked 21) = prepare_process s' \<and> content Prepare s' = [7, 8] \<and>
     hb_seq (hbufs s' Prepare) = 9"
proof -
  have h: "length (header_bytes (mk_header HTTP_C_HAND 9 18)) = 16" by (simp add: header_bytes_def)
  then have n: "header_bytes (mk_header HTTP_C_HAND 9 18) \<noteq> []" by auto
  show ?thesis
    using message_reassembled [of "stocked 21" "[header_bytes (mk_header HTTP_C_HAND 9 18)]" "[7, 8]" HTTP_C_HAND 9 "[7, 8]" "[]"]
      stocked_unsynced [of 21] h n by (auto simp: HTTP_IN_MAX_def)
qed

end
