(* ===== verification/Tunnel_Queues.thy ===== *)
theory Tunnel_Queues
  imports Tunnel_Messages
begin

text \<open>
  The queues that are written to a descriptor: the request to the local web server and the data of a forwarded
  connection. Both loops write the buffers in order and stop when the descriptor takes no more; the locale
  \<open>draining\<close> states what the loops share and what follows: every byte is taken exactly once and in order, however
  the writes are cut. It is interpreted for both.
\<close>

section \<open>What a descriptor took\<close>

definition took :: "mgmt \<Rightarrow> int \<Rightarrow> nat \<Rightarrow> bytes" where
  "took s fd i = (case calls s ! i of Write fd' d \<Rightarrow> if fd' = fd then take (nat (a_ret (answers s i))) d else [] | _ \<Rightarrow> [])"

definition sent_on :: "int \<Rightarrow> mgmt \<Rightarrow> bytes" where
  "sent_on fd s = concat (map (took s fd) [0..<length (calls s)])"

lemma took_cong: "calls s' ! i = calls s ! i \<Longrightarrow> answers s' i = answers s i \<Longrightarrow> took s' fd i = took s fd i"
  by (cases "calls s ! i") (simp_all add: took_def)

lemma sent_write:
  "sys_write fd d s = ((n, e), s') \<Longrightarrow> sent_on fd s' = sent_on fd s @ take (nat n) d"
proof -
  assume a: "sys_write fd d s = ((n, e), s')"
  then have s': "s' = s\<lparr>calls := calls s @ [Write fd d]\<rparr>" and n: "n = min (a_ret (answers s (length (calls s)))) (int (length d))"
    by (auto simp: sys_write_def sys_def)
  have "took s' fd i = took s fd i" if "i < length (calls s)" for i using that by (intro took_cong) (simp_all add: s' nth_append)
  moreover have "took s' fd (length (calls s)) = take (nat n) d" by (auto simp: took_def s' n min_def nth_append)
  moreover have "length (calls s') = Suc (length (calls s))" by (simp add: s')
  moreover have "concat (map (took s' fd) [0..<length (calls s)]) = concat (map (took s fd) [0..<length (calls s)])"
    using calculation(1) by (intro arg_cong [where f = concat] map_cong) simp_all
  ultimately show ?thesis by (simp add: sent_on_def)
qed

lemma write_result: "sys_write fd d s = ((n, e), s') \<Longrightarrow> n \<le> int (length d) \<and> s' = s\<lparr>calls := calls s @ [Write fd d]\<rparr>"
  by (auto simp: sys_write_def sys_def)

lemma sent_on_cong: "calls s' = calls s \<Longrightarrow> answers s' = answers s \<Longrightarrow> sent_on fd s' = sent_on fd s"
  by (simp add: sent_on_def took_cong [of s' _ s] cong: map_cong)

section \<open>Queues\<close>

definition same_queue :: "mgmt \<Rightarrow> mgmt \<Rightarrow> bool" where
  "same_queue s s' \<longleftrightarrow> blists s' = blists s \<and> bufs s' = bufs s \<and> hbufs s' = hbufs s \<and> calls s' = calls s \<and> answers s' = answers s"

lemma same_queue_facts:
  assumes "same_queue s s'"
  shows "content l s' = content l s" "queue_ok l s' = queue_ok l s" "sent_on fd s' = sent_on fd s" "hbufs s' = hbufs s"
    "next_buf_info l s' = next_buf_info l s" "blists s' = blists s"
  using assms sent_on_cong [of s' s]
  by (simp_all add: same_queue_def content_def piece_def [abs_def] queue_ok_def buf_ok_def pool_ok_def next_buf_info_def)

text \<open>Of a buffer \<open>n\<close> bytes were written; all of it was written.\<close>

definition part_written :: "nat \<Rightarrow> int \<Rightarrow> mgmt \<Rightarrow> mgmt" where
  "part_written b n = upd_buf b (\<lambda>x. x\<lparr>b_len := b_len x - n, b_start := b_start x + n\<rparr>)"

definition retire :: "blist \<Rightarrow> nat \<Rightarrow> int \<Rightarrow> mgmt \<Rightarrow> mgmt option" where
  "retire l b n s = do {
     s \<leftarrow> bl_del b l (upd_buf b (\<lambda>x. x\<lparr>b_len := b_len x - n\<rparr>) s);
     s \<leftarrow> free_buf (Some b) s;
     Some (upd_hb l (curr_update (\<lambda>_. next_buf_info l s)) s) }"

lemma part_written_queue:
  assumes q: "queue_ok l s" and b: "blists s l = b # bs" and n: "0 \<le> n" "n < b_len (bufs s b)"
  shows "queue_ok l (part_written b n s)" "take (nat n) (piece s b) @ content l (part_written b n s) = content l s"
proof -
  have d: "distinct (b # bs)" using q b tidy_distinct [OF pool_tidy, of s l] by (simp add: queue_ok_def buf_ok_def)
  have st: "0 \<le> b_start (bufs s b)" "b_start (bufs s b) + b_len (bufs s b) \<le> int BUF_ROOM" using q b by (auto simp: queue_ok_def buf_ok_def)
  have bl: "blists (part_written b n s) = blists s" by (simp add: part_written_def upd_buf_def)
  have "pool_ok (part_written b n s)" using q unfolding part_written_def queue_ok_def buf_ok_def by (auto intro: upd_buf_pool)
  then show "queue_ok l (part_written b n s)" using q b n by (auto simp: queue_ok_def buf_ok_def bl) (auto simp: part_written_def upd_buf_def)
  have "piece (part_written b n s) a = piece s a" if "a \<in> set bs" for a
    using that d by (auto simp: piece_def part_written_def upd_buf_def)
  moreover have "take (nat n) (piece s b) @ piece (part_written b n s) b = piece s b"
  proof -
    define D where "D = drop (nat (b_start (bufs s b))) (b_data (bufs s b))"
    have "piece (part_written b n s) b = take (nat (b_len (bufs s b)) - nat n) (drop (nat n) D)"
      using st n by (simp add: piece_def part_written_def upd_buf_def D_def nat_add_distrib nat_diff_distrib add.commute)
    then have "piece (part_written b n s) b = drop (nat n) (piece s b)" by (simp add: drop_take piece_def D_def)
    then show ?thesis by simp
  qed
  ultimately show "take (nat n) (piece s b) @ content l (part_written b n s) = content l s"
    unfolding content_def bl b by (simp cong: map_cong)
qed

lemma retire_queue:
  assumes q: "queue_ok l s" and l: "l \<noteq> Buf_Caches" and b: "blists s l = b # bs" and n: "n = b_len (bufs s b)"
  obtains s' where "retire l b n s = Some s'" "queue_ok l s'" "blists s' l = bs" "content l s = piece s b @ content l s'"
    "curr (hbufs s' l) = next_buf_info l s'" "calls s' = calls s" "answers s' = answers s"
proof -
  have d: "distinct (b # bs)" and k: "b_linked (bufs s b)"
    using q b tidy_distinct [OF pool_tidy, of s l] pool_linked [of s b l] by (simp_all add: queue_ok_def buf_ok_def)
  define s0 where "s0 = upd_buf b (\<lambda>x. x\<lparr>b_len := b_len x - n\<rparr>) s"
  have s0: "pool_ok s0" "blists s0 = blists s" "b_linked (bufs s0 b)"
    using q k by (auto simp: s0_def queue_ok_def buf_ok_def intro!: upd_buf_pool) (simp_all add: upd_buf_def)
  obtain s1 where s1: "bl_del b l s0 = Some s1" "tidy (blists s1) (\<lambda>b. b_linked (bufs s1 b))" "\<not> b_linked (bufs s1 b)"
    using buf_nodes.del_tidy [OF pool_tidy [OF s0(1)], of b l] b s0(2) by auto
  have s1': "s1 = set_bl l bs (upd_buf b (b_linked_update (\<lambda>_. False)) s0)"
    using s1(1) s0 b by (simp add: bl_del_def)
  have "pool_ok s1" using s1(2) pool_room [OF s0(1)] by (simp add: pool_ok_def) (simp add: s1' set_bl_def upd_buf_def)
  then have ok: "pool_ok (put_front b Buf_Caches s1)" by (rule put_pool(2) [OF _ s1(3)])
  define s' where "s' = upd_hb l (curr_update (\<lambda>_. next_buf_info l (put_front b Buf_Caches s1))) (put_front b Buf_Caches s1)"
  have eq: "retire l b n s = Some s'"
    using s1(1,3) by (simp add: retire_def s0_def [symmetric] free_buf_def bl_add_put s'_def)
  have bl: "blists s' l = bs" and bu: "\<And>a. a \<noteq> b \<Longrightarrow> bufs s' a = bufs s a"
    using l by (simp_all add: s'_def s1' s0_def put_front_def set_bl_def upd_buf_def upd_hb_def)
  have bs: "bufs s' a = bufs s a" if "a \<in> set bs" for a using that d by (intro bu) auto
  have "queue_ok l s'" using q bs b ok by (auto simp: queue_ok_def buf_ok_def bl) (simp add: s'_def)
  moreover have "content l s = piece s b @ content l s'"
    using bs by (simp add: content_def b bl piece_def cong: map_cong)
  moreover have "curr (hbufs s' l) = next_buf_info l s'" "calls s' = calls s" "answers s' = answers s"
    by (simp_all add: s'_def s1' s0_def put_front_def set_bl_def upd_buf_def upd_hb_def next_buf_info_def)
  ultimately show thesis using eq bl by (intro that [of s']) simp_all
qed

section \<open>The loop\<close>

locale draining =
  fixes l :: blist
    and fd :: "mgmt \<Rightarrow> int"
    and ready :: "mgmt \<Rightarrow> bool"
    and running :: "mgmt \<Rightarrow> bool"
    and loop :: "mgmt \<Rightarrow> (caller_status \<times> mgmt) option"
  assumes pool: "l \<noteq> Buf_Caches"
    and frame: "fd (s\<lparr>calls := c\<rparr>) = fd s" "ready (s\<lparr>calls := c\<rparr>) = ready s"
      "retire l b n s = Some s' \<Longrightarrow> fd s' = fd s \<and> ready s' = ready s"
    and finished: "curr (hbufs s l) = None \<Longrightarrow> blists s l = [] \<Longrightarrow> ready s \<Longrightarrow>
      \<exists>st s'. loop s = Some (st, s') \<and> same_queue s s' \<and> \<not> running s'"
    and failed: "curr (hbufs s l) = Some b \<Longrightarrow> ready s \<Longrightarrow> buf_read b (b_start (bufs s b)) (b_len (bufs s b)) s = Some d \<Longrightarrow>
      sys_write (fd s) d s = ((n, e), s1) \<Longrightarrow> n < 0 \<Longrightarrow> \<exists>st s'. loop s = Some (st, s') \<and> same_queue s1 s' \<and> running s'"
    and partly: "curr (hbufs s l) = Some b \<Longrightarrow> ready s \<Longrightarrow> buf_read b (b_start (bufs s b)) (b_len (bufs s b)) s = Some d \<Longrightarrow>
      sys_write (fd s) d s = ((n, e), s1) \<Longrightarrow> 0 \<le> n \<Longrightarrow> n < b_len (bufs s b) \<Longrightarrow>
      \<exists>st s'. loop s = Some (st, s') \<and> same_queue (part_written b n s1) s' \<and> running s'"
    and wholly: "curr (hbufs s l) = Some b \<Longrightarrow> ready s \<Longrightarrow> buf_read b (b_start (bufs s b)) (b_len (bufs s b)) s = Some d \<Longrightarrow>
      sys_write (fd s) d s = ((n, e), s1) \<Longrightarrow> 0 < n \<Longrightarrow> n = b_len (bufs s b) \<Longrightarrow> loop s = Option.bind (retire l b n s1) loop"
begin

definition steady :: "mgmt \<Rightarrow> bool" where
  "steady s \<longleftrightarrow> queue_ok l s \<and>
     (if running s then blists s l \<noteq> [] \<and> curr (hbufs s l) = next_buf_info l s else blists s l = [] \<and> curr (hbufs s l) = None)"

lemma drains:
  "queue_ok l s \<Longrightarrow> ready s \<Longrightarrow> curr (hbufs s l) = next_buf_info l s \<Longrightarrow>
   \<exists>st s'. loop s = Some (st, s') \<and> steady s' \<and> sent_on (fd s) s' @ content l s' = sent_on (fd s) s @ content l s"
proof (induction "blists s l" arbitrary: s)
  case Nil
  then obtain st s' where "loop s = Some (st, s')" "same_queue s s'" "\<not> running s'"
    using finished [of s] by (auto simp: next_buf_info_def)
  with Nil same_queue_facts [of s s'] show ?case by (auto simp: steady_def next_buf_info_def)
next
  case (Cons b bs)
  have b: "blists s l = b # bs" and c: "curr (hbufs s l) = Some b"
    using Cons.hyps(2) Cons.prems(3) by (simp_all add: next_buf_info_def split: list.splits)
  have r: "0 \<le> b_start (bufs s b)" "0 < b_len (bufs s b)" "b_start (bufs s b) + b_len (bufs s b) \<le> int BUF_ROOM" "pool_ok s"
    using Cons.prems(1) b by (auto simp: queue_ok_def buf_ok_def)
  have rd: "buf_read b (b_start (bufs s b)) (b_len (bufs s b)) s = Some (piece s b)"
    using buf_read_ok [OF r(4,1) _ r(3)] r(2) by (simp add: piece_def)
  have pl: "length (piece s b) = nat (b_len (bufs s b))"
    using r pool_room [OF r(4), of b] by (simp add: piece_def BUF_ROOM_def)
  obtain n e s1 where w: "sys_write (fd s) (piece s b) s = ((n, e), s1)" by (metis prod.exhaust)
  have s1: "s1 = s\<lparr>calls := calls s @ [Write (fd s) (piece s b)]\<rparr>" "n \<le> b_len (bufs s b)"
    using write_result [OF w] pl r(2) by auto
  have c1: "queue_ok l s1" "content l s1 = content l s" "blists s1 l = b # bs" "piece s1 b = piece s b" "bufs s1 = bufs s"
    using Cons.prems(1) b by (simp_all add: s1(1) queue_ok_def buf_ok_def pool_ok_def content_def piece_def [abs_def])
  note snt = sent_write [OF w]
  consider "n < 0" | "0 \<le> n" "n < b_len (bufs s b)" | "0 < n" "n = b_len (bufs s b)" using s1(2) r(2) by linarith
  then show ?case
  proof cases
    case 1
    then obtain st s' where "loop s = Some (st, s')" "same_queue s1 s'" "running s'"
      using failed [OF c Cons.prems(2) rd w] by blast
    with 1 c1 snt c b show ?thesis
      using same_queue_facts [of s1 s'] by (auto simp: steady_def next_buf_info_def s1(1))
  next
    case 2
    then obtain st s' where s': "loop s = Some (st, s')" "same_queue (part_written b n s1) s'" "running s'"
      using partly [OF c Cons.prems(2) rd w] by blast
    note P = part_written_queue [OF c1(1,3), of n, unfolded c1(2,4,5), OF 2]
    have "sent_on (fd s) (part_written b n s1) = sent_on (fd s) s1"
      by (rule sent_on_cong) (simp_all add: part_written_def upd_buf_def)
    moreover have "blists (part_written b n s1) l = b # bs" "hbufs (part_written b n s1) = hbufs s"
      using c1(3) by (simp_all add: part_written_def upd_buf_def s1(1))
    ultimately show ?thesis
      using s' P snt c same_queue_facts [OF s'(2)] by (auto simp: steady_def next_buf_info_def)
  next
    case 3
    have nb: "n = b_len (bufs s1 b)" using 3 c1(5) by simp
    obtain s2 where s2: "retire l b n s1 = Some s2" "queue_ok l s2" "blists s2 l = bs" "content l s1 = piece s1 b @ content l s2"
      "curr (hbufs s2 l) = next_buf_info l s2" "calls s2 = calls s1" "answers s2 = answers s1"
      by (rule retire_queue [OF c1(1) pool c1(3) nb])
    have f: "fd s2 = fd s" "ready s2" using frame(3) [OF s2(1)] frame(1,2) Cons.prems(2) by (simp_all add: s1(1))
    obtain st s' where s': "loop s2 = Some (st, s')" "steady s'"
      "sent_on (fd s2) s' @ content l s' = sent_on (fd s2) s2 @ content l s2"
      using Cons.hyps(1) [OF s2(3) [symmetric] s2(2) f(2) s2(5)] by blast
    have "sent_on (fd s) s2 = sent_on (fd s) s @ piece s b"
      using snt sent_on_cong [OF s2(6,7)] 3 pl by simp
    then show ?thesis
      using s' s2(1,4) f(1) c1(2,4) wholly [OF c Cons.prems(2) rd w 3] by auto
  qed
qed

text \<open>The same from a state that differs in nothing that matters here, and the step of a coroutine that goes on
  with a write of 0 bytes.\<close>

definition conserves :: "mgmt \<Rightarrow> mgmt \<Rightarrow> bool" where
  "conserves s s' \<longleftrightarrow> steady s' \<and> sent_on (fd s) s' @ content l s' = sent_on (fd s) s @ content l s"

lemma drains_from:
  assumes "queue_ok l s1" "ready s1" "curr (hbufs s1 l) = next_buf_info l s1" "fd s1 = fd s"
    "calls s1 = calls s" "answers s1 = answers s" "content l s1 = content l s"
  shows "\<exists>st s'. loop s1 = Some (st, s') \<and> conserves s s'"
  using drains [OF assms(1-3)] assms(4,7) sent_on_cong [OF assms(5,6)] by (simp add: conserves_def)

lemma resumes:
  assumes "same_queue s s1" "steady s" "running s" "same_queue (part_written b 0 s1) s'" "running s'"
  shows "conserves s s'"
proof -
  have "same_queue s s'" using assms(1,4) by (simp add: same_queue_def part_written_def upd_buf_def)
  then show ?thesis using same_queue_facts [of s s'] assms(2,3,5) by (simp add: conserves_def steady_def)
qed

lemma steady_head:
  assumes "steady s" "running s"
  obtains b where "curr (hbufs s l) = Some b" "0 < b_len (bufs s b)" "curr (hbufs s l) = next_buf_info l s" "queue_ok l s"
proof -
  obtain b bs where "blists s l = b # bs" using assms by (cases "blists s l") (auto simp: steady_def)
  with assms show thesis by (intro that [of b]) (auto simp: steady_def next_buf_info_def queue_ok_def buf_ok_def)
qed

end

section \<open>Forwarded connections\<close>

abbreviation fwd_slot :: "nat \<Rightarrow> mgmt \<Rightarrow> bool" where
  "fwd_slot f s \<equiv> get_pfd (f_pfd (forwards s f)) s \<noteq> None"

lemma upd_pfd_slot: "get_pfd p s \<noteq> None \<Longrightarrow> \<exists>x. upd_pfd p g s = Some (s\<lparr>pollfds := x\<rparr>)"
  by (auto simp: get_pfd_def upd_pfd_def aget_def aset_def split: bind_splits if_splits)

lemma retire_frame:
  "retire l b n s = Some s' \<Longrightarrow> forwards s' = forwards s \<and> ctxs s' = ctxs s \<and> pollfds s' = pollfds s"
  by (auto simp: retire_def free_buf_def bl_add_def bl_del_def set_bl_def upd_buf_def upd_hb_def bind_eq_Some_conv
      split: if_splits)

lemma fwd_advance_part:
  "curr (hbufs s (Fwd_Write f)) = Some b \<Longrightarrow> n < b_len (bufs s b) \<Longrightarrow>
   fwd_advance f n s = Some (Some CALLER_PENDING, upd_fwd f (f_ccr_update (\<lambda>_. 4)) (part_written b n s))"
  by (simp add: fwd_advance_def part_written_def upd_buf_def Let_def)

lemma fwd_advance_all:
  "curr (hbufs s (Fwd_Write f)) = Some b \<Longrightarrow> n = b_len (bufs s b) \<Longrightarrow>
   fwd_advance f n s = map_option (Pair None) (retire (Fwd_Write f) b n s)"
  by (simp add: fwd_advance_def retire_def upd_buf_def Let_def map_option_bind comp_def)

lemma same_queue_simps [simp]: "same_queue s (upd_fwd f g s')  = same_queue s s'" "same_queue s s"
  "same_queue s (upd_ctx c h s') = same_queue s s'" "same_queue s (s'\<lparr>pollfds := x\<rparr>) = same_queue s s'"
  by (simp_all add: same_queue_def upd_fwd_def upd_ctx_def)

interpretation forwarding: draining "Fwd_Write f" "\<lambda>s. f_fd (forwards s f)" "fwd_slot f" "\<lambda>s. f_ccr (forwards s f) \<noteq> 0"
    "fwd_write_loop f" for f
proof unfold_locales
  fix s s1 s' :: mgmt and c b d n e l
  show "Fwd_Write f \<noteq> Buf_Caches" by simp
  show "f_fd (forwards (s\<lparr>calls := c\<rparr>) f) = f_fd (forwards s f)" by simp
  show "fwd_slot f (s\<lparr>calls := c\<rparr>) = fwd_slot f s" by (simp add: get_pfd_def)
  show "f_fd (forwards s' f) = f_fd (forwards s f) \<and> fwd_slot f s' = fwd_slot f s" if "retire l b n s = Some s'"
    using retire_frame [OF that] by (simp add: get_pfd_def)
  show "\<exists>st s'. fwd_write_loop f s = Some (st, s') \<and> same_queue s s' \<and> \<not> f_ccr (forwards s' f) \<noteq> 0"
    if a: "curr (hbufs s (Fwd_Write f)) = None" "blists s (Fwd_Write f) = []" "fwd_slot f s"
  proof -
    obtain x where "upd_pfd (f_pfd (forwards s f)) want_read s = Some (s\<lparr>pollfds := x\<rparr>)"
      using upd_pfd_slot [OF a(3)] by blast
    with a(1) show ?thesis by (subst fwd_write_loop.simps) (simp add: same_queue_def upd_fwd_def)
  qed
  assume a: "curr (hbufs s (Fwd_Write f)) = Some b" "fwd_slot f s"
    "buf_read b (b_start (bufs s b)) (b_len (bufs s b)) s = Some d" "sys_write (f_fd (forwards s f)) d s = ((n, e), s1)"
  have s1: "s1 = s\<lparr>calls := calls s @ [Write (f_fd (forwards s f)) d]\<rparr>" using write_result [OF a(4)] by simp
  have c1: "curr (hbufs s1 (Fwd_Write f)) = Some b" "bufs s1 = bufs s" using a(1) by (simp_all add: s1)
  show "\<exists>st s'. fwd_write_loop f s = Some (st, s') \<and> same_queue s1 s' \<and> f_ccr (forwards s' f) \<noteq> 0" if "n < 0"
    using a that by (subst fwd_write_loop.simps) (simp add: upd_fwd_def same_queue_def)
  show "\<exists>st s'. fwd_write_loop f s = Some (st, s') \<and> same_queue (part_written b n s1) s' \<and> f_ccr (forwards s' f) \<noteq> 0"
    if n: "0 \<le> n" "n < b_len (bufs s b)"
  proof (cases "n = 0 \<and> e \<noteq> EINTR \<and> e \<noteq> EAGAIN")
    case True
    then show ?thesis using a by (subst fwd_write_loop.simps) (simp add: part_written_def same_queue_def upd_fwd_def upd_buf_def)
  next
    case False
    then show ?thesis using a n c1 fwd_advance_part [OF c1(1), of n]
      by (subst fwd_write_loop.simps) (auto simp: upd_fwd_def same_queue_def)
  qed
  show "fwd_write_loop f s = Option.bind (retire (Fwd_Write f) b n s1) (fwd_write_loop f)" if n: "0 < n" "n = b_len (bufs s b)"
    using a n c1 fwd_advance_all [OF c1(1), of n]
    by (subst fwd_write_loop.simps) (cases "retire (Fwd_Write f) b n s1"; simp)
qed

text \<open>Where the coroutine of a connection stands: at its start with what came in the meantime, or inside the loop
  at the head of its queue.\<close>

definition fwd_writing :: "nat \<Rightarrow> mgmt \<Rightarrow> bool" where
  "fwd_writing f s \<longleftrightarrow> queue_ok (Fwd_Write f) s \<and>
     (if f_ccr (forwards s f) = 0 then curr (hbufs s (Fwd_Write f)) = None
      else blists s (Fwd_Write f) \<noteq> [] \<and> curr (hbufs s (Fwd_Write f)) = next_buf_info (Fwd_Write f) s)"

lemma fwd_writing_steady: "fwd_writing f s \<Longrightarrow> f_ccr (forwards s f) \<noteq> 0 \<Longrightarrow> forwarding.steady f s"
  unfolding forwarding.steady_def fwd_writing_def by simp

lemma conserves_writing:
  "forwarding.conserves f s s' \<Longrightarrow> fwd_writing f s' \<and>
     sent_on (f_fd (forwards s f)) s' @ content (Fwd_Write f) s' = sent_on (f_fd (forwards s f)) s @ content (Fwd_Write f) s"
  unfolding forwarding.conserves_def forwarding.steady_def fwd_writing_def by (simp split: if_splits)

lemma fwd_write_conserves:
  assumes w: "fwd_writing f s" and p: "fwd_slot f s"
  shows "\<exists>st s'. tcp_forward_write f s = Some (st, s') \<and> forwarding.conserves f s s'"
proof -
  define s0 where "s0 = upd_fwd f (f_idle_update (\<lambda>_. False)) s"
  have sq: "same_queue s s0" by (simp add: s0_def)
  note S = same_queue_facts [OF sq]
  have q: "queue_ok (Fwd_Write f) s0" "fwd_slot f s0" "f_fd (forwards s0 f) = f_fd (forwards s f)" "f_ccr (forwards s0 f) = f_ccr (forwards s f)"
    "calls s0 = calls s" "answers s0 = answers s"
    using w p S(2) by (simp_all add: fwd_writing_def s0_def upd_fwd_def get_pfd_def)
  show ?thesis
  proof (cases "f_ccr (forwards s f) = 0")
    case True
    define s1 where "s1 = upd_hb (Fwd_Write f) (curr_update (\<lambda>_. next_buf_info (Fwd_Write f) s0)) s0"
    have "curr (hbufs s0 (Fwd_Write f)) = None" using w True S(4) by (simp add: fwd_writing_def)
    then have eq: "tcp_forward_write f s = fwd_write_loop f s1"
      using True q(4) by (simp add: tcp_forward_write_def s0_def [symmetric] s1_def)
    show ?thesis unfolding eq using q S(1)
      by (intro forwarding.drains_from)
        (simp_all add: s1_def upd_hb_def queue_ok_def buf_ok_def pool_ok_def get_pfd_def next_buf_info_def content_def piece_def [abs_def])
  next
    case False
    note st = fwd_writing_steady [OF w False]
    from False obtain b where b: "curr (hbufs s (Fwd_Write f)) = Some b" "0 < b_len (bufs s b)"
      "curr (hbufs s (Fwd_Write f)) = next_buf_info (Fwd_Write f) s" by (rule forwarding.steady_head [OF st])
    then have b0: "curr (hbufs s0 (Fwd_Write f)) = Some b" "0 < b_len (bufs s0 b)" using sq by (simp_all add: same_queue_def)
    show ?thesis
    proof (cases "f_ccr (forwards s f) \<le> 3")
      case True
      have "tcp_forward_write f s = Some (CALLER_PENDING, upd_fwd f (f_ccr_update (\<lambda>_. 4)) (part_written b 0 s0))"
        using False True q(4) fwd_advance_part [OF b0] by (simp add: tcp_forward_write_def s0_def [symmetric])
      moreover have "forwarding.conserves f s (upd_fwd f (f_ccr_update (\<lambda>_. 4)) (part_written b 0 s0))"
        by (rule forwarding.resumes [OF sq st False, of b]) (simp, simp add: upd_fwd_def)
      ultimately show ?thesis by blast
    next
      case 3: False
      have eq: "tcp_forward_write f s = fwd_write_loop f s0"
        using False 3 q(4) by (simp add: tcp_forward_write_def s0_def [symmetric])
      show ?thesis unfolding eq using q b(3) S by (intro forwarding.drains_from) simp_all
    qed
  qed
qed

text \<open>C7: The write coroutine of a forwarded connection always returns. Whatever the system answers to the
  writes (all, a part, nothing, an error, a later retry), what the connection has taken so far followed by what
  is still queued is what it was before: no byte is lost, doubled or reordered, and the queue is left in a state
  the coroutine can go on from.\<close>

theorem forward_written_in_order:
  assumes "fwd_writing f s" "get_pfd (f_pfd (forwards s f)) s \<noteq> None"
  shows "\<exists>st s'. tcp_forward_write f s = Some (st, s') \<and> fwd_writing f s' \<and>
     sent_on (f_fd (forwards s f)) s' @ content (Fwd_Write f) s' = sent_on (f_fd (forwards s f)) s @ content (Fwd_Write f) s"
  using fwd_write_conserves [OF assms] conserves_writing by metis

section \<open>Requests to the local web server\<close>

abbreviation ctx_slot :: "nat \<Rightarrow> mgmt \<Rightarrow> bool" where
  "ctx_slot c s \<equiv> get_pfd (c_pfd (ctxs s c)) s \<noteq> None"

lemma write_advance_part:
  "curr (hbufs s (Ctx_Write c)) = Some b \<Longrightarrow> n < b_len (bufs s b) \<Longrightarrow>
   write_advance c n s = Some (Some CALLER_PENDING, upd_ctx c (c_ccr_update (\<lambda>_. 4)) (part_written b n s))"
  by (simp add: write_advance_def part_written_def upd_buf_def Let_def)

lemma write_advance_all:
  "curr (hbufs s (Ctx_Write c)) = Some b \<Longrightarrow> n = b_len (bufs s b) \<Longrightarrow>
   write_advance c n s = map_option (Pair None) (retire (Ctx_Write c) b n s)"
  by (simp add: write_advance_def retire_def upd_buf_def Let_def map_option_bind comp_def)

interpretation requesting: draining "Ctx_Write c" "\<lambda>s. c_sockfd (ctxs s c)" "ctx_slot c" "\<lambda>s. c_ccr (ctxs s c) \<noteq> 0"
    "write_loop c" for c
proof unfold_locales
  fix s s1 s' :: mgmt and k b d n e l
  show "Ctx_Write c \<noteq> Buf_Caches" by simp
  show "c_sockfd (ctxs (s\<lparr>calls := k\<rparr>) c) = c_sockfd (ctxs s c)" by simp
  show "ctx_slot c (s\<lparr>calls := k\<rparr>) = ctx_slot c s" by (simp add: get_pfd_def)
  show "c_sockfd (ctxs s' c) = c_sockfd (ctxs s c) \<and> ctx_slot c s' = ctx_slot c s" if "retire l b n s = Some s'"
    using retire_frame [OF that] by (simp add: get_pfd_def)
  show "\<exists>st s'. write_loop c s = Some (st, s') \<and> same_queue s s' \<and> \<not> c_ccr (ctxs s' c) \<noteq> 0"
    if a: "curr (hbufs s (Ctx_Write c)) = None" "blists s (Ctx_Write c) = []" "ctx_slot c s"
  proof -
    obtain x where "upd_pfd (c_pfd (ctxs s c)) want_read s = Some (s\<lparr>pollfds := x\<rparr>)"
      using upd_pfd_slot [OF a(3)] by blast
    with a(1,2) show ?thesis
      by (subst write_loop.simps)
        (simp add: write_done_def bl_splice_init_def set_bl_def same_queue_def upd_ctx_def fun_eq_iff)
  qed
  assume a: "curr (hbufs s (Ctx_Write c)) = Some b" "ctx_slot c s"
    "buf_read b (b_start (bufs s b)) (b_len (bufs s b)) s = Some d" "sys_write (c_sockfd (ctxs s c)) d s = ((n, e), s1)"
  have s1: "s1 = s\<lparr>calls := calls s @ [Write (c_sockfd (ctxs s c)) d]\<rparr>" using write_result [OF a(4)] by simp
  have c1: "curr (hbufs s1 (Ctx_Write c)) = Some b" "bufs s1 = bufs s" using a(1) by (simp_all add: s1)
  show "\<exists>st s'. write_loop c s = Some (st, s') \<and> same_queue s1 s' \<and> c_ccr (ctxs s' c) \<noteq> 0" if "n < 0"
    using a that by (subst write_loop.simps) (simp add: upd_ctx_def same_queue_def)
  show "\<exists>st s'. write_loop c s = Some (st, s') \<and> same_queue (part_written b n s1) s' \<and> c_ccr (ctxs s' c) \<noteq> 0"
    if n: "0 \<le> n" "n < b_len (bufs s b)"
    using a n c1 write_advance_part [OF c1(1), of n]
    by (subst write_loop.simps) (auto simp: upd_ctx_def same_queue_def)
  show "write_loop c s = Option.bind (retire (Ctx_Write c) b n s1) (write_loop c)" if n: "0 < n" "n = b_len (bufs s b)"
    using a n c1 write_advance_all [OF c1(1), of n]
    by (subst write_loop.simps) (cases "retire (Ctx_Write c) b n s1"; simp)
qed

definition req_writing :: "nat \<Rightarrow> mgmt \<Rightarrow> bool" where
  "req_writing c s \<longleftrightarrow> queue_ok (Ctx_Write c) s \<and> blists s (Ctx_Write c) \<noteq> [] \<and>
     (c_ccr (ctxs s c) \<noteq> 0 \<longrightarrow> curr (hbufs s (Ctx_Write c)) = next_buf_info (Ctx_Write c) s)"

lemma req_writing_steady: "req_writing c s \<Longrightarrow> c_ccr (ctxs s c) \<noteq> 0 \<Longrightarrow> requesting.steady c s"
  unfolding requesting.steady_def req_writing_def by simp

lemma conserves_requesting:
  "requesting.conserves c s s' \<Longrightarrow> (c_ccr (ctxs s' c) = 0 \<and> blists s' (Ctx_Write c) = [] \<or> req_writing c s') \<and>
     sent_on (c_sockfd (ctxs s c)) s' @ content (Ctx_Write c) s' = sent_on (c_sockfd (ctxs s c)) s @ content (Ctx_Write c) s"
  unfolding requesting.conserves_def requesting.steady_def req_writing_def by (simp split: if_splits)

lemma http_write_conserves:
  assumes w: "req_writing c s" and p: "ctx_slot c s"
  shows "\<exists>st s'. http_context_write c s = Some (st, s') \<and> requesting.conserves c s s'"
proof (cases "c_ccr (ctxs s c) = 0")
  case True
  define s1 where "s1 = upd_hb (Ctx_Write c) (curr_update (\<lambda>_. next_buf_info (Ctx_Write c) s)) s"
  obtain b where "next_buf_info (Ctx_Write c) s = Some b" using w by (cases "blists s (Ctx_Write c)") (auto simp: req_writing_def next_buf_info_def)
  then have eq: "http_context_write c s = write_loop c s1"
    using True by (simp add: http_context_write_def s1_def upd_hb_def Let_def)
  show ?thesis unfolding eq using w p
    by (intro requesting.drains_from)
      (simp_all add: req_writing_def s1_def upd_hb_def queue_ok_def buf_ok_def pool_ok_def get_pfd_def next_buf_info_def content_def piece_def [abs_def])
next
  case False
  note st = req_writing_steady [OF w False]
  from False obtain b where b: "curr (hbufs s (Ctx_Write c)) = Some b" "0 < b_len (bufs s b)"
    "curr (hbufs s (Ctx_Write c)) = next_buf_info (Ctx_Write c) s" "queue_ok (Ctx_Write c) s" by (rule requesting.steady_head [OF st])
  show ?thesis
  proof (cases "c_ccr (ctxs s c) = 2 \<or> c_ccr (ctxs s c) = 3")
    case True
    have "http_context_write c s = Some (CALLER_PENDING, upd_ctx c (c_ccr_update (\<lambda>_. 4)) (part_written b 0 s))"
      using False True write_advance_part [OF b(1,2)] by (auto simp: http_context_write_def)
    moreover have "requesting.conserves c s (upd_ctx c (c_ccr_update (\<lambda>_. 4)) (part_written b 0 s))"
      by (rule requesting.resumes [of s s, OF _ st False, of b]) (simp, simp, simp add: upd_ctx_def)
    ultimately show ?thesis by blast
  next
    case 3: False
    have eq: "http_context_write c s = write_loop c s" using False 3 by (simp add: http_context_write_def)
    show ?thesis unfolding eq using b(3,4) p by (intro requesting.drains_from) simp_all
  qed
qed

text \<open>C19: The write coroutine of a request to the local web server always returns, and however the writes are
  cut, what the socket has taken followed by what is still queued is what it was before; at the end the queue is
  empty and the coroutine reset, or it can go on.\<close>

theorem request_written_in_order:
  assumes "req_writing c s" "get_pfd (c_pfd (ctxs s c)) s \<noteq> None"
  shows "\<exists>st s'. http_context_write c s = Some (st, s') \<and>
     (c_ccr (ctxs s' c) = 0 \<and> blists s' (Ctx_Write c) = [] \<or> req_writing c s') \<and>
     sent_on (c_sockfd (ctxs s c)) s' @ content (Ctx_Write c) s' = sent_on (c_sockfd (ctxs s c)) s @ content (Ctx_Write c) s"
  using http_write_conserves [OF assms] conserves_requesting by metis

section \<open>Data for a forwarded connection\<close>

text \<open>The message behind the loop: the whole payload moves to the queue of the connection.\<close>

definition moved :: "nat \<Rightarrow> mgmt \<Rightarrow> mgmt" where
  "moved f s = upd_hb Prepare (\<lambda>h. h\<lparr>curr := None, hb_len := 0, hb_total := 0, hb_type := 0\<rparr>)
     (set_bl Prepare [] (set_bl (Fwd_Write f) (blists s (Fwd_Write f) @ blists s Prepare) s))"

lemma splice_release:
  "curr (hbufs s Prepare) = None \<Longrightarrow> release_prepare (bl_splice_tail_init Prepare (Fwd_Write f) s) = Some (moved f s)"
  by (simp add: release_prepare_def free_buf_def bl_splice_tail_init_def bl_splice_init_def moved_def set_bl_def upd_hb_def)
    (intro mgmt.equality; simp add: fun_eq_iff)

lemma release_again:
  "curr (hbufs s Prepare) = None \<Longrightarrow> blists s Prepare = [] \<Longrightarrow>
   release_prepare s = Some (upd_hb Prepare (\<lambda>h. h\<lparr>hb_len := 0, hb_total := 0, hb_type := 0\<rparr>) s)"
  by (simp add: release_prepare_def free_buf_def bl_splice_init_def set_bl_def upd_hb_def fun_upd_idem)
    (intro mgmt.equality; simp; intro arg_cong [where f = "fun_upd (hbufs s) Prepare"] http_buf.equality; simp)

lemma moved_facts:
  assumes "queue_ok Prepare s" "queue_ok (Fwd_Write f) s"
  shows "queue_ok (Fwd_Write f) (moved f s)" "content (Fwd_Write f) (moved f s) = content (Fwd_Write f) s @ content Prepare s"
    "l \<noteq> Prepare \<Longrightarrow> l \<noteq> Fwd_Write f \<Longrightarrow> content l (moved f s) = content l s"
    "hbufs (moved f s) (Fwd_Write f) = hbufs s (Fwd_Write f)" "curr (hbufs (moved f s) Prepare) = None" "blists (moved f s) Prepare = []"
    "forwards (moved f s) = forwards s" "pollfds (moved f s) = pollfds s"
    "blists (moved f s) (Fwd_Write f) = blists s (Fwd_Write f) @ blists s Prepare"
proof -
  have "pool_ok (bl_splice_tail_init Prepare (Fwd_Write f) s)" using assms by (intro splice_init_pool) simp_all
  then have "pool_ok (moved f s)" by (simp add: moved_def pool_ok_def bl_splice_tail_init_def set_bl_def upd_hb_def)
  then show "queue_ok (Fwd_Write f) (moved f s)"
    using assms by (auto simp: queue_ok_def) (auto simp: buf_ok_def moved_def set_bl_def upd_hb_def)
  show "content (Fwd_Write f) (moved f s) = content (Fwd_Write f) s @ content Prepare s"
    by (simp add: content_def moved_def piece_def [abs_def] set_bl_def upd_hb_def)
  show "l \<noteq> Prepare \<Longrightarrow> l \<noteq> Fwd_Write f \<Longrightarrow> content l (moved f s) = content l s"
    by (simp add: content_def moved_def piece_def [abs_def] set_bl_def upd_hb_def)
qed (simp_all add: moved_def set_bl_def upd_hb_def)

text \<open>A connection is idle when it reads: data for it wakes its write coroutine.\<close>

definition fwd_ready :: "nat \<Rightarrow> mgmt \<Rightarrow> bool" where
  "fwd_ready f s \<longleftrightarrow> fwd_writing f s \<and>
     (f_idle (forwards s f) \<longrightarrow> get_pfd (f_pfd (forwards s f)) s \<noteq> None \<and> curr (hbufs s (Fwd_Write f)) = None)"

text \<open>The slot of the connection is polled for output instead of input, and nothing else changes in the table.\<close>

definition polls_output :: "nat option \<Rightarrow> pollfd list \<Rightarrow> pollfd list \<Rightarrow> bool" where
  "polls_output slot fds fds' \<longleftrightarrow> (\<exists>i q. slot = Some i \<and> i < length fds \<and> fds' = fds[i := q] \<and>
     p_fd q = p_fd (fds ! i) \<and> p_events q AND POLLOUT \<noteq> 0 \<and> p_events q AND POLLIN = 0)"

lemma want_write_events: "p_events (want_write p) AND POLLOUT \<noteq> 0" "p_events (want_write p) AND POLLIN = 0" "p_fd (want_write p) = p_fd p"
proof -
  have "bit (p_events (want_write p) AND POLLOUT) 2" by (simp add: want_write_def POLLOUT_def POLLIN_def bit_simps)
  then show "p_events (want_write p) AND POLLOUT \<noteq> 0" by auto
  show "p_events (want_write p) AND POLLIN = 0" by (simp add: want_write_def and.assoc)
qed (simp add: want_write_def)

lemma want_write_slot:
  assumes "get_pfd p s \<noteq> None"
  obtains fds where "upd_pfd p want_write s = Some (s\<lparr>pollfds := fds\<rparr>)" "polls_output p (pollfds s) fds"
proof -
  obtain i where i: "p = Some i" "i < length (pollfds s)" using assms by (cases p) (auto simp: get_pfd_def aget_def split: if_splits)
  then have "upd_pfd p want_write s = Some (s\<lparr>pollfds := (pollfds s)[i := want_write (pollfds s ! i)]\<rparr>)"
    by (simp add: upd_pfd_def access_simps)
  moreover have "polls_output p (pollfds s) ((pollfds s)[i := want_write (pollfds s ! i)])"
    unfolding polls_output_def using i by (intro exI conjI) (rule i(1), rule i(2), rule refl, simp_all add: want_write_events)
  ultimately show thesis by (rule that)
qed

lemma forwardresp_queues:
  assumes c: "queue_ok Prepare s" "curr (hbufs s Prepare) = None" and f: "find_forward s = Some f" and r: "fwd_ready f s"
  obtains s' where "process_tcp_forwardresp s = Some (0, s')" "fwd_writing f s'"
    "content (Fwd_Write f) s' = content (Fwd_Write f) s @ content Prepare s" "\<And>l. l \<noteq> Prepare \<Longrightarrow> l \<noteq> Fwd_Write f \<Longrightarrow> content l s' = content l s"
    "curr (hbufs s' Prepare) = None" "blists s' Prepare = []"
    "if f_idle (forwards s f) then f_func (forwards s' f) = Fwd_Do_Write \<and> f_ccr (forwards s' f) = 0 \<and>
       polls_output (f_pfd (forwards s f)) (pollfds s) (pollfds s')
     else pollfds s' = pollfds s"
proof -
  have w: "fwd_writing f s" and q: "queue_ok (Fwd_Write f) s" using r by (simp_all add: fwd_ready_def fwd_writing_def)
  note M = moved_facts [OF c(1) q]
  have none: "curr (hbufs (bl_splice_tail_init Prepare (Fwd_Write f) s) Prepare) = None" using c(2) by (simp add: bl_splice_tail_init_def set_bl_def)
  have nx: "next_buf_info (Fwd_Write f) (moved f s) = next_buf_info (Fwd_Write f) s" if "blists s (Fwd_Write f) \<noteq> []"
    using that by (simp add: next_buf_info_def M(9) split: list.splits)
  show thesis
  proof (cases "f_idle (forwards s f)")
    case False
    have "process_tcp_forwardresp s = Some (0, moved f s)"
      using f none False by (simp add: process_tcp_forwardresp_def Let_def splice_release [OF c(2)] M(7))
    moreover have "fwd_writing f (moved f s)" using w M nx by (simp add: fwd_writing_def)
    ultimately show thesis using M False by (intro that [of "moved f s"]) simp_all
  next
    case True
    let ?s1 = "upd_fwd f (f_func_update (\<lambda>_. Fwd_Do_Write)) (moved f s)"
    have "get_pfd (f_pfd (forwards ?s1 f)) ?s1 \<noteq> None" and cn: "curr (hbufs s (Fwd_Write f)) = None"
      using r True M(7,8) by (auto simp: fwd_ready_def get_pfd_def upd_fwd_def)
    then obtain x where x: "upd_pfd (f_pfd (forwards ?s1 f)) want_write ?s1 = Some (?s1\<lparr>pollfds := x\<rparr>)"
      "polls_output (f_pfd (forwards ?s1 f)) (pollfds ?s1) x" using want_write_slot by blast
    let ?s' = "upd_fwd f (f_ccr_update (\<lambda>_. 0)) (?s1\<lparr>pollfds := x\<rparr>)"
    have "process_tcp_forwardresp s = Some (0, ?s')"
      using f none True x(1) by (simp add: process_tcp_forwardresp_def Let_def splice_release [OF c(2)] M(7))
    moreover have same: "same_queue (moved f s) ?s'" by (simp add: same_queue_def upd_fwd_def)
    note S = same_queue_facts [OF same]
    have "fwd_writing f ?s'" using S(2,4) M(1,4) cn by (simp add: fwd_writing_def) (simp add: upd_fwd_def)
    moreover have "f_func (forwards ?s' f) = Fwd_Do_Write" "f_ccr (forwards ?s' f) = 0" by (simp_all add: upd_fwd_def)
    moreover have "polls_output (f_pfd (forwards s f)) (pollfds s) (pollfds ?s')" using x(2) M(7,8) by (simp add: upd_fwd_def)
    ultimately show thesis using S(1,4,6) M True by (intro that [of ?s']) simp_all
  qed
qed

lemma find_cong: "others s s' \<Longrightarrow> hb_seq (hbufs s' Prepare) = seq \<Longrightarrow>
  find_forward s' = List.find (\<lambda>f. seq = f_seq (forwards s f)) (list_forward s)"
  by (simp add: find_forward_def others_fields)

text \<open>Collecting a message leaves a connection ready for it.\<close>

lemma others_ready:
  assumes o: "others s s'" and ok: "pool_ok s'" and r: "fwd_ready f s"
  shows "fwd_ready f s'"
proof -
  note e = others_fields [OF o]
  have l: "blists s' (Fwd_Write f) = blists s (Fwd_Write f)" "hbufs s' (Fwd_Write f) = hbufs s (Fwd_Write f)"
    using o by (simp_all add: others_def)
  have b: "bufs s' b = bufs s b" if "b \<in> set (blists s (Fwd_Write f))" for b using others_bufs [OF o _ _ that] by simp
  show ?thesis using r b ok
    by (simp add: fwd_ready_def fwd_writing_def queue_ok_def buf_ok_def get_pfd_def next_buf_info_def e l)
qed

text \<open>C6: Data of the server for a forwarded connection reaches its queue. However the message is cut, its
  payload is appended to what waits for the connection with its number, behind everything that came before; no
  other queue changes, the next message can be read, and a connection that was idle is woken to write: its write coroutine
  is at its start, and its descriptor, and no other, is now polled for output.\<close>

theorem forward_data_queued:
  assumes "unsynced s" "\<forall>d \<in> set (ds @ [e]). d \<noteq> [] \<and> length d < 2048" "16 \<le> length (hd (ds @ [e]))"
    and "concat (ds @ [e]) = header_bytes (mk_header HTTP_C_FORWARD_REQ seq (of_nat (16 + length m))) @ m @ extra"
    and "length (concat ds) < 16 + length m" "0 < length m" "length m \<le> HTTP_IN_MAX - 16"
    and f: "List.find (\<lambda>f. seq = f_seq (forwards s f)) (list_forward s) = Some f" and r: "fwd_ready f s"
  shows "\<exists>s'. deliver (ds @ [e]) s = Some s' \<and> fwd_writing f s' \<and> content (Fwd_Write f) s' = content (Fwd_Write f) s @ m \<and>
    (\<forall>l. l \<notin> {Prepare, Buf_Caches, Fwd_Write f} \<longrightarrow> content l s' = content l s) \<and>
    \<not> sync_prepare s' \<and> curr (hbufs s' Prepare) = None \<and>
    (if f_idle (forwards s f) then f_func (forwards s' f) = Fwd_Do_Write \<and> f_ccr (forwards s' f) = 0 \<and>
       polls_output (f_pfd (forwards s f)) (pollfds s) (pollfds s')
     else pollfds s' = pollfds s)"
proof -
  obtain s1 where s1: "deliver (ds @ [e]) s = prepare_process s1" "others s s1" "collecting s1" "content Prepare s1 = m"
    "curr (hbufs s1 Prepare) = None" "hb_type (hbufs s1 Prepare) = HTTP_C_FORWARD_REQ" "hb_seq (hbufs s1 Prepare) = seq"
    by (rule delivered [OF assms(1-7)])
  have c: "queue_ok Prepare s1" "pool_ok s1" using s1(3) by (simp_all add: collecting_def)
  note e = others_fields(1,3) [OF s1(2)]
  obtain s2 where s2: "process_tcp_forwardresp s1 = Some (0, s2)" "fwd_writing f s2"
    "content (Fwd_Write f) s2 = content (Fwd_Write f) s1 @ m" "\<And>l. l \<noteq> Prepare \<Longrightarrow> l \<noteq> Fwd_Write f \<Longrightarrow> content l s2 = content l s1"
    "curr (hbufs s2 Prepare) = None" "blists s2 Prepare = []"
    "if f_idle (forwards s1 f) then f_func (forwards s2 f) = Fwd_Do_Write \<and> f_ccr (forwards s2 f) = 0 \<and>
       polls_output (f_pfd (forwards s1 f)) (pollfds s1) (pollfds s2)
     else pollfds s2 = pollfds s1"
    by (rule forwardresp_queues [OF c(1) s1(5) _ others_ready [OF s1(2) c(2) r]]) (use find_cong [OF s1(2,7)] f s1(4) in simp_all)
  let ?s3 = "upd_hb Prepare (\<lambda>h. h\<lparr>hb_len := 0, hb_total := 0, hb_type := 0\<rparr>) s2"
  let ?s4 = "(upd_hb Prepare (\<lambda>h. h\<lparr>hb_len := 0, hb_total := 0, hb_type := 0\<rparr>) ?s3)
    \<lparr>sync_prepare := False, calls := calls s2 @ [Time], sync_time := a_ret (answers s2 (length (calls s2)))\<rparr>"
  have eq: "prepare_process s1 = Some ?s4"
    using s1(6) s2(1) release_again [OF s2(5,6)]
    by (simp add: prepare_process_def Let_def HTTP_C_FORWARD_REQ_def HTTP_C_HAND_def HTTP_C_TUNNELREQ_def HTTP_C_TUNNELRESP_def
        HTTP_C_REQ_def HTTP_C_FORWARD_def get_time_def sys_def) (simp add: upd_hb_def)
  have "content l ?s4 = content l s2" for l by (simp add: content_def piece_def [abs_def] upd_hb_def)
  moreover have "fwd_writing f ?s4" using s2(2)
    by (simp add: fwd_writing_def queue_ok_def pool_ok_def buf_ok_def next_buf_info_def) (simp add: upd_hb_def next_buf_info_def)
  moreover have "curr (hbufs ?s4 Prepare) = None" "forwards ?s4 = forwards s2" "pollfds ?s4 = pollfds s2"
    using s2(5) by (simp_all add: upd_hb_def)
  moreover have "content l s1 = content l s" if "l \<noteq> Prepare" "l \<noteq> Buf_Caches" for l using others_content [OF s1(2) that] .
  ultimately show ?thesis using s1(1) eq s2(3,4,7) e by (intro exI [of _ ?s4]) (simp split: if_splits)
qed

section \<open>Examples\<close>

text \<open>Two bytes are queued and the system takes one at a time.\<close>

definition two_queued :: "blist \<Rightarrow> mgmt" where
  "two_queued l = (zero_mgmt (\<lambda>_. \<lparr>a_ret = 1, a_errno = 0, a_data = []\<rparr>) [])
     \<lparr>pollfds := [\<lparr>p_fd = 5, p_events = 0, p_revents = 0\<rparr>], forwards := \<lambda>_. zero_forward\<lparr>f_fd := 5, f_pfd := Some 0\<rparr>,
      ctxs := \<lambda>_. zero_context\<lparr>c_sockfd := 5, c_pfd := Some 0\<rparr>, blists := (\<lambda>_. [])(l := [3]),
      bufs := (\<lambda>_. zero_buf)(3 := zero_buf\<lparr>b_data := [7, 8] @ replicate (BUF_ROOM - 2) 0, b_len := 2, b_linked := True\<rparr>)\<rparr>"

lemma two_queued_ok: "queue_ok l (two_queued l)" "content l (two_queued l) = [7, 8]" "sent_on 5 (two_queued l) = []"
proof -
  have "tidy (blists (two_queued l)) (\<lambda>b. b_linked (bufs (two_queued l) b))"
    by (auto simp: two_queued_def zero_mgmt_def zero_buf_def tidy_def split: if_splits)
  then show "queue_ok l (two_queued l)"
    by (auto simp: two_queued_def zero_mgmt_def zero_buf_def queue_ok_def buf_ok_def pool_ok_def BUF_ROOM_def)
  show "content l (two_queued l) = [7, 8]" "sent_on 5 (two_queued l) = []"
    by (simp_all add: two_queued_def zero_mgmt_def zero_buf_def content_def piece_def BUF_ROOM_def sent_on_def)
qed

lemma forward_written_in_order_witness:
  "fwd_writing 0 (two_queued (Fwd_Write 0)) \<and>
   (\<exists>st s'. tcp_forward_write 0 (two_queued (Fwd_Write 0)) = Some (st, s') \<and> sent_on 5 s' @ content (Fwd_Write 0) s' = [7, 8])"
proof -
  let ?s = "two_queued (Fwd_Write 0)"
  have a: "fwd_writing 0 ?s" "get_pfd (f_pfd (forwards ?s 0)) ?s \<noteq> None" "f_fd (forwards ?s 0) = 5"
    using two_queued_ok(1) [of "Fwd_Write 0"]
    by (simp_all add: fwd_writing_def) (simp_all add: two_queued_def zero_mgmt_def zero_forward_def zero_hb_def get_pfd_def aget_def)
  then show ?thesis using forward_written_in_order [OF a(1,2)] two_queued_ok(2,3) [of "Fwd_Write 0"] by auto
qed

lemma request_written_in_order_witness:
  "req_writing 0 (two_queued (Ctx_Write 0)) \<and>
   (\<exists>st s'. http_context_write 0 (two_queued (Ctx_Write 0)) = Some (st, s') \<and> sent_on 5 s' @ content (Ctx_Write 0) s' = [7, 8])"
proof -
  let ?s = "two_queued (Ctx_Write 0)"
  have a: "req_writing 0 ?s" "get_pfd (c_pfd (ctxs ?s 0)) ?s \<noteq> None" "c_sockfd (ctxs ?s 0) = 5"
    using two_queued_ok(1) [of "Ctx_Write 0"]
    by (simp_all add: req_writing_def) (simp_all add: two_queued_def zero_mgmt_def zero_context_def get_pfd_def aget_def)
  then show ?thesis using request_written_in_order [OF a(1,2)] two_queued_ok(2,3) [of "Ctx_Write 0"] by auto
qed

definition one_connection :: mgmt where
  "one_connection = (stocked 21)\<lparr>list_forward := [0], forwards := \<lambda>_. zero_forward\<lparr>f_seq := 9, f_idle := True, f_pfd := Some 0\<rparr>,
     pollfds := [\<lparr>p_fd = 5, p_events = 0, p_revents = 0\<rparr>]\<rparr>"

lemma forward_data_queued_witness:
  "\<exists>s'. deliver [header_bytes (mk_header HTTP_C_FORWARD_REQ 9 18), [7, 8]] one_connection = Some s' \<and> content (Fwd_Write 0) s' = [7, 8] \<and>
     f_func (forwards s' 0) = Fwd_Do_Write \<and> polls_output (Some 0) [\<lparr>p_fd = 5, p_events = 0, p_revents = 0\<rparr>] (pollfds s')"
proof -
  have h: "length (header_bytes (mk_header HTTP_C_FORWARD_REQ 9 18)) = 16" by (simp add: header_bytes_def)
  then have n: "header_bytes (mk_header HTTP_C_FORWARD_REQ 9 18) \<noteq> []" by auto
  have u: "unsynced one_connection" using stocked_unsynced [of 21] by (simp add: one_connection_def unsynced_def pool_ok_def)
  then have "pool_ok one_connection" by (simp add: unsynced_def)
  then have r: "fwd_ready 0 one_connection"
    by (simp add: fwd_ready_def fwd_writing_def queue_ok_def)
      (simp add: one_connection_def stocked_def zero_mgmt_def zero_forward_def zero_hb_def get_pfd_def aget_def)
  have c: "content (Fwd_Write 0) one_connection = []" "f_idle (forwards one_connection 0)" "f_pfd (forwards one_connection 0) = Some 0"
    "pollfds one_connection = [\<lparr>p_fd = 5, p_events = 0, p_revents = 0\<rparr>]"
    "List.find (\<lambda>f. 9 = f_seq (forwards one_connection f)) (list_forward one_connection) = Some 0"
    by (simp_all add: content_def one_connection_def stocked_def zero_mgmt_def zero_forward_def)
  show ?thesis
    using forward_data_queued [of one_connection "[header_bytes (mk_header HTTP_C_FORWARD_REQ 9 18)]" "[7, 8]" 9 "[7, 8]" "[]" 0]
      u h n c r by (auto simp: HTTP_IN_MAX_def)
qed

end
