(* ===== verification/Header_Lines.thy ===== *)
theory Header_Lines
  imports Header_Parser
begin

text \<open>
  Whole sections of header lines read by \<open>libwebsocket_parse\<close>: what the store then holds for each line, what
  the accessors return, the empty line that ends the headers, and the request line.
\<close>

section \<open>Headers in the store\<close>

text \<open>Header \<open>h\<close> was seen once and has the value \<open>v\<close>.\<close>

definition stored :: "allocated_headers \<Rightarrow> nat \<Rightarrow> bytes \<Rightarrow> bool" where
  "stored ah h v \<longleftrightarrow>
     (let n = ah_frag_index ah ! h; f = ah_frags ah ! n in
        h < WSI_TOKEN_COUNT \<and> 0 < n \<and> n \<le> ah_next_frag ah \<and> frag_next f = 0 \<and> frag_len f = length v \<and>
        frag_offset f + length v < ah_pos ah \<and>
        take (length v + 1) (drop (frag_offset f) (ah_data ah)) = v @ [0] \<and> 0 \<notin> set v)"

definition absent :: "allocated_headers \<Rightarrow> nat \<Rightarrow> bool" where
  "absent ah h \<longleftrightarrow> h < WSI_TOKEN_COUNT \<and> ah_frag_index ah ! h = 0"

lemma stored_access:
  assumes "stored ah h v" and "ah_ok ah"
  obtains n f where "aget (ah_frag_index ah) h = Some n" "0 < n" "aget (ah_frags ah) n = Some f" "frag_next f = 0"
    "frag_len f = length v" "cstr (drop (frag_offset f) (ah_data ah)) = Some v"
proof -
  let ?n = "ah_frag_index ah ! h" and ?f = "ah_frags ah ! (ah_frag_index ah ! h)"
  have S: "h < WSI_TOKEN_COUNT" "0 < ?n" "?n \<le> ah_next_frag ah" "frag_next ?f = 0" "frag_len ?f = length v"
    "take (length v + 1) (drop (frag_offset ?f) (ah_data ah)) = v @ [0]" "0 \<notin> set v"
    using assms(1) by (simp_all add: stored_def Let_def)
  note D = ah_okD [OF assms(2)]
  have "drop (frag_offset ?f) (ah_data ah) = v @ 0 # drop (length v + 1) (drop (frag_offset ?f) (ah_data ah))"
    using append_take_drop_id [of "length v + 1" "drop (frag_offset ?f) (ah_data ah)"] unfolding S(6) by simp
  then have "cstr (drop (frag_offset ?f) (ah_data ah)) = Some v" using cstr_append [OF S(7)] by metis
  then show ?thesis using that [of ?n ?f] S D by (simp add: access_simps)
qed

lemma stored_total: "stored ah h v \<Longrightarrow> ah_ok ah \<Longrightarrow> lws_hdr_total_length ah h = Some (length v)"
  by (erule stored_access, assumption) (simp add: lws_hdr_total_length_def frag_chain_len.simps)

lemma stored_string:
  assumes "stored ah h v" "ah_ok ah"
  shows "\<exists>off. lws_hdr_simple_ptr ah h = Some (Some off) \<and> cstr (drop off (ah_data ah)) = Some v"
  using assms by (elim stored_access) (simp_all add: lws_hdr_simple_ptr_def)

lemma stored_copy:
  assumes "stored ah h v" "ah_ok ah" and "length v < length dest"
  shows "lws_hdr_copy ah dest h = Some (v @ [0] @ drop (length v + 1) dest, int (length v))"
proof -
  obtain n f where f: "aget (ah_frag_index ah) h = Some n" "0 < n" "aget (ah_frags ah) n = Some f" "frag_next f = 0"
    "frag_len f = length v" "cstr (drop (frag_offset f) (ah_data ah)) = Some v"
    using assms(1,2) by (rule stored_access)
  then have "hdr_copy_loop ah n dest 0 = Some (v @ [0] @ drop (length v + 1) dest)"
    using assms(3) by (subst hdr_copy_loop.simps) (simp add: access_simps)
  then show ?thesis using f assms(3) stored_total [OF assms(1,2)] by (simp add: lws_hdr_copy_def)
qed

lemma absent_access:
  assumes "absent ah h" "ah_ok ah"
  shows "lws_hdr_total_length ah h = Some 0" "lws_hdr_simple_ptr ah h = Some None"
  using assms ah_okD(1) [OF assms(2)]
  by (simp_all add: absent_def lws_hdr_total_length_def lws_hdr_simple_ptr_def access_simps)

section \<open>A line\<close>

lemma add_header_ok:
  assumes "ah_ok ah" "cur_sealed ah" and "h < WSI_TOKEN_COUNT"
    and "ah_next_frag ah + 1 < HDR_FRAGS" "ah_pos ah + length v < LWS_MAX_HEADER_LEN"
  shows "ah_ok (add_header ah h v)" "cur_sealed (add_header ah h v)"
proof -
  let ?ah = "add_header ah h v" and ?n = "ah_next_frag ah + 1"
  note D = ah_okD [OF assms(1)]
  have dat: "ah_data ?ah ! k = ah_data ah ! k" if "k < ah_pos ah" for k
    using that D by (simp add: add_header_def Let_def nth_append)
  have old: "ah_frags ?ah ! n = ah_frags ah ! n" if "n \<le> ah_next_frag ah" for n
    using that by (simp add: add_header_def Let_def)
  have new: "ah_frags ?ah ! ?n = \<lparr>frag_offset = ah_pos ah, frag_len = length v, frag_next = 0\<rparr>"
    using D assms(4) by (simp add: add_header_def Let_def)
  have sl: "sealed ?ah n lim" if "sealed ah n lim" "n \<le> ah_next_frag ah" "lim \<le> ah_pos ah" for n lim
  proof -
    from that(1) obtain k where k: "frag_offset (ah_frags ah ! n) \<le> k" "k < lim" "ah_data ah ! k = 0"
      by (auto simp: sealed_def)
    then show ?thesis unfolding sealed_def using dat [of k] old [OF that(2)] that(3) by (intro exI [of _ k]) simp
  qed
  have frag: "frag_ok ?ah n" if n: "0 < n" "n \<le> ?n" for n
  proof (cases "n = ?n")
    case True
    then show ?thesis unfolding frag_ok_def using new by (simp add: Let_def) (simp add: add_header_def Let_def)
  next
    case False
    then have n': "n \<le> ah_next_frag ah" using n by simp
    have ok: "frag_ok ah n" using assms(1) n n' by (simp add: ah_ok_def)
    have le: "frag_offset (ah_frags ah ! n) + frag_len (ah_frags ah ! n) \<le> ah_pos ah"
      and seal: "sealed ah n (ah_pos ah)"
    proof -
      have cur: "frag_ok ah (ah_next_frag ah)" using assms(1) n n' by (simp add: ah_ok_def)
      show "frag_offset (ah_frags ah ! n) + frag_len (ah_frags ah ! n) \<le> ah_pos ah"
        using ok cur by (auto simp: frag_ok_def Let_def split: if_splits)
      show "sealed ah n (ah_pos ah)"
      proof (cases "n = ah_next_frag ah")
        case True
        then show ?thesis using assms(2) n by (simp add: cur_sealed_def)
      next
        case False
        then have "sealed ah n (frag_offset (ah_frags ah ! ah_next_frag ah))"
          using ok by (simp add: frag_ok_def Let_def)
        moreover have "frag_offset (ah_frags ah ! ah_next_frag ah) \<le> ah_pos ah"
          using cur by (simp add: frag_ok_def Let_def)
        ultimately show ?thesis unfolding sealed_def by (meson order_less_le_trans)
      qed
    qed
    have "frag_next (ah_frags ah ! n) = 0 \<or> n < frag_next (ah_frags ah ! n) \<and> frag_next (ah_frags ah ! n) \<le> ah_next_frag ah"
      using ok by (simp add: frag_ok_def Let_def)
    moreover have "ah_next_frag ?ah = ?n" by (simp add: add_header_def Let_def)
    ultimately show ?thesis unfolding frag_ok_def using False old [OF n'] new le sl [OF seal n'] by (auto simp: Let_def)
  qed
  have "length (ah_frag_index ?ah) = WSI_TOKEN_COUNT" "length (ah_frags ?ah) = HDR_FRAGS"
    "length (ah_data ?ah) = LWS_MAX_HEADER_LEN" "ah_next_frag ?ah = ?n" "ah_pos ?ah \<le> LWS_MAX_HEADER_LEN"
    using D assms(5) by (simp_all add: add_header_def Let_def)
  moreover have "ah_frag_index ?ah ! k \<le> ?n" if "k < WSI_TOKEN_COUNT" for k
    using D(1,6) that by (cases "k = h") (simp_all add: add_header_def Let_def le_SucI)
  ultimately show "ah_ok ?ah" unfolding ah_ok_def using frag assms(4) by simp
  have "ah_data ?ah ! (ah_pos ah + length v) = 0"
    using D by (simp add: add_header_def Let_def nth_append)
  then have "sealed ?ah ?n (ah_pos ah + length v + 1)"
    unfolding sealed_def new by (intro exI [of _ "ah_pos ah + length v"]) simp
  then show "cur_sealed ?ah" by (simp add: cur_sealed_def) (simp add: add_header_def Let_def)
qed

lemma add_header_stored:
  assumes "ah_ok ah" and "h < WSI_TOKEN_COUNT"
    and "ah_next_frag ah + 1 < HDR_FRAGS" "ah_pos ah + length v < LWS_MAX_HEADER_LEN" "0 \<notin> set v"
  shows "stored (add_header ah h v) h v"
  using ah_okD [OF assms(1)] assms(2-) by (simp add: stored_def add_header_def Let_def)

lemma add_header_keeps:
  assumes "ah_ok ah" and "stored ah k u" "k \<noteq> h" "ah_next_frag ah + 1 < HDR_FRAGS"
  shows "stored (add_header ah h v) k u"
proof -
  let ?n = "ah_frag_index ah ! k" let ?off = "frag_offset (ah_frags ah ! ?n)"
  have S: "?n \<le> ah_next_frag ah" "?off + length u < ah_pos ah"
    "take (length u + 1) (drop ?off (ah_data ah)) = u @ [0]"
    using assms(2) by (simp_all add: stored_def Let_def)
  have "take (length u + 1) (drop ?off (ah_data (add_header ah h v)))
      = take (length u + 1) (drop ?off (take (ah_pos ah) (ah_data ah)))"
    using S(2) ah_okD(3,5) [OF assms(1)] by (simp add: add_header_def Let_def)
  also have "\<dots> = take (length u + 1) (drop ?off (ah_data ah))" using S(2) by (simp add: drop_take)
  finally have *: "take (length u + 1) (drop ?off (ah_data (add_header ah h v))) = u @ [0]" using S(3) by simp
  have fi: "ah_frag_index (add_header ah h v) ! k = ?n" using assms(3) by (simp add: add_header_def Let_def)
  have fr: "ah_frags (add_header ah h v) ! ?n = ah_frags ah ! ?n" using S(1) by (simp add: add_header_def Let_def)
  have nx: "ah_next_frag (add_header ah h v) = ah_next_frag ah + 1" "ah_pos (add_header ah h v) = ah_pos ah + length v + 1"
    by (simp_all add: add_header_def Let_def)
  show ?thesis using assms(2) * unfolding stored_def Let_def fi fr nx by simp
qed

section \<open>Sections of lines\<close>

text \<open>A line with a name in any letter case, any number of spaces, and its value.\<close>

record header_text =
  ln_name :: bytes
  ln_gap :: nat
  ln_token :: nat
  ln_value :: bytes

definition line_text :: "header_text \<Rightarrow> bytes" where
  "line_text l = ln_name l @ replicate (ln_gap l) 0x20 @ ln_value l @ [0x0d, 0x0a]"

definition line_ok :: "header_text \<Rightarrow> bool" where
  "line_ok l \<longleftrightarrow> ln_token l < length minilex_set \<and> map tolower (ln_name l) = minilex_set ! ln_token l \<and>
     ln_token l \<notin> {WSI_TOKEN_GET_URI, WSI_TOKEN_POST_URI, WSI_TOKEN_CHALLENGE, WSI_TOKEN_SWORIGIN} \<and>
     (\<forall>c \<in> set (ln_value l). value_byte c) \<and> (ln_value l \<noteq> [] \<longrightarrow> hd (ln_value l) \<noteq> 0x20)"

fun add_lines :: "header_text list \<Rightarrow> allocated_headers \<Rightarrow> allocated_headers" where
  "add_lines [] ah = ah"
| "add_lines (l # ls) ah = add_lines ls (add_header ah (ln_token l) (ln_value l))"

fun lines_size :: "header_text list \<Rightarrow> nat" where
  "lines_size [] = 0"
| "lines_size (l # ls) = length (ln_value l) + 1 + lines_size ls"

text \<open>The store takes the lines: it is well formed, they are new, and there is room.\<close>

definition takes_lines :: "allocated_headers \<Rightarrow> header_text list \<Rightarrow> bool" where
  "takes_lines ah ls \<longleftrightarrow> ah_ok ah \<and> cur_sealed ah \<and> list_all line_ok ls \<and> distinct (map ln_token ls) \<and>
     (\<forall>l \<in> set ls. absent ah (ln_token l)) \<and>
     ah_next_frag ah + length ls < HDR_FRAGS \<and> ah_pos ah + lines_size ls \<le> LWS_MAX_HEADER_LEN"

lemma line_okD:
  "line_ok l \<Longrightarrow> ln_token l < 31 \<and> 0 \<notin> set (ln_value l)"
  by (auto simp: line_ok_def length_minilex_set value_byte_def)

lemma add_header_fields:
  "ah_next_frag (add_header ah h v) = ah_next_frag ah + 1" "ah_pos (add_header ah h v) = ah_pos ah + length v + 1"
  "ah_frag_index (add_header ah h v) = (ah_frag_index ah)[h := ah_next_frag ah + 1]"
  by (simp_all add: add_header_def Let_def)

lemma absent_add_header: "absent (add_header ah h v) k \<longleftrightarrow> absent ah k" if "k \<noteq> h"
  using that by (simp add: absent_def add_header_fields)

lemma takes_lines_Cons:
  assumes "takes_lines ah (l # ls)"
  shows "takes_lines (add_header ah (ln_token l) (ln_value l)) ls"
    "ah_next_frag ah + 1 < HDR_FRAGS" "ah_pos ah + length (ln_value l) < LWS_MAX_HEADER_LEN" "line_ok l"
    "absent ah (ln_token l)" "ah_ok ah" "cur_sealed ah"
proof -
  show C: "ah_next_frag ah + 1 < HDR_FRAGS" "ah_pos ah + length (ln_value l) < LWS_MAX_HEADER_LEN" "line_ok l"
    "absent ah (ln_token l)" "ah_ok ah" "cur_sealed ah"
    using assms by (auto simp: takes_lines_def)
  have "ln_token l < WSI_TOKEN_COUNT" using line_okD [OF C(3)] by simp
  note add_header_ok [OF C(5,6) this C(1,2)]
  moreover have "absent (add_header ah (ln_token l) (ln_value l)) (ln_token m)" if "m \<in> set ls" for m
  proof -
    have "ln_token l \<notin> ln_token ` set ls" "absent ah (ln_token m)" using assms that by (simp_all add: takes_lines_def)
    moreover have "ln_token m \<in> ln_token ` set ls" using that by simp
    ultimately show ?thesis by (metis absent_add_header)
  qed
  ultimately show "takes_lines (add_header ah (ln_token l) (ln_value l)) ls"
    using assms by (simp add: takes_lines_def add_header_fields)
qed

lemma add_lines_ok:
  "takes_lines ah ls \<Longrightarrow> ah_ok (add_lines ls ah) \<and> cur_sealed (add_lines ls ah) \<and>
     ah_next_frag (add_lines ls ah) = ah_next_frag ah + length ls \<and> ah_pos (add_lines ls ah) = ah_pos ah + lines_size ls"
proof (induction ls arbitrary: ah)
  case (Cons l ls)
  from Cons.IH [OF takes_lines_Cons(1) [OF Cons.prems]] show ?case by (simp add: add_header_fields)
qed (simp add: takes_lines_def)

lemma add_lines_absent:
  "k \<notin> ln_token ` set ls \<Longrightarrow> absent (add_lines ls ah) k \<longleftrightarrow> absent ah k"
  by (induction ls arbitrary: ah) (auto simp: absent_add_header)

lemma add_lines_keeps:
  "takes_lines ah ls \<Longrightarrow> stored ah k u \<Longrightarrow> k \<notin> ln_token ` set ls \<Longrightarrow> stored (add_lines ls ah) k u"
proof (induction ls arbitrary: ah)
  case (Cons l ls)
  note C = takes_lines_Cons [OF Cons.prems(1)]
  have "stored (add_header ah (ln_token l) (ln_value l)) k u"
    by (rule add_header_keeps) (use C Cons.prems in auto)
  from Cons.IH [OF C(1) this] Cons.prems(3) show ?case by simp
qed simp

lemma add_lines_stored:
  "takes_lines ah ls \<Longrightarrow> l \<in> set ls \<Longrightarrow> stored (add_lines ls ah) (ln_token l) (ln_value l)"
proof (induction ls arbitrary: ah)
  case (Cons m ls)
  note C = takes_lines_Cons [OF Cons.prems(1)]
  have m: "stored (add_header ah (ln_token m) (ln_value m)) (ln_token m) (ln_value m)"
    by (rule add_header_stored) (use C line_okD [OF C(4)] in auto)
  show ?case
  proof (cases "l = m")
    case True
    have "ln_token m \<notin> ln_token ` set ls" using Cons.prems(1) by (simp add: takes_lines_def)
    from add_lines_keeps [OF C(1) m this] True show ?thesis by simp
  next
    case False
    then show ?thesis using Cons.IH [OF C(1)] Cons.prems(2) by simp
  qed
qed simp

section \<open>Reading the lines\<close>

text \<open>The parser between two lines.\<close>

definition at_name :: "hdr_wsi \<Rightarrow> bool" where
  "at_name w \<longleftrightarrow> parser_state w = WSI_TOKEN_NAME_PART \<and> lextable_pos w = 0 \<and> hdr_ues w = URIES_IDLE"

lemma at_name_ok: "at_name w \<Longrightarrow> ah_ok (hdr_ah w) \<Longrightarrow> cur_sealed (hdr_ah w) \<Longrightarrow> hdr_ok w"
  using lex_at_start by (simp add: at_name_def hdr_ok_def)

lemma parse_lines:
  assumes "at_name w" "takes_lines (hdr_ah w) ls"
  shows "parse_bytes w (concat (map line_text ls)) = Some (w\<lparr>hdr_ah := add_lines ls (hdr_ah w)\<rparr>, 0)"
  using assms
proof (induction ls arbitrary: w)
  case (Cons l ls)
  note C = takes_lines_Cons [OF Cons.prems(2)]
  have ok: "hdr_ok w" using at_name_ok Cons.prems(1) C by blast
  let ?w = "w\<lparr>hdr_ah := add_header (hdr_ah w) (ln_token l) (ln_value l)\<rparr>"
  have z: "w\<lparr>hdr_ah := a, lextable_pos := 0\<rparr> = w\<lparr>hdr_ah := a\<rparr>" for a
    using Cons.prems(1) by (simp add: at_name_def)
  have "parse_bytes w (line_text l) = Some (?w, 0)"
    using parse_header_spaces [of w "ln_token l" "ln_name l" "ln_value l" "ln_gap l"] ok Cons.prems(1) C
    by (simp add: z line_text_def at_name_def line_ok_def absent_def)
  moreover have "parse_bytes ?w (concat (map line_text ls)) = Some (?w\<lparr>hdr_ah := add_lines ls (hdr_ah ?w)\<rparr>, 0)"
    by (rule Cons.IH) (use Cons.prems C in \<open>simp_all add: at_name_def\<close>)
  ultimately show ?case by (simp add: parse_bytes_append)
qed simp

text \<open>The empty line.\<close>

lemma lex_crlf:
  "lextable_decode 0 13 = Some 204" "lextable_decode 204 10 = Some 206" "lextable ! 205 \<noteq> 0"
  "lextable ! 206 = 138" "lextable ! 207 = 0" "length lextable > 207"
  by code_simp+

lemma parse_cr:
  assumes "at_name w" "ah_ok (hdr_ah w)"
  shows "libwebsocket_parse w 13 = Some (w\<lparr>lextable_pos := 204\<rparr>, 0)"
  using assms ah_okD(1) [OF assms(2)] lex_crlf
  by (simp add: libwebsocket_parse_eq at_name_def parse_name_part_def access_simps)

text \<open>The revision the version header asks for.\<close>

definition revision :: "hdr_wsi \<Rightarrow> bytes option \<Rightarrow> bytes option \<Rightarrow> u8" where
  "revision w up ver = (case (up, ver) of
     (Some u, Some v) \<Rightarrow> if u \<noteq> [] \<and> v \<noteq> [] then word_of_int (c_atoi v) else ietf_spec_revision w
   | _ \<Rightarrow> ietf_spec_revision w)"

text \<open>A header that is stored, or was not seen.\<close>

definition holds_header :: "allocated_headers \<Rightarrow> nat \<Rightarrow> bytes option \<Rightarrow> bool" where
  "holds_header ah h v \<longleftrightarrow> (case v of None \<Rightarrow> absent ah h | Some v \<Rightarrow> stored ah h v)"

lemma holds_total:
  "holds_header ah h v \<Longrightarrow> ah_ok ah \<Longrightarrow> lws_hdr_total_length ah h = Some (case v of None \<Rightarrow> 0 | Some v \<Rightarrow> length v)"
  by (simp add: holds_header_def stored_total absent_access split: option.splits)

lemma parse_lf:
  assumes "at_name w" "ah_ok (hdr_ah w)" "holds_header (hdr_ah w) WSI_TOKEN_UPGRADE up" "holds_header (hdr_ah w) WSI_TOKEN_VERSION ver"
  shows "libwebsocket_parse (w\<lparr>lextable_pos := 204\<rparr>) 10 = Some (w\<lparr>lextable_pos := 206, ietf_spec_revision := revision w up ver,
    parser_state := WSI_PARSING_COMPLETE, hdr_parsing_completed := True\<rparr>, 0)"
proof -
  have "libwebsocket_parse (w\<lparr>lextable_pos := 204\<rparr>) 10
      = set_parsing_complete (w\<lparr>lextable_pos := 206, parser_state := WSI_TOKEN_CHALLENGE\<rparr>)"
    using assms ah_okD(1) [OF assms(2)] lex_crlf
    by (simp add: libwebsocket_parse_eq at_name_def parse_name_part_def access_simps)
  moreover have "lws_hdr_total_length (hdr_ah w) WSI_TOKEN_UPGRADE = Some (case up of None \<Rightarrow> 0 | Some v \<Rightarrow> length v)"
    "lws_hdr_total_length (hdr_ah w) WSI_TOKEN_VERSION = Some (case ver of None \<Rightarrow> 0 | Some v \<Rightarrow> length v)"
    using holds_total assms by blast+
  moreover have "\<exists>off. lws_hdr_simple_ptr (hdr_ah w) WSI_TOKEN_VERSION = Some (Some off) \<and>
      cstr (drop off (ah_data (hdr_ah w))) = Some v" if "ver = Some v" for v
    using stored_string assms(2,4) that by (simp add: holds_header_def)
  ultimately show ?thesis by (auto simp: set_parsing_complete_def revision_def Let_def split: option.splits)
qed

section \<open>The request line\<close>

text \<open>A path stored as it is sent: no escapes, arguments, empty segments or segments that start with a dot.\<close>

fun plain_path :: "bool \<Rightarrow> bytes \<Rightarrow> bool" where
  "plain_path slash [] \<longleftrightarrow> True"
| "plain_path slash (c # cs) \<longleftrightarrow> value_byte c \<and> c \<noteq> 0x20 \<and> c \<noteq> 0x25 \<and> (slash \<longrightarrow> c \<noteq> 0x2f \<and> c \<noteq> 0x2e) \<and>
     plain_path (c = 0x2f) cs"

definition path_state :: "bool \<Rightarrow> uri_path_states" where
  "path_state slash = (if slash then URIPS_SEEN_SLASH else URIPS_IDLE)"

lemma plain_path_no_nul: "plain_path s u \<Longrightarrow> 0 \<notin> set u"
  by (induction s u rule: plain_path.induct) (auto simp: value_byte_def)

lemma parse_path_run:
  assumes "length (ah_data ah) = LWS_MAX_HEADER_LEN" "length (ah_frags ah) = HDR_FRAGS"
    "length (ah_frag_index ah) = WSI_TOKEN_COUNT"
    and "hdr_ah w = ah" and "parser_state w = WSI_TOKEN_GET_URI" and "hdr_ues w = URIES_IDLE"
    and "hdr_ups w = path_state s" and "plain_path s v"
    and "ah_frag_index ah ! WSI_TOKEN_GET_URI = ah_next_frag ah" "ah_next_frag ah < HDR_FRAGS"
    and "ah_pos ah + length v \<le> LWS_MAX_HEADER_LEN"
  shows "\<exists>u. parse_bytes w v = Some (w\<lparr>hdr_ah := append_value ah v, hdr_ups := u\<rparr>, 0)"
  using assms
proof (induction v arbitrary: w ah s)
  case Nil
  then show ?case by (intro exI [of _ "hdr_ups w"]) (simp add: append_value_Nil)
next
  case (Cons c v)
  let ?ah = "append_value ah [c]"
  have app: "issue_char ah c = Some (?ah, 0)"
    by (rule issue_char_append) (use Cons.prems in \<open>auto simp: value_byte_def\<close>)
  have step: "libwebsocket_parse w c = Some (w\<lparr>hdr_ah := ?ah, hdr_ups := path_state (c = 0x2f)\<rparr>, 0)"
    using Cons.prems app
    by (auto simp: libwebsocket_parse_eq parse_value_def parse_uri_esc_def parse_uri_path_def parse_check_eol_def
        parse_spill_def parse_swallow_def access_simps value_byte_def path_state_def split: if_splits)
  let ?w = "w\<lparr>hdr_ah := ?ah, hdr_ups := path_state (c = 0x2f)\<rparr>"
  have "\<exists>u. parse_bytes ?w v = Some (?w\<lparr>hdr_ah := append_value ?ah v, hdr_ups := u\<rparr>, 0)"
    by (rule Cons.IH [of ?ah _ "c = 0x2f"]) (use Cons.prems in \<open>auto simp: append_value_def Let_def\<close>)
  with step append_value_Cons [of ah c v] Cons.prems show ?case by auto
qed

definition request_text :: "bytes \<Rightarrow> bytes" where
  "request_text uri = str ''GET '' @ uri @ str '' HTTP/1.1'' @ [0x0d, 0x0a]"

lemma skip_run:
  "parser_state w = WSI_TOKEN_SKIPPING \<Longrightarrow> 0x0d \<notin> set v \<Longrightarrow> parse_bytes w v = Some (w, 0)"
  by (induction v) (auto simp: libwebsocket_parse_eq)

lemma parse_request_line:
  assumes "at_name w" "hdr_ups w = URIPS_IDLE" "ah_ok (hdr_ah w)" "cur_sealed (hdr_ah w)"
    and "absent (hdr_ah w) WSI_TOKEN_GET_URI" and "plain_path False uri" "uri \<noteq> []"
    and "ah_next_frag (hdr_ah w) + 1 < HDR_FRAGS" "ah_pos (hdr_ah w) + length uri < LWS_MAX_HEADER_LEN"
  shows "\<exists>u. parse_bytes w (request_text uri)
    = Some (w\<lparr>hdr_ah := add_header (hdr_ah w) WSI_TOKEN_GET_URI uri, hdr_ups := u\<rparr>, 0)"
proof -
  define ah where "ah = hdr_ah w"
  note D = ah_okD [OF assms(3) [folded ah_def]]
  let ?n = "ah_next_frag ah + 1"
  define ah1 where "ah1 = ah\<lparr>ah_next_frag := ?n, ah_frag_index := (ah_frag_index ah)[0 := ?n],
    ah_frags := (ah_frags ah)[?n := \<lparr>frag_offset = ah_pos ah, frag_len = 0, frag_next = 0\<rparr>]\<rparr>"
  have name: "map tolower (str ''GET '') = minilex_set ! 0" by (simp add: minilex_set_def str_def tolower_def)
  have run: "lex_run (lextable_pos w) (str ''GET '') = Some (word_of_nat 0)"
    using name assms(1) by (simp add: lex_run_words at_name_def length_minilex_set)
  then obtain q where q: "parse_bytes w (str ''GET '') = do {
      (w', r) \<leftarrow> start_fragment (w\<lparr>lextable_pos := q, parser_state := 0\<rparr>);
      if r < 0 then Some (w', r) else Some (w', 0) }"
    using parse_name_run [OF at_name_ok [OF assms(1,3,4)] _ run] assms(1,5) by (auto simp: at_name_def absent_def)
  let ?w1 = "w\<lparr>lextable_pos := q, parser_state := 0, hdr_ah := ah1\<rparr>"
  have p1: "parse_bytes w (str ''GET '') = Some (?w1, 0)"
    unfolding q using assms(5,8) D(1,2)
    by (simp add: start_fragment_def Let_def open_frag_def set_frag_index_def access_simps absent_def
        ah_def [symmetric] ah1_def)
  have idx1: "length (ah_data ah1) = LWS_MAX_HEADER_LEN" "length (ah_frags ah1) = HDR_FRAGS"
    "length (ah_frag_index ah1) = WSI_TOKEN_COUNT" "ah_frag_index ah1 ! 0 = ah_next_frag ah1"
    "ah_next_frag ah1 < HDR_FRAGS" "frag_len (ah_frags ah1 ! ah_next_frag ah1) = 0"
    "ah_pos ah1 = ah_pos ah"
    using D assms(8) by (simp_all add: ah1_def ah_def)
  obtain u where p2: "parse_bytes ?w1 uri = Some (?w1\<lparr>hdr_ah := append_value ah1 uri, hdr_ups := u\<rparr>, 0)"
    using parse_path_run [of ah1 ?w1 False uri] idx1 assms by (auto simp: at_name_def path_state_def ah_def)
  let ?w2 = "?w1\<lparr>hdr_ah := append_value ah1 uri, hdr_ups := u\<rparr>"
  let ?ah3 = "add_header ah 0 uri"
  have "issue_char (append_value ah1 uri) 0 = Some (?ah3, 0)"
    using idx1 assms(9) D by (simp add: issue_char_def put_data_def append_value_def Let_def access_simps
        add_header_def ah1_def list_update_append Cons_nth_drop_Suc [symmetric] ah_def)
  then have p3: "libwebsocket_parse ?w2 0x20 = Some (?w2\<lparr>parser_state := WSI_TOKEN_SKIPPING, hdr_ah := ?ah3\<rparr>, 0)"
    using idx1 assms(7)
    by (auto simp: libwebsocket_parse_eq parse_value_def parse_spill_def parse_swallow_def access_simps
        append_value_def Let_def cur_frag_def)
  have p4: "parse_bytes (?w2\<lparr>parser_state := WSI_TOKEN_SKIPPING, hdr_ah := ?ah3\<rparr>) (str ''HTTP/1.1'' @ [0x0d, 0x0a])
      = Some (w\<lparr>hdr_ah := ?ah3, hdr_ups := u\<rparr>, 0)"
    using assms(1) by (subst parse_bytes_append [OF skip_run])
      (auto simp: str_def libwebsocket_parse_eq at_name_def)
  have "parse_bytes w (str ''GET '' @ uri @ 0x20 # (str ''HTTP/1.1'' @ [0x0d, 0x0a]))
      = Some (w\<lparr>hdr_ah := ?ah3, hdr_ups := u\<rparr>, 0)"
    unfolding parse_bytes_append [OF p1] parse_bytes_append [OF p2] using p3 p4 by simp
  moreover have "request_text uri = str ''GET '' @ uri @ 0x20 # (str ''HTTP/1.1'' @ [0x0d, 0x0a])"
    by (simp add: request_text_def str_def)
  ultimately show ?thesis by (auto simp: ah_def)
qed

end
