(* ===== verification/Session.thy ===== *)
theory Session
  imports Header_Parser Ws_Rx Sha1 Base64
begin

text \<open>
  A connection between its headers and its frames: the descriptor table of the context and the closing of a
  connection (\<open>lib/libwebsockets.c\<close>). The connection is the record \<open>session\<close>, the parts of
  \<open>struct libwebsocket\<close> the theories of the header store and of the frames have, with the members of the
  context they use. A pointer to the header store is \<open>NULL\<close>, valid or dangling; using a store that was freed,
  freeing it twice and using a connection that was freed are \<open>None\<close>.

  The callbacks of the user's protocols and of the extensions are parameters: they see the connection and may
  change it.
\<close>

section \<open>State\<close>

datatype ah_ptr = Ah_null | Ah_valid | Ah_dangling

datatype pending_timeout =
    NO_PENDING_TIMEOUT | PENDING_TIMEOUT_AWAITING_PROXY_RESPONSE | PENDING_TIMEOUT_AWAITING_CONNECT_RESPONSE
  | PENDING_TIMEOUT_ESTABLISH_WITH_SERVER | PENDING_TIMEOUT_AWAITING_SERVER_RESPONSE
  | PENDING_TIMEOUT_AWAITING_PING | PENDING_TIMEOUT_CLOSE_ACK
  | PENDING_TIMEOUT_AWAITING_EXTENSION_CONNECT_RESPONSE | PENDING_TIMEOUT_SENT_CLIENT_HANDSHAKE
  | PENDING_TIMEOUT_SSL_ACCEPT | PENDING_TIMEOUT_HTTP_CONTENT

abbreviation (input) "AWAITING_TIMEOUT \<equiv> (5::int)"
abbreviation (input) "LWS_MAX_EXTENSIONS_ACTIVE \<equiv> (3::nat)"
abbreviation (input) "LWS_CLOSE_STATUS_NOSTATUS \<equiv> (0::u16)"
abbreviation (input) "LWS_CLOSE_STATUS_PROTOCOL_ERR \<equiv> (1002::u16)"

datatype ss_reason =
    LWS_CALLBACK_ESTABLISHED | LWS_CALLBACK_CLOSED | LWS_CALLBACK_CLOSED_HTTP | LWS_CALLBACK_WSI_DESTROY
  | LWS_CALLBACK_FILTER_PROTOCOL_CONNECTION | LWS_CALLBACK_CONFIRM_EXTENSION_OKAY
  | LWS_CALLBACK_FILTER_HTTP_CONNECTION | LWS_CALLBACK_HTTP | LWS_CALLBACK_HTTP_BODY
  | LWS_CALLBACK_HTTP_BODY_COMPLETION
  | LWS_CALLBACK_CLIENT_CONNECTION_ERROR | LWS_CALLBACK_CLIENT_FILTER_PRE_ESTABLISH
  | LWS_CALLBACK_CLIENT_ESTABLISHED | LWS_CALLBACK_CLIENT_CONFIRM_EXTENSION_SUPPORTED
  | LWS_CALLBACK_CLIENT_APPEND_HANDSHAKE_HEADER
  | LWS_CALLBACK_FILTER_NETWORK_CONNECTION | LWS_CALLBACK_SERVER_NEW_CLIENT_INSTANTIATED | LWS_CALLBACK_WSI_CREATE
  | LWS_CALLBACK_PROTOCOL_DESTROY
  | LWS_CALLBACK_CHANGE_MODE_POLL_FD | LWS_CALLBACK_LOCK_POLL | LWS_CALLBACK_UNLOCK_POLL | LWS_CALLBACK_ADD_POLL_FD | LWS_CALLBACK_DEL_POLL_FD

datatype ss_ext_reason =
    LWS_EXT_CALLBACK_CONSTRUCT | LWS_EXT_CALLBACK_CLIENT_CONSTRUCT | LWS_EXT_CALLBACK_HANDSHAKE_REPLY_TX
  | LWS_EXT_CALLBACK_CHECK_OK_TO_REALLY_CLOSE | LWS_EXT_CALLBACK_FLUSH_PENDING_TX | LWS_EXT_CALLBACK_DESTROY
  | LWS_EXT_CALLBACK_DESTROY_ANY_WSI_CLOSING | LWS_EXT_CALLBACK_ANY_WSI_ESTABLISHED
  | LWS_EXT_CALLBACK_CHECK_OK_TO_PROPOSE_EXTENSION | LWS_EXT_CALLBACK_CAN_PROXY_CLIENT_CONNECTION
  | LWS_EXT_CALLBACK_1HZ | LWS_EXT_CALLBACK_PACKET_RX_PREPARSE

text \<open>\<open>struct _lws_http_mode_related\<close>. An open file is its contents and the offset of its descriptor.\<close>

record http_related =
  ht_file :: "(bytes \<times> nat) option"
  filepos :: nat
  filelen :: nat
  content_length :: int
  content_length_seen :: int
  body_index :: nat
  post_buffer :: "bytes option"

text \<open>The descriptor table of the context; connections are numbered, \<open>ft_pos\<close> is the
  \<open>position_in_fds_table\<close> of each.\<close>

record fd_slot =
  sl_fd :: int
  sl_events :: u16
  sl_revents :: u16

record fd_table =
  ft_fds :: "fd_slot list"
  ft_lookup :: "nat option list"
  ft_count :: int
  ft_max :: int
  ft_pos :: "nat \<Rightarrow> int"

text \<open>\<open>setsockopt\<close> and \<open>read\<close> answer from scripts. The end of the first means success; an answer of the
  second is an error or the most bytes it gives, and its end means as many as asked for. \<open>ss_rx_at\<close> tells that
  the bytes being read are the first of the service buffer, and how many; \<open>None\<close> is a buffer of their own. \<open>ss_port\<close> is the \<open>c_port\<close> of the header store.\<close>

record 'x session =
  ss_ws :: "'x wsi"
  ss_id :: nat
  ss_sock :: int
  ss_ah :: ah_ptr
  ss_hdr :: hdr_wsi
  ss_expected :: bytes
  ss_http :: http_related
  ss_protocol :: "nat option"
  ss_exts :: "nat list"
  ss_user :: bool
  ss_timeout :: "pending_timeout \<times> int"
  ss_gone :: bool
  ss_service :: bytes
  ss_fds :: fd_table
  ss_now :: int
  ss_sockopts :: "bool list"
  ss_reads :: "nat option list"
  ss_rx_at :: "nat option"
  ss_port :: nat

record protocol =
  pr_name :: "bytes option"
  pr_rx_size :: nat
  pr_session :: bool

record 'x ss_cfg =
  sc_protocols :: "protocol list"
  sc_ext_names :: "bytes list"
  sc_user :: "nat \<Rightarrow> ss_reason \<Rightarrow> bytes \<Rightarrow> 'x session \<Rightarrow> int \<times> 'x session"
  sc_ext :: "nat \<Rightarrow> ss_ext_reason \<Rightarrow> bytes \<Rightarrow> 'x session \<Rightarrow> int \<times> bytes \<times> 'x session"
  sc_lws :: "'x session \<Rightarrow> 'x lws_cfg"

definition upd_ws :: "('x wsi \<Rightarrow> 'x wsi) \<Rightarrow> 'x session \<Rightarrow> 'x session" where
  "upd_ws f s = s\<lparr>ss_ws := f (ss_ws s)\<rparr>"

definition libwebsocket_set_timeout :: "pending_timeout \<Rightarrow> int \<Rightarrow> 'x session \<Rightarrow> 'x session" where
  "libwebsocket_set_timeout reason secs s = s\<lparr>ss_timeout := (reason, ss_now s + secs)\<rparr>"

text \<open>The callback of the connection's protocol; a call through a \<open>NULL\<close> protocol or the end of the list is
  undefined.\<close>

definition user_cb :: "'x ss_cfg \<Rightarrow> ss_reason \<Rightarrow> bytes \<Rightarrow> 'x session \<Rightarrow> (int \<times> 'x session) option" where
  "user_cb cfg r d s = (case ss_protocol s of
     None \<Rightarrow> None
   | Some p \<Rightarrow> if p < length (sc_protocols cfg) then Some (sc_user cfg p r d s) else None)"

definition user_cb0 :: "'x ss_cfg \<Rightarrow> ss_reason \<Rightarrow> bytes \<Rightarrow> 'x session \<Rightarrow> 'x session" where
  "user_cb0 cfg r d s = snd (sc_user cfg 0 r d s)"

definition env_sockopt :: "'x session \<Rightarrow> bool \<times> 'x session" where
  "env_sockopt s = (case ss_sockopts s of [] \<Rightarrow> (True, s) | b # bs \<Rightarrow> (b, s\<lparr>ss_sockopts := bs\<rparr>))"

definition libwebsocket_ensure_user_space :: "'x ss_cfg \<Rightarrow> 'x session \<Rightarrow> (int \<times> 'x session) option" where
  "libwebsocket_ensure_user_space cfg s = (case ss_protocol s of
     None \<Rightarrow> Some (1, s)
   | Some p \<Rightarrow>
       if length (sc_protocols cfg) \<le> p then None
       else if pr_session (sc_protocols cfg ! p) \<and> \<not> ss_user s then
         (case env_malloc (ss_ws s) of (ok, w) \<Rightarrow>
            Some (if ok then (0, s\<lparr>ss_ws := w, ss_user := True\<rparr>) else (1, s\<lparr>ss_ws := w\<rparr>)))
       else Some (0, s))"

section \<open>The header store\<close>

definition the_ah :: "'x session \<Rightarrow> allocated_headers option" where
  "the_ah s = (if ss_ah s = Ah_valid then Some (hdr_ah (ss_hdr s)) else None)"

definition free_ah :: "'x session \<Rightarrow> 'x session option" where
  "free_ah s = (case ss_ah s of
     Ah_null \<Rightarrow> Some s | Ah_valid \<Rightarrow> Some (s\<lparr>ss_ah := Ah_dangling\<rparr>) | Ah_dangling \<Rightarrow> None)"

definition hdr_total :: "'x session \<Rightarrow> nat \<Rightarrow> nat option" where
  "hdr_total s h = do { ah \<leftarrow> the_ah s; lws_hdr_total_length ah h }"

text \<open>The string \<open>lws_hdr_simple_ptr\<close> points to.\<close>

definition hdr_string :: "'x session \<Rightarrow> nat \<Rightarrow> bytes option option" where
  "hdr_string s h = do {
     ah \<leftarrow> the_ah s;
     p \<leftarrow> lws_hdr_simple_ptr ah h;
     case p of
       None \<Rightarrow> Some None
     | Some off \<Rightarrow> do { t \<leftarrow> cstr (drop off (ah_data ah)); Some (Some t) } }"

section \<open>The descriptor table\<close>

definition insert_slot :: "nat \<Rightarrow> int \<Rightarrow> fd_table \<Rightarrow> fd_table option" where
  "insert_slot i sock t = do {
     lookup \<leftarrow> (if sock < 0 then None else aset (ft_lookup t) (nat sock) (Some i));
     fds \<leftarrow> (if ft_count t < 0 then None
            else aset (ft_fds t) (nat (ft_count t)) \<lparr>sl_fd = sock, sl_events = 1, sl_revents = 0\<rparr>);
     Some (t\<lparr>ft_lookup := lookup, ft_pos := (ft_pos t)(i := ft_count t), ft_fds := fds, ft_count := ft_count t + 1\<rparr>) }"

definition insert_wsi_socket_into_fds :: "'x ss_cfg \<Rightarrow> 'x session \<Rightarrow> (int \<times> 'x session) option" where
  "insert_wsi_socket_into_fds cfg s =
     (if ft_max (ss_fds s) \<le> ft_count (ss_fds s) \<or> ft_max (ss_fds s) \<le> ss_sock s then Some (1, s)
      else if ss_sock s < 0 then None
      else
        let s = user_cb0 cfg LWS_CALLBACK_LOCK_POLL [] s
        in do {
          t \<leftarrow> insert_slot (ss_id s) (ss_sock s) (ss_fds s);
          let s = upd_ws (\<lambda>w. w\<lparr>ws_pollin := True, ws_pollout := False\<rparr>) (s\<lparr>ss_fds := t\<rparr>);
          let s = user_cb0 cfg LWS_CALLBACK_ADD_POLL_FD [] s;
          Some (0, user_cb0 cfg LWS_CALLBACK_UNLOCK_POLL [] s) })"

text \<open>The events of the slot at the connection's position are \<open>ws_pollin\<close> (bit 0) and \<open>ws_pollout\<close> (bit 2).\<close>

definition lws_change_pollfd :: "'x ss_cfg \<Rightarrow> u16 \<Rightarrow> u16 \<Rightarrow> 'x session \<Rightarrow> 'x session option" where
  "lws_change_pollfd cfg off on s =
     (if ft_pos (ss_fds s) (ss_id s) < 0 then None
      else
        let s = user_cb0 cfg LWS_CALLBACK_LOCK_POLL [] s;
            s = upd_ws (\<lambda>w. w\<lparr>ws_pollin := (ws_pollin w \<and> \<not> bit off 0 \<or> bit on 0),
                  ws_pollout := (ws_pollout w \<and> \<not> bit off 2 \<or> bit on 2)\<rparr>) s;
            s = user_cb0 cfg LWS_CALLBACK_CHANGE_MODE_POLL_FD [] s
        in Some (user_cb0 cfg LWS_CALLBACK_UNLOCK_POLL [] s))"

text \<open>The last slot takes the place of the vacant one; the count is already one less.\<close>

definition vacate_slot :: "nat \<Rightarrow> int \<Rightarrow> fd_table \<Rightarrow> fd_table option" where
  "vacate_slot i sock t =
     (let m = ft_pos t i in
      if m < 0 \<or> ft_count t < 0 then None
      else do {
        end' \<leftarrow> aget (ft_fds t) (nat (ft_count t));
        fds \<leftarrow> aset (ft_fds t) (nat m) end';
        w \<leftarrow> (if sl_fd end' < 0 then None else Option.bind (aget (ft_lookup t) (nat (sl_fd end'))) id);
        lookup \<leftarrow> (if sock < 0 then None else aset (ft_lookup t) (nat sock) None);
        Some (t\<lparr>ft_fds := fds, ft_lookup := lookup, ft_pos := (ft_pos t)(w := m, i := -1)\<rparr>) })"

definition remove_wsi_socket_from_fds :: "'x ss_cfg \<Rightarrow> 'x session \<Rightarrow> (int \<times> 'x session) option" where
  "remove_wsi_socket_from_fds cfg s =
     (let s = s\<lparr>ss_fds := (ss_fds s)\<lparr>ft_count := ft_count (ss_fds s) - 1\<rparr>\<rparr>;
          do_ext = (\<lambda>s.
            let s = (if ss_sock s \<noteq> 0 then user_cb0 cfg LWS_CALLBACK_DEL_POLL_FD [] s else s)
            in Some (0, user_cb0 cfg LWS_CALLBACK_UNLOCK_POLL [] s))
      in if ft_count (ss_fds s) = 0 then do_ext (user_cb0 cfg LWS_CALLBACK_LOCK_POLL [] s)
      else if ft_max (ss_fds s) < ss_sock s then Some (1, s)
      else
        let s = user_cb0 cfg LWS_CALLBACK_LOCK_POLL [] s
        in do {
          t \<leftarrow> vacate_slot (ss_id s) (ss_sock s) (ss_fds s);
          do_ext (s\<lparr>ss_fds := t\<rparr>) })"

section \<open>Closing\<close>

text \<open>The walk over the active extensions: \<open>stop\<close> tells which answers end it.\<close>

fun exts_walk :: "'x ss_cfg \<Rightarrow> ss_ext_reason \<Rightarrow> (int \<Rightarrow> bool) \<Rightarrow> bytes \<Rightarrow> nat list \<Rightarrow> 'x session \<Rightarrow> bool \<times> 'x session" where
  "exts_walk cfg r stop d [] s = (False, s)"
| "exts_walk cfg r stop d (e # es) s =
     (case sc_ext cfg e r d s of (m, _, s) \<Rightarrow> if stop m then (True, s) else exts_walk cfg r stop d es s)"

text \<open>One round of the flush: what the extensions left to send, whether one of them has more, and whether one
  failed.\<close>

fun exts_flush :: "'x ss_cfg \<Rightarrow> nat list \<Rightarrow> bytes \<Rightarrow> bool \<Rightarrow> 'x session \<Rightarrow> bool \<times> bytes \<times> bool \<times> 'x session" where
  "exts_flush cfg [] d again s = (True, d, again, s)"
| "exts_flush cfg (e # es) d again s =
     (case sc_ext cfg e LWS_EXT_CALLBACK_FLUSH_PENDING_TX d s of (m, d, s) \<Rightarrow>
        if m < 0 then (False, d, again, s) else exts_flush cfg es d (again \<or> m \<noteq> 0) s)"

partial_function (option) close_flush :: "'x ss_cfg \<Rightarrow> 'x session \<Rightarrow> (bool \<times> 'x session) option" where
  "close_flush cfg s =
     (case exts_flush cfg (ss_exts s) [] False s of (ok, d, again, s) \<Rightarrow>
        if \<not> ok then Some (False, s)
        else Option.bind
          (if d = [] then Some (True, s)
           else Option.bind (lws_issue_raw (sc_lws cfg s) (ss_ws s)
                  (Buffer \<lparr>tok_mem = d, tok_off = 0, tok_len = length d, tok_own = True\<rparr>))
                (\<lambda>(w, n). Some (n = int (length d), s\<lparr>ss_ws := w\<rparr>)))
          (\<lambda>(ok, s). if \<not> ok then Some (False, s) else if again then close_flush cfg s else Some (True, s)))"

definition just_kill_connection :: "'x ss_cfg \<Rightarrow> lws_connection_states \<Rightarrow> 'x session \<Rightarrow> 'x session option" where
  "just_kill_connection cfg old_state s = do {
     (_, s) \<leftarrow> remove_wsi_socket_from_fds cfg s;
     let s = upd_ws (ws_state_update (\<lambda>_. WSI_STATE_DEAD_SOCKET)) s;
     let s = (if old_state = WSI_STATE_ESTABLISHED \<or> ws_mode (ss_ws s) = LWS_CONNMODE_WS_SERVING
                \<or> ws_mode (ss_ws s) = LWS_CONNMODE_WS_CLIENT
              then upd_ws (\<lambda>w. w\<lparr>ws_rx_buf := [], ws_rxflow_buffer := None, ws_trunc := None\<rparr>) s else s);
     s \<leftarrow> (if ss_protocol s \<noteq> None \<and>
             old_state \<in> {WSI_STATE_ESTABLISHED, WSI_STATE_RETURNED_CLOSE_ALREADY, WSI_STATE_AWAITING_CLOSE_ACK}
           then map_option snd (user_cb cfg LWS_CALLBACK_CLOSED [] s)
           else if ws_mode (ss_ws s) = LWS_CONNMODE_HTTP_SERVING_ACCEPTED
           then Some (user_cb0 cfg LWS_CALLBACK_CLOSED_HTTP [] s)
           else Some s);
     let (_, s) = exts_walk cfg LWS_EXT_CALLBACK_DESTROY (\<lambda>_. False) [] (ss_exts s) s;
     let (_, s) = exts_walk cfg LWS_EXT_CALLBACK_DESTROY_ANY_WSI_CLOSING (\<lambda>_. False) [] [0..<length (sc_ext_names cfg)] s;
     let s = user_cb0 cfg LWS_CALLBACK_WSI_DESTROY [] s;
     Some (s\<lparr>ss_gone := True\<rparr>) }"

text \<open>An open file of a served connection is closed here; the socket and the user's memory go with the
  connection.\<close>

definition close_http :: "'x ss_cfg \<Rightarrow> 'x session \<Rightarrow> 'x session" where
  "close_http cfg s =
     (if ws_mode (ss_ws s) \<noteq> LWS_CONNMODE_HTTP_SERVING_ACCEPTED then s
      else
        let s = s\<lparr>ss_http := (ss_http s)\<lparr>post_buffer := None\<rparr>\<rparr>
        in if ht_file (ss_http s) \<noteq> None
           then user_cb0 cfg LWS_CALLBACK_CLOSED_HTTP [] (s\<lparr>ss_http := (ss_http s)\<lparr>ht_file := None\<rparr>\<rparr>)
           else s)"

definition libwebsocket_close_and_free_session :: "'x ss_cfg \<Rightarrow> u16 \<Rightarrow> 'x session \<Rightarrow> 'x session option" where
  "libwebsocket_close_and_free_session cfg reason s =
     (let old_state = ws_state (ss_ws s)
      in if ss_gone s then None
      else if old_state = WSI_STATE_DEAD_SOCKET then Some s
      else if old_state = WSI_STATE_AWAITING_CLOSE_ACK then just_kill_connection cfg old_state s
      else
        let s = upd_ws (ws_close_reason_update (\<lambda>_. reason)) s
        in if ws_mode (ss_ws s) \<in> {LWS_CONNMODE_WS_CLIENT_WAITING_CONNECT, LWS_CONNMODE_WS_CLIENT_ISSUE_HANDSHAKE}
        then do {
          let s = user_cb0 cfg LWS_CALLBACK_CLIENT_CONNECTION_ERROR [] s;
          s \<leftarrow> free_ah s;
          just_kill_connection cfg old_state s }
        else
          let s = close_http cfg s
          in case exts_walk cfg LWS_EXT_CALLBACK_CHECK_OK_TO_REALLY_CLOSE (\<lambda>m. m \<noteq> 0) [] (ss_exts s) s of
            (True, s) \<Rightarrow> Some s
          | (False, s) \<Rightarrow> do {
              (ok, s) \<leftarrow> close_flush cfg s;
              if \<not> ok \<or> old_state \<noteq> WSI_STATE_ESTABLISHED \<or> reason = LWS_CLOSE_STATUS_NOSTATUS
              then just_kill_connection cfg old_state s
              else do {
                (w, _, n) \<leftarrow> libwebsocket_write (sc_lws cfg s) (ss_ws s)
                   (replicate (LWS_SEND_BUFFER_PRE_PADDING + 2 + LWS_SEND_BUFFER_POST_PADDING) 0)
                   (LWS_SEND_BUFFER_PRE_PADDING + 2) 0 LWS_WRITE_CLOSE;
                let s = s\<lparr>ss_ws := w\<rparr>;
                if 0 \<le> n
                then Some (libwebsocket_set_timeout PENDING_TIMEOUT_CLOSE_ACK 1
                       (upd_ws (ws_state_update (\<lambda>_. WSI_STATE_AWAITING_CLOSE_ACK)) s))
                else just_kill_connection cfg old_state s } })"

end
