(* ===== verification/Session_Server.thy ===== *)
theory Session_Server
  imports Session
begin

text \<open>
  The server's side of a new connection: \<open>handshake_0405\<close> (\<open>lib/server-handshake.c\<close>) and
  \<open>libwebsocket_read\<close> (\<open>lib/handshake.c\<close>), which takes the request apart, serves it as HTTP or answers the
  handshake, and passes what comes later to the body reader and the frame parsers.
\<close>

section \<open>The answer to a handshake\<close>

abbreviation (input) "MAX_WEBSOCKET_04_KEY_LEN \<equiv> (128::nat)"

definition handshake_guid :: bytes where
  "handshake_guid = str ''258EAFA5-E914-47DA-95CA-C5AB0DC85B11''"

text \<open>\<open>strcpy\<close> to an offset of the service buffer; the second component is the offset behind the string.\<close>

definition put_str :: "nat \<Rightarrow> bytes \<Rightarrow> 'x session \<Rightarrow> ('x session \<times> nat) option" where
  "put_str p d s = do { m \<leftarrow> ablit (ss_service s) p (d @ [0]); Some (s\<lparr>ss_service := m\<rparr>, p + length d) }"

definition accept_key :: "'x session \<Rightarrow> (int \<times> 'x session) option" where
  "accept_key s = do {
     key \<leftarrow> hdr_string s WSI_TOKEN_KEY;
     key \<leftarrow> key;
     (s, n) \<leftarrow> put_str 0 (key @ handshake_guid) s;
     let (accept_len, out) = lws_b64_encode_string (SHA1 (take n (ss_service s))) (int LWS_MAX_SOCKET_IO_BUF);
     m \<leftarrow> ablit (ss_service s) 0 out;
     Some (accept_len, s\<lparr>ss_service := m\<rparr>) }"

text \<open>The response up to the protocol; \<open>None\<close> inside is the jump to \<open>bail\<close>, else the value of \<open>p\<close>.\<close>

definition response_start :: bytes where
  "response_start = str ''HTTP/1.1 101 Switching Protocols'' @ [13, 10] @ str ''Upgrade: WebSocket'' @ [13, 10]
     @ str ''Connection: Upgrade'' @ [13, 10] @ str ''Sec-WebSocket-Accept: ''"

definition response_head :: "int \<Rightarrow> 'x session \<Rightarrow> ('x session \<times> nat option) option" where
  "response_head accept_len s = do {
     (s, p) \<leftarrow> put_str MAX_WEBSOCKET_04_KEY_LEN response_start s;
     accept \<leftarrow> cstr (ss_service s);
     (s, _) \<leftarrow> put_str p accept s;
     let p = p + nat accept_len;
     n \<leftarrow> hdr_total s WSI_TOKEN_PROTOCOL;
     if n = 0 then Some (s, Some p)
     else do {
       (s, p) \<leftarrow> put_str p ([13, 10] @ str ''Sec-WebSocket-Protocol: '') s;
       ah \<leftarrow> the_ah s;
       (d, n) \<leftarrow> lws_hdr_copy ah (take 128 (drop p (ss_service s))) WSI_TOKEN_PROTOCOL;
       m \<leftarrow> ablit (ss_service s) p d;
       let s = s\<lparr>ss_service := m\<rparr>;
       Some (s, if n < 0 then None else Some (p + nat n)) } }"

text \<open>The walk over the extensions of the context for one name of the client's list. A failed \<open>malloc\<close> frees a
  pointer into the service buffer; one activation too many writes behind \<open>active_extensions\<close>.\<close>

fun ext_match :: "'x ss_cfg \<Rightarrow> bytes \<Rightarrow> nat list \<Rightarrow> 'x session \<times> nat \<times> nat \<Rightarrow> ('x session \<times> nat \<times> nat) option" where
  "ext_match cfg nm [] st = Some st"
| "ext_match cfg nm (i # is) (s, p, ext_count) =
     (if nm \<noteq> sc_ext_names cfg ! i then ext_match cfg nm is (s, p, ext_count)
      else case sc_user cfg 0 LWS_CALLBACK_CONFIRM_EXTENSION_OKAY nm s of (n, s) \<Rightarrow>
        if n \<noteq> 0 then ext_match cfg nm is (s, p, ext_count)
        else do {
          (s, p) \<leftarrow> (if ext_count \<noteq> 0
             then do { m \<leftarrow> ablit (ss_service s) p (str '',''); Some (s\<lparr>ss_service := m\<rparr>, p + 1) }
             else put_str p ([13, 10] @ str ''Sec-WebSocket-Extensions: '') s);
          (s, p) \<leftarrow> put_str p nm s;
          (case env_malloc (ss_ws s) of (ok, w) \<Rightarrow>
             let s = s\<lparr>ss_ws := w\<rparr>
             in if \<not> ok \<or> LWS_MAX_EXTENSIONS_ACTIVE \<le> length (ss_exts s) then None
             else case sc_ext cfg i LWS_EXT_CALLBACK_CONSTRUCT [] s of (_, _, s) \<Rightarrow>
               ext_match cfg nm is (s\<lparr>ss_exts := ss_exts s @ [i]\<rparr>, p, ext_count + 1)) })"

text \<open>The list is read from the service buffer while the response is written behind it; a name is cut at 127
  characters.\<close>

function ext_loop ::
    "'x ss_cfg \<Rightarrow> nat \<Rightarrow> bytes \<Rightarrow> 'x session \<times> nat \<times> nat \<Rightarrow> ('x session \<times> nat \<times> nat) option" where
  "ext_loop cfg c nm st =
     (if LWS_MAX_SOCKET_IO_BUF \<le> c then None
      else case aget (ss_service (fst st)) c of
        None \<Rightarrow> None
      | Some ch \<Rightarrow>
          if ch \<noteq> 0 \<and> ch \<noteq> 0x2c \<and> ch \<noteq> 0x20 \<and> ch \<noteq> 0x09
          then ext_loop cfg (c + 1) (if length nm < 127 then nm @ [ch] else nm) st
          else if ch \<noteq> 0 \<and> nm = [] then ext_loop cfg (c + 1) nm st
          else case ext_match cfg nm [0..<length (sc_ext_names cfg)] st of
            None \<Rightarrow> None
          | Some st \<Rightarrow> if ch = 0 then Some st else ext_loop cfg (c + 1) [] st)"
  by pat_completeness auto
termination by (relation "measure (\<lambda>(cfg, c, nm, st). LWS_MAX_SOCKET_IO_BUF - c)") auto

definition negotiate_extensions :: "'x ss_cfg \<Rightarrow> nat \<Rightarrow> 'x session \<Rightarrow> ('x session \<times> nat option) option" where
  "negotiate_extensions cfg p s = do {
     n \<leftarrow> hdr_total s WSI_TOKEN_EXTENSIONS;
     if n = 0 then Some (s, Some p)
     else do {
       ah \<leftarrow> the_ah s;
       (m, n) \<leftarrow> lws_hdr_copy ah (ss_service s) WSI_TOKEN_EXTENSIONS;
       let s = s\<lparr>ss_service := m\<rparr>;
       if n < 0 then Some (s, None)
       else do {
         (s, p, _) \<leftarrow> ext_loop cfg 0 [] (s\<lparr>ss_exts := []\<rparr>, p, 0);
         Some (s, Some p) } } }"

definition send_response :: "'x ss_cfg \<Rightarrow> nat \<Rightarrow> 'x session \<Rightarrow> (bool \<times> 'x session) option" where
  "send_response cfg p s =
     (let len = p - MAX_WEBSOCKET_04_KEY_LEN
      in case exts_walk cfg LWS_EXT_CALLBACK_HANDSHAKE_REPLY_TX (\<lambda>m. m \<noteq> 0)
            (take len (drop MAX_WEBSOCKET_04_KEY_LEN (ss_service s))) (ss_exts s) s of
          (True, s) \<Rightarrow> Some (True, s)
        | (False, s) \<Rightarrow> do {
            (w, m, n) \<leftarrow> libwebsocket_write (sc_lws cfg s) (ss_ws s) (ss_service s) MAX_WEBSOCKET_04_KEY_LEN len LWS_WRITE_HTTP;
            Some (n = int len, s\<lparr>ss_ws := w, ss_service := m\<rparr>) })"

definition handshake_0405 :: "'x ss_cfg \<Rightarrow> 'x session \<Rightarrow> (int \<times> 'x session) option" where
  "handshake_0405 cfg s =
     (let bail = (\<lambda>s. do { s \<leftarrow> free_ah s; Some (-1, s) }) in do {
        host \<leftarrow> hdr_total s WSI_TOKEN_HOST;
        key \<leftarrow> (if host = 0 then Some 0 else hdr_total s WSI_TOKEN_KEY);
        if key = 0 \<or> MAX_WEBSOCKET_04_KEY_LEN \<le> key then bail s
        else do {
          (accept_len, s) \<leftarrow> accept_key s;
          if accept_len < 0 then bail s
          else do {
            (n, s) \<leftarrow> libwebsocket_ensure_user_space cfg s;
            if n \<noteq> 0 then bail s
            else do {
              (s, r) \<leftarrow> response_head accept_len s;
              case r of
                None \<Rightarrow> bail s
              | Some p \<Rightarrow> do {
                  (s, r) \<leftarrow> negotiate_extensions cfg p s;
                  case r of
                    None \<Rightarrow> bail s
                  | Some p \<Rightarrow> do {
                      (s, p) \<leftarrow> put_str p [13, 10, 13, 10] s;
                      (ok, s) \<leftarrow> send_response cfg p s;
                      if \<not> ok then bail s
                      else do {
                        let s = upd_ws (\<lambda>w. w\<lparr>ws_state := WSI_STATE_ESTABLISHED, ws_rx_state := LWS_RXPS_NEW\<rparr>) s;
                        (_, s) \<leftarrow> user_cb cfg LWS_CALLBACK_ESTABLISHED [] s;
                        Some (0, s) } } } } } } })"

section \<open>Reading\<close>

definition bail_close :: "'x ss_cfg \<Rightarrow> 'x session \<Rightarrow> (int \<times> 'x session) option" where
  "bail_close cfg s = do { s \<leftarrow> libwebsocket_close_and_free_session cfg LWS_CLOSE_STATUS_NOSTATUS s; Some (-1, s) }"

definition bail_nuke_ah :: "'x ss_cfg \<Rightarrow> 'x session \<Rightarrow> (int \<times> 'x session) option" where
  "bail_nuke_ah cfg s = do { s \<leftarrow> free_ah s; bail_close cfg s }"

definition upd_http :: "(http_related \<Rightarrow> http_related) \<Rightarrow> 'x session \<Rightarrow> 'x session" where
  "upd_http f s = s\<lparr>ss_http := f (ss_http s)\<rparr>"

definition rx_chunk :: "'x ss_cfg \<Rightarrow> 'x session \<Rightarrow> nat option" where
  "rx_chunk cfg s = do {
     p \<leftarrow> ss_protocol s;
     pr \<leftarrow> aget (sc_protocols cfg) p;
     Some (if pr_rx_size pr = 0 then LWS_MAX_SOCKET_IO_BUF else pr_rx_size pr) }"

text \<open>What was collected of the body goes to the user; the boolean tells whether the user accepted it.\<close>

definition give_body :: "'x ss_cfg \<Rightarrow> 'x session \<Rightarrow> (bool \<times> 'x session) option" where
  "give_body cfg s = do {
     b \<leftarrow> post_buffer (ss_http s);
     (n, s) \<leftarrow> user_cb cfg LWS_CALLBACK_HTTP_BODY (take (body_index (ss_http s)) b) s;
     Some (n = 0, upd_http (body_index_update (\<lambda>_. 0)) s) }"

text \<open>The next byte of the buffer: callbacks may have written to the service buffer since it was received.\<close>

definition rx_byte :: "bytes \<Rightarrow> 'x session \<Rightarrow> u8 option" where
  "rx_byte rest s = (case ss_rx_at s of
     None \<Rightarrow> aget rest 0
   | Some n \<Rightarrow> if n < length rest then None else aget (ss_service s) (n - length rest))"

fun body_loop :: "'x ss_cfg \<Rightarrow> bytes \<Rightarrow> 'x session \<Rightarrow> (bool \<times> 'x session) option" where
  "body_loop cfg [] s = Some (True, s)"
| "body_loop cfg (c # cs) s =
     (let h = ss_http s in
      if content_length h \<le> content_length_seen h then Some (True, s)
      else do {
        b \<leftarrow> post_buffer h;
        ch \<leftarrow> rx_byte (c # cs) s;
        b \<leftarrow> aset b (body_index h) ch;
        let h = h\<lparr>post_buffer := Some b, body_index := body_index h + 1, content_length_seen := content_length_seen h + 1\<rparr>;
        let s = s\<lparr>ss_http := h\<rparr>;
        n \<leftarrow> rx_chunk cfg s;
        if body_index h \<noteq> n \<and> content_length_seen h \<noteq> content_length h then body_loop cfg cs s
        else do {
          (ok, s) \<leftarrow> give_body cfg s;
          if \<not> ok then Some (False, s)
          else if content_length_seen (ss_http s) = content_length (ss_http s) then do {
            let s = libwebsocket_set_timeout NO_PENDING_TIMEOUT 0 s;
            (n, s) \<leftarrow> user_cb cfg LWS_CALLBACK_HTTP_BODY_COMPLETION [] s;
            let s = upd_http (body_index_update (\<lambda>_. 0)) s;
            if n \<noteq> 0 then Some (False, s) else body_loop cfg cs s }
          else body_loop cfg cs s } })"

definition http_postbody :: "'x ss_cfg \<Rightarrow> bytes \<Rightarrow> 'x session \<Rightarrow> (int \<times> 'x session) option" where
  "http_postbody cfg buf s = do {
     (ok, s) \<leftarrow> body_loop cfg buf s;
     (ok, s) \<leftarrow> (if ok \<and> body_index (ss_http s) \<noteq> 0 then give_body cfg s else Some (ok, s));
     if ok then Some (0, s) else bail_close cfg s }"

text \<open>A request that is no handshake. The store stays reachable through \<open>u.http.ah\<close> until the callbacks
  returned.\<close>

definition request_uri :: "'x session \<Rightarrow> nat \<Rightarrow> (bytes \<times> nat) option" where
  "request_uri s h = do { n \<leftarrow> hdr_total s h; u \<leftarrow> hdr_string s h; u \<leftarrow> u; Some (u, n) }"

definition request_length :: "'x session \<Rightarrow> int option" where
  "request_length s = do {
     post \<leftarrow> hdr_total s WSI_TOKEN_POST_URI;
     n \<leftarrow> hdr_total s WSI_TOKEN_HTTP_CONTENT_LENGTH;
     if n = 0 then Some (if post \<noteq> 0 then 100 * 1024 * 1024 else 0)
     else do {
       ah \<leftarrow> the_ah s;
       (d, n) \<leftarrow> lws_hdr_copy ah (replicate 31 0) WSI_TOKEN_HTTP_CONTENT_LENGTH;
       if n < 0 then None
       else do { t \<leftarrow> cstr d; if c_atoi t \<in> {- (2 ^ 31)..<2 ^ 31} then Some (c_atoi t) else None } } }"

definition http_callbacks :: "'x ss_cfg \<Rightarrow> bytes \<Rightarrow> 'x session \<Rightarrow> (bool \<times> 'x session) option" where
  "http_callbacks cfg uri s = do {
     (n, s) \<leftarrow> user_cb cfg LWS_CALLBACK_FILTER_HTTP_CONNECTION uri s;
     if n \<noteq> 0 then Some (False, s)
     else do {
       (n, s) \<leftarrow> user_cb cfg LWS_CALLBACK_HTTP uri (libwebsocket_set_timeout PENDING_TIMEOUT_HTTP_CONTENT AWAITING_TIMEOUT s);
       Some (n = 0, s) } }"

definition http_request :: "'x ss_cfg \<Rightarrow> bytes \<Rightarrow> 'x session \<Rightarrow> (int \<times> 'x session) option" where
  "http_request cfg rest s = do {
     get \<leftarrow> hdr_total s WSI_TOKEN_GET_URI;
     post \<leftarrow> hdr_total s WSI_TOKEN_POST_URI;
     if (get = 0 \<and> post = 0) \<or> (get \<noteq> 0 \<and> post \<noteq> 0) then bail_nuke_ah cfg s
     else do {
       (n, s) \<leftarrow> libwebsocket_ensure_user_space cfg s;
       if n \<noteq> 0 then bail_nuke_ah cfg s
       else do {
         (uri, _) \<leftarrow> request_uri s (if get \<noteq> 0 then WSI_TOKEN_GET_URI else WSI_TOKEN_POST_URI);
         len \<leftarrow> request_length s;
         let s = upd_ws (\<lambda>w. w\<lparr>ws_mode := LWS_CONNMODE_HTTP_SERVING_ACCEPTED, ws_state := WSI_STATE_HTTP\<rparr>) s;
         chunk \<leftarrow> rx_chunk cfg s;
         let (ok, w) = (if 0 < len then env_malloc (ss_ws s) else (True, ss_ws s));
         let s = s\<lparr>ss_ws := w, ss_http := \<lparr>ht_file = None, filepos = 0, filelen = 0, content_length = len, content_length_seen = 0, body_index = 0,
                     post_buffer = if ok \<and> 0 < len then Some (replicate chunk 0) else None\<rparr>\<rparr>;
         (ok, s) \<leftarrow> (if ok then http_callbacks cfg uri s else Some (False, s));
         s \<leftarrow> free_ah s;
         let s = s\<lparr>ss_ah := Ah_null\<rparr>;
         if \<not> ok then bail_close cfg s
         else if ws_state (ss_ws s) \<noteq> WSI_STATE_HTTP_ISSUING_FILE
         then http_postbody cfg rest (upd_ws (ws_state_update (\<lambda>_. WSI_STATE_HTTP_BODY)) s)
         else http_postbody cfg rest s } } }"

text \<open>The protocol of a handshake: the first of the list, from the connection's on, that fits the request.\<close>

fun find_protocol :: "protocol list \<Rightarrow> nat \<Rightarrow> nat \<Rightarrow> bytes option \<Rightarrow> nat" where
  "find_protocol [] i len name = i"
| "find_protocol (p # ps) i len name =
     (if (if len = 0 then pr_name p = None else pr_name p \<noteq> None \<and> name = pr_name p) then i
      else find_protocol ps (i + 1) len name)"

definition select_protocol :: "'x ss_cfg \<Rightarrow> 'x session \<Rightarrow> 'x session option option" where
  "select_protocol cfg s = do {
     start \<leftarrow> ss_protocol s;
     len \<leftarrow> hdr_total s WSI_TOKEN_PROTOCOL;
     name \<leftarrow> hdr_string s WSI_TOKEN_PROTOCOL;
     let i = find_protocol (drop start (sc_protocols cfg)) start len name;
     Some (if i < length (sc_protocols cfg) then Some (s\<lparr>ss_protocol := Some i\<rparr>)
           else if name = None then Some (s\<lparr>ss_protocol := Some 0\<rparr>) else None) }"

text \<open>The connection becomes a websocket. Bytes of the same buffer behind the request are given to
  \<open>libwebsocket_parse\<close>, which takes the receive buffer for a header store: undefined.\<close>

definition ws_request :: "'x ss_cfg \<Rightarrow> bytes \<Rightarrow> 'x session \<Rightarrow> (int \<times> 'x session) option" where
  "ws_request cfg rest s = do {
     sel \<leftarrow> select_protocol cfg s;
     case sel of
       None \<Rightarrow> bail_nuke_ah cfg s
     | Some s \<Rightarrow> do {
         (n, s) \<leftarrow> libwebsocket_ensure_user_space cfg s;
         if n \<noteq> 0 then bail_nuke_ah cfg s
         else do {
           name \<leftarrow> hdr_string s WSI_TOKEN_PROTOCOL;
           (n, s) \<leftarrow> user_cb cfg LWS_CALLBACK_FILTER_PROTOCOL_CONNECTION (case name of None \<Rightarrow> [] | Some t \<Rightarrow> t) s;
           if n \<noteq> 0 \<or> ietf_spec_revision (ss_hdr s) \<noteq> 13 then bail_nuke_ah cfg s
           else do {
             (n, s) \<leftarrow> handshake_0405 cfg s;
             if n \<noteq> 0 then bail_nuke_ah cfg s
             else do {
               s \<leftarrow> free_ah s;
               let (ok, w) = ws_transition (sc_lws cfg s) LWS_CONNMODE_WS_SERVING [] (ss_ws s);
               let s = s\<lparr>ss_ah := Ah_null, ss_ws := w\<lparr>ws_rev := ietf_spec_revision (ss_hdr s)\<rparr>\<rparr>;
               if \<not> ok then bail_close cfg s
               else case env_sockopt s of (ok, s) \<Rightarrow>
                 if \<not> ok then bail_close cfg s
                 else if rest = [] then Some (0, s)
                 else None } } } } }"

fun header_loop :: "'x ss_cfg \<Rightarrow> bytes \<Rightarrow> 'x session \<Rightarrow> (int \<times> 'x session) option" where
  "header_loop cfg [] s = Some (0, s)"
| "header_loop cfg (c # cs) s = do {
     _ \<leftarrow> the_ah s;
     (h, r) \<leftarrow> libwebsocket_parse (ss_hdr s) c;
     let s = s\<lparr>ss_hdr := h\<rparr>;
     if r \<noteq> 0 then bail_nuke_ah cfg s
     else if parser_state h \<noteq> WSI_PARSING_COMPLETE then header_loop cfg cs s
     else do {
       let s = libwebsocket_set_timeout NO_PENDING_TIMEOUT 0
                 (upd_ws (ws_mode_update (\<lambda>_. LWS_CONNMODE_PRE_WS_SERVING_ACCEPT)) s);
       up \<leftarrow> hdr_total s WSI_TOKEN_UPGRADE;
       con \<leftarrow> (if up = 0 then Some 0 else hdr_total s WSI_TOKEN_CONNECTION);
       if con = 0 then http_request cfg cs s else ws_request cfg cs s } }"

text \<open>\<open>libwebsocket_client_rx_sm\<close> for every byte, until \<open>stop\<close>.\<close>

fun client_loop :: "'x ss_cfg \<Rightarrow> (int \<Rightarrow> bool) \<Rightarrow> bytes \<Rightarrow> 'x session \<Rightarrow> (int \<times> 'x session) option" where
  "client_loop cfg stop [] s = Some (0, s)"
| "client_loop cfg stop (c # cs) s = do {
     (w, r) \<leftarrow> libwebsocket_client_rx_sm (sc_lws cfg s) (ss_ws s) c;
     let s = s\<lparr>ss_ws := w\<rparr>;
     if stop r then bail_close cfg s else client_loop cfg stop cs s }"

definition read_headers :: "'x ss_cfg \<Rightarrow> bytes \<Rightarrow> 'x session \<Rightarrow> (int \<times> 'x session) option" where
  "read_headers cfg buf s =
     (if ws_mode (ss_ws s) \<in> {LWS_CONNMODE_WS_CLIENT_WAITING_PROXY_REPLY, LWS_CONNMODE_WS_CLIENT_ISSUE_HANDSHAKE,
         LWS_CONNMODE_WS_CLIENT_WAITING_SERVER_REPLY, LWS_CONNMODE_WS_CLIENT_WAITING_EXTENSION_CONNECT,
         LWS_CONNMODE_WS_CLIENT}
      then client_loop cfg (\<lambda>r. r \<noteq> 0) buf s
      else header_loop cfg buf s)"

definition fresh_headers :: "'x session \<Rightarrow> 'x session" where
  "fresh_headers s = upd_ws (ws_state_update (\<lambda>_. WSI_STATE_HTTP_HEADERS))
     (s\<lparr>ss_hdr := (ss_hdr s)\<lparr>parser_state := WSI_TOKEN_NAME_PART, lextable_pos := 0\<rparr>\<rparr>)"

definition read_frames :: "'x ss_cfg \<Rightarrow> bytes \<Rightarrow> 'x session \<Rightarrow> (int \<times> 'x session) option" where
  "read_frames cfg buf s =
     (if ws_mode (ss_ws s) = LWS_CONNMODE_WS_CLIENT then client_loop cfg (\<lambda>r. r < 0) buf s
      else do {
        (w, r) \<leftarrow> libwebsocket_interpret_incoming_packet (sc_lws cfg s) (ss_ws s) buf;
        let s = s\<lparr>ss_ws := w\<rparr>;
        if r < 0 then bail_close cfg s else Some (0, s) })"

definition libwebsocket_read :: "'x ss_cfg \<Rightarrow> bytes \<Rightarrow> 'x session \<Rightarrow> (int \<times> 'x session) option" where
  "libwebsocket_read cfg buf s =
     (if ss_gone s then None
      else case ws_state (ss_ws s) of
        WSI_STATE_HTTP_BODY \<Rightarrow> http_postbody cfg buf s
      | WSI_STATE_HTTP_ISSUING_FILE \<Rightarrow> read_headers cfg buf (fresh_headers s)
      | WSI_STATE_HTTP \<Rightarrow> read_headers cfg buf (fresh_headers s)
      | WSI_STATE_HTTP_HEADERS \<Rightarrow> read_headers cfg buf s
      | WSI_STATE_AWAITING_CLOSE_ACK \<Rightarrow> read_frames cfg buf s
      | WSI_STATE_ESTABLISHED \<Rightarrow> read_frames cfg buf s
      | _ \<Rightarrow> Some (0, s))"

end
