(* ===== verification/Session_Client.thy ===== *)
theory Session_Client
  imports Session_Server
begin

text \<open>
  The client's side of a new connection (\<open>lib/client.c\<close>): the request with its random key and the expected
  answer, the reading of the response, and its interpretation. TLS is not modelled.
\<close>

abbreviation (input) "WSI_TOKEN_CLIENT_SENT_PROTOCOLS \<equiv> (32::nat)"
abbreviation (input) "WSI_TOKEN_CLIENT_URI \<equiv> (34::nat)"
abbreviation (input) "WSI_TOKEN_CLIENT_HOST \<equiv> (35::nat)"
abbreviation (input) "WSI_TOKEN_CLIENT_ORIGIN \<equiv> (36::nat)"

section \<open>The request\<close>

text \<open>Every extension is asked about every extension; any answer but zero is a veto.\<close>

fun any_veto :: "'x ss_cfg \<Rightarrow> bytes \<Rightarrow> nat list \<Rightarrow> bool \<Rightarrow> 'x session \<Rightarrow> bool \<times> 'x session" where
  "any_veto cfg nm [] veto s = (veto, s)"
| "any_veto cfg nm (e # es) veto s =
     (case sc_ext cfg e LWS_EXT_CALLBACK_CHECK_OK_TO_PROPOSE_EXTENSION nm s of (m, _, s) \<Rightarrow>
        any_veto cfg nm es (veto \<or> m \<noteq> 0) s)"

fun propose :: "'x ss_cfg \<Rightarrow> nat list \<Rightarrow> nat \<Rightarrow> nat \<Rightarrow> 'x session \<Rightarrow> ('x session \<times> nat) option" where
  "propose cfg [] ext_count p s = Some (s, p)"
| "propose cfg (e # es) ext_count p s =
     (let nm = sc_ext_names cfg ! e
      in case any_veto cfg nm [0..<length (sc_ext_names cfg)] False s of (veto, s) \<Rightarrow>
        if veto then propose cfg es ext_count p s
        else case sc_user cfg 0 LWS_CALLBACK_CLIENT_CONFIRM_EXTENSION_SUPPORTED nm s of (n, s) \<Rightarrow>
          if n \<noteq> 0 then propose cfg es ext_count p s
          else do {
            (s, p) \<leftarrow> (if ext_count \<noteq> 0
               then do { m \<leftarrow> ablit (ss_service s) p (str '',''); Some (s\<lparr>ss_service := m\<rparr>, p + 1) }
               else Some (s, p));
            (s, p) \<leftarrow> put_str p nm s;
            propose cfg es (ext_count + 1) p s })"

definition nl :: bytes where "nl = [13, 10]"

text \<open>\<open>%d\<close> of a number that is not negative.\<close>

function digits :: "nat \<Rightarrow> bytes" where
  "digits n = (if n < 10 then [of_nat (48 + n)] else digits (n div 10) @ [of_nat (48 + n mod 10)])"
  by pat_completeness auto
termination by (relation "measure id") auto

text \<open>A header with a string of the store, left out when there is none.\<close>

definition put_header :: "bytes \<Rightarrow> nat \<Rightarrow> 'x session \<times> nat \<Rightarrow> ('x session \<times> nat) option" where
  "put_header name h sp = (case sp of (s, p) \<Rightarrow> do {
     v \<leftarrow> hdr_string s h;
     case v of None \<Rightarrow> Some (s, p) | Some v \<Rightarrow> put_str p (name @ v @ nl) s })"

definition request_line :: "'x session \<Rightarrow> bytes \<Rightarrow> ('x session \<times> nat) option" where
  "request_line s key = do {
     uri \<leftarrow> hdr_string s WSI_TOKEN_CLIENT_URI;
     uri \<leftarrow> uri;
     host \<leftarrow> hdr_string s WSI_TOKEN_CLIENT_HOST;
     host \<leftarrow> host;
     (s, p) \<leftarrow> put_str 0 (str ''GET '' @ uri @ str '' HTTP/1.1'' @ nl) s;
     (s, p) \<leftarrow> put_str p (str ''Pragma: no-cache'' @ nl @ str ''Cache-Control: no-cache'' @ nl) s;
     (s, p) \<leftarrow> put_str p (str ''Host: '' @ host @ nl) s;
     (s, p) \<leftarrow> put_str p (str ''Upgrade: websocket'' @ nl @ str ''Connection: Upgrade'' @ nl @ str ''Sec-WebSocket-Key: '') s;
     (s, p) \<leftarrow> put_str p key s;
     put_str p nl s }"

text \<open>What the user's callback \<open>LWS_CALLBACK_CLIENT_APPEND_HANDSHAKE_HEADER\<close> writes through the pointer it
  gets is the parameter \<open>app\<close>. The result is the end of the request, or \<open>None\<close> for \<open>NULL\<close>.\<close>

definition expected_answer :: "bytes \<Rightarrow> 'x session \<Rightarrow> 'x session option" where
  "expected_answer key s = (case lws_b64_encode_string (SHA1 (key @ handshake_guid)) 30 of (_, out) \<Rightarrow> do {
     e \<leftarrow> ablit (ss_expected s) 0 out; Some (s\<lparr>ss_expected := e\<rparr>) })"

definition libwebsockets_generate_client_handshake ::
    "'x ss_cfg \<Rightarrow> ('x session \<Rightarrow> bytes) \<Rightarrow> 'x session \<Rightarrow> (nat option \<times> 'x session) option" where
  "libwebsockets_generate_client_handshake cfg app s =
     (case libwebsockets_get_random (ss_ws s) 16 of (hash, w) \<Rightarrow>
        let s = s\<lparr>ss_ws := w\<rparr>
        in if length hash \<noteq> 16
        then do { s \<leftarrow> libwebsocket_close_and_free_session cfg LWS_CLOSE_STATUS_NOSTATUS s; Some (None, s) }
        else do {
          let (_, out) = lws_b64_encode_string hash 40;
          key \<leftarrow> cstr out;
          (s, p) \<leftarrow> request_line s key;
          (s, p) \<leftarrow> put_header (str ''Origin: http://'') WSI_TOKEN_CLIENT_ORIGIN (s, p);
          (s, p) \<leftarrow> put_header (str ''Sec-WebSocket-Protocol: '') WSI_TOKEN_CLIENT_SENT_PROTOCOLS (s, p);
          (s, p) \<leftarrow> put_str p (str ''Sec-WebSocket-Extensions: '') s;
          (s, p) \<leftarrow> propose cfg [0..<length (sc_ext_names cfg)] 0 p s;
          (s, p) \<leftarrow> put_str p nl s;
          (s, p) \<leftarrow> (let v = ietf_spec_revision (ss_hdr s) in
             if v = 0 then Some (s, p)
             else put_str p (str ''Sec-WebSocket-Version: '' @ digits (unat v) @ nl) s);
          let (_, s) = sc_user cfg 0 LWS_CALLBACK_CLIENT_APPEND_HANDSHAKE_HEADER [] s;
          (s, p) \<leftarrow> put_str p (app s) s;
          (s, p) \<leftarrow> put_str p nl s;
          s \<leftarrow> expected_answer key s;
          Some (Some p, s) })"

section \<open>The response\<close>

definition strtolower :: "nat \<Rightarrow> bytes \<Rightarrow> bytes option" where
  "strtolower off dat = do {
     t \<leftarrow> cstr (drop off dat);
     Some (take off dat @ map tolower t @ drop (off + length t) dat) }"

text \<open>A header that must be there; it is put in lower case in the store.\<close>

definition lowered :: "nat \<Rightarrow> 'x session \<Rightarrow> (bytes option \<times> 'x session) option" where
  "lowered h s = do {
     ah \<leftarrow> the_ah s;
     p \<leftarrow> lws_hdr_simple_ptr ah h;
     case p of
       None \<Rightarrow> Some (None, s)
     | Some off \<Rightarrow> do {
         dat \<leftarrow> strtolower off (ah_data ah);
         t \<leftarrow> cstr (drop off dat);
         Some (Some t, s\<lparr>ss_hdr := (ss_hdr s)\<lparr>hdr_ah := ah\<lparr>ah_data := dat\<rparr>\<rparr>\<rparr>) } }"

text \<open>The search for the server's protocol in the list the client sent.\<close>

function protocol_offered :: "bytes \<Rightarrow> bytes \<Rightarrow> bool" where
  "protocol_offered pc p =
     (if pc = [] then False
      else if take (length p) pc = p \<and> (drop (length p) pc = [] \<or> hd (drop (length p) pc) = 0x2c) then True
      else protocol_offered (dropWhile (\<lambda>c. c \<noteq> 0x20) (dropWhile (\<lambda>c. c \<noteq> 0x2c) pc)) p)"
  by pat_completeness auto
termination
proof (relation "measure (\<lambda>(pc, p). length pc)", goal_cases)
  case (2 pc p)
  have "length (dropWhile (\<lambda>c. c \<noteq> 0x20) (dropWhile (\<lambda>c. c \<noteq> 0x2c) pc)) < length pc"
  proof (cases "dropWhile (\<lambda>c. c \<noteq> 0x2c) pc")
    case Nil
    show ?thesis using 2(1) unfolding Nil by simp
  next
    case (Cons x xs)
    then have "x = 0x2c" by (metis (mono_tags) dropWhile_eq_Cons_conv)
    then have "length (dropWhile (\<lambda>c. c \<noteq> 0x20) (x # xs)) \<le> length xs" by (simp add: length_dropWhile_le)
    moreover have "Suc (length xs) \<le> length pc" using Cons length_dropWhile_le [of "\<lambda>c. c \<noteq> 0x2c" pc] by simp
    ultimately show ?thesis using Cons by simp
  qed
  then show ?case by simp
qed simp

fun protocol_index :: "protocol list \<Rightarrow> bytes \<Rightarrow> nat \<Rightarrow> nat option option" where
  "protocol_index [] p i = Some None"
| "protocol_index (x # xs) p i = (case pr_name x of
     None \<Rightarrow> None
   | Some n \<Rightarrow> if n = p then Some (Some i) else protocol_index xs p (i + 1))"

text \<open>\<open>None\<close> inside is \<open>bail2\<close>.\<close>

definition check_protocol :: "'x ss_cfg \<Rightarrow> 'x session \<Rightarrow> (bool \<times> 'x session) option" where
  "check_protocol cfg s = do {
     len \<leftarrow> hdr_total s WSI_TOKEN_PROTOCOL;
     if len = 0 then Some (True, s\<lparr>ss_protocol := Some 0\<rparr>)
     else do {
       p \<leftarrow> hdr_string s WSI_TOKEN_PROTOCOL;
       p \<leftarrow> p;
       pc \<leftarrow> hdr_string s WSI_TOKEN_CLIENT_SENT_PROTOCOLS;
       pc \<leftarrow> pc;
       if \<not> protocol_offered pc p then Some (False, s)
       else do {
         i \<leftarrow> protocol_index (sc_protocols cfg) p 0;
         Some (i \<noteq> None, s\<lparr>ss_protocol := i\<rparr>) } } }"

fun accept_match :: "'x ss_cfg \<Rightarrow> bytes \<Rightarrow> nat list \<Rightarrow> bool \<Rightarrow> 'x session \<Rightarrow> (bool \<times> bool \<times> 'x session) option" where
  "accept_match cfg nm [] found s = Some (True, found, s)"
| "accept_match cfg nm (i # is) found s =
     (if nm \<noteq> sc_ext_names cfg ! i then accept_match cfg nm is found s
      else case env_malloc (ss_ws s) of (ok, w) \<Rightarrow>
        let s = s\<lparr>ss_ws := w\<rparr>
        in if LWS_MAX_EXTENSIONS_ACTIVE \<le> length (ss_exts s) then None
        else if \<not> ok then Some (False, True, s)
        else case sc_ext cfg i LWS_EXT_CALLBACK_CLIENT_CONSTRUCT [] s of (_, _, s) \<Rightarrow>
          accept_match cfg nm is True (s\<lparr>ss_exts := ss_exts s @ [i]\<rparr>))"

function accept_loop :: "'x ss_cfg \<Rightarrow> nat \<Rightarrow> bytes \<Rightarrow> 'x session \<Rightarrow> (bool \<times> 'x session) option" where
  "accept_loop cfg c nm s =
     (if LWS_MAX_SOCKET_IO_BUF \<le> c then None
      else case aget (ss_service s) c of
        None \<Rightarrow> None
      | Some ch \<Rightarrow>
          if ch \<noteq> 0 \<and> ch \<noteq> 0x2c \<and> ch \<noteq> 0x20 \<and> ch \<noteq> 0x09
          then accept_loop cfg (c + 1) (if length nm < 127 then nm @ [ch] else nm) s
          else if ch \<noteq> 0 \<and> nm = [] then accept_loop cfg (c + 1) nm s
          else case accept_match cfg nm [0..<length (sc_ext_names cfg)] False s of
            None \<Rightarrow> None
          | Some (ok, found, s) \<Rightarrow>
              if \<not> ok \<or> \<not> found then Some (False, s)
              else if ch = 0 then Some (True, s) else accept_loop cfg (c + 1) [] s)"
  by pat_completeness auto
termination by (relation "measure (\<lambda>(cfg, c, nm, s). LWS_MAX_SOCKET_IO_BUF - c)") auto

definition check_extensions :: "'x ss_cfg \<Rightarrow> 'x session \<Rightarrow> (bool \<times> 'x session) option" where
  "check_extensions cfg s = do {
     n \<leftarrow> hdr_total s WSI_TOKEN_EXTENSIONS;
     if n = 0 then Some (True, s)
     else do {
       ah \<leftarrow> the_ah s;
       (m, n) \<leftarrow> lws_hdr_copy ah (ss_service s) WSI_TOKEN_EXTENSIONS;
       let s = s\<lparr>ss_service := m\<rparr>;
       if n < 0 then Some (False, s)
       else if ss_protocol s = None then None
       else accept_loop cfg 0 [] s } }"

text \<open>The jumps to \<open>bail2\<close> and \<open>bail3\<close>. \<open>rx_user_buffer\<close> has the place of the header store in the union: before
  the transition \<open>bail3\<close> frees the store.\<close>

definition client_bail2 :: "'x ss_cfg \<Rightarrow> u16 \<Rightarrow> 'x session \<Rightarrow> (int \<times> 'x session) option" where
  "client_bail2 cfg reason s = do {
     s \<leftarrow> (if ss_protocol s = None then Some s
          else map_option snd (user_cb cfg LWS_CALLBACK_CLIENT_CONNECTION_ERROR [] s));
     s \<leftarrow> free_ah s;
     s \<leftarrow> libwebsocket_close_and_free_session cfg reason s;
     Some (1, s) }"

definition client_bail3 :: "'x ss_cfg \<Rightarrow> 'x session \<Rightarrow> (int \<times> 'x session) option" where
  "client_bail3 cfg s = do {
     s \<leftarrow> free_ah s;
     client_bail2 cfg LWS_CLOSE_STATUS_NOSTATUS (upd_ws (ws_rx_buf_update (\<lambda>_. [])) (s\<lparr>ss_ah := Ah_null\<rparr>)) }"

definition client_established :: "'x ss_cfg \<Rightarrow> 'x session \<Rightarrow> (int \<times> 'x session) option" where
  "client_established cfg s = do {
     (n, s) \<leftarrow> libwebsocket_ensure_user_space cfg s;
     if n \<noteq> 0 then client_bail2 cfg LWS_CLOSE_STATUS_PROTOCOL_ERR s
     else do {
       (_, s) \<leftarrow> user_cb cfg LWS_CALLBACK_CLIENT_FILTER_PRE_ESTABLISH [] s;
       let s = libwebsocket_set_timeout NO_PENDING_TIMEOUT 0 s;
       s \<leftarrow> free_ah s;
       let s = upd_ws (ws_state_update (\<lambda>_. WSI_STATE_ESTABLISHED)) s;
       let (ok, w) = ws_transition (sc_lws cfg s) LWS_CONNMODE_WS_CLIENT [] (ss_ws s);
       let s = s\<lparr>ss_ah := Ah_null, ss_ws := w\<lparr>ws_rev := ietf_spec_revision (ss_hdr s)\<rparr>\<rparr>;
       if \<not> ok then client_bail2 cfg LWS_CLOSE_STATUS_PROTOCOL_ERR s
       else case env_sockopt s of (ok, s) \<Rightarrow>
         if \<not> ok then client_bail3 cfg s
         else do {
           (_, s) \<leftarrow> user_cb cfg LWS_CALLBACK_CLIENT_ESTABLISHED [] s;
           Some (0, snd (exts_walk cfg LWS_EXT_CALLBACK_ANY_WSI_ESTABLISHED (\<lambda>_. False) [] [0..<length (sc_ext_names cfg)] s)) } } }"

definition lws_client_interpret_server_handshake :: "'x ss_cfg \<Rightarrow> 'x session \<Rightarrow> (int \<times> 'x session) option" where
  "lws_client_interpret_server_handshake cfg s = do {
     accept \<leftarrow> hdr_total s WSI_TOKEN_ACCEPT;
     status \<leftarrow> (if accept = 0 then Some None else hdr_string s WSI_TOKEN_HTTP);
     if accept = 0 \<or> status = None \<or> take 3 (the status) \<noteq> str ''101'' then client_bail3 cfg s
     else do {
       (up, s) \<leftarrow> lowered WSI_TOKEN_UPGRADE s;
       if up \<noteq> Some (str ''websocket'') then client_bail3 cfg s
       else do {
         (con, s) \<leftarrow> lowered WSI_TOKEN_CONNECTION s;
         if con \<noteq> Some (str ''upgrade'') then client_bail3 cfg s
         else do {
           (ok, s) \<leftarrow> check_protocol cfg s;
           if \<not> ok then client_bail2 cfg LWS_CLOSE_STATUS_PROTOCOL_ERR s
           else do {
             (ok, s) \<leftarrow> check_extensions cfg s;
             if \<not> ok then client_bail2 cfg LWS_CLOSE_STATUS_PROTOCOL_ERR s
             else do {
               p \<leftarrow> hdr_string s WSI_TOKEN_ACCEPT;
               p \<leftarrow> p;
               e \<leftarrow> cstr (ss_expected s);
               if p \<noteq> e then client_bail2 cfg LWS_CLOSE_STATUS_PROTOCOL_ERR s
               else client_established cfg s } } } } } }"

section \<open>Service\<close>

text \<open>The request goes out with one \<open>send\<close>, whose count is only compared with zero.\<close>

definition client_issue_handshake :: "'x ss_cfg \<Rightarrow> ('x session \<Rightarrow> bytes) \<Rightarrow> 'x session \<Rightarrow> (int \<times> 'x session) option" where
  "client_issue_handshake cfg app s = do {
     (p, s) \<leftarrow> libwebsockets_generate_client_handshake cfg app s;
     case p of
       None \<Rightarrow> do { s \<leftarrow> libwebsocket_close_and_free_session cfg LWS_CLOSE_STATUS_NOSTATUS s; Some (0, s) }
     | Some p \<Rightarrow> (case env_send (ss_ws s) (take p (ss_service s)) of (r, w) \<Rightarrow>
         let s = s\<lparr>ss_ws := w\<rparr>
         in (case r of
           Send_accepts _ \<Rightarrow>
             let s = s\<lparr>ss_hdr := (ss_hdr s)\<lparr>parser_state := WSI_TOKEN_NAME_PART, lextable_pos := 0\<rparr>\<rparr>;
                 s = upd_ws (ws_mode_update (\<lambda>_. LWS_CONNMODE_WS_CLIENT_WAITING_SERVER_REPLY)) s
             in Some (0, libwebsocket_set_timeout PENDING_TIMEOUT_AWAITING_SERVER_RESPONSE AWAITING_TIMEOUT s)
         | _ \<Rightarrow> do { s \<leftarrow> libwebsocket_close_and_free_session cfg LWS_CLOSE_STATUS_NOSTATUS s; Some (0, s) })) }"

text \<open>The response is read byte by byte. At the end of the stream the variable still holds the byte before,
  which is parsed again.\<close>

datatype recv_result = Recv_byte u8 | Recv_end | Recv_error

fun reply_loop :: "'x ss_cfg \<Rightarrow> u8 option \<Rightarrow> recv_result list \<Rightarrow> 'x session \<Rightarrow> (bool \<times> 'x session) option" where
  "reply_loop cfg c rs s =
     (if parser_state (ss_hdr s) = WSI_PARSING_COMPLETE then Some (True, s)
      else case rs of
        [] \<Rightarrow> Some (False, s)
      | r # rs \<Rightarrow>
          if r = Recv_error then Some (False, s)
          else do {
            _ \<leftarrow> the_ah s;
            c \<leftarrow> (case r of Recv_byte b \<Rightarrow> Some b | _ \<Rightarrow> c);
            (h, n) \<leftarrow> libwebsocket_parse (ss_hdr s) c;
            let s = s\<lparr>ss_hdr := h\<rparr>;
            if n \<noteq> 0 then Some (False, s)
            else if r = Recv_end then Some (True, s)
            else reply_loop cfg (Some c) rs s })"

definition client_server_reply :: "'x ss_cfg \<Rightarrow> u16 \<Rightarrow> recv_result list \<Rightarrow> 'x session \<Rightarrow> (int \<times> 'x session) option" where
  "client_server_reply cfg revents rs s =
     (if revents AND 0x18 \<noteq> 0 then bail_close cfg s
      else if revents AND 1 = 0 then Some (0, s)
      else do {
        (ok, s) \<leftarrow> reply_loop cfg None rs s;
        if \<not> ok then bail_close cfg s
        else if parser_state (ss_hdr s) \<noteq> WSI_PARSING_COMPLETE then Some (0, s)
        else lws_client_interpret_server_handshake cfg s })"

end
