(* ===== verification/Session_Http.thy ===== *)
theory Session_Http
  imports Session_Client
begin

text \<open>
  Serving of files to a connection that stays HTTP: error responses and the start of a file
  (\<open>lib/server.c\<close>), its fragments (\<open>lib/output.c\<close>), and the events of such a connection
  (\<open>lws_server_socket_service\<close>). The bytes of a file are the contents it had when it was opened.
\<close>

section \<open>Error responses\<close>

definition err400 :: "string list" where
  "err400 = [''Bad Request'', ''Unauthorized'', ''Payment Required'', ''Forbidden'', ''Not Found'', ''Method Not Allowed'',
     ''Not Acceptable'', ''Proxy Auth Required'', ''Request Timeout'', ''Conflict'', ''Gone'', ''Length Required'',
     ''Precondition Failed'', ''Request Entity Too Large'', ''Request URI too Long'', ''Unsupported Media Type'',
     ''Requested Range Not Satisfiable'', ''Expectation Failed'']"

definition err500 :: "string list" where
  "err500 = [''Internal Server Error'', ''Not Implemented'', ''Bad Gateway'', ''Service Unavailable'', ''Gateway Timeout'',
     ''HTTP Version Not Supported'']"

definition status_text :: "u32 \<Rightarrow> bytes" where
  "status_text code = (let c = unat code in
     if 400 \<le> c \<and> c < 400 + length err400 then str (err400 ! (c - 400))
     else if 500 \<le> c \<and> c < 500 + length err500 then str (err500 ! (c - 500))
     else [])"

text \<open>The first bytes of the service buffer are written as they are; \<open>NULL\<close> for the body is an empty one.\<close>

definition write_service :: "'x ss_cfg \<Rightarrow> nat \<Rightarrow> 'x session \<Rightarrow> (int \<times> 'x session) option" where
  "write_service cfg n s = do {
     (w, m, r) \<leftarrow> libwebsocket_write (sc_lws cfg s) (ss_ws s) (ss_service s) 0 n LWS_WRITE_HTTP;
     Some (r, s\<lparr>ss_ws := w, ss_service := m\<rparr>) }"

definition libwebsockets_return_http_status ::
    "'x ss_cfg \<Rightarrow> u32 \<Rightarrow> bytes option \<Rightarrow> 'x session \<Rightarrow> (int \<times> 'x session) option" where
  "libwebsockets_return_http_status cfg code html_body s =
     (let status = digits (unat code) @ [32] @ status_text code in do {
        (s, n) \<leftarrow> put_str 0 (str ''HTTP/1.0 '' @ status @ nl @ str ''Server: libwebsockets'' @ nl @
           str ''Content-Type: text/html'' @ nl @ nl @ str ''<h1>'' @ status @ str ''</h1>'' @
           (case html_body of None \<Rightarrow> [] | Some b \<Rightarrow> b)) s;
        write_service cfg n s })"

section \<open>Files\<close>

text \<open>\<open>read\<close> of at most \<open>n\<close> bytes from the open file.\<close>

definition env_read :: "nat \<Rightarrow> 'x session \<Rightarrow> (bytes option \<times> 'x session) option" where
  "env_read n s = (case ht_file (ss_http s) of
     None \<Rightarrow> None
   | Some (f, off) \<Rightarrow>
       let (most, s) = (case ss_reads s of [] \<Rightarrow> (Some n, s) | a # as \<Rightarrow> (map_option (min n) a, s\<lparr>ss_reads := as\<rparr>))
       in Some (case most of
            None \<Rightarrow> (None, s)
          | Some k \<Rightarrow>
              let d = take k (drop off f)
              in (Some d, upd_http (ht_file_update (\<lambda>_. Some (f, off + length d))) s)))"

text \<open>\<open>lseek\<close> of the file by \<open>m - n\<close>, where \<open>n\<close> bytes were read and \<open>m\<close> of them sent.\<close>

definition seek_back :: "nat \<Rightarrow> nat \<Rightarrow> 'x session \<Rightarrow> 'x session" where
  "seek_back m n s = upd_http (ht_file_update (map_option (\<lambda>(f, off). (f, off + m - n)))) s"

definition file_complete :: "'x ss_cfg \<Rightarrow> 'x session \<Rightarrow> 'x session" where
  "file_complete cfg s =
     (let s = upd_ws (ws_state_update (\<lambda>_. WSI_STATE_HTTP)) s
      in case cfg_callback (sc_lws cfg s) of
        None \<Rightarrow> s
      | Some cb \<Rightarrow> upd_ws (\<lambda>w. snd (user_callback_handle_rxflow (sc_lws cfg s) cb w LWS_CALLBACK_HTTP_FILE_COMPLETION [])) s)"

text \<open>One round of the loop: the value returned, or \<open>None\<close> for another round. From \<open>all_sent\<close> on is
  \<open>fragment_end\<close>.\<close>

definition fragment_end :: "'x ss_cfg \<Rightarrow> 'x session \<Rightarrow> int option \<times> 'x session" where
  "fragment_end cfg s =
     (if ws_trunc (ss_ws s) = None \<and> filepos (ss_http s) = filelen (ss_http s) then (Some 1, file_complete cfg s)
      else (None, s))"

definition fragment_read :: "'x ss_cfg \<Rightarrow> 'x session \<Rightarrow> (int option \<times> 'x session) option" where
  "fragment_read cfg s = do {
     (d, s) \<leftarrow> env_read LWS_MAX_SOCKET_IO_BUF s;
     case d of
       None \<Rightarrow> Some (Some (-1), s)
     | Some d \<Rightarrow>
         if d = [] then Some (fragment_end cfg s)
         else do {
           m \<leftarrow> ablit (ss_service s) 0 d;
           (m, s) \<leftarrow> write_service cfg (length d) (s\<lparr>ss_service := m\<rparr>);
           if m < 0 then Some (Some (-1), s)
           else
             let s = upd_http (\<lambda>h. h\<lparr>filepos := filepos h + nat m\<rparr>) s
             in Some (fragment_end cfg (if m \<noteq> int (length d) then seek_back (nat m) (length d) s else s)) } }"

definition fragment_round :: "'x ss_cfg \<Rightarrow> 'x session \<Rightarrow> (int option \<times> 'x session) option" where
  "fragment_round cfg s = (case lws_send_pipe_choked (ss_ws s) of (choked, w) \<Rightarrow>
     let s = s\<lparr>ss_ws := w\<rparr>
     in if choked then Some (Some 0, upd_ws (callback_on_writable (sc_lws cfg s)) s)
     else if ws_trunc w \<noteq> None
     then do { (w, _) \<leftarrow> lws_issue_raw (sc_lws cfg s) w Pending; Some (None, s\<lparr>ss_ws := w\<rparr>) }
     else if filepos (ss_http s) = filelen (ss_http s) then Some (fragment_end cfg s)
     else fragment_read cfg s)"

partial_function (option) libwebsockets_serve_http_file_fragment :: "'x ss_cfg \<Rightarrow> 'x session \<Rightarrow> (int \<times> 'x session) option" where
  "libwebsockets_serve_http_file_fragment cfg s =
     Option.bind (fragment_round cfg s) (\<lambda>(r, s). case r of
       Some n \<Rightarrow> Some (n, s)
     | None \<Rightarrow> libwebsockets_serve_http_file_fragment cfg s)"

declare libwebsockets_serve_http_file_fragment.simps [code]

text \<open>The header of the response; the other headers are copied as they are.\<close>

definition file_head :: "bytes \<Rightarrow> bytes option \<Rightarrow> nat \<Rightarrow> bytes" where
  "file_head content_type other_headers len =
     str ''HTTP/1.0 200 OK'' @ nl @ str ''Server: libwebsockets'' @ nl @ str ''Content-Type: '' @ content_type @ nl @
     (case other_headers of None \<Rightarrow> [] | Some h \<Rightarrow> h) @ str ''Content-Length: '' @ digits len @ nl @ nl"

text \<open>\<open>None\<close> for the file is a failing \<open>open\<close>.\<close>

definition libwebsockets_serve_http_file ::
    "'x ss_cfg \<Rightarrow> bytes option \<Rightarrow> bytes \<Rightarrow> bytes option \<Rightarrow> 'x session \<Rightarrow> (int \<times> 'x session) option" where
  "libwebsockets_serve_http_file cfg file content_type other_headers s = (case file of
     None \<Rightarrow> do {
       (_, s) \<leftarrow> libwebsockets_return_http_status cfg 404 None (upd_http (ht_file_update (\<lambda>_. None)) s);
       Some (-1, s) }
   | Some f \<Rightarrow> do {
       let s = upd_http (\<lambda>h. h\<lparr>ht_file := Some (f, 0), filelen := length f\<rparr>) s;
       (s, n) \<leftarrow> put_str 0 (file_head content_type other_headers (length f)) s;
       (ret, s) \<leftarrow> write_service cfg n s;
       if ret \<noteq> int n then Some (-1, s)
       else libwebsockets_serve_http_file_fragment cfg
              (upd_ws (ws_state_update (\<lambda>_. WSI_STATE_HTTP_ISSUING_FILE)) (upd_http (filepos_update (\<lambda>_. 0)) s)) })"

section \<open>Events of a connection that is HTTP\<close>

text \<open>What \<open>recv\<close> answers: bytes (none at the end of the stream), nothing yet, or an error.\<close>

datatype recv_answer = Received bytes | Recv_again | Recv_failed

definition http_pollout :: "'x ss_cfg \<Rightarrow> 'x session \<Rightarrow> 'x session option" where
  "http_pollout cfg s =
     Option.bind (lws_change_pollfd cfg 4 0 s) (\<lambda>s.
      if ws_state (ss_ws s) \<noteq> WSI_STATE_HTTP_ISSUING_FILE
      then (case cfg_callback (sc_lws cfg s) of
        None \<Rightarrow> None
      | Some cb \<Rightarrow>
          case user_callback_handle_rxflow (sc_lws cfg s) cb (ss_ws s) LWS_CALLBACK_HTTP_WRITEABLE [] of (n, w) \<Rightarrow>
            let s = s\<lparr>ss_ws := w\<rparr>
            in if n < 0 then libwebsocket_close_and_free_session cfg LWS_CLOSE_STATUS_NOSTATUS s else Some s)
      else do {
        (n, s) \<leftarrow> libwebsockets_serve_http_file_fragment cfg s;
        if n \<noteq> 0 then libwebsocket_close_and_free_session cfg LWS_CLOSE_STATUS_NOSTATUS s else Some s })"

definition http_pollin :: "'x ss_cfg \<Rightarrow> recv_answer \<Rightarrow> 'x session \<Rightarrow> 'x session option" where
  "http_pollin cfg r s = (case r of
     Recv_again \<Rightarrow> Some s
   | Recv_failed \<Rightarrow> libwebsocket_close_and_free_session cfg LWS_CLOSE_STATUS_NOSTATUS s
   | Received d \<Rightarrow>
       if d = [] then do {
         s \<leftarrow> (if hdr_parsing_completed (ss_hdr s) then Some s else free_ah s);
         libwebsocket_close_and_free_session cfg LWS_CLOSE_STATUS_NOSTATUS s }
       else do {
         m \<leftarrow> ablit (ss_service s) 0 d;
         (_, s) \<leftarrow> libwebsocket_read cfg d (s\<lparr>ss_service := m, ss_rx_at := Some (length d)\<rparr>);
         Some (s\<lparr>ss_rx_at := None\<rparr>) })"

text \<open>The events are poll bits: \<open>POLLIN\<close> is 1, \<open>POLLOUT\<close> is 4.\<close>

definition http_service :: "'x ss_cfg \<Rightarrow> u16 \<Rightarrow> recv_answer \<Rightarrow> 'x session \<Rightarrow> 'x session option" where
  "http_service cfg revents r s =
     (if ws_trunc (ss_ws s) \<noteq> None
      then (if revents AND 4 \<noteq> 0
            then do { (w, _) \<leftarrow> lws_issue_raw (sc_lws cfg s) (ss_ws s) Pending; Some (s\<lparr>ss_ws := w\<rparr>) }
            else Some s)
      else if revents AND 1 \<noteq> 0 then http_pollin cfg r s
      else if revents AND 4 \<noteq> 0 then http_pollout cfg s
      else Some s)"

end
