(* ===== verification/Service.thy ===== *)
theory Service
  imports Session_Http
begin

text \<open>
  The context and its service (\<open>lib/libwebsockets.c\<close>, \<open>lib/server.c\<close>, \<open>lib/client.c\<close>,
  \<open>lib/client-handshake.c\<close>): connections by number, the events of a socket, the listening socket, connecting,
  timeouts, and the end of the context. An operation on a connection loads the members the connections share
  (descriptor table, service buffer, clock) into it and stores them back.

  A connection that was freed is no longer in \<open>cx_conns\<close>; loading it is \<open>None\<close>. The system answers from a
  sequence; a call that allocates memory fails when the answer is negative, and the service of a socket draws one
  answer for \<open>recv\<close> whether it reads or not. TLS is not modelled.
\<close>

section \<open>The context\<close>

text \<open>For \<open>poll\<close> the bytes of an answer are the events of the slots, for \<open>recv\<close> those received.\<close>

record sys_answer =
  sa_ret :: int
  sa_errno :: int
  sa_data :: bytes

abbreviation (input) "LWS_EINTR \<equiv> (4::int)"
abbreviation (input) "LWS_EAGAIN \<equiv> (11::int)"
abbreviation (input) "LWS_EISCONN \<equiv> (106::int)"
abbreviation (input) "LWS_EALREADY \<equiv> (114::int)"
abbreviation (input) "LWS_EINPROGRESS \<equiv> (115::int)"
abbreviation (input) "SPEC_LATEST_SUPPORTED \<equiv> (13::int)"
abbreviation (input) "WSI_TOKEN_CLIENT_PEER_ADDRESS \<equiv> (33::nat)"

text \<open>\<open>cx_blank\<close> is the memory \<open>malloc\<close> gives for the connection of a number, and the answers of its socket.\<close>

record 'x lws_context =
  cx_conns :: "nat \<Rightarrow> 'x session option"
  cx_fresh :: nat
  cx_blank :: "nat \<Rightarrow> 'x session"
  cx_fds :: fd_table
  cx_service :: bytes
  cx_now :: int
  cx_last_check :: int
  cx_listen_fd :: int
  cx_listen_count :: int
  cx_listen_modulo :: int
  cx_extraseen :: int
  cx_proxy :: "(bytes \<times> nat) option"
  cx_iface :: bool
  cx_sys :: "nat \<Rightarrow> sys_answer"
  cx_calls :: nat

definition sys_call :: "'x lws_context \<Rightarrow> sys_answer \<times> 'x lws_context" where
  "sys_call c = (cx_sys c (cx_calls c), c\<lparr>cx_calls := cx_calls c + 1\<rparr>)"

definition slot_events :: "nat \<Rightarrow> 'x lws_context \<Rightarrow> u16" where
  "slot_events i c = (let p = ft_pos (cx_fds c) i in
     if p < 0 then 0 else case aget (ft_fds (cx_fds c)) (nat p) of None \<Rightarrow> 0 | Some sl \<Rightarrow> sl_events sl)"

definition put_events :: "nat \<Rightarrow> u16 \<Rightarrow> fd_table \<Rightarrow> fd_table" where
  "put_events i ev t = (let p = ft_pos t i in
     if p < 0 \<or> length (ft_fds t) \<le> nat p then t
     else t\<lparr>ft_fds := (ft_fds t)[nat p := (ft_fds t ! nat p)\<lparr>sl_events := ev\<rparr>]\<rparr>)"

definition load :: "nat \<Rightarrow> 'x lws_context \<Rightarrow> 'x session option" where
  "load i c = map_option (\<lambda>s. s\<lparr>ss_service := cx_service c, ss_fds := cx_fds c, ss_now := cx_now c,
     ss_ws := (ss_ws s)\<lparr>ws_pollin := bit (slot_events i c) 0, ws_pollout := bit (slot_events i c) 2\<rparr>\<rparr>) (cx_conns c i)"

definition session_events :: "'x session \<Rightarrow> u16" where
  "session_events s = (if ws_pollin (ss_ws s) then 1 else 0) OR (if ws_pollout (ss_ws s) then 4 else 0)"

definition store :: "nat \<Rightarrow> 'x session \<Rightarrow> 'x lws_context \<Rightarrow> 'x lws_context" where
  "store i s c = c\<lparr>cx_service := ss_service s, cx_fds := put_events i (session_events s) (ss_fds s),
     cx_conns := (cx_conns c)(i := if ss_gone s then None else Some s)\<rparr>"

definition on_conn :: "nat \<Rightarrow> ('x session \<Rightarrow> ('a \<times> 'x session) option) \<Rightarrow> 'x lws_context \<Rightarrow> ('a \<times> 'x lws_context) option" where
  "on_conn i f c = do { s \<leftarrow> load i c; (r, s) \<leftarrow> f s; Some (r, store i s c) }"

abbreviation on_conn' :: "nat \<Rightarrow> ('x session \<Rightarrow> 'x session option) \<Rightarrow> 'x lws_context \<Rightarrow> 'x lws_context option" where
  "on_conn' i f c \<equiv> map_option snd (on_conn i (\<lambda>s. map_option (Pair ()) (f s)) c)"

definition close_conn :: "'x ss_cfg \<Rightarrow> nat \<Rightarrow> 'x lws_context \<Rightarrow> 'x lws_context option" where
  "close_conn cfg i c = on_conn' i (libwebsocket_close_and_free_session cfg LWS_CLOSE_STATUS_NOSTATUS) c"

text \<open>The connection that the table looks up for a descriptor; \<open>None\<close> inside is \<open>NULL\<close>.\<close>

definition lookup_fd :: "int \<Rightarrow> 'x lws_context \<Rightarrow> nat option option" where
  "lookup_fd fd c = (if fd < 0 then None else aget (ft_lookup (cx_fds c)) (nat fd))"

definition slot_at :: "nat \<Rightarrow> 'x lws_context \<Rightarrow> fd_slot option" where
  "slot_at n c = aget (ft_fds (cx_fds c)) n"

text \<open>A \<open>struct pollfd *\<close>: an entry of the context's table, or one of the caller's own.\<close>

datatype poll_ref = Slot nat | Local int u16

fun ref_get :: "poll_ref \<Rightarrow> 'x lws_context \<Rightarrow> (int \<times> u16) option" where
  "ref_get (Slot n) c = map_option (\<lambda>sl. (sl_fd sl, sl_revents sl)) (slot_at n c)"
| "ref_get (Local fd revents) c = Some (fd, revents)"

definition set_revents :: "nat \<Rightarrow> u16 \<Rightarrow> 'x lws_context \<Rightarrow> 'x lws_context option" where
  "set_revents n ev c = do {
     sl \<leftarrow> slot_at n c;
     fds \<leftarrow> aset (ft_fds (cx_fds c)) n (sl\<lparr>sl_revents := ev\<rparr>);
     Some (c\<lparr>cx_fds := (cx_fds c)\<lparr>ft_fds := fds\<rparr>\<rparr>) }"

fun ref_done :: "poll_ref \<Rightarrow> 'x lws_context \<Rightarrow> 'x lws_context option" where
  "ref_done (Slot n) c = set_revents n 0 c"
| "ref_done (Local fd revents) c = Some c"

section \<open>New connections\<close>

text \<open>\<open>memset\<close> of a connection: what C sets to zero; the logs of the model start empty.\<close>

definition zero_wsi :: "'x wsi \<Rightarrow> 'x wsi" where
  "zero_wsi w = w\<lparr>ws_mode := LWS_CONNMODE_HTTP_SERVING, ws_state := WSI_STATE_HTTP, ws_rev := 0, ws_rx_state := LWS_RXPS_NEW,
     ws_rx_buf := [], ws_rx_head := 0, ws_nonce := [0, 0, 0, 0], ws_mask_index := 0, ws_packet_length := 0, ws_opcode := 0,
     ws_final := False, ws_rsv := 0, ws_binary := False, ws_zero_nonce := False, ws_close_reason := 0, ws_masked := False,
     ws_inside_frame := False, ws_clean_buffer := False, ws_rxflow_buffer := None, ws_rxflow_pos := 0,
     ws_rxflow_allow := False, ws_rxflow_pending := False, ws_trunc := None, ws_trunc_off := 0, ws_trunc_len := 0,
     ws_ext_pending := False, ws_wire := [], ws_delivered := []\<rparr>"

text \<open>The contents of the header store are whatever \<open>malloc\<close> gave; \<open>lws_allocate_header_table\<close> clears its indices.\<close>

definition zero_session :: "nat \<Rightarrow> 'x session \<Rightarrow> 'x session" where
  "zero_session i t = t\<lparr>ss_ws := zero_wsi (ss_ws t), ss_id := i, ss_sock := 0, ss_ah := Ah_null,
     ss_hdr := (ss_hdr t)\<lparr>lextable_pos := 0, parser_state := 0, hdr_ups := URIPS_IDLE, hdr_ues := URIES_IDLE, esc_stash := 0,
        ietf_spec_revision := 0, hdr_parsing_completed := False\<rparr>,
     ss_http := \<lparr>ht_file = None, filepos = 0, filelen = 0, content_length = 0, content_length_seen = 0, body_index = 0,
        post_buffer = None\<rparr>,
     ss_protocol := None, ss_exts := [], ss_user := False, ss_timeout := (NO_PENDING_TIMEOUT, 0), ss_gone := False,
     ss_rx_at := None\<rparr>"

definition with_header_table :: "'x session \<Rightarrow> 'x session" where
  "with_header_table s = s\<lparr>ss_ah := Ah_valid, ss_hdr := (ss_hdr s)\<lparr>hdr_ah := lws_allocate_header_table (hdr_ah (ss_hdr s))\<rparr>\<rparr>"

text \<open>A new connection enters the context; its position in the table is that of the cleared memory.\<close>

definition add_conn :: "'x session \<Rightarrow> 'x lws_context \<Rightarrow> 'x lws_context" where
  "add_conn s c = c\<lparr>cx_conns := (cx_conns c)(ss_id s \<mapsto> s), cx_fresh := cx_fresh c + 1,
     cx_fds := (cx_fds c)\<lparr>ft_pos := (ft_pos (cx_fds c))(ss_id s := 0)\<rparr>\<rparr>"

definition libwebsocket_create_new_server_wsi :: "'x ss_cfg \<Rightarrow> 'x lws_context \<Rightarrow> (nat option \<times> 'x lws_context) option" where
  "libwebsocket_create_new_server_wsi cfg c =
     (case sys_call c of (a, c) \<Rightarrow>
        if sa_ret a < 0 then Some (None, c)
        else case sys_call c of (a, c) \<Rightarrow>
          if sa_ret a < 0 then Some (None, c)
          else
            let i = cx_fresh c;
                s = with_header_table (zero_session i (cx_blank c i))
            in do {
              c \<leftarrow> on_conn' i (\<lambda>s. Some (user_cb0 cfg LWS_CALLBACK_WSI_CREATE [] s)) (add_conn (s\<lparr>ss_protocol := Some 0\<rparr>) c);
              Some (Some i, c) })"

text \<open>A listening socket with an event. The options of the new socket and the insertion into the table are not
  checked. Without a connection the descriptor is closed.\<close>

definition server_accept :: "'x ss_cfg \<Rightarrow> nat \<Rightarrow> u16 \<Rightarrow> 'x lws_context \<Rightarrow> 'x lws_context option" where
  "server_accept cfg i revents c =
     (if revents AND 1 = 0 then Some c
      else case sys_call c of (a, c) \<Rightarrow>
        if sa_ret a < 0 then Some c
        else do {
          (n, c) \<leftarrow> on_conn i (\<lambda>s. Some (sc_user cfg 0 LWS_CALLBACK_FILTER_NETWORK_CONNECTION [] s)) c;
          if n \<noteq> 0 then Some c
          else do {
            (new, c) \<leftarrow> libwebsocket_create_new_server_wsi cfg c;
            case new of
              None \<Rightarrow> Some c
            | Some j \<Rightarrow> on_conn' j (\<lambda>s.
                let s = libwebsocket_set_timeout PENDING_TIMEOUT_ESTABLISH_WITH_SERVER AWAITING_TIMEOUT (s\<lparr>ss_sock := sa_ret a\<rparr>);
                    s = user_cb0 cfg LWS_CALLBACK_SERVER_NEW_CLIENT_INSTANTIATED [] s
                in map_option snd (insert_wsi_socket_into_fds cfg s)) c } })"

definition recv_of :: "sys_answer \<Rightarrow> recv_answer" where
  "recv_of a = (if 0 \<le> sa_ret a then Received (take LWS_MAX_SOCKET_IO_BUF (sa_data a))
     else if sa_errno a = LWS_EINTR \<or> sa_errno a = LWS_EAGAIN then Recv_again else Recv_failed)"

definition lws_server_socket_service :: "'x ss_cfg \<Rightarrow> nat \<Rightarrow> u16 \<Rightarrow> 'x lws_context \<Rightarrow> (int \<times> 'x lws_context) option" where
  "lws_server_socket_service cfg i revents c = do {
     s \<leftarrow> load i c;
     if ws_mode (ss_ws s) \<in> {LWS_CONNMODE_HTTP_SERVING, LWS_CONNMODE_HTTP_SERVING_ACCEPTED}
     then (case sys_call c of (a, c) \<Rightarrow> do { c \<leftarrow> on_conn' i (http_service cfg revents (recv_of a)) c; Some (0, c) })
     else if ws_mode (ss_ws s) = LWS_CONNMODE_SERVER_LISTENER
     then do { c \<leftarrow> server_accept cfg i revents c; Some (0, c) }
     else Some (0, c) }"

section \<open>Websocket connections\<close>

text \<open>One pass of the extensions over what was received; the boolean of the middle tells that one has more.\<close>

fun exts_preparse :: "'x ss_cfg \<Rightarrow> nat list \<Rightarrow> bytes \<Rightarrow> bool \<Rightarrow> 'x session \<Rightarrow> bool \<times> bytes \<times> bool \<times> 'x session" where
  "exts_preparse cfg [] d again s = (True, d, again, s)"
| "exts_preparse cfg (e # es) d again s =
     (case sc_ext cfg e LWS_EXT_CALLBACK_PACKET_RX_PREPARSE d s of (m, d, s) \<Rightarrow>
        if m < 0 then (False, d, again, s) else exts_preparse cfg es d (again \<or> m \<noteq> 0) s)"

text \<open>The ways out of the service of a websocket.\<close>

datatype service_end = Handled int | Close_and_handled

partial_function (option) drain_loop :: "'x ss_cfg \<Rightarrow> bytes \<Rightarrow> 'x session \<Rightarrow> (service_end option \<times> 'x session) option" where
  "drain_loop cfg d s =
     (case exts_preparse cfg (ss_exts s) d False s of (ok, d, again, s) \<Rightarrow>
        if \<not> ok then Some (Some Close_and_handled, s)
        else Option.bind (if d = [] then Some (0, s) else libwebsocket_read cfg d s) (\<lambda>(n, s).
          if n < 0 then Some (Some (Handled 0), s)
          else if again then drain_loop cfg [] s else Some (None, s)))"

declare drain_loop.simps [code]

definition drained :: "'x ss_cfg \<Rightarrow> bool \<Rightarrow> 'x session \<Rightarrow> 'x session" where
  "drained cfg draining s =
     (case ws_rxflow_buffer (ss_ws s) of
        None \<Rightarrow> s
      | Some b \<Rightarrow>
          if draining \<and> ws_rxflow_pos (ss_ws s) = length b
          then upd_ws (\<lambda>w. snd (rx_flow_control_apply (sc_lws cfg s) (w\<lparr>ws_rxflow_buffer := None\<rparr>))) s
          else s)"

definition ws_drain :: "'x ss_cfg \<Rightarrow> bool \<Rightarrow> bytes \<Rightarrow> 'x session \<Rightarrow> (service_end \<times> 'x session) option" where
  "ws_drain cfg draining d s = do {
     (r, s) \<leftarrow> drain_loop cfg d s;
     case r of Some e \<Rightarrow> Some (e, s) | None \<Rightarrow> Some (Handled 0, drained cfg draining s) }"

definition ws_recv :: "'x ss_cfg \<Rightarrow> u16 \<Rightarrow> recv_answer \<Rightarrow> 'x session \<Rightarrow> (service_end \<times> 'x session) option" where
  "ws_recv cfg revents r s =
     (if revents AND 1 = 0 then Some (Handled 0, s)
      else case r of
        Recv_again \<Rightarrow> Some (Handled 0, s)
      | Recv_failed \<Rightarrow> Some (Close_and_handled, s)
      | Received d \<Rightarrow>
          if d = [] then Some (Close_and_handled, s)
          else do { m \<leftarrow> ablit (ss_service s) 0 d; ws_drain cfg False d (s\<lparr>ss_service := m\<rparr>) })"

definition ws_service :: "'x ss_cfg \<Rightarrow> u16 \<Rightarrow> recv_answer \<Rightarrow> 'x session \<Rightarrow> (service_end \<times> 'x session) option" where
  "ws_service cfg revents r s = do {
     (n, s) \<leftarrow> (if revents AND 4 \<noteq> 0 \<and> ws_state (ss_ws s) = WSI_STATE_ESTABLISHED
        then map_option (\<lambda>(w, n). (n, s\<lparr>ss_ws := w\<rparr>)) (lws_handle_POLLOUT_event (sc_lws cfg s) (ss_ws s) True)
        else Some (0, s));
     if n < 0 then Some (Close_and_handled, s)
     else case ws_rxflow_buffer (ss_ws s) of
       Some b \<Rightarrow> if ws_rxflow_allow (ss_ws s) then ws_drain cfg True (drop (ws_rxflow_pos (ss_ws s)) b) s
                 else ws_recv cfg revents r s
     | None \<Rightarrow> ws_recv cfg revents r s }"

section \<open>Connecting\<close>

text \<open>\<open>struct pollfd\<close> services are calls of \<open>libwebsocket_service_fd\<close>, the parameter \<open>service\<close>; \<open>app\<close> is what the
  user's callback appends to the request.\<close>

type_synonym 'x service_fun = "poll_ref \<Rightarrow> 'x lws_context \<Rightarrow> (int \<times> 'x lws_context) option"

text \<open>The labels \<open>oom4\<close>, which frees the connection wherever it is, and \<open>failed\<close>.\<close>

definition connect_oom4 :: "nat \<Rightarrow> 'x lws_context \<Rightarrow> (bool \<times> 'x lws_context) option" where
  "connect_oom4 i c = do {
     c \<leftarrow> on_conn' i free_ah c;
     Some (False, c\<lparr>cx_conns := (cx_conns c)(i := None)\<rparr>) }"

definition connect_failed :: "'x ss_cfg \<Rightarrow> nat \<Rightarrow> 'x lws_context \<Rightarrow> (bool \<times> 'x lws_context) option" where
  "connect_failed cfg i c = do { c \<leftarrow> close_conn cfg i c; Some (False, c) }"

text \<open>The request to a proxy, and the address looked up.\<close>

definition proxy_request :: "bytes \<Rightarrow> nat \<Rightarrow> bytes" where
  "proxy_request ads port = str ''CONNECT '' @ ads @ str '':'' @ digits port @ str '' HTTP/1.0'' @ nl @
     str ''User-agent: libwebsockets'' @ nl @ nl"

definition proxy_prepare :: "'x lws_context \<Rightarrow> 'x session \<Rightarrow> (nat \<times> 'x session) option" where
  "proxy_prepare c s = do {
     ads \<leftarrow> hdr_string s WSI_TOKEN_CLIENT_PEER_ADDRESS;
     if cx_proxy c = None then Some (0, s)
     else do {
       ads \<leftarrow> ads;
       (s, plen) \<leftarrow> put_str 0 (proxy_request ads (ss_port s)) s;
       Some (plen, s) } }"

text \<open>The socket is opened once: \<open>Inl\<close> jumps to \<open>oom4\<close> (true) or \<open>failed\<close> (false).\<close>

definition open_socket :: "'x ss_cfg \<Rightarrow> nat \<Rightarrow> 'x lws_context \<Rightarrow> ((bool + unit) \<times> 'x lws_context) option" where
  "open_socket cfg i c = do {
     s \<leftarrow> load i c;
     if 0 \<le> ss_sock s then Some (Inr (), c)
     else case sys_call c of (a, c) \<Rightarrow> do {
       c \<leftarrow> on_conn' i (\<lambda>s. Some (s\<lparr>ss_sock := sa_ret a\<rparr>)) c;
       if sa_ret a < 0 then Some (Inl True, c)
       else case sys_call c of (opts, c) \<Rightarrow>
         if sa_ret opts < 0 then Some (Inl True, c)
         else do {
           c \<leftarrow> on_conn' i (\<lambda>s. do {
             (_, s) \<leftarrow> insert_wsi_socket_into_fds cfg (upd_ws (ws_mode_update (\<lambda>_. LWS_CONNMODE_WS_CLIENT_WAITING_CONNECT)) s);
             Some (libwebsocket_set_timeout PENDING_TIMEOUT_AWAITING_CONNECT_RESPONSE AWAITING_TIMEOUT s) }) c;
           if \<not> cx_iface c then Some (Inr (), c)
           else case sys_call c of (b, c) \<Rightarrow> Some (if sa_ret b < 0 then Inl False else Inr (), c) } } }"

text \<open>Connected: the proxy gets its request, or the handshake is issued at once.\<close>

definition connect_proxy :: "bytes \<Rightarrow> nat \<Rightarrow> nat \<Rightarrow> 'x session \<Rightarrow> (bool \<times> 'x session) option" where
  "connect_proxy ads port plen s = do {
     ah \<leftarrow> the_ah s;
     (ah, n) \<leftarrow> lws_hdr_simple_create ah WSI_TOKEN_CLIENT_PEER_ADDRESS ads;
     let s = s\<lparr>ss_hdr := (ss_hdr s)\<lparr>hdr_ah := ah\<rparr>\<rparr>;
     if n \<noteq> 0 then Some (False, s)
     else (case env_send (ss_ws s) (take plen (ss_service s)) of (r, w) \<Rightarrow>
       let s = s\<lparr>ss_port := port, ss_ws := w\<rparr>
       in (case r of
         Send_accepts _ \<Rightarrow> Some (True, upd_ws (ws_mode_update (\<lambda>_. LWS_CONNMODE_WS_CLIENT_WAITING_PROXY_REPLY))
             (libwebsocket_set_timeout PENDING_TIMEOUT_AWAITING_PROXY_RESPONSE AWAITING_TIMEOUT s))
       | _ \<Rightarrow> Some (False, s))) }"

definition connect_direct :: "'x ss_cfg \<Rightarrow> 'x service_fun \<Rightarrow> nat \<Rightarrow> 'x lws_context \<Rightarrow> (bool \<times> 'x lws_context) option" where
  "connect_direct cfg service i c = do {
     c \<leftarrow> on_conn' i (\<lambda>s. Some (upd_ws (ws_mode_update (\<lambda>_. LWS_CONNMODE_WS_CLIENT_ISSUE_HANDSHAKE))
            (libwebsocket_set_timeout PENDING_TIMEOUT_SENT_CLIENT_HANDSHAKE AWAITING_TIMEOUT s))) c;
     s \<leftarrow> load i c;
     (n, c) \<leftarrow> service (Local (ss_sock s) 1) c;
     if n < 0 then connect_failed cfg i c else Some (n = 0, c) }"

text \<open>The result tells whether the connection is returned, not \<open>NULL\<close>.\<close>

definition libwebsocket_client_connect_2 ::
    "'x ss_cfg \<Rightarrow> 'x service_fun \<Rightarrow> nat \<Rightarrow> 'x lws_context \<Rightarrow> (bool \<times> 'x lws_context) option" where
  "libwebsocket_client_connect_2 cfg service i c = do {
     (plen, c) \<leftarrow> on_conn i (proxy_prepare c) c;
     case sys_call c of (host, c) \<Rightarrow>
       if sa_ret host < 0 then connect_oom4 i c
       else do {
         (r, c) \<leftarrow> open_socket cfg i c;
         case r of
           Inl oom \<Rightarrow> if oom then connect_oom4 i c else connect_failed cfg i c
         | Inr _ \<Rightarrow> (case sys_call c of (a, c) \<Rightarrow>
             let bad = (sa_ret a = -1 \<or> sa_errno a = LWS_EISCONN)
             in if bad \<and> (sa_errno a = LWS_EALREADY \<or> sa_errno a = LWS_EINPROGRESS)
             then do { c \<leftarrow> on_conn' i (lws_change_pollfd cfg 0 4) c; Some (True, c) }
             else if bad \<and> sa_errno a \<noteq> LWS_EISCONN then connect_failed cfg i c
             else (case cx_proxy c of
                None \<Rightarrow> connect_direct cfg service i c
              | Some (ads, port) \<Rightarrow> do {
                  (ok, c) \<leftarrow> on_conn i (connect_proxy ads port plen) c;
                  if ok then Some (True, c) else connect_failed cfg i c })) } }"

text \<open>The headers of the request are put in the store; the boolean tells that they fit.\<close>

fun stash_headers :: "(nat \<times> bytes option) list \<Rightarrow> 'x session \<Rightarrow> (bool \<times> 'x session) option" where
  "stash_headers [] s = Some (True, s)"
| "stash_headers ((h, v) # hs) s = (case v of
     None \<Rightarrow> stash_headers hs s
   | Some v \<Rightarrow> do {
       ah \<leftarrow> the_ah s;
       (ah, n) \<leftarrow> lws_hdr_simple_create ah h v;
       let s = s\<lparr>ss_hdr := (ss_hdr s)\<lparr>hdr_ah := ah\<rparr>\<rparr>;
       if n \<noteq> 0 then Some (False, s) else stash_headers hs s })"

definition new_client :: "nat \<Rightarrow> int \<Rightarrow> 'x session \<Rightarrow> 'x session" where
  "new_client port version s =
     (let v = word_of_int (if version = -1 then SPEC_LATEST_SUPPORTED else version)
      in upd_ws (ws_state_update (\<lambda>_. WSI_STATE_CLIENT_UNCONNECTED))
           (s\<lparr>ss_sock := -1, ss_hdr := (ss_hdr s)\<lparr>ietf_spec_revision := v\<rparr>, ss_port := port\<rparr>))"

definition libwebsocket_client_connect ::
    "'x ss_cfg \<Rightarrow> 'x service_fun \<Rightarrow> bytes \<Rightarrow> nat \<Rightarrow> bytes \<Rightarrow> bytes \<Rightarrow> bytes option \<Rightarrow> bytes option \<Rightarrow> int \<Rightarrow> 'x lws_context
      \<Rightarrow> (nat option \<times> 'x lws_context) option" where
  "libwebsocket_client_connect cfg service address port path host origin protocol version c =
     (case sys_call c of (a, c) \<Rightarrow>
        if sa_ret a < 0 then Some (None, c)
        else case sys_call c of (a, c) \<Rightarrow>
          if sa_ret a < 0 then Some (None, c)
          else
            let i = cx_fresh c;
                s = with_header_table (new_client port version (zero_session i (cx_blank c i)))
            in do {
              (ok, s) \<leftarrow> stash_headers [(WSI_TOKEN_CLIENT_PEER_ADDRESS, Some address), (WSI_TOKEN_CLIENT_URI, Some path),
                 (WSI_TOKEN_CLIENT_HOST, Some host), (WSI_TOKEN_CLIENT_ORIGIN, origin),
                 (WSI_TOKEN_CLIENT_SENT_PROTOCOLS, protocol)] s;
              if \<not> ok then Some (None, c)
              else do {
                (handled, c) \<leftarrow> on_conn i (\<lambda>s. Some (exts_walk cfg LWS_EXT_CALLBACK_CAN_PROXY_CLIENT_CONNECTION (\<lambda>m. m \<noteq> 0) address
                    [0..<length (sc_ext_names cfg)] s)) (add_conn (s\<lparr>ss_protocol := Some 0\<rparr>) c);
                if handled
                then do {
                  c \<leftarrow> on_conn' i (\<lambda>s. Some (upd_ws (ws_mode_update (\<lambda>_. LWS_CONNMODE_WS_CLIENT_WAITING_EXTENSION_CONNECT))
                     (libwebsocket_set_timeout PENDING_TIMEOUT_AWAITING_EXTENSION_CONNECT_RESPONSE AWAITING_TIMEOUT s))) c;
                  Some (Some i, c) }
                else do {
                  (r, c) \<leftarrow> libwebsocket_client_connect_2 cfg service i c;
                  Some (if r then Some i else None, c) } } })"

section \<open>Client connections\<close>

text \<open>The answer of a proxy. True: the handshake is issued next.\<close>

definition proxy_reply :: "'x ss_cfg \<Rightarrow> u16 \<Rightarrow> sys_answer \<Rightarrow> 'x session \<Rightarrow> (bool \<times> 'x session) option" where
  "proxy_reply cfg revents a s =
     (let close = (\<lambda>s. do { s \<leftarrow> libwebsocket_close_and_free_session cfg LWS_CLOSE_STATUS_NOSTATUS s; Some (False, s) })
      in if revents AND 0x18 \<noteq> 0 then close s
      else if sa_ret a < 0 then (if sa_errno a = LWS_EAGAIN then Some (False, s) else close s)
      else do {
        m \<leftarrow> ablit (ss_service s) 0 (take LWS_MAX_SOCKET_IO_BUF (sa_data a));
        m \<leftarrow> aset m 13 0;
        t \<leftarrow> cstr m;
        let s = s\<lparr>ss_service := m\<rparr>;
        if t \<noteq> str ''HTTP/1.0 200 '' then close s
        else Some (True, libwebsocket_set_timeout NO_PENDING_TIMEOUT 0 s) })"

text \<open>\<open>recv\<close> of one byte after the other: what is there, then the end of the stream or an error.\<close>

definition recv_results :: "sys_answer \<Rightarrow> recv_result list" where
  "recv_results a = map Recv_byte (sa_data a) @ [if 0 \<le> sa_ret a then Recv_end else Recv_error]"

definition lws_client_socket_service ::
    "'x ss_cfg \<Rightarrow> ('x session \<Rightarrow> bytes) \<Rightarrow> 'x service_fun \<Rightarrow> nat \<Rightarrow> u16 \<Rightarrow> 'x lws_context \<Rightarrow> (int \<times> 'x lws_context) option" where
  "lws_client_socket_service cfg app service i revents c = do {
     s \<leftarrow> load i c;
     case ws_mode (ss_ws s) of
       LWS_CONNMODE_WS_CLIENT_WAITING_CONNECT \<Rightarrow> do {
         (r, c) \<leftarrow> libwebsocket_client_connect_2 cfg service i c;
         Some (if r then 0 else -1, c) }
     | LWS_CONNMODE_WS_CLIENT_WAITING_PROXY_REPLY \<Rightarrow>
         (case sys_call c of (a, c) \<Rightarrow> do {
            (go, c) \<leftarrow> on_conn i (proxy_reply cfg revents a) c;
            if go then on_conn i (client_issue_handshake cfg app) c else Some (0, c) })
     | LWS_CONNMODE_WS_CLIENT_ISSUE_HANDSHAKE \<Rightarrow> on_conn i (client_issue_handshake cfg app) c
     | LWS_CONNMODE_WS_CLIENT_WAITING_SERVER_REPLY \<Rightarrow>
         (case sys_call c of (a, c) \<Rightarrow> on_conn i (client_server_reply cfg revents (recv_results a)) c)
     | _ \<Rightarrow> Some (0, c) }"

section \<open>Timeouts\<close>

definition libwebsocket_service_timeout_check :: "'x ss_cfg \<Rightarrow> int \<Rightarrow> 'x session \<Rightarrow> (bool \<times> 'x session) option" where
  "libwebsocket_service_timeout_check cfg sec s =
     (case exts_walk cfg LWS_EXT_CALLBACK_1HZ (\<lambda>_. False) [] (ss_exts s) s of (_, s) \<Rightarrow>
        if fst (ss_timeout s) = NO_PENDING_TIMEOUT then Some (False, s)
        else if snd (ss_timeout s) < sec
        then do { s \<leftarrow> libwebsocket_close_and_free_session cfg LWS_CLOSE_STATUS_NOSTATUS s; Some (True, s) }
        else Some (False, s))"

text \<open>The walk over the table; the result tells that the connection to be serviced (\<open>our_fd\<close>) timed out.\<close>

partial_function (option) timeout_loop ::
    "'x ss_cfg \<Rightarrow> int \<Rightarrow> poll_ref option \<Rightarrow> int \<Rightarrow> nat \<Rightarrow> bool \<Rightarrow> 'x lws_context \<Rightarrow> (bool \<times> 'x lws_context) option" where
  "timeout_loop cfg now p our_fd n timed_out c =
     (if ft_count (cx_fds c) \<le> int n then Some (timed_out, c)
      else Option.bind (slot_at n c) (\<lambda>sl. Option.bind (lookup_fd (sl_fd sl) c) (\<lambda>l. case l of
        None \<Rightarrow> timeout_loop cfg now p our_fd (n + 1) timed_out c
      | Some i \<Rightarrow>
          Option.bind (on_conn i (libwebsocket_service_timeout_check cfg now) c) (\<lambda>(closed, c).
            if closed \<and> sl_fd sl = our_fd
            then Option.bind (Option.bind p (\<lambda>p. ref_done p c)) (\<lambda>c. timeout_loop cfg now p our_fd (n + 1) True c)
            else timeout_loop cfg now p our_fd (n + 1) timed_out c))))"

declare timeout_loop.simps [code]

section \<open>The service of a descriptor\<close>

text \<open>The listening socket is looked at between the others: once, or twice after many connections.\<close>

definition listen_once :: "'x service_fun \<Rightarrow> nat \<Rightarrow> 'x lws_context \<Rightarrow> (bool \<times> 'x lws_context) option" where
  "listen_once service k c = (case sys_call c of (a, c) \<Rightarrow> do {
     c \<leftarrow> set_revents k (if 0 < sa_ret a then (case sa_data a of [] \<Rightarrow> 1 | b # _ \<Rightarrow> ucast b) else 0) c;
     if 0 < sa_ret a
     then do { (_, c) \<leftarrow> service (Slot k) c; Some (True, c\<lparr>cx_extraseen := cx_extraseen c + 1\<rparr>) }
     else Some (False, if cx_extraseen c \<noteq> 0 then c\<lparr>cx_extraseen := cx_extraseen c - 1\<rparr> else c) })"

definition listen_piggyback :: "'x service_fun \<Rightarrow> nat \<Rightarrow> 'x lws_context \<Rightarrow> 'x lws_context option" where
  "listen_piggyback service k c =
     (let c = c\<lparr>cx_listen_count := cx_listen_count c + 1\<rparr>
      in if cx_extraseen c = 0 \<and> cx_listen_count c \<noteq> cx_listen_modulo c then Some c
      else do {
        let twice = 5 < cx_extraseen c;
        (more, c) \<leftarrow> listen_once service k (c\<lparr>cx_listen_count := 0\<rparr>);
        if more \<and> twice then map_option snd (listen_once service k c) else Some c })"

definition listen_index :: "'x lws_context \<Rightarrow> nat option" where
  "listen_index c = (if cx_listen_fd c = 0 then Some 0 else do {
     l \<leftarrow> lookup_fd (cx_listen_fd c) c;
     i \<leftarrow> l;
     let p = ft_pos (cx_fds c) i;
     if p < 0 then None else Some (nat p) })"

text \<open>What comes from the once-a-second check: whether the socket to be serviced is gone.\<close>

definition check_timeouts :: "'x ss_cfg \<Rightarrow> poll_ref option \<Rightarrow> 'x lws_context \<Rightarrow> (bool \<times> 'x lws_context) option" where
  "check_timeouts cfg p c = (case sys_call c of (a, c) \<Rightarrow>
     let now = sa_ret a; c = c\<lparr>cx_now := now\<rparr>
     in if cx_last_check c = now then Some (False, c)
     else do {
       our_fd \<leftarrow> (case p of None \<Rightarrow> Some 0 | Some p \<Rightarrow> map_option fst (ref_get p c));
       timeout_loop cfg now p our_fd 0 False (c\<lparr>cx_last_check := now\<rparr>) })"

text \<open>The switch on the mode. The boolean is the jump to \<open>close_and_handled\<close>.\<close>

definition service_mode ::
    "'x ss_cfg \<Rightarrow> ('x session \<Rightarrow> bytes) \<Rightarrow> 'x service_fun \<Rightarrow> nat \<Rightarrow> u16 \<Rightarrow> 'x lws_context \<Rightarrow> (int \<times> 'x lws_context) option" where
  "service_mode cfg app service i revents c = do {
     s \<leftarrow> load i c;
     if ws_mode (ss_ws s) \<in> {LWS_CONNMODE_HTTP_SERVING, LWS_CONNMODE_HTTP_SERVING_ACCEPTED, LWS_CONNMODE_SERVER_LISTENER,
          LWS_CONNMODE_SSL_ACK_PENDING}
     then lws_server_socket_service cfg i revents c
     else if ws_mode (ss_ws s) \<in> {LWS_CONNMODE_WS_SERVING, LWS_CONNMODE_WS_CLIENT}
     then (case sys_call c of (a, c) \<Rightarrow> do {
       (e, c) \<leftarrow> on_conn i (ws_service cfg revents (recv_of a)) c;
       case e of Handled n \<Rightarrow> Some (n, c) | Close_and_handled \<Rightarrow> do { c \<leftarrow> close_conn cfg i c; Some (1, c) } })
     else lws_client_socket_service cfg app service i revents c }"

definition service_body ::
    "'x ss_cfg \<Rightarrow> ('x session \<Rightarrow> bytes) \<Rightarrow> 'x service_fun \<Rightarrow> poll_ref option \<Rightarrow> 'x lws_context \<Rightarrow> (int \<times> 'x lws_context) option" where
  "service_body cfg app service p c = do {
     k \<leftarrow> listen_index c;
     (timed_out, c) \<leftarrow> check_timeouts cfg p c;
     if timed_out then Some (0, c)
     else case p of
       None \<Rightarrow> Some (0, c)
     | Some p \<Rightarrow> do {
         (fd, _) \<leftarrow> ref_get p c;
         l \<leftarrow> lookup_fd fd c;
         case l of
           None \<Rightarrow> Some (0, c)
         | Some i \<Rightarrow> do {
             c \<leftarrow> (if cx_listen_fd c \<noteq> 0 \<and> p \<noteq> Slot k then listen_piggyback service k c else Some c);
             (_, revents) \<leftarrow> ref_get p c;
             (n, c) \<leftarrow> (if revents AND 1 = 0 \<and> revents AND 0x18 \<noteq> 0
                then do { c \<leftarrow> close_conn cfg i c; Some (1, c) }
                else service_mode cfg app service i revents c);
             c \<leftarrow> ref_done p c;
             Some (n, c) } } }"

text \<open>The calls nest: a connection that is made is serviced at once, and the listening socket within any other. What
  is done with a descriptor is monotone in the service it calls, so that the recursion needs no bound; \<open>None\<close> as the
  reference is \<open>NULL\<close>.\<close>

lemma mono_case [partial_function_mono]:
  "(\<And>a b. mono_option (\<lambda>f. P a b f)) \<Longrightarrow> mono_option (\<lambda>f. case x of (a, b) \<Rightarrow> P a b f)"
  "mono_option N \<Longrightarrow> (\<And>y. mono_option (\<lambda>f. Q y f)) \<Longrightarrow> mono_option (\<lambda>f. case z of None \<Rightarrow> N f | Some y \<Rightarrow> Q y f)"
  "(\<And>l. mono_option (\<lambda>f. L l f)) \<Longrightarrow> (\<And>r. mono_option (\<lambda>f. R r f)) \<Longrightarrow>
     mono_option (\<lambda>f. case y of Inl l \<Rightarrow> L l f | Inr r \<Rightarrow> R r f)"
  by (cases x, simp, cases z, simp_all, cases y, simp_all)

lemma mono_map: "mono_option B \<Longrightarrow> mono_option (\<lambda>f. map_option g (B f))"
  by (rule monotoneI) (drule monotoneD, assumption, auto simp: flat_ord_def)

lemma mono_const: "mono_option (\<lambda>f. c)"
  by (auto simp: monotone_def flat_ord_def)

lemmas mono_service = Partial_Function.bind_mono if_mono let_mono mono_case mono_const mono_map

lemma map_option_bind: "map_option g x = Option.bind x (\<lambda>y. Some (g y))"
  by (cases x) simp_all

lemma listen_once_mono:
  assumes "\<And>p c. mono_option (\<lambda>f. S f p c)"
  shows "mono_option (\<lambda>f. listen_once (S f) k c)"
  unfolding listen_once_def by (intro mono_service assms)

lemma listen_piggyback_mono:
  assumes "\<And>p c. mono_option (\<lambda>f. S f p c)"
  shows "mono_option (\<lambda>f. listen_piggyback (S f) k c)"
  unfolding listen_piggyback_def map_option_bind by (intro mono_service listen_once_mono assms)

lemma connect_direct_mono:
  assumes "\<And>p c. mono_option (\<lambda>f. S f p c)"
  shows "mono_option (\<lambda>f. connect_direct cfg (S f) i c)"
  unfolding connect_direct_def by (intro mono_service assms)

lemma connect_2_mono:
  assumes "\<And>p c. mono_option (\<lambda>f. S f p c)"
  shows "mono_option (\<lambda>f. libwebsocket_client_connect_2 cfg (S f) i c)"
  unfolding libwebsocket_client_connect_2_def by (intro mono_service connect_direct_mono assms)

lemma client_service_mono:
  assumes "\<And>p c. mono_option (\<lambda>f. S f p c)"
  shows "mono_option (\<lambda>f. lws_client_socket_service cfg app (S f) i revents c)"
  unfolding lws_client_socket_service_def
  apply (intro mono_service)
  subgoal for s by (cases "ws_mode (ss_ws s)"; simp only: connection_mode.case; intro mono_service connect_2_mono assms)
  done

lemma service_body_mono [partial_function_mono]:
  assumes "\<And>p c. mono_option (\<lambda>f. S f p c)"
  shows "mono_option (\<lambda>f. service_body cfg app (S f) p c)"
  unfolding service_body_def service_mode_def by (intro mono_service listen_piggyback_mono client_service_mono assms)

partial_function (option) libwebsocket_service_fd ::
    "'x ss_cfg \<Rightarrow> ('x session \<Rightarrow> bytes) \<Rightarrow> poll_ref option \<Rightarrow> 'x lws_context \<Rightarrow> (int \<times> 'x lws_context) option" where
  "libwebsocket_service_fd cfg app p c = service_body cfg app (\<lambda>p. libwebsocket_service_fd cfg app (Some p)) p c"

declare libwebsocket_service_fd.simps [code]

text \<open>\<open>poll\<close> writes the events of every slot.\<close>

fun put_revents :: "fd_slot list \<Rightarrow> bytes \<Rightarrow> fd_slot list" where
  "put_revents [] ev = []"
| "put_revents (sl # sls) ev = sl\<lparr>sl_revents := (case ev of [] \<Rightarrow> 0 | e # _ \<Rightarrow> ucast e)\<rparr> # put_revents sls (tl ev)"

partial_function (option) service_slots ::
    "'x ss_cfg \<Rightarrow> ('x session \<Rightarrow> bytes) \<Rightarrow> nat \<Rightarrow> 'x lws_context \<Rightarrow> (int \<times> 'x lws_context) option" where
  "service_slots cfg app n c =
     (if ft_count (cx_fds c) \<le> int n then Some (0, c)
      else Option.bind (slot_at n c) (\<lambda>sl.
        if sl_revents sl = 0 then service_slots cfg app (n + 1) c
        else Option.bind (libwebsocket_service_fd cfg app (Some (Slot n)) c) (\<lambda>(m, c).
          if m < 0 then Some (-1, c)
          else service_slots cfg app (if m \<noteq> 0 then n else n + 1) c)))"

declare service_slots.simps [code]

definition libwebsocket_service ::
    "'x ss_cfg \<Rightarrow> ('x session \<Rightarrow> bytes) \<Rightarrow> 'x lws_context \<Rightarrow> (int \<times> 'x lws_context) option" where
  "libwebsocket_service cfg app c = (case sys_call c of (a, c) \<Rightarrow>
     if sa_ret a < 0 then Some (if sa_errno a \<noteq> LWS_EINTR then -1 else 0, c)
     else
       let t = cx_fds c; k = nat (ft_count t);
           c = c\<lparr>cx_fds := t\<lparr>ft_fds := put_revents (take k (ft_fds t)) (sa_data a) @ drop k (ft_fds t)\<rparr>\<rparr>
       in if sa_ret a = 0
       then do { (_, c) \<leftarrow> libwebsocket_service_fd cfg app None c; Some (0, c) }
       else service_slots cfg app 0 c)"

section \<open>All connections of a protocol\<close>

text \<open>\<open>libwebsocket_callback_on_writable\<close>, with the answer it gives.\<close>

definition libwebsocket_callback_on_writable :: "'x ss_cfg \<Rightarrow> 'x session \<Rightarrow> (int \<times> 'x session) option" where
  "libwebsocket_callback_on_writable cfg s =
     (case exts_any (cfg_exts (sc_lws cfg s)) LWS_EXT_CALLBACK_REQUEST_ON_WRITEABLE (ws_ext_user (ss_ws s)) no_tokens False of
        (_, x, handled) \<Rightarrow>
          let s = upd_ws (ws_ext_user_update (\<lambda>_. x)) s
          in if handled then Some (1, s)
          else if ft_pos (ss_fds s) (ss_id s) < 0 then Some (-1, s)
          else map_option (Pair 1) (lws_change_pollfd cfg 0 4 s))"

partial_function (option) for_protocol ::
    "('x session \<Rightarrow> 'x session option) \<Rightarrow> nat \<Rightarrow> nat \<Rightarrow> 'x lws_context \<Rightarrow> 'x lws_context option" where
  "for_protocol f proto n c =
     (if ft_count (cx_fds c) \<le> int n then Some c
      else Option.bind (slot_at n c) (\<lambda>sl. Option.bind (lookup_fd (sl_fd sl) c) (\<lambda>l. case l of
        None \<Rightarrow> for_protocol f proto (n + 1) c
      | Some i \<Rightarrow> Option.bind (load i c) (\<lambda>s. Option.bind (if ss_protocol s = Some proto then on_conn' i f c else Some c)
          (\<lambda>c. for_protocol f proto (n + 1) c)))))"

declare for_protocol.simps [code]

definition libwebsocket_callback_on_writable_all_protocol :: "'x ss_cfg \<Rightarrow> nat \<Rightarrow> 'x lws_context \<Rightarrow> 'x lws_context option" where
  "libwebsocket_callback_on_writable_all_protocol cfg proto c =
     for_protocol (\<lambda>s. map_option snd (libwebsocket_callback_on_writable cfg s)) proto 0 c"

definition libwebsocket_callback_all_protocol :: "'x ss_cfg \<Rightarrow> nat \<Rightarrow> ss_reason \<Rightarrow> 'x lws_context \<Rightarrow> 'x lws_context option" where
  "libwebsocket_callback_all_protocol cfg proto reason c =
     for_protocol (\<lambda>s. map_option snd (user_cb cfg reason [] s)) proto 0 c"

section \<open>The context's beginning and end\<close>

text \<open>The tables of a context for \<open>max_fds\<close> descriptors, of which the lookup table is cleared.\<close>

definition create_tables :: "fd_slot list \<Rightarrow> 'x lws_context \<Rightarrow> 'x lws_context" where
  "create_tables mem c = c\<lparr>cx_fds := (cx_fds c)\<lparr>ft_fds := mem, ft_lookup := replicate (length mem) None, ft_count := 0,
     ft_max := int (length mem)\<rparr>, cx_extraseen := 0, cx_last_check := 0, cx_proxy := None\<rparr>"

text \<open>The listening socket: \<open>socket\<close>, the interface if one is given, \<open>bind\<close> and \<open>malloc\<close>. The result tells whether the
  creation goes on.\<close>

definition create_listener :: "'x ss_cfg \<Rightarrow> 'x lws_context \<Rightarrow> (bool \<times> 'x lws_context) option" where
  "create_listener cfg c = (case sys_call c of (sock, c) \<Rightarrow>
     if sa_ret sock < 0 then Some (False, c)
     else case (if cx_iface c then sys_call c else (sock, c)) of (a, c) \<Rightarrow>
       if sa_ret a < 0 then Some (False, c)
       else case sys_call c of (a, c) \<Rightarrow>
         if sa_ret a < 0 then Some (False, c)
         else case sys_call c of (a, c) \<Rightarrow>
           if sa_ret a < 0 then Some (False, c)
           else
             let i = cx_fresh c;
                 s = upd_ws (ws_mode_update (\<lambda>_. LWS_CONNMODE_SERVER_LISTENER)) (zero_session i (cx_blank c i))
             in do {
               c \<leftarrow> on_conn' i (\<lambda>s. map_option snd (insert_wsi_socket_into_fds cfg s)) (add_conn (s\<lparr>ss_sock := sa_ret sock\<rparr>) c);
               Some (True, c\<lparr>cx_listen_modulo := 10, cx_listen_count := 0, cx_listen_fd := sa_ret sock\<rparr>) })"

text \<open>\<open>ads:port\<close>; 127 characters of it are kept.\<close>

definition libwebsocket_set_proxy :: "bytes option \<Rightarrow> 'x lws_context \<Rightarrow> int \<times> 'x lws_context" where
  "libwebsocket_set_proxy proxy c = (case proxy of
     None \<Rightarrow> (-1, c)
   | Some t \<Rightarrow>
       let t = take 127 t
       in if 0x3a \<notin> set t then (-1, c)
       else (0, c\<lparr>cx_proxy := (let port = nat (c_atoi (tl (dropWhile (\<lambda>b. b \<noteq> 0x3a) t)) mod 2 ^ 32)
               in if port = 0 then None else Some (takeWhile (\<lambda>b. b \<noteq> 0x3a) t, port))\<rparr>))"

text \<open>Closing what is first in the table until nothing is; closing \<open>NULL\<close> does nothing.\<close>

partial_function (option) destroy_loop :: "'x ss_cfg \<Rightarrow> 'x lws_context \<Rightarrow> 'x lws_context option" where
  "destroy_loop cfg c =
     (if ft_count (cx_fds c) \<le> 0 then Some c
      else Option.bind (slot_at 0 c) (\<lambda>sl. Option.bind (lookup_fd (sl_fd sl) c) (\<lambda>l.
        Option.bind (case l of None \<Rightarrow> Some c | Some i \<Rightarrow> close_conn cfg i c) (\<lambda>c. destroy_loop cfg c))))"

declare destroy_loop.simps [code]

end
