(* ===== verification/Handshake_Request.thy ===== *)
theory Handshake_Request
  imports Header_Lines Session_Client
begin

text \<open>
  The request a client sends: what \<open>libwebsockets_generate_client_handshake\<close> leaves in the service buffer, as the
  text of header lines, and the answer it expects.
\<close>

section \<open>Appending to the service buffer\<close>

text \<open>The text \<open>t\<close> stands at offset \<open>b\<close> of the buffer.\<close>

definition buf_at :: "nat \<Rightarrow> bytes \<Rightarrow> bytes \<Rightarrow> bool" where
  "buf_at b t m \<longleftrightarrow> length m = LWS_MAX_SOCKET_IO_BUF \<and> b + length t \<le> LWS_MAX_SOCKET_IO_BUF \<and>
     take (length t) (drop b m) = t"

text \<open>The step \<open>f\<close> appends \<open>d\<close> to whatever text is at \<open>b\<close>, and changes nothing in front of it.\<close>

definition appends ::
    "('x session \<Rightarrow> nat \<Rightarrow> ('x session \<times> nat) option) \<Rightarrow> 'x session \<Rightarrow> nat \<Rightarrow> bytes \<Rightarrow> bool" where
  "appends f s b d \<longleftrightarrow> (\<forall>m t. buf_at b t m \<longrightarrow> b + length t + length d < LWS_MAX_SOCKET_IO_BUF \<longrightarrow>
     (\<exists>m'. f (s\<lparr>ss_service := m\<rparr>) (b + length t) = Some (s\<lparr>ss_service := m'\<rparr>, b + length (t @ d)) \<and>
        buf_at b (t @ d) m' \<and> take b m' = take b m))"

lemma appendsE:
  assumes "appends f s b d" "buf_at b t m" "b + length (t @ d) < LWS_MAX_SOCKET_IO_BUF"
  obtains m' where "f (s\<lparr>ss_service := m\<rparr>) (b + length t) = Some (s\<lparr>ss_service := m'\<rparr>, b + length (t @ d))"
    "buf_at b (t @ d) m'" "take b m' = take b m"
proof -
  have "b + length t + length d < LWS_MAX_SOCKET_IO_BUF" using assms(3) by simp
  then show ?thesis using assms(1,2) that unfolding appends_def by blast
qed

lemma buf_at_Nil: "length m = LWS_MAX_SOCKET_IO_BUF \<Longrightarrow> b \<le> LWS_MAX_SOCKET_IO_BUF \<Longrightarrow> buf_at b [] m"
  by (simp add: buf_at_def)

lemma appends_put_str: "appends (\<lambda>s p. put_str p d s) s b d"
  unfolding appends_def
proof (intro allI impI)
  fix m t assume m: "buf_at b t m" and room: "b + length t + length d < LWS_MAX_SOCKET_IO_BUF"
  let ?m = "take (b + length t) m @ (d @ [0]) @ drop (b + length t + length (d @ [0])) m"
  have len: "length m = LWS_MAX_SOCKET_IO_BUF" and t: "take (length t) (drop b m) = t" using m by (simp_all add: buf_at_def)
  have split: "take (b + length t) m = take b m @ t" by (simp add: take_add t)
  have "put_str (b + length t) d (s\<lparr>ss_service := m\<rparr>) = Some (s\<lparr>ss_service := ?m\<rparr>, b + length (t @ d))"
    using len room by (simp add: put_str_def access_simps)
  moreover have "buf_at b (t @ d) ?m" "take b ?m = take b m"
    using len room by (simp_all add: split buf_at_def)
  ultimately show "\<exists>m'. put_str (b + length t) d (s\<lparr>ss_service := m\<rparr>) = Some (s\<lparr>ss_service := m'\<rparr>, b + length (t @ d)) \<and>
      buf_at b (t @ d) m' \<and> take b m' = take b m" by blast
qed

lemma appends_bind:
  assumes "appends f s b d" "appends g s b e"
  shows "appends (\<lambda>s p. Option.bind (f s p) (\<lambda>(s, p). g s p)) s b (d @ e)"
  unfolding appends_def
proof (intro allI impI)
  fix m t assume m: "buf_at b t m" and room: "b + length t + length (d @ e) < LWS_MAX_SOCKET_IO_BUF"
  obtain m1 where 1: "f (s\<lparr>ss_service := m\<rparr>) (b + length t) = Some (s\<lparr>ss_service := m1\<rparr>, b + length (t @ d))"
      "buf_at b (t @ d) m1" "take b m1 = take b m"
    by (rule appendsE [OF assms(1) m]) (use room in simp_all)
  obtain m2 where 2: "g (s\<lparr>ss_service := m1\<rparr>) (b + length (t @ d))
      = Some (s\<lparr>ss_service := m2\<rparr>, b + length ((t @ d) @ e))" "buf_at b ((t @ d) @ e) m2" "take b m2 = take b m1"
    by (rule appendsE [OF assms(2) 1(2)]) (use room in simp_all)
  show "\<exists>m'. Option.bind (f (s\<lparr>ss_service := m\<rparr>) (b + length t)) (\<lambda>(s, p). g s p)
      = Some (s\<lparr>ss_service := m'\<rparr>, b + length (t @ (d @ e))) \<and> buf_at b (t @ (d @ e)) m' \<and> take b m' = take b m"
    using 1 2 by auto
qed

lemma hdr_string_frame [simp]:
  "hdr_string (s\<lparr>ss_service := m\<rparr>) h = hdr_string s h" "hdr_string (s\<lparr>ss_ws := w\<rparr>) h = hdr_string s h"
  by (simp_all add: hdr_string_def the_ah_def)

lemma appends_put_header:
  assumes "hdr_string s h = Some v"
  shows "appends (\<lambda>s p. put_header name h (s, p)) s b (case v of None \<Rightarrow> [] | Some v \<Rightarrow> name @ v @ nl)"
proof (cases v)
  case None
  then show ?thesis using assms by (auto simp: appends_def put_header_def)
next
  case (Some u)
  then show ?thesis using assms appends_put_str [of "name @ u @ nl" s b] by (simp add: appends_def put_header_def)
qed

section \<open>The text of the request\<close>

definition hline :: "string \<Rightarrow> nat \<Rightarrow> bytes \<Rightarrow> header_text" where
  "hline name h v = \<lparr>ln_name = str name, ln_gap = 1, ln_token = h, ln_value = v\<rparr>"

definition request_headers :: "bytes \<Rightarrow> bytes \<Rightarrow> bytes option \<Rightarrow> bytes option \<Rightarrow> header_text list" where
  "request_headers host key origin protos =
     [hline ''Pragma:'' 22 (str ''no-cache''), hline ''Cache-Control:'' 23 (str ''no-cache''),
      hline ''Host:'' WSI_TOKEN_HOST host, hline ''Upgrade:'' WSI_TOKEN_UPGRADE (str ''websocket''),
      hline ''Connection:'' WSI_TOKEN_CONNECTION (str ''Upgrade''), hline ''Sec-WebSocket-Key:'' WSI_TOKEN_KEY key] @
     (case origin of None \<Rightarrow> [] | Some v \<Rightarrow> [hline ''Origin:'' WSI_TOKEN_ORIGIN (str ''http://'' @ v)]) @
     (case protos of None \<Rightarrow> [] | Some v \<Rightarrow> [hline ''Sec-WebSocket-Protocol:'' WSI_TOKEN_PROTOCOL v]) @
     [hline ''Sec-WebSocket-Extensions:'' WSI_TOKEN_EXTENSIONS [], hline ''Sec-WebSocket-Version:'' WSI_TOKEN_VERSION (str ''13'')]"

definition lines_text :: "header_text list \<Rightarrow> bytes" where
  "lines_text ls = concat (map line_text ls)"

definition client_request :: "bytes \<Rightarrow> bytes \<Rightarrow> bytes \<Rightarrow> bytes option \<Rightarrow> bytes option \<Rightarrow> bytes" where
  "client_request uri host key origin protos = request_text uri @ lines_text (request_headers host key origin protos) @ nl"

definition accept_of :: "bytes \<Rightarrow> bytes" where
  "accept_of key = b64_spec (SHA1 (key @ handshake_guid))"

lemma length_SHA1 [simp]: "length (SHA1 d) = 20"
  by (simp add: SHA1_def sha1_result_def Let_def)

lemma length_accept_of [simp]: "length (accept_of key) = 28"
  by (simp add: accept_of_def length_b64_spec)

lemma b64_spec_fits:
  "int (4 * ((length xs + 2) div 3)) + 1 < sz \<Longrightarrow>
   lws_b64_encode_string xs sz = (int (4 * ((length xs + 2) div 3)), b64_spec xs @ [0])"
  using b64_loop_fits [of 0 xs sz "[]"] by (simp add: lws_b64_encode_string_def)

text \<open>Base64 text is made of characters a header value may have.\<close>

lemma encode_tab_byte: "i < 64 \<Longrightarrow> value_byte (encode_tab ! i) \<and> encode_tab ! i \<noteq> 0x20"
proof -
  have "list_all (\<lambda>c. value_byte c \<and> c \<noteq> 0x20) encode_tab" by (simp add: encode_tab_eq value_byte_def)
  then show "i < 64 \<Longrightarrow> value_byte (encode_tab ! i) \<and> encode_tab ! i \<noteq> 0x20"
    by (simp add: list_all_length length_encode_tab)
qed

lemma b64_spec_bytes: "c \<in> set (b64_spec xs) \<Longrightarrow> value_byte c \<and> c \<noteq> 0x20"
  using encode_tab_byte quad_sextets
  by (induction xs rule: b64_spec.induct) (auto simp: b64_quad_def value_byte_def chr8_def split: if_splits)

section \<open>Generating it\<close>

text \<open>A configuration without extensions, whose callbacks agree to everything and leave the connection alone.\<close>

definition plain_cfg :: "'x ss_cfg \<Rightarrow> bool" where
  "plain_cfg cfg \<longleftrightarrow> sc_ext_names cfg = [] \<and> (\<forall>p r d s. sc_user cfg p r d s = (0, s)) \<and>
     (\<forall>s. cfg_exts (sc_lws cfg s) = [])"

definition client_ready :: "'x session \<Rightarrow> bytes \<Rightarrow> bytes \<Rightarrow> bytes option \<Rightarrow> bytes option \<Rightarrow> bool" where
  "client_ready s uri host origin protos \<longleftrightarrow>
     hdr_string s WSI_TOKEN_CLIENT_URI = Some (Some uri) \<and> hdr_string s WSI_TOKEN_CLIENT_HOST = Some (Some host) \<and>
     hdr_string s WSI_TOKEN_CLIENT_ORIGIN = Some origin \<and>
     hdr_string s WSI_TOKEN_CLIENT_SENT_PROTOCOLS = Some protos \<and>
     ietf_spec_revision (ss_hdr s) = 13 \<and> length (ss_service s) = LWS_MAX_SOCKET_IO_BUF \<and> length (ss_expected s) = 30"

lemma digits_13: "digits 13 = str ''13''"
  by (simp add: str_def)

lemma key_string: "lws_b64_encode_string r 40 = (n, out) \<Longrightarrow> length r = 16 \<Longrightarrow> cstr out = Some (b64_spec r)"
proof -
  assume "lws_b64_encode_string r 40 = (n, out)" "length r = 16"
  then have "out = b64_spec r @ [0]" using b64_spec_fits [of r 40] by simp
  moreover have "0 \<notin> set (b64_spec r)" using b64_spec_bytes value_byte_def by blast
  ultimately show ?thesis by (simp add: cstr_append)
qed

lemma request_line_text:
  assumes "hdr_string s WSI_TOKEN_CLIENT_URI = Some (Some uri)" "hdr_string s WSI_TOKEN_CLIENT_HOST = Some (Some host)"
    and "length (ss_service s) = LWS_MAX_SOCKET_IO_BUF"
    and T: "T = request_text uri @ lines_text (take 6 (request_headers host key None None))"
    and "length T < LWS_MAX_SOCKET_IO_BUF"
  shows "\<exists>m. request_line s key = Some (s\<lparr>ss_service := m\<rparr>, length T) \<and> buf_at 0 T m"
proof -
  let ?d1 = "str ''GET '' @ uri @ str '' HTTP/1.1'' @ nl"
  let ?d2 = "str ''Pragma: no-cache'' @ nl @ str ''Cache-Control: no-cache'' @ nl"
  let ?d3 = "str ''Host: '' @ host @ nl"
  let ?d4 = "str ''Upgrade: websocket'' @ nl @ str ''Connection: Upgrade'' @ nl @ str ''Sec-WebSocket-Key: ''"
  let ?all = "?d1 @ ?d2 @ ?d3 @ ?d4 @ key @ nl"
  have all: "?all = T"
    unfolding T by (simp add: request_headers_def lines_text_def line_text_def hline_def request_text_def str_def nl_def)
  have A: "appends (\<lambda>s p. Option.bind (put_str p ?d1 s) (\<lambda>(s, p). Option.bind (put_str p ?d2 s) (\<lambda>(s, p).
      Option.bind (put_str p ?d3 s) (\<lambda>(s, p). Option.bind (put_str p ?d4 s) (\<lambda>(s, p).
      Option.bind (put_str p key s) (\<lambda>(s, p). put_str p nl s)))))) s 0 ?all"
    by (intro appends_bind appends_put_str)
  have s: "s\<lparr>ss_service := ss_service s\<rparr> = s" by simp
  obtain m where "Option.bind (put_str 0 ?d1 s) (\<lambda>(s, p). Option.bind (put_str p ?d2 s) (\<lambda>(s, p).
      Option.bind (put_str p ?d3 s) (\<lambda>(s, p). Option.bind (put_str p ?d4 s) (\<lambda>(s, p).
      Option.bind (put_str p key s) (\<lambda>(s, p). put_str p nl s))))) = Some (s\<lparr>ss_service := m\<rparr>, length T)" "buf_at 0 T m"
    by (rule appendsE [OF A, of "[]" "ss_service s"]) (use assms(3,5) in \<open>simp_all only: s all buf_at_Nil list.size append_Nil add_0 le0\<close>)
  then show ?thesis using assms(1,2) by (auto simp: request_line_def)
qed

lemma generate_handshake:
  assumes "plain_cfg cfg" "client_ready s uri host origin protos"
    and rnd: "libwebsockets_get_random (ss_ws s) 16 = (r, w)" "length r = 16"
    and T: "T = client_request uri host (b64_spec r) origin protos" "length T < LWS_MAX_SOCKET_IO_BUF"
  shows "\<exists>m. libwebsockets_generate_client_handshake cfg (\<lambda>_. []) s = Some (Some (length T),
      s\<lparr>ss_ws := w, ss_service := m, ss_expected := accept_of (b64_spec r) @ 0 # drop 29 (ss_expected s)\<rparr>) \<and> buf_at 0 T m"
proof -
  let ?s = "s\<lparr>ss_ws := w\<rparr>" and ?key = "b64_spec r"
  have R: "hdr_string ?s WSI_TOKEN_CLIENT_URI = Some (Some uri)" "hdr_string ?s WSI_TOKEN_CLIENT_HOST = Some (Some host)"
    "hdr_string ?s WSI_TOKEN_CLIENT_ORIGIN = Some origin" "hdr_string ?s WSI_TOKEN_CLIENT_SENT_PROTOCOLS = Some protos"
    "ietf_spec_revision (ss_hdr ?s) = 13" "length (ss_service ?s) = LWS_MAX_SOCKET_IO_BUF"
    using assms(2) by (simp_all add: client_ready_def)
  obtain n out where b64: "lws_b64_encode_string r 40 = (n, out)" by (cases "lws_b64_encode_string r 40")
  note key = key_string [OF b64 rnd(2)]
  let ?T0 = "request_text uri @ lines_text (take 6 (request_headers host ?key None None))"
  let ?d1 = "case origin of None \<Rightarrow> [] | Some v \<Rightarrow> str ''Origin: http://'' @ v @ nl"
  let ?d2 = "case protos of None \<Rightarrow> [] | Some v \<Rightarrow> str ''Sec-WebSocket-Protocol: '' @ v @ nl"
  let ?d3 = "str ''Sec-WebSocket-Extensions: ''" and ?d4 = "str ''Sec-WebSocket-Version: '' @ str ''13'' @ nl"
  have all: "(((((?T0 @ ?d1) @ ?d2) @ ?d3) @ nl) @ ?d4) @ nl = T"
    unfolding T(1) by (simp add: client_request_def request_headers_def lines_text_def line_text_def hline_def request_text_def
        str_def nl_def split: option.splits)
  then have L: "length ((((((?T0 @ ?d1) @ ?d2) @ ?d3) @ nl) @ ?d4) @ nl) < LWS_MAX_SOCKET_IO_BUF" using T(2) by simp
  then obtain m0 where m0: "request_line ?s ?key = Some (?s\<lparr>ss_service := m0\<rparr>, length ?T0)" "buf_at 0 ?T0 m0"
    using request_line_text [OF R(1,2,6) refl, of ?key] by auto
  obtain m1 where m1: "put_header (str ''Origin: http://'') WSI_TOKEN_CLIENT_ORIGIN (?s\<lparr>ss_service := m0\<rparr>, length ?T0)
      = Some (?s\<lparr>ss_service := m1\<rparr>, length (?T0 @ ?d1))" "buf_at 0 (?T0 @ ?d1) m1"
    by (rule appendsE [OF appends_put_header [OF R(3)] m0(2), of "str ''Origin: http://''"])
       (use L in \<open>simp_all only: add_0 length_append\<close>)
  obtain m2 where m2: "put_header (str ''Sec-WebSocket-Protocol: '') WSI_TOKEN_CLIENT_SENT_PROTOCOLS
      (?s\<lparr>ss_service := m1\<rparr>, length (?T0 @ ?d1)) = Some (?s\<lparr>ss_service := m2\<rparr>, length ((?T0 @ ?d1) @ ?d2))"
      "buf_at 0 ((?T0 @ ?d1) @ ?d2) m2"
    by (rule appendsE [OF appends_put_header [OF R(4)] m1(2), of "str ''Sec-WebSocket-Protocol: ''"])
       (use L in \<open>simp_all only: add_0 length_append\<close>)
  obtain m3 where m3: "put_str (length ((?T0 @ ?d1) @ ?d2)) ?d3 (?s\<lparr>ss_service := m2\<rparr>)
      = Some (?s\<lparr>ss_service := m3\<rparr>, length (((?T0 @ ?d1) @ ?d2) @ ?d3))" "buf_at 0 (((?T0 @ ?d1) @ ?d2) @ ?d3) m3"
    by (rule appendsE [OF appends_put_str m2(2), of ?d3 ?s]) (use L in \<open>simp_all only: add_0 length_append\<close>)
  obtain m4 where m4: "put_str (length (((?T0 @ ?d1) @ ?d2) @ ?d3)) nl (?s\<lparr>ss_service := m3\<rparr>)
      = Some (?s\<lparr>ss_service := m4\<rparr>, length ((((?T0 @ ?d1) @ ?d2) @ ?d3) @ nl))" "buf_at 0 ((((?T0 @ ?d1) @ ?d2) @ ?d3) @ nl) m4"
    by (rule appendsE [OF appends_put_str m3(2), of nl ?s]) (use L in \<open>simp_all only: add_0 length_append\<close>)
  obtain m5 where m5: "put_str (length ((((?T0 @ ?d1) @ ?d2) @ ?d3) @ nl)) ?d4 (?s\<lparr>ss_service := m4\<rparr>)
      = Some (?s\<lparr>ss_service := m5\<rparr>, length (((((?T0 @ ?d1) @ ?d2) @ ?d3) @ nl) @ ?d4))"
      "buf_at 0 (((((?T0 @ ?d1) @ ?d2) @ ?d3) @ nl) @ ?d4) m5"
    by (rule appendsE [OF appends_put_str m4(2), of ?d4 ?s]) (use L in \<open>simp_all only: add_0 length_append\<close>)
  obtain m6 where m6: "put_str (length (((((?T0 @ ?d1) @ ?d2) @ ?d3) @ nl) @ ?d4)) [] (?s\<lparr>ss_service := m5\<rparr>)
      = Some (?s\<lparr>ss_service := m6\<rparr>, length ((((((?T0 @ ?d1) @ ?d2) @ ?d3) @ nl) @ ?d4) @ []))"
      "buf_at 0 ((((((?T0 @ ?d1) @ ?d2) @ ?d3) @ nl) @ ?d4) @ []) m6"
    by (rule appendsE [OF appends_put_str m5(2), of "[]" ?s]) (use L in \<open>simp_all only: add_0 length_append list.size\<close>)
  obtain m7 where m7: "put_str (length ((((((?T0 @ ?d1) @ ?d2) @ ?d3) @ nl) @ ?d4) @ [])) nl (?s\<lparr>ss_service := m6\<rparr>)
      = Some (?s\<lparr>ss_service := m7\<rparr>, length T)" "buf_at 0 T m7"
    by (rule appendsE [OF appends_put_str m6(2), of nl ?s]) (use L all in \<open>simp_all only: add_0 append_Nil2\<close>)
  have e: "expected_answer ?key (?s\<lparr>ss_service := m7\<rparr>)
      = Some (?s\<lparr>ss_service := m7, ss_expected := accept_of ?key @ 0 # drop 29 (ss_expected s)\<rparr>)"
    using assms(2) b64_spec_fits [of "SHA1 (?key @ handshake_guid)" 30]
    by (simp add: expected_answer_def accept_of_def [symmetric] client_ready_def access_simps)
  have p: "propose cfg [0..<length (sc_ext_names cfg)] 0 n s = Some (s, n)" for n s
    using assms(1) by (simp add: plain_cfg_def)
  have u: "sc_user cfg 0 r d s = (0, s)" for r d s using assms(1) by (simp add: plain_cfg_def)
  have rev: "ietf_spec_revision (ss_hdr (?s\<lparr>ss_service := m4\<rparr>)) = 13" "(13 :: u8) \<noteq> 0" using R(5) by simp_all
  have v: "digits (unat (13 :: u8)) = str ''13''" using digits_13 by simp
  have "libwebsockets_generate_client_handshake cfg (\<lambda>_. []) s
      = Some (Some (length T), ?s\<lparr>ss_service := m7, ss_expected := accept_of ?key @ 0 # drop 29 (ss_expected s)\<rparr>)"
    unfolding libwebsockets_generate_client_handshake_def rnd(1) prod.case Let_def b64
    by (simp only: rnd(2) rev key m0(1) m1(1) m2(1) m3(1) m4(1) m5(1) m6(1) m7(1) p u v e prod.case bind.simps
        Let_def simp_thms if_True if_False session.simps)
  then show ?thesis using m7(2) by blast
qed

end
