(* ===== verification/Handshake_Server.thy ===== *)
theory Handshake_Server
  imports Handshake_Request
begin

text \<open>
  The server's answer to a handshake: what \<open>handshake_0405\<close> sends, and that \<open>libwebsocket_read\<close> takes a whole
  request to an established connection.
\<close>

section \<open>Sending the response\<close>

text \<open>The members of a connection that a raw send changes.\<close>

definition sent_from :: "'x wsi \<Rightarrow> 'x wsi \<Rightarrow> bool" where
  "sent_from w w' \<longleftrightarrow> (\<exists>sends wire tr off len po. w' = w\<lparr>ws_sends := sends, ws_wire := wire, ws_trunc := tr,
     ws_trunc_off := off, ws_trunc_len := len, ws_pollout := po\<rparr>)"

lemma sent_from_fields:
  assumes "sent_from w w'"
  shows "ws_mode w' = ws_mode w" "ws_state w' = ws_state w" "ws_mallocs w' = ws_mallocs w" "ws_delivered w' = ws_delivered w"
    "ws_randoms w' = ws_randoms w"
  using assms by (auto simp: sent_from_def)

text \<open>The socket is up: nothing is pending, no send will fail for good, and there is memory.\<close>

definition can_send :: "'x wsi \<Rightarrow> bool" where
  "can_send w \<longleftrightarrow> ws_trunc w = None \<and> \<not> ws_clean_buffer w \<and> ws_mallocs w = [] \<and> Send_error \<notin> set (ws_sends w)"

lemma issue_buffer_ok:
  assumes exts: "cfg_exts cfg = []" and "can_send w" and "tok_off t + tok_len t \<le> length (tok_mem t)" "0 < tok_len t"
  obtains w' where "lws_issue_raw cfg w (Buffer t) = Some (w', int (tok_len t))"
    "out_stream w' = out_stream w @ tok_bytes t" "trunc_ok w'" "sent_from w w'"
proof -
  let ?d = "tok_bytes t"
  have d: "length ?d = tok_len t" using assms(3) by (simp add: tok_bytes_def)
  have idle: "ws_trunc w = None" "\<not> ws_clean_buffer w" "ws_mallocs w = []" "Send_error \<notin> set (ws_sends w)"
    using assms(2) by (simp_all add: can_send_def)
  have w: "out_stream w = ws_wire w" using idle by (simp add: out_stream_def trunc_bytes_def)
  have upd: "w\<lparr>ws_ext_user := ws_ext_user w\<rparr> = w" "t\<lparr>tok_len := tok_len t\<rparr> = t" by simp_all
  have run: "lws_issue_raw cfg w (Buffer t) = (case env_send w ?d of
            (Send_accepts n, w) \<Rightarrow> handle_truncated_send cfg w ?d n
          | (Send_again, w) \<Rightarrow> handle_truncated_send cfg w ?d 0
          | (Send_error, w) \<Rightarrow> Some (w, -1))"
    unfolding lws_issue_raw_def raw_tokens_def raw_source.case Let_def exts exts_send.simps prod.case upd
    using idle by simp
  have step: "\<exists>w'. handle_truncated_send cfg v ?d n = Some (w', int (tok_len t)) \<and>
      out_stream w' = ws_wire v @ drop n ?d \<and> trunc_ok w' \<and> sent_from w w'"
    if "v = w\<lparr>ws_sends := rs, ws_wire := wire\<rparr>" "n \<le> length ?d" for v wire rs and n
  proof (cases "n < length ?d")
    case True
    let ?w = "v\<lparr>ws_trunc := Some (drop n ?d), ws_trunc_off := 0, ws_trunc_len := length ?d - n, ws_pollout := True\<rparr>"
    have "handle_truncated_send cfg v ?d n = Some (?w, int (tok_len t))"
      using True d idle that by (simp add: handle_truncated_send_def env_malloc_def callback_on_writable_none [OF exts])
    moreover have "out_stream ?w = ws_wire v @ drop n ?d" "trunc_ok ?w"
      using True d by (simp_all add: out_stream_def trunc_bytes_def trunc_ok_def)
    moreover have "sent_from w ?w" unfolding that(1) sent_from_def
      by (intro exI [of _ rs] exI [of _ wire] exI [of _ "Some (drop n ?d)"] exI [of _ 0] exI [of _ "length ?d - n"] exI [of _ True]) simp
    ultimately show ?thesis by blast
  next
    case False
    have "sent_from w v" unfolding that(1) sent_from_def
      by (intro exI [of _ rs] exI [of _ wire] exI [of _ "ws_trunc w"] exI [of _ "ws_trunc_off w"] exI [of _ "ws_trunc_len w"]
          exI [of _ "ws_pollout w"]) simp
    then show ?thesis using False that d idle
      by (simp add: handle_truncated_send_def out_stream_def trunc_bytes_def trunc_ok_def)
  qed
  have again: "env_send w ?d = (Send_again, w\<lparr>ws_sends := rs, ws_wire := ws_wire w\<rparr>) \<Longrightarrow> thesis" for rs
    using step [OF refl, where n = 0 and rs = rs and wire = "ws_wire w"] run that w by auto
  show ?thesis
  proof (cases "ws_sends w")
    case Nil
    then show ?thesis using again [of "ws_sends w"] by (simp add: env_send_def)
  next
    case (Cons r rs)
    show ?thesis
    proof (cases r)
      case (Send_accepts k)
      let ?n = "min k (length ?d)" and ?v = "w\<lparr>ws_sends := rs, ws_wire := ws_wire w @ take (min k (length ?d)) ?d\<rparr>"
      have "env_send w ?d = (Send_accepts ?n, ?v)" using Cons Send_accepts by (simp add: env_send_def Let_def)
      then have r: "lws_issue_raw cfg w (Buffer t) = handle_truncated_send cfg ?v ?d ?n" using run by simp
      have le: "?n \<le> length ?d" by simp
      obtain w' where h: "handle_truncated_send cfg ?v ?d ?n = Some (w', int (tok_len t))"
        "out_stream w' = ws_wire ?v @ drop ?n ?d" "trunc_ok w'" "sent_from w w'"
        using step [OF refl le, of "ws_wire w @ take ?n ?d" rs] by blast
      have "ws_wire ?v @ drop ?n ?d = ws_wire w @ (take ?n ?d @ drop ?n ?d)" by simp
      then have "out_stream w' = out_stream w @ ?d" unfolding h(2) w by (simp only: append_take_drop_id)
      with h r that show ?thesis by simp
    qed (use Cons idle(4) again [of rs] in \<open>simp_all add: env_send_def\<close>)
  qed
qed

lemma write_http:
  assumes "cfg_exts cfg = []" "can_send w" and "off + len \<le> length mem" "0 < len"
  obtains w' where "libwebsocket_write cfg w mem off len LWS_WRITE_HTTP = Some (w', mem, int len)"
    "out_stream w' = out_stream w @ take len (drop off mem)" "trunc_ok w'" "sent_from w w'"
proof -
  let ?t = "\<lparr>tok_mem = mem, tok_off = off, tok_len = len, tok_own = False\<rparr>"
  obtain w' where "lws_issue_raw cfg w (Buffer ?t) = Some (w', int len)"
    "out_stream w' = out_stream w @ tok_bytes ?t" "trunc_ok w'" "sent_from w w'"
    using issue_buffer_ok [OF assms(1,2), of ?t] assms(3,4) by auto
  then show ?thesis using that [of w'] assms(4)
    by (simp add: libwebsocket_write_def send_raw_def Let_def tok_bytes_def)
qed

section \<open>The response\<close>

definition server_response :: "bytes \<Rightarrow> bytes option \<Rightarrow> bytes" where
  "server_response key proto = response_start @ accept_of key @
     (case proto of None \<Rightarrow> [] | Some p \<Rightarrow> nl @ str ''Sec-WebSocket-Protocol: '' @ p) @ nl @ nl"

text \<open>A header that is stored, or not there.\<close>

definition header_is :: "'x session \<Rightarrow> nat \<Rightarrow> bytes option \<Rightarrow> bool" where
  "header_is s h v \<longleftrightarrow> holds_header (hdr_ah (ss_hdr s)) h v"

definition ah_good :: "'x session \<Rightarrow> bool" where
  "ah_good s \<longleftrightarrow> ss_ah s = Ah_valid \<and> ah_ok (hdr_ah (ss_hdr s))"

lemma header_access:
  assumes "header_is s h v" "ah_good s"
  shows "hdr_total s h = Some (case v of None \<Rightarrow> 0 | Some v \<Rightarrow> length v)" "hdr_string s h = Some v"
  using assms stored_total stored_string absent_access
  by (fastforce simp: header_is_def holds_header_def ah_good_def hdr_total_def hdr_string_def the_ah_def split: option.splits)+

lemma hdr_total_frame [simp]:
  "hdr_total (s\<lparr>ss_service := m\<rparr>) h = hdr_total s h" "hdr_total (s\<lparr>ss_user := b\<rparr>) h = hdr_total s h"
  "hdr_total (s\<lparr>ss_ws := w\<rparr>) h = hdr_total s h" "hdr_string (s\<lparr>ss_user := b\<rparr>) h = hdr_string s h"
  "hdr_total (s\<lparr>ss_protocol := i\<rparr>) h = hdr_total s h" "hdr_string (s\<lparr>ss_protocol := i\<rparr>) h = hdr_string s h"
  "hdr_total (s\<lparr>ss_timeout := t\<rparr>) h = hdr_total s h" "hdr_string (s\<lparr>ss_timeout := t\<rparr>) h = hdr_string s h"
  by (simp_all add: hdr_total_def hdr_string_def the_ah_def)

lemma header_frame [simp]:
  "header_is (s\<lparr>ss_service := m\<rparr>) h v = header_is s h v" "header_is (s\<lparr>ss_user := b\<rparr>) h v = header_is s h v"
  "header_is (s\<lparr>ss_protocol := i\<rparr>) h v = header_is s h v" "ah_good (s\<lparr>ss_protocol := i\<rparr>) = ah_good s"
  "header_is (s\<lparr>ss_timeout := t\<rparr>) h v = header_is s h v" "ah_good (s\<lparr>ss_timeout := t\<rparr>) = ah_good s"
  "header_is (s\<lparr>ss_ws := w\<rparr>) h v = header_is s h v" "ah_good (s\<lparr>ss_service := m\<rparr>) = ah_good s"
  "ah_good (s\<lparr>ss_user := b\<rparr>) = ah_good s" "ah_good (s\<lparr>ss_ws := w\<rparr>) = ah_good s"
  by (simp_all add: header_is_def holds_header_def ah_good_def split: option.split)

lemma appends_hdr_copy:
  assumes "stored (hdr_ah (ss_hdr s)) h v" "ah_good s" "length v < 128"
    and "buf_at b t m" "b + length t + 128 \<le> LWS_MAX_SOCKET_IO_BUF"
  obtains d m' where "lws_hdr_copy (hdr_ah (ss_hdr s)) (take 128 (drop (b + length t) m)) h = Some (d, int (length v))"
    "ablit m (b + length t) d = Some m'" "buf_at b (t @ v) m'" "take b m' = take b m"
proof -
  let ?dest = "take 128 (drop (b + length t) m)"
  let ?d = "v @ [0] @ drop (length v + 1) ?dest"
  have m: "length m = LWS_MAX_SOCKET_IO_BUF" "take (length t) (drop b m) = t" using assms(4) by (simp_all add: buf_at_def)
  then have split: "take (b + length t) m = take b m @ t" by (simp add: take_add)
  have len: "length ?dest = 128" using m assms(5) by simp
  then have d: "length ?d = 128" using assms(3) by simp
  show ?thesis
  proof (rule that)
    show "lws_hdr_copy (hdr_ah (ss_hdr s)) ?dest h = Some (?d, int (length v))"
      using stored_copy [OF assms(1)] assms(2,3) len by (simp add: ah_good_def)
    show "ablit m (b + length t) ?d = Some (take (b + length t) m @ ?d @ drop (b + length t + length ?d) m)"
      by (rule ablit_in) (use d m assms(5) in simp)
    show "buf_at b (t @ v) (take (b + length t) m @ ?d @ drop (b + length t + length ?d) m)"
      "take b (take (b + length t) m @ ?d @ drop (b + length t + length ?d) m) = take b m"
      using m assms(5) d by (simp_all add: split buf_at_def)
  qed
qed

lemma accept_of_bytes: "c \<in> set (accept_of key) \<Longrightarrow> value_byte c \<and> c \<noteq> 0x20"
  unfolding accept_of_def by (rule b64_spec_bytes)

lemma length_guid: "length handshake_guid = 36"
  by (simp add: handshake_guid_def str_def)

lemma accept_key_text:
  assumes "hdr_string s WSI_TOKEN_KEY = Some (Some key)" "length key < 128" "length (ss_service s) = LWS_MAX_SOCKET_IO_BUF"
  shows "\<exists>m. accept_key s = Some (28, s\<lparr>ss_service := m\<rparr>) \<and> length m = LWS_MAX_SOCKET_IO_BUF \<and>
    take 29 m = accept_of key @ [0]"
proof -
  let ?t = "key @ handshake_guid"
  obtain m where m: "put_str 0 ?t s = Some (s\<lparr>ss_service := m\<rparr>, length ?t)" "buf_at 0 ?t m"
    using appendsE [OF appends_put_str buf_at_Nil, of "ss_service s" 0 ?t s] assms(2,3)
    by (auto simp: length_guid)
  then have d: "take (length ?t) m = ?t" "length m = LWS_MAX_SOCKET_IO_BUF" by (simp_all add: buf_at_def)
  have b: "lws_b64_encode_string (SHA1 ?t) (int LWS_MAX_SOCKET_IO_BUF) = (28, accept_of key @ [0])"
    using b64_spec_fits [of "SHA1 ?t" "int LWS_MAX_SOCKET_IO_BUF"] by (simp add: accept_of_def)
  let ?m = "take 0 m @ (accept_of key @ [0]) @ drop (0 + length (accept_of key @ [0])) m"
  have "ablit m 0 (accept_of key @ [0]) = Some ?m" by (rule ablit_in) (use d in simp)
  then have "accept_key s = Some (28, s\<lparr>ss_service := ?m\<rparr>)"
    using assms(1) m(1) b d(1) by (simp add: accept_key_def)
  moreover have "length ?m = LWS_MAX_SOCKET_IO_BUF" "take 29 ?m = accept_of key @ [0]" using d(2) by simp_all
  ultimately show ?thesis by blast
qed

lemma length_response_start: "length response_start = 97"
  by (simp add: response_start_def str_def)

lemma response_head_text:
  assumes "ah_good s" "header_is s WSI_TOKEN_PROTOCOL proto" "\<And>p. proto = Some p \<Longrightarrow> p \<noteq> [] \<and> length p < 128"
    and "length (ss_service s) = LWS_MAX_SOCKET_IO_BUF" "take 29 (ss_service s) = accept_of key @ [0]"
    and T: "T = response_start @ accept_of key @ (case proto of None \<Rightarrow> [] | Some p \<Rightarrow> nl @ str ''Sec-WebSocket-Protocol: '' @ p)"
  shows "\<exists>m. response_head 28 s = Some (s\<lparr>ss_service := m\<rparr>, Some (128 + length T)) \<and> buf_at 128 T m"
proof -
  have s: "s\<lparr>ss_service := ss_service s\<rparr> = s" by simp
  obtain m1 where 1: "put_str 128 response_start s = Some (s\<lparr>ss_service := m1\<rparr>, 128 + length response_start)"
    "buf_at 128 response_start m1" "take 128 m1 = take 128 (ss_service s)"
    using appendsE [OF appends_put_str [of response_start s] buf_at_Nil [OF assms(4)], of 128]
    by (auto simp: length_response_start s)
  have "take 29 m1 = accept_of key @ [0]"
    using arg_cong [OF 1(3), of "take 29"] assms(5) by simp
  then have "m1 = accept_of key @ 0 # drop 29 m1" by (metis append.assoc append_Cons append_Nil append_take_drop_id)
  moreover have "0 \<notin> set (accept_of key)" using accept_of_bytes value_byte_def by blast
  ultimately have acc: "cstr m1 = Some (accept_of key)" using cstr_append by metis
  obtain m2 where 2: "put_str (128 + length response_start) (accept_of key) (s\<lparr>ss_service := m1\<rparr>)
      = Some (s\<lparr>ss_service := m2\<rparr>, 128 + length (response_start @ accept_of key))"
    "buf_at 128 (response_start @ accept_of key) m2"
    by (rule appendsE [OF appends_put_str 1(2), of "accept_of key" s]) (simp_all add: length_response_start)
  have p: "128 + length response_start + nat 28 = 128 + length (response_start @ accept_of key)" by simp
  note tot = header_access(1) [OF assms(2,1)]
  show ?thesis
  proof (cases proto)
    case None
    then have "response_head 28 s = Some (s\<lparr>ss_service := m2\<rparr>, Some (128 + length T))"
      unfolding response_head_def using 1(1) acc 2(1) p tot by (simp add: T Let_def)
    then show ?thesis using 2(2) None T by auto
  next
    case (Some v)
    note v = assms(3) [OF Some]
    let ?h = "nl @ str ''Sec-WebSocket-Protocol: ''" and ?a = "response_start @ accept_of key"
    obtain m3 where 3: "put_str (128 + length ?a) ?h (s\<lparr>ss_service := m2\<rparr>) = Some (s\<lparr>ss_service := m3\<rparr>, 128 + length (?a @ ?h))"
      "buf_at 128 (?a @ ?h) m3"
      by (rule appendsE [OF appends_put_str 2(2), of ?h s]) (simp_all add: length_response_start nl_def str_def)
    have st: "stored (hdr_ah (ss_hdr s)) WSI_TOKEN_PROTOCOL v" using assms(2) Some by (simp add: header_is_def holds_header_def)
    have room: "128 + length (?a @ ?h) + 128 \<le> LWS_MAX_SOCKET_IO_BUF" by (simp add: length_response_start nl_def str_def)
    obtain d m4 where 4: "lws_hdr_copy (hdr_ah (ss_hdr s)) (take 128 (drop (128 + length (?a @ ?h)) m3)) WSI_TOKEN_PROTOCOL
        = Some (d, int (length v))" "ablit m3 (128 + length (?a @ ?h)) d = Some m4" "buf_at 128 ((?a @ ?h) @ v) m4"
      by (rule appends_hdr_copy [OF st assms(1) conjunct2 [OF v] 3(2) room])
    have T': "T = (?a @ ?h) @ v" using T Some by simp
    have "response_head 28 s = Some (s\<lparr>ss_service := m4\<rparr>, Some (128 + length (?a @ ?h) + length v))"
      unfolding response_head_def
      using 1(1) acc 2(1) p tot v 3(1) 4(1,2) assms(1) Some by (simp add: Let_def the_ah_def ah_good_def nl_def)
    then show ?thesis using 4(3) unfolding T' by auto
  qed
qed

section \<open>The handshake\<close>

definition can_handshake :: "'x ss_cfg \<Rightarrow> 'x session \<Rightarrow> bytes \<Rightarrow> bytes \<Rightarrow> bytes option \<Rightarrow> bool" where
  "can_handshake cfg s host key proto \<longleftrightarrow>
     ah_good s \<and> header_is s WSI_TOKEN_HOST (Some host) \<and> host \<noteq> [] \<and>
     header_is s WSI_TOKEN_KEY (Some key) \<and> key \<noteq> [] \<and> length key < 128 \<and>
     header_is s WSI_TOKEN_PROTOCOL proto \<and> (\<forall>p. proto = Some p \<longrightarrow> p \<noteq> [] \<and> length p < 128) \<and>
     hdr_total s WSI_TOKEN_EXTENSIONS = Some 0 \<and> ss_exts s = [] \<and>
     length (ss_service s) = LWS_MAX_SOCKET_IO_BUF \<and> can_send (ss_ws s) \<and>
     (\<exists>i < length (sc_protocols cfg). ss_protocol s = Some i)"

lemma ensure_user_ok:
  assumes "ss_protocol s = Some i" "i < length (sc_protocols cfg)" "ws_mallocs (ss_ws s) = []"
  shows "\<exists>u. libwebsocket_ensure_user_space cfg s = Some (0, s\<lparr>ss_user := u\<rparr>)"
proof -
  have "s\<lparr>ss_user := ss_user s\<rparr> = s" "s\<lparr>ss_ws := ss_ws s\<rparr> = s" by simp_all
  then show ?thesis using assms
    by (auto simp: libwebsocket_ensure_user_space_def env_malloc_def intro: exI [of _ True] exI [of _ "ss_user s"])
qed

lemma plain_user:
  assumes "plain_cfg cfg"
  shows "user_cb0 cfg r d s = s" "ss_protocol s = Some i \<Longrightarrow> i < length (sc_protocols cfg) \<Longrightarrow> user_cb cfg r d s = Some (0, s)"
  using assms by (simp_all add: plain_cfg_def user_cb0_def user_cb_def)

lemma handshake_accepts:
  assumes cfg: "plain_cfg cfg" and ready: "can_handshake cfg s host key proto"
  shows "\<exists>u m w. handshake_0405 cfg s = Some (0, s\<lparr>ss_user := u, ss_service := m,
       ss_ws := w\<lparr>ws_state := WSI_STATE_ESTABLISHED, ws_rx_state := LWS_RXPS_NEW\<rparr>\<rparr>) \<and>
     sent_from (ss_ws s) w \<and> out_stream w = out_stream (ss_ws s) @ server_response key proto \<and> trunc_ok w \<and>
     length m = LWS_MAX_SOCKET_IO_BUF"
proof -
  have R: "ah_good s" "header_is s WSI_TOKEN_HOST (Some host)" "host \<noteq> []" "header_is s WSI_TOKEN_KEY (Some key)" "key \<noteq> []"
    "length key < 128" "header_is s WSI_TOKEN_PROTOCOL proto" "\<And>p. proto = Some p \<Longrightarrow> p \<noteq> [] \<and> length p < 128"
    "hdr_total s WSI_TOKEN_EXTENSIONS = Some 0" "ss_exts s = []" "length (ss_service s) = LWS_MAX_SOCKET_IO_BUF"
    "can_send (ss_ws s)"
    using ready by (auto simp: can_handshake_def)
  obtain i where i: "ss_protocol s = Some i" "i < length (sc_protocols cfg)" using ready by (auto simp: can_handshake_def)
  note host = header_access [OF R(2,1)] and key = header_access [OF R(4,1)]
  obtain m1 where 1: "accept_key s = Some (28, s\<lparr>ss_service := m1\<rparr>)" "length m1 = LWS_MAX_SOCKET_IO_BUF"
    "take 29 m1 = accept_of key @ [0]"
    using accept_key_text [OF key(2) R(6,11)] by blast
  obtain u where 2: "libwebsocket_ensure_user_space cfg (s\<lparr>ss_service := m1\<rparr>) = Some (0, s\<lparr>ss_service := m1, ss_user := u\<rparr>)"
    using ensure_user_ok [of "s\<lparr>ss_service := m1\<rparr>" i cfg] i R(12) by (auto simp: can_send_def)
  let ?s = "s\<lparr>ss_user := u\<rparr>"
  have sw: "s\<lparr>ss_service := m, ss_user := u\<rparr> = ?s\<lparr>ss_service := m\<rparr>" for m by simp
  define T where "T = response_start @ accept_of key @ (case proto of None \<Rightarrow> [] | Some p \<Rightarrow> nl @ str ''Sec-WebSocket-Protocol: '' @ p)"
  have L: "length T < 1000" using R(8) by (auto simp: T_def length_response_start nl_def str_def split: option.split)
  obtain m2 where 3: "response_head 28 (?s\<lparr>ss_service := m1\<rparr>) = Some (?s\<lparr>ss_service := m2\<rparr>, Some (128 + length T))"
    "buf_at 128 T m2"
    using response_head_text [of "?s\<lparr>ss_service := m1\<rparr>" proto key T] R(1,7,8) 1 T_def by auto
  obtain m3 where 4: "put_str (128 + length T) (nl @ nl) (?s\<lparr>ss_service := m2\<rparr>) = Some (?s\<lparr>ss_service := m3\<rparr>, 128 + length (T @ nl @ nl))"
    "buf_at 128 (T @ nl @ nl) m3"
    by (rule appendsE [OF appends_put_str 3(2), of "nl @ nl" ?s]) (use L in \<open>simp_all add: nl_def\<close>)
  define N where "N = length (T @ nl @ nl)"
  note 4 = 4 [folded N_def]
  have N: "0 < N" "128 + N \<le> LWS_MAX_SOCKET_IO_BUF" using L by (simp_all add: N_def nl_def)
  have body: "take (N) (drop 128 m3) = server_response key proto" and len: "length m3 = LWS_MAX_SOCKET_IO_BUF"
    using 4(2) by (simp_all add: buf_at_def server_response_def T_def N_def)
  have exts: "cfg_exts (sc_lws cfg x) = []" for x using cfg by (simp add: plain_cfg_def)
  obtain w where 5: "libwebsocket_write (sc_lws cfg (?s\<lparr>ss_service := m3\<rparr>)) (ss_ws s) m3 128 (N) LWS_WRITE_HTTP
      = Some (w, m3, int (N))"
    "out_stream w = out_stream (ss_ws s) @ server_response key proto" "trunc_ok w" "sent_from (ss_ws s) w"
    by (rule write_http [OF exts R(12), of 128 "N" m3])
       (use N len body in simp_all)
  have 6: "send_response cfg (128 + N) (?s\<lparr>ss_service := m3\<rparr>)
      = Some (True, ?s\<lparr>ss_service := m3, ss_ws := w\<rparr>)"
    using R(10) 5(1) by (simp add: send_response_def)
  let ?w = "w\<lparr>ws_state := WSI_STATE_ESTABLISHED, ws_rx_state := LWS_RXPS_NEW\<rparr>"
  have "handshake_0405 cfg s = Some (0, s\<lparr>ss_user := u, ss_service := m3, ss_ws := ?w\<rparr>)"
    using host(1) key(1) R(3,5,6,9) 1(1) 2 [unfolded sw] 3(1) 4(1) 6 i plain_user(2) [OF cfg]
    by (simp add: handshake_0405_def negotiate_extensions_def upd_ws_def nl_def)
  then show ?thesis using 5 len by blast
qed

section \<open>Reading the request\<close>

lemma parse_answers:
  "libwebsocket_parse w c = Some (w', r) \<Longrightarrow> r = 0 \<or> r = -1"
proof -
  have complete: "set_parsing_complete w = Some (w', r) \<Longrightarrow> r = 0" for w w' r
    by (auto simp: set_parsing_complete_def Let_def split: Option.bind_splits)
  have swallow: "parse_swallow w = Some (w', r) \<Longrightarrow> r = 0" for w w' r
    using complete by (auto simp: parse_swallow_def split: if_splits)
  have spill: "parse_spill w c = Some (w', r) \<Longrightarrow> r = 0 \<or> r = -1" for w c w' r
    using swallow by (fastforce simp: parse_spill_def Let_def split: Option.bind_splits if_splits)
  have args: "start_uri_args w = Some (w', r) \<Longrightarrow> r = 0" for w w' r
    using swallow by (fastforce simp: start_uri_args_def Let_def split: Option.bind_splits)
  have eol: "parse_check_eol w c = Some (w', r) \<Longrightarrow> r = 0 \<or> r = -1" for w c w' r
    using spill args by (fastforce simp: parse_check_eol_def split: if_splits)
  have path: "parse_uri_path w c = Some (w', r) \<Longrightarrow> r = 0 \<or> r = -1" for w c w' r
    using swallow eol
    by (fastforce simp: parse_uri_path_def split: uri_path_states.splits if_splits Option.bind_splits)
  have esc: "parse_uri_esc f w c = Some (w', r) \<Longrightarrow> r = 0 \<or> r = -1" for f w c w' r
    using swallow path
    by (fastforce simp: parse_uri_esc_def Let_def split: uri_esc_states.splits if_splits Option.bind_splits)
  have val: "parse_value f w c = Some (w', r) \<Longrightarrow> r = 0 \<or> r = -1" for f w c w' r
    using eol spill esc by (fastforce simp: parse_value_def Let_def split: if_splits Option.bind_splits)
  have frag: "start_fragment w = Some (w', r) \<Longrightarrow> r = 0 \<or> r = -1" for w w' r
    by (auto simp: start_fragment_def Let_def split: if_splits Option.bind_splits)
  have name: "parse_name_part w c = Some (w', r) \<Longrightarrow> r = 0 \<or> r = -1" for w c w' r
    using complete frag by (fastforce simp: parse_name_part_def Let_def split: if_splits Option.bind_splits)
  show "libwebsocket_parse w c = Some (w', r) \<Longrightarrow> r = 0 \<or> r = -1"
    using val name unfolding libwebsocket_parse_eq by (auto split: if_splits)
qed

lemma parse_complete_stays: "parser_state w = WSI_PARSING_COMPLETE \<Longrightarrow> parse_bytes w cs = Some (w, 0)"
  by (induction cs) (simp_all add: libwebsocket_parse_eq)

text \<open>While the headers are not complete, the loop is the parser's.\<close>

lemma header_loop_run:
  assumes "parse_bytes (ss_hdr s) cs = Some (h, 0)" "parser_state h \<noteq> WSI_PARSING_COMPLETE" "ss_ah s = Ah_valid"
  shows "header_loop cfg (cs @ ds) s = header_loop cfg ds (s\<lparr>ss_hdr := h\<rparr>)"
  using assms
proof (induction cs arbitrary: s)
  case Nil
  then have "s\<lparr>ss_hdr := h\<rparr> = s" by simp
  then show ?case by simp
next
  case (Cons c cs)
  obtain w r where step: "libwebsocket_parse (ss_hdr s) c = Some (w, r)"
    using Cons.prems(1) by (auto split: Option.bind_splits)
  with Cons.prems(1) parse_answers [OF step] have r: "r = 0" and rest: "parse_bytes w cs = Some (h, 0)"
    by (auto split: if_splits)
  have "parser_state w \<noteq> WSI_PARSING_COMPLETE" using parse_complete_stays [of w cs] rest Cons.prems(2) by auto
  moreover have "header_loop cfg (cs @ ds) (s\<lparr>ss_hdr := w\<rparr>) = header_loop cfg ds (s\<lparr>ss_hdr := w\<rparr>\<lparr>ss_hdr := h\<rparr>)"
    by (rule Cons.IH) (use rest Cons.prems in simp_all)
  ultimately show ?case using step r Cons.prems(3) by (simp add: the_ah_def)
qed

section \<open>A whole request\<close>

definition value_text :: "bytes \<Rightarrow> bool" where
  "value_text v \<longleftrightarrow> (\<forall>c \<in> set v. value_byte c) \<and> (v \<noteq> [] \<longrightarrow> hd v \<noteq> 0x20)"

definition request_fits :: "bytes \<Rightarrow> bytes \<Rightarrow> bytes \<Rightarrow> bytes option \<Rightarrow> bytes option \<Rightarrow> bool" where
  "request_fits uri host key origin protos \<longleftrightarrow>
     plain_path False uri \<and> uri \<noteq> [] \<and> value_text host \<and> host \<noteq> [] \<and> value_text key \<and> key \<noteq> [] \<and> length key < 128 \<and>
     (\<forall>v. origin = Some v \<longrightarrow> (\<forall>c \<in> set v. value_byte c)) \<and>
     (\<forall>v. protos = Some v \<longrightarrow> value_text v \<and> v \<noteq> [] \<and> length v < 128) \<and>
     length uri + 1 + lines_size (request_headers host key origin protos) \<le> LWS_MAX_HEADER_LEN"

lemma hline_ok:
  assumes "h < 31" "map tolower (str name) = minilex_set ! h" "h \<notin> {0, 1, 10, 13}" "value_text v"
  shows "line_ok (hline name h v)"
  using assms by (simp add: line_ok_def hline_def length_minilex_set value_text_def)

lemma request_lines_ok:
  assumes "request_fits uri host key origin protos"
  shows "list_all line_ok (request_headers host key origin protos)"
    "distinct (map ln_token (request_headers host key origin protos))"
    "length (request_headers host key origin protos) \<le> 10" "WSI_TOKEN_GET_URI \<notin> ln_token ` set (request_headers host key origin protos)"
proof -
  have v: "value_text host" "value_text key" "\<And>v. origin = Some v \<Longrightarrow> value_text (str ''http://'' @ v)"
    "\<And>v. protos = Some v \<Longrightarrow> value_text v" "value_text (str ''no-cache'')" "value_text (str ''websocket'')"
    "value_text (str ''Upgrade'')" "value_text []" "value_text (str ''13'')"
    using assms by (auto simp: request_fits_def value_text_def value_byte_def str_def)
  have lex: "map tolower (str ''Pragma:'') = minilex_set ! 22" "map tolower (str ''Cache-Control:'') = minilex_set ! 23"
    "map tolower (str ''Host:'') = minilex_set ! WSI_TOKEN_HOST" "map tolower (str ''Upgrade:'') = minilex_set ! WSI_TOKEN_UPGRADE"
    "map tolower (str ''Connection:'') = minilex_set ! WSI_TOKEN_CONNECTION"
    "map tolower (str ''Sec-WebSocket-Key:'') = minilex_set ! WSI_TOKEN_KEY"
    "map tolower (str ''Origin:'') = minilex_set ! WSI_TOKEN_ORIGIN"
    "map tolower (str ''Sec-WebSocket-Protocol:'') = minilex_set ! WSI_TOKEN_PROTOCOL"
    "map tolower (str ''Sec-WebSocket-Extensions:'') = minilex_set ! WSI_TOKEN_EXTENSIONS"
    "map tolower (str ''Sec-WebSocket-Version:'') = minilex_set ! WSI_TOKEN_VERSION"
    by (simp_all add: minilex_set_def str_def tolower_def)
  have o: "\<And>v. origin = Some v \<Longrightarrow> line_ok (hline ''Origin:'' WSI_TOKEN_ORIGIN (str ''http://'' @ v))"
    "\<And>v. protos = Some v \<Longrightarrow> line_ok (hline ''Sec-WebSocket-Protocol:'' WSI_TOKEN_PROTOCOL v)"
    using hline_ok lex v by simp_all
  show "list_all line_ok (request_headers host key origin protos)"
    using hline_ok [OF _ lex(1)] hline_ok [OF _ lex(2)] hline_ok [OF _ lex(3)] hline_ok [OF _ lex(4)] hline_ok [OF _ lex(5)]
      hline_ok [OF _ lex(6)] hline_ok [OF _ lex(9)] hline_ok [OF _ lex(10)] v o
    by (auto simp: request_headers_def split: option.splits)
  show "distinct (map ln_token (request_headers host key origin protos))"
    "length (request_headers host key origin protos) \<le> 10"
    by (simp_all add: request_headers_def hline_def split: option.split)
  show "WSI_TOKEN_GET_URI \<notin> ln_token ` set (request_headers host key origin protos)"
    by (auto simp: request_headers_def hline_def split: option.split)
qed

text \<open>A store just allocated, and the parser at its start.\<close>

definition fresh_parser :: "hdr_wsi \<Rightarrow> bool" where
  "fresh_parser w \<longleftrightarrow> ah_ok (hdr_ah w) \<and> (\<forall>h < WSI_TOKEN_COUNT. absent (hdr_ah w) h) \<and>
     ah_next_frag (hdr_ah w) = 0 \<and> ah_pos (hdr_ah w) = 0 \<and> hdr_ups w = URIPS_IDLE \<and> hdr_ues w = URIES_IDLE"

lemma parse_request:
  assumes "fresh_parser w" "at_name w" and fits: "request_fits uri host key origin protos"
  shows "\<exists>ah u. parse_bytes w (request_text uri @ lines_text (request_headers host key origin protos))
      = Some (w\<lparr>hdr_ah := ah, hdr_ups := u\<rparr>, 0) \<and> ah_ok ah \<and>
    (\<forall>l \<in> set (request_headers host key origin protos). stored ah (ln_token l) (ln_value l)) \<and>
    (\<forall>h < WSI_TOKEN_COUNT. h \<notin> insert WSI_TOKEN_GET_URI (ln_token ` set (request_headers host key origin protos)) \<longrightarrow> absent ah h)"
proof -
  let ?ls = "request_headers host key origin protos"
  have F: "ah_ok (hdr_ah w)" "\<And>h. h < WSI_TOKEN_COUNT \<Longrightarrow> absent (hdr_ah w) h" "ah_next_frag (hdr_ah w) = 0" "ah_pos (hdr_ah w) = 0"
    "hdr_ups w = URIPS_IDLE" "cur_sealed (hdr_ah w)"
    using assms(1) by (simp_all add: fresh_parser_def cur_sealed_def)
  have U: "plain_path False uri" "uri \<noteq> []" "length uri + 1 + lines_size ?ls \<le> LWS_MAX_HEADER_LEN"
    using fits by (simp_all add: request_fits_def)
  have room: "ah_next_frag (hdr_ah w) + 1 < HDR_FRAGS" "ah_pos (hdr_ah w) + length uri < LWS_MAX_HEADER_LEN"
    using F(3,4) U(3) by simp_all
  obtain u where 1: "parse_bytes w (request_text uri) = Some (w\<lparr>hdr_ah := add_header (hdr_ah w) WSI_TOKEN_GET_URI uri, hdr_ups := u\<rparr>, 0)"
    using parse_request_line [OF assms(2) F(5,1,6) F(2) U(1,2) room] by auto
  let ?ah = "add_header (hdr_ah w) WSI_TOKEN_GET_URI uri"
  let ?w = "w\<lparr>hdr_ah := ?ah, hdr_ups := u\<rparr>"
  have new: "absent ?ah h" if "h < WSI_TOKEN_COUNT" "h \<noteq> WSI_TOKEN_GET_URI" for h
    using F(2) that by (simp add: absent_add_header)
  have tok: "absent ?ah (ln_token l)" if "l \<in> set ?ls" for l
  proof (rule new)
    have "line_ok l" using request_lines_ok(1) [OF fits] that by (simp add: list_all_iff)
    then show "ln_token l < WSI_TOKEN_COUNT" using line_okD by fastforce
    show "ln_token l \<noteq> WSI_TOKEN_GET_URI" using request_lines_ok(4) [OF fits] that by (metis imageI)
  qed
  have takes: "takes_lines ?ah ?ls"
    unfolding takes_lines_def
    using add_header_ok [OF F(1,6) _ room] request_lines_ok [OF fits] U(3) F(3,4) tok
    by (simp add: add_header_fields)
  have "parse_bytes ?w (lines_text ?ls) = Some (?w\<lparr>hdr_ah := add_lines ?ls ?ah\<rparr>, 0)"
    unfolding lines_text_def using parse_lines [of ?w ?ls] takes assms(2) by (simp add: at_name_def)
  then have "parse_bytes w (request_text uri @ lines_text ?ls) = Some (w\<lparr>hdr_ah := add_lines ?ls ?ah, hdr_ups := u\<rparr>, 0)"
    unfolding parse_bytes_append [OF 1] by simp
  moreover have "ah_ok (add_lines ?ls ?ah)" using add_lines_ok [OF takes] by simp
  moreover have "\<forall>l \<in> set ?ls. stored (add_lines ?ls ?ah) (ln_token l) (ln_value l)" using add_lines_stored [OF takes] by blast
  moreover have "\<forall>h < WSI_TOKEN_COUNT. h \<notin> insert WSI_TOKEN_GET_URI (ln_token ` set ?ls) \<longrightarrow> absent (add_lines ?ls ?ah) h"
    using add_lines_absent new by blast
  ultimately show ?thesis by blast
qed

section \<open>The server\<close>

definition server_ready :: "'x session \<Rightarrow> bool" where
  "server_ready s \<longleftrightarrow> \<not> ss_gone s \<and> ws_state (ss_ws s) = WSI_STATE_HTTP \<and> ws_mode (ss_ws s) = LWS_CONNMODE_HTTP_SERVING \<and>
     ss_ah s = Ah_valid \<and> fresh_parser (ss_hdr s) \<and> ss_protocol s = Some 0 \<and> ss_exts s = [] \<and>
     length (ss_service s) = LWS_MAX_SOCKET_IO_BUF \<and> can_send (ss_ws s) \<and> ss_sockopts s = []"

text \<open>The protocol the server takes for a request: the first of its list that fits.\<close>

definition serves :: "'x ss_cfg \<Rightarrow> bytes option \<Rightarrow> nat \<Rightarrow> bool" where
  "serves cfg protos i \<longleftrightarrow> i < length (sc_protocols cfg) \<and>
     (let k = find_protocol (sc_protocols cfg) 0 (case protos of None \<Rightarrow> 0 | Some v \<Rightarrow> length v) protos in
        k = i \<or> length (sc_protocols cfg) \<le> k \<and> protos = None \<and> i = 0)"

lemma select_ok:
  assumes "serves cfg protos i" "ss_protocol s = Some 0" "header_is s WSI_TOKEN_PROTOCOL protos" "ah_good s"
  shows "select_protocol cfg s = Some (Some (s\<lparr>ss_protocol := Some i\<rparr>))"
  using assms header_access [OF assms(3,4)] by (auto simp: select_protocol_def serves_def Let_def)

lemma stream_cong:
  "ws_wire w = ws_wire v \<Longrightarrow> ws_trunc w = ws_trunc v \<Longrightarrow> ws_trunc_off w = ws_trunc_off v \<Longrightarrow> ws_trunc_len w = ws_trunc_len v \<Longrightarrow>
   out_stream w = out_stream v \<and> trunc_ok w = trunc_ok v"
  by (cases "ws_trunc v") (simp_all add: out_stream_def trunc_bytes_def trunc_ok_def)

lemma transition_ok:
  assumes "ws_mallocs w = []"
  obtains v where "ws_transition cfg mode [] w = (True, v)" "ws_mode v = mode" "ws_state v = ws_state w"
    "ws_rx_state v = ws_rx_state w" "out_stream v = out_stream w" "trunc_ok v = trunc_ok w"
    "ws_rx_buf v = replicate (rx_size cfg + 22) 0" "ws_rx_head v = 0"
proof -
  obtain v where v: "ws_transition cfg mode [] w = (True, v)" "ws_mode v = mode" "ws_state v = ws_state w"
    "ws_rx_state v = ws_rx_state w" "ws_wire v = ws_wire w" "ws_trunc v = ws_trunc w" "ws_trunc_off v = ws_trunc_off w"
    "ws_trunc_len v = ws_trunc_len w" "ws_rx_buf v = replicate (rx_size cfg + 22) 0" "ws_rx_head v = 0"
    using assms by (simp add: ws_transition_def env_malloc_def Let_def)
  then show ?thesis using that stream_cong [OF v(5-8)] by blast
qed

lemma ws_request_ok:
  assumes cfg: "plain_cfg cfg" and serves: "serves cfg protos i" "ss_protocol s = Some 0" and sock: "ss_sockopts s = []"
    and rev: "ietf_spec_revision (ss_hdr s) = 13"
    and ready: "can_handshake cfg s host key protos"
  shows "\<exists>s'. ws_request cfg [] s = Some (0, s') \<and> ws_state (ss_ws s') = WSI_STATE_ESTABLISHED \<and>
    ws_mode (ss_ws s') = LWS_CONNMODE_WS_SERVING \<and> ws_rx_state (ss_ws s') = LWS_RXPS_NEW \<and> ws_rev (ss_ws s') = 13 \<and>
    ss_protocol s' = Some i \<and> ss_ah s' = Ah_null \<and> \<not> ss_gone s' = (\<not> ss_gone s) \<and>
    out_stream (ss_ws s') = out_stream (ss_ws s) @ server_response key protos \<and> trunc_ok (ss_ws s')"
proof -
  have G: "ah_good s" "header_is s WSI_TOKEN_PROTOCOL protos" "can_send (ss_ws s)"
    using ready by (simp_all add: can_handshake_def)
  have i: "i < length (sc_protocols cfg)" using serves by (simp add: serves_def)
  let ?s1 = "s\<lparr>ss_protocol := Some i\<rparr>"
  note 1 = select_ok [OF serves G(2,1)]
  obtain u where 2: "libwebsocket_ensure_user_space cfg ?s1 = Some (0, ?s1\<lparr>ss_user := u\<rparr>)"
    using ensure_user_ok [of ?s1 i cfg] i G(3) by (auto simp: can_send_def)
  let ?s2 = "?s1\<lparr>ss_user := u\<rparr>"
  have name: "hdr_string ?s2 WSI_TOKEN_PROTOCOL = Some protos"
    using header_access(2) [OF G(2,1)] by simp
  have ready2: "can_handshake cfg ?s2 host key protos"
    using ready i by (simp add: can_handshake_def)
  obtain u2 m w where 3: "handshake_0405 cfg ?s2 = Some (0, ?s2\<lparr>ss_user := u2, ss_service := m,
       ss_ws := w\<lparr>ws_state := WSI_STATE_ESTABLISHED, ws_rx_state := LWS_RXPS_NEW\<rparr>\<rparr>)"
     "sent_from (ss_ws s) w" "out_stream w = out_stream (ss_ws s) @ server_response key protos" "trunc_ok w"
    using handshake_accepts [OF cfg ready2] by auto
  let ?w = "w\<lparr>ws_state := WSI_STATE_ESTABLISHED, ws_rx_state := LWS_RXPS_NEW\<rparr>"
  have mem: "ws_mallocs ?w = []" using sent_from_fields [OF 3(2)] G(3) by (simp add: can_send_def)
  have S: "ws_state ?w = WSI_STATE_ESTABLISHED" "ws_rx_state ?w = LWS_RXPS_NEW" "out_stream ?w = out_stream w" "trunc_ok ?w = trunc_ok w"
    using stream_cong [of ?w w] by simp_all
  obtain v where v: "ws_transition (sc_lws cfg (?s2\<lparr>ss_user := u2, ss_service := m, ss_ws := ?w, ss_ah := Ah_dangling\<rparr>))
      LWS_CONNMODE_WS_SERVING [] ?w = (True, v)" "ws_mode v = LWS_CONNMODE_WS_SERVING" "ws_state v = WSI_STATE_ESTABLISHED"
    "ws_rx_state v = LWS_RXPS_NEW" "out_stream v = out_stream w" "trunc_ok v"
    using transition_ok [OF mem] 3(4) stream_cong [of ?w w] by (metis (no_types, lifting) S)
  have "ws_request cfg [] s = Some (0, ?s2\<lparr>ss_user := u2, ss_service := m, ss_ah := Ah_null, ss_ws := v\<lparr>ws_rev := 13\<rparr>\<rparr>)"
    using 1 2 name 3(1) v(1) rev sock i plain_user(2) [OF cfg] G(1)
    by (simp add: ws_request_def free_ah_def ah_good_def env_sockopt_def)
  then show ?thesis using v 3(3) stream_cong [of "v\<lparr>ws_rev := 13\<rparr>" v] by simp
qed

lemma request_line_in:
  "hline ''Host:'' WSI_TOKEN_HOST host \<in> set (request_headers host key origin protos)"
  "hline ''Upgrade:'' WSI_TOKEN_UPGRADE (str ''websocket'') \<in> set (request_headers host key origin protos)"
  "hline ''Connection:'' WSI_TOKEN_CONNECTION (str ''Upgrade'') \<in> set (request_headers host key origin protos)"
  "hline ''Sec-WebSocket-Key:'' WSI_TOKEN_KEY key \<in> set (request_headers host key origin protos)"
  "hline ''Sec-WebSocket-Extensions:'' WSI_TOKEN_EXTENSIONS [] \<in> set (request_headers host key origin protos)"
  "hline ''Sec-WebSocket-Version:'' WSI_TOKEN_VERSION (str ''13'') \<in> set (request_headers host key origin protos)"
  "protos = Some p \<Longrightarrow> hline ''Sec-WebSocket-Protocol:'' WSI_TOKEN_PROTOCOL p \<in> set (request_headers host key origin protos)"
  "protos = None \<Longrightarrow> WSI_TOKEN_PROTOCOL \<notin> insert WSI_TOKEN_GET_URI (ln_token ` set (request_headers host key origin protos))"
  by (simp_all add: request_headers_def) (auto simp: hline_def split: option.split)

lemma stored_line: "\<forall>l \<in> set ls. stored ah (ln_token l) (ln_value l) \<Longrightarrow> hline n h v \<in> set ls \<Longrightarrow> stored ah h v"
  by (auto simp: hline_def)

lemma server_reads:
  assumes cfg: "plain_cfg cfg" and ready: "server_ready s" and fits: "request_fits uri host key origin protos"
    and serves: "serves cfg protos i"
  shows "\<exists>s'. libwebsocket_read cfg (client_request uri host key origin protos) s = Some (0, s') \<and>
    ws_state (ss_ws s') = WSI_STATE_ESTABLISHED \<and> ws_mode (ss_ws s') = LWS_CONNMODE_WS_SERVING \<and>
    ws_rx_state (ss_ws s') = LWS_RXPS_NEW \<and> ws_rev (ss_ws s') = 13 \<and> ss_protocol s' = Some i \<and> ss_ah s' = Ah_null \<and>
    \<not> ss_gone s' \<and> out_stream (ss_ws s') = out_stream (ss_ws s) @ server_response key protos \<and> trunc_ok (ss_ws s')"
proof -
  let ?ls = "request_headers host key origin protos"
  have R: "\<not> ss_gone s" "ws_state (ss_ws s) = WSI_STATE_HTTP" "ws_mode (ss_ws s) = LWS_CONNMODE_HTTP_SERVING" "ss_ah s = Ah_valid"
    "fresh_parser (ss_hdr s)" "ss_protocol s = Some 0" "ss_exts s = []" "length (ss_service s) = LWS_MAX_SOCKET_IO_BUF"
    "can_send (ss_ws s)" "ss_sockopts s = []"
    using ready by (simp_all add: server_ready_def)
  define s0 where "s0 = fresh_headers s"
  have S0: "ss_hdr s0 = (ss_hdr s)\<lparr>parser_state := WSI_TOKEN_NAME_PART, lextable_pos := 0\<rparr>"
    "ss_ws s0 = (ss_ws s)\<lparr>ws_state := WSI_STATE_HTTP_HEADERS\<rparr>" "ss_ah s0 = Ah_valid" "ss_gone s0 = ss_gone s"
    "ss_protocol s0 = Some 0" "ss_exts s0 = []" "length (ss_service s0) = LWS_MAX_SOCKET_IO_BUF" "ss_sockopts s0 = []"
    using R by (simp_all add: s0_def fresh_headers_def upd_ws_def)
  have name: "at_name (ss_hdr s0)" "fresh_parser (ss_hdr s0)" using R(5) by (simp_all add: S0 at_name_def fresh_parser_def)
  obtain ah u where P: "parse_bytes (ss_hdr s0) (request_text uri @ lines_text ?ls) = Some ((ss_hdr s0)\<lparr>hdr_ah := ah, hdr_ups := u\<rparr>, 0)"
    "ah_ok ah" "\<forall>l \<in> set ?ls. stored ah (ln_token l) (ln_value l)"
    "\<forall>h < WSI_TOKEN_COUNT. h \<notin> insert WSI_TOKEN_GET_URI (ln_token ` set ?ls) \<longrightarrow> absent ah h"
    using parse_request [OF name(2,1) fits] by blast
  note st = stored_line [OF P(3) request_line_in(1)] stored_line [OF P(3) request_line_in(2)]
    stored_line [OF P(3) request_line_in(3)] stored_line [OF P(3) request_line_in(4)]
    stored_line [OF P(3) request_line_in(5)] stored_line [OF P(3) request_line_in(6)]
  have proto: "holds_header ah WSI_TOKEN_PROTOCOL protos"
    using stored_line [OF P(3) request_line_in(7)] P(4) request_line_in(8) [of protos host key origin]
    by (cases protos) (auto simp: holds_header_def)
  let ?h = "(ss_hdr s0)\<lparr>hdr_ah := ah, hdr_ups := u\<rparr>"
  have n: "at_name ?h" "ah_ok (hdr_ah ?h)" "parser_state ?h \<noteq> WSI_PARSING_COMPLETE" using name(1) P(2) by (simp_all add: at_name_def)
  have run: "header_loop cfg ((request_text uri @ lines_text ?ls) @ nl) s0 = header_loop cfg nl (s0\<lparr>ss_hdr := ?h\<rparr>)"
    by (rule header_loop_run [OF P(1) n(3) S0(3)])
  let ?h' = "?h\<lparr>lextable_pos := 206, ietf_spec_revision := 13, parser_state := WSI_PARSING_COMPLETE, hdr_parsing_completed := True\<rparr>"
  have "revision ?h (Some (str ''websocket'')) (Some (str ''13'')) = 13"
    by (simp add: revision_def str_def c_atoi_def c_isspace_def atoi_digits_def c_isdigit_def)
  then have lf: "libwebsocket_parse (?h\<lparr>lextable_pos := 204\<rparr>) 10 = Some (?h', 0)"
    using parse_lf [OF n(1,2), of "Some (str ''websocket'')" "Some (str ''13'')"] st(2,6) by (simp add: holds_header_def)
  define s1 where "s1 = libwebsocket_set_timeout NO_PENDING_TIMEOUT 0
    (upd_ws (ws_mode_update (\<lambda>_. LWS_CONNMODE_PRE_WS_SERVING_ACCEPT)) (s0\<lparr>ss_hdr := ?h'\<rparr>))"
  have S1: "ss_hdr s1 = ?h'" "ss_ws s1 = (ss_ws s0)\<lparr>ws_mode := LWS_CONNMODE_PRE_WS_SERVING_ACCEPT\<rparr>" "ss_ah s1 = Ah_valid"
    "ss_protocol s1 = Some 0" "ss_exts s1 = []" "length (ss_service s1) = LWS_MAX_SOCKET_IO_BUF" "ss_sockopts s1 = []" "ss_gone s1 = ss_gone s"
    using S0 by (simp_all add: s1_def libwebsocket_set_timeout_def upd_ws_def)
  have good: "ah_good s1" using S1 P(2) by (simp add: ah_good_def)
  have is_h: "header_is s1 h v = holds_header ah h v" for h v by (simp add: header_is_def S1(1))
  have tot: "hdr_total s1 WSI_TOKEN_UPGRADE = Some 9" "hdr_total s1 WSI_TOKEN_CONNECTION = Some 7" "hdr_total s1 WSI_TOKEN_EXTENSIONS = Some 0"
    using header_access(1) [OF _ good, of WSI_TOKEN_UPGRADE "Some (str ''websocket'')"]
      header_access(1) [OF _ good, of WSI_TOKEN_CONNECTION "Some (str ''Upgrade'')"]
      header_access(1) [OF _ good, of WSI_TOKEN_EXTENSIONS "Some []"] st
    by (simp_all add: is_h holds_header_def)
  have loop: "header_loop cfg nl (s0\<lparr>ss_hdr := ?h\<rparr>) = ws_request cfg [] s1"
    unfolding nl_def using parse_cr [OF n(1,2)] lf n(1) S0(3) tot
    by (simp add: the_ah_def s1_def [symmetric] at_name_def)
  have i: "i < length (sc_protocols cfg)" using serves by (simp add: serves_def)
  have "can_handshake cfg s1 host key protos"
    unfolding can_handshake_def is_h using good st proto tot(3) S1 fits R(9) S0(2) i
    by (auto simp: holds_header_def request_fits_def can_send_def)
  from ws_request_ok [OF cfg serves S1(4,7) _ this] obtain s' where w: "ws_request cfg [] s1 = Some (0, s')"
    "ws_state (ss_ws s') = WSI_STATE_ESTABLISHED" "ws_mode (ss_ws s') = LWS_CONNMODE_WS_SERVING"
    "ws_rx_state (ss_ws s') = LWS_RXPS_NEW" "ws_rev (ss_ws s') = 13" "ss_protocol s' = Some i" "ss_ah s' = Ah_null"
    "\<not> ss_gone s' = (\<not> ss_gone s1)" "out_stream (ss_ws s') = out_stream (ss_ws s1) @ server_response key protos" "trunc_ok (ss_ws s')"
    using S1(1) by auto
  have "out_stream (ss_ws s1) = out_stream (ss_ws s)" using stream_cong [of "ss_ws s1" "ss_ws s"] by (simp add: S1(2) S0(2))
  moreover have "libwebsocket_read cfg (client_request uri host key origin protos) s = Some (0, s')"
  proof -
    have "libwebsocket_read cfg (client_request uri host key origin protos) s
        = read_headers cfg (client_request uri host key origin protos) s0"
      using R(1,2) by (simp add: libwebsocket_read_def s0_def)
    also have "\<dots> = header_loop cfg ((request_text uri @ lines_text ?ls) @ nl) s0"
      using R(3) S0(2) by (simp add: read_headers_def client_request_def)
    finally show ?thesis unfolding run loop w(1) .
  qed
  ultimately show ?thesis using w S1(8) R(1) by auto
qed

end
