(* ===== verification/Handshake_Client.thy ===== *)
theory Handshake_Client
  imports Handshake_Server
begin

text \<open>
  The client's reading of the server's answer: the headers of the response in the store beside the client's own
  strings, the comparison in lower case done in place, and the established connection.
\<close>

section \<open>Headers with their places\<close>

definition place :: "allocated_headers \<Rightarrow> nat \<Rightarrow> nat" where
  "place ah h = frag_offset (ah_frags ah ! (ah_frag_index ah ! h))"

text \<open>The store holds the headers of a map, each with a part of the data of its own.\<close>

definition layout :: "allocated_headers \<Rightarrow> (nat \<rightharpoonup> bytes) \<Rightarrow> bool" where
  "layout ah M \<longleftrightarrow> (\<forall>h v. M h = Some v \<longrightarrow> stored ah h v) \<and>
     (\<forall>h v k u. M h = Some v \<longrightarrow> M k = Some u \<longrightarrow> h \<noteq> k \<longrightarrow>
        place ah h + length v < place ah k \<or> place ah k + length u < place ah h)"

lemma stored_place: "stored ah h v \<Longrightarrow> place ah h + length v < ah_pos ah"
  by (simp add: stored_def place_def Let_def)

lemma place_add_header:
  assumes "stored ah k u" "k \<noteq> h"
  shows "place (add_header ah h v) k = place ah k"
proof -
  have "ah_frag_index ah ! k \<noteq> ah_next_frag ah + 1" using assms(1) by (simp add: stored_def Let_def)
  then show ?thesis using assms(2) by (simp add: place_def add_header_def Let_def)
qed

lemma layout_add_header:
  assumes "layout ah M" "ah_ok ah" "M h = None" "h < WSI_TOKEN_COUNT"
    and "ah_next_frag ah + 1 < HDR_FRAGS" "ah_pos ah + length v < LWS_MAX_HEADER_LEN" "0 \<notin> set v"
  shows "layout (add_header ah h v) (M(h \<mapsto> v))"
proof -
  let ?ah = "add_header ah h v"
  have old: "stored ah k u" "k \<noteq> h" "place ?ah k = place ah k" "place ah k + length u < ah_pos ah" "stored ?ah k u" if "M k = Some u" for k u
  proof -
    show s: "stored ah k u" using assms(1) that by (simp add: layout_def)
    show k: "k \<noteq> h" using assms(3) that by auto
    show "place ?ah k = place ah k" by (rule place_add_header [OF s k])
    show "place ah k + length u < ah_pos ah" by (rule stored_place [OF s])
    show "stored ?ah k u" by (rule add_header_keeps [OF assms(2) s k assms(5)])
  qed
  have new: "place ?ah h = ah_pos ah" using assms(4,5) ah_okD(1,2) [OF assms(2)] by (simp add: place_def add_header_def Let_def)
  have "stored ?ah k u" if "(M(h \<mapsto> v)) k = Some u" for k u
    using that old(5) add_header_stored [OF assms(2,4-7)] by (auto split: if_splits)
  moreover have "place ?ah j + length w < place ?ah k \<or> place ?ah k + length u < place ?ah j"
    if "(M(h \<mapsto> v)) j = Some w" "(M(h \<mapsto> v)) k = Some u" "j \<noteq> k" for j k u w
    using that old(3,4) new assms(1) by (auto simp: layout_def split: if_splits)
  ultimately show ?thesis by (simp add: layout_def)
qed

fun lines_map :: "header_text list \<Rightarrow> (nat \<rightharpoonup> bytes) \<Rightarrow> nat \<rightharpoonup> bytes" where
  "lines_map [] M = M"
| "lines_map (l # ls) M = lines_map ls (M(ln_token l \<mapsto> ln_value l))"

lemma layout_add_lines:
  "layout ah M \<Longrightarrow> takes_lines ah ls \<Longrightarrow> (\<And>l. l \<in> set ls \<Longrightarrow> M (ln_token l) = None) \<Longrightarrow>
   layout (add_lines ls ah) (lines_map ls M)"
proof (induction ls arbitrary: ah M)
  case (Cons l ls)
  note C = takes_lines_Cons [OF Cons.prems(2)]
  have L: "layout (add_header ah (ln_token l) (ln_value l)) (M(ln_token l \<mapsto> ln_value l))"
    by (rule layout_add_header) (use Cons.prems(1,3) C line_okD [OF C(4)] in auto)
  have "ln_token m \<noteq> ln_token l" if "m \<in> set ls" for m
    using Cons.prems(2) that by (auto simp: takes_lines_def) (metis imageI)
  then have n: "(M(ln_token l \<mapsto> ln_value l)) (ln_token m) = None" if "m \<in> set ls" for m
    using Cons.prems(3) that by simp
  show ?case using Cons.IH [OF L C(1) n] by (simp only: add_lines.simps lines_map.simps)
qed simp

text \<open>A change of one header's characters in place.\<close>

lemma layout_replace:
  assumes "layout ah M" "ah_ok ah" "M h = Some v" "length v' = length v" "0 \<notin> set v'"
  shows "layout (ah\<lparr>ah_data := take (place ah h) (ah_data ah) @ v' @ drop (place ah h + length v) (ah_data ah)\<rparr>) (M(h \<mapsto> v'))"
proof -
  let ?ah = "ah\<lparr>ah_data := take (place ah h) (ah_data ah) @ v' @ drop (place ah h + length v) (ah_data ah)\<rparr>"
  have sv: "stored ah h v" using assms(1,3) by (simp add: layout_def)
  note D = ah_okD [OF assms(2)]
  have pv: "place ah h + length v < length (ah_data ah)" using stored_place [OF sv] D(3,5) by simp
  have pl: "place ?ah k = place ah k" for k by (simp add: place_def)
  have fields: "ah_frag_index ?ah = ah_frag_index ah" "ah_frags ?ah = ah_frags ah" "ah_next_frag ?ah = ah_next_frag ah" "ah_pos ?ah = ah_pos ah"
    by simp_all
  have dat: "take (length u + 1) (drop (place ah k) (ah_data ?ah)) = take (length u + 1) (drop (place ah k) (ah_data ah))"
    if "place ah h + length v < place ah k \<or> place ah k + length u < place ah h" for k and u :: bytes
    using that pv assms(4) by (auto simp: drop_append drop_take)
  have "stored ?ah k u" if "(M(h \<mapsto> v')) k = Some u" for k u
  proof (cases "k = h")
    case True
    have t: "take (length v + 1) (drop (place ah h) (ah_data ah)) = v @ [0]" using sv by (simp add: stored_def place_def Let_def)
    have "ah_data ah ! (place ah h + length v) = take (length v + 1) (drop (place ah h) (ah_data ah)) ! length v" using pv by simp
    also have "\<dots> = 0" unfolding t by simp
    finally have "take (length v + 1) (drop (place ah h) (ah_data ?ah)) = v' @ [0]"
      using pv assms(4) by (simp add: take_Suc_conv_app_nth)
    then show ?thesis using sv True that assms(4,5) by (simp add: stored_def place_def Let_def)
  next
    case False
    then have u: "M k = Some u" using that by simp
    then have "place ah h + length v < place ah k \<or> place ah k + length u < place ah h"
      using assms(1,3) False unfolding layout_def by metis
    from dat [OF this] have "stored ah k u \<Longrightarrow> stored ?ah k u"
      unfolding stored_def fields place_def Let_def by simp
    then show ?thesis using assms(1) u by (simp add: layout_def)
  qed
  moreover have "place ?ah j + length w < place ?ah k \<or> place ?ah k + length u < place ?ah j"
    if "(M(h \<mapsto> v')) j = Some w" "(M(h \<mapsto> v')) k = Some u" "j \<noteq> k" for j k u w
    unfolding pl using that assms(1,3,4) unfolding layout_def by (metis fun_upd_apply option.inject)
  ultimately show ?thesis by (simp add: layout_def)
qed

lemma ah_ok_data:
  assumes "ah_ok ah" "length d = length (ah_data ah)" "\<And>k. k < length d \<Longrightarrow> ah_data ah ! k = 0 \<Longrightarrow> d ! k = 0"
  shows "ah_ok (ah\<lparr>ah_data := d\<rparr>)"
proof -
  have s: "sealed (ah\<lparr>ah_data := d\<rparr>) n lim" if "sealed ah n lim" "lim \<le> length d" for n lim
  proof -
    from that(1) obtain k where k: "frag_offset (ah_frags ah ! n) \<le> k" "k < lim" "ah_data ah ! k = 0"
      by (auto simp: sealed_def)
    then show ?thesis unfolding sealed_def using assms(3) [of k] that(2) by (intro exI [of _ k]) simp
  qed
  have "frag_ok (ah\<lparr>ah_data := d\<rparr>) n" if "0 < n" "n \<le> ah_next_frag ah" for n
  proof -
    have ok: "frag_ok ah n" "frag_ok ah (ah_next_frag ah)" using assms(1) that by (simp_all add: ah_ok_def)
    have "frag_offset (ah_frags ah ! ah_next_frag ah) \<le> length d"
      using ok(2) ah_okD(3,5) [OF assms(1)] assms(2) by (simp add: frag_ok_def Let_def)
    then show ?thesis using ok(1) s by (auto simp: frag_ok_def Let_def)
  qed
  then show ?thesis using assms(1,2) by (simp add: ah_ok_def)
qed

lemma stored_ptr:
  assumes "stored ah h v" "ah_ok ah"
  shows "lws_hdr_simple_ptr ah h = Some (Some (place ah h))" "cstr (drop (place ah h) (ah_data ah)) = Some v"
proof -
  obtain n f where f: "aget (ah_frag_index ah) h = Some n" "0 < n" "aget (ah_frags ah) n = Some f"
    "cstr (drop (frag_offset f) (ah_data ah)) = Some v"
    using assms by (rule stored_access)
  then have "place ah h = frag_offset f" by (auto simp: place_def dest!: aget_SomeD)
  then show "lws_hdr_simple_ptr ah h = Some (Some (place ah h))" "cstr (drop (place ah h) (ah_data ah)) = Some v"
    using f by (simp_all add: lws_hdr_simple_ptr_def)
qed

lemma tolower_zero: "tolower c = 0 \<longleftrightarrow> c = 0"
proof -
  have "\<forall>c :: u8. c \<noteq> 0 \<longrightarrow> 0x41 \<le> c \<and> c \<le> 0x5a \<longrightarrow> c + 0x20 \<noteq> 0"
    by (auto simp: word_le_nat_alt unat_arith_simps unat_word_ariths)
  then show ?thesis by (auto simp: tolower_def)
qed

section \<open>The store of a session\<close>

definition session_holds :: "'x session \<Rightarrow> (nat \<rightharpoonup> bytes) \<Rightarrow> bool" where
  "session_holds s M \<longleftrightarrow> ah_good s \<and> layout (hdr_ah (ss_hdr s)) M"

lemma holds_access:
  assumes "session_holds s M" "M h = Some v"
  shows "hdr_total s h = Some (length v)" "hdr_string s h = Some (Some v)"
proof -
  have "header_is s h (Some v)" "ah_good s"
    using assms by (auto simp: session_holds_def layout_def header_is_def holds_header_def)
  from header_access [OF this] show "hdr_total s h = Some (length v)" "hdr_string s h = Some (Some v)" by simp_all
qed

lemma lowered_ok:
  assumes "session_holds s M" "M h = Some v"
  shows "\<exists>ah. lowered h s = Some (Some (map tolower v), s\<lparr>ss_hdr := (ss_hdr s)\<lparr>hdr_ah := ah\<rparr>\<rparr>) \<and>
    session_holds (s\<lparr>ss_hdr := (ss_hdr s)\<lparr>hdr_ah := ah\<rparr>\<rparr>) (M(h \<mapsto> map tolower v)) \<and>
    ah_frag_index ah = ah_frag_index (hdr_ah (ss_hdr s))"
proof -
  let ?ah = "hdr_ah (ss_hdr s)"
  have A: "ss_ah s = Ah_valid" "ah_ok ?ah" "layout ?ah M" using assms(1) by (simp_all add: session_holds_def ah_good_def)
  have st: "stored ?ah h v" using A(3) assms(2) by (simp add: layout_def)
  note P = stored_ptr [OF st A(2)]
  let ?d = "take (place ?ah h) (ah_data ?ah) @ map tolower v @ drop (place ?ah h + length v) (ah_data ?ah)"
  have nz: "0 \<notin> set v" using st by (simp add: stored_def Let_def)
  then have "0 \<notin> set (map tolower v)" using tolower_zero by force
  then have lay: "layout (?ah\<lparr>ah_data := ?d\<rparr>) (M(h \<mapsto> map tolower v))"
    by (intro layout_replace [OF A(3,2) assms(2)]) simp_all
  have bound: "place ?ah h + length v < length (ah_data ?ah)" using stored_place [OF st] ah_okD(3,5) [OF A(2)] by simp
  have v: "take (length v) (drop (place ?ah h) (ah_data ?ah)) = v"
    using st bound by (simp add: stored_def place_def Let_def take_Suc_conv_app_nth)
  have ok: "ah_ok (?ah\<lparr>ah_data := ?d\<rparr>)"
  proof (rule ah_ok_data [OF A(2)])
    show "length ?d = length (ah_data ?ah)" using bound by simp
    fix k assume k: "k < length ?d" "ah_data ?ah ! k = 0"
    have "ah_data ?ah ! (place ?ah h + j) = v ! j" if "j < length v" for j
      using arg_cong [OF v, of "\<lambda>x. x ! j"] bound that by simp
    moreover have "v ! j \<noteq> 0" if "j < length v" for j using nz that nth_mem by metis
    ultimately have "\<not> (place ?ah h \<le> k \<and> k < place ?ah h + length v)"
      using k(2) by (metis add_diff_inverse_nat add_less_cancel_left not_le)
    then show "?d ! k = 0" using k bound by (auto simp: nth_append)
  qed
  have "cstr (drop (place ?ah h) ?d) = Some (map tolower v)"
    using stored_ptr(2) [of "?ah\<lparr>ah_data := ?d\<rparr>" h "map tolower v"] lay ok
    by (simp add: layout_def place_def)
  then have "lowered h s = Some (Some (map tolower v), s\<lparr>ss_hdr := (ss_hdr s)\<lparr>hdr_ah := ?ah\<lparr>ah_data := ?d\<rparr>\<rparr>\<rparr>)"
    using A(1) P by (simp add: lowered_def the_ah_def strtolower_def)
  then show ?thesis using lay ok A(1) by (intro exI [of _ "?ah\<lparr>ah_data := ?d\<rparr>"]) (simp add: session_holds_def ah_good_def)
qed

section \<open>The response as lines\<close>

definition response_headers :: "bytes \<Rightarrow> bytes option \<Rightarrow> header_text list" where
  "response_headers key proto =
     [\<lparr>ln_name = str ''HTTP/1.1 '', ln_gap = 0, ln_token = WSI_TOKEN_HTTP, ln_value = str ''101 Switching Protocols''\<rparr>,
      hline ''Upgrade:'' WSI_TOKEN_UPGRADE (str ''WebSocket''), hline ''Connection:'' WSI_TOKEN_CONNECTION (str ''Upgrade''),
      hline ''Sec-WebSocket-Accept:'' WSI_TOKEN_ACCEPT (accept_of key)] @
     (case proto of None \<Rightarrow> [] | Some p \<Rightarrow> [hline ''Sec-WebSocket-Protocol:'' WSI_TOKEN_PROTOCOL p])"

lemma response_text: "server_response key proto = lines_text (response_headers key proto) @ nl"
  by (simp add: server_response_def response_start_def response_headers_def lines_text_def line_text_def hline_def nl_def
      str_def split: option.split)

lemma response_lines_ok:
  assumes "\<And>p. proto = Some p \<Longrightarrow> value_text p"
  shows "list_all line_ok (response_headers key proto)" "distinct (map ln_token (response_headers key proto))"
    "length (response_headers key proto) \<le> 5"
proof -
  have v: "value_text (str ''WebSocket'')" "value_text (str ''Upgrade'')" "value_text (accept_of key)"
    using accept_of_bytes by (auto simp: value_text_def value_byte_def str_def dest: hd_in_set)
  have lex: "map tolower (str ''Upgrade:'') = minilex_set ! WSI_TOKEN_UPGRADE"
    "map tolower (str ''Connection:'') = minilex_set ! WSI_TOKEN_CONNECTION"
    "map tolower (str ''Sec-WebSocket-Accept:'') = minilex_set ! WSI_TOKEN_ACCEPT"
    "map tolower (str ''Sec-WebSocket-Protocol:'') = minilex_set ! WSI_TOKEN_PROTOCOL"
    by (simp_all add: minilex_set_def str_def tolower_def)
  have h: "line_ok \<lparr>ln_name = str ''HTTP/1.1 '', ln_gap = 0, ln_token = WSI_TOKEN_HTTP, ln_value = str ''101 Switching Protocols''\<rparr>"
    by (simp add: line_ok_def length_minilex_set) (simp add: minilex_set_def str_def tolower_def value_byte_def)
  have o: "\<And>p. proto = Some p \<Longrightarrow> line_ok (hline ''Sec-WebSocket-Protocol:'' WSI_TOKEN_PROTOCOL p)"
    using hline_ok lex(4) assms by simp
  show "list_all line_ok (response_headers key proto)"
    using hline_ok [OF _ lex(1)] hline_ok [OF _ lex(2)] hline_ok [OF _ lex(3)] v o h
    by (auto simp: response_headers_def split: option.splits)
  show "distinct (map ln_token (response_headers key proto))" "length (response_headers key proto) \<le> 5"
    by (simp_all add: response_headers_def hline_def split: option.split)
qed

lemma response_map:
  "lines_map (response_headers key proto) M = (case proto of None \<Rightarrow> M | Some p \<Rightarrow> M(WSI_TOKEN_PROTOCOL \<mapsto> p))
     (WSI_TOKEN_HTTP \<mapsto> str ''101 Switching Protocols'', WSI_TOKEN_UPGRADE \<mapsto> str ''WebSocket'',
      WSI_TOKEN_CONNECTION \<mapsto> str ''Upgrade'', WSI_TOKEN_ACCEPT \<mapsto> accept_of key)"
  by (auto simp: response_headers_def hline_def fun_eq_iff split: option.split)

section \<open>Reading it\<close>

lemma reply_loop_run:
  assumes "parse_bytes (ss_hdr s) cs = Some (h, 0)" "parser_state h \<noteq> WSI_PARSING_COMPLETE" "ss_ah s = Ah_valid"
    and "parser_state (ss_hdr s) \<noteq> WSI_PARSING_COMPLETE"
  shows "\<exists>c'. reply_loop cfg c (map Recv_byte cs @ rs) s = reply_loop cfg c' rs (s\<lparr>ss_hdr := h\<rparr>)"
  using assms
proof (induction cs arbitrary: s c)
  case Nil
  then have "s\<lparr>ss_hdr := h\<rparr> = s" by simp
  then show ?case by auto
next
  case (Cons b cs)
  obtain w r where step: "libwebsocket_parse (ss_hdr s) b = Some (w, r)"
    using Cons.prems(1) by (auto split: Option.bind_splits)
  with Cons.prems(1) parse_answers [OF step] have r: "r = 0" and rest: "parse_bytes w cs = Some (h, 0)"
    by (auto split: if_splits)
  have nc: "parser_state w \<noteq> WSI_PARSING_COMPLETE" using parse_complete_stays [of w cs] rest Cons.prems(2) by auto
  have "reply_loop cfg c (map Recv_byte (b # cs) @ rs) s = reply_loop cfg (Some b) (map Recv_byte cs @ rs) (s\<lparr>ss_hdr := w\<rparr>)"
    using step r Cons.prems(3,4) by (subst reply_loop.simps) (simp add: the_ah_def del: reply_loop.simps)
  moreover have "\<exists>c'. reply_loop cfg (Some b) (map Recv_byte cs @ rs) (s\<lparr>ss_hdr := w\<rparr>)
      = reply_loop cfg c' rs (s\<lparr>ss_hdr := w\<rparr>\<lparr>ss_hdr := h\<rparr>)"
    by (rule Cons.IH) (use rest Cons.prems nc in simp_all)
  ultimately show ?case by simp
qed

section \<open>Taking the answer\<close>

definition client_waiting :: "'x session \<Rightarrow> (nat \<rightharpoonup> bytes) \<Rightarrow> bool" where
  "client_waiting s M \<longleftrightarrow> \<not> ss_gone s \<and> session_holds s M \<and> cur_sealed (hdr_ah (ss_hdr s)) \<and> at_name (ss_hdr s) \<and>
     (\<forall>h < 31. absent (hdr_ah (ss_hdr s)) h) \<and> ws_mallocs (ss_ws s) = [] \<and> ss_sockopts s = [] \<and> ss_exts s = []"

text \<open>The protocol the client takes from the answer \<open>proto\<close>, having offered the list of its header store.\<close>

definition takes_protocol :: "'x ss_cfg \<Rightarrow> (nat \<rightharpoonup> bytes) \<Rightarrow> bytes option \<Rightarrow> nat \<Rightarrow> bool" where
  "takes_protocol cfg M proto j \<longleftrightarrow> j < length (sc_protocols cfg) \<and> (case proto of None \<Rightarrow> j = 0
     | Some p \<Rightarrow> p \<noteq> [] \<and> value_text p \<and> (\<exists>pl. M WSI_TOKEN_CLIENT_SENT_PROTOCOLS = Some pl \<and> protocol_offered pl p) \<and>
         protocol_index (sc_protocols cfg) p 0 = Some (Some j))"

lemma client_established_ok:
  assumes cfg: "plain_cfg cfg" and j: "ss_protocol s = Some j" "j < length (sc_protocols cfg)"
    and "ss_ah s = Ah_valid" "ws_mallocs (ss_ws s) = []" "ss_sockopts s = []"
  shows "\<exists>s'. client_established cfg s = Some (0, s') \<and> ws_state (ss_ws s') = WSI_STATE_ESTABLISHED \<and>
    ws_mode (ss_ws s') = LWS_CONNMODE_WS_CLIENT \<and> ws_rx_state (ss_ws s') = ws_rx_state (ss_ws s) \<and>
    ws_rev (ss_ws s') = ietf_spec_revision (ss_hdr s) \<and> ss_protocol s' = Some j \<and> ss_ah s' = Ah_null \<and> ss_gone s' = ss_gone s \<and>
    ss_timeout s' = (NO_PENDING_TIMEOUT, ss_now s) \<and> out_stream (ss_ws s') = out_stream (ss_ws s)"
proof -
  obtain u where u: "libwebsocket_ensure_user_space cfg s = Some (0, s\<lparr>ss_user := u\<rparr>)"
    using ensure_user_ok j assms(5) by blast
  let ?s = "s\<lparr>ss_user := u, ss_timeout := (NO_PENDING_TIMEOUT, ss_now s), ss_ah := Ah_dangling,
    ss_ws := (ss_ws s)\<lparr>ws_state := WSI_STATE_ESTABLISHED\<rparr>\<rparr>"
  obtain v where v: "ws_transition (sc_lws cfg ?s) LWS_CONNMODE_WS_CLIENT [] (ss_ws ?s) = (True, v)"
    "ws_mode v = LWS_CONNMODE_WS_CLIENT" "ws_state v = WSI_STATE_ESTABLISHED" "ws_rx_state v = ws_rx_state (ss_ws s)"
    "out_stream v = out_stream (ss_ws ?s)"
    using transition_ok [of "ss_ws ?s" "sc_lws cfg ?s" LWS_CONNMODE_WS_CLIENT] assms(5) by auto
  have exts: "sc_ext_names cfg = []" using cfg by (simp add: plain_cfg_def)
  have "client_established cfg s
      = Some (0, ?s\<lparr>ss_ah := Ah_null, ss_ws := v\<lparr>ws_rev := ietf_spec_revision (ss_hdr s)\<rparr>\<rparr>)"
    using u plain_user(2) [OF cfg] j assms(4,6) v(1) exts
    by (simp add: client_established_def free_ah_def libwebsocket_set_timeout_def upd_ws_def env_sockopt_def)
  moreover have "out_stream (v\<lparr>ws_rev := r\<rparr>) = out_stream (ss_ws s)" for r
    using v(5) stream_cong [of "v\<lparr>ws_rev := r\<rparr>" v] stream_cong [of "ss_ws ?s" "ss_ws s"] by simp
  ultimately show ?thesis using v j by simp
qed

lemma check_protocol_ok:
  assumes "takes_protocol cfg M proto j" "session_holds s N" "N WSI_TOKEN_CLIENT_SENT_PROTOCOLS = M WSI_TOKEN_CLIENT_SENT_PROTOCOLS"
    and "proto = None \<Longrightarrow> absent (hdr_ah (ss_hdr s)) WSI_TOKEN_PROTOCOL" "\<And>p. proto = Some p \<Longrightarrow> N WSI_TOKEN_PROTOCOL = Some p"
  shows "check_protocol cfg s = Some (True, s\<lparr>ss_protocol := Some j\<rparr>)"
proof (cases proto)
  case None
  then have "hdr_total s WSI_TOKEN_PROTOCOL = Some 0"
    using assms(2,4) header_access(1) [of s WSI_TOKEN_PROTOCOL None]
    by (simp add: session_holds_def header_is_def holds_header_def)
  then show ?thesis using assms(1) None by (simp add: check_protocol_def takes_protocol_def)
next
  case (Some p)
  then obtain pl where pl: "N WSI_TOKEN_CLIENT_SENT_PROTOCOLS = Some pl" "protocol_offered pl p" "p \<noteq> []"
    "protocol_index (sc_protocols cfg) p 0 = Some (Some j)"
    using assms(1,3) by (auto simp: takes_protocol_def)
  show ?thesis using holds_access [OF assms(2) assms(5) [OF Some]] holds_access [OF assms(2) pl(1)] pl
    by (simp add: check_protocol_def del: protocol_offered.simps)
qed

text \<open>The interpretation of a complete response.\<close>

lemma interpret_ok:
  assumes cfg: "plain_cfg cfg" and holds: "session_holds s M"
    and H: "M WSI_TOKEN_HTTP = Some (str ''101 Switching Protocols'')" "M WSI_TOKEN_UPGRADE = Some (str ''WebSocket'')"
      "M WSI_TOKEN_CONNECTION = Some (str ''Upgrade'')" "M WSI_TOKEN_ACCEPT = Some (accept_of key)"
    and E: "absent (hdr_ah (ss_hdr s)) WSI_TOKEN_EXTENSIONS" and expected: "cstr (ss_expected s) = Some (accept_of key)"
    and P: "takes_protocol cfg M proto j" "proto = None \<Longrightarrow> absent (hdr_ah (ss_hdr s)) WSI_TOKEN_PROTOCOL"
      "\<And>p. proto = Some p \<Longrightarrow> M WSI_TOKEN_PROTOCOL = Some p"
    and env: "ws_mallocs (ss_ws s) = []" "ss_sockopts s = []"
  shows "\<exists>s'. lws_client_interpret_server_handshake cfg s = Some (0, s') \<and> ws_state (ss_ws s') = WSI_STATE_ESTABLISHED \<and>
    ws_mode (ss_ws s') = LWS_CONNMODE_WS_CLIENT \<and> ws_rx_state (ss_ws s') = ws_rx_state (ss_ws s) \<and>
    ws_rev (ss_ws s') = ietf_spec_revision (ss_hdr s) \<and> ss_protocol s' = Some j \<and> ss_ah s' = Ah_null \<and> ss_gone s' = ss_gone s \<and>
    ss_timeout s' = (NO_PENDING_TIMEOUT, ss_now s) \<and> out_stream (ss_ws s') = out_stream (ss_ws s)"
proof -
  obtain a1 where 1: "lowered WSI_TOKEN_UPGRADE s = Some (Some (map tolower (str ''WebSocket'')), s\<lparr>ss_hdr := (ss_hdr s)\<lparr>hdr_ah := a1\<rparr>\<rparr>)"
    "session_holds (s\<lparr>ss_hdr := (ss_hdr s)\<lparr>hdr_ah := a1\<rparr>\<rparr>) (M(WSI_TOKEN_UPGRADE \<mapsto> map tolower (str ''WebSocket'')))"
    "ah_frag_index a1 = ah_frag_index (hdr_ah (ss_hdr s))"
    using lowered_ok [OF holds H(2)] by blast
  let ?s1 = "s\<lparr>ss_hdr := (ss_hdr s)\<lparr>hdr_ah := a1\<rparr>\<rparr>" and ?M1 = "M(WSI_TOKEN_UPGRADE \<mapsto> map tolower (str ''WebSocket''))"
  have con: "?M1 WSI_TOKEN_CONNECTION = Some (str ''Upgrade'')" using H(3) by simp
  obtain a2 where 2: "lowered WSI_TOKEN_CONNECTION ?s1 = Some (Some (map tolower (str ''Upgrade'')), ?s1\<lparr>ss_hdr := (ss_hdr ?s1)\<lparr>hdr_ah := a2\<rparr>\<rparr>)"
    "session_holds (?s1\<lparr>ss_hdr := (ss_hdr ?s1)\<lparr>hdr_ah := a2\<rparr>\<rparr>) (?M1(WSI_TOKEN_CONNECTION \<mapsto> map tolower (str ''Upgrade'')))"
    "ah_frag_index a2 = ah_frag_index (hdr_ah (ss_hdr ?s1))"
    using lowered_ok [OF 1(2) con] by blast
  define N where "N = ?M1(WSI_TOKEN_CONNECTION \<mapsto> map tolower (str ''Upgrade''))"
  define s2 where "s2 = s\<lparr>ss_hdr := (ss_hdr s)\<lparr>hdr_ah := a2\<rparr>\<rparr>"
  have s2: "?s1\<lparr>ss_hdr := (ss_hdr ?s1)\<lparr>hdr_ah := a2\<rparr>\<rparr> = s2" by (simp add: s2_def)
  note 2 = 2 [unfolded s2, folded N_def]
  have abs: "absent (hdr_ah (ss_hdr s2)) h = absent (hdr_ah (ss_hdr s)) h" for h
    using 1(3) 2(3) by (simp add: absent_def s2_def)
  have 3: "check_protocol cfg s2 = Some (True, s2\<lparr>ss_protocol := Some j\<rparr>)"
    by (rule check_protocol_ok [OF P(1) 2(2)]) (use P(2,3) abs in \<open>simp_all add: N_def\<close>)
  let ?s3 = "s2\<lparr>ss_protocol := Some j\<rparr>"
  have hold3: "session_holds ?s3 N" using 2(2) by (simp add: session_holds_def)
  have "hdr_total ?s3 WSI_TOKEN_EXTENSIONS = Some 0"
    using header_access(1) [of ?s3 WSI_TOKEN_EXTENSIONS None] hold3 E abs
    by (simp add: session_holds_def header_is_def holds_header_def)
  then have 4: "check_extensions cfg ?s3 = Some (True, ?s3)" by (simp add: check_extensions_def)
  have 5: "hdr_string ?s3 WSI_TOKEN_ACCEPT = Some (Some (accept_of key))"
    using holds_access(2) [OF hold3, of WSI_TOKEN_ACCEPT] H(4) by (simp add: N_def)
  have low: "map tolower (str ''WebSocket'') = str ''websocket''" "map tolower (str ''Upgrade'') = str ''upgrade''"
    by (simp_all add: str_def tolower_def)
  have status: "take 3 (str ''101 Switching Protocols'') = str ''101''" by (simp add: str_def)
  have "lws_client_interpret_server_handshake cfg s = client_established cfg ?s3"
    unfolding lws_client_interpret_server_handshake_def
    using holds_access [OF holds H(4)] holds_access(2) [OF holds H(1)] 1(1) 2(1) low status 3 4 5 expected
    by (simp add: s2_def)
  moreover have "\<exists>s'. client_established cfg ?s3 = Some (0, s') \<and> ws_state (ss_ws s') = WSI_STATE_ESTABLISHED \<and>
    ws_mode (ss_ws s') = LWS_CONNMODE_WS_CLIENT \<and> ws_rx_state (ss_ws s') = ws_rx_state (ss_ws ?s3) \<and>
    ws_rev (ss_ws s') = ietf_spec_revision (ss_hdr ?s3) \<and> ss_protocol s' = Some j \<and> ss_ah s' = Ah_null \<and> ss_gone s' = ss_gone ?s3 \<and>
    ss_timeout s' = (NO_PENDING_TIMEOUT, ss_now ?s3) \<and> out_stream (ss_ws s') = out_stream (ss_ws ?s3)"
    by (rule client_established_ok [OF cfg])
       (use P(1) 2(2) env in \<open>simp_all add: takes_protocol_def session_holds_def ah_good_def s2_def\<close>)
  ultimately show ?thesis by (simp add: s2_def)
qed

lemma client_reads:
  assumes cfg: "plain_cfg cfg" and wait: "client_waiting s M" and expected: "cstr (ss_expected s) = Some (accept_of key)"
    and proto: "takes_protocol cfg M proto j"
    and room: "ah_next_frag (hdr_ah (ss_hdr s)) + 5 < HDR_FRAGS"
      "ah_pos (hdr_ah (ss_hdr s)) + lines_size (response_headers key proto) \<le> LWS_MAX_HEADER_LEN"
  shows "\<exists>s'. client_server_reply cfg 1 (map Recv_byte (server_response key proto)) s = Some (0, s') \<and>
    ws_state (ss_ws s') = WSI_STATE_ESTABLISHED \<and>
    ws_mode (ss_ws s') = LWS_CONNMODE_WS_CLIENT \<and> ws_rx_state (ss_ws s') = ws_rx_state (ss_ws s) \<and>
    ws_rev (ss_ws s') = ietf_spec_revision (ss_hdr s) \<and> ss_protocol s' = Some j \<and> ss_ah s' = Ah_null \<and> \<not> ss_gone s' \<and>
    ss_timeout s' = (NO_PENDING_TIMEOUT, ss_now s) \<and> out_stream (ss_ws s') = out_stream (ss_ws s)"
proof -
  let ?ls = "response_headers key proto" and ?ah = "hdr_ah (ss_hdr s)"
  have W: "\<not> ss_gone s" "session_holds s M" "cur_sealed ?ah" "at_name (ss_hdr s)" "\<And>h. h < 31 \<Longrightarrow> absent ?ah h"
    "ws_mallocs (ss_ws s) = []" "ss_sockopts s = []"
    using wait by (simp_all add: client_waiting_def)
  have A: "ss_ah s = Ah_valid" "ah_ok ?ah" "layout ?ah M" using W(2) by (simp_all add: session_holds_def ah_good_def)
  have vp: "value_text p" if "proto = Some p" for p using proto that by (simp add: takes_protocol_def)
  note ok = response_lines_ok [OF vp, of proto key, simplified]
  have t31: "ln_token l < 31" if "l \<in> set ?ls" for l using ok(1) line_okD that by (auto simp: list_all_iff)
  have takes: "takes_lines ?ah ?ls" unfolding takes_lines_def using A W(3,5) ok room t31 by auto
  have none: "M h = None" if "h < 31" for h
  proof (rule ccontr)
    assume "M h \<noteq> None"
    then have "stored ?ah h (the (M h))" using A(3) by (auto simp: layout_def)
    then show False using W(5) [OF that] by (simp add: stored_def absent_def Let_def)
  qed
  let ?ah' = "add_lines ?ls ?ah" and ?N = "lines_map ?ls M"
  let ?h = "(ss_hdr s)\<lparr>hdr_ah := ?ah'\<rparr>"
  have lay: "layout ?ah' ?N" by (rule layout_add_lines [OF A(3) takes]) (use none t31 in blast)
  have ok': "ah_ok ?ah'" using add_lines_ok [OF takes] by simp
  have P: "parse_bytes (ss_hdr s) (lines_text ?ls) = Some (?h, 0)"
    unfolding lines_text_def by (rule parse_lines [OF W(4) takes])
  have n: "at_name ?h" "parser_state ?h \<noteq> WSI_PARSING_COMPLETE" "parser_state (ss_hdr s) \<noteq> WSI_PARSING_COMPLETE"
    using W(4) by (simp_all add: at_name_def)
  have abs: "absent ?ah' h" if "h < 31" "h \<notin> ln_token ` set ?ls" for h
    using add_lines_absent [OF that(2)] W(5) [OF that(1)] by simp
  have toks: "ln_token ` set ?ls = {WSI_TOKEN_HTTP, WSI_TOKEN_UPGRADE, WSI_TOKEN_CONNECTION, WSI_TOKEN_ACCEPT} \<union>
      (if proto = None then {} else {WSI_TOKEN_PROTOCOL})"
    by (auto simp: response_headers_def hline_def split: option.split)
  have up: "holds_header ?ah' WSI_TOKEN_UPGRADE (Some (str ''WebSocket''))"
    using lay by (simp add: holds_header_def layout_def response_map)
  have ver: "holds_header ?ah' WSI_TOKEN_VERSION None" using abs [of WSI_TOKEN_VERSION] toks by (simp add: holds_header_def)
  let ?h' = "?h\<lparr>lextable_pos := 206, ietf_spec_revision := ietf_spec_revision (ss_hdr s), parser_state := WSI_PARSING_COMPLETE,
    hdr_parsing_completed := True\<rparr>"
  have lf: "libwebsocket_parse (?h\<lparr>lextable_pos := 204\<rparr>) 10 = Some (?h', 0)"
    using parse_lf [OF n(1) _, of "Some (str ''WebSocket'')" None] up ver ok' by (simp add: revision_def)
  have cr: "libwebsocket_parse ?h 13 = Some (?h\<lparr>lextable_pos := 204\<rparr>, 0)" by (rule parse_cr [OF n(1)]) (use ok' in simp)
  obtain c where run: "reply_loop cfg None (map Recv_byte (lines_text ?ls) @ map Recv_byte nl) s
      = reply_loop cfg c (map Recv_byte nl) (s\<lparr>ss_hdr := ?h\<rparr>)"
    using reply_loop_run [OF P n(2) A(1) n(3)] by blast
  have "reply_loop cfg c (map Recv_byte nl) (s\<lparr>ss_hdr := ?h\<rparr>) = Some (True, s\<lparr>ss_hdr := ?h'\<rparr>)"
    using cr lf n(1) A(1) by (simp add: nl_def the_ah_def at_name_def)
  then have loop: "reply_loop cfg None (map Recv_byte (server_response key proto)) s = Some (True, s\<lparr>ss_hdr := ?h'\<rparr>)"
    using run by (simp add: response_text)
  have reply: "client_server_reply cfg 1 (map Recv_byte (server_response key proto)) s
      = lws_client_interpret_server_handshake cfg (s\<lparr>ss_hdr := ?h'\<rparr>)"
    using loop by (simp add: client_server_reply_def del: reply_loop.simps)
  have "\<exists>s'. lws_client_interpret_server_handshake cfg (s\<lparr>ss_hdr := ?h'\<rparr>) = Some (0, s') \<and> ws_state (ss_ws s') = WSI_STATE_ESTABLISHED \<and>
    ws_mode (ss_ws s') = LWS_CONNMODE_WS_CLIENT \<and> ws_rx_state (ss_ws s') = ws_rx_state (ss_ws (s\<lparr>ss_hdr := ?h'\<rparr>)) \<and>
    ws_rev (ss_ws s') = ietf_spec_revision (ss_hdr (s\<lparr>ss_hdr := ?h'\<rparr>)) \<and> ss_protocol s' = Some j \<and> ss_ah s' = Ah_null \<and>
    ss_gone s' = ss_gone (s\<lparr>ss_hdr := ?h'\<rparr>) \<and> ss_timeout s' = (NO_PENDING_TIMEOUT, ss_now (s\<lparr>ss_hdr := ?h'\<rparr>)) \<and>
    out_stream (ss_ws s') = out_stream (ss_ws (s\<lparr>ss_hdr := ?h'\<rparr>))"
  proof (rule interpret_ok [OF cfg, where M = ?N and key = key and proto = proto])
    show "session_holds (s\<lparr>ss_hdr := ?h'\<rparr>) ?N" using A(1) ok' lay by (simp add: session_holds_def ah_good_def)
    show "absent (hdr_ah (ss_hdr (s\<lparr>ss_hdr := ?h'\<rparr>))) WSI_TOKEN_EXTENSIONS" using abs [of WSI_TOKEN_EXTENSIONS] toks by simp
    show "takes_protocol cfg ?N proto j"
      using proto by (auto simp: takes_protocol_def response_map simp del: protocol_offered.simps split: option.splits)
    show "proto = None \<Longrightarrow> absent (hdr_ah (ss_hdr (s\<lparr>ss_hdr := ?h'\<rparr>))) WSI_TOKEN_PROTOCOL" using abs [of WSI_TOKEN_PROTOCOL] toks by simp
  qed (use expected W(6,7) in \<open>simp_all add: response_map\<close>)
  then show ?thesis unfolding reply using W(1) by simp
qed

end
