(* ===== verification/Handshake.thy ===== *)
theory Handshake
  imports Handshake_Client
begin

text \<open>
  The whole handshake: the request of the client is what the server reads, and the server's answer is the one the
  client expects.
\<close>

section \<open>The client's start\<close>

text \<open>The strings of \<open>libwebsocket_client_connect\<close> in the header store.\<close>

definition client_map :: "bytes \<Rightarrow> bytes \<Rightarrow> bytes option \<Rightarrow> bytes option \<Rightarrow> nat \<rightharpoonup> bytes" where
  "client_map uri host origin protos = (\<lambda>_. None)(WSI_TOKEN_CLIENT_URI \<mapsto> uri, WSI_TOKEN_CLIENT_HOST \<mapsto> host,
     WSI_TOKEN_CLIENT_ORIGIN := origin, WSI_TOKEN_CLIENT_SENT_PROTOCOLS := protos)"

definition client_start :: "'x session \<Rightarrow> bytes \<Rightarrow> bytes \<Rightarrow> bytes option \<Rightarrow> bytes option \<Rightarrow> bool" where
  "client_start c uri host origin protos \<longleftrightarrow> \<not> ss_gone c \<and> ss_ah c = Ah_valid \<and>
     (let ah = hdr_ah (ss_hdr c) in ah_ok ah \<and> cur_sealed ah \<and> (\<forall>h < 31. absent ah h) \<and>
        layout ah (client_map uri host origin protos) \<and>
        (origin = None \<longrightarrow> absent ah WSI_TOKEN_CLIENT_ORIGIN) \<and> (protos = None \<longrightarrow> absent ah WSI_TOKEN_CLIENT_SENT_PROTOCOLS)) \<and>
     hdr_ues (ss_hdr c) = URIES_IDLE \<and> ietf_spec_revision (ss_hdr c) = 13 \<and>
     length (ss_service c) = LWS_MAX_SOCKET_IO_BUF \<and> length (ss_expected c) = 30 \<and>
     ws_mallocs (ss_ws c) = [] \<and> ss_sockopts c = [] \<and> ss_exts c = []"

lemma start_ready: "client_start c uri host origin protos \<Longrightarrow> client_ready c uri host origin protos"
proof -
  assume S: "client_start c uri host origin protos"
  let ?ah = "hdr_ah (ss_hdr c)" and ?M = "client_map uri host origin protos"
  have good: "ah_good c" and lay: "layout ?ah ?M" using S by (simp_all add: client_start_def Let_def ah_good_def)
  have st: "hdr_string c h = Some (?M h)" if "?M h \<noteq> None \<or> absent ?ah h" for h
    using header_access(2) [of c h "?M h"] that lay good stored_def absent_def
    by (cases "?M h") (auto simp: header_is_def holds_header_def layout_def)
  have "hdr_string c WSI_TOKEN_CLIENT_URI = Some (Some uri)" "hdr_string c WSI_TOKEN_CLIENT_HOST = Some (Some host)"
    "hdr_string c WSI_TOKEN_CLIENT_ORIGIN = Some origin" "hdr_string c WSI_TOKEN_CLIENT_SENT_PROTOCOLS = Some protos"
    using st [of WSI_TOKEN_CLIENT_URI] st [of WSI_TOKEN_CLIENT_HOST] st [of WSI_TOKEN_CLIENT_ORIGIN]
      st [of WSI_TOKEN_CLIENT_SENT_PROTOCOLS] S
    by (auto simp: client_map_def client_start_def Let_def)
  then show ?thesis using S by (simp add: client_ready_def client_start_def Let_def)
qed

lemma length_lines_text:
  assumes "request_fits uri host key origin protos"
  shows "length (client_request uri host key origin protos) < LWS_MAX_SOCKET_IO_BUF"
proof -
  have "length (lines_text (request_headers host key origin protos)) \<le> lines_size (request_headers host key origin protos) + 300"
    by (simp add: lines_text_def line_text_def request_headers_def hline_def str_def split: option.split)
  moreover have "length uri + 1 + lines_size (request_headers host key origin protos) \<le> LWS_MAX_HEADER_LEN"
    using assms by (simp add: request_fits_def)
  moreover have "length (request_text uri) = length uri + 15" by (simp add: request_text_def str_def)
  ultimately show ?thesis by (simp add: client_request_def nl_def)
qed

text \<open>What issuing the request leaves alone, and the time the server has to answer.\<close>

definition issued :: "'x session \<Rightarrow> 'x session \<Rightarrow> bool" where
  "issued c c1 \<longleftrightarrow> ss_fds c1 = ss_fds c \<and> ss_now c1 = ss_now c \<and> ss_id c1 = ss_id c \<and> ss_sock c1 = ss_sock c \<and> ss_exts c1 = ss_exts c \<and>
     ss_protocol c1 = ss_protocol c \<and> ws_state (ss_ws c1) = ws_state (ss_ws c) \<and> ss_ah c1 = ss_ah c \<and>
     ss_timeout c1 = (PENDING_TIMEOUT_AWAITING_SERVER_RESPONSE, ss_now c + 5)"

lemma issue_ok:
  assumes cfg: "plain_cfg cfg" and start: "client_start c uri host origin protos"
    and rnd: "libwebsockets_get_random (ss_ws c) 16 = (r, w)" "length r = 16"
    and req: "req = client_request uri host (b64_spec r) origin protos" "length req < LWS_MAX_SOCKET_IO_BUF"
    and send: "ws_sends w = Send_accepts k # rs" "length req \<le> k"
  shows "\<exists>c1. client_issue_handshake cfg (\<lambda>_. []) c = Some (0, c1) \<and> ws_wire (ss_ws c1) = ws_wire (ss_ws c) @ req \<and>
    ws_mode (ss_ws c1) = LWS_CONNMODE_WS_CLIENT_WAITING_SERVER_REPLY \<and>
    client_waiting c1 (client_map uri host origin protos) \<and> cstr (ss_expected c1) = Some (accept_of (b64_spec r)) \<and>
    hdr_ah (ss_hdr c1) = hdr_ah (ss_hdr c) \<and> ietf_spec_revision (ss_hdr c1) = 13 \<and> issued c c1"
proof -
  obtain m where g: "libwebsockets_generate_client_handshake cfg (\<lambda>_. []) c = Some (Some (length req),
      c\<lparr>ss_ws := w, ss_service := m, ss_expected := accept_of (b64_spec r) @ 0 # drop 29 (ss_expected c)\<rparr>)" "buf_at 0 req m"
    using generate_handshake [OF cfg start_ready [OF start] rnd req] by blast
  have text': "take (length req) m = req" using g(2) by (simp add: buf_at_def)
  obtain rs' where w: "w = (ss_ws c)\<lparr>ws_randoms := rs'\<rparr>" using get_random_keeps [OF rnd(1)] by blast
  let ?v = "w\<lparr>ws_sends := rs, ws_wire := ws_wire w @ req\<rparr>"
  have send': "env_send w req = (Send_accepts (length req), ?v)"
    using send by (simp add: env_send_def Let_def min_def)
  define c1 where "c1 = c\<lparr>ss_ws := ?v\<lparr>ws_mode := LWS_CONNMODE_WS_CLIENT_WAITING_SERVER_REPLY\<rparr>, ss_service := m,
      ss_expected := accept_of (b64_spec r) @ 0 # drop 29 (ss_expected c),
      ss_hdr := (ss_hdr c)\<lparr>parser_state := WSI_TOKEN_NAME_PART, lextable_pos := 0\<rparr>,
      ss_timeout := (PENDING_TIMEOUT_AWAITING_SERVER_RESPONSE, ss_now c + 5)\<rparr>"
  have "client_issue_handshake cfg (\<lambda>_. []) c = Some (0, c1)"
    using g(1) text' send'
    by (simp add: client_issue_handshake_def upd_ws_def libwebsocket_set_timeout_def c1_def)
  moreover have "client_waiting c1 (client_map uri host origin protos)"
    using start w by (simp add: client_waiting_def client_start_def session_holds_def ah_good_def at_name_def c1_def Let_def)
  moreover have "0 \<notin> set (accept_of (b64_spec r))" using accept_of_bytes value_byte_def by blast
  then have "cstr (ss_expected c1) = Some (accept_of (b64_spec r))" by (simp add: c1_def cstr_append)
  moreover have "ws_wire (ss_ws c1) = ws_wire (ss_ws c) @ req" using w by (simp add: c1_def)
  moreover have "ws_mode (ss_ws c1) = LWS_CONNMODE_WS_CLIENT_WAITING_SERVER_REPLY" "hdr_ah (ss_hdr c1) = hdr_ah (ss_hdr c)"
    "ietf_spec_revision (ss_hdr c1) = 13"
    using start by (simp_all add: c1_def client_start_def)
  moreover have "issued c c1" using w by (simp add: issued_def c1_def)
  ultimately show ?thesis by blast
qed

text \<open>C4: The handshake succeeds: from a client and a server at their start, without extensions, with room in
  the header stores, memory, a socket that takes the request and callbacks that agree, the client's request makes the
  server an established websocket with the protocol it serves under the name asked for, and the bytes the server answers
  make the client an established websocket: the server computes the \<open>Sec-WebSocket-Accept\<close> the client computed in
  advance, and each finds the headers the other has written.\<close>

theorem handshake_roundtrip:
  assumes "plain_cfg ccfg" "plain_cfg scfg" and start: "client_start c uri host origin protos" and ready: "server_ready s"
    and rnd: "libwebsockets_get_random (ss_ws c) 16 = (r, w)" "length r = 16"
    and fits: "request_fits uri host (b64_spec r) origin protos"
    and req: "req = client_request uri host (b64_spec r) origin protos" and send: "ws_sends w = Send_accepts k # rs" "length req \<le> k"
    and room: "ah_next_frag (hdr_ah (ss_hdr c)) + 5 < HDR_FRAGS"
      "ah_pos (hdr_ah (ss_hdr c)) + lines_size (response_headers (b64_spec r) protos) \<le> LWS_MAX_HEADER_LEN"
    and proto: "serves scfg protos i" "takes_protocol ccfg (client_map uri host origin protos) protos j"
  shows "\<exists>c1 s1 c2 resp.
    client_issue_handshake ccfg (\<lambda>_. []) c = Some (0, c1) \<and> ws_wire (ss_ws c1) = ws_wire (ss_ws c) @ req \<and>
    libwebsocket_read scfg req s = Some (0, s1) \<and> out_stream (ss_ws s1) = out_stream (ss_ws s) @ resp \<and>
    ws_state (ss_ws s1) = WSI_STATE_ESTABLISHED \<and> ws_mode (ss_ws s1) = LWS_CONNMODE_WS_SERVING \<and> ss_protocol s1 = Some i \<and>
    client_server_reply ccfg 1 (map Recv_byte resp) c1 = Some (0, c2) \<and>
    ws_state (ss_ws c2) = WSI_STATE_ESTABLISHED \<and> ws_mode (ss_ws c2) = LWS_CONNMODE_WS_CLIENT \<and> ss_protocol c2 = Some j \<and>
    ws_rev (ss_ws s1) = 13 \<and> ws_rev (ss_ws c2) = 13"
proof -
  have len: "length req < LWS_MAX_SOCKET_IO_BUF" unfolding req by (rule length_lines_text [OF fits])
  obtain c1 where c1: "client_issue_handshake ccfg (\<lambda>_. []) c = Some (0, c1)" "ws_wire (ss_ws c1) = ws_wire (ss_ws c) @ req"
    "client_waiting c1 (client_map uri host origin protos)" "cstr (ss_expected c1) = Some (accept_of (b64_spec r))"
    "hdr_ah (ss_hdr c1) = hdr_ah (ss_hdr c)" "ietf_spec_revision (ss_hdr c1) = 13"
    using issue_ok [OF assms(1) start rnd req len send] by blast
  obtain s1 where s1: "libwebsocket_read scfg req s = Some (0, s1)" "ws_state (ss_ws s1) = WSI_STATE_ESTABLISHED"
    "ws_mode (ss_ws s1) = LWS_CONNMODE_WS_SERVING" "ss_protocol s1 = Some i" "ws_rev (ss_ws s1) = 13"
    "out_stream (ss_ws s1) = out_stream (ss_ws s) @ server_response (b64_spec r) protos"
    using server_reads [OF assms(2) ready fits proto(1)] unfolding req by blast
  obtain c2 where c2: "client_server_reply ccfg 1 (map Recv_byte (server_response (b64_spec r) protos)) c1 = Some (0, c2)"
    "ws_state (ss_ws c2) = WSI_STATE_ESTABLISHED" "ws_mode (ss_ws c2) = LWS_CONNMODE_WS_CLIENT" "ss_protocol c2 = Some j"
    "ws_rev (ss_ws c2) = ietf_spec_revision (ss_hdr c1)"
    using client_reads [OF assms(1) c1(3,4) proto(2)] room c1(5) by auto
  show ?thesis using c1 s1 c2 by metis
qed

section \<open>A pair to run it on\<close>

definition demo_cfg :: "unit ss_cfg" where
  "demo_cfg = \<lparr>sc_protocols = [\<lparr>pr_name = Some (str ''web-tunnel''), pr_rx_size = 0, pr_session = False\<rparr>],
     sc_ext_names = [], sc_user = (\<lambda>_ _ _ s. (0, s)), sc_ext = (\<lambda>_ _ d s. (0, d, s)), sc_lws = (\<lambda>_. new_cfg False)\<rparr>"

definition demo_store :: allocated_headers where
  "demo_store = lws_allocate_header_table blank_store"

definition demo_session :: "connection_mode \<Rightarrow> lws_connection_states \<Rightarrow> send_result list \<Rightarrow> u8 \<Rightarrow> nat option \<Rightarrow> allocated_headers \<Rightarrow> unit session" where
  "demo_session mode state sends rv proto ah = \<lparr>ss_ws = (new_wsi mode)\<lparr>ws_state := state, ws_sends := sends\<rparr>, ss_id = 0, ss_sock = 5,
     ss_ah = Ah_valid, ss_hdr = (hdr_start blank_store)\<lparr>hdr_ah := ah, ietf_spec_revision := rv\<rparr>, ss_expected = replicate 30 0,
     ss_http = \<lparr>ht_file = None, filepos = 0, filelen = 0, content_length = 0, content_length_seen = 0, body_index = 0, post_buffer = None\<rparr>,
     ss_protocol = proto, ss_exts = [], ss_user = False, ss_timeout = (NO_PENDING_TIMEOUT, 0), ss_gone = False,
     ss_service = replicate LWS_MAX_SOCKET_IO_BUF 0,
     ss_fds = \<lparr>ft_fds = [], ft_lookup = [], ft_count = 0, ft_max = 0, ft_pos = (\<lambda>_. 0)\<rparr>, ss_now = 0, ss_sockopts = [], ss_reads = [], ss_rx_at = None, ss_port = 0\<rparr>"

definition demo_client :: "unit session" where
  "demo_client = demo_session LWS_CONNMODE_WS_CLIENT_ISSUE_HANDSHAKE WSI_STATE_CLIENT_UNCONNECTED [Send_accepts 4096] 13 (Some 0)
     (add_header (add_header (add_header demo_store WSI_TOKEN_CLIENT_URI (str ''/'')) WSI_TOKEN_CLIENT_HOST (str ''a.b''))
        WSI_TOKEN_CLIENT_SENT_PROTOCOLS (str ''web-tunnel''))"

definition demo_server :: "unit session" where
  "demo_server = demo_session LWS_CONNMODE_HTTP_SERVING WSI_STATE_HTTP [Send_accepts 100] 0 (Some 0) demo_store"

lemma demo_store_ok: "ah_ok demo_store" "cur_sealed demo_store" "h < WSI_TOKEN_COUNT \<Longrightarrow> absent demo_store h"
    "ah_next_frag demo_store = 0" "ah_pos demo_store = 0"
  using blank_store_start
  by (simp_all add: hdr_ok_def hdr_start_def demo_store_def absent_def lws_allocate_header_table_def)

lemma demo_client_start: "client_start demo_client (str ''/'') (str ''a.b'') None (Some (str ''web-tunnel''))"
proof -
  let ?a1 = "add_header demo_store WSI_TOKEN_CLIENT_URI (str ''/'')"
  let ?a2 = "add_header ?a1 WSI_TOKEN_CLIENT_HOST (str ''a.b'')"
  let ?a3 = "add_header ?a2 WSI_TOKEN_CLIENT_SENT_PROTOCOLS (str ''web-tunnel'')"
  note D = demo_store_ok
  have z: "0 \<notin> set (str ''/'')" "0 \<notin> set (str ''a.b'')" "0 \<notin> set (str ''web-tunnel'')" by (simp_all add: str_def)
  have ok1: "ah_ok ?a1" "cur_sealed ?a1" using add_header_ok [OF D(1,2), of WSI_TOKEN_CLIENT_URI "str ''/''"] D(4,5) by simp_all
  have ok2: "ah_ok ?a2" "cur_sealed ?a2"
    using add_header_ok [OF ok1, of WSI_TOKEN_CLIENT_HOST "str ''a.b''"] D(4,5) by (simp_all add: add_header_fields)
  have ok3: "ah_ok ?a3" "cur_sealed ?a3"
    using add_header_ok [OF ok2, of WSI_TOKEN_CLIENT_SENT_PROTOCOLS "str ''web-tunnel''"] D(4,5) by (simp_all add: add_header_fields)
  let ?M = "\<lambda>_. None :: bytes option"
  have l0: "layout demo_store ?M" by (simp add: layout_def)
  have l1: "layout ?a1 (?M(WSI_TOKEN_CLIENT_URI \<mapsto> str ''/''))"
    by (rule layout_add_header [OF l0 D(1)]) (use D(4,5) z in simp_all)
  have l2: "layout ?a2 (?M(WSI_TOKEN_CLIENT_URI \<mapsto> str ''/'', WSI_TOKEN_CLIENT_HOST \<mapsto> str ''a.b''))"
    by (rule layout_add_header [OF l1 ok1(1)]) (use D(4,5) z in \<open>simp_all add: add_header_fields\<close>)
  have l3: "layout ?a3 (?M(WSI_TOKEN_CLIENT_URI \<mapsto> str ''/'', WSI_TOKEN_CLIENT_HOST \<mapsto> str ''a.b'',
      WSI_TOKEN_CLIENT_SENT_PROTOCOLS \<mapsto> str ''web-tunnel''))"
    by (rule layout_add_header [OF l2 ok2(1)]) (use D(4,5) z in \<open>simp_all add: add_header_fields\<close>)
  have "client_map (str ''/'') (str ''a.b'') None (Some (str ''web-tunnel'')) = ?M(WSI_TOKEN_CLIENT_URI \<mapsto> str ''/'',
      WSI_TOKEN_CLIENT_HOST \<mapsto> str ''a.b'', WSI_TOKEN_CLIENT_SENT_PROTOCOLS \<mapsto> str ''web-tunnel'')"
    by (auto simp: client_map_def)
  moreover have "absent ?a3 h" if "h < 31 \<or> h = WSI_TOKEN_CLIENT_ORIGIN" for h
    using D(3) [of h] that by (auto simp: absent_add_header)
  ultimately show ?thesis using ok3 l3
    by (simp add: client_start_def demo_client_def demo_session_def new_wsi_def hdr_start_def Let_def)
qed

lemma demo_server_ready: "server_ready demo_server"
  using demo_store_ok
  by (simp add: server_ready_def demo_server_def demo_session_def fresh_parser_def hdr_start_def can_send_def new_wsi_def)

lemma demo_fits: "request_fits (str ''/'') (str ''a.b'') (b64_spec (replicate 16 0)) None (Some (str ''web-tunnel''))"
proof -
  let ?r = "replicate 16 (0 :: u8)" and ?p = "Some (str ''web-tunnel'')"
  have key: "value_text (b64_spec ?r)" "length (b64_spec ?r) = 24"
    using b64_spec_bytes by (auto simp: value_text_def length_b64_spec dest: hd_in_set)
  have v: "plain_path False (str ''/'')" "value_text (str ''a.b'')" "value_text (str ''web-tunnel'')"
    by (simp_all add: str_def value_text_def value_byte_def)
  have e: "str ''/'' \<noteq> []" "str ''a.b'' \<noteq> []" "str ''web-tunnel'' \<noteq> []" by (simp_all add: str_def)
  have n: "b64_spec ?r \<noteq> []" using key(2) by (metis list.size(3) zero_neq_numeral)
  have l: "length (str ''/'') + 1 + lines_size (request_headers (str ''a.b'') (b64_spec ?r) None ?p) \<le> LWS_MAX_HEADER_LEN"
    using key(2) by (simp add: request_headers_def hline_def)
  show ?thesis unfolding request_fits_def using v e n l key by simp
qed

theorem handshake_roundtrip_witness:
  "\<exists>c1 s1 c2 req resp. client_issue_handshake demo_cfg (\<lambda>_. []) demo_client = Some (0, c1) \<and> ws_wire (ss_ws c1) = req \<and>
    libwebsocket_read demo_cfg req demo_server = Some (0, s1) \<and> out_stream (ss_ws s1) = resp \<and>
    client_server_reply demo_cfg 1 (map Recv_byte resp) c1 = Some (0, c2) \<and>
    ws_state (ss_ws s1) = WSI_STATE_ESTABLISHED \<and> ws_state (ss_ws c2) = WSI_STATE_ESTABLISHED"
proof -
  let ?r = "replicate 16 (0 :: u8)" and ?p = "Some (str ''web-tunnel'')"
  let ?w = "ss_ws demo_client"
  have cfg: "plain_cfg demo_cfg" by (simp add: plain_cfg_def demo_cfg_def new_cfg_def)
  have rnd: "libwebsockets_get_random ?w 16 = (?r, ?w)"
    by (simp add: libwebsockets_get_random_def demo_client_def demo_session_def new_wsi_def)
  have key: "length (b64_spec ?r) = 24" by (simp add: length_b64_spec)
  note fits = demo_fits
  have send: "ws_sends ?w = Send_accepts 4096 # []" by (simp add: demo_client_def demo_session_def)
  have len: "length (client_request (str ''/'') (str ''a.b'') (b64_spec ?r) None ?p) \<le> 4096"
    using length_lines_text [OF fits] by simp
  have ah: "ah_next_frag (hdr_ah (ss_hdr demo_client)) = 3" "ah_pos (hdr_ah (ss_hdr demo_client)) = 17"
    using demo_store_ok(4,5) by (simp_all add: demo_client_def demo_session_def add_header_fields)
  have room: "ah_next_frag (hdr_ah (ss_hdr demo_client)) + 5 < HDR_FRAGS"
    "ah_pos (hdr_ah (ss_hdr demo_client)) + lines_size (response_headers (b64_spec ?r) ?p) \<le> LWS_MAX_HEADER_LEN"
    using ah key by (simp_all add: response_headers_def hline_def)
  have proto: "serves demo_cfg ?p 0" "takes_protocol demo_cfg (client_map (str ''/'') (str ''a.b'') None ?p) ?p 0"
    by (simp_all add: serves_def demo_cfg_def takes_protocol_def client_map_def value_text_def value_byte_def str_def)
  have wires: "ws_wire (ss_ws demo_client) = []" "out_stream (ss_ws demo_server) = []"
    by (simp_all add: demo_client_def demo_server_def demo_session_def new_wsi_def out_stream_def trunc_bytes_def)
  show ?thesis
    using handshake_roundtrip [OF cfg cfg demo_client_start demo_server_ready rnd _ fits refl send len room proto] wires
    by auto
qed

section \<open>What goes wrong\<close>

text \<open>C32: A request for a websocket without a key frees the header store twice: \<open>handshake_0405\<close> frees it on its
  way out and leaves the pointer, and its caller frees it again. Whoever can reach the port can do this.\<close>

theorem missing_key_frees_twice:
  assumes "plain_cfg cfg" and "ah_good s" and "ss_protocol s = Some 0" and "serves cfg protos i"
    and "header_is s WSI_TOKEN_PROTOCOL protos" and "ietf_spec_revision (ss_hdr s) = 13" and "ws_mallocs (ss_ws s) = []"
    and "header_is s WSI_TOKEN_HOST (Some host)" and "header_is s WSI_TOKEN_KEY None"
  shows "ws_request cfg rest s = None"
proof -
  let ?s1 = "s\<lparr>ss_protocol := Some i\<rparr>"
  have i: "i < length (sc_protocols cfg)" using assms(4) by (simp add: serves_def)
  obtain u where u: "libwebsocket_ensure_user_space cfg ?s1 = Some (0, ?s1\<lparr>ss_user := u\<rparr>)"
    using ensure_user_ok [of ?s1 i cfg] i assms(7) by auto
  let ?s2 = "?s1\<lparr>ss_user := u\<rparr>"
  have "hdr_total ?s2 WSI_TOKEN_HOST = Some (length host)" "hdr_total ?s2 WSI_TOKEN_KEY = Some 0"
    "hdr_string ?s2 WSI_TOKEN_PROTOCOL = Some protos"
    using header_access [OF assms(8,2)] header_access [OF assms(9,2)] header_access [OF assms(5,2)] by simp_all
  then have "handshake_0405 cfg ?s2 = Some (-1, ?s2\<lparr>ss_ah := Ah_dangling\<rparr>)"
    using assms(2) by (simp add: handshake_0405_def free_ah_def ah_good_def)
  moreover have "bail_nuke_ah cfg (?s2\<lparr>ss_ah := Ah_dangling\<rparr>) = None" by (simp add: bail_nuke_ah_def free_ah_def)
  ultimately show ?thesis
    using select_ok [OF assms(4,3,5,2)] u plain_user(2) [OF assms(1)] i assms(6) \<open>hdr_string ?s2 WSI_TOKEN_PROTOCOL = _\<close>
    by (simp add: ws_request_def)
qed

definition demo_keyless :: "unit session" where
  "demo_keyless = demo_session LWS_CONNMODE_HTTP_SERVING WSI_STATE_HTTP_HEADERS [] 13 (Some 0)
     (add_header (add_header demo_store WSI_TOKEN_HOST (str ''a.b'')) WSI_TOKEN_PROTOCOL (str ''web-tunnel''))"

theorem missing_key_frees_twice_witness: "ws_request demo_cfg [] demo_keyless = None"
proof -
  let ?a1 = "add_header demo_store WSI_TOKEN_HOST (str ''a.b'')"
  let ?a2 = "add_header ?a1 WSI_TOKEN_PROTOCOL (str ''web-tunnel'')"
  note D = demo_store_ok
  have z: "0 \<notin> set (str ''a.b'')" "0 \<notin> set (str ''web-tunnel'')" by (simp_all add: str_def)
  have ok1: "ah_ok ?a1" "cur_sealed ?a1" using add_header_ok [OF D(1,2), of WSI_TOKEN_HOST "str ''a.b''"] D(4,5) by simp_all
  have ok2: "ah_ok ?a2" using add_header_ok [OF ok1, of WSI_TOKEN_PROTOCOL "str ''web-tunnel''"] D(4,5) by (simp add: add_header_fields)
  have "stored ?a1 WSI_TOKEN_HOST (str ''a.b'')" by (rule add_header_stored [OF D(1)]) (use D(4,5) z in simp_all)
  then have h: "stored ?a2 WSI_TOKEN_HOST (str ''a.b'')"
    by (rule add_header_keeps [OF ok1(1)]) (use D(4) in \<open>simp_all add: add_header_fields\<close>)
  have p: "stored ?a2 WSI_TOKEN_PROTOCOL (str ''web-tunnel'')"
    by (rule add_header_stored [OF ok1(1)]) (use D(4,5) z in \<open>simp_all add: add_header_fields\<close>)
  have k: "absent ?a2 WSI_TOKEN_KEY" using D(3) by (simp add: absent_add_header)
  have hdr: "hdr_ah (ss_hdr demo_keyless) = ?a2" by (simp add: demo_keyless_def demo_session_def)
  show ?thesis
  proof (rule missing_key_frees_twice [where protos = "Some (str ''web-tunnel'')" and i = 0 and host = "str ''a.b''"])
    show "plain_cfg demo_cfg" by (simp add: plain_cfg_def demo_cfg_def new_cfg_def)
    show "ah_good demo_keyless" unfolding ah_good_def hdr using ok2 by (simp add: demo_keyless_def demo_session_def)
    show "serves demo_cfg (Some (str ''web-tunnel'')) 0" by (simp add: serves_def demo_cfg_def str_def)
  qed (use h p k hdr in \<open>simp_all add: header_is_def holds_header_def\<close>,
      simp_all add: demo_keyless_def demo_session_def new_wsi_def)
qed

text \<open>C36: Of the list of protocols the client offered, only the first is ever recognised in the answer: after a
  comma the search stops at the space, which no later comparison passes.\<close>

theorem only_first_protocol_offered:
  assumes "p \<noteq> []" and "hd p \<noteq> 0x20"
  shows "protocol_offered pc p \<longleftrightarrow> pc = p \<or> (\<exists>others. pc = p @ 0x2c # others)"
proof -
  have none: "\<not> protocol_offered pc p" if "pc = [] \<or> hd pc = 0x20" for pc
    using that
  proof (induction "length pc" arbitrary: pc rule: less_induct)
    case less
    show ?case
    proof (cases "pc = []")
      case False
      let ?n = "dropWhile (\<lambda>c. c \<noteq> 0x20) (dropWhile (\<lambda>c. c \<noteq> 0x2c) pc)"
      have "take (length p) pc \<noteq> p"
        using False less.prems assms by (cases p; cases pc) auto
      moreover have "length ?n < length pc"
      proof (cases "dropWhile (\<lambda>c. c \<noteq> 0x2c) pc")
        case Nil
        show ?thesis unfolding Nil using False by simp
      next
        case (Cons x xs)
        then have "x = 0x2c" by (metis (mono_tags) dropWhile_eq_Cons_conv)
        then have "length (dropWhile (\<lambda>c. c \<noteq> 0x20) (x # xs)) \<le> length xs" by (simp add: length_dropWhile_le)
        moreover have "Suc (length xs) \<le> length pc" using Cons length_dropWhile_le [of "\<lambda>c. c \<noteq> 0x2c" pc] by simp
        ultimately show ?thesis using Cons by simp
      qed
      moreover have "?n = [] \<or> hd ?n = 0x20" using hd_dropWhile [of "\<lambda>c. c \<noteq> 0x20"] by (cases "?n = []") auto
      ultimately show ?thesis using less.hyps [of ?n] by (subst protocol_offered.simps) simp
    qed simp
  qed
  have next': "\<not> protocol_offered (dropWhile (\<lambda>c. c \<noteq> 0x20) (dropWhile (\<lambda>c. c \<noteq> 0x2c) pc)) p"
    by (rule none) (use hd_dropWhile [of "\<lambda>c. c \<noteq> 0x20"] in blast)
  have "protocol_offered pc p \<longleftrightarrow> pc \<noteq> [] \<and> take (length p) pc = p \<and> (drop (length p) pc = [] \<or> hd (drop (length p) pc) = 0x2c)"
    by (subst protocol_offered.simps) (use next' in simp)
  also have "\<dots> \<longleftrightarrow> pc = p \<or> (\<exists>others. pc = p @ 0x2c # others)"
  proof
    assume a: "pc \<noteq> [] \<and> take (length p) pc = p \<and> (drop (length p) pc = [] \<or> hd (drop (length p) pc) = 0x2c)"
    then have "pc = p @ drop (length p) pc" by (metis append_take_drop_id)
    with a show "pc = p \<or> (\<exists>others. pc = p @ 0x2c # others)" by (cases "drop (length p) pc") auto
  next
    assume "pc = p \<or> (\<exists>others. pc = p @ 0x2c # others)"
    then show "pc \<noteq> [] \<and> take (length p) pc = p \<and> (drop (length p) pc = [] \<or> hd (drop (length p) pc) = 0x2c)"
      using assms(1) by auto
  qed
  finally show ?thesis .
qed

theorem only_first_protocol_offered_witness:
  "\<not> protocol_offered (str ''chat, web-tunnel'') (str ''web-tunnel'')"
proof -
  have "str ''web-tunnel'' \<noteq> []" "hd (str ''web-tunnel'') \<noteq> 0x20" by (simp_all add: str_def)
  from only_first_protocol_offered [OF this, of "str ''chat, web-tunnel''"]
  show ?thesis by (simp add: str_def)
qed

end
