(* ===== verification/Fd_Table.thy ===== *)
theory Fd_Table
  imports Service Handshake
begin

text \<open>
  The descriptor table of a context is a finite map from descriptors to connections: the used slots hold
  different descriptors, each is looked up as a connection whose position is that slot. Inserting and removing
  a connection does what it does to the map, and every table reached by them from an empty one is of this
  form.
\<close>

section \<open>The table as a map\<close>

definition table_ok :: "fd_table \<Rightarrow> bool" where
  "table_ok t \<longleftrightarrow> 0 \<le> ft_count t \<and> ft_count t \<le> ft_max t \<and> length (ft_fds t) = nat (ft_max t) \<and>
     length (ft_lookup t) = nat (ft_max t) \<and>
     (\<forall>i < nat (ft_count t). 0 \<le> sl_fd (ft_fds t ! i) \<and> sl_fd (ft_fds t ! i) < ft_max t \<and>
        (\<exists>w. ft_lookup t ! nat (sl_fd (ft_fds t ! i)) = Some w \<and> ft_pos t w = int i))"

definition table_map :: "fd_table \<Rightarrow> int \<Rightarrow> nat option" where
  "table_map t fd = (if fd \<in> sl_fd ` set (take (nat (ft_count t)) (ft_fds t)) then ft_lookup t ! nat fd else None)"

lemma table_sizes:
  "table_ok t \<Longrightarrow> length (ft_fds t) = nat (ft_max t) \<and> length (ft_lookup t) = nat (ft_max t) \<and>
     nat (ft_count t) \<le> nat (ft_max t) \<and> 0 \<le> ft_count t \<and> ft_count t \<le> ft_max t"
  by (auto simp: table_ok_def)

lemma used_fds:
  assumes "table_ok t"
  shows "sl_fd ` set (take (nat (ft_count t)) (ft_fds t)) = (\<lambda>i. sl_fd (ft_fds t ! i)) ` {..<nat (ft_count t)}"
proof -
  have "nat (ft_count t) \<le> length (ft_fds t)" using table_sizes [OF assms] by simp
  then have "set (take (nat (ft_count t)) (ft_fds t)) = (!) (ft_fds t) ` {..<nat (ft_count t)}"
    using nth_image [of "nat (ft_count t)" "ft_fds t"] by (simp add: lessThan_atLeast0)
  then show ?thesis by (simp add: image_image)
qed

lemma table_slot:
  assumes ok: "table_ok t" and i: "i < nat (ft_count t)"
  obtains w where "table_map t (sl_fd (ft_fds t ! i)) = Some w" "ft_lookup t ! nat (sl_fd (ft_fds t ! i)) = Some w"
    "ft_pos t w = int i" "0 \<le> sl_fd (ft_fds t ! i)" "sl_fd (ft_fds t ! i) < ft_max t"
proof -
  obtain w where "ft_lookup t ! nat (sl_fd (ft_fds t ! i)) = Some w" "ft_pos t w = int i"
    "0 \<le> sl_fd (ft_fds t ! i)" "sl_fd (ft_fds t ! i) < ft_max t" using ok i by (auto simp: table_ok_def)
  moreover have "sl_fd (ft_fds t ! i) \<in> sl_fd ` set (take (nat (ft_count t)) (ft_fds t))"
    unfolding used_fds [OF ok] using i by blast
  ultimately show thesis using that by (simp add: table_map_def)
qed

lemma table_mapD:
  assumes ok: "table_ok t" and fd: "table_map t fd = Some w"
  obtains i where "i < nat (ft_count t)" "sl_fd (ft_fds t ! i) = fd" "ft_lookup t ! nat fd = Some w" "ft_pos t w = int i"
    "0 \<le> fd" "fd < ft_max t"
proof -
  have "fd \<in> sl_fd ` set (take (nat (ft_count t)) (ft_fds t))" and l: "ft_lookup t ! nat fd = Some w"
    using fd by (auto simp: table_map_def split: if_splits)
  then obtain i where i: "i < nat (ft_count t)" "sl_fd (ft_fds t ! i) = fd" unfolding used_fds [OF ok] by blast
  obtain v where "ft_lookup t ! nat fd = Some v" "ft_pos t v = int i" "0 \<le> fd" "fd < ft_max t"
    using table_slot [OF ok i(1)] i(2) by metis
  then show thesis using that i l by simp
qed

lemma table_map_iff:
  "table_ok t \<Longrightarrow> table_map t fd = Some w \<longleftrightarrow>
     (\<exists>i < nat (ft_count t). sl_fd (ft_fds t ! i) = fd \<and> ft_lookup t ! nat fd = Some w)"
  by (metis table_mapD table_slot option.inject)

lemma table_fds_inj:
  "table_ok t \<Longrightarrow> i < nat (ft_count t) \<Longrightarrow> j < nat (ft_count t) \<Longrightarrow>
   sl_fd (ft_fds t ! i) = sl_fd (ft_fds t ! j) \<Longrightarrow> i = j"
  by (metis table_slot option.inject of_nat_eq_iff)

lemma table_map_inj: "table_ok t \<Longrightarrow> table_map t a = Some w \<Longrightarrow> table_map t b = Some w \<Longrightarrow> a = b"
  by (metis table_mapD of_nat_eq_iff)

lemma table_map_cong:
  "ft_fds t' = ft_fds t \<Longrightarrow> ft_lookup t' = ft_lookup t \<Longrightarrow> ft_count t' = ft_count t \<Longrightarrow> table_map t' = table_map t"
  by (rule ext) (simp add: table_map_def)

lemma table_room:
  assumes ok: "table_ok t" and fd: "0 \<le> fd" "fd < ft_max t" "table_map t fd = None"
  shows "ft_count t < ft_max t"
proof (rule ccontr)
  assume "\<not> ?thesis"
  then have n: "nat (ft_count t) = nat (ft_max t)" using table_sizes [OF ok] by linarith
  let ?f = "\<lambda>i. nat (sl_fd (ft_fds t ! i))" and ?A = "{..<nat (ft_max t)}"
  have slot: "0 \<le> sl_fd (ft_fds t ! i) \<and> sl_fd (ft_fds t ! i) < ft_max t" if "i \<in> ?A" for i
    using table_slot [OF ok, of i] that n by auto
  have "inj_on ?f ?A"
    by (rule inj_onI) (use table_fds_inj [OF ok, unfolded n] slot eq_nat_nat_iff in blast)
  moreover have "?f ` ?A \<subseteq> ?A" using slot by (force simp: nat_less_iff)
  ultimately have "?f ` ?A = ?A" by (intro endo_inj_surj) auto
  moreover have "nat fd \<in> ?A" using fd by auto
  ultimately obtain i where i: "i \<in> ?A" "?f i = nat fd" by (metis (lifting) imageE)
  then have "sl_fd (ft_fds t ! i) = fd" using slot [OF i(1)] fd(1) by (simp add: eq_nat_nat_iff)
  then show False using table_slot [OF ok, of i] i(1) n fd(3) by auto
qed

section \<open>Insertion and removal\<close>

lemma insert_slot_map:
  assumes ok: "table_ok t" and fd: "0 \<le> fd" "fd < ft_max t" "table_map t fd = None" and w: "w \<notin> ran (table_map t)"
  obtains t' where "insert_slot w fd t = Some t'" "table_ok t'" "table_map t' = (table_map t)(fd \<mapsto> w)"
    "ft_count t' = ft_count t + 1" "ft_max t' = ft_max t" "ft_pos t' = (ft_pos t)(w := ft_count t)"
proof -
  define n where "n = nat (ft_count t)"
  define t' where "t' = t\<lparr>ft_lookup := (ft_lookup t)[nat fd := Some w], ft_pos := (ft_pos t)(w := ft_count t),
    ft_fds := (ft_fds t)[n := \<lparr>sl_fd = fd, sl_events = 1, sl_revents = 0\<rparr>], ft_count := ft_count t + 1\<rparr>"
  note sz = table_sizes [OF ok] and room = table_room [OF ok fd]
  have n: "ft_count t = int n" "nat (ft_count t + 1) = Suc n" "n < length (ft_fds t)" "nat fd < length (ft_lookup t)"
    "n < nat (ft_max t)" using sz room fd by (auto simp: n_def)
  have eq: "insert_slot w fd t = Some t'"
    using n sz fd by (simp add: insert_slot_def t'_def access_simps n_def)
  have old: "sl_fd (ft_fds t ! i) \<noteq> fd" "\<exists>v. ft_lookup t ! nat (sl_fd (ft_fds t ! i)) = Some v \<and> ft_pos t v = int i \<and> v \<noteq> w"
    "0 \<le> sl_fd (ft_fds t ! i)" "sl_fd (ft_fds t ! i) < ft_max t"
    if "i < n" for i
  proof -
    have i: "i < nat (ft_count t)" using that by (simp add: n_def)
    obtain v where v: "table_map t (sl_fd (ft_fds t ! i)) = Some v" "ft_lookup t ! nat (sl_fd (ft_fds t ! i)) = Some v"
      "ft_pos t v = int i" "0 \<le> sl_fd (ft_fds t ! i)" "sl_fd (ft_fds t ! i) < ft_max t" by (rule table_slot [OF ok i])
    show "0 \<le> sl_fd (ft_fds t ! i)" "sl_fd (ft_fds t ! i) < ft_max t" by (rule v)+
    show "sl_fd (ft_fds t ! i) \<noteq> fd" using v(1) fd(3) by auto
    have "v \<noteq> w" using v(1) w by (auto intro: ranI)
    then show "\<exists>v. ft_lookup t ! nat (sl_fd (ft_fds t ! i)) = Some v \<and> ft_pos t v = int i \<and> v \<noteq> w" using v by blast
  qed
  have ok': "table_ok t'"
    unfolding table_ok_def
  proof (intro conjI allI impI)
    fix i assume "i < nat (ft_count t')"
    then have i: "i = n \<or> i < n" using n by (auto simp: t'_def)
    show "0 \<le> sl_fd (ft_fds t' ! i)" "sl_fd (ft_fds t' ! i) < ft_max t'" using i old n fd by (auto simp: t'_def nth_list_update)
    show "\<exists>v. ft_lookup t' ! nat (sl_fd (ft_fds t' ! i)) = Some v \<and> ft_pos t' v = int i"
    proof (cases "i = n")
      case True
      then show ?thesis using n by (auto simp: t'_def)
    next
      case False
      then have "i < n" using i by simp
      then show ?thesis using old [of i] fd by (auto simp: t'_def nth_list_update eq_nat_nat_iff)
    qed
  qed (use sz room n in \<open>auto simp: t'_def\<close>)
  moreover have "table_map t' = (table_map t)(fd \<mapsto> w)"
  proof -
    have "take (Suc n) (ft_fds t') = take n (ft_fds t) @ [\<lparr>sl_fd = fd, sl_events = 1, sl_revents = 0\<rparr>]"
      using n by (simp add: t'_def take_Suc_conv_app_nth)
    then have used: "sl_fd ` set (take (nat (ft_count t')) (ft_fds t')) = insert fd (sl_fd ` set (take n (ft_fds t)))"
      using n by (simp add: t'_def)
    show ?thesis
    proof
      fix x
      have "0 \<le> x" if "x \<in> sl_fd ` set (take n (ft_fds t))"
        using that used_fds [OF ok] old(3) unfolding n_def by auto
      then show "table_map t' x = ((table_map t)(fd \<mapsto> w)) x"
        using n fd unfolding table_map_def used by (auto simp: t'_def nth_list_update eq_nat_nat_iff)
    qed
  qed
  moreover have "ft_count t' = ft_count t + 1" "ft_max t' = ft_max t" "ft_pos t' = (ft_pos t)(w := ft_count t)"
    by (simp_all add: t'_def)
  ultimately show thesis using that eq by blast
qed

lemma vacate_slot_map:
  assumes ok: "table_ok t" and fd: "table_map t fd = Some w" and many: "1 < ft_count t"
  obtains t' where "vacate_slot w fd (t\<lparr>ft_count := ft_count t - 1\<rparr>) = Some t'" "table_ok t'"
    "table_map t' = (table_map t)(fd := None)" "ft_count t' = ft_count t - 1" "ft_max t' = ft_max t"
    "\<And>x v. table_map t' x = Some v \<Longrightarrow> ft_pos t' v = (if ft_pos t v = ft_count t - 1 then ft_pos t w else ft_pos t v)"
proof -
  obtain m where m: "m < nat (ft_count t)" "sl_fd (ft_fds t ! m) = fd" "ft_lookup t ! nat fd = Some w" "ft_pos t w = int m"
    "0 \<le> fd" "fd < ft_max t" using ok fd by (rule table_mapD)
  define n where "n = nat (ft_count t) - 1"
  define last where "last = ft_fds t ! n"
  note sz = table_sizes [OF ok]
  have n: "ft_count t = int n + 1" "n < nat (ft_count t)" "m \<le> n" using m(1) by (auto simp: n_def)
  obtain e where e: "ft_lookup t ! nat (sl_fd last) = Some e" "ft_pos t e = int n" "0 \<le> sl_fd last" "sl_fd last < ft_max t"
    using table_slot [OF ok n(2)] by (auto simp: last_def)
  define t' where "t' = t\<lparr>ft_count := int n, ft_fds := (ft_fds t)[m := last], ft_lookup := (ft_lookup t)[nat fd := None],
    ft_pos := (ft_pos t)(e := int m, w := -1)\<rparr>"
  have len: "n < length (ft_fds t)" "m < length (ft_fds t)" "nat fd < length (ft_lookup t)" "nat (sl_fd last) < length (ft_lookup t)"
    using sz m n e by auto
  have eq: "vacate_slot w fd (t\<lparr>ft_count := ft_count t - 1\<rparr>) = Some t'"
    using n m e len by (simp add: vacate_slot_def t'_def access_simps Let_def flip: last_def)
  have fds': "ft_fds t' ! i = (if i = m then last else ft_fds t ! i)" for i using len by (simp add: t'_def)
  have ne: "sl_fd (ft_fds t' ! i) \<noteq> fd" if "i < n" for i
    using table_fds_inj [OF ok _ m(1)] that n m(2) by (auto simp: fds' last_def)
  have ok': "table_ok t'"
    unfolding table_ok_def
  proof (intro conjI allI impI)
    fix i assume "i < nat (ft_count t')"
    then have i: "i < n" "i < nat (ft_count t)" using n by (auto simp: t'_def)
    obtain v where v: "ft_lookup t ! nat (sl_fd (ft_fds t ! i)) = Some v" "ft_pos t v = int i"
      "0 \<le> sl_fd (ft_fds t ! i)" "sl_fd (ft_fds t ! i) < ft_max t" using table_slot [OF ok i(2)] by blast
    show b: "0 \<le> sl_fd (ft_fds t' ! i)" "sl_fd (ft_fds t' ! i) < ft_max t'" using e v by (auto simp: fds') (simp_all add: t'_def)
    have "ft_lookup t' ! nat (sl_fd (ft_fds t' ! i)) = ft_lookup t ! nat (sl_fd (ft_fds t' ! i))"
      using ne [OF i(1)] b(1) m(5) by (auto simp: t'_def nth_list_update eq_nat_nat_iff)
    then show "\<exists>v. ft_lookup t' ! nat (sl_fd (ft_fds t' ! i)) = Some v \<and> ft_pos t' v = int i"
      using e v m(4) i n by (cases "i = m") (auto simp: fds', auto simp: t'_def)
  qed (use sz n in \<open>auto simp: t'_def\<close>)
  have "table_map t' = (table_map t)(fd := None)"
  proof
    fix x
    have "table_map t' x = Some v \<longleftrightarrow> x \<noteq> fd \<and> table_map t x = Some v" for v
    proof
      assume "table_map t' x = Some v"
      then obtain i where i: "i < n" "sl_fd (ft_fds t' ! i) = x" "ft_lookup t' ! nat x = Some v" "0 \<le> x"
        using table_mapD [OF ok'] by (metis (no_types, lifting) t'_def fd_table.select_convs(3) fd_table.surjective
            fd_table.update_convs nat_int)
      then have "x \<noteq> fd" using ne by blast
      moreover have "ft_lookup t ! nat x = Some v" using i m(5) \<open>x \<noteq> fd\<close> by (auto simp: t'_def nth_list_update eq_nat_nat_iff)
      moreover have "\<exists>j < nat (ft_count t). sl_fd (ft_fds t ! j) = x"
        by (rule exI [of _ "if i = m then n else i"]) (use i n in \<open>auto simp: fds' last_def\<close>)
      ultimately show "x \<noteq> fd \<and> table_map t x = Some v" using table_map_iff [OF ok] by blast
    next
      assume x: "x \<noteq> fd \<and> table_map t x = Some v"
      then obtain j where j: "j < nat (ft_count t)" "sl_fd (ft_fds t ! j) = x" "ft_lookup t ! nat x = Some v" "0 \<le> x"
        using table_mapD [OF ok] by metis
      then have "j \<noteq> m" using m(2) x by blast
      define k where "k = (if j = n then m else j)"
      have "k < n" "sl_fd (ft_fds t' ! k) = x" using j \<open>j \<noteq> m\<close> n by (auto simp: k_def fds' last_def)
      moreover have "ft_lookup t' ! nat x = Some v" using j x m(5) by (auto simp: t'_def nth_list_update eq_nat_nat_iff)
      moreover have "nat (ft_count t') = n" by (simp add: t'_def)
      ultimately show "table_map t' x = Some v" using table_map_iff [OF ok'] by auto
    qed
    then have "table_map t' x = Some v \<longleftrightarrow> ((table_map t)(fd := None)) x = Some v" for v by simp
    then show "table_map t' x = ((table_map t)(fd := None)) x" by (metis not_None_eq)
  qed
  moreover have "ft_count t' = ft_count t - 1" "ft_max t' = ft_max t" using n by (simp_all add: t'_def)
  moreover have "ft_pos t' v = (if ft_pos t v = ft_count t - 1 then ft_pos t w else ft_pos t v)" if v: "table_map t' x = Some v" for x v
  proof -
    have x: "x \<noteq> fd" "table_map t x = Some v" using v calculation(1) by (auto split: if_splits)
    then obtain i where i: "i < nat (ft_count t)" "sl_fd (ft_fds t ! i) = x" "ft_lookup t ! nat x = Some v" "ft_pos t v = int i"
      using table_mapD [OF ok] by metis
    have "v \<noteq> w" using table_map_inj [OF ok x(2)] fd x(1) by blast
    moreover have "v = e" if "i = n" using that i e by (simp add: last_def)
    ultimately show ?thesis using e(2) i(4) m(4) n by (auto simp: t'_def)
  qed
  ultimately show thesis using eq ok' by (intro that) blast+
qed

text \<open>The last descriptor leaves the counter only.\<close>

lemma empty_table_map: "table_ok t \<Longrightarrow> ft_count t \<le> 0 \<Longrightarrow> table_map t = Map.empty"
  by (rule ext) (simp add: table_map_def)

lemma last_slot_map:
  assumes ok: "table_ok t" and fd: "table_map t fd = Some w" and one: "ft_count t = 1"
  shows "table_ok (t\<lparr>ft_count := 0\<rparr>)" "table_map (t\<lparr>ft_count := 0\<rparr>) = (table_map t)(fd := None)"
proof -
  show ok': "table_ok (t\<lparr>ft_count := 0\<rparr>)" using ok by (simp add: table_ok_def)
  have "x = fd" if "table_map t x = Some v" for x v
    using table_mapD [OF ok that] table_mapD [OF ok fd] one by (metis One_nat_def less_one nat_1)
  then have "table_map t x = None" if "x \<noteq> fd" for x using that by (cases "table_map t x") auto
  then have "(table_map t)(fd := None) = Map.empty" by auto
  then show "table_map (t\<lparr>ft_count := 0\<rparr>) = (table_map t)(fd := None)" using empty_table_map [OF ok'] by simp
qed

text \<open>Events do not matter to the map.\<close>

lemma same_fds_table:
  assumes "table_ok t" "map sl_fd fds = map sl_fd (ft_fds t)"
  shows "table_ok (t\<lparr>ft_fds := fds\<rparr>)" "table_map (t\<lparr>ft_fds := fds\<rparr>) = table_map t"
proof -
  have len: "length fds = length (ft_fds t)" by (rule map_eq_imp_length_eq [OF assms(2)])
  have fd: "sl_fd (fds ! i) = sl_fd (ft_fds t ! i)" if "i < length fds" for i
    using that assms(2) len by (metis nth_map)
  have "sl_fd ` set (take n fds) = sl_fd ` set (take n (ft_fds t))" for n
    using arg_cong [OF assms(2), of "\<lambda>xs. set (take n xs)"] by (simp add: take_map)
  then show "table_map (t\<lparr>ft_fds := fds\<rparr>) = table_map t" by (intro ext) (simp add: table_map_def)
  show "table_ok (t\<lparr>ft_fds := fds\<rparr>)" using assms(1) fd len unfolding table_ok_def by auto
qed

lemma put_events_table:
  assumes "table_ok t"
  shows "table_ok (put_events i ev t)" "table_map (put_events i ev t) = table_map t"
    "ft_count (put_events i ev t) = ft_count t" "ft_max (put_events i ev t) = ft_max t" "ft_pos (put_events i ev t) = ft_pos t"
    "ft_lookup (put_events i ev t) = ft_lookup t"
proof -
  have "map sl_fd ((ft_fds t)[n := (ft_fds t ! n)\<lparr>sl_events := ev\<rparr>]) = map sl_fd (ft_fds t)" if "n < length (ft_fds t)" for n
    using that by (simp add: map_update list_update_same_conv)
  note same = same_fds_table [OF assms this]
  show "table_ok (put_events i ev t)" "table_map (put_events i ev t) = table_map t"
    using assms same by (auto simp: put_events_def Let_def)
  show "ft_count (put_events i ev t) = ft_count t" "ft_max (put_events i ev t) = ft_max t"
    "ft_pos (put_events i ev t) = ft_pos t" "ft_lookup (put_events i ev t) = ft_lookup t" by (simp_all add: put_events_def Let_def)
qed

lemma put_revents_fds: "map sl_fd (put_revents sls ev) = map sl_fd sls"
  by (induction sls ev rule: put_revents.induct) auto

section \<open>The calls that change the table\<close>

text \<open>Callbacks that leave the table and the identity of the connection alone.\<close>

definition table_quiet :: "'x ss_cfg \<Rightarrow> bool" where
  "table_quiet cfg \<longleftrightarrow> (\<forall>p r d s. ss_fds (snd (sc_user cfg p r d s)) = ss_fds s \<and>
     ss_sock (snd (sc_user cfg p r d s)) = ss_sock s \<and> ss_id (snd (sc_user cfg p r d s)) = ss_id s)"

lemma quiet_cb0:
  "table_quiet cfg \<Longrightarrow> ss_fds (user_cb0 cfg r d s) = ss_fds s \<and> ss_sock (user_cb0 cfg r d s) = ss_sock s \<and>
     ss_id (user_cb0 cfg r d s) = ss_id s"
  by (simp add: table_quiet_def user_cb0_def)

lemma upd_ws_frame [simp]:
  "ss_fds (upd_ws f s) = ss_fds s" "ss_sock (upd_ws f s) = ss_sock s" "ss_id (upd_ws f s) = ss_id s"
  "ss_gone (upd_ws f s) = ss_gone s" "ss_service (upd_ws f s) = ss_service s" "ss_ws (upd_ws f s) = f (ss_ws s)"
  "ss_exts (upd_ws f s) = ss_exts s" "ss_protocol (upd_ws f s) = ss_protocol s" "ss_ah (upd_ws f s) = ss_ah s"
  by (simp_all add: upd_ws_def)

lemma insert_wsi_map:
  assumes cfg: "table_quiet cfg" and ok: "table_ok (ss_fds s)" and fd: "0 \<le> ss_sock s" "table_map (ss_fds s) (ss_sock s) = None"
    and w: "ss_id s \<notin> ran (table_map (ss_fds s))"
  obtains r s' where "insert_wsi_socket_into_fds cfg s = Some (r, s')" "table_ok (ss_fds s')"
    "r = (if ss_sock s < ft_max (ss_fds s) then 0 else 1)"
    "table_map (ss_fds s') = (if ss_sock s < ft_max (ss_fds s) then (table_map (ss_fds s))(ss_sock s \<mapsto> ss_id s) else table_map (ss_fds s))"
    "ft_max (ss_fds s') = ft_max (ss_fds s)"
proof (cases "ss_sock s < ft_max (ss_fds s)")
  case True
  note room = table_room [OF ok fd(1) True fd(2)]
  obtain t' where "insert_slot (ss_id s) (ss_sock s) (ss_fds s) = Some t'" "table_ok t'"
    "table_map t' = (table_map (ss_fds s))(ss_sock s \<mapsto> ss_id s)" "ft_max t' = ft_max (ss_fds s)"
    by (rule insert_slot_map [OF ok fd(1) True fd(2) w])
  moreover from this(1) obtain s' where "insert_wsi_socket_into_fds cfg s = Some (0, s')" "ss_fds s' = t'"
    using True room fd(1) quiet_cb0 [OF cfg] by (simp add: insert_wsi_socket_into_fds_def Let_def)
  ultimately show thesis using True by (intro that [of 0 s']) simp_all
next
  case False
  then have "insert_wsi_socket_into_fds cfg s = Some (1, s)" by (simp add: insert_wsi_socket_into_fds_def)
  then show thesis using False ok by (intro that [of 1 s]) simp_all
qed

lemma remove_wsi_map:
  assumes cfg: "table_quiet cfg" and ok: "table_ok (ss_fds s)" and fd: "table_map (ss_fds s) (ss_sock s) = Some (ss_id s)"
  obtains s' where "remove_wsi_socket_from_fds cfg s = Some (0, s')" "table_ok (ss_fds s')"
    "table_map (ss_fds s') = (table_map (ss_fds s))(ss_sock s := None)" "ft_max (ss_fds s') = ft_max (ss_fds s)"
    "ft_count (ss_fds s') = ft_count (ss_fds s) - 1"
    "\<And>x v. table_map (ss_fds s') x = Some v \<Longrightarrow> ft_pos (ss_fds s') v = (if ft_pos (ss_fds s) v = ft_count (ss_fds s) - 1 then ft_pos (ss_fds s) (ss_id s) else ft_pos (ss_fds s) v)"
proof -
  obtain m where m: "m < nat (ft_count (ss_fds s))" "ss_sock s < ft_max (ss_fds s)" using ok fd by (rule table_mapD)
  note q = quiet_cb0 [OF cfg]
  show thesis
  proof (cases "ft_count (ss_fds s) = 1")
    case True
    then obtain s' where "remove_wsi_socket_from_fds cfg s = Some (0, s')" "ss_fds s' = (ss_fds s)\<lparr>ft_count := 0\<rparr>"
      using q by (simp add: remove_wsi_socket_from_fds_def Let_def)
    moreover have "table_map ((ss_fds s)\<lparr>ft_count := 0\<rparr>) = Map.empty"
      by (rule empty_table_map [OF last_slot_map(1) [OF ok fd True]]) simp
    moreover note last_slot_map [OF ok fd True] True
    ultimately have "table_map (ss_fds s') = Map.empty" "table_ok (ss_fds s')" "ft_count (ss_fds s') = ft_count (ss_fds s) - 1"
      "ft_max (ss_fds s') = ft_max (ss_fds s)" "(table_map (ss_fds s))(ss_sock s := None) = Map.empty" by simp_all
    then show thesis using \<open>remove_wsi_socket_from_fds cfg s = Some (0, s')\<close> by (intro that [of s']) (simp_all only: not_None_eq option.distinct)
  next
    case False
    then have many: "1 < ft_count (ss_fds s)" using m(1) by linarith
    obtain t' where "vacate_slot (ss_id s) (ss_sock s) ((ss_fds s)\<lparr>ft_count := ft_count (ss_fds s) - 1\<rparr>) = Some t'" "table_ok t'"
      "table_map t' = (table_map (ss_fds s))(ss_sock s := None)" "ft_count t' = ft_count (ss_fds s) - 1"
      "ft_max t' = ft_max (ss_fds s)"
      "\<And>x v. table_map t' x = Some v \<Longrightarrow> ft_pos t' v = (if ft_pos (ss_fds s) v = ft_count (ss_fds s) - 1 then ft_pos (ss_fds s) (ss_id s) else ft_pos (ss_fds s) v)"
      by (rule vacate_slot_map [OF ok fd many]) blast
    moreover from this(1) obtain s' where "remove_wsi_socket_from_fds cfg s = Some (0, s')" "ss_fds s' = t'"
      using many m(2) q by (simp add: remove_wsi_socket_from_fds_def Let_def)
    ultimately show thesis by (intro that [of s']) simp_all
  qed
qed

section \<open>Tables that are reached\<close>

text \<open>A connection is inserted under a descriptor that is free, and removed when it is in the table.\<close>

inductive table_step :: "'x ss_cfg \<Rightarrow> fd_table \<Rightarrow> fd_table \<Rightarrow> bool" for cfg where
  step_insert: "insert_wsi_socket_into_fds cfg s = Some (r, s') \<Longrightarrow> 0 \<le> ss_sock s \<Longrightarrow> table_map (ss_fds s) (ss_sock s) = None \<Longrightarrow>
    ss_id s \<notin> ran (table_map (ss_fds s)) \<Longrightarrow> table_step cfg (ss_fds s) (ss_fds s')"
| step_remove: "remove_wsi_socket_from_fds cfg s = Some (r, s') \<Longrightarrow> table_map (ss_fds s) (ss_sock s) = Some (ss_id s) \<Longrightarrow>
    table_step cfg (ss_fds s) (ss_fds s')"
| step_events: "table_step cfg t (put_events i ev t)"
| step_poll: "k = nat (ft_count t) \<Longrightarrow>
    table_step cfg t (t\<lparr>ft_fds := put_revents (take k (ft_fds t)) ev @ drop k (ft_fds t)\<rparr>)"

inductive_cases table_stepE: "table_step cfg t t'"

lemma table_step_ok:
  assumes "table_step cfg t t'" "table_quiet cfg" "table_ok t"
  shows "table_ok t' \<and> ft_max t' = ft_max t"
  using assms(1)
proof (rule table_stepE)
  fix s r s' assume "t = ss_fds s" "t' = ss_fds s'" "insert_wsi_socket_into_fds cfg s = Some (r, s')" "0 \<le> ss_sock s"
    "table_map (ss_fds s) (ss_sock s) = None" "ss_id s \<notin> ran (table_map (ss_fds s))"
  then show ?thesis using insert_wsi_map [of cfg s] assms(2,3) by (metis option.inject prod.inject)
next
  fix s r s' assume "t = ss_fds s" "t' = ss_fds s'" "remove_wsi_socket_from_fds cfg s = Some (r, s')"
    "table_map (ss_fds s) (ss_sock s) = Some (ss_id s)"
  then show ?thesis using remove_wsi_map [of cfg s] assms(2,3) by (metis option.inject prod.inject)
next
  fix i ev assume "t' = put_events i ev t"
  then show ?thesis using put_events_table [OF assms(3)] by simp
next
  fix k ev assume "t' = t\<lparr>ft_fds := put_revents (take k (ft_fds t)) ev @ drop k (ft_fds t)\<rparr>"
  moreover have "map sl_fd (put_revents (take k (ft_fds t)) ev @ drop k (ft_fds t)) = map sl_fd (ft_fds t)"
    by (simp only: map_append put_revents_fds) (simp flip: map_append)
  ultimately show ?thesis using same_fds_table(1) [OF assms(3)] by simp
qed

definition empty_table :: "fd_slot list \<Rightarrow> (nat \<Rightarrow> int) \<Rightarrow> fd_table" where
  "empty_table mem pos = \<lparr>ft_fds = mem, ft_lookup = replicate (length mem) None, ft_count = 0, ft_max = int (length mem), ft_pos = pos\<rparr>"

lemma empty_table_ok: "table_ok (empty_table mem pos)"
  by (simp add: table_ok_def empty_table_def)

lemma reached_table_ok:
  assumes "(table_step cfg)\<^sup>*\<^sup>* t t'" "table_quiet cfg" "table_ok t"
  shows "table_ok t' \<and> ft_max t' = ft_max t"
  using assms by (induction rule: rtranclp_induct) (auto dest: table_step_ok)

text \<open>C14: Every descriptor table reached from an empty one by inserting connections under free descriptors, removing
  connections that are in it, and changing events is a map from descriptors to connections; on every such
  table inserting and removing are defined and update that map, and a connection is refused exactly when
  its descriptor is too high.\<close>

theorem tables_stay_maps:
  fixes cfg :: "'x ss_cfg"
  assumes "table_quiet cfg" and "(table_step cfg)\<^sup>*\<^sup>* (empty_table mem pos) t"
  shows "table_ok t \<and>
    (\<forall>s :: 'x session. ss_fds s = t \<and> 0 \<le> ss_sock s \<and> table_map t (ss_sock s) = None \<and> ss_id s \<notin> ran (table_map t) \<longrightarrow>
       (\<exists>r s'. insert_wsi_socket_into_fds cfg s = Some (r, s') \<and> (r = 0 \<longleftrightarrow> ss_sock s < int (length mem)) \<and>
          table_map (ss_fds s') = (if r = 0 then (table_map t)(ss_sock s \<mapsto> ss_id s) else table_map t))) \<and>
    (\<forall>s :: 'x session. ss_fds s = t \<and> table_map t (ss_sock s) = Some (ss_id s) \<longrightarrow>
       (\<exists>s'. remove_wsi_socket_from_fds cfg s = Some (0, s') \<and> table_map (ss_fds s') = (table_map t)(ss_sock s := None)))"
proof -
  have ok: "table_ok t" and max: "ft_max t = int (length mem)"
    using reached_table_ok [OF assms(2,1) empty_table_ok] by (simp_all add: empty_table_def)
  show ?thesis
  proof (intro conjI allI impI)
    fix s :: "'x session" assume "ss_fds s = t \<and> 0 \<le> ss_sock s \<and> table_map t (ss_sock s) = None \<and> ss_id s \<notin> ran (table_map t)"
    then obtain r s' where "insert_wsi_socket_into_fds cfg s = Some (r, s')" "r = (if ss_sock s < ft_max t then 0 else 1)"
      "table_map (ss_fds s') = (if ss_sock s < ft_max t then (table_map t)(ss_sock s \<mapsto> ss_id s) else table_map t)"
      using insert_wsi_map [OF assms(1), of s] ok by metis
    then show "\<exists>r s'. insert_wsi_socket_into_fds cfg s = Some (r, s') \<and> (r = 0 \<longleftrightarrow> ss_sock s < int (length mem)) \<and>
        table_map (ss_fds s') = (if r = 0 then (table_map t)(ss_sock s \<mapsto> ss_id s) else table_map t)" using max by auto
  next
    fix s :: "'x session" assume "ss_fds s = t \<and> table_map t (ss_sock s) = Some (ss_id s)"
    then show "\<exists>s'. remove_wsi_socket_from_fds cfg s = Some (0, s') \<and> table_map (ss_fds s') = (table_map t)(ss_sock s := None)"
      using remove_wsi_map [OF assms(1), of s] ok by metis
  qed (rule ok)
qed

definition demo_table :: fd_table where
  "demo_table = empty_table (replicate 8 \<lparr>sl_fd = 0, sl_events = 0, sl_revents = 0\<rparr>) (\<lambda>_. 0)"

lemma demo_quiet: "table_quiet demo_cfg"
  by (simp add: table_quiet_def demo_cfg_def)

lemma tables_stay_maps_witness:
  "\<exists>t. (table_step demo_cfg)\<^sup>*\<^sup>* demo_table t \<and> table_map t = [5 \<mapsto> 0] \<and> table_ok t \<and>
     (\<exists>s'. remove_wsi_socket_from_fds demo_cfg (demo_server\<lparr>ss_fds := t\<rparr>) = Some (0, s') \<and> table_map (ss_fds s') = Map.empty)"
proof -
  let ?s = "demo_server\<lparr>ss_fds := demo_table\<rparr>"
  have ok: "table_ok (ss_fds ?s)" by (simp add: demo_table_def empty_table_ok)
  have free: "table_map (ss_fds ?s) = Map.empty" using empty_table_map [OF ok] by (simp add: demo_table_def empty_table_def)
  have s: "ss_sock ?s = 5" "ss_id ?s = 0" "ft_max (ss_fds ?s) = 8"
    by (simp_all add: demo_server_def demo_session_def demo_table_def empty_table_def)
  have "0 \<le> ss_sock ?s" "table_map (ss_fds ?s) (ss_sock ?s) = None" "ss_id ?s \<notin> ran (table_map (ss_fds ?s))"
    using s free by simp_all
  note pre = this
  obtain r s' where ins: "insert_wsi_socket_into_fds demo_cfg ?s = Some (r, s')"
    "table_map (ss_fds s') = (if ss_sock ?s < ft_max (ss_fds ?s) then (table_map (ss_fds ?s))(ss_sock ?s \<mapsto> ss_id ?s) else table_map (ss_fds ?s))"
    by (rule insert_wsi_map [OF demo_quiet ok pre])
  define t where "t = ss_fds s'"
  have m: "table_map t = [5 \<mapsto> 0]" unfolding t_def ins(2) s free by simp
  have run: "(table_step demo_cfg)\<^sup>*\<^sup>* demo_table t"
    using step_insert [OF ins(1) pre] by (simp add: t_def r_into_rtranclp)
  note all = tables_stay_maps [OF demo_quiet run [unfolded demo_table_def]]
  let ?d = "demo_server\<lparr>ss_fds := t\<rparr>"
  have "ss_fds ?d = t \<and> table_map t (ss_sock ?d) = Some (ss_id ?d)" using s m by simp
  with all obtain d where "remove_wsi_socket_from_fds demo_cfg ?d = Some (0, d)"
    "table_map (ss_fds d) = (table_map t)(ss_sock ?d := None)" by blast
  then show ?thesis using m run all s by (auto intro!: exI [of _ t])
qed

end
