(* ===== verification/Context_Facts.thy ===== *)
theory Context_Facts
  imports Fd_Table
begin

text \<open>
  Facts on contexts: operations on one connection leave the others alone, closing a connection takes it out of
  the table, the end of a context closes every connection, and the timeouts close only what expired.
  The callbacks agree to everything and there are no extensions (\<open>plain_cfg\<close>).
\<close>

section \<open>Closing a connection\<close>

definition closable :: "'x ss_cfg \<Rightarrow> 'x session \<Rightarrow> bool" where
  "closable cfg s \<longleftrightarrow> \<not> ss_gone s \<and> ws_state (ss_ws s) \<noteq> WSI_STATE_DEAD_SOCKET \<and> ss_exts s = [] \<and>
     (ws_mode (ss_ws s) \<in> {LWS_CONNMODE_WS_CLIENT_WAITING_CONNECT, LWS_CONNMODE_WS_CLIENT_ISSUE_HANDSHAKE} \<longrightarrow>
        ss_ah s \<noteq> Ah_dangling) \<and>
     (\<forall>p. ss_protocol s = Some p \<longrightarrow> p < length (sc_protocols cfg))"

lemma plain_quiet: "plain_cfg cfg \<Longrightarrow> table_quiet cfg"
  by (simp add: plain_cfg_def table_quiet_def)

lemma remove_plain:
  assumes "plain_cfg cfg" "remove_wsi_socket_from_fds cfg s = Some (r, s')"
  shows "\<exists>t. s' = s\<lparr>ss_fds := t\<rparr>"
  using assms plain_user(1) [OF assms(1)]
  by (auto simp: remove_wsi_socket_from_fds_def Let_def split: if_splits Option.bind_splits)

lemma insert_plain:
  assumes "plain_cfg cfg" "insert_wsi_socket_into_fds cfg s = Some (0, s')"
  shows "\<exists>t. s' = upd_ws (\<lambda>w. w\<lparr>ws_pollin := True, ws_pollout := False\<rparr>) (s\<lparr>ss_fds := t\<rparr>)"
  using assms plain_user(1) [OF assms(1)]
  by (auto simp: insert_wsi_socket_into_fds_def Let_def split: if_splits Option.bind_splits)

lemma just_kill_plain:
  assumes cfg: "plain_cfg cfg" and exts: "ss_exts s = []" and p: "\<And>p. ss_protocol s = Some p \<Longrightarrow> p < length (sc_protocols cfg)"
    and rm: "remove_wsi_socket_from_fds cfg s = Some (0, s\<lparr>ss_fds := t\<rparr>)"
  obtains s' where "just_kill_connection cfg old s = Some s'" "ss_gone s'" "ss_fds s' = t" "ss_service s' = ss_service s" "ss_id s' = ss_id s"
proof -
  have names: "sc_ext_names cfg = []" using cfg by (simp add: plain_cfg_def)
  note u = plain_user [OF cfg]
  let ?C = "old = WSI_STATE_ESTABLISHED \<or> ws_mode (ss_ws s) = LWS_CONNMODE_WS_SERVING \<or> ws_mode (ss_ws s) = LWS_CONNMODE_WS_CLIENT"
  have cb: "user_cb cfg r d v = Some (0, v)" if "ss_protocol v = Some y" "ss_protocol s = Some y" for v r d y
    using that u(2) p by blast
  have upd: "upd_ws f (s\<lparr>ss_fds := t\<rparr>) = s\<lparr>ss_fds := t, ss_ws := f (ss_ws s)\<rparr>"
    "upd_ws g (s\<lparr>ss_fds := t, ss_ws := x\<rparr>) = s\<lparr>ss_fds := t, ss_ws := g x\<rparr>" for f g x by (simp_all add: upd_ws_def)
  have "\<exists>w. just_kill_connection cfg old s = Some (s\<lparr>ss_fds := t, ss_ws := w, ss_gone := True\<rparr>)"
  proof (cases ?C)
    case True
    then show ?thesis unfolding just_kill_connection_def rm
      by (cases "ss_protocol s") (auto simp: upd u(1) names exts cb Let_def)
  next
    case False
    then show ?thesis unfolding just_kill_connection_def rm
      by (cases "ss_protocol s") (auto simp: upd u(1) names exts cb Let_def)
  qed
  then obtain w where "just_kill_connection cfg old s = Some (s\<lparr>ss_fds := t, ss_ws := w, ss_gone := True\<rparr>)" by blast
  then show thesis by (rule that) simp_all
qed

lemma close_plain:
  fixes s :: "'x session"
  assumes cfg: "plain_cfg cfg" and s: "closable cfg s" and ok: "table_ok (ss_fds s)"
    and fd: "table_map (ss_fds s) (ss_sock s) = Some (ss_id s)"
  obtains s' where "libwebsocket_close_and_free_session cfg LWS_CLOSE_STATUS_NOSTATUS s = Some s'" "ss_gone s'"
    "table_ok (ss_fds s')" "table_map (ss_fds s') = (table_map (ss_fds s))(ss_sock s := None)"
    "ft_count (ss_fds s') = ft_count (ss_fds s) - 1" "ft_max (ss_fds s') = ft_max (ss_fds s)"
    "ss_service s' = ss_service s" "ss_id s' = ss_id s"
    "\<And>x v. table_map (ss_fds s') x = Some v \<Longrightarrow> ft_pos (ss_fds s') v = (if ft_pos (ss_fds s) v = ft_count (ss_fds s) - 1 then ft_pos (ss_fds s) (ss_id s) else ft_pos (ss_fds s) v)"
proof -
  note finish = that
  note R = s [unfolded closable_def] and u = plain_user [OF cfg]
  have kill: thesis if v: "libwebsocket_close_and_free_session cfg LWS_CLOSE_STATUS_NOSTATUS s = just_kill_connection cfg old v"
    "ss_fds v = ss_fds s" "ss_sock v = ss_sock s" "ss_id v = ss_id s" "ss_exts v = []" "ss_protocol v = ss_protocol s"
    "ss_service v = ss_service s" for v :: "'x session" and old
  proof -
    obtain v' where rm: "remove_wsi_socket_from_fds cfg v = Some (0, v')" and t: "table_ok (ss_fds v')"
      "table_map (ss_fds v') = (table_map (ss_fds v))(ss_sock v := None)" "ft_max (ss_fds v') = ft_max (ss_fds v)"
      "ft_count (ss_fds v') = ft_count (ss_fds v) - 1"
      "\<And>x j. table_map (ss_fds v') x = Some j \<Longrightarrow> ft_pos (ss_fds v') j = (if ft_pos (ss_fds v) j = ft_count (ss_fds v) - 1 then ft_pos (ss_fds v) (ss_id v) else ft_pos (ss_fds v) j)"
      by (rule remove_wsi_map [OF plain_quiet [OF cfg], of v]) (use ok fd v in simp_all)
    obtain t' where "v' = v\<lparr>ss_fds := t'\<rparr>" using remove_plain [OF cfg rm] by blast
    then have rm': "remove_wsi_socket_from_fds cfg v = Some (0, v\<lparr>ss_fds := ss_fds v'\<rparr>)" using rm by simp
    obtain s' where "just_kill_connection cfg old v = Some s'" "ss_gone s'" "ss_fds s' = ss_fds v'"
      "ss_service s' = ss_service v" "ss_id s' = ss_id v"
      by (rule just_kill_plain [OF cfg _ _ rm', where old = old]) (use R v in auto)
    then show thesis using t v by (intro finish [of s']) simp_all
  qed
  show thesis
  proof (cases "ws_state (ss_ws s) = WSI_STATE_AWAITING_CLOSE_ACK")
    case True
    show thesis
      by (rule kill [where v = s and old = WSI_STATE_AWAITING_CLOSE_ACK]) (use True R in \<open>simp_all add: libwebsocket_close_and_free_session_def\<close>)
  next
    case awaiting: False
    let ?s = "upd_ws (ws_close_reason_update (\<lambda>_. LWS_CLOSE_STATUS_NOSTATUS)) s"
    show thesis
    proof (cases "ws_mode (ss_ws s) \<in> {LWS_CONNMODE_WS_CLIENT_WAITING_CONNECT, LWS_CONNMODE_WS_CLIENT_ISSUE_HANDSHAKE}")
      case True
      then have "ss_ah s \<noteq> Ah_dangling" using R by blast
      then obtain v where "free_ah ?s = Some v" "v = ?s \<or> v = ?s\<lparr>ss_ah := Ah_dangling\<rparr>"
        by (cases "ss_ah s") (simp_all add: free_ah_def)
      then show thesis
        by (intro kill [where v = v and old = "ws_state (ss_ws s)"])
          (use True R awaiting u in \<open>auto simp: libwebsocket_close_and_free_session_def Let_def\<close>)
    next
      case False
      have frame: "ss_fds (close_http cfg ?s) = ss_fds s" "ss_sock (close_http cfg ?s) = ss_sock s"
        "ss_id (close_http cfg ?s) = ss_id s" "ss_exts (close_http cfg ?s) = []" "ss_protocol (close_http cfg ?s) = ss_protocol s"
        "ss_service (close_http cfg ?s) = ss_service s" using R u by (simp_all add: close_http_def Let_def)
      have flush: "close_flush cfg (close_http cfg ?s) = Some (True, close_http cfg ?s)"
        by (subst close_flush.simps) (simp add: frame)
      show thesis
        by (rule kill [where v = "close_http cfg ?s" and old = "ws_state (ss_ws s)"])
          (use False R awaiting frame flush in \<open>simp_all add: libwebsocket_close_and_free_session_def Let_def\<close>)
    qed
  qed
qed

section \<open>Contexts whose table knows their connections\<close>

definition cx_ok :: "'x ss_cfg \<Rightarrow> 'x lws_context \<Rightarrow> bool" where
  "cx_ok cfg c \<longleftrightarrow> table_ok (cx_fds c) \<and>
     (\<forall>fd i. table_map (cx_fds c) fd = Some i \<longrightarrow>
        (\<exists>s. cx_conns c i = Some s \<and> closable cfg s \<and> ss_id s = i \<and> ss_sock s = fd)) \<and>
     (\<forall>i s. cx_conns c i = Some s \<longrightarrow> i < cx_fresh c)"

lemma cx_table: "cx_ok cfg c \<Longrightarrow> table_ok (cx_fds c)"
  by (simp add: cx_ok_def)

lemma cx_conn:
  assumes "cx_ok cfg c" "table_map (cx_fds c) fd = Some i"
  obtains s where "cx_conns c i = Some s" "closable cfg s" "ss_id s = i" "ss_sock s = fd"
  using assms by (auto simp: cx_ok_def)

lemma cx_fresh_free:
  assumes "cx_ok cfg c" shows "cx_conns c (cx_fresh c) = None" "cx_fresh c \<notin> ran (table_map (cx_fds c))"
proof -
  show n: "cx_conns c (cx_fresh c) = None" using assms by (cases "cx_conns c (cx_fresh c)") (auto simp: cx_ok_def)
  then show "cx_fresh c \<notin> ran (table_map (cx_fds c))" using assms by (auto simp: cx_ok_def ran_def)
qed

lemma load_Some:
  assumes "cx_conns c i = Some s"
  obtains v where "load i c = Some v" "ss_fds v = cx_fds c" "ss_service v = cx_service c" "ss_now v = cx_now c"
    "ss_id v = ss_id s" "ss_sock v = ss_sock s" "ss_timeout v = ss_timeout s" "ss_protocol v = ss_protocol s" "ss_exts v = ss_exts s"
    "closable cfg v = closable cfg s" "ws_mode (ss_ws v) = ws_mode (ss_ws s)" "ws_state (ss_ws v) = ws_state (ss_ws s)"
    "ss_ah v = ss_ah s"
  using that assms by (simp add: load_def closable_def)

lemma slot_lookup:
  assumes ok: "table_ok (cx_fds c)" and n: "n < nat (ft_count (cx_fds c))"
  obtains sl i where "slot_at n c = Some sl" "lookup_fd (sl_fd sl) c = Some (Some i)" "table_map (cx_fds c) (sl_fd sl) = Some i"
    "ft_pos (cx_fds c) i = int n"
proof -
  obtain w where w: "table_map (cx_fds c) (sl_fd (ft_fds (cx_fds c) ! n)) = Some w"
    "ft_lookup (cx_fds c) ! nat (sl_fd (ft_fds (cx_fds c) ! n)) = Some w" "ft_pos (cx_fds c) w = int n"
    "0 \<le> sl_fd (ft_fds (cx_fds c) ! n)" "sl_fd (ft_fds (cx_fds c) ! n) < ft_max (cx_fds c)" by (rule table_slot [OF ok n])
  note sz = table_sizes [OF ok]
  have "n < length (ft_fds (cx_fds c))" "nat (sl_fd (ft_fds (cx_fds c) ! n)) < length (ft_lookup (cx_fds c))"
    using n w(4,5) sz by auto
  then show thesis using that [of "ft_fds (cx_fds c) ! n" w] w by (simp add: slot_at_def lookup_fd_def access_simps)
qed

text \<open>An operation that keeps the table and the identity of a connection keeps the context.\<close>

lemma store_keeps:
  assumes ok: "cx_ok cfg c" and i: "table_map (cx_fds c) fd = Some i" and s: "closable cfg s" "ss_id s = i" "ss_sock s = fd"
    and t: "table_ok (ss_fds s)" "table_map (ss_fds s) = table_map (cx_fds c)"
  shows "cx_ok cfg (store i s c)" "table_map (cx_fds (store i s c)) = table_map (cx_fds c)" "cx_conns (store i s c) i = Some s"
proof -
  note ev = put_events_table [OF t(1), of i "session_events s"]
  show m: "table_map (cx_fds (store i s c)) = table_map (cx_fds c)" using ev t(2) by (simp add: store_def)
  show c: "cx_conns (store i s c) i = Some s" using s(1) by (simp add: store_def closable_def)
  show "cx_ok cfg (store i s c)"
    unfolding cx_ok_def
  proof (intro conjI allI impI)
    show "table_ok (cx_fds (store i s c))" using ev(1) by (simp add: store_def)
  next
    fix fd' j assume j: "table_map (cx_fds (store i s c)) fd' = Some j"
    then have j': "table_map (cx_fds c) fd' = Some j" unfolding m .
    show "\<exists>v. cx_conns (store i s c) j = Some v \<and> closable cfg v \<and> ss_id v = j \<and> ss_sock v = fd'"
    proof (cases "j = i")
      case True
      then have "fd' = fd" using table_map_inj [OF cx_table [OF ok] _ i] j' by blast
      then show ?thesis using c s True by blast
    next
      case False
      then have "cx_conns (store i s c) j = cx_conns c j" by (simp add: store_def)
      then show ?thesis using cx_conn [OF ok j'] by metis
    qed
  next
    fix j v assume "cx_conns (store i s c) j = Some v"
    then show "j < cx_fresh (store i s c)" using ok cx_conn [OF ok i] by (cases "j = i") (auto simp: store_def cx_ok_def)
  qed
qed

lemma close_conn_ok:
  assumes cfg: "plain_cfg cfg" and ok: "cx_ok cfg c" and fd: "table_map (cx_fds c) fd = Some i"
  obtains c' where "close_conn cfg i c = Some c'" "cx_ok cfg c'" "table_map (cx_fds c') = (table_map (cx_fds c))(fd := None)"
    "cx_conns c' = (cx_conns c)(i := None)" "ft_count (cx_fds c') = ft_count (cx_fds c) - 1" "ft_max (cx_fds c') = ft_max (cx_fds c)"
    "cx_fresh c' = cx_fresh c" "cx_listen_fd c' = cx_listen_fd c"
    "\<And>x v. table_map (cx_fds c') x = Some v \<Longrightarrow> ft_pos (cx_fds c') v = (if ft_pos (cx_fds c) v = ft_count (cx_fds c) - 1 then ft_pos (cx_fds c) i else ft_pos (cx_fds c) v)"
proof -
  obtain s where s: "cx_conns c i = Some s" "closable cfg s" "ss_id s = i" "ss_sock s = fd" by (rule cx_conn [OF ok fd])
  obtain v where v: "load i c = Some v" "ss_fds v = cx_fds c" "ss_id v = ss_id s" "ss_sock v = ss_sock s"
    "closable cfg v = closable cfg s" by (rule load_Some [OF s(1)])
  obtain v' where v': "libwebsocket_close_and_free_session cfg LWS_CLOSE_STATUS_NOSTATUS v = Some v'" "ss_gone v'"
    "table_ok (ss_fds v')" "table_map (ss_fds v') = (table_map (ss_fds v))(ss_sock v := None)"
    "ft_count (ss_fds v') = ft_count (ss_fds v) - 1" "ft_max (ss_fds v') = ft_max (ss_fds v)"
    "\<And>x j. table_map (ss_fds v') x = Some j \<Longrightarrow> ft_pos (ss_fds v') j = (if ft_pos (ss_fds v) j = ft_count (ss_fds v) - 1 then ft_pos (ss_fds v) (ss_id v) else ft_pos (ss_fds v) j)"
    by (rule close_plain [OF cfg, of v]) (use v s fd cx_table [OF ok] in auto)
  note ev = put_events_table [OF v'(3), of i "session_events v'"]
  let ?c = "store i v' c"
  have conns: "cx_conns ?c = (cx_conns c)(i := None)" and map: "table_map (cx_fds ?c) = (table_map (cx_fds c))(fd := None)"
    using v v' s ev by (simp_all add: store_def)
  have "fd' = fd" if "table_map (cx_fds c) fd' = Some i" for fd' using table_map_inj [OF cx_table [OF ok] that fd] .
  then have "cx_ok cfg ?c"
    using ok conns map ev(1) unfolding cx_ok_def by (auto simp: store_def split: if_splits)
  then show thesis
    using v v' s conns map ev by (intro that [of ?c]) (simp_all add: close_conn_def on_conn_def store_def)
qed

section \<open>The end of a context\<close>

lemma destroy_loop_ends:
  assumes cfg: "plain_cfg cfg" and ok: "cx_ok cfg c"
  shows "\<exists>c'. destroy_loop cfg c = Some c' \<and> ft_count (cx_fds c') = 0 \<and>
    (\<forall>i. cx_conns c' i = (if i \<in> ran (table_map (cx_fds c)) then None else cx_conns c i))"
  using ok
proof (induction "nat (ft_count (cx_fds c))" arbitrary: c)
  case 0
  then have n: "ft_count (cx_fds c) = 0" using table_sizes [OF cx_table [OF 0(2)]] by simp
  have "table_map (cx_fds c) = Map.empty" by (rule empty_table_map [OF cx_table [OF 0(2)]]) (simp add: n)
  then show ?case using n by (subst destroy_loop.simps) simp
next
  case (Suc k)
  have n: "\<not> ft_count (cx_fds c) \<le> 0" using Suc(2) by linarith
  obtain sl i where sl: "slot_at 0 c = Some sl" "lookup_fd (sl_fd sl) c = Some (Some i)"
    "table_map (cx_fds c) (sl_fd sl) = Some i" by (rule slot_lookup [OF cx_table [OF Suc(3)], of 0]) (use n in auto)
  obtain d where d: "close_conn cfg i c = Some d" "cx_ok cfg d" "table_map (cx_fds d) = (table_map (cx_fds c))(sl_fd sl := None)"
    "cx_conns d = (cx_conns c)(i := None)" "ft_count (cx_fds d) = ft_count (cx_fds c) - 1"
    by (rule close_conn_ok [OF cfg Suc(3) sl(3)])
  have "k = nat (ft_count (cx_fds d))" using Suc(2) d(5) by linarith
  from Suc(1) [OF this d(2)] obtain c' where c': "destroy_loop cfg d = Some c'" "ft_count (cx_fds c') = 0"
    "\<forall>j. cx_conns c' j = (if j \<in> ran (table_map (cx_fds d)) then None else cx_conns d j)" by blast
  have "ran (table_map (cx_fds c)) = insert i (ran (table_map (cx_fds d)))"
  proof -
    have "table_map (cx_fds c) = (table_map (cx_fds d))(sl_fd sl \<mapsto> i)" using sl(3) by (auto simp: d(3))
    moreover have "table_map (cx_fds d) (sl_fd sl) = None" by (simp add: d(3))
    ultimately show ?thesis by simp
  qed
  then show ?case using c' d(1,4) sl n by (subst destroy_loop.simps) auto
qed

text \<open>C15: When the callbacks agree and there are no extensions, the loop of \<open>libwebsocket_context_destroy\<close> ends for any
  number of connections; it closes and frees every connection in the table, once, and no other.\<close>

theorem context_destroy_ends:
  assumes "plain_cfg cfg" "cx_ok cfg c"
  shows "\<exists>c'. destroy_loop cfg c = Some c' \<and> ft_count (cx_fds c') = 0 \<and>
    (\<forall>i. cx_conns c' i = (if i \<in> ran (table_map (cx_fds c)) then None else cx_conns c i))"
  using assms by (rule destroy_loop_ends)

section \<open>Timeouts\<close>

definition timed_out :: "int \<Rightarrow> 'x session \<Rightarrow> bool" where
  "timed_out now s \<longleftrightarrow> fst (ss_timeout s) \<noteq> NO_PENDING_TIMEOUT \<and> snd (ss_timeout s) < now"

text \<open>The reference given to the check: a slot of the table, one of the caller's, or none when no connection has
  descriptor 0.\<close>

definition ref_ok :: "poll_ref option \<Rightarrow> int \<Rightarrow> 'x lws_context \<Rightarrow> bool" where
  "ref_ok p our_fd c \<longleftrightarrow> (case p of None \<Rightarrow> table_map (cx_fds c) our_fd = None | Some (Slot k) \<Rightarrow> int k < ft_max (cx_fds c)
     | Some (Local fd ev) \<Rightarrow> True)"

lemma set_revents_keeps:
  assumes ok: "cx_ok cfg c" and k: "int k < ft_max (cx_fds c)"
  obtains c' where "set_revents k ev c = Some c'" "cx_ok cfg c'" "table_map (cx_fds c') = table_map (cx_fds c)"
    "cx_conns c' = cx_conns c" "ft_count (cx_fds c') = ft_count (cx_fds c)" "ft_max (cx_fds c') = ft_max (cx_fds c)"
    "ft_pos (cx_fds c') = ft_pos (cx_fds c)" "cx_fresh c' = cx_fresh c" "cx_listen_fd c' = cx_listen_fd c"
proof -
  have len: "k < length (ft_fds (cx_fds c))" using k table_sizes [OF cx_table [OF ok]] by linarith
  let ?fds = "(ft_fds (cx_fds c))[k := (ft_fds (cx_fds c) ! k)\<lparr>sl_revents := ev\<rparr>]"
  let ?c = "c\<lparr>cx_fds := (cx_fds c)\<lparr>ft_fds := ?fds\<rparr>\<rparr>"
  have "map sl_fd ?fds = map sl_fd (ft_fds (cx_fds c))" using len by (simp add: map_update list_update_same_conv)
  note same = same_fds_table [OF cx_table [OF ok] this]
  have "set_revents k ev c = Some ?c" using len by (simp add: set_revents_def slot_at_def access_simps)
  moreover have "cx_ok cfg ?c" using ok same by (simp add: cx_ok_def)
  ultimately show thesis using same by (intro that [of ?c]) simp_all
qed

lemma ref_done_keeps:
  assumes ok: "cx_ok cfg c" and p: "ref_ok (Some p) fd c"
  obtains c' where "ref_done p c = Some c'" "cx_ok cfg c'" "table_map (cx_fds c') = table_map (cx_fds c)"
    "cx_conns c' = cx_conns c" "ft_count (cx_fds c') = ft_count (cx_fds c)" "ft_max (cx_fds c') = ft_max (cx_fds c)"
    "ft_pos (cx_fds c') = ft_pos (cx_fds c)" "cx_fresh c' = cx_fresh c" "cx_listen_fd c' = cx_listen_fd c"
proof (cases p)
  case (Slot k)
  then have "int k < ft_max (cx_fds c)" using p by (simp add: ref_ok_def)
  then show thesis using that Slot set_revents_keeps [OF ok] by simp metis
next
  case (Local fd ev)
  then show thesis using that [of c] ok by simp
qed

lemma check_running:
  assumes cfg: "plain_cfg cfg" and ok: "cx_ok cfg c" and fd: "table_map (cx_fds c) fd = Some i"
    and s: "cx_conns c i = Some s" "\<not> timed_out now s"
  obtains c' v where "on_conn i (libwebsocket_service_timeout_check cfg now) c = Some (False, c')" "cx_ok cfg c'"
    "table_map (cx_fds c') = table_map (cx_fds c)" "cx_conns c' = (cx_conns c)(i \<mapsto> v)" "ss_timeout v = ss_timeout s"
    "ft_count (cx_fds c') = ft_count (cx_fds c)" "ft_max (cx_fds c') = ft_max (cx_fds c)" "ft_pos (cx_fds c') = ft_pos (cx_fds c)"
proof -
  obtain v where v: "load i c = Some v" "ss_fds v = cx_fds c" "ss_id v = ss_id s" "ss_sock v = ss_sock s" "ss_timeout v = ss_timeout s"
    "ss_exts v = ss_exts s" "closable cfg v = closable cfg s" by (rule load_Some [OF s(1)])
  have cl: "closable cfg s" "ss_id s = i" "ss_sock s = fd" using cx_conn [OF ok fd] s(1) by auto
  then have "libwebsocket_service_timeout_check cfg now v = Some (False, v)"
    using s(2) v by (auto simp: libwebsocket_service_timeout_check_def timed_out_def closable_def)
  then have eq: "on_conn i (libwebsocket_service_timeout_check cfg now) c = Some (False, store i v c)"
    using v(1) by (simp add: on_conn_def)
  have t: "table_ok (ss_fds v)" "table_map (ss_fds v) = table_map (cx_fds c)" using v(2) cx_table [OF ok] by simp_all
  note k = store_keeps [OF ok fd _ _ _ t] and ev = put_events_table [OF t(1), of i "session_events v"]
  have "cx_conns (store i v c) = (cx_conns c)(i \<mapsto> v)" using v cl by (simp add: store_def closable_def)
  then show thesis using that [OF eq] k v cl ev by (simp add: store_def)
qed

lemma check_expired:
  assumes cfg: "plain_cfg cfg" and ok: "cx_ok cfg c" and fd: "table_map (cx_fds c) fd = Some i"
    and s: "cx_conns c i = Some s" "timed_out now s"
  shows "on_conn i (libwebsocket_service_timeout_check cfg now) c = map_option (Pair True) (close_conn cfg i c)"
proof -
  obtain v where v: "load i c = Some v" "ss_timeout v = ss_timeout s" "ss_exts v = ss_exts s" "closable cfg v = closable cfg s"
    by (rule load_Some [OF s(1)])
  have "closable cfg s" using cx_conn [OF ok fd] s(1) by auto
  then have "libwebsocket_service_timeout_check cfg now v =
      map_option (Pair True) (libwebsocket_close_and_free_session cfg LWS_CLOSE_STATUS_NOSTATUS v)"
    using s(2) v by (auto simp: libwebsocket_service_timeout_check_def timed_out_def closable_def map_conv_bind_option comp_def)
  then show ?thesis using v(1)
    by (simp add: on_conn_def close_conn_def map_conv_bind_option comp_def bind_assoc split: Option.bind_split)
qed

text \<open>One round of the walk. The first kind of round leaves the table as it is; the second moves the last connection
  into the slot.\<close>

lemma timeout_round:
  assumes cfg: "plain_cfg cfg" and ok: "cx_ok cfg c" and p: "ref_ok p our_fd c" and n: "int n < ft_count (cx_fds c)"
  obtains fd i s c' b where "table_map (cx_fds c) fd = Some i" "ft_pos (cx_fds c) i = int n" "cx_conns c i = Some s"
    "timeout_loop cfg now p our_fd n t c = timeout_loop cfg now p our_fd (n + 1) b c'" "cx_ok cfg c'" "ref_ok p our_fd c'"
    "ft_max (cx_fds c') = ft_max (cx_fds c)"
    "if timed_out now s
     then table_map (cx_fds c') = (table_map (cx_fds c))(fd := None) \<and> cx_conns c' = (cx_conns c)(i := None) \<and>
       ft_count (cx_fds c') = ft_count (cx_fds c) - 1 \<and>
       (\<forall>x j. table_map (cx_fds c') x = Some j \<longrightarrow>
          ft_pos (cx_fds c') j = (if ft_pos (cx_fds c) j = ft_count (cx_fds c) - 1 then int n else ft_pos (cx_fds c) j))
     else table_map (cx_fds c') = table_map (cx_fds c) \<and> (\<exists>v. cx_conns c' = (cx_conns c)(i \<mapsto> v) \<and> ss_timeout v = ss_timeout s) \<and>
       ft_count (cx_fds c') = ft_count (cx_fds c) \<and> ft_pos (cx_fds c') = ft_pos (cx_fds c)"
proof -
  have n': "\<not> ft_count (cx_fds c) \<le> int n" "n < nat (ft_count (cx_fds c))" using n by linarith+
  obtain sl i where sl: "slot_at n c = Some sl" "lookup_fd (sl_fd sl) c = Some (Some i)"
    "table_map (cx_fds c) (sl_fd sl) = Some i" "ft_pos (cx_fds c) i = int n" by (rule slot_lookup [OF cx_table [OF ok] n'(2)])
  obtain s where s: "cx_conns c i = Some s" by (rule cx_conn [OF ok sl(3)])
  show thesis
  proof (cases "timed_out now s")
    case False
    obtain c' v where c': "on_conn i (libwebsocket_service_timeout_check cfg now) c = Some (False, c')" "cx_ok cfg c'"
      "table_map (cx_fds c') = table_map (cx_fds c)" "cx_conns c' = (cx_conns c)(i \<mapsto> v)" "ss_timeout v = ss_timeout s"
      "ft_count (cx_fds c') = ft_count (cx_fds c)" "ft_max (cx_fds c') = ft_max (cx_fds c)" "ft_pos (cx_fds c') = ft_pos (cx_fds c)"
      by (rule check_running [OF cfg ok sl(3) s False])
    have eq: "timeout_loop cfg now p our_fd n t c = timeout_loop cfg now p our_fd (n + 1) t c'"
      using n' sl c'(1) by (subst timeout_loop.simps) simp
    have "ref_ok p our_fd c'" using p c' by (simp add: ref_ok_def split: option.splits poll_ref.splits)
    then show thesis by (rule that [OF sl(3,4) s eq c'(2) _ c'(7)]) (use False c' in auto)
  next
    case True
    obtain d where d: "close_conn cfg i c = Some d" "cx_ok cfg d" "table_map (cx_fds d) = (table_map (cx_fds c))(sl_fd sl := None)"
      "cx_conns d = (cx_conns c)(i := None)" "ft_count (cx_fds d) = ft_count (cx_fds c) - 1" "ft_max (cx_fds d) = ft_max (cx_fds c)"
      "\<And>x j. table_map (cx_fds d) x = Some j \<Longrightarrow> ft_pos (cx_fds d) j =
        (if ft_pos (cx_fds c) j = ft_count (cx_fds c) - 1 then ft_pos (cx_fds c) i else ft_pos (cx_fds c) j)"
      by (rule close_conn_ok [OF cfg ok sl(3)]) blast
    have chk: "on_conn i (libwebsocket_service_timeout_check cfg now) c = Some (True, d)"
      using check_expired [OF cfg ok sl(3) s True] d(1) by simp
    have pd: "ref_ok p our_fd d" using p d by (simp add: ref_ok_def split: option.splits poll_ref.splits)
    show thesis
    proof (cases "sl_fd sl = our_fd")
      case False
      then have eq: "timeout_loop cfg now p our_fd n t c = timeout_loop cfg now p our_fd (n + 1) t d"
        using n' sl chk by (subst timeout_loop.simps) simp
      show thesis by (rule that [OF sl(3,4) s eq d(2) pd d(6)]) (use True sl(4) d in auto)
    next
      case ours: True
      then obtain q where q: "p = Some q" using p sl(3) by (cases p) (auto simp: ref_ok_def)
      obtain e where e: "ref_done q d = Some e" "cx_ok cfg e" "table_map (cx_fds e) = table_map (cx_fds d)" "cx_conns e = cx_conns d"
        "ft_count (cx_fds e) = ft_count (cx_fds d)" "ft_max (cx_fds e) = ft_max (cx_fds d)" "ft_pos (cx_fds e) = ft_pos (cx_fds d)"
        by (rule ref_done_keeps [OF d(2) pd [unfolded q]])
      have eq: "timeout_loop cfg now p our_fd n t c = timeout_loop cfg now p our_fd (n + 1) True e"
        using n' sl chk e(1) q ours by (subst timeout_loop.simps) simp
      have "ref_ok p our_fd e" "ft_max (cx_fds e) = ft_max (cx_fds c)"
        using pd d(6) e by (simp_all add: ref_ok_def split: option.splits poll_ref.splits)
      then show thesis by (rule that [OF sl(3,4) s eq e(2)]) (use True sl(4) d e in auto)
    qed
  qed
qed

text \<open>The connections that went had expired; those that stay have their timeouts and their descriptors.\<close>

definition closes_expired :: "int \<Rightarrow> 'x lws_context \<Rightarrow> 'x lws_context \<Rightarrow> bool" where
  "closes_expired now c c' \<longleftrightarrow>
     (\<forall>j s. cx_conns c j = Some s \<longrightarrow> (\<exists>v. cx_conns c' j = Some v \<and> ss_timeout v = ss_timeout s) \<or>
        cx_conns c' j = None \<and> timed_out now s) \<and>
     (\<forall>j. cx_conns c j = None \<longrightarrow> cx_conns c' j = None) \<and>
     (\<forall>fd. table_map (cx_fds c') fd = (case table_map (cx_fds c) fd of None \<Rightarrow> None
        | Some j \<Rightarrow> if cx_conns c' j = None then None else Some j))"

lemma closes_expired_refl: "cx_ok cfg c \<Longrightarrow> closes_expired now c c"
  by (fastforce simp: closes_expired_def elim: cx_conn split: option.split)

lemma closes_expired_trans:
  assumes "closes_expired now a b" "closes_expired now b c" shows "closes_expired now a c"
proof -
  have t: "timed_out now v = timed_out now s" if "ss_timeout v = ss_timeout s" for v s :: "'a session"
    using that by (simp add: timed_out_def)
  show ?thesis
    unfolding closes_expired_def
  proof (intro conjI allI impI)
    fix j s assume "cx_conns a j = Some s"
    then show "(\<exists>v. cx_conns c j = Some v \<and> ss_timeout v = ss_timeout s) \<or> cx_conns c j = None \<and> timed_out now s"
    proof (cases "cx_conns b j")
      case None
      then have "timed_out now s" using assms(1) \<open>cx_conns a j = Some s\<close> unfolding closes_expired_def by fastforce
      moreover have "cx_conns c j = None" using assms(2) None unfolding closes_expired_def by blast
      ultimately show ?thesis by simp
    next
      case (Some v)
      then have "ss_timeout v = ss_timeout s" using assms(1) \<open>cx_conns a j = Some s\<close> by (force simp: closes_expired_def)
      moreover have "(\<exists>u. cx_conns c j = Some u \<and> ss_timeout u = ss_timeout v) \<or> cx_conns c j = None \<and> timed_out now v"
        using assms(2) Some by (simp add: closes_expired_def)
      ultimately show ?thesis using t [of v s] by simp
    qed
  next
    fix j assume "cx_conns a j = None"
    then show "cx_conns c j = None" using assms unfolding closes_expired_def by blast
  next
    fix fd
    have "table_map (cx_fds b) fd = (case table_map (cx_fds a) fd of None \<Rightarrow> None | Some j \<Rightarrow> if cx_conns b j = None then None else Some j)"
      "table_map (cx_fds c) fd = (case table_map (cx_fds b) fd of None \<Rightarrow> None | Some j \<Rightarrow> if cx_conns c j = None then None else Some j)"
      "\<And>j. cx_conns b j = None \<Longrightarrow> cx_conns c j = None" using assms unfolding closes_expired_def by blast+
    then show "table_map (cx_fds c) fd = (case table_map (cx_fds a) fd of None \<Rightarrow> None
        | Some j \<Rightarrow> if cx_conns c j = None then None else Some j)" by (simp split: option.split)
  qed
qed

lemma round_closes_expired:
  assumes ok: "cx_ok cfg c" and fd: "table_map (cx_fds c) fd = Some i" and s: "cx_conns c i = Some s"
    and go: "timed_out now s \<Longrightarrow> table_map (cx_fds c') = (table_map (cx_fds c))(fd := None) \<and> cx_conns c' = (cx_conns c)(i := None)"
    and stay: "\<not> timed_out now s \<Longrightarrow> table_map (cx_fds c') = table_map (cx_fds c) \<and>
      (\<exists>v. cx_conns c' = (cx_conns c)(i \<mapsto> v) \<and> ss_timeout v = ss_timeout s)"
  shows "closes_expired now c c'"
proof -
  have there: "cx_conns c j \<noteq> None" if "table_map (cx_fds c) x = Some j" for x j using cx_conn [OF ok that] by auto
  have other: "x = fd" if "table_map (cx_fds c) x = Some i" for x using table_map_inj [OF cx_table [OF ok] that fd] .
  show ?thesis
    unfolding closes_expired_def
  proof (intro conjI allI impI)
    fix j v assume "cx_conns c j = Some v"
    then show "(\<exists>u. cx_conns c' j = Some u \<and> ss_timeout u = ss_timeout v) \<or> cx_conns c' j = None \<and> timed_out now v"
      using go stay s by (cases "j = i"; cases "timed_out now s") auto
  next
    fix j assume "cx_conns c j = None"
    then show "cx_conns c' j = None" using go stay s by (cases "timed_out now s") auto
  next
    fix x
    show "table_map (cx_fds c') x = (case table_map (cx_fds c) x of None \<Rightarrow> None | Some j \<Rightarrow> if cx_conns c' j = None then None else Some j)"
    proof (cases "timed_out now s")
      case True
      then have c': "table_map (cx_fds c') = (table_map (cx_fds c))(fd := None)" "cx_conns c' = (cx_conns c)(i := None)"
        using go by blast+
      show ?thesis using there [of x] other [of x] fd unfolding c' by (cases "table_map (cx_fds c) x") auto
    next
      case False
      then obtain u where c': "table_map (cx_fds c') = table_map (cx_fds c)" "cx_conns c' = (cx_conns c)(i \<mapsto> u)"
        using stay by blast
      show ?thesis using there [of x] unfolding c' by (cases "table_map (cx_fds c) x") auto
    qed
  qed
qed

lemma timeout_loop_closes:
  assumes "plain_cfg cfg" "cx_ok cfg c" "ref_ok p our_fd c"
  shows "\<exists>r c'. timeout_loop cfg now p our_fd n t c = Some (r, c') \<and> cx_ok cfg c' \<and> closes_expired now c c' \<and>
    ((\<exists>fd j s. table_map (cx_fds c) fd = Some j \<and> int n \<le> ft_pos (cx_fds c) j \<and> cx_conns c j = Some s \<and> timed_out now s) \<longrightarrow>
       (\<exists>j s. cx_conns c j = Some s \<and> timed_out now s \<and> cx_conns c' j = None))"
  using assms(2,3)
proof (induction "nat (ft_count (cx_fds c)) - n" arbitrary: n t c rule: less_induct)
  case less
  show ?case
  proof (cases "ft_count (cx_fds c) \<le> int n")
    case True
    then have "timeout_loop cfg now p our_fd n t c = Some (t, c)" by (subst timeout_loop.simps) simp
    moreover have "ft_pos (cx_fds c) j < int n" if "table_map (cx_fds c) fd = Some j" for fd j
      using table_mapD [OF cx_table [OF less(2)] that] True by (metis zless_nat_eq_int_zless less_le_trans of_nat_less_iff)
    ultimately show ?thesis using less(2) closes_expired_refl [OF less(2)] by fastforce
  next
    case False
    then have n: "int n < ft_count (cx_fds c)" by simp
    obtain fd i s c1 b where 1: "table_map (cx_fds c) fd = Some i" "ft_pos (cx_fds c) i = int n" "cx_conns c i = Some s"
      and eq: "timeout_loop cfg now p our_fd n t c = timeout_loop cfg now p our_fd (n + 1) b c1" and c1: "cx_ok cfg c1" "ref_ok p our_fd c1"
      and step: "if timed_out now s
         then table_map (cx_fds c1) = (table_map (cx_fds c))(fd := None) \<and> cx_conns c1 = (cx_conns c)(i := None) \<and>
           ft_count (cx_fds c1) = ft_count (cx_fds c) - 1 \<and> (\<forall>x j. table_map (cx_fds c1) x = Some j \<longrightarrow>
             ft_pos (cx_fds c1) j = (if ft_pos (cx_fds c) j = ft_count (cx_fds c) - 1 then int n else ft_pos (cx_fds c) j))
         else table_map (cx_fds c1) = table_map (cx_fds c) \<and> (\<exists>v. cx_conns c1 = (cx_conns c)(i \<mapsto> v) \<and> ss_timeout v = ss_timeout s) \<and>
           ft_count (cx_fds c1) = ft_count (cx_fds c) \<and> ft_pos (cx_fds c1) = ft_pos (cx_fds c)"
      by (rule timeout_round [OF assms(1) less(2,3) n]) blast
    have cl: "closes_expired now c c1" by (rule round_closes_expired [OF less(2) 1(1,3)]) (use step in \<open>auto split: if_splits\<close>)
    have "ft_count (cx_fds c1) \<le> ft_count (cx_fds c)" using step by (auto split: if_splits)
    then have "nat (ft_count (cx_fds c1)) - (n + 1) < nat (ft_count (cx_fds c)) - n" using n by linarith
    from less(1) [OF this c1] obtain r c' where c': "timeout_loop cfg now p our_fd (n + 1) b c1 = Some (r, c')" "cx_ok cfg c'"
      "closes_expired now c1 c'" and
      prog: "(\<exists>fd j s. table_map (cx_fds c1) fd = Some j \<and> int (n + 1) \<le> ft_pos (cx_fds c1) j \<and> cx_conns c1 j = Some s \<and> timed_out now s) \<Longrightarrow>
        \<exists>j s. cx_conns c1 j = Some s \<and> timed_out now s \<and> cx_conns c' j = None" by blast
    have "\<exists>j s. cx_conns c j = Some s \<and> timed_out now s \<and> cx_conns c' j = None"
      if ex: "table_map (cx_fds c) fd' = Some j" "int n \<le> ft_pos (cx_fds c) j" "cx_conns c j = Some v" "timed_out now v" for fd' j v
    proof (cases "timed_out now s")
      case True
      then have "cx_conns c1 i = None" using step by simp
      then have "cx_conns c' i = None" using c'(3) by (simp add: closes_expired_def)
      then show ?thesis using 1(3) True by blast
    next
      case False
      then have eqs: "table_map (cx_fds c1) = table_map (cx_fds c)" "ft_pos (cx_fds c1) = ft_pos (cx_fds c)"
        and conns: "\<exists>u. cx_conns c1 = (cx_conns c)(i \<mapsto> u) \<and> ss_timeout u = ss_timeout s" using step by auto
      have "j \<noteq> i" using ex(3,4) 1(3) False by auto
      moreover have "ft_pos (cx_fds c) j \<noteq> int n"
        using table_mapD [OF cx_table [OF less(2)] ex(1)] table_mapD [OF cx_table [OF less(2)] 1(1)] 1(2) \<open>j \<noteq> i\<close> ex(1) 1(1)
        by (metis of_nat_eq_iff option.inject)
      ultimately obtain k u where k: "cx_conns c1 k = Some u" "timed_out now u" "cx_conns c' k = None"
        using ex eqs conns prog by fastforce
      have "k \<noteq> i" using k(1,2) conns False by (auto simp: timed_out_def)
      then have "cx_conns c k = Some u" using k(1) conns by auto
      then show ?thesis using k(2,3) by blast
    qed
    then show ?thesis using eq c' closes_expired_trans [OF cl c'(3)] by auto
  qed
qed

text \<open>C16: The check of the timeouts ends and is defined for any table; it closes only connections whose time is up, leaves
  the others, their timeouts and their descriptors as they are, and closes at least one when one has expired.\<close>

theorem timeouts_close_only_expired:
  assumes "plain_cfg cfg" "cx_ok cfg c" "ref_ok p our_fd c"
  shows "\<exists>r c'. timeout_loop cfg now p our_fd 0 False c = Some (r, c') \<and> cx_ok cfg c' \<and> closes_expired now c c' \<and>
    ((\<exists>fd j s. table_map (cx_fds c) fd = Some j \<and> cx_conns c j = Some s \<and> timed_out now s) \<longrightarrow>
       (\<exists>j s. cx_conns c j = Some s \<and> timed_out now s \<and> cx_conns c' j = None))"
proof -
  have "int 0 \<le> ft_pos (cx_fds c) j" if "table_map (cx_fds c) fd = Some j" for fd j
    by (rule table_mapD [OF cx_table [OF assms(2)] that]) simp
  then show ?thesis using timeout_loop_closes [OF assms, of now 0 False] by blast
qed

lemma passed_survives:
  assumes "plain_cfg cfg" "cx_ok cfg c" "ref_ok p our_fd c" "table_map (cx_fds c) x = Some j" "ft_pos (cx_fds c) j < int n"
    and "timeout_loop cfg now p our_fd n t c = Some (r, c')"
  shows "cx_conns c' j \<noteq> None"
  using assms(2-)
proof (induction "nat (ft_count (cx_fds c)) - n" arbitrary: n t c rule: less_induct)
  case less
  show ?case
  proof (cases "ft_count (cx_fds c) \<le> int n")
    case True
    then have "timeout_loop cfg now p our_fd n t c = Some (t, c)" by (subst timeout_loop.simps) simp
    then show ?thesis using less(6) cx_conn [OF less(2,4)] by auto
  next
    case False
    then have n: "int n < ft_count (cx_fds c)" by simp
    obtain fd i s c1 b where 1: "table_map (cx_fds c) fd = Some i" "ft_pos (cx_fds c) i = int n" "cx_conns c i = Some s"
      and eq: "timeout_loop cfg now p our_fd n t c = timeout_loop cfg now p our_fd (n + 1) b c1" and c1: "cx_ok cfg c1" "ref_ok p our_fd c1"
      and step: "if timed_out now s
         then table_map (cx_fds c1) = (table_map (cx_fds c))(fd := None) \<and> cx_conns c1 = (cx_conns c)(i := None) \<and>
           ft_count (cx_fds c1) = ft_count (cx_fds c) - 1 \<and> (\<forall>x j. table_map (cx_fds c1) x = Some j \<longrightarrow>
             ft_pos (cx_fds c1) j = (if ft_pos (cx_fds c) j = ft_count (cx_fds c) - 1 then int n else ft_pos (cx_fds c) j))
         else table_map (cx_fds c1) = table_map (cx_fds c) \<and> (\<exists>v. cx_conns c1 = (cx_conns c)(i \<mapsto> v) \<and> ss_timeout v = ss_timeout s) \<and>
           ft_count (cx_fds c1) = ft_count (cx_fds c) \<and> ft_pos (cx_fds c1) = ft_pos (cx_fds c)"
      by (rule timeout_round [OF assms(1) less(2,3) n]) blast
    have "j \<noteq> i" using less(5) 1(2) by auto
    then have "x \<noteq> fd" using less(4) 1(1) by auto
    then have j: "table_map (cx_fds c1) x = Some j" "ft_count (cx_fds c1) \<le> ft_count (cx_fds c)"
      using step less(4) by (auto split: if_splits)
    have pos: "ft_pos (cx_fds c1) j < int (n + 1)"
    proof (cases "timed_out now s")
      case True
      then have "ft_pos (cx_fds c1) j = (if ft_pos (cx_fds c) j = ft_count (cx_fds c) - 1 then int n else ft_pos (cx_fds c) j)"
        using step j(1) by meson
      then show ?thesis using less(5) by (simp split: if_splits)
    next
      case False
      then show ?thesis using step less(5) by simp
    qed
    have "nat (ft_count (cx_fds c1)) - (n + 1) < nat (ft_count (cx_fds c)) - n" using j(2) n by linarith
    from less(1) [OF this c1 j(1) pos] less(6) eq show ?thesis by simp
  qed
qed

lemma last_moves_past:
  assumes "plain_cfg cfg" "cx_ok cfg c" "ref_ok p our_fd c"
    and "table_map (cx_fds c) y = Some k" "int n \<le> ft_pos (cx_fds c) k" "ft_pos (cx_fds c) k < ft_count (cx_fds c) - 1"
    and "cx_conns c k = Some u" "timed_out now u"
    and "table_map (cx_fds c) x = Some j" "ft_pos (cx_fds c) j = ft_count (cx_fds c) - 1"
    and "timeout_loop cfg now p our_fd n t c = Some (r, c')"
  shows "cx_conns c' j \<noteq> None"
  using assms(2-)
proof (induction "nat (ft_count (cx_fds c)) - n" arbitrary: n t c u rule: less_induct)
  case less
  have n: "int n < ft_count (cx_fds c)" using less(5,6) by linarith
  obtain fd i s c1 b where 1: "table_map (cx_fds c) fd = Some i" "ft_pos (cx_fds c) i = int n" "cx_conns c i = Some s"
    and eq: "timeout_loop cfg now p our_fd n t c = timeout_loop cfg now p our_fd (n + 1) b c1" and c1: "cx_ok cfg c1" "ref_ok p our_fd c1"
    and step: "if timed_out now s
       then table_map (cx_fds c1) = (table_map (cx_fds c))(fd := None) \<and> cx_conns c1 = (cx_conns c)(i := None) \<and>
         ft_count (cx_fds c1) = ft_count (cx_fds c) - 1 \<and> (\<forall>x j. table_map (cx_fds c1) x = Some j \<longrightarrow>
           ft_pos (cx_fds c1) j = (if ft_pos (cx_fds c) j = ft_count (cx_fds c) - 1 then int n else ft_pos (cx_fds c) j))
       else table_map (cx_fds c1) = table_map (cx_fds c) \<and> (\<exists>v. cx_conns c1 = (cx_conns c)(i \<mapsto> v) \<and> ss_timeout v = ss_timeout s) \<and>
         ft_count (cx_fds c1) = ft_count (cx_fds c) \<and> ft_pos (cx_fds c1) = ft_pos (cx_fds c)"
    by (rule timeout_round [OF assms(1) less(2,3) n]) blast
  have "ft_pos (cx_fds c) i \<noteq> ft_pos (cx_fds c) j" using 1(2) less(5,6,10) by linarith
  then have ij: "i \<noteq> j" "x \<noteq> fd" using 1(1) less(9) by auto
  show ?case
  proof (cases "timed_out now s")
    case True
    then have "table_map (cx_fds c1) x = Some j" using step ij(2) less(9) by auto
    moreover have "ft_pos (cx_fds c1) j < int (n + 1)" using True step calculation less(10) by auto
    ultimately show ?thesis using passed_survives [OF assms(1) c1, of x j "n + 1" now b r c'] less(11) eq by simp
  next
    case False
    then have c1': "table_map (cx_fds c1) = table_map (cx_fds c)" "ft_count (cx_fds c1) = ft_count (cx_fds c)"
      "ft_pos (cx_fds c1) = ft_pos (cx_fds c)" and v: "\<exists>v. cx_conns c1 = (cx_conns c)(i \<mapsto> v) \<and> ss_timeout v = ss_timeout s"
      using step by auto
    have k: "k \<noteq> i" using less(7,8) 1(3) False by auto
    have "ft_pos (cx_fds c) k \<noteq> int n"
    proof
      assume "ft_pos (cx_fds c) k = int n"
      then have "y = fd" using table_mapD [OF cx_table [OF less(2)] less(4)] table_mapD [OF cx_table [OF less(2)] 1(1)] 1(2)
        by (metis of_nat_eq_iff)
      then show False using less(4) 1(1) k by simp
    qed
    then have "int (n + 1) \<le> ft_pos (cx_fds c1) k" using less(5) c1'(3) by simp
    moreover have "cx_conns c1 k = Some u" using v k less(7) by auto
    moreover have "nat (ft_count (cx_fds c1)) - (n + 1) < nat (ft_count (cx_fds c)) - n" using c1'(2) n by linarith
    ultimately show ?thesis using less(1) [OF _ c1, of "n + 1" u b] less(4,6,8-11) c1' eq by simp
  qed
qed

text \<open>C35: When any connection but that of the last slot has timed out, the check of this second does not look at the one of
  the last slot, which is moved into the place that was checked: it stays even when its time is up.\<close>

theorem timeouts_skip_the_last:
  assumes "plain_cfg cfg" "cx_ok cfg c" "ref_ok p our_fd c"
    and "table_map (cx_fds c) fd = Some i" "ft_pos (cx_fds c) i < ft_count (cx_fds c) - 1" "cx_conns c i = Some s" "timed_out now s"
    and "table_map (cx_fds c) fd' = Some j" "ft_pos (cx_fds c) j = ft_count (cx_fds c) - 1"
  shows "\<exists>r c'. timeout_loop cfg now p our_fd 0 False c = Some (r, c') \<and> cx_conns c' j \<noteq> None"
proof -
  obtain r c' where "timeout_loop cfg now p our_fd 0 False c = Some (r, c')" using timeout_loop_closes [OF assms(1-3)] by blast
  moreover have "int 0 \<le> ft_pos (cx_fds c) i" by (rule table_mapD [OF cx_table [OF assms(2)] assms(4)]) simp
  ultimately show ?thesis using last_moves_past [OF assms(1-4) _ assms(5-9)] by blast
qed

section \<open>A context with two connections\<close>

definition demo_conn :: "nat \<Rightarrow> int \<Rightarrow> unit session" where
  "demo_conn i fd = (demo_session LWS_CONNMODE_WS_SERVING WSI_STATE_ESTABLISHED [] 13 (Some 0) demo_store)
     \<lparr>ss_id := i, ss_sock := fd, ss_ah := Ah_null, ss_timeout := (PENDING_TIMEOUT_AWAITING_PING, 10)\<rparr>"

definition demo_context :: "unit lws_context" where
  "demo_context = \<lparr>cx_conns = [0 \<mapsto> demo_conn 0 2, 1 \<mapsto> demo_conn 1 1], cx_fresh = 2, cx_blank = (\<lambda>i. demo_server),
     cx_fds = \<lparr>ft_fds = [\<lparr>sl_fd = 2, sl_events = 1, sl_revents = 0\<rparr>, \<lparr>sl_fd = 1, sl_events = 1, sl_revents = 0\<rparr>,
         \<lparr>sl_fd = 0, sl_events = 0, sl_revents = 0\<rparr>],
       ft_lookup = [None, Some 1, Some 0], ft_count = 2, ft_max = 3, ft_pos = (\<lambda>i. int i)\<rparr>,
     cx_service = replicate LWS_MAX_SOCKET_IO_BUF 0, cx_now = 0, cx_last_check = 0, cx_listen_fd = 0, cx_listen_count = 0,
     cx_listen_modulo = 0, cx_extraseen = 0, cx_proxy = None, cx_iface = False,
     cx_sys = (\<lambda>_. \<lparr>sa_ret = 0, sa_errno = 0, sa_data = []\<rparr>), cx_calls = 0\<rparr>"

lemma demo_plain: "plain_cfg demo_cfg"
  by (simp add: plain_cfg_def demo_cfg_def new_cfg_def)

lemma demo_closable: "closable demo_cfg (demo_conn i fd)"
  by (simp add: closable_def demo_conn_def demo_session_def new_wsi_def demo_cfg_def)

lemma demo_map: "table_map (cx_fds demo_context) = [2 \<mapsto> 0, 1 \<mapsto> 1]"
  by (rule ext) (simp add: table_map_def demo_context_def)

lemma demo_context_ok: "cx_ok demo_cfg demo_context"
  unfolding cx_ok_def
proof (intro conjI allI impI)
  show "table_ok (cx_fds demo_context)" by (auto simp: table_ok_def demo_context_def less_2_cases_iff)
next
  fix fd i assume "table_map (cx_fds demo_context) fd = Some i"
  then show "\<exists>s. cx_conns demo_context i = Some s \<and> closable demo_cfg s \<and> ss_id s = i \<and> ss_sock s = fd"
  proof -
    have "fd = 2 \<and> i = 0 \<or> fd = 1 \<and> i = 1" using \<open>table_map (cx_fds demo_context) fd = Some i\<close>
      by (auto simp: demo_map split: if_splits)
    moreover have "cx_conns demo_context 0 = Some (demo_conn 0 2)" "cx_conns demo_context 1 = Some (demo_conn 1 1)"
      by (simp_all add: demo_context_def)
    moreover have "ss_id (demo_conn i fd) = i" "ss_sock (demo_conn i fd) = fd" by (simp_all add: demo_conn_def)
    ultimately show ?thesis using demo_closable by auto
  qed
next
  fix i s assume "cx_conns demo_context i = Some s"
  then show "i < cx_fresh demo_context" by (auto simp: demo_context_def split: if_splits)
qed

lemma demo_expired: "timed_out 20 (demo_conn i fd)"
  by (simp add: timed_out_def demo_conn_def)

lemma context_destroy_ends_witness:
  "\<exists>c'. destroy_loop demo_cfg demo_context = Some c' \<and> cx_conns c' 0 = None \<and> cx_conns c' 1 = None"
  using context_destroy_ends [OF demo_plain demo_context_ok] by (auto simp: demo_map)

lemma demo_ref: "ref_ok None 0 demo_context"
  by (simp add: ref_ok_def demo_map)

lemma timeouts_close_only_expired_witness:
  "\<exists>r c'. timeout_loop demo_cfg 20 None 0 0 False demo_context = Some (r, c') \<and> (\<exists>j s. cx_conns demo_context j = Some s \<and> cx_conns c' j = None)"
proof -
  have "table_map (cx_fds demo_context) 2 = Some 0 \<and> cx_conns demo_context 0 = Some (demo_conn 0 2) \<and> timed_out 20 (demo_conn 0 2)"
    using demo_expired by (simp add: demo_map) (simp add: demo_context_def)
  then show ?thesis using timeouts_close_only_expired [OF demo_plain demo_context_ok demo_ref, of 20] by blast
qed

lemma timeouts_skip_the_last_witness:
  "timed_out 20 (demo_conn 1 1) \<and> cx_conns demo_context 1 = Some (demo_conn 1 1) \<and>
   (\<exists>r c'. timeout_loop demo_cfg 20 None 0 0 False demo_context = Some (r, c') \<and> cx_conns c' 1 \<noteq> None)"
proof -
  have c: "cx_conns demo_context 0 = Some (demo_conn 0 2)" "cx_conns demo_context 1 = Some (demo_conn 1 1)"
    "ft_pos (cx_fds demo_context) 0 < ft_count (cx_fds demo_context) - 1" "ft_pos (cx_fds demo_context) 1 = ft_count (cx_fds demo_context) - 1"
    by (simp_all add: demo_context_def)
  have m: "table_map (cx_fds demo_context) 2 = Some 0" "table_map (cx_fds demo_context) 1 = Some 1" by (simp_all add: demo_map)
  show ?thesis
    using timeouts_skip_the_last [OF demo_plain demo_context_ok demo_ref m(1) c(3,1) demo_expired m(2) c(4)] demo_expired c(2) by blast
qed

end
