(* ===== verification/Connect.thy ===== *)
theory Connect
  imports Context_Facts
begin

text \<open>
  Connections that come and go: what the listening socket accepts is ready for a request, what is connected sends
  its request at once, and a host name that is not found the second time leaves a freed connection in the table.
\<close>

section \<open>Operations on one connection of a context\<close>

text \<open>The members of a context that an operation on a connection leaves alone.\<close>

definition same_rest :: "'x lws_context \<Rightarrow> 'x lws_context \<Rightarrow> bool" where
  "same_rest c c' \<longleftrightarrow> cx_fresh c' = cx_fresh c \<and> cx_blank c' = cx_blank c \<and> cx_now c' = cx_now c \<and>
     cx_last_check c' = cx_last_check c \<and> cx_listen_fd c' = cx_listen_fd c \<and> cx_listen_count c' = cx_listen_count c \<and>
     cx_listen_modulo c' = cx_listen_modulo c \<and> cx_extraseen c' = cx_extraseen c \<and> cx_proxy c' = cx_proxy c \<and>
     cx_iface c' = cx_iface c \<and> cx_sys c' = cx_sys c \<and> cx_calls c' = cx_calls c"

lemma same_rest_store: "same_rest c (store i s c)"
  by (simp add: same_rest_def store_def)

lemma same_rest_trans: "same_rest a b \<Longrightarrow> same_rest b c \<Longrightarrow> same_rest a c"
  by (simp add: same_rest_def)

definition in_slots :: "nat \<Rightarrow> fd_table \<Rightarrow> bool" where
  "in_slots i t \<longleftrightarrow> 0 \<le> ft_pos t i \<and> nat (ft_pos t i) < length (ft_fds t)"

lemma session_events_bits: "bit (session_events s) 0 = ws_pollin (ss_ws s)" "bit (session_events s) 2 = ws_pollout (ss_ws s)"
  by (simp_all add: session_events_def bit_simps)

lemma load_store:
  assumes "\<not> ss_gone s" "ss_now s = cx_now c" "in_slots i (ss_fds s)"
  shows "load i (store i s c) = Some (s\<lparr>ss_fds := put_events i (session_events s) (ss_fds s)\<rparr>)"
proof -
  have "slot_events i (store i s c) = session_events s"
    using assms(3) by (simp add: slot_events_def store_def put_events_def in_slots_def access_simps Let_def)
  then show ?thesis using assms(1,2) by (simp add: load_def store_def session_events_bits)
qed

lemma on_conn_step:
  assumes "load i c = Some s" "f s = Some (r, s')" "\<not> ss_gone s'" "ss_now s' = ss_now s" "in_slots i (ss_fds s')"
  obtains c' where "on_conn i f c = Some (r, c')" "load i c' = Some (s'\<lparr>ss_fds := put_events i (session_events s') (ss_fds s')\<rparr>)"
    "cx_fds c' = put_events i (session_events s') (ss_fds s')" "same_rest c c'" "cx_service c' = ss_service s'"
    "\<And>j. j \<noteq> i \<Longrightarrow> cx_conns c' j = cx_conns c j" "cx_conns c' i = Some s'"
proof -
  have now: "ss_now s = cx_now c" using assms(1) by (auto simp: load_def)
  show thesis
    by (rule that [of "store i s' c"])
      (use assms now load_store [OF assms(3) _ assms(5)] in \<open>simp_all add: on_conn_def store_def same_rest_def\<close>)
qed

lemma put_events_slots: "in_slots i (put_events j ev t) = in_slots i t"
  by (simp add: in_slots_def put_events_def Let_def)

lemma load_calls: "load i (c\<lparr>cx_calls := n\<rparr>) = load i c"
  by (simp add: load_def slot_events_def Let_def cong: if_cong)

section \<open>New connections\<close>

text \<open>The memory of a connection and of its header table.\<close>

definition blank_ok :: "'x session \<Rightarrow> bool" where
  "blank_ok t \<longleftrightarrow> length (ah_frags (hdr_ah (ss_hdr t))) = HDR_FRAGS \<and> length (ah_data (hdr_ah (ss_hdr t))) = LWS_MAX_HEADER_LEN \<and>
     length (ss_expected t) = 30 \<and> ss_sockopts t = [] \<and> ws_mallocs (ss_ws t) = []"

lemma reposition_table:
  assumes "table_ok t" "j \<notin> ran (table_map t)"
  shows "table_ok (t\<lparr>ft_pos := (ft_pos t)(j := p)\<rparr>)" "table_map (t\<lparr>ft_pos := (ft_pos t)(j := p)\<rparr>) = table_map t"
proof -
  have "w \<noteq> j" if "i < nat (ft_count t)" "ft_lookup t ! nat (sl_fd (ft_fds t ! i)) = Some w" for i w
    using table_slot [OF assms(1) that(1)] that(2) assms(2) by (metis option.inject ranI)
  then show "table_ok (t\<lparr>ft_pos := (ft_pos t)(j := p)\<rparr>)" using assms(1) unfolding table_ok_def by auto metis
  show "table_map (t\<lparr>ft_pos := (ft_pos t)(j := p)\<rparr>) = table_map t" by (rule ext) (simp add: table_map_def)
qed

lemma fresh_table:
  assumes "length (ah_frags ah) = HDR_FRAGS" "length (ah_data ah) = LWS_MAX_HEADER_LEN"
  shows "ah_ok (lws_allocate_header_table ah)" "cur_sealed (lws_allocate_header_table ah)"
    "h < WSI_TOKEN_COUNT \<Longrightarrow> absent (lws_allocate_header_table ah) h"
  using assms by (simp_all add: lws_allocate_header_table_def ah_ok_def cur_sealed_def absent_def)

text \<open>The table after a new connection is in it.\<close>

lemma cx_ok_add:
  assumes ok: "cx_ok cfg c" and t: "table_ok (cx_fds c')" "table_map (cx_fds c') = (table_map (cx_fds c))(fd \<mapsto> cx_fresh c)"
    and conns: "\<And>k. k \<noteq> cx_fresh c \<Longrightarrow> cx_conns c' k = cx_conns c k" and fresh: "cx_fresh c' = cx_fresh c + 1"
    and s: "cx_conns c' (cx_fresh c) = Some s" "closable cfg s" "ss_id s = cx_fresh c" "ss_sock s = fd"
  shows "cx_ok cfg c'"
  unfolding cx_ok_def
proof (intro conjI allI impI)
  fix x i assume i: "table_map (cx_fds c') x = Some i"
  show "\<exists>s. cx_conns c' i = Some s \<and> closable cfg s \<and> ss_id s = i \<and> ss_sock s = x"
  proof (cases "x = fd")
    case True
    then show ?thesis using i t(2) s by auto
  next
    case False
    then have i': "table_map (cx_fds c) x = Some i" using i t(2) by simp
    then have "i \<noteq> cx_fresh c" using cx_fresh_free(2) [OF ok] by (auto simp: ran_def)
    then show ?thesis using cx_conn [OF ok i'] conns by metis
  qed
next
  fix i v assume "cx_conns c' i = Some v"
  then show "i < cx_fresh c'" using conns fresh ok by (cases "i = cx_fresh c") (auto simp: cx_ok_def)
qed (rule t(1))

lemma load_add:
  assumes "ss_id s = j"
  shows "\<exists>b d. load j (add_conn s c) = Some (s\<lparr>ss_service := cx_service c, ss_fds := (cx_fds c)\<lparr>ft_pos := (ft_pos (cx_fds c))(j := 0)\<rparr>,
    ss_now := cx_now c, ss_ws := (ss_ws s)\<lparr>ws_pollin := b, ws_pollout := d\<rparr>\<rparr>)"
  unfolding load_def add_conn_def using assms by simp (intro exI, rule refl)

text \<open>A connection \<open>s\<close> on its way into the table, with \<open>M\<close> what the table knows, in a context that started as \<open>c0\<close>.\<close>

definition entering :: "'x lws_context \<Rightarrow> nat \<Rightarrow> 'x session \<Rightarrow> (int \<rightharpoonup> nat) \<Rightarrow> 'x lws_context \<Rightarrow> bool" where
  "entering c0 j s M c \<longleftrightarrow> load j c = Some (s\<lparr>ss_fds := cx_fds c\<rparr>) \<and> ss_id s = j \<and> \<not> ss_gone s \<and> table_ok (cx_fds c) \<and>
     table_map (cx_fds c) = M \<and> ft_max (cx_fds c) = ft_max (cx_fds c0) \<and> in_slots j (cx_fds c) \<and>
     (\<forall>k. k \<noteq> j \<longrightarrow> cx_conns c k = cx_conns c0 k) \<and> same_rest (c0\<lparr>cx_fresh := cx_fresh c0 + 1, cx_calls := cx_calls c\<rparr>) c"

lemma enteringD:
  assumes "entering c0 j s M c"
  shows "load j c = Some (s\<lparr>ss_fds := cx_fds c\<rparr>)" "ss_id s = j" "\<not> ss_gone s" "table_ok (cx_fds c)" "table_map (cx_fds c) = M"
    "ft_max (cx_fds c) = ft_max (cx_fds c0)" "in_slots j (cx_fds c)" "k \<noteq> j \<Longrightarrow> cx_conns c k = cx_conns c0 k"
    "cx_fresh c = cx_fresh c0 + 1" "cx_now c = cx_now c0" "cx_last_check c = cx_last_check c0" "cx_listen_fd c = cx_listen_fd c0"
    "cx_proxy c = cx_proxy c0" "cx_iface c = cx_iface c0" "cx_sys c = cx_sys c0"
  using assms by (simp_all add: entering_def same_rest_def)

lemma entering_step:
  assumes e: "entering c0 j s M c" and f: "f (s\<lparr>ss_fds := cx_fds c\<rparr>) = Some (r, s'\<lparr>ss_fds := t\<rparr>)"
    and s': "\<not> ss_gone s'" "ss_now s' = ss_now s" "ss_id s' = j"
    and t: "table_ok t" "table_map t = M'" "in_slots j t" "ft_max t = ft_max (cx_fds c0)"
  obtains c' where "on_conn j f c = Some (r, c')" "entering c0 j s' M' c'" "cx_calls c' = cx_calls c"
proof -
  note D = enteringD [OF e]
  obtain c' where c': "on_conn j f c = Some (r, c')"
    "load j c' = Some (s'\<lparr>ss_fds := t\<rparr>\<lparr>ss_fds := put_events j (session_events (s'\<lparr>ss_fds := t\<rparr>)) (ss_fds (s'\<lparr>ss_fds := t\<rparr>))\<rparr>)"
    "cx_fds c' = put_events j (session_events (s'\<lparr>ss_fds := t\<rparr>)) (ss_fds (s'\<lparr>ss_fds := t\<rparr>))" "same_rest c c'"
    "\<And>k. k \<noteq> j \<Longrightarrow> cx_conns c' k = cx_conns c k"
    by (rule on_conn_step [where f = f, OF D(1) f]) (use s' t(3) in auto)
  have "entering c0 j s' M' c'"
    using c' e s' t put_events_table [OF t(1)] put_events_slots by (simp add: entering_def same_rest_def)
  moreover have "cx_calls c' = cx_calls c" using c'(4) by (simp add: same_rest_def)
  ultimately show thesis using that c'(1) by blast
qed

lemma entering_step':
  assumes "entering c0 j s M c" "f (s\<lparr>ss_fds := cx_fds c\<rparr>) = Some (s'\<lparr>ss_fds := t\<rparr>)" "\<not> ss_gone s'" "ss_now s' = ss_now s" "ss_id s' = j"
    "table_ok t" "table_map t = M'" "in_slots j t" "ft_max t = ft_max (cx_fds c0)"
  obtains c' where "on_conn' j f c = Some c'" "entering c0 j s' M' c'" "cx_calls c' = cx_calls c"
proof -
  have "map_option (Pair ()) (f (s\<lparr>ss_fds := cx_fds c\<rparr>)) = Some ((), s'\<lparr>ss_fds := t\<rparr>)" using assms(2) by simp
  from entering_step [where f = "\<lambda>s. map_option (Pair ()) (f s)", OF assms(1) this assms(3-9)]
  obtain c' where "on_conn j (\<lambda>s. map_option (Pair ()) (f s)) c = Some ((), c')" "entering c0 j s' M' c'" "cx_calls c' = cx_calls c" .
  then show thesis by (intro that [of c']) simp_all
qed

text \<open>An operation that leaves the table alone, and the next answer of the system.\<close>

lemma entering_keep:
  assumes "entering c0 j s M c" "f (s\<lparr>ss_fds := cx_fds c\<rparr>) = Some (r, s'\<lparr>ss_fds := cx_fds c\<rparr>)" "\<not> ss_gone s'" "ss_now s' = ss_now s" "ss_id s' = j"
  obtains c' where "on_conn j f c = Some (r, c')" "entering c0 j s' M c'" "cx_calls c' = cx_calls c"
  by (rule entering_step [where f = f, OF assms enteringD(4,5,7,6) [OF assms(1)]]) (rule that)

lemma entering_keep':
  assumes "entering c0 j s M c" "f (s\<lparr>ss_fds := cx_fds c\<rparr>) = Some (s'\<lparr>ss_fds := cx_fds c\<rparr>)" "\<not> ss_gone s'" "ss_now s' = ss_now s" "ss_id s' = j"
  obtains c' where "on_conn' j f c = Some c'" "entering c0 j s' M c'" "cx_calls c' = cx_calls c"
  by (rule entering_step' [where f = f, OF assms enteringD(4,5,7,6) [OF assms(1)]]) (rule that)

lemma entering_call:
  assumes "entering c0 j s M c"
  shows "sys_call c = (cx_sys c0 (cx_calls c), c\<lparr>cx_calls := cx_calls c + 1\<rparr>)" "entering c0 j s M (c\<lparr>cx_calls := n\<rparr>)"
  using assms load_calls [where i = j and c = c and n = n] by (simp_all add: entering_def same_rest_def sys_call_def)

lemma entering_start:
  assumes ok: "cx_ok cfg c" and s: "ss_id s = cx_fresh c" "\<not> ss_gone s" and max: "0 < ft_max (cx_fds c)"
  obtains b d where "entering c (cx_fresh c) (s\<lparr>ss_service := cx_service c, ss_now := cx_now c,
    ss_ws := (ss_ws s)\<lparr>ws_pollin := b, ws_pollout := d\<rparr>\<rparr>) (table_map (cx_fds c)) (add_conn s c)" "cx_calls (add_conn s c) = cx_calls c"
proof -
  note T = reposition_table [OF cx_table [OF ok] cx_fresh_free(2) [OF ok], of 0]
  have "in_slots (cx_fresh c) ((cx_fds c)\<lparr>ft_pos := (ft_pos (cx_fds c))(cx_fresh c := 0)\<rparr>)"
    using table_sizes [OF cx_table [OF ok]] max by (auto simp: in_slots_def)
  moreover obtain b d where "load (cx_fresh c) (add_conn s c) = Some (s\<lparr>ss_service := cx_service c,
      ss_fds := (cx_fds c)\<lparr>ft_pos := (ft_pos (cx_fds c))(cx_fresh c := 0)\<rparr>,
      ss_now := cx_now c, ss_ws := (ss_ws s)\<lparr>ws_pollin := b, ws_pollout := d\<rparr>\<rparr>)"
    using load_add [OF s(1)] by blast
  ultimately have "entering c (cx_fresh c) (s\<lparr>ss_service := cx_service c, ss_now := cx_now c,
    ss_ws := (ss_ws s)\<lparr>ws_pollin := b, ws_pollout := d\<rparr>\<rparr>) (table_map (cx_fds c)) (add_conn s c)"
    using s T by (simp add: entering_def same_rest_def add_conn_def [of s c])
  then show thesis by (rule that) (simp add: add_conn_def)
qed

lemma entered_ok:
  assumes ok: "cx_ok cfg c0" and e: "entering c0 (cx_fresh c0) s ((table_map (cx_fds c0))(fd \<mapsto> cx_fresh c0)) c" and s: "closable cfg s" "ss_sock s = fd"
  shows "cx_ok cfg c"
proof -
  note D = enteringD [OF e]
  obtain v where v: "cx_conns c (cx_fresh c0) = Some v" using D(1) by (auto simp: load_def)
  obtain u where u: "load (cx_fresh c0) c = Some u" "ss_id u = ss_id v" "ss_sock u = ss_sock v" "closable cfg u = closable cfg v"
    by (rule load_Some [OF v])
  have "u = s\<lparr>ss_fds := cx_fds c\<rparr>" using u(1) D(1) by simp
  then have "closable cfg u" "ss_id u = cx_fresh c0" "ss_sock u = fd" using D(2) s by (simp_all add: closable_def)
  then have "closable cfg v" "ss_id v = cx_fresh c0" "ss_sock v = fd" using u(2-4) by simp_all
  then show ?thesis by (intro cx_ok_add [OF ok D(4) D(5) D(8) D(9) v]) simp_all
qed

lemma insert_new:
  assumes cfg: "plain_cfg cfg" and ok: "table_ok (ss_fds s)" and fd: "0 \<le> ss_sock s" "ss_sock s < ft_max (ss_fds s)"
    "table_map (ss_fds s) (ss_sock s) = None" and w: "ss_id s \<notin> ran (table_map (ss_fds s))"
  obtains t where "insert_wsi_socket_into_fds cfg s = Some (0, upd_ws (\<lambda>w. w\<lparr>ws_pollin := True, ws_pollout := False\<rparr>) (s\<lparr>ss_fds := t\<rparr>))"
    "table_ok t" "table_map t = (table_map (ss_fds s))(ss_sock s \<mapsto> ss_id s)" "in_slots (ss_id s) t" "ft_max t = ft_max (ss_fds s)"
proof -
  obtain r s' where i: "insert_wsi_socket_into_fds cfg s = Some (r, s')" "table_ok (ss_fds s')"
    "r = (if ss_sock s < ft_max (ss_fds s) then 0 else 1)"
    "table_map (ss_fds s') = (if ss_sock s < ft_max (ss_fds s) then (table_map (ss_fds s))(ss_sock s \<mapsto> ss_id s) else table_map (ss_fds s))"
    "ft_max (ss_fds s') = ft_max (ss_fds s)"
    by (rule insert_wsi_map [OF plain_quiet [OF cfg] ok fd(1,3) w])
  then have "insert_wsi_socket_into_fds cfg s = Some (0, s')" using fd(2) by simp
  from insert_plain [OF cfg this] obtain t where t: "s' = upd_ws (\<lambda>w. w\<lparr>ws_pollin := True, ws_pollout := False\<rparr>) (s\<lparr>ss_fds := t\<rparr>)" by blast
  have t': "table_ok t" "table_map t = (table_map (ss_fds s))(ss_sock s \<mapsto> ss_id s)" using i t fd(2) by (simp_all add: upd_ws_def)
  then have "table_map t (ss_sock s) = Some (ss_id s)" by simp
  then obtain m where "m < nat (ft_count t)" "ft_pos t (ss_id s) = int m" by (rule table_mapD [OF t'(1)])
  then have "in_slots (ss_id s) t" using table_sizes [OF t'(1)] by (auto simp: in_slots_def)
  then show thesis using that t' i(1,3,5) t fd(2) by (simp add: upd_ws_def)
qed

lemma used_slots: "table_ok t \<Longrightarrow> table_map t fd = Some i \<Longrightarrow> in_slots i t"
  using table_sizes by (fastforce simp: in_slots_def elim: table_mapD)

lemma cx_ok_calls: "cx_ok cfg (c\<lparr>cx_calls := n\<rparr>) = cx_ok cfg c"
  by (simp add: cx_ok_def)

text \<open>The table is the last member to be written.\<close>

lemma fds_out:
  "s\<lparr>ss_fds := t\<rparr>\<lparr>ss_sock := a\<rparr> = s\<lparr>ss_sock := a\<rparr>\<lparr>ss_fds := t\<rparr>"
  "s\<lparr>ss_fds := t\<rparr>\<lparr>ss_timeout := b\<rparr> = s\<lparr>ss_timeout := b\<rparr>\<lparr>ss_fds := t\<rparr>"
  "upd_ws f (s\<lparr>ss_fds := t\<rparr>) = (upd_ws f s)\<lparr>ss_fds := t\<rparr>"
  by (simp_all add: upd_ws_def)

lemma entering_insert:
  assumes cfg: "plain_cfg cfg" and e: "entering c0 j u M c" and s: "ss_id s = j" "0 \<le> ss_sock s" "ss_sock s < ft_max (cx_fds c0)"
    and free: "M (ss_sock s) = None" "j \<notin> ran M"
  obtains t where "insert_wsi_socket_into_fds cfg (s\<lparr>ss_fds := cx_fds c\<rparr>) =
      Some (0, (upd_ws (\<lambda>w. w\<lparr>ws_pollin := True, ws_pollout := False\<rparr>) s)\<lparr>ss_fds := t\<rparr>)"
    "table_ok t" "table_map t = M(ss_sock s \<mapsto> j)" "in_slots j t" "ft_max t = ft_max (cx_fds c0)"
proof -
  note D = enteringD [OF e]
  let ?s = "s\<lparr>ss_fds := cx_fds c\<rparr>"
  have p: "table_ok (ss_fds ?s)" "0 \<le> ss_sock ?s" "ss_sock ?s < ft_max (ss_fds ?s)" "table_map (ss_fds ?s) (ss_sock ?s) = None"
    "ss_id ?s \<notin> ran (table_map (ss_fds ?s))" using D s free by simp_all
  obtain t where "insert_wsi_socket_into_fds cfg ?s = Some (0, upd_ws (\<lambda>w. w\<lparr>ws_pollin := True, ws_pollout := False\<rparr>) (?s\<lparr>ss_fds := t\<rparr>))"
    "table_ok t" "table_map t = (table_map (ss_fds ?s))(ss_sock ?s \<mapsto> ss_id ?s)" "in_slots (ss_id ?s) t" "ft_max t = ft_max (ss_fds ?s)"
    by (rule insert_new [OF cfg p])
  then show thesis using D(5,6) s(1) by (intro that [of t]) (simp_all add: upd_ws_def)
qed

lemma cx_ok_conn:
  assumes ok: "cx_ok cfg c" and i: "table_map (cx_fds c) fd = Some i" and s: "closable cfg s" "ss_id s = i" "ss_sock s = fd"
  shows "cx_ok cfg (c\<lparr>cx_conns := (cx_conns c)(i \<mapsto> s)\<rparr>)"
proof -
  have "x = fd" if "table_map (cx_fds c) x = Some i" for x using table_map_inj [OF cx_table [OF ok] that i] .
  moreover have "i < cx_fresh c" using ok cx_conn [OF ok i] by (auto simp: cx_ok_def)
  ultimately show ?thesis using ok s by (auto simp: cx_ok_def)
qed

section \<open>Accepting\<close>

lemma new_server_enters:
  assumes cfg: "plain_cfg cfg" and ok: "cx_ok cfg c" and protos: "sc_protocols cfg \<noteq> []"
    and room: "0 \<le> fd" "fd < ft_max (cx_fds c)" "table_map (cx_fds c) fd = None"
    and blank: "blank_ok (cx_blank c (cx_fresh c))" and sends: "Send_error \<notin> set (ws_sends (ss_ws (cx_blank c (cx_fresh c))))"
    and buf: "length (cx_service c) = LWS_MAX_SOCKET_IO_BUF"
  obtains c5 c6 s where "on_conn' (cx_fresh c) (\<lambda>s. Some (user_cb0 cfg LWS_CALLBACK_WSI_CREATE [] s))
      (add_conn ((with_header_table (zero_session (cx_fresh c) (cx_blank c (cx_fresh c))))\<lparr>ss_protocol := Some 0\<rparr>) c) = Some c5"
    "on_conn' (cx_fresh c) (\<lambda>s. let s = libwebsocket_set_timeout PENDING_TIMEOUT_ESTABLISH_WITH_SERVER AWAITING_TIMEOUT (s\<lparr>ss_sock := fd\<rparr>);
                    s = user_cb0 cfg LWS_CALLBACK_SERVER_NEW_CLIENT_INSTANTIATED [] s
                in map_option snd (insert_wsi_socket_into_fds cfg s)) c5 = Some c6"
    "cx_ok cfg c6" "table_map (cx_fds c6) = (table_map (cx_fds c))(fd \<mapsto> cx_fresh c)" "load (cx_fresh c) c6 = Some s"
    "Handshake_Server.server_ready s" "ss_sock s = fd" "ss_timeout s = (PENDING_TIMEOUT_ESTABLISH_WITH_SERVER, cx_now c + 5)"
    "\<And>k. k \<noteq> cx_fresh c \<Longrightarrow> cx_conns c6 k = cx_conns c k"
proof -
  let ?j = "cx_fresh c"
  note u = plain_user [OF cfg]
  define s0 where "s0 = (with_header_table (zero_session ?j (cx_blank c ?j)))\<lparr>ss_protocol := Some 0\<rparr>"
  have s0: "ss_id s0 = ?j" "\<not> ss_gone s0" by (simp_all add: s0_def with_header_table_def zero_session_def)
  obtain b d where e4: "entering c ?j (s0\<lparr>ss_service := cx_service c, ss_now := cx_now c, ss_ws := (ss_ws s0)\<lparr>ws_pollin := b, ws_pollout := d\<rparr>\<rparr>)
      (table_map (cx_fds c)) (add_conn s0 c)" (is "entering c ?j ?s1 ?M _")
    using entering_start [OF ok, of s0] s0 room by (metis order.strict_trans1)
  obtain c5 where c5: "on_conn' ?j (\<lambda>s. Some (user_cb0 cfg LWS_CALLBACK_WSI_CREATE [] s)) (add_conn s0 c) = Some c5" "entering c ?j ?s1 ?M c5"
    by (rule entering_keep' [where f = "\<lambda>s. Some (user_cb0 cfg LWS_CALLBACK_WSI_CREATE [] s)" and s' = ?s1, OF e4]) (use u(1) s0 in auto)
  let ?s3 = "?s1\<lparr>ss_sock := fd, ss_timeout := (PENDING_TIMEOUT_ESTABLISH_WITH_SERVER, cx_now c + 5)\<rparr>"
  let ?s = "upd_ws (\<lambda>w. w\<lparr>ws_pollin := True, ws_pollout := False\<rparr>) ?s3"
  let ?f = "\<lambda>s. let s = libwebsocket_set_timeout PENDING_TIMEOUT_ESTABLISH_WITH_SERVER AWAITING_TIMEOUT (s\<lparr>ss_sock := fd\<rparr>);
                    s = user_cb0 cfg LWS_CALLBACK_SERVER_NEW_CLIENT_INSTANTIATED [] s
                in map_option snd (insert_wsi_socket_into_fds cfg s)"
  obtain t where t: "insert_wsi_socket_into_fds cfg (?s3\<lparr>ss_fds := cx_fds c5\<rparr>) = Some (0, ?s\<lparr>ss_fds := t\<rparr>)"
    "table_ok t" "table_map t = ?M(ss_sock ?s3 \<mapsto> ?j)" "in_slots ?j t" "ft_max t = ft_max (cx_fds c)"
    by (rule entering_insert [OF cfg c5(2), of ?s3]) (use s0(1) room cx_fresh_free(2) [OF ok] in simp_all)
  have f: "?f (?s1\<lparr>ss_fds := cx_fds c5\<rparr>) = Some (?s\<lparr>ss_fds := t\<rparr>)"
    using t(1) u(1) by (simp add: libwebsocket_set_timeout_def fds_out)
  obtain c6 where c6: "on_conn' ?j ?f c5 = Some c6" "entering c ?j ?s (?M(ss_sock ?s3 \<mapsto> ?j)) c6"
    by (rule entering_step' [where f = ?f and s' = ?s, OF c5(2) f _ _ _ t(2-5)]) (use s0 in \<open>simp_all add: upd_ws_def\<close>)
  note D6 = enteringD [OF c6(2)]
  have ok6: "cx_ok cfg c6"
    by (rule entered_ok [OF ok, of ?s fd]) (use c6(2) protos in \<open>simp_all add: closable_def upd_ws_def s0_def
      with_header_table_def zero_session_def zero_wsi_def\<close>)
  have "Handshake_Server.server_ready (?s\<lparr>ss_fds := cx_fds c6\<rparr>)"
    using blank sends buf fresh_table
    by (simp add: Handshake_Server.server_ready_def upd_ws_def s0_def with_header_table_def zero_session_def zero_wsi_def
        fresh_parser_def can_send_def blank_ok_def lws_allocate_header_table_def)
  moreover have "cx_conns c6 k = cx_conns c k" if "k \<noteq> ?j" for k using D6(8) that by simp
  ultimately show thesis
    using c5(1) c6(1) ok6 D6(1,5) unfolding s0_def [symmetric] by (intro that [of c5 c6 "?s\<lparr>ss_fds := cx_fds c6\<rparr>"]) (simp_all add: upd_ws_def s0_def)
qed

text \<open>C12: An event of the listening socket on which a connection is accepted, with memory and room in the table, adds
  exactly this connection: it is a server at the start of its handshake, known to the table under its descriptor, with
  five seconds to send its request. All others stay as they are.\<close>

theorem accept_adds_server:
  assumes cfg: "plain_cfg cfg" and ok: "cx_ok cfg c" and protos: "sc_protocols cfg \<noteq> []"
    and l: "table_map (cx_fds c) lfd = Some i" "cx_conns c i = Some lsn" "ws_mode (ss_ws lsn) = LWS_CONNMODE_SERVER_LISTENER"
    and ev: "revents AND 1 \<noteq> 0"
    and sys: "sa_ret (cx_sys c (cx_calls c)) = fd" "0 \<le> fd" "0 \<le> sa_ret (cx_sys c (cx_calls c + 1))" "0 \<le> sa_ret (cx_sys c (cx_calls c + 2))"
    and room: "fd < ft_max (cx_fds c)" "table_map (cx_fds c) fd = None"
    and blank: "blank_ok (cx_blank c (cx_fresh c))" and sends: "Send_error \<notin> set (ws_sends (ss_ws (cx_blank c (cx_fresh c))))"
    and buf: "length (cx_service c) = LWS_MAX_SOCKET_IO_BUF"
  shows "\<exists>c' s. lws_server_socket_service cfg i revents c = Some (0, c') \<and> cx_ok cfg c' \<and>
    table_map (cx_fds c') = (table_map (cx_fds c))(fd \<mapsto> cx_fresh c) \<and>
    load (cx_fresh c) c' = Some s \<and> Handshake_Server.server_ready s \<and> ss_sock s = fd \<and>
    ss_timeout s = (PENDING_TIMEOUT_ESTABLISH_WITH_SERVER, cx_now c + 5) \<and>
    (\<forall>k. k \<noteq> i \<longrightarrow> k \<noteq> cx_fresh c \<longrightarrow> cx_conns c' k = cx_conns c k)"
proof -
  let ?j = "cx_fresh c"
  have un: "sc_user cfg p r d v = (0, v)" for p r d v using cfg by (simp add: plain_cfg_def)
  note lc = cx_conn [OF ok l(1)]
  have cl: "closable cfg lsn" "ss_id lsn = i" "ss_sock lsn = lfd" using lc l(2) by auto
  obtain v where v: "load i c = Some v" "ss_fds v = cx_fds c" "ss_service v = cx_service c" "ss_now v = cx_now c"
    "ss_id v = ss_id lsn" "ss_sock v = ss_sock lsn" "closable cfg v = closable cfg lsn" "ws_mode (ss_ws v) = ws_mode (ss_ws lsn)"
    by (rule load_Some [OF l(2)])
  define c1 where "c1 = c\<lparr>cx_calls := cx_calls c + 1\<rparr>"
  have v1: "load i c1 = Some v" using v(1) by (simp add: c1_def load_calls)
  have ok1: "cx_ok cfg c1" using ok by (simp add: c1_def cx_ok_def)
  have l1: "table_map (cx_fds c1) lfd = Some i" using l(1) by (simp add: c1_def)
  define c2 where "c2 = store i v c1"
  have st: "cx_ok cfg c2" "table_map (cx_fds c2) = table_map (cx_fds c)"
    using store_keeps [OF ok1 l1, of v] v cl cx_table [OF ok] by (simp_all add: c2_def c1_def)
  have filt: "on_conn i (\<lambda>s. Some (sc_user cfg 0 LWS_CALLBACK_FILTER_NETWORK_CONNECTION [] s)) c1 = Some (0, c2)"
    by (simp add: on_conn_def v1 un c2_def)
  have gone: "\<not> ss_gone v" using cl(1) v(7) by (simp add: closable_def)
  define c3 where "c3 = c2\<lparr>cx_calls := cx_calls c + 2\<rparr>"
  define c4 where "c4 = c3\<lparr>cx_calls := cx_calls c + 3\<rparr>"
  have calls: "sys_call c = (cx_sys c (cx_calls c), c1)" "sys_call c2 = (cx_sys c (cx_calls c + 1), c3)"
    "sys_call c3 = (cx_sys c (cx_calls c + 2), c4)"
    by (simp_all add: sys_call_def c4_def c3_def c2_def c1_def store_def)
  have c4: "cx_fresh c4 = ?j" "cx_blank c4 = cx_blank c" "cx_now c4 = cx_now c" "cx_service c4 = cx_service c" "cx_fds c4 = cx_fds c2"
    "cx_conns c4 = (cx_conns c)(i := Some v)" "cx_ok cfg c4" "table_map (cx_fds c4) = table_map (cx_fds c)" "table_ok (cx_fds c4)"
    using st gone v(3) cx_table [OF st(1)] cx_ok_calls [where c = c2] cx_ok_calls [where c = c3] by (simp_all add: c4_def c3_def c2_def c1_def store_def)
  have max: "ft_max (cx_fds c4) = ft_max (cx_fds c)"
    using put_events_table [OF cx_table [OF ok]] v(2) by (simp add: c4(5) c2_def c1_def store_def)
  obtain c5 c6 s where c6: "on_conn' ?j (\<lambda>s. Some (user_cb0 cfg LWS_CALLBACK_WSI_CREATE [] s))
      (add_conn ((with_header_table (zero_session ?j (cx_blank c ?j)))\<lparr>ss_protocol := Some 0\<rparr>) c4) = Some c5"
    "on_conn' ?j (\<lambda>s. let s = libwebsocket_set_timeout PENDING_TIMEOUT_ESTABLISH_WITH_SERVER AWAITING_TIMEOUT (s\<lparr>ss_sock := fd\<rparr>);
                    s = user_cb0 cfg LWS_CALLBACK_SERVER_NEW_CLIENT_INSTANTIATED [] s
                in map_option snd (insert_wsi_socket_into_fds cfg s)) c5 = Some c6"
    "cx_ok cfg c6" "table_map (cx_fds c6) = (table_map (cx_fds c))(fd \<mapsto> ?j)" "load ?j c6 = Some s"
    "Handshake_Server.server_ready s" "ss_sock s = fd" "ss_timeout s = (PENDING_TIMEOUT_ESTABLISH_WITH_SERVER, cx_now c + 5)"
    "\<And>k. k \<noteq> ?j \<Longrightarrow> cx_conns c6 k = cx_conns c4 k"
    using new_server_enters [OF cfg c4(7) protos, of fd, unfolded c4(1-4,8) max] sys(2) room blank sends buf by blast
  have create: "libwebsocket_create_new_server_wsi cfg c2 = Some (Some ?j, c5)"
    using sys(3,4) c6(1) c4(1,2) unfolding libwebsocket_create_new_server_wsi_def calls by (simp add: calls)
  have "lws_server_socket_service cfg i revents c = Some (0, c6)"
    using v(1,8) l(3) ev sys(1,2) filt create c6(2) unfolding lws_server_socket_service_def server_accept_def calls(1) by simp
  then show ?thesis using c6(3-9) c4(6) by (intro exI [of _ c6] exI [of _ s]) simp
qed

section \<open>A host name that is not found again\<close>

text \<open>C33: The host name is looked up once more when a connection in progress gets its event. When that fails the connection
  is freed where it is: the table still maps its descriptor to it, and the next timeout check that comes past
  the slot is undefined.\<close>

theorem failed_lookup_leaves_freed:
  assumes cfg: "plain_cfg cfg" and ok: "cx_ok cfg c" and fd: "table_map (cx_fds c) fd = Some i"
    and s: "cx_conns c i = Some s" "ws_mode (ss_ws s) = LWS_CONNMODE_WS_CLIENT_WAITING_CONNECT"
    and ads: "hdr_string s WSI_TOKEN_CLIENT_PEER_ADDRESS = Some (Some ads)" and proxy: "cx_proxy c = None"
    and host: "sa_ret (cx_sys c (cx_calls c)) < 0"
  shows "\<exists>c'. lws_client_socket_service cfg app service i revents c = Some (-1, c') \<and> cx_conns c' i = None \<and>
    table_map (cx_fds c') fd = Some i \<and>
    (\<forall>now p our_fd t. timeout_loop cfg now p our_fd (nat (ft_pos (cx_fds c') i)) t c' = None)"
proof -
  obtain v where v: "load i c = Some v" "ss_fds v = cx_fds c" "ws_mode (ss_ws v) = ws_mode (ss_ws s)" "ss_ah v = ss_ah s"
    "closable cfg v = closable cfg s" "ss_id v = ss_id s" "ss_sock v = ss_sock s" by (rule load_Some [OF s(1)])
  have cl: "closable cfg s" "ss_id s = i" "ss_sock s = fd" using cx_conn [OF ok fd] s(1) by auto
  obtain m where m: "m < nat (ft_count (cx_fds c))" "ft_pos (cx_fds c) i = int m" by (rule table_mapD [OF cx_table [OF ok] fd])
  have slots: "in_slots i (cx_fds c)" using m table_sizes [OF cx_table [OF ok]] by (auto simp: in_slots_def)
  have "hdr_string v WSI_TOKEN_CLIENT_PEER_ADDRESS = hdr_string s WSI_TOKEN_CLIENT_PEER_ADDRESS"
    using v(1) s(1) by (auto simp: load_def hdr_string_def the_ah_def)
  then have prep: "proxy_prepare c v = Some (0, v)" using ads proxy by (simp add: proxy_prepare_def)
  obtain c1 where c1: "on_conn i (proxy_prepare c) c = Some (0, c1)"
    "load i c1 = Some (v\<lparr>ss_fds := put_events i (session_events v) (ss_fds v)\<rparr>)" "same_rest c c1"
    "cx_fds c1 = put_events i (session_events v) (ss_fds v)"
    by (rule on_conn_step [OF v(1), of "proxy_prepare c" 0 v]) (use prep v cl s(1) slots in \<open>auto simp: closable_def\<close>)
  let ?v = "v\<lparr>ss_fds := put_events i (session_events v) (ss_fds v)\<rparr>"
  define c2 where "c2 = c1\<lparr>cx_calls := cx_calls c1 + 1\<rparr>"
  have c2: "load i c2 = Some ?v" using c1(2) by (simp add: c2_def load_calls)
  have sys: "sys_call c1 = (cx_sys c (cx_calls c), c2)" using c1(3) by (simp add: sys_call_def same_rest_def c2_def)
  have "ss_ah v \<noteq> Ah_dangling" using v cl s(2) by (simp add: closable_def)
  then obtain w where w: "free_ah ?v = Some w" "ss_fds w = ss_fds ?v" "\<not> ss_gone w" "ss_now w = ss_now ?v"
    using v cl by (cases "ss_ah v") (auto simp: free_ah_def closable_def)
  obtain c3 where c3: "on_conn i (\<lambda>s. map_option (Pair ()) (free_ah s)) c2 = Some ((), c3)"
    "cx_fds c3 = put_events i (session_events w) (ss_fds w)"
    by (rule on_conn_step [OF c2, of "\<lambda>s. map_option (Pair ()) (free_ah s)" "()" w])
      (use w v(2) slots in \<open>simp_all add: put_events_slots\<close>)
  define c' where "c' = c3\<lparr>cx_conns := (cx_conns c3)(i := None)\<rparr>"
  have run: "libwebsocket_client_connect_2 cfg service i c = Some (False, c')"
    using c1(1) sys host c3(1) by (simp add: libwebsocket_client_connect_2_def connect_oom4_def c'_def)
  note ok1 = put_events_table [OF cx_table [OF ok], of i "session_events v"]
  have fds: "table_ok (cx_fds c')" "table_map (cx_fds c') = table_map (cx_fds c)" "ft_pos (cx_fds c') i = int m"
    "ft_count (cx_fds c') = ft_count (cx_fds c)"
    using put_events_table [OF ok1(1), of i "session_events w"] ok1 c3(2) w(2) v(2) m(2) by (simp_all add: c'_def)
  have m': "m < nat (ft_count (cx_fds c'))" using m(1) fds(4) by simp
  obtain sl j where sl: "slot_at m c' = Some sl" "lookup_fd (sl_fd sl) c' = Some (Some j)" "table_map (cx_fds c') (sl_fd sl) = Some j"
    "ft_pos (cx_fds c') j = int m" by (rule slot_lookup [OF fds(1) m'])
  have "j = i"
    using table_mapD [OF fds(1) sl(3)] table_mapD [OF fds(1), of fd i] fd fds(2,3) sl(3,4) by (metis of_nat_eq_iff option.inject)
  then have "timeout_loop cfg now p our_fd m t c' = None" for now p our_fd t
    using sl(1,2) m' by (subst timeout_loop.simps) (simp add: on_conn_def load_def c'_def)
  then show ?thesis
    using run v(1,3) s(2) fd fds(2,3) by (intro exI [of _ c']) (simp add: lws_client_socket_service_def c'_def)
qed

section \<open>Contexts to run it on\<close>

definition demo_listener :: "unit session" where
  "demo_listener = (demo_conn 1 1)\<lparr>ss_ws := (ss_ws (demo_conn 1 1))\<lparr>ws_mode := LWS_CONNMODE_SERVER_LISTENER\<rparr>\<rparr>"

definition demo_listening :: "unit lws_context" where
  "demo_listening = demo_context\<lparr>cx_conns := (cx_conns demo_context)(1 \<mapsto> demo_listener)\<rparr>"

lemma demo_listening_ok: "cx_ok demo_cfg demo_listening"
  unfolding demo_listening_def
  by (rule cx_ok_conn [OF demo_context_ok, of 1]) (use demo_closable [of 1 1] in \<open>simp_all add: demo_map demo_listener_def closable_def demo_conn_def\<close>)

lemma demo_blank: "blank_ok demo_server"
  by (simp add: blank_ok_def demo_server_def demo_session_def demo_store_def blank_store_def hdr_start_def
      lws_allocate_header_table_def new_wsi_def)

lemma accept_adds_server_witness:
  "\<exists>c' s. lws_server_socket_service demo_cfg 1 1 demo_listening = Some (0, c') \<and>
     table_map (cx_fds c') = [2 \<mapsto> 0, 1 \<mapsto> 1, 0 \<mapsto> 2] \<and> load 2 c' = Some s \<and> Handshake_Server.server_ready s"
proof -
  have c: "cx_fds demo_listening = cx_fds demo_context" "cx_conns demo_listening 1 = Some demo_listener" "cx_fresh demo_listening = 2"
    "sa_ret (cx_sys demo_listening n) = 0" "cx_blank demo_listening n = demo_server" "length (cx_service demo_listening) = LWS_MAX_SOCKET_IO_BUF"
    "ft_max (cx_fds demo_listening) = 3" for n
    by (simp_all add: demo_listening_def) (simp_all add: demo_context_def)
  have m: "ws_mode (ss_ws demo_listener) = LWS_CONNMODE_SERVER_LISTENER" by (simp add: demo_listener_def)
  have p: "sc_protocols demo_cfg \<noteq> []" by (simp add: demo_cfg_def)
  have sends: "Send_error \<notin> set (ws_sends (ss_ws demo_server))" by (simp add: demo_server_def demo_session_def)
  show ?thesis
    using accept_adds_server [OF demo_plain demo_listening_ok p, of 1 1 demo_listener 1 0] c m demo_blank sends
    by (auto simp: demo_map)
qed

definition demo_waiting :: "unit session" where
  "demo_waiting = (demo_session LWS_CONNMODE_WS_CLIENT_WAITING_CONNECT WSI_STATE_CLIENT_UNCONNECTED [] 13 (Some 0)
     (add_header demo_store WSI_TOKEN_CLIENT_PEER_ADDRESS (str ''a.b'')))\<lparr>ss_id := 0, ss_sock := 2\<rparr>"

definition demo_lookup :: "unit lws_context" where
  "demo_lookup = (demo_context\<lparr>cx_conns := (cx_conns demo_context)(0 \<mapsto> demo_waiting)\<rparr>)
     \<lparr>cx_sys := (\<lambda>_. \<lparr>sa_ret = -1, sa_errno = 0, sa_data = []\<rparr>)\<rparr>"

lemma demo_waiting_address: "hdr_string demo_waiting WSI_TOKEN_CLIENT_PEER_ADDRESS = Some (Some (str ''a.b''))"
proof -
  note D = demo_store_ok
  have z: "0 \<notin> set (str ''a.b'')" by (simp add: str_def)
  let ?ah = "add_header demo_store WSI_TOKEN_CLIENT_PEER_ADDRESS (str ''a.b'')"
  have "layout ?ah ((\<lambda>_. None)(WSI_TOKEN_CLIENT_PEER_ADDRESS \<mapsto> str ''a.b''))"
    by (rule layout_add_header [OF _ D(1)]) (use D(4,5) z in \<open>simp_all add: layout_def\<close>)
  then have "stored ?ah WSI_TOKEN_CLIENT_PEER_ADDRESS (str ''a.b'')" by (simp add: layout_def)
  moreover have "ah_ok ?ah" using add_header_ok(1) [OF D(1,2), of WSI_TOKEN_CLIENT_PEER_ADDRESS "str ''a.b''"] D(4,5) by simp
  ultimately show ?thesis
    using header_access(2) [of demo_waiting WSI_TOKEN_CLIENT_PEER_ADDRESS "Some (str ''a.b'')"]
    by (simp add: header_is_def holds_header_def ah_good_def demo_waiting_def demo_session_def)
qed

lemma failed_lookup_leaves_freed_witness:
  "\<exists>c'. lws_client_socket_service demo_cfg (\<lambda>_. []) (\<lambda>_ _. None) 0 4 demo_lookup = Some (-1, c') \<and>
     timeout_loop demo_cfg 20 None 0 (nat (ft_pos (cx_fds c') 0)) False c' = None"
proof -
  have ok: "cx_ok demo_cfg (demo_context\<lparr>cx_conns := (cx_conns demo_context)(0 \<mapsto> demo_waiting)\<rparr>)"
    by (rule cx_ok_conn [OF demo_context_ok, of 2])
      (simp_all add: demo_map demo_waiting_def closable_def demo_session_def new_wsi_def demo_cfg_def)
  then have ok: "cx_ok demo_cfg demo_lookup" by (simp add: cx_ok_def demo_lookup_def)
  have c: "table_map (cx_fds demo_lookup) 2 = Some 0" "cx_conns demo_lookup 0 = Some demo_waiting" "cx_proxy demo_lookup = None"
    "sa_ret (cx_sys demo_lookup n) < 0" for n
    by (simp_all add: demo_lookup_def demo_map) (simp add: demo_context_def)
  have m: "ws_mode (ss_ws demo_waiting) = LWS_CONNMODE_WS_CLIENT_WAITING_CONNECT"
    by (simp add: demo_waiting_def demo_session_def new_wsi_def)
  from failed_lookup_leaves_freed [OF demo_plain ok c(1,2) m demo_waiting_address c(3,4)] show ?thesis by blast
qed

end
