(* ===== verification/Client_Connect.thy ===== *)
theory Client_Connect
  imports Connect
begin

text \<open>
  \<open>libwebsocket_client_connect\<close> on the way on which nothing fails: the headers of the request are in the store, the
  connection is in the table and the request is on the wire when the call returns.
\<close>

section \<open>The headers of the request\<close>

lemma simple_create_loop_ok:
  assumes "ah_next_frag ah < length (ah_frags ah)" "ah_pos ah + length v < LWS_MAX_HEADER_LEN" "length (ah_data ah) = LWS_MAX_HEADER_LEN"
    and "0 \<notin> set v"
  shows "simple_create_loop ah v = Some (ah\<lparr>ah_data := take (ah_pos ah) (ah_data ah) @ v @ [0] @ drop (ah_pos ah + length v + 1) (ah_data ah),
    ah_pos := ah_pos ah + length v + 1,
    ah_frags := (ah_frags ah)[ah_next_frag ah := (ah_frags ah ! ah_next_frag ah)\<lparr>frag_len := frag_len (ah_frags ah ! ah_next_frag ah) + length v\<rparr>]\<rparr>, 0)"
  using assms
proof (induction v arbitrary: ah)
  case Nil
  then have "take (ah_pos ah) (ah_data ah) @ 0 # drop (Suc (ah_pos ah)) (ah_data ah) = (ah_data ah)[ah_pos ah := 0]"
    by (simp add: upd_conv_take_nth_drop)
  then show ?case using Nil by (simp add: issue_char_def put_data_def aset_def)
next
  case (Cons b v)
  define ah' where "ah' = ah\<lparr>ah_data := (ah_data ah)[ah_pos ah := b], ah_pos := ah_pos ah + 1,
    ah_frags := (ah_frags ah)[ah_next_frag ah := (ah_frags ah ! ah_next_frag ah)\<lparr>frag_len := Suc (frag_len (ah_frags ah ! ah_next_frag ah))\<rparr>]\<rparr>"
  have "issue_char ah b = Some (ah', 0)"
    using Cons.prems by (simp add: issue_char_def put_data_def set_cur_len_def cur_frag_def access_simps ah'_def)
  moreover have "take (Suc (ah_pos ah)) ((ah_data ah)[ah_pos ah := b]) = take (ah_pos ah) (ah_data ah) @ [b]"
    using Cons.prems by (simp add: take_Suc_conv_app_nth)
  ultimately show ?case
    using Cons.IH [of ah'] Cons.prems by (simp add: ah'_def)
qed

lemma simple_create_add:
  assumes "ah_ok ah" "h < WSI_TOKEN_COUNT" "ah_next_frag ah + 1 < HDR_FRAGS" "ah_pos ah + length v < LWS_MAX_HEADER_LEN" "0 \<notin> set v"
  shows "lws_hdr_simple_create ah h v = Some (add_header ah h v, 0)"
  using assms ah_okD [OF assms(1)] 
  by (simp add: lws_hdr_simple_create_def set_frag_index_def open_frag_def access_simps simple_create_loop_ok add_header_def Let_def)

fun stash_map :: "(nat \<times> bytes option) list \<Rightarrow> (nat \<rightharpoonup> bytes) \<Rightarrow> (nat \<rightharpoonup> bytes)" where
  "stash_map [] M = M"
| "stash_map ((h, None) # hs) M = stash_map hs M"
| "stash_map ((h, Some v) # hs) M = stash_map hs (M(h \<mapsto> v))"

fun stash_size :: "(nat \<times> bytes option) list \<Rightarrow> nat" where
  "stash_size [] = 0"
| "stash_size ((h, v) # hs) = (case v of None \<Rightarrow> 0 | Some v \<Rightarrow> length v + 1) + stash_size hs"

lemma stash_headers_ok:
  assumes "ss_ah s = Ah_valid" "hdr_ah (ss_hdr s) = ah" "ah_ok ah" "cur_sealed ah" "layout ah M"
    and "distinct (map fst hs)" "\<And>h v. (h, v) \<in> set hs \<Longrightarrow> M h = None \<and> h < WSI_TOKEN_COUNT \<and> (\<forall>u. v = Some u \<longrightarrow> 0 \<notin> set u)"
    and "ah_next_frag ah + length hs < HDR_FRAGS" "ah_pos ah + stash_size hs \<le> LWS_MAX_HEADER_LEN"
  shows "\<exists>ah'. stash_headers hs s = Some (True, s\<lparr>ss_hdr := (ss_hdr s)\<lparr>hdr_ah := ah'\<rparr>\<rparr>) \<and> ah_ok ah' \<and> cur_sealed ah' \<and>
    layout ah' (stash_map hs M) \<and> (\<forall>k. (\<forall>v. (k, Some v) \<notin> set hs) \<longrightarrow> absent ah k \<longrightarrow> absent ah' k)"
  using assms
proof (induction hs arbitrary: s ah M)
  case Nil
  have "s\<lparr>ss_hdr := (ss_hdr s)\<lparr>hdr_ah := ah\<rparr>\<rparr> = s" unfolding Nil(2) [symmetric] by simp
  then show ?case using Nil by (intro exI [of _ ah]) simp
next
  case (Cons x hs)
  obtain h v where x: "x = (h, v)" by force
  show ?case
  proof (cases v)
    case None
    have "\<exists>ah'. stash_headers hs s = Some (True, s\<lparr>ss_hdr := (ss_hdr s)\<lparr>hdr_ah := ah'\<rparr>\<rparr>) \<and> ah_ok ah' \<and> cur_sealed ah' \<and>
      layout ah' (stash_map hs M) \<and> (\<forall>k. (\<forall>v. (k, Some v) \<notin> set hs) \<longrightarrow> absent ah k \<longrightarrow> absent ah' k)"
      by (rule Cons.IH) (use Cons.prems x None in \<open>auto\<close>)
    then show ?thesis using x None by simp
  next
    case (Some u)
    let ?ah = "add_header ah h u" and ?s = "s\<lparr>ss_hdr := (ss_hdr s)\<lparr>hdr_ah := add_header ah h u\<rparr>\<rparr>"
    have h: "M h = None" "h < WSI_TOKEN_COUNT" "0 \<notin> set u" "ah_next_frag ah + 1 < HDR_FRAGS" "ah_pos ah + length u < LWS_MAX_HEADER_LEN"
      using Cons.prems(7) [of h v] Cons.prems(8,9) x Some by (auto)
    have step: "stash_headers (x # hs) s = stash_headers hs ?s"
      using simple_create_add [OF Cons.prems(3) h(2,4,5,3)] Cons.prems(1,2) x Some by (simp add: the_ah_def)
    have "\<exists>ah'. stash_headers hs ?s = Some (True, ?s\<lparr>ss_hdr := (ss_hdr ?s)\<lparr>hdr_ah := ah'\<rparr>\<rparr>) \<and> ah_ok ah' \<and> cur_sealed ah' \<and>
      layout ah' (stash_map hs (M(h \<mapsto> u))) \<and> (\<forall>k. (\<forall>v. (k, Some v) \<notin> set hs) \<longrightarrow> absent ?ah k \<longrightarrow> absent ah' k)"
    proof (rule Cons.IH)
      show "layout ?ah (M(h \<mapsto> u))" by (rule layout_add_header [OF Cons.prems(5,3) h(1,2,4,5,3)])
      show "ah_ok ?ah" "cur_sealed ?ah" by (rule add_header_ok [OF Cons.prems(3,4) h(2,4,5)])+
      show "(M(h \<mapsto> u)) k = None \<and> k < WSI_TOKEN_COUNT \<and> (\<forall>u. w = Some u \<longrightarrow> 0 \<notin> set u)" if "(k, w) \<in> set hs" for k w
        using that Cons.prems(6) Cons.prems(7) [of k w] x by force
    qed (use Cons.prems x Some in \<open>simp_all add: add_header_fields\<close>)
    then obtain ah' where ah': "stash_headers hs ?s = Some (True, s\<lparr>ss_hdr := (ss_hdr s)\<lparr>hdr_ah := ah'\<rparr>\<rparr>)" "ah_ok ah'" "cur_sealed ah'"
      "layout ah' (stash_map hs (M(h \<mapsto> u)))" "\<And>k. (\<And>v. (k, Some v) \<notin> set hs) \<Longrightarrow> absent ?ah k \<Longrightarrow> absent ah' k" by auto
    have "absent ah' k" if "\<forall>v. (k, Some v) \<notin> set (x # hs)" "absent ah k" for k
      using that x Some absent_add_header [of k h ah u] by (intro ah'(5)) auto
    then show ?thesis using ah'(1-4) x Some unfolding step by (intro exI [of _ ah']) simp
  qed
qed

lemma layout_mono: "layout ah M \<Longrightarrow> (\<And>h v. N h = Some v \<Longrightarrow> M h = Some v) \<Longrightarrow> layout ah N"
  by (auto simp: layout_def)

text \<open>What the call puts into the store, in its order.\<close>

abbreviation connect_headers :: "bytes \<Rightarrow> bytes \<Rightarrow> bytes \<Rightarrow> bytes option \<Rightarrow> bytes option \<Rightarrow> (nat \<times> bytes option) list" where
  "connect_headers address path host origin protocol \<equiv> [(WSI_TOKEN_CLIENT_PEER_ADDRESS, Some address), (WSI_TOKEN_CLIENT_URI, Some path),
     (WSI_TOKEN_CLIENT_HOST, Some host), (WSI_TOKEN_CLIENT_ORIGIN, origin), (WSI_TOKEN_CLIENT_SENT_PROTOCOLS, protocol)]"

definition strings_fit :: "bytes \<Rightarrow> bytes \<Rightarrow> bytes \<Rightarrow> bytes option \<Rightarrow> bytes option \<Rightarrow> bool" where
  "strings_fit address path host origin protocol \<longleftrightarrow>
     stash_size (connect_headers address path host origin protocol) \<le> LWS_MAX_HEADER_LEN \<and>
     0 \<notin> set address \<and> 0 \<notin> set path \<and> 0 \<notin> set host \<and>
     (\<forall>v. origin = Some v \<longrightarrow> 0 \<notin> set v) \<and> (\<forall>v. protocol = Some v \<longrightarrow> 0 \<notin> set v)"

lemma connect_headers_stored:
  assumes "ss_ah s = Ah_valid" "hdr_ah (ss_hdr s) = lws_allocate_header_table (hdr_ah (ss_hdr t))" "blank_ok t"
    and fit: "strings_fit address path host origin protocol"
  obtains ah where "stash_headers (connect_headers address path host origin protocol) s = Some (True, s\<lparr>ss_hdr := (ss_hdr s)\<lparr>hdr_ah := ah\<rparr>\<rparr>)"
    "ah_ok ah" "cur_sealed ah" "stored ah WSI_TOKEN_CLIENT_PEER_ADDRESS address" "layout ah (client_map path host origin protocol)"
    "\<And>h. h < 31 \<Longrightarrow> absent ah h" "origin = None \<Longrightarrow> absent ah WSI_TOKEN_CLIENT_ORIGIN"
    "protocol = None \<Longrightarrow> absent ah WSI_TOKEN_CLIENT_SENT_PROTOCOLS"
proof -
  let ?hs = "connect_headers address path host origin protocol" and ?ah = "lws_allocate_header_table (hdr_ah (ss_hdr t))"
  have B: "length (ah_frags (hdr_ah (ss_hdr t))) = HDR_FRAGS" "length (ah_data (hdr_ah (ss_hdr t))) = LWS_MAX_HEADER_LEN"
    using assms(3) by (simp_all add: blank_ok_def)
  note F = fresh_table [OF B]
  have zero: "ah_next_frag ?ah = 0" "ah_pos ?ah = 0" by (simp_all add: lws_allocate_header_table_def)
  have vals: "k < WSI_TOKEN_COUNT \<and> (\<forall>u. v = Some u \<longrightarrow> 0 \<notin> set u)" if "(k, v) \<in> set ?hs" for k v
    using that fit by (auto simp: strings_fit_def)
  obtain ah where ah: "stash_headers ?hs s = Some (True, s\<lparr>ss_hdr := (ss_hdr s)\<lparr>hdr_ah := ah\<rparr>\<rparr>)" "ah_ok ah" "cur_sealed ah"
    "layout ah (stash_map ?hs Map.empty)" "\<And>k. (\<And>v. (k, Some v) \<notin> set ?hs) \<Longrightarrow> absent ?ah k \<Longrightarrow> absent ah k"
    using stash_headers_ok [OF assms(1,2) F(1,2), of Map.empty ?hs] fit vals zero by (auto simp: layout_def strings_fit_def)
  have map: "stash_map ?hs Map.empty = (client_map path host origin protocol)(WSI_TOKEN_CLIENT_PEER_ADDRESS \<mapsto> address)"
    by (cases origin; cases protocol) (auto simp: client_map_def)
  have none: "client_map path host origin protocol WSI_TOKEN_CLIENT_PEER_ADDRESS = None" by (simp add: client_map_def)
  have "layout ah (client_map path host origin protocol)"
    by (rule layout_mono [OF ah(4)]) (use none in \<open>auto simp: map simp del: stash_map.simps\<close>)
  moreover have "stored ah WSI_TOKEN_CLIENT_PEER_ADDRESS address" using ah(4) unfolding map by (simp add: layout_def)
  ultimately show thesis
    by (intro that [of ah] ah(1-3)) (use ah(5) F(3) in auto)
qed

section \<open>The client at its start\<close>

lemma stored_address:
  "stored (hdr_ah (ss_hdr s)) WSI_TOKEN_CLIENT_PEER_ADDRESS a \<Longrightarrow> ss_ah s = Ah_valid \<Longrightarrow> ah_ok (hdr_ah (ss_hdr s)) \<Longrightarrow>
   hdr_string s WSI_TOKEN_CLIENT_PEER_ADDRESS = Some (Some a)"
  using header_access(2) [of s WSI_TOKEN_CLIENT_PEER_ADDRESS "Some a"]
  by (simp add: header_is_def holds_header_def ah_good_def)

lemma lookup_map:
  assumes "table_ok (cx_fds c)" "table_map (cx_fds c) fd = Some i"
  shows "lookup_fd fd c = Some (Some i)"
proof -
  obtain "ft_lookup (cx_fds c) ! nat fd = Some i" "0 \<le> fd" "fd < ft_max (cx_fds c)" by (rule table_mapD [OF assms])
  then show ?thesis using table_sizes [OF assms(1)] by (simp add: lookup_fd_def access_simps)
qed

section \<open>The calls of a connection in the making\<close>

lemma service_issue:
  assumes e: "entering c0 j s M c" and fd: "M fd = Some j" and mode: "ws_mode (ss_ws s) = LWS_CONNMODE_WS_CLIENT_ISSUE_HANDSHAKE"
    and clock: "sa_ret (cx_sys c0 (cx_calls c)) = cx_now c0" "cx_last_check c0 = cx_now c0" and listen: "cx_listen_fd c0 = 0"
    and f: "on_conn j (client_issue_handshake cfg app) (c\<lparr>cx_calls := cx_calls c + 1\<rparr>) = Some (0, c')"
  shows "libwebsocket_service_fd cfg app (Some (Local fd 1)) c = Some (0, c')"
proof -
  note D = enteringD [OF e]
  define c1 where "c1 = c\<lparr>cx_calls := cx_calls c + 1\<rparr>"
  have e1: "entering c0 j s M c1" unfolding c1_def by (rule entering_call(2) [OF e])
  note D1 = enteringD [OF e1]
  have "c1\<lparr>cx_now := cx_now c0\<rparr> = c1" using D1(10) by simp
  then have check: "check_timeouts cfg (Some (Local fd 1)) c = Some (False, c1)"
    using clock D(11) entering_call(1) [OF e] by (simp add: check_timeouts_def c1_def)
  have "lookup_fd fd c1 = Some (Some j)" using lookup_map [OF D1(4), of fd j] D1(5) fd by simp
  moreover have "service_mode cfg app S j 1 c1 = Some (0, c')" for S
    using D1(1) mode f [folded c1_def] by (simp add: service_mode_def lws_client_socket_service_def)
  ultimately show ?thesis
    using check D(12) D1(12) listen
    by (subst libwebsocket_service_fd.simps) (simp add: service_body_def listen_index_def)
qed

lemma open_socket_ok:
  assumes cfg: "plain_cfg cfg" and e: "entering c0 j s M c" and sock: "ss_sock s < 0"
    and sys: "sa_ret (cx_sys c0 (cx_calls c)) = fd" "0 \<le> fd" "0 \<le> sa_ret (cx_sys c0 (cx_calls c + 1))"
    and room: "fd < ft_max (cx_fds c0)" "M fd = None" "j \<notin> ran M" and iface: "\<not> cx_iface c0"
    and s': "s' = upd_ws (\<lambda>w. w\<lparr>ws_mode := LWS_CONNMODE_WS_CLIENT_WAITING_CONNECT, ws_pollin := True, ws_pollout := False\<rparr>)
       (s\<lparr>ss_sock := fd, ss_timeout := (PENDING_TIMEOUT_AWAITING_CONNECT_RESPONSE, ss_now s + 5)\<rparr>)"
  obtains c' where "open_socket cfg j c = Some (Inr (), c')" "entering c0 j s' (M(fd \<mapsto> j)) c'" "cx_calls c' = cx_calls c + 2"
proof -
  note D = enteringD [OF e]
  let ?sA = "s\<lparr>ss_sock := fd\<rparr>" and ?mode = "upd_ws (ws_mode_update (\<lambda>_. LWS_CONNMODE_WS_CLIENT_WAITING_CONNECT))"
  define c1 where "c1 = c\<lparr>cx_calls := cx_calls c + 1\<rparr>"
  have e1: "entering c0 j s M c1" unfolding c1_def by (rule entering_call(2) [OF e])
  obtain c2 where c2: "on_conn' j (\<lambda>s. Some (s\<lparr>ss_sock := fd\<rparr>)) c1 = Some c2" "entering c0 j ?sA M c2" "cx_calls c2 = cx_calls c1"
    by (rule entering_keep' [where f = "\<lambda>s. Some (s\<lparr>ss_sock := fd\<rparr>)" and s' = ?sA, OF e1]) (use D in \<open>simp_all add: fds_out\<close>)
  define c3 where "c3 = c2\<lparr>cx_calls := cx_calls c2 + 1\<rparr>"
  have e3: "entering c0 j ?sA M c3" unfolding c3_def by (rule entering_call(2) [OF c2(2)])
  let ?f = "\<lambda>s. do {
             (_, s) \<leftarrow> insert_wsi_socket_into_fds cfg (?mode s);
             Some (libwebsocket_set_timeout PENDING_TIMEOUT_AWAITING_CONNECT_RESPONSE AWAITING_TIMEOUT s) }"
  obtain t where t: "insert_wsi_socket_into_fds cfg ((?mode ?sA)\<lparr>ss_fds := cx_fds c3\<rparr>) =
      Some (0, (upd_ws (\<lambda>w. w\<lparr>ws_pollin := True, ws_pollout := False\<rparr>) (?mode ?sA))\<lparr>ss_fds := t\<rparr>)"
    "table_ok t" "table_map t = M(ss_sock (?mode ?sA) \<mapsto> j)" "in_slots j t" "ft_max t = ft_max (cx_fds c0)"
    by (rule entering_insert [OF cfg e3, of "?mode ?sA"]) (use D(2) sys(2) room in simp_all)
  have f: "?f (?sA\<lparr>ss_fds := cx_fds c3\<rparr>) = Some (s'\<lparr>ss_fds := t\<rparr>)"
    using t(1) by (simp add: s' libwebsocket_set_timeout_def fds_out) (simp add: upd_ws_def)
  obtain c4 where c4: "on_conn' j ?f c3 = Some c4" "entering c0 j s' (M(ss_sock (?mode ?sA) \<mapsto> j)) c4" "cx_calls c4 = cx_calls c3"
    by (rule entering_step' [where f = ?f and s' = s', OF e3 f _ _ _ t(2-5)]) (use D s' in \<open>simp_all add: upd_ws_def\<close>)
  have "open_socket cfg j c = Some (Inr (), c4)"
    using D(1) sock sys entering_call(1) [OF e] entering_call(1) [OF c2(2)] c2(1,3) c4(1) iface enteringD(14) [OF c4(2)]
    by (simp add: open_socket_def c1_def c3_def)
  then show thesis using that c4 c2(3) by (simp add: c1_def c3_def)
qed

text \<open>The session when the handshake is issued.\<close>

definition issuing :: "int \<Rightarrow> 'x session \<Rightarrow> 'x session" where
  "issuing fd s = upd_ws (\<lambda>w. w\<lparr>ws_mode := LWS_CONNMODE_WS_CLIENT_ISSUE_HANDSHAKE, ws_pollin := True, ws_pollout := False\<rparr>)
     (s\<lparr>ss_sock := fd, ss_timeout := (PENDING_TIMEOUT_SENT_CLIENT_HANDSHAKE, ss_now s + 5)\<rparr>)"

text \<open>The answers of the system: the address, a socket, its options, \<open>connect\<close> and the time.\<close>

definition connect_answers :: "'x lws_context \<Rightarrow> nat \<Rightarrow> int \<Rightarrow> bool" where
  "connect_answers c n fd \<longleftrightarrow> 0 \<le> sa_ret (cx_sys c n) \<and> sa_ret (cx_sys c (n + 1)) = fd \<and> 0 \<le> sa_ret (cx_sys c (n + 2)) \<and>
     sa_ret (cx_sys c (n + 3)) \<noteq> -1 \<and> sa_errno (cx_sys c (n + 3)) \<noteq> LWS_EISCONN \<and> sa_ret (cx_sys c (n + 4)) = cx_now c \<and>
     cx_last_check c = cx_now c"

lemma hdr_string_fds: "hdr_string (s\<lparr>ss_fds := t\<rparr>) h = hdr_string s h"
  by (simp add: hdr_string_def the_ah_def)

lemma connect_2_ok:
  assumes cfg: "plain_cfg cfg" and e: "entering c0 j s M c" and sock: "ss_sock s < 0" and ah: "hdr_string s WSI_TOKEN_CLIENT_PEER_ADDRESS = Some (Some a)"
    and env: "cx_proxy c0 = None" "\<not> cx_iface c0" "cx_listen_fd c0 = 0" and sys: "connect_answers c0 (cx_calls c) fd"
    and room: "0 \<le> fd" "fd < ft_max (cx_fds c0)" "M fd = None" "j \<notin> ran M"
  obtains c' where "entering c0 j (issuing fd s) (M(fd \<mapsto> j)) c'"
    "\<And>app c''. on_conn j (client_issue_handshake cfg app) c' = Some (0, c'') \<Longrightarrow>
       libwebsocket_client_connect_2 cfg (\<lambda>p. libwebsocket_service_fd cfg app (Some p)) j c = Some (True, c'')"
proof -
  note D = enteringD [OF e]
  have prep: "proxy_prepare c (s\<lparr>ss_fds := cx_fds c\<rparr>) = Some (0, s\<lparr>ss_fds := cx_fds c\<rparr>)"
    using ah D(13) env(1) hdr_string_fds [where s = s] by (simp add: proxy_prepare_def)
  obtain c1 where c1: "on_conn j (proxy_prepare c) c = Some (0, c1)" "entering c0 j s M c1" "cx_calls c1 = cx_calls c"
    by (rule entering_keep [where f = "proxy_prepare c", OF e prep]) (use D in simp_all)
  define c2 where "c2 = c1\<lparr>cx_calls := cx_calls c1 + 1\<rparr>"
  have e2: "entering c0 j s M c2" "cx_calls c2 = cx_calls c + 1" using entering_call(2) [OF c1(2)] c1(3) by (simp_all add: c2_def)
  let ?s3 = "upd_ws (\<lambda>w. w\<lparr>ws_mode := LWS_CONNMODE_WS_CLIENT_WAITING_CONNECT, ws_pollin := True, ws_pollout := False\<rparr>)
       (s\<lparr>ss_sock := fd, ss_timeout := (PENDING_TIMEOUT_AWAITING_CONNECT_RESPONSE, ss_now s + 5)\<rparr>)"
  obtain c3 where c3: "open_socket cfg j c2 = Some (Inr (), c3)" "entering c0 j ?s3 (M(fd \<mapsto> j)) c3" "cx_calls c3 = cx_calls c2 + 2"
    by (rule open_socket_ok [OF cfg e2(1) sock _ room(1) _ room(2-4) env(2)]) (use sys e2(2) in \<open>auto simp: connect_answers_def\<close>)
  define c4 where "c4 = c3\<lparr>cx_calls := cx_calls c3 + 1\<rparr>"
  have e4: "entering c0 j ?s3 (M(fd \<mapsto> j)) c4" "cx_calls c4 = cx_calls c + 4"
    using entering_call(2) [OF c3(2)] c3(3) e2(2) by (simp_all add: c4_def)
  let ?g = "\<lambda>s. Some (upd_ws (ws_mode_update (\<lambda>_. LWS_CONNMODE_WS_CLIENT_ISSUE_HANDSHAKE))
            (libwebsocket_set_timeout PENDING_TIMEOUT_SENT_CLIENT_HANDSHAKE AWAITING_TIMEOUT s))"
  have g: "?g (?s3\<lparr>ss_fds := cx_fds c4\<rparr>) = Some ((issuing fd s)\<lparr>ss_fds := cx_fds c4\<rparr>)"
    by (simp add: libwebsocket_set_timeout_def issuing_def upd_ws_def)
  obtain c5 where c5: "on_conn' j ?g c4 = Some c5" "entering c0 j (issuing fd s) (M(fd \<mapsto> j)) c5" "cx_calls c5 = cx_calls c4"
    by (rule entering_keep' [where f = ?g and s' = "issuing fd s", OF e4(1) g]) (use D in \<open>simp_all add: issuing_def upd_ws_def\<close>)
  define c6 where "c6 = c5\<lparr>cx_calls := cx_calls c5 + 1\<rparr>"
  have e6: "entering c0 j (issuing fd s) (M(fd \<mapsto> j)) c6" using entering_call(2) [OF c5(2)] by (simp add: c6_def)
  have calls: "sys_call c1 = (cx_sys c0 (cx_calls c), c2)" "sys_call c3 = (cx_sys c0 (cx_calls c + 3), c4)"
    using entering_call(1) [OF c1(2)] entering_call(1) [OF c3(2)] c1(3) c3(3) e2(2) by (simp_all add: c2_def c4_def numeral_3_eq_3)
  have "libwebsocket_client_connect_2 cfg (\<lambda>p. libwebsocket_service_fd cfg app (Some p)) j c = Some (True, c'')"
    if issue: "on_conn j (client_issue_handshake cfg app) c6 = Some (0, c'')" for app c''
  proof -
    have "libwebsocket_service_fd cfg app (Some (Local fd 1)) c5 = Some (0, c'')"
      by (rule service_issue [OF c5(2) _ _ _ _ env(3) issue [unfolded c6_def]])
        (use sys c5(3) e4(2) in \<open>auto simp: issuing_def connect_answers_def upd_ws_def\<close>)
    then have "connect_direct cfg (\<lambda>p. libwebsocket_service_fd cfg app (Some p)) j c4 = Some (True, c'')"
      using c5(1) enteringD(1) [OF c5(2)] by (simp add: connect_direct_def issuing_def upd_ws_def)
    then show ?thesis
      using c1(1) c3(1) calls sys enteringD(13) [OF e4(1)] env(1)
      by (simp add: libwebsocket_client_connect_2_def connect_answers_def)
  qed
  then show thesis using that e6 by blast
qed

text \<open>Random bytes for the key and a socket that takes the request, in the memory of a new connection.\<close>

definition blank_sends :: "'x session \<Rightarrow> bytes \<Rightarrow> nat \<Rightarrow> bool" where
  "blank_sends t r n \<longleftrightarrow> length r = 16 \<and> (\<exists>rs. ws_randoms (ss_ws t) = r # rs) \<and> (\<exists>k ks. ws_sends (ss_ws t) = Send_accepts k # ks \<and> n \<le> k)"

text \<open>A connection \<open>j\<close> whose request is on the wire, and that waits for the answer.\<close>

definition request_sent :: "'x ss_cfg \<Rightarrow> nat \<Rightarrow> int \<Rightarrow> int \<Rightarrow> bytes \<Rightarrow> bytes \<Rightarrow> (nat \<rightharpoonup> bytes) \<Rightarrow> 'x session \<Rightarrow> bool" where
  "request_sent cfg j fd now req r M s \<longleftrightarrow> ws_wire (ss_ws s) = req \<and> ws_mode (ss_ws s) = LWS_CONNMODE_WS_CLIENT_WAITING_SERVER_REPLY \<and>
     client_waiting s M \<and> cstr (ss_expected s) = Some (accept_of (b64_spec r)) \<and>
     ss_timeout s = (PENDING_TIMEOUT_AWAITING_SERVER_RESPONSE, now + 5) \<and> closable cfg s \<and> ss_sock s = fd \<and> ss_id s = j \<and> ss_now s = now"

lemma request_sent_fds: "request_sent cfg j fd now req r M (s\<lparr>ss_fds := t\<rparr>) = request_sent cfg j fd now req r M s"
  by (simp add: request_sent_def client_waiting_def session_holds_def ah_good_def closable_def)

text \<open>The connection that \<open>libwebsocket_client_connect\<close> fills in, with the store \<open>ah\<close>, as it is taken from the context.\<close>

definition dialing :: "nat \<Rightarrow> 'x session \<Rightarrow> nat \<Rightarrow> int \<Rightarrow> allocated_headers \<Rightarrow> bytes \<Rightarrow> int \<Rightarrow> bool \<Rightarrow> bool \<Rightarrow> 'x session" where
  "dialing j t port version ah m now b d =
     (let s = with_header_table (new_client port version (zero_session j t))
      in s\<lparr>ss_hdr := (ss_hdr s)\<lparr>hdr_ah := ah\<rparr>, ss_protocol := Some 0, ss_service := m, ss_now := now, ss_ws := (ss_ws s)\<lparr>ws_pollin := b, ws_pollout := d\<rparr>\<rparr>)"

text \<open>The store holds the headers of the request.\<close>

definition holds_request :: "allocated_headers \<Rightarrow> bytes \<Rightarrow> bytes \<Rightarrow> bytes option \<Rightarrow> bytes option \<Rightarrow> bool" where
  "holds_request ah path host origin protocol \<longleftrightarrow> ah_ok ah \<and> cur_sealed ah \<and> layout ah (client_map path host origin protocol) \<and>
     (\<forall>h < 31. absent ah h) \<and> (origin = None \<longrightarrow> absent ah WSI_TOKEN_CLIENT_ORIGIN) \<and>
     (protocol = None \<longrightarrow> absent ah WSI_TOKEN_CLIENT_SENT_PROTOCOLS)"

lemmas dialing_defs = dialing_def issuing_def upd_ws_def with_header_table_def new_client_def zero_session_def zero_wsi_def

lemma dialing_start:
  assumes "blank_ok t" "version = -1 \<or> version = 13" "holds_request ah path host origin protocol" "length m = LWS_MAX_SOCKET_IO_BUF"
  shows "client_start ((issuing fd (dialing j t port version ah m now b d))\<lparr>ss_fds := f\<rparr>) path host origin protocol"
  using assms by (auto simp: client_start_def blank_ok_def holds_request_def dialing_defs Let_def)

lemma dialing_fields:
  assumes "c = (issuing fd (dialing j t port version ah m now b d))\<lparr>ss_fds := f\<rparr>"
  shows "ss_id c = j" "ss_sock c = fd" "ss_now c = now" "ss_protocol c = Some 0" "ss_exts c = []" "ss_fds c = f" "\<not> ss_gone c" "ss_ah c = Ah_valid"
    "ws_wire (ss_ws c) = []" "ws_state (ss_ws c) = WSI_STATE_CLIENT_UNCONNECTED" "ws_mode (ss_ws c) = LWS_CONNMODE_WS_CLIENT_ISSUE_HANDSHAKE"
    "ws_randoms (ss_ws c) = ws_randoms (ss_ws t)" "ws_sends (ss_ws c) = ws_sends (ss_ws t)"
  using assms by (simp_all add: dialing_defs Let_def)

lemma issue_dialing:
  assumes cfg: "plain_cfg cfg" "sc_protocols cfg \<noteq> []" and t: "blank_ok t" "blank_sends t r (length req)" and version: "version = -1 \<or> version = 13"
    and ah: "holds_request ah path host origin protocol" and m: "length m = LWS_MAX_SOCKET_IO_BUF"
    and req: "req = client_request path host (b64_spec r) origin protocol" "length req < LWS_MAX_SOCKET_IO_BUF"
  shows "\<exists>c1. client_issue_handshake cfg (\<lambda>_. []) ((issuing fd (dialing j t port version ah m now b d))\<lparr>ss_fds := f\<rparr>) = Some (0, c1\<lparr>ss_fds := f\<rparr>) \<and>
    request_sent cfg j fd now req r (client_map path host origin protocol) c1"
proof -
  let ?c = "(issuing fd (dialing j t port version ah m now b d))\<lparr>ss_fds := f\<rparr>"
  note start = dialing_start [OF t(1) version ah m, where f = f and fd = fd and j = j and port = port and now = now and b = b and d = d]
  note F = dialing_fields [of ?c, OF refl]
  obtain rs k ks where R: "ws_randoms (ss_ws t) = r # rs" "ws_sends (ss_ws t) = Send_accepts k # ks" "length req \<le> k" "length r = 16"
    using t(2) by (auto simp: blank_sends_def)
  have rnd: "libwebsockets_get_random (ss_ws ?c) 16 = (r, (ss_ws ?c)\<lparr>ws_randoms := rs\<rparr>)"
    using R F(12) by (simp add: libwebsockets_get_random_def)
  have send: "ws_sends ((ss_ws ?c)\<lparr>ws_randoms := rs\<rparr>) = Send_accepts k # ks" "length req \<le> k" using R F(13) by simp_all
  obtain c1 where c1: "client_issue_handshake cfg (\<lambda>_. []) ?c = Some (0, c1)" "ws_wire (ss_ws c1) = ws_wire (ss_ws ?c) @ req"
    "ws_mode (ss_ws c1) = LWS_CONNMODE_WS_CLIENT_WAITING_SERVER_REPLY" "client_waiting c1 (client_map path host origin protocol)"
    "cstr (ss_expected c1) = Some (accept_of (b64_spec r))" "issued ?c c1"
    using issue_ok [OF cfg(1) start rnd R(4) req send] by blast
  have "request_sent cfg j fd now req r (client_map path host origin protocol) c1" "c1\<lparr>ss_fds := f\<rparr> = c1"
    using c1 cfg(2) F unfolding request_sent_def issued_def closable_def client_waiting_def by auto
  then show ?thesis using c1(1) by metis
qed

section \<open>The call\<close>

text \<open>Nothing that the call asks of the system fails up to the request.\<close>

definition can_dial :: "'x ss_cfg \<Rightarrow> 'x lws_context \<Rightarrow> int \<Rightarrow> bool" where
  "can_dial cfg c fd \<longleftrightarrow> plain_cfg cfg \<and> cx_ok cfg c \<and> sc_protocols cfg \<noteq> [] \<and> cx_proxy c = None \<and> \<not> cx_iface c \<and> cx_listen_fd c = 0 \<and>
     length (cx_service c) = LWS_MAX_SOCKET_IO_BUF \<and> 0 \<le> sa_ret (cx_sys c (cx_calls c)) \<and> 0 \<le> sa_ret (cx_sys c (cx_calls c + 1)) \<and>
     connect_answers c (cx_calls c + 2) fd \<and> 0 \<le> fd \<and> fd < ft_max (cx_fds c) \<and> table_map (cx_fds c) fd = None \<and>
     blank_ok (cx_blank c (cx_fresh c))"

lemma dial_reaches:
  assumes dial: "can_dial cfg c fd" and fit: "strings_fit address path host origin protocol"
  obtains ah b d c5 where "holds_request ah path host origin protocol"
    "entering (c\<lparr>cx_calls := cx_calls c + 2\<rparr>) (cx_fresh c) (issuing fd (dialing (cx_fresh c) (cx_blank c (cx_fresh c)) port version ah (cx_service c) (cx_now c) b d))
       ((table_map (cx_fds c))(fd \<mapsto> cx_fresh c)) c5"
    "\<And>app c'. on_conn (cx_fresh c) (client_issue_handshake cfg app) c5 = Some (0, c') \<Longrightarrow>
       libwebsocket_client_connect cfg (\<lambda>p. libwebsocket_service_fd cfg app (Some p)) address port path host origin protocol version c
         = Some (Some (cx_fresh c), c')"
proof -
  let ?j = "cx_fresh c" and ?t = "cx_blank c (cx_fresh c)" and ?M = "table_map (cx_fds c)"
  note A = dial [unfolded can_dial_def]
  have ok: "cx_ok cfg c" using A by blast
  define c2 where "c2 = c\<lparr>cx_calls := cx_calls c + 2\<rparr>"
  have c2: "cx_ok cfg c2" "cx_fresh c2 = ?j" "cx_fds c2 = cx_fds c" "cx_now c2 = cx_now c" "cx_service c2 = cx_service c"
    "cx_calls c2 = cx_calls c + 2" "connect_answers c2 = connect_answers c" "cx_proxy c2 = None" "\<not> cx_iface c2" "cx_listen_fd c2 = 0" "cx_blank c2 = cx_blank c"
    using A by (simp_all add: c2_def cx_ok_calls connect_answers_def fun_eq_iff)
  let ?n = "with_header_table (new_client port version (zero_session ?j ?t))"
  have n: "ss_ah ?n = Ah_valid" "hdr_ah (ss_hdr ?n) = lws_allocate_header_table (hdr_ah (ss_hdr ?t))"
    by (simp_all add: with_header_table_def new_client_def zero_session_def upd_ws_def)
  have blank: "blank_ok ?t" using A by blast
  obtain ah where ah: "stash_headers (connect_headers address path host origin protocol) ?n = Some (True, ?n\<lparr>ss_hdr := (ss_hdr ?n)\<lparr>hdr_ah := ah\<rparr>\<rparr>)"
    "stored ah WSI_TOKEN_CLIENT_PEER_ADDRESS address" "holds_request ah path host origin protocol"
    by (rule connect_headers_stored [OF n blank fit]) (use holds_request_def in blast)
  let ?a = "?n\<lparr>ss_hdr := (ss_hdr ?n)\<lparr>hdr_ah := ah\<rparr>\<rparr>\<lparr>ss_protocol := Some 0\<rparr>"
  have a: "ss_id ?a = cx_fresh c2" "\<not> ss_gone ?a"
    by (simp_all add: c2(2) with_header_table_def new_client_def zero_session_def upd_ws_def)
  obtain b d where e: "entering c2 ?j (?a\<lparr>ss_service := cx_service c, ss_now := cx_now c, ss_ws := (ss_ws ?a)\<lparr>ws_pollin := b, ws_pollout := d\<rparr>\<rparr>)
      ?M (add_conn ?a c2)" and calls: "cx_calls (add_conn ?a c2) = cx_calls c + 2"
    using entering_start [OF c2(1) a] A unfolding c2(2-6) by (meson order.strict_trans1)
  define s where "s = dialing ?j ?t port version ah (cx_service c) (cx_now c) b d"
  have e: "entering c2 ?j s ?M (add_conn ?a c2)" using e by (simp add: s_def dialing_def Let_def)
  have s: "ss_sock s < 0" "hdr_string s WSI_TOKEN_CLIENT_PEER_ADDRESS = Some (Some address)" "\<not> ss_gone s" "ss_id s = ?j"
    using ah(2,3) stored_address [of s address] by (simp_all add: s_def dialing_defs Let_def holds_request_def)
  have exts: "sc_ext_names cfg = []" using A by (simp add: plain_cfg_def)
  let ?w = "\<lambda>s. Some (exts_walk cfg LWS_EXT_CALLBACK_CAN_PROXY_CLIENT_CONNECTION (\<lambda>m. m \<noteq> 0) address [0..<length (sc_ext_names cfg)] s)"
  obtain c3 where c3: "on_conn ?j ?w (add_conn ?a c2) = Some (False, c3)" "entering c2 ?j s ?M c3" "cx_calls c3 = cx_calls c + 2"
    by (rule entering_keep [where f = ?w and s' = s and r = False, OF e]) (use s calls in \<open>simp_all add: exts\<close>)
  have free: "?j \<notin> ran ?M" by (rule cx_fresh_free(2) [OF ok])
  obtain c5 where c5: "entering c2 ?j (issuing fd s) (?M(fd \<mapsto> ?j)) c5"
    "\<And>app c'. on_conn ?j (client_issue_handshake cfg app) c5 = Some (0, c') \<Longrightarrow>
       libwebsocket_client_connect_2 cfg (\<lambda>p. libwebsocket_service_fd cfg app (Some p)) ?j c3 = Some (True, c')"
    by (rule connect_2_ok [OF _ c3(2) s(1,2) c2(8-10), of cfg fd]) (use A c2(3,7) c3(3) free in auto)
  define c1 where "c1 = c\<lparr>cx_calls := cx_calls c + 1\<rparr>"
  have mallocs: "sys_call c = (cx_sys c (cx_calls c), c1)" "sys_call c1 = (cx_sys c (cx_calls c + 1), c2)"
    by (simp_all add: sys_call_def c1_def c2_def)
  have "libwebsocket_client_connect cfg (\<lambda>p. libwebsocket_service_fd cfg app (Some p)) address port path host origin protocol version c
      = Some (Some ?j, c')" if "on_conn ?j (client_issue_handshake cfg app) c5 = Some (0, c')" for app c'
    unfolding libwebsocket_client_connect_def mallocs prod.case Let_def c2(2,11) ah(1) Option.bind.bind_lunit c3(1) c5(2) [OF that]
    using A by simp
  then show thesis using that ah(3) c5(1) unfolding s_def c2_def by blast
qed

text \<open>C11: A call of \<open>libwebsocket_client_connect\<close> for which memory, address, socket and \<open>connect\<close> are there returns
  the new connection: it is in the table under its socket, exactly the request for the given path, host, origin and protocols
  is on its wire with a key for the random bytes drawn, the answer expected is the one for this key, and the server has five
  seconds. No other connection changes.\<close>

theorem connect_sends_request:
  assumes dial: "can_dial cfg c fd" and blank: "blank_sends (cx_blank c (cx_fresh c)) r (length req)"
    and args: "version = -1 \<or> version = 13" "strings_fit address path host origin protocol"
    and req: "req = client_request path host (b64_spec r) origin protocol" "length req < LWS_MAX_SOCKET_IO_BUF"
  shows "\<exists>c' s. libwebsocket_client_connect cfg (\<lambda>p. libwebsocket_service_fd cfg (\<lambda>_. []) (Some p)) address port path host origin protocol version c
      = Some (Some (cx_fresh c), c') \<and>
    cx_ok cfg c' \<and> table_map (cx_fds c') = (table_map (cx_fds c))(fd \<mapsto> cx_fresh c) \<and> load (cx_fresh c) c' = Some s \<and>
    request_sent cfg (cx_fresh c) fd (cx_now c) req r (client_map path host origin protocol) s \<and>
    (\<forall>k. k \<noteq> cx_fresh c \<longrightarrow> cx_conns c' k = cx_conns c k)"
proof -
  let ?j = "cx_fresh c" and ?t = "cx_blank c (cx_fresh c)" and ?M = "table_map (cx_fds c)"
  note A = dial [unfolded can_dial_def]
  let ?c2 = "c\<lparr>cx_calls := cx_calls c + 2\<rparr>"
  obtain ah b d c5 where ah: "holds_request ah path host origin protocol" and
    e: "entering ?c2 ?j (issuing fd (dialing ?j ?t port version ah (cx_service c) (cx_now c) b d)) (?M(fd \<mapsto> ?j)) c5" and
    run: "\<And>app c'. on_conn ?j (client_issue_handshake cfg app) c5 = Some (0, c') \<Longrightarrow>
       libwebsocket_client_connect cfg (\<lambda>p. libwebsocket_service_fd cfg app (Some p)) address port path host origin protocol version c
         = Some (Some ?j, c')"
    by (rule dial_reaches [OF dial args(2)]) blast
  obtain c1 where c1: "client_issue_handshake cfg (\<lambda>_. []) ((issuing fd (dialing ?j ?t port version ah (cx_service c) (cx_now c) b d))\<lparr>ss_fds := cx_fds c5\<rparr>)
      = Some (0, c1\<lparr>ss_fds := cx_fds c5\<rparr>)" "request_sent cfg ?j fd (cx_now c) req r (client_map path host origin protocol) c1"
    using issue_dialing [OF _ _ _ blank args(1) ah _ req] A by blast
  have I: "\<not> ss_gone c1" "ss_now c1 = cx_now c" "ss_id c1 = ?j" "ss_sock c1 = fd" "closable cfg c1"
    using c1(2) by (simp_all add: request_sent_def closable_def)
  obtain c' where c': "on_conn ?j (client_issue_handshake cfg (\<lambda>_. [])) c5 = Some (0, c')" "entering ?c2 ?j c1 (?M(fd \<mapsto> ?j)) c'"
    by (rule entering_keep [where f = "client_issue_handshake cfg (\<lambda>_. [])", OF e c1(1) I(1) _ I(3)])
      (use I(2) in \<open>simp add: dialing_defs Let_def\<close>, blast)
  note D = enteringD [OF c'(2)]
  have "cx_ok cfg c'" by (rule entered_ok [of cfg ?c2 c1 fd]) (use A c'(2) I(4,5) in \<open>simp_all add: cx_ok_calls\<close>)
  then show ?thesis
    using run [OF c'(1)] D(1,5) D(8) c1(2) by (intro exI [of _ c'] exI [of _ "c1\<lparr>ss_fds := cx_fds c'\<rparr>"]) (simp add: request_sent_fds)
qed

section \<open>A request that cannot be sent\<close>

lemma issue_fails:
  assumes cfg: "plain_cfg cfg" "sc_protocols cfg \<noteq> []" and t: "blank_ok t" "ws_randoms (ss_ws t) = r # rs" "length r = 16" "ws_sends (ss_ws t) = Send_error # ks"
    and version: "version = -1 \<or> version = 13" and ah: "holds_request ah path host origin protocol" and m: "length m = LWS_MAX_SOCKET_IO_BUF"
    and len: "length (client_request path host (b64_spec r) origin protocol) < LWS_MAX_SOCKET_IO_BUF"
    and f: "table_ok f" "table_map f fd = Some j"
  obtains c1 where "client_issue_handshake cfg (\<lambda>_. []) ((issuing fd (dialing j t port version ah m now b d))\<lparr>ss_fds := f\<rparr>) = Some (0, c1)"
    "ss_gone c1" "table_ok (ss_fds c1)" "table_map (ss_fds c1) = (table_map f)(fd := None)"
proof -
  let ?c = "(issuing fd (dialing j t port version ah m now b d))\<lparr>ss_fds := f\<rparr>" and ?req = "client_request path host (b64_spec r) origin protocol"
  note start = dialing_start [OF t(1) version ah m, where f = f and fd = fd and j = j and port = port and now = now and b = b and d = d]
  note F = dialing_fields [of ?c, OF refl]
  let ?w = "(ss_ws ?c)\<lparr>ws_randoms := rs\<rparr>"
  have rnd: "libwebsockets_get_random (ss_ws ?c) 16 = (r, ?w)"
    using t(2,3) F(12) by (simp add: libwebsockets_get_random_def)
  obtain k where g: "libwebsockets_generate_client_handshake cfg (\<lambda>_. []) ?c = Some (Some (length ?req),
      ?c\<lparr>ss_ws := ?w, ss_service := k, ss_expected := accept_of (b64_spec r) @ 0 # drop 29 (ss_expected ?c)\<rparr>)"
    using generate_handshake [OF cfg(1) start_ready [OF start] rnd t(3) refl len] by blast
  let ?v = "?c\<lparr>ss_service := k, ss_expected := accept_of (b64_spec r) @ 0 # drop 29 (ss_expected ?c), ss_ws := ?w\<lparr>ws_sends := ks\<rparr>\<rparr>"
  have "env_send ?w x = (Send_error, ?w\<lparr>ws_sends := ks\<rparr>)" for x using t(4) F(13) by (simp add: env_send_def)
  then have issue: "client_issue_handshake cfg (\<lambda>_. []) ?c = map_option (Pair 0) (libwebsocket_close_and_free_session cfg LWS_CLOSE_STATUS_NOSTATUS ?v)"
    using g by (simp add: client_issue_handshake_def map_option_bind)
  have v: "closable cfg ?v" "table_ok (ss_fds ?v)" "table_map (ss_fds ?v) (ss_sock ?v) = Some (ss_id ?v)"
    using F f cfg(2) by (simp_all add: closable_def)
  obtain c1 where "libwebsocket_close_and_free_session cfg LWS_CLOSE_STATUS_NOSTATUS ?v = Some c1" "ss_gone c1"
    "table_ok (ss_fds c1)" "table_map (ss_fds c1) = (table_map (ss_fds ?v))(ss_sock ?v := None)"
    by (rule close_plain [OF cfg(1) v])
  then show thesis using that issue F by simp
qed

text \<open>C34: When the very first \<open>send\<close> fails, the connection is closed, taken out of the table and freed, and the call returns it
  all the same: the service that it provokes answers 0, not the 1 that \<open>libwebsocket_client_connect_2\<close> looks for.\<close>

theorem connect_returns_freed:
  assumes dial: "can_dial cfg c fd" and args: "version = -1 \<or> version = 13" "strings_fit address path host origin protocol"
    and blank: "ws_randoms (ss_ws (cx_blank c (cx_fresh c))) = r # rs" "length r = 16" "ws_sends (ss_ws (cx_blank c (cx_fresh c))) = Send_error # ks"
    and len: "length (client_request path host (b64_spec r) origin protocol) < LWS_MAX_SOCKET_IO_BUF"
  shows "\<exists>c'. libwebsocket_client_connect cfg (\<lambda>p. libwebsocket_service_fd cfg (\<lambda>_. []) (Some p)) address port path host origin protocol version c
      = Some (Some (cx_fresh c), c') \<and> cx_conns c' (cx_fresh c) = None \<and> table_map (cx_fds c') = table_map (cx_fds c)"
proof -
  let ?j = "cx_fresh c" and ?t = "cx_blank c (cx_fresh c)" and ?M = "table_map (cx_fds c)"
  note A = dial [unfolded can_dial_def]
  obtain ah b d c5 where ah: "holds_request ah path host origin protocol" and
    e: "entering (c\<lparr>cx_calls := cx_calls c + 2\<rparr>) ?j (issuing fd (dialing ?j ?t port version ah (cx_service c) (cx_now c) b d)) (?M(fd \<mapsto> ?j)) c5" and
    run: "\<And>app c'. on_conn ?j (client_issue_handshake cfg app) c5 = Some (0, c') \<Longrightarrow>
       libwebsocket_client_connect cfg (\<lambda>p. libwebsocket_service_fd cfg app (Some p)) address port path host origin protocol version c
         = Some (Some ?j, c')"
    by (rule dial_reaches [OF dial args(2)]) blast
  note D = enteringD [OF e]
  have t: "blank_ok ?t" "length (cx_service c) = LWS_MAX_SOCKET_IO_BUF" "?M fd = None" "plain_cfg cfg" "sc_protocols cfg \<noteq> []" using A by blast+
  obtain c1 where c1: "client_issue_handshake cfg (\<lambda>_. []) ((issuing fd (dialing ?j ?t port version ah (cx_service c) (cx_now c) b d))\<lparr>ss_fds := cx_fds c5\<rparr>)
      = Some (0, c1)" "ss_gone c1" "table_ok (ss_fds c1)" "table_map (ss_fds c1) = (table_map (cx_fds c5))(fd := None)"
    by (rule issue_fails [OF t(4,5,1) blank args(1) ah t(2) len D(4), of fd ?j]) (use D(5) in simp_all)
  have "on_conn ?j (client_issue_handshake cfg (\<lambda>_. [])) c5 = Some (0, store ?j c1 c5)"
    using D(1) c1(1) by (simp add: on_conn_def)
  moreover have "cx_conns (store ?j c1 c5) ?j = None" using c1(2) by (simp add: store_def)
  moreover have "table_map (cx_fds (store ?j c1 c5)) = ?M"
    using put_events_table(2) [OF c1(3)] c1(4) D(5) t(3) by (simp add: store_def fun_upd_idem)
  ultimately show ?thesis using run by blast
qed

definition demo_fresh :: "unit session" where
  "demo_fresh = demo_server\<lparr>ss_ws := (ss_ws demo_server)\<lparr>ws_randoms := [replicate 16 0], ws_sends := [Send_accepts 4096]\<rparr>\<rparr>"

definition demo_dial :: "unit lws_context" where
  "demo_dial = demo_context\<lparr>cx_blank := (\<lambda>_. demo_fresh)\<rparr>"

lemma demo_strings: "strings_fit (str ''a.b'') (str ''/'') (str ''a.b'') None (Some (str ''web-tunnel''))"
  by (simp add: strings_fit_def str_def)

lemma demo_dials: "can_dial demo_cfg demo_dial 0"
proof -
  have c: "cx_fds demo_dial = cx_fds demo_context" "cx_sys demo_dial = (\<lambda>_. \<lparr>sa_ret = 0, sa_errno = 0, sa_data = []\<rparr>)"
    "cx_blank demo_dial n = demo_fresh" "length (cx_service demo_dial) = LWS_MAX_SOCKET_IO_BUF" "ft_max (cx_fds demo_context) = 3"
    "cx_proxy demo_dial = None" "\<not> cx_iface demo_dial" "cx_listen_fd demo_dial = 0" "cx_now demo_dial = 0" "cx_last_check demo_dial = 0" for n
    by (simp_all add: demo_dial_def) (simp_all add: demo_context_def)
  have "cx_ok demo_cfg demo_dial" using demo_context_ok by (simp add: demo_dial_def cx_ok_def)
  moreover have "sc_protocols demo_cfg \<noteq> []" by (simp add: demo_cfg_def)
  moreover have "blank_ok demo_fresh" using demo_blank by (simp add: demo_fresh_def blank_ok_def)
  ultimately show ?thesis using demo_plain by (simp add: can_dial_def connect_answers_def c demo_map)
qed

lemma connect_sends_request_witness:
  "\<exists>c' s. libwebsocket_client_connect demo_cfg (\<lambda>p. libwebsocket_service_fd demo_cfg (\<lambda>_. []) (Some p)) (str ''a.b'') 80 (str ''/'')
       (str ''a.b'') None (Some (str ''web-tunnel'')) (-1) demo_dial = Some (Some 2, c') \<and> load 2 c' = Some s \<and>
     ws_wire (ss_ws s) = client_request (str ''/'') (str ''a.b'') (b64_spec (replicate 16 0)) None (Some (str ''web-tunnel''))"
proof -
  let ?req = "client_request (str ''/'') (str ''a.b'') (b64_spec (replicate 16 0)) None (Some (str ''web-tunnel''))"
  have len: "length ?req < LWS_MAX_SOCKET_IO_BUF" by (rule length_lines_text [OF demo_fits])
  have c: "cx_fresh demo_dial = 2" "cx_blank demo_dial n = demo_fresh" for n
    by (simp_all add: demo_dial_def) (simp_all add: demo_context_def)
  have blank: "blank_sends demo_fresh (replicate 16 0) (length ?req)" using len by (simp add: demo_fresh_def blank_sends_def)
  from connect_sends_request [OF demo_dials _ _ demo_strings refl, of "replicate 16 0" "-1"]
  show ?thesis using c blank len by (fastforce simp: request_sent_def)
qed

definition demo_refused :: "unit lws_context" where
  "demo_refused = demo_context\<lparr>cx_blank := (\<lambda>_. demo_fresh\<lparr>ss_ws := (ss_ws demo_fresh)\<lparr>ws_sends := [Send_error]\<rparr>\<rparr>)\<rparr>"

lemma connect_returns_freed_witness:
  "\<exists>c'. libwebsocket_client_connect demo_cfg (\<lambda>p. libwebsocket_service_fd demo_cfg (\<lambda>_. []) (Some p)) (str ''a.b'') 80 (str ''/'')
       (str ''a.b'') None (Some (str ''web-tunnel'')) (-1) demo_refused = Some (Some 2, c') \<and> cx_conns c' 2 = None"
proof -
  let ?r = "replicate 16 (0 :: u8)"
  have c: "can_dial demo_cfg demo_refused 0 = can_dial demo_cfg demo_dial 0" "cx_fresh demo_refused = 2"
    by (simp_all add: can_dial_def connect_answers_def cx_ok_def demo_refused_def demo_dial_def blank_ok_def demo_fresh_def)
      (simp add: demo_context_def)
  have b: "ws_randoms (ss_ws (cx_blank demo_refused n)) = ?r # []" "ws_sends (ss_ws (cx_blank demo_refused n)) = Send_error # []" for n
    by (simp_all add: demo_refused_def demo_fresh_def)
  have len: "length (client_request (str ''/'') (str ''a.b'') (b64_spec ?r) None (Some (str ''web-tunnel''))) < LWS_MAX_SOCKET_IO_BUF"
    by (rule length_lines_text [OF demo_fits])
  from connect_returns_freed [where fd = 0 and version = "-1" and cfg = demo_cfg and port = 80, OF _ _ demo_strings b(1) _ b(2) len] demo_dials
  show ?thesis unfolding c by fastforce
qed

end
