(* ===== verification/Deflate.thy ===== *)
theory Deflate
  imports Session
begin

text \<open>
  The extensions that come with the library (\<open>lib/extension.c\<close>, \<open>lib/extension-deflate-frame.c\<close>,
  \<open>lib/extension-deflate-stream.c\<close>). zlib is not part of the program: its calls are the parameter \<open>zl\<close>, with a
  \<open>z_stream\<close> of any type \<open>'z\<close>. A call is given the input that is left and the room in the output, and answers with a
  status, the number of bytes taken, the bytes written and the stream after it.
\<close>

section \<open>zlib\<close>

datatype z_status = Z_OK | Z_STREAM_END | Z_BUF_ERROR | Z_NEED_DICT | Z_STREAM_ERROR | Z_DATA_ERROR | Z_MEM_ERROR
datatype z_flush = Z_PARTIAL_FLUSH | Z_SYNC_FLUSH | Z_FULL_FLUSH

type_synonym 'z z_step = "'z \<Rightarrow> bytes \<Rightarrow> nat \<Rightarrow> z_status \<times> nat \<times> bytes \<times> 'z"

text \<open>The two initialisations answer \<open>None\<close> for anything but \<open>Z_OK\<close>; the second gets the compression level.\<close>

record 'z zlib =
  inflateInit2 :: "'z option"
  deflateInit2 :: "int \<Rightarrow> 'z option"
  inflate :: "z_flush \<Rightarrow> 'z z_step"
  deflate :: "z_flush \<Rightarrow> 'z z_step"

section \<open>deflate-frame\<close>

abbreviation (input) "LWS_MAX_ZLIB_CONN_BUFFER \<equiv> (65536::nat)"
abbreviation (input) "Z_DEFAULT_COMPRESSION \<equiv> (-1::int)"
abbreviation (input) "SIZEOF_POINTER \<equiv> (8::nat)"

text \<open>\<open>struct lws_ext_deflate_frame_conn\<close>, with the answers of \<open>malloc\<close> to come (used up: success).\<close>

record 'z deflate_frame_conn =
  zs_in :: 'z
  zs_out :: 'z
  buf_pre_used :: nat
  buf_pre_length :: nat
  buf_in_length :: nat
  buf_out_length :: nat
  compressed_out :: bool
  buf_pre :: "bytes option"
  buf_in :: "bytes option"
  buf_out :: "bytes option"
  df_mallocs :: "bool list"

definition df_malloc :: "'z deflate_frame_conn \<Rightarrow> bool \<times> 'z deflate_frame_conn" where
  "df_malloc c = (case df_mallocs c of [] \<Rightarrow> (True, c) | b # bs \<Rightarrow> (b, c\<lparr>df_mallocs := bs\<rparr>))"

text \<open>Memory from \<open>malloc\<close>; what is in it does not matter.\<close>

definition padded :: "nat \<Rightarrow> bytes" where
  "padded n = replicate (LWS_SEND_BUFFER_PRE_PADDING + n + LWS_SEND_BUFFER_POST_PADDING) 0"

text \<open>The buffers start with the size of the pointers to them.\<close>

definition deflate_frame_construct :: "'z zlib \<Rightarrow> bool \<Rightarrow> 'z deflate_frame_conn \<Rightarrow> int \<times> 'z deflate_frame_conn" where
  "deflate_frame_construct zl listening c =
     (case inflateInit2 zl of
        None \<Rightarrow> (1, c)
      | Some zi \<Rightarrow> let c = c\<lparr>zs_in := zi\<rparr> in
          (case deflateInit2 zl (if listening then 1 else Z_DEFAULT_COMPRESSION) of
             None \<Rightarrow> (1, c)
           | Some zo \<Rightarrow>
               let c = c\<lparr>zs_out := zo, buf_pre_used := 0, buf_pre_length := 0, buf_in_length := SIZEOF_POINTER,
                     buf_out_length := SIZEOF_POINTER, compressed_out := False, buf_pre := None\<rparr>
               in case df_malloc c of
                 (False, c) \<Rightarrow> (-1, c\<lparr>buf_in := None\<rparr>)
               | (True, c) \<Rightarrow> let c = c\<lparr>buf_in := Some (padded SIZEOF_POINTER)\<rparr> in
                   (case df_malloc c of
                      (False, c) \<Rightarrow> (-1, c\<lparr>buf_out := None\<rparr>)
                    | (True, c) \<Rightarrow> (0, c\<lparr>buf_out := Some (padded SIZEOF_POINTER)\<rparr>))))"

text \<open>The pointers to the freed buffers stay; no callback follows.\<close>

definition deflate_frame_destroy :: "'z deflate_frame_conn \<Rightarrow> 'z deflate_frame_conn" where
  "deflate_frame_destroy c = c\<lparr>buf_pre_used := 0, buf_pre_length := 0, buf_in_length := 0, buf_out_length := 0, compressed_out := False\<rparr>"

text \<open>The loop around \<open>inflate\<close> or \<open>deflate\<close>: a full output buffer is doubled up to the limit. \<open>bad\<close> are the answers
  that end it, \<open>n\<close> is what was written before.\<close>

record 'z z_output =
  zo_ok :: bool
  zo_stream :: 'z
  zo_buf :: "bytes option"
  zo_size :: nat
  zo_len :: nat
  zo_mallocs :: "bool list"

partial_function (option) zlib_loop ::
    "'z z_step \<Rightarrow> (z_status \<Rightarrow> bool) \<Rightarrow> 'z \<Rightarrow> bytes \<Rightarrow> bytes \<Rightarrow> nat \<Rightarrow> nat \<Rightarrow> bool list \<Rightarrow> 'z z_output option" where
  "zlib_loop step bad z input mem cap n ms =
     (case step z input (cap - n) of (st, used, out, z) \<Rightarrow>
        Option.bind (ablit mem (LWS_SEND_BUFFER_PRE_PADDING + n) out) (\<lambda>mem.
          let n' = n + length out;
              stop = (\<lambda>ok buf cap ms. Some \<lparr>zo_ok = ok, zo_stream = z, zo_buf = buf, zo_size = cap, zo_len = n', zo_mallocs = ms\<rparr>)
          in if bad st then stop False (Some mem) cap ms
          else if n' \<noteq> cap then stop True (Some mem) cap ms
          else if LWS_MAX_ZLIB_CONN_BUFFER < 2 * cap then stop False (Some mem) (2 * cap) ms
          else if ms \<noteq> [] \<and> \<not> hd ms then stop False None (2 * cap) (tl ms)
          else zlib_loop step bad z (drop used input) (mem @ replicate cap 0) (2 * cap) n' (tl ms)))"

declare zlib_loop.simps [code]

definition inflate_fatal :: "z_status \<Rightarrow> bool" where
  "inflate_fatal st \<longleftrightarrow> st \<in> {Z_NEED_DICT, Z_STREAM_ERROR, Z_DATA_ERROR, Z_MEM_ERROR}"

text \<open>A frame that is not there yet as a whole is collected in \<open>buf_pre\<close>.\<close>

definition collect_payload :: "nat \<Rightarrow> 'z deflate_frame_conn \<Rightarrow> tokens \<Rightarrow> (int \<times> tokens \<times> 'z deflate_frame_conn) option" where
  "collect_payload remaining c t =
     (let total = buf_pre_used c + tok_len t + remaining;
          (ok, c) = (if buf_pre_length c < total
             then (case df_malloc (c\<lparr>buf_pre_length := total\<rparr>) of
               (ok, c) \<Rightarrow> (ok, c\<lparr>buf_pre := if ok then Some (replicate (total + 4) 0) else None\<rparr>))
             else (True, c))
      in if \<not> ok then Some (-1, t, c)
      else if length (tok_mem t) < tok_off t + tok_len t then None
      else do {
        m \<leftarrow> buf_pre c;
        m \<leftarrow> ablit m (buf_pre_used c) (tok_bytes t);
        Some (0, no_tokens, c\<lparr>buf_pre := Some m, buf_pre_used := buf_pre_used c + tok_len t\<rparr>) })"

text \<open>The last part of a frame: the four bytes that the sender cut off are put behind it where it stands.\<close>

definition complete_payload :: "'z deflate_frame_conn \<Rightarrow> tokens \<Rightarrow> (bytes \<times> 'z deflate_frame_conn) option" where
  "complete_payload c t =
     (if length (tok_mem t) < tok_off t + tok_len t then None
      else if buf_pre_used c \<noteq> 0 then do {
        m \<leftarrow> buf_pre c;
        m \<leftarrow> ablit m (buf_pre_used c) (tok_bytes t);
        let total = buf_pre_used c + tok_len t;
        m \<leftarrow> ablit m total [0, 0, 0xff, 0xff];
        Some (take (total + 4) m, c\<lparr>buf_pre := Some m, buf_pre_used := 0\<rparr>) }
      else do {
        m \<leftarrow> ablit (tok_mem t) (tok_off t + tok_len t) [0, 0, 0xff, 0xff];
        Some (take (tok_len t + 4) (drop (tok_off t) m), c) })"

definition deflate_frame_rx :: "'z zlib \<Rightarrow> u8 \<Rightarrow> nat \<Rightarrow> 'z deflate_frame_conn \<Rightarrow> tokens \<Rightarrow> (int \<times> tokens \<times> 'z deflate_frame_conn) option" where
  "deflate_frame_rx zl rsv remaining c t =
     (if rsv AND 0x40 = 0 then Some (0, t, c)
      else if remaining \<noteq> 0 then collect_payload remaining c t
      else do {
        (input, c) \<leftarrow> complete_payload c t;
        m \<leftarrow> buf_in c;
        r \<leftarrow> zlib_loop (inflate zl Z_SYNC_FLUSH) inflate_fatal (zs_in c) input m (buf_in_length c) 0 (df_mallocs c);
        let c = c\<lparr>zs_in := zo_stream r, buf_in := zo_buf r, buf_in_length := zo_size r, df_mallocs := zo_mallocs r\<rparr>;
        if \<not> zo_ok r then Some (-1, t, c)
        else do {
          m \<leftarrow> zo_buf r;
          Some (0, \<lparr>tok_mem = m, tok_off = LWS_SEND_BUFFER_PRE_PADDING, tok_len = zo_len r, tok_own = True\<rparr>, c) } })"

text \<open>What is sent ends before the four bytes of the flush; less than four would be a negative length.\<close>

definition deflate_frame_tx :: "'z zlib \<Rightarrow> 'z deflate_frame_conn \<Rightarrow> tokens \<Rightarrow> (int \<times> tokens \<times> 'z deflate_frame_conn) option" where
  "deflate_frame_tx zl c t = do {
     m \<leftarrow> buf_out c;
     r \<leftarrow> zlib_loop (deflate zl Z_SYNC_FLUSH) (\<lambda>st. st = Z_STREAM_ERROR) (zs_out c) (tok_bytes t) m (buf_out_length c) 0 (df_mallocs c);
     let c = c\<lparr>zs_out := zo_stream r, buf_out := zo_buf r, buf_out_length := zo_size r, df_mallocs := zo_mallocs r\<rparr>;
     if \<not> zo_ok r then Some (-1, t, c)
     else if zo_len r < 4 then None
     else do {
       m \<leftarrow> zo_buf r;
       Some (0, \<lparr>tok_mem = m, tok_off = LWS_SEND_BUFFER_PRE_PADDING, tok_len = zo_len r - 4, tok_own = True\<rparr>,
         c\<lparr>compressed_out := True\<rparr>) } }"

definition deflate_frame_presend :: "'z deflate_frame_conn \<Rightarrow> tokens \<Rightarrow> (int \<times> tokens \<times> 'z deflate_frame_conn) option" where
  "deflate_frame_presend c t =
     (if \<not> compressed_out c then Some (0, t, c)
      else do {
        b \<leftarrow> aget (tok_mem t) (tok_off t);
        m \<leftarrow> aset (tok_mem t) (tok_off t) (b OR 0x40);
        Some (0, t\<lparr>tok_mem := m\<rparr>, c\<lparr>compressed_out := False\<rparr>) })"

definition lws_extension_callback_deflate_frame ::
    "'z zlib \<Rightarrow> u8 \<Rightarrow> nat \<Rightarrow> ext_reason \<Rightarrow> 'z deflate_frame_conn \<Rightarrow> tokens \<Rightarrow> (int \<times> tokens \<times> 'z deflate_frame_conn) option" where
  "lws_extension_callback_deflate_frame zl rsv remaining r c t =
     (case r of
        LWS_EXT_CALLBACK_PAYLOAD_RX \<Rightarrow> deflate_frame_rx zl rsv remaining c t
      | LWS_EXT_CALLBACK_PAYLOAD_TX \<Rightarrow> deflate_frame_tx zl c t
      | LWS_EXT_CALLBACK_PACKET_TX_PRESEND \<Rightarrow> deflate_frame_presend c t
      | _ \<Rightarrow> Some (0, t, c))"

text \<open>\<open>CHECK_OK_TO_PROPOSE_EXTENSION\<close>, and the table of \<open>extension.c\<close>.\<close>

definition deflate_frame_propose :: "bytes \<Rightarrow> int" where
  "deflate_frame_propose name = (if name = str ''x-webkit-deflate-frame'' then 1 else 0)"

definition libwebsocket_internal_extensions :: "bytes list" where
  "libwebsocket_internal_extensions = [str ''x-webkit-deflate-frame'', str ''deflate-frame'']"

section \<open>deflate-stream\<close>

text \<open>\<open>struct lws_ext_deflate_stream_conn\<close>.\<close>

record 'z deflate_stream_conn =
  ds_zs_in :: 'z
  ds_zs_out :: 'z
  remaining_in :: nat
  ds_buf_in :: bytes
  ds_buf_out :: bytes

definition deflate_stream_construct :: "'z zlib \<Rightarrow> 'z deflate_stream_conn \<Rightarrow> int \<times> 'z deflate_stream_conn" where
  "deflate_stream_construct zl c =
     (case inflateInit2 zl of
        None \<Rightarrow> (1, c)
      | Some zi \<Rightarrow>
          (case deflateInit2 zl 1 of
             None \<Rightarrow> (1, c\<lparr>ds_zs_in := zi\<rparr>)
           | Some zo \<Rightarrow> (0, c\<lparr>ds_zs_in := zi, ds_zs_out := zo, remaining_in := 0\<rparr>)))"

text \<open>What \<open>inflate\<close> did not take is kept; moving it to the front of \<open>buf_in\<close> when it comes from there is a
  \<open>memcpy\<close>, undefined when the places overlap.\<close>

definition deflate_stream_rx :: "'z zlib \<Rightarrow> 'z deflate_stream_conn \<Rightarrow> tokens \<Rightarrow> (int \<times> tokens \<times> 'z deflate_stream_conn) option" where
  "deflate_stream_rx zl c t =
     (let again = (remaining_in c \<noteq> 0);
          input = (if again then take (remaining_in c) (ds_buf_in c) else tok_bytes t);
          c = c\<lparr>remaining_in := 0\<rparr>
      in case inflate zl Z_SYNC_FLUSH (ds_zs_in c) input (length (ds_buf_out c)) of
        (st, used, out, z) \<Rightarrow> do {
          m \<leftarrow> ablit (ds_buf_out c) 0 out;
          let c = c\<lparr>ds_zs_in := z, ds_buf_out := m\<rparr>;
          if st \<in> {Z_NEED_DICT, Z_DATA_ERROR, Z_MEM_ERROR} then Some (-1, t, c)
          else
            let t = \<lparr>tok_mem = m, tok_off = 0, tok_len = length out, tok_own = True\<rparr>; rest = drop used input
            in if rest \<noteq> [] then
              (if again \<and> used < length rest then None
               else do {
                 b \<leftarrow> ablit (ds_buf_in c) 0 rest;
                 Some (1, t, c\<lparr>remaining_in := length rest, ds_buf_in := b\<rparr>) })
            else Some (if length out = length m then 1 else 0, t, c) })"

definition deflate_stream_tx :: "'z zlib \<Rightarrow> z_flush \<Rightarrow> 'z deflate_stream_conn \<Rightarrow> tokens \<Rightarrow> (int \<times> tokens \<times> 'z deflate_stream_conn) option" where
  "deflate_stream_tx zl f c t =
     (case deflate zl f (ds_zs_out c) (tok_bytes t) (length (ds_buf_out c)) of
        (st, used, out, z) \<Rightarrow> do {
          m \<leftarrow> ablit (ds_buf_out c) 0 out;
          let c = c\<lparr>ds_zs_out := z, ds_buf_out := m\<rparr>;
          if st = Z_STREAM_ERROR then Some (-1, t, c)
          else Some (if length out = length m then 1 else 0, \<lparr>tok_mem = m, tok_off = 0, tok_len = length out, tok_own = True\<rparr>, c) })"

text \<open>The reasons of the packet interface, and those of a session.\<close>

definition lws_extension_callback_deflate_stream ::
    "'z zlib \<Rightarrow> ext_reason + ss_ext_reason \<Rightarrow> 'z deflate_stream_conn \<Rightarrow> tokens \<Rightarrow> (int \<times> tokens \<times> 'z deflate_stream_conn) option" where
  "lws_extension_callback_deflate_stream zl r c t =
     (if r = Inr LWS_EXT_CALLBACK_PACKET_RX_PREPARSE then deflate_stream_rx zl c t
      else if r = Inr LWS_EXT_CALLBACK_FLUSH_PENDING_TX then deflate_stream_tx zl Z_FULL_FLUSH c t
      else if r = Inl LWS_EXT_CALLBACK_PACKET_TX_PRESEND then deflate_stream_tx zl Z_PARTIAL_FLUSH c t
      else if r \<in> {Inr LWS_EXT_CALLBACK_CONSTRUCT, Inr LWS_EXT_CALLBACK_CLIENT_CONSTRUCT}
      then (case deflate_stream_construct zl c of (n, c) \<Rightarrow> Some (n, t, c))
      else Some (0, t, c))"

end
