(* ===== verification/Deflate_Facts.thy ===== *)
theory Deflate_Facts
  imports Deflate
begin

text \<open>
  Messages through the deflate-frame extension: whatever zlib keeps its contract with gets compressed on one side, cut
  into parts on the wire, collected, and inflated to the same message on the other, and the streams of both sides stay
  in step for the next.
\<close>

section \<open>The contract of zlib\<close>

text \<open>Calls of a step from a stream and an input, as the loop of the extension makes them: every time with room for eight bytes
  or more, and for as many as are out already. What comes out may depend on the room (\<open>zlib.h\<close> warns of repeated flush markers
  when a call fills it), so \<open>P\<close> relates the bytes that are out to the stream and the input left. A call that leaves room has
  finished, with bytes and a stream in \<open>G\<close>.\<close>

definition produces :: "'z z_step \<Rightarrow> (z_status \<Rightarrow> bool) \<Rightarrow> 'z \<Rightarrow> bytes \<Rightarrow> (bytes \<Rightarrow> 'z \<Rightarrow> bool) \<Rightarrow> bool" where
  "produces step bad z input G \<longleftrightarrow> (\<exists>P. P [] z input \<and>
     (\<forall>d z i r. P d z i \<longrightarrow> 8 \<le> r \<longrightarrow> length d \<le> r \<longrightarrow>
        (case step z i r of (st, used, o', z') \<Rightarrow> \<not> bad st \<and> length o' \<le> r \<and> length (d @ o') < LWS_MAX_ZLIB_CONN_BUFFER \<and>
           (if length o' = r then P (d @ o') z' (drop used i) else G (d @ o') z'))))"

lemma produces_mono: "produces step bad z input G \<Longrightarrow> G \<le> H \<Longrightarrow> produces step bad z input H"
  unfolding produces_def by (elim exE conjE, rule exI, rule conjI, assumption) (auto 0 3 simp: le_fun_def split: prod.splits if_splits)

abbreviation (input) "sync_tail \<equiv> [0, 0, 0xff, 0xff :: u8]"

text \<open>Two streams in step: a message is compressed into something that ends with the empty block of a synchronising flush,
  and the other stream inflates exactly this to the message.\<close>

definition zlib_pair :: "'z zlib \<Rightarrow> nat \<Rightarrow> ('z \<Rightarrow> 'z \<Rightarrow> bool) \<Rightarrow> bool" where
  "zlib_pair zl limit R \<longleftrightarrow> (\<forall>zo zi x. R zo zi \<longrightarrow> x \<noteq> [] \<longrightarrow> length x \<le> limit \<longrightarrow>
     produces (deflate zl Z_SYNC_FLUSH) (\<lambda>st. st = Z_STREAM_ERROR) zo x (\<lambda>d zo'. \<exists>y. d = y @ sync_tail \<and>
       produces (inflate zl Z_SYNC_FLUSH) inflate_fatal zi (y @ sync_tail) (\<lambda>d' zi'. d' = x \<and> R zo' zi')))"

section \<open>The loop\<close>

definition buffer_ok :: "nat \<Rightarrow> bytes \<Rightarrow> bool" where
  "buffer_ok n m \<longleftrightarrow> (\<exists>i. 3 \<le> i \<and> i \<le> 16 \<and> n = 2 ^ i) \<and> length m = LWS_SEND_BUFFER_PRE_PADDING + n + LWS_SEND_BUFFER_POST_PADDING"

lemma zlib_loop_fills:
  assumes P: "\<And>d z i r. P d z i \<Longrightarrow> 8 \<le> r \<Longrightarrow> length d \<le> r \<Longrightarrow>
        case step z i r of (st, used, o', z') \<Rightarrow> \<not> bad st \<and> length o' \<le> r \<and> length (d @ o') < LWS_MAX_ZLIB_CONN_BUFFER \<and>
           (if length o' = r then P (d @ o') z' (drop used i) else G (d @ o') z')"
    and "P d z input" "8 \<le> 2 ^ i - length d" "length d \<le> 2 ^ i - length d" "i \<le> 16" "length m = 18 + 2 ^ i + 4"
    "take (length d) (drop 18 m) = d" "False \<notin> set ms"
  shows "\<exists>d' z' m' i' ms'. zlib_loop step bad z input m (2 ^ i) (length d) ms =
      Some \<lparr>zo_ok = True, zo_stream = z', zo_buf = Some m', zo_size = 2 ^ i', zo_len = length d', zo_mallocs = ms'\<rparr> \<and>
    i \<le> i' \<and> i' \<le> 16 \<and> length m' = 18 + 2 ^ i' + 4 \<and> take (length d') (drop 18 m') = d' \<and> G d' z' \<and> False \<notin> set ms'"
  using assms(2-)
proof (induction "16 - i" arbitrary: i d z input m ms rule: less_induct)
  case less
  obtain st used o' z' where step: "step z input (2 ^ i - length d) = (st, used, o', z')" by (metis surj_pair)
  have o': "\<not> bad st" "length o' \<le> 2 ^ i - length d" "length (d @ o') < LWS_MAX_ZLIB_CONN_BUFFER"
    "if length o' = 2 ^ i - length d then P (d @ o') z' (drop used input) else G (d @ o') z'"
    using P [OF less(2-4)] step by auto
  have d: "length d < 2 ^ i" using less(3) by simp
  define m' where "m' = take (18 + length d) m @ o' @ drop (18 + length d + length o') m"
  have blit: "ablit m (18 + length d) o' = Some m'" using o'(2) d less(6) by (simp add: ablit_def m'_def)
  have "drop 18 (take (18 + length d) m) = d" using less(7) by (simp add: drop_take)
  moreover have "length (take (18 + length d) m) = 18 + length d" using d less(6) by simp
  ultimately have m': "length m' = length m" "take (length (d @ o')) (drop 18 m') = d @ o'"
    using ablit_length [OF blit] by (simp_all add: m'_def)
  show ?case
  proof (cases "length o' = 2 ^ i - length d")
    case False
    then have "length d + length o' \<noteq> 2 ^ i" by auto
    then have "zlib_loop step bad z input m (2 ^ i) (length d) ms =
        Some \<lparr>zo_ok = True, zo_stream = z', zo_buf = Some m', zo_size = 2 ^ i, zo_len = length (d @ o'), zo_mallocs = ms\<rparr>"
      using step blit o'(1,2) by (subst zlib_loop.simps) (simp add: Let_def)
    then show ?thesis by - (rule exI [of _ "d @ o'"] , use o'(4) False m' less(5,6,8) in auto)
  next
    case True
    then have l: "length (d @ o') = 2 ^ i" using d by simp
    have "(2::nat) ^ i < 2 ^ 16" using l o'(3) by simp
    then have i: "i < 16" by (simp only: power_strict_increasing_iff)
    then have cap: "2 * 2 ^ i \<le> (65536::nat)" using power_increasing [of "Suc i" 16 "2::nat"] by simp
    have loop: "zlib_loop step bad z input m (2 ^ i) (length d) ms =
        zlib_loop step bad z' (drop used input) (m' @ replicate (2 ^ i) 0) (2 ^ Suc i) (length (d @ o')) (tl ms)"
      using step blit o'(1) l cap less(8) by (subst zlib_loop.simps) (cases ms, simp_all add: Let_def)
    have "\<exists>d' z'' m'' i' ms'. zlib_loop step bad z' (drop used input) (m' @ replicate (2 ^ i) 0) (2 ^ Suc i) (length (d @ o')) (tl ms) =
        Some \<lparr>zo_ok = True, zo_stream = z'', zo_buf = Some m'', zo_size = 2 ^ i', zo_len = length d', zo_mallocs = ms'\<rparr> \<and>
      Suc i \<le> i' \<and> i' \<le> 16 \<and> length m'' = 18 + 2 ^ i' + 4 \<and> take (length d') (drop 18 m'') = d' \<and> G d' z'' \<and> False \<notin> set ms'"
    proof (rule less(1))
      show "16 - Suc i < 16 - i" using i by simp
      show "P (d @ o') z' (drop used input)" using o'(4) True by simp
      show "8 \<le> 2 ^ Suc i - length (d @ o')" "length (d @ o') \<le> 2 ^ Suc i - length (d @ o')" using l less(3) by auto
      show "take (length (d @ o')) (drop 18 (m' @ replicate (2 ^ i) 0)) = d @ o'" using m' l less(6) by simp
      show "False \<notin> set (tl ms)" using less(8) by (cases ms) auto
    qed (use i m' less(6) in simp_all)
    then show ?thesis unfolding loop by (meson Suc_leD)
  qed
qed

lemma zlib_loop_produces:
  assumes s: "produces step bad z input G" and m: "buffer_ok n m" and ms: "False \<notin> set ms"
  obtains d r m' where "zlib_loop step bad z input m n 0 ms = Some r" "zo_ok r" "zo_len r = length d" "zo_buf r = Some m'" "buffer_ok (zo_size r) m'"
    "take (length d) (drop 18 m') = d" "G d (zo_stream r)" "False \<notin> set (zo_mallocs r)"
proof -
  obtain i where i: "3 \<le> i" "i \<le> 16" "n = 2 ^ i" "length m = 18 + 2 ^ i + 4" using m by (auto simp: buffer_ok_def)
  have room: "8 \<le> (2::nat) ^ i" using power_increasing [OF i(1), of "2::nat"] by simp
  obtain P where P: "P [] z input" and all: "\<forall>d z i r. P d z i \<longrightarrow> 8 \<le> r \<longrightarrow> length d \<le> r \<longrightarrow>
        (case step z i r of (st, used, o', z') \<Rightarrow> \<not> bad st \<and> length o' \<le> r \<and> length (d @ o') < LWS_MAX_ZLIB_CONN_BUFFER \<and>
           (if length o' = r then P (d @ o') z' (drop used i) else G (d @ o') z'))"
    using s unfolding produces_def by blast
  note fill = zlib_loop_fills [where P = P and i = i and m = m and ms = ms and step = step and bad = bad and G = G, OF all [rule_format] P]
  obtain d z' m' i' ms' where "zlib_loop step bad z input m (2 ^ i) 0 ms =
      Some \<lparr>zo_ok = True, zo_stream = z', zo_buf = Some m', zo_size = 2 ^ i', zo_len = length d, zo_mallocs = ms'\<rparr>"
    "i \<le> i'" "i' \<le> 16" "length m' = 18 + 2 ^ i' + 4" "take (length d) (drop 18 m') = d" "G d z'" "False \<notin> set ms'"
    using fill i ms room by auto
  then show thesis
    by (intro that [of "\<lparr>zo_ok = True, zo_stream = z', zo_buf = Some m', zo_size = 2 ^ i', zo_len = length d, zo_mallocs = ms'\<rparr>" d m'])
      (use i(1) in \<open>auto simp: i(3) buffer_ok_def\<close>)
qed

section \<open>A connection of the extension\<close>

text \<open>The buffers between two calls, with \<open>d\<close> collected of a frame of which \<open>n\<close> bytes are to come.\<close>

definition in_frame :: "bytes \<Rightarrow> nat \<Rightarrow> 'z deflate_frame_conn \<Rightarrow> bool" where
  "in_frame d n c \<longleftrightarrow> (\<exists>m. buf_in c = Some m \<and> buffer_ok (buf_in_length c) m) \<and> (\<exists>m. buf_out c = Some m \<and> buffer_ok (buf_out_length c) m) \<and>
     False \<notin> set (df_mallocs c) \<and> buf_pre_used c = length d \<and>
     (0 < buf_pre_length c \<longrightarrow> (\<exists>m. buf_pre c = Some m \<and> length m = buf_pre_length c + 4 \<and> take (length d) m = d)) \<and>
     (d \<noteq> [] \<longrightarrow> length d + n \<le> buf_pre_length c)"

abbreviation "idle c \<equiv> in_frame [] 0 c"

lemma constructed_idle:
  assumes "deflate_frame_construct zl listening c = (0, c')" "False \<notin> set (df_mallocs c)"
  shows "idle c' \<and> inflateInit2 zl = Some (zs_in c') \<and> deflateInit2 zl (if listening then 1 else -1) = Some (zs_out c')"
proof -
  have "buffer_ok 8 (padded 8)" by (auto simp: buffer_ok_def padded_def intro: exI [of _ 3])
  then show ?thesis
    using assms by (auto simp: deflate_frame_construct_def df_malloc_def in_frame_def Let_def split: option.splits list.splits bool.splits)
qed

lemma tx_compresses:
  assumes c: "in_frame d n c" and s: "produces (deflate zl Z_SYNC_FLUSH) (\<lambda>st. st = Z_STREAM_ERROR) (zs_out c) (tok_bytes t) (\<lambda>d z. \<exists>y. d = y @ sync_tail \<and> Q y z)"
  obtains y t' c' where "deflate_frame_tx zl c t = Some (0, t', c')" "tok_bytes t' = y" "in_frame d n c'" "Q y (zs_out c')" "zs_in c' = zs_in c" "compressed_out c'"
proof -
  obtain m where m: "buf_out c = Some m" "buffer_ok (buf_out_length c) m" "False \<notin> set (df_mallocs c)" using c by (auto simp: in_frame_def)
  obtain y r m' where r: "zlib_loop (deflate zl Z_SYNC_FLUSH) (\<lambda>st. st = Z_STREAM_ERROR) (zs_out c) (tok_bytes t) m (buf_out_length c) 0 (df_mallocs c) = Some r"
    "zo_ok r" "zo_len r = length (y @ sync_tail)" "zo_buf r = Some m'" "buffer_ok (zo_size r) m'" "take (length (y @ sync_tail)) (drop 18 m') = y @ sync_tail"
    "Q y (zo_stream r)" "False \<notin> set (zo_mallocs r)"
    by (rule zlib_loop_produces [OF s m(2,3)]) auto
  let ?c = "c\<lparr>zs_out := zo_stream r, buf_out := zo_buf r, buf_out_length := zo_size r, df_mallocs := zo_mallocs r, compressed_out := True\<rparr>"
  have "deflate_frame_tx zl c t = Some (0, \<lparr>tok_mem = m', tok_off = 18, tok_len = length y, tok_own = True\<rparr>, ?c)"
    using m(1) r(1-4) by (simp add: deflate_frame_tx_def Let_def)
  moreover have "take (length y) (drop 18 m') = y"
    using arg_cong [OF r(6), of "take (length y)"] by (simp add: min_def)
  moreover have "in_frame d n ?c" using c r(4,5,8) by (simp add: in_frame_def)
  ultimately show thesis using r(7) by (intro that [of "\<lparr>tok_mem = m', tok_off = 18, tok_len = length y, tok_own = True\<rparr>" ?c y]) (simp_all add: tok_bytes_def)
qed

section \<open>A frame in parts\<close>

definition tok_padded :: "tokens \<Rightarrow> bool" where
  "tok_padded t \<longleftrightarrow> tok_off t + tok_len t + 4 \<le> length (tok_mem t)"

lemma tok_bytes_length: "tok_padded t \<Longrightarrow> length (tok_bytes t) = tok_len t"
  by (simp add: tok_padded_def tok_bytes_def)

lemma collect_part:
  assumes c: "in_frame d (tok_len t + n) c" and t: "tok_padded t" and n: "0 < n"
  obtains c' where "collect_payload n c t = Some (0, no_tokens, c')" "in_frame (d @ tok_bytes t) n c'" "zs_in c' = zs_in c" "zs_out c' = zs_out c"
proof -
  note C = c [unfolded in_frame_def]
  let ?total = "length d + tok_len t + n"
  have len: "length (tok_bytes t) = tok_len t" by (rule tok_bytes_length [OF t])
  have inside: "\<not> length (tok_mem t) < tok_off t + tok_len t" using t by (simp add: tok_padded_def)
  have part: "\<exists>m'. ablit m (length d) (tok_bytes t) = Some m' \<and> length m' = length m \<and> take (length (d @ tok_bytes t)) m' = d @ tok_bytes t"
    if "take (length d) m = d" "?total + 4 \<le> length m" for m
    using that len by (simp add: ablit_def)
  show thesis
  proof (cases "buf_pre_length c < ?total")
    case True
    then have d: "d = []" using C by auto
    define bs where "bs = tl (df_mallocs c)"
    have "False \<notin> set (df_mallocs c)" using C by blast
    then have bs: "df_malloc (c\<lparr>buf_pre_length := ?total\<rparr>) = (True, c\<lparr>buf_pre_length := ?total, df_mallocs := bs\<rparr>)" "False \<notin> set bs"
      by (cases "df_mallocs c"; simp add: df_malloc_def bs_def)+
    obtain m' where m': "ablit (replicate (?total + 4) 0) (length d) (tok_bytes t) = Some m'" "length m' = ?total + 4" "take (length (d @ tok_bytes t)) m' = d @ tok_bytes t"
      using part [of "replicate (?total + 4) 0"] d by auto
    let ?c = "c\<lparr>buf_pre_length := ?total, df_mallocs := bs, buf_pre := Some m', buf_pre_used := length d + tok_len t\<rparr>"
    have "collect_payload n c t = Some (0, no_tokens, ?c)"
      using True bs(1) m'(1) C inside by (simp add: collect_payload_def Let_def)
    moreover have "in_frame (d @ tok_bytes t) n ?c" using C bs(2) m'(2,3) len by (simp add: in_frame_def)
    ultimately show thesis by (rule that) simp_all
  next
    case False
    then obtain m where m: "buf_pre c = Some m" "length m = buf_pre_length c + 4" "take (length d) m = d" using C n by auto
    obtain m' where m': "ablit m (length d) (tok_bytes t) = Some m'" "length m' = length m" "take (length (d @ tok_bytes t)) m' = d @ tok_bytes t"
      using part [of m] m False by auto
    let ?c = "c\<lparr>buf_pre := Some m', buf_pre_used := length d + tok_len t\<rparr>"
    have "collect_payload n c t = Some (0, no_tokens, ?c)"
      using False m(1) m'(1) C inside by (simp add: collect_payload_def Let_def)
    moreover have "in_frame (d @ tok_bytes t) n ?c" using C m m'(2,3) len False by (simp add: in_frame_def)
    ultimately show thesis by (rule that) simp_all
  qed
qed

lemma complete_part:
  assumes c: "in_frame d (tok_len t) c" and t: "tok_padded t"
  obtains c' where "complete_payload c t = Some (d @ tok_bytes t @ sync_tail, c')" "idle c'" "zs_in c' = zs_in c" "zs_out c' = zs_out c"
    "buf_in c' = buf_in c" "buf_in_length c' = buf_in_length c" "df_mallocs c' = df_mallocs c"
proof -
  note C = c [unfolded in_frame_def]
  have len: "length (tok_bytes t) = tok_len t" by (rule tok_bytes_length [OF t])
  have inside: "\<not> length (tok_mem t) < tok_off t + tok_len t" using t by (simp add: tok_padded_def)
  show thesis
  proof (cases "d = []")
    case True
    have "length (take (tok_off t + tok_len t) (tok_mem t)) = tok_off t + tok_len t" using t by (simp add: tok_padded_def)
    then have "take (tok_len t + 4) (drop (tok_off t) (take (tok_off t + tok_len t) (tok_mem t) @ sync_tail @ drop (tok_off t + tok_len t + 4) (tok_mem t)))
        = tok_bytes t @ sync_tail"
      using len by (simp add: drop_take tok_bytes_def)
    then have "complete_payload c t = Some (d @ tok_bytes t @ sync_tail, c)"
      using True C inside t len by (simp add: complete_payload_def ablit_def tok_padded_def)
    moreover have "idle c" using C True by (simp add: in_frame_def)
    ultimately show thesis by (rule that) simp_all
  next
    case False
    then obtain m where m: "buf_pre c = Some m" "length m = buf_pre_length c + 4" "take (length d) m = d" "length d + tok_len t \<le> buf_pre_length c"
      using C by auto
    let ?m1 = "d @ tok_bytes t @ drop (length d + tok_len t) m"
    let ?m2 = "d @ tok_bytes t @ sync_tail @ drop (length d + tok_len t + 4) m"
    have b: "ablit m (length d) (tok_bytes t) = Some ?m1" using m len by (simp add: ablit_def)
    have "ablit ?m1 (length d + tok_len t) sync_tail = Some ?m2" using m(2,4) len by (simp add: ablit_def add.commute)
    then have "complete_payload c t = Some (d @ tok_bytes t @ sync_tail, c\<lparr>buf_pre := Some ?m2, buf_pre_used := 0\<rparr>)"
      using False C inside m(1) b len by (simp add: complete_payload_def Let_def)
    moreover have "idle (c\<lparr>buf_pre := Some ?m2, buf_pre_used := 0\<rparr>)" using C m(2,4) len by (simp add: in_frame_def)
    ultimately show thesis by (rule that) simp_all
  qed
qed

lemma rx_inflates:
  assumes c: "in_frame d (tok_len t) c" and t: "tok_padded t"
    and s: "produces (inflate zl Z_SYNC_FLUSH) inflate_fatal (zs_in c) (d @ tok_bytes t @ sync_tail) (\<lambda>d' z. d' = x \<and> Q z)"
  obtains t' c' where "deflate_frame_rx zl 0x40 0 c t = Some (0, t', c')" "tok_bytes t' = x" "idle c'" "Q (zs_in c')" "zs_out c' = zs_out c"
proof -
  obtain c1 where c1: "complete_payload c t = Some (d @ tok_bytes t @ sync_tail, c1)" "idle c1" "zs_in c1 = zs_in c" "zs_out c1 = zs_out c"
    "buf_in c1 = buf_in c" "buf_in_length c1 = buf_in_length c" "df_mallocs c1 = df_mallocs c" by (rule complete_part [OF c t])
  obtain m where m: "buf_in c1 = Some m" "buffer_ok (buf_in_length c1) m" "False \<notin> set (df_mallocs c1)" using c1(2) by (auto simp: in_frame_def)
  obtain r m' where r: "zlib_loop (inflate zl Z_SYNC_FLUSH) inflate_fatal (zs_in c) (d @ tok_bytes t @ sync_tail) m (buf_in_length c1) 0 (df_mallocs c1) = Some r"
    "zo_ok r" "zo_len r = length x" "zo_buf r = Some m'" "buffer_ok (zo_size r) m'" "take (length x) (drop 18 m') = x"
    "Q (zo_stream r)" "False \<notin> set (zo_mallocs r)"
    by (rule zlib_loop_produces [OF s m(2,3)]) auto
  let ?c = "c1\<lparr>zs_in := zo_stream r, buf_in := zo_buf r, buf_in_length := zo_size r, df_mallocs := zo_mallocs r\<rparr>"
  have "deflate_frame_rx zl 0x40 0 c t = Some (0, \<lparr>tok_mem = m', tok_off = 18, tok_len = length x, tok_own = True\<rparr>, ?c)"
    using c1(1,3) m(1) r(1-4) by (simp add: deflate_frame_rx_def Let_def)
  moreover have "idle ?c" using c1(2) r(4,5,8) by (simp add: in_frame_def)
  ultimately show thesis
    using r(6,7) c1(4) by (intro that [of "\<lparr>tok_mem = m', tok_off = 18, tok_len = length x, tok_own = True\<rparr>" ?c]) (simp_all add: tok_bytes_def)
qed

text \<open>The parts of a frame go to the callback one by one, with the number of bytes that are still to come.\<close>

fun feed :: "'z zlib \<Rightarrow> 'z deflate_frame_conn \<Rightarrow> tokens list \<Rightarrow> (bytes \<times> 'z deflate_frame_conn) option" where
  "feed zl c [] = Some ([], c)"
| "feed zl c (t # ts) = do {
     (r, t', c) \<leftarrow> lws_extension_callback_deflate_frame zl 0x40 (\<Sum>t\<leftarrow>ts. tok_len t) LWS_EXT_CALLBACK_PAYLOAD_RX c t;
     if r \<noteq> 0 then None else do {
       (d, c) \<leftarrow> feed zl c ts;
       Some (tok_bytes t' @ d, c) } }"

lemma rx_collects: "0 < n \<Longrightarrow> deflate_frame_rx zl 0x40 n c t = collect_payload n c t"
  by (simp add: deflate_frame_rx_def)

lemma feed_inflates:
  assumes "in_frame d (\<Sum>t\<leftarrow>ts. tok_len t) c" "ts \<noteq> []" "\<forall>t \<in> set ts. tok_padded t" "\<forall>t \<in> set (tl ts). 0 < tok_len t"
    and "produces (inflate zl Z_SYNC_FLUSH) inflate_fatal (zs_in c) (d @ concat (map tok_bytes ts) @ sync_tail) (\<lambda>d' z. d' = x \<and> Q z)"
  shows "\<exists>c'. feed zl c ts = Some (x, c') \<and> idle c' \<and> Q (zs_in c') \<and> zs_out c' = zs_out c"
  using assms
proof (induction ts arbitrary: d c)
  case (Cons t ts)
  show ?case
  proof (cases ts)
    case Nil
    have "in_frame d (tok_len t) c" "tok_padded t" using Cons.prems(1,3) Nil by simp_all
    moreover have "produces (inflate zl Z_SYNC_FLUSH) inflate_fatal (zs_in c) (d @ tok_bytes t @ sync_tail) (\<lambda>d' z. d' = x \<and> Q z)" using Cons.prems(5) Nil by simp
    ultimately obtain t' c' where "deflate_frame_rx zl 0x40 0 c t = Some (0, t', c')" "tok_bytes t' = x" "idle c'" "Q (zs_in c')" "zs_out c' = zs_out c"
      by (rule rx_inflates)
    then show ?thesis using Nil by (simp add: lws_extension_callback_deflate_frame_def)
  next
    case (Cons u us)
    let ?n = "\<Sum>t\<leftarrow>ts. tok_len t"
    have n: "0 < ?n" using Cons.prems(4) Cons by simp
    have c: "in_frame d (tok_len t + ?n) c" "tok_padded t" using Cons.prems(1,3) by simp_all
    obtain c1 where c1: "collect_payload ?n c t = Some (0, no_tokens, c1)" "in_frame (d @ tok_bytes t) ?n c1" "zs_in c1 = zs_in c" "zs_out c1 = zs_out c"
      by (rule collect_part [OF c n])
    have "\<exists>c'. feed zl c1 ts = Some (x, c') \<and> idle c' \<and> Q (zs_in c') \<and> zs_out c' = zs_out c1"
      by (rule Cons.IH [OF c1(2)]) (use Cons.prems(3-5) Cons c1(3) in auto)
    moreover have "lws_extension_callback_deflate_frame zl 0x40 ?n LWS_EXT_CALLBACK_PAYLOAD_RX c t = Some (0, no_tokens, c1)"
      unfolding lws_extension_callback_deflate_frame_def ext_reason.case rx_collects [OF n] by (rule c1(1))
    moreover have "tok_bytes no_tokens = []" by (simp add: no_tokens_def tok_bytes_def)
    ultimately show ?thesis using c1(4) by auto
  qed
qed simp

section \<open>A conversation\<close>

text \<open>Each message is compressed by one side, cut by the wire into the parts \<open>parts\<close> makes of it, and given to the other.\<close>

definition message :: "bytes \<Rightarrow> tokens" where
  "message x = \<lparr>tok_mem = x, tok_off = 0, tok_len = length x, tok_own = False\<rparr>"

fun talk :: "'z zlib \<Rightarrow> (bytes \<Rightarrow> tokens list) \<Rightarrow> 'z deflate_frame_conn \<Rightarrow> 'z deflate_frame_conn \<Rightarrow> bytes list
    \<Rightarrow> (bytes list \<times> 'z deflate_frame_conn \<times> 'z deflate_frame_conn) option" where
  "talk zl parts a b [] = Some ([], a, b)"
| "talk zl parts a b (x # xs) = do {
     (r, t, a) \<leftarrow> lws_extension_callback_deflate_frame zl 0 0 LWS_EXT_CALLBACK_PAYLOAD_TX a (message x);
     if r \<noteq> 0 then None else do {
       (d, b) \<leftarrow> feed zl b (parts (tok_bytes t));
       (ds, a, b) \<leftarrow> talk zl parts a b xs;
       Some (d # ds, a, b) } }"

definition splits :: "(bytes \<Rightarrow> tokens list) \<Rightarrow> bool" where
  "splits parts \<longleftrightarrow> (\<forall>y. concat (map tok_bytes (parts y)) = y \<and> parts y \<noteq> [] \<and> (\<forall>t \<in> set (parts y). tok_padded t) \<and>
     (\<forall>t \<in> set (tl (parts y)). 0 < tok_len t))"

text \<open>C26: Any sequence of messages that one side sends through the deflate-frame extension arrives at the other as the same
  messages in the same order, however each compressed frame is cut into parts: the buffers grow as needed, parts are collected,
  and the bytes of the flush are cut off and put back. Of zlib it is assumed that two streams in step understand each other, with
  whatever \<open>deflate\<close> writes when it is called with the rooms of the growing buffer, repeated flush markers included, and that it
  stays below 64 KB. Messages are not empty.\<close>

theorem deflate_frame_roundtrip:
  assumes zl: "zlib_pair zl limit R" and parts: "splits parts" and a: "idle a" and b: "idle b"
    and R: "R (zs_out a) (zs_in b)" and xs: "\<forall>x \<in> set xs. x \<noteq> [] \<and> length x \<le> limit"
  shows "\<exists>a' b'. talk zl parts a b xs = Some (xs, a', b') \<and> idle a' \<and> idle b' \<and> R (zs_out a') (zs_in b')"
  using a b R xs
proof (induction xs arbitrary: a b)
  case (Cons x xs)
  have x: "x \<noteq> []" "length x \<le> limit" using Cons.prems(4) by auto
  have m: "tok_bytes (message x) = x" by (simp add: message_def tok_bytes_def)
  let ?Q = "\<lambda>y zo. produces (inflate zl Z_SYNC_FLUSH) inflate_fatal (zs_in b) (y @ sync_tail) (\<lambda>d' zi. d' = x \<and> R zo zi)"
  have "produces (deflate zl Z_SYNC_FLUSH) (\<lambda>st. st = Z_STREAM_ERROR) (zs_out a) (tok_bytes (message x)) (\<lambda>d zo. \<exists>y. d = y @ sync_tail \<and> ?Q y zo)"
    using zl Cons.prems(3) x unfolding m zlib_pair_def by blast
  then obtain y t a1 where a1: "deflate_frame_tx zl a (message x) = Some (0, t, a1)" "tok_bytes t = y" "idle a1" "?Q y (zs_out a1)" "zs_in a1 = zs_in a"
    by (rule tx_compresses [OF Cons.prems(1)])
  have parts': "concat (map tok_bytes (parts y)) = y" "parts y \<noteq> []" "\<forall>t \<in> set (parts y). tok_padded t" "\<forall>t \<in> set (tl (parts y)). 0 < tok_len t"
    using parts by (simp_all add: splits_def)
  have "in_frame [] n b" for n using Cons.prems(2) by (simp add: in_frame_def)
  then obtain b1 where b1: "feed zl b (parts y) = Some (x, b1)" "idle b1" "R (zs_out a1) (zs_in b1)" "zs_out b1 = zs_out b"
    using feed_inflates [of "[]" "parts y" b zl x "R (zs_out a1)"] parts' a1(4) by auto
  have "\<exists>a' b'. talk zl parts a1 b1 xs = Some (xs, a', b') \<and> idle a' \<and> idle b' \<and> R (zs_out a') (zs_in b')"
    by (rule Cons.IH [OF a1(3) b1(2,3)]) (use Cons.prems(4) in simp)
  then show ?case using a1(1,2) b1(1) by (auto simp: lws_extension_callback_deflate_frame_def)
qed simp

section \<open>A codec to run it on\<close>

text \<open>A byte becomes two, and like in zlib every call of \<open>deflate\<close> flushes: a call whose room is used up is followed by one
  that writes another marker. A stream holds what there was no room for.\<close>

definition plain_enc :: "bytes \<Rightarrow> bytes" where
  "plain_enc x = concat (map (\<lambda>b. [1, b]) x)"

fun plain_dec :: "bytes \<Rightarrow> bytes" where
  "plain_dec (c # b # bs) = (if c = 1 then b # plain_dec bs else plain_dec bs)"
| "plain_dec _ = []"

definition plain_step :: "(bytes \<Rightarrow> bytes) \<Rightarrow> bytes z_step" where
  "plain_step f z i r = (Z_OK, length i, take r (z @ f i), drop r (z @ f i))"

definition plain_zlib :: "bytes zlib" where
  "plain_zlib = \<lparr>inflateInit2 = Some [], deflateInit2 = (\<lambda>_. Some []),
     inflate = (\<lambda>_. plain_step plain_dec), deflate = (\<lambda>_. plain_step (\<lambda>i. plain_enc i @ sync_tail))\<rparr>"

abbreviation (input) "markers k \<equiv> concat (replicate k sync_tail)"

lemma plain_dec_markers: "plain_dec (markers k) = []"
  by (induction k) simp_all

lemma plain_dec_enc: "plain_dec (plain_enc x @ markers k) = x"
  by (induction x) (simp_all add: plain_enc_def plain_dec_markers)

lemma plain_enc_length: "length (plain_enc x) = 2 * length x"
  by (induction x) (simp_all add: plain_enc_def)

lemma markers_last: "markers (Suc k) = markers k @ sync_tail"
  by (induction k) simp_all

lemma plain_inflates:
  assumes "length (plain_dec i) < LWS_MAX_ZLIB_CONN_BUFFER"
  shows "produces (plain_step plain_dec) inflate_fatal [] i (\<lambda>d z. d = plain_dec i \<and> z = [])"
  unfolding produces_def
proof (intro exI [of _ "\<lambda>d z j. d @ z @ plain_dec j = plain_dec i"] conjI allI impI)
  fix d z j and r :: nat
  assume P: "d @ z @ plain_dec j = plain_dec i"
  have "length d + length (z @ plain_dec j) < LWS_MAX_ZLIB_CONN_BUFFER"
    using assms by (simp only: flip: P length_append)
  then show "case plain_step plain_dec z j r of (st, used, o', z') \<Rightarrow> \<not> inflate_fatal st \<and> length o' \<le> r \<and>
      length (d @ o') < LWS_MAX_ZLIB_CONN_BUFFER \<and> (if length o' = r then (d @ o') @ z' @ plain_dec (drop used j) = plain_dec i
        else d @ o' = plain_dec i \<and> z' = [])"
    using P by (cases "length (z @ plain_dec j) < r") (auto simp: plain_step_def inflate_fatal_def simp del: take_append drop_append)
qed simp

text \<open>A call after the first takes eight bytes or more from the stream and adds four.\<close>

lemma plain_deflates:
  assumes x: "length x \<le> 1000"
  shows "produces (plain_step (\<lambda>i. plain_enc i @ sync_tail)) (\<lambda>st. st = Z_STREAM_ERROR) [] x
    (\<lambda>d z. \<exists>k. z = [] \<and> d = (plain_enc x @ markers k) @ sync_tail)"
  unfolding produces_def
proof (intro exI [of _ "\<lambda>d z i. (d = [] \<and> z = [] \<and> i = x) \<or>
      (i = [] \<and> (\<exists>k. d @ z = plain_enc x @ markers k \<and> length z + 4 * k \<le> 2 * length x))"] conjI allI impI)
  fix d z i and r :: nat
  assume r: "8 \<le> r"
  assume "(d = [] \<and> z = [] \<and> i = x) \<or> (i = [] \<and> (\<exists>k. d @ z = plain_enc x @ markers k \<and> length z + 4 * k \<le> 2 * length x))"
  then obtain k where k: "d @ z @ plain_enc i = plain_enc x @ markers k" "length (z @ plain_enc i) + 4 * k \<le> 2 * length x"
    by (elim disjE conjE exE) (rule that [of 0], simp_all add: plain_enc_length, auto simp: plain_enc_def)
  let ?o = "z @ plain_enc i @ sync_tail"
  have all: "d @ ?o = plain_enc x @ markers (Suc k)" using arg_cong [OF k(1), of "\<lambda>l. l @ sync_tail"] unfolding markers_last append_assoc .
  have "length (markers k) = 4 * k" by (induction k) simp_all
  then have len: "length (d @ z @ plain_enc i) = 2 * length x + 4 * k" unfolding k(1) by (simp add: plain_enc_length)
  show "case plain_step (\<lambda>i. plain_enc i @ sync_tail) z i r of (st, used, o', z') \<Rightarrow> st \<noteq> Z_STREAM_ERROR \<and> length o' \<le> r \<and>
      length (d @ o') < LWS_MAX_ZLIB_CONN_BUFFER \<and>
      (if length o' = r then (d @ o' = [] \<and> z' = [] \<and> drop used i = x) \<or>
          (drop used i = [] \<and> (\<exists>k. (d @ o') @ z' = plain_enc x @ markers k \<and> length z' + 4 * k \<le> 2 * length x))
       else \<exists>k. z' = [] \<and> d @ o' = (plain_enc x @ markers k) @ sync_tail)"
  proof (cases "length ?o < r")
    case True
    then show ?thesis using all markers_last [of k] len k(2) x by (auto simp: plain_step_def)
  next
    case False
    have "(d @ take r ?o) @ drop r ?o = plain_enc x @ markers (Suc k)"
      unfolding append_assoc append_take_drop_id by (rule all)
    moreover have "length (drop r ?o) + 4 * Suc k \<le> 2 * length x"
      using k(2) r False unfolding length_drop length_append by simp
    ultimately have ex: "\<exists>k. (d @ take r ?o) @ drop r ?o = plain_enc x @ markers k \<and> length (drop r ?o) + 4 * k \<le> 2 * length x" by (intro exI conjI)
    have step: "plain_step (\<lambda>i. plain_enc i @ sync_tail) z i r = (Z_OK, length i, take r ?o, drop r ?o)" by (simp add: plain_step_def)
    have l: "length (take r ?o) = r" using False by simp
    have "length (d @ take r ?o) \<le> length (d @ ?o)" by simp
    then have "length (d @ take r ?o) < LWS_MAX_ZLIB_CONN_BUFFER" using len k(2) x by simp
    then show ?thesis using ex unfolding step prod.case l by (simp only: refl if_True drop_all order_refl z_status.distinct simp_thms)
  qed
qed simp

lemma plain_pair: "zlib_pair plain_zlib 1000 (\<lambda>zo zi. zo = [] \<and> zi = [])"
  unfolding zlib_pair_def
proof (intro allI impI)
  fix zo zi x :: bytes
  assume z: "zo = [] \<and> zi = []" and x: "length x \<le> 1000"
  have dec: "produces (plain_step plain_dec) inflate_fatal [] ((plain_enc x @ markers k) @ sync_tail) (\<lambda>d z. d = x \<and> z = [])" for k
    using plain_inflates [of "plain_enc x @ markers (Suc k)"] x unfolding plain_dec_enc unfolding markers_last append_assoc by simp
  have "(\<lambda>d z. \<exists>k. z = [] \<and> d = (plain_enc x @ markers k) @ sync_tail) \<le> (\<lambda>d zo'. \<exists>y. d = y @ sync_tail \<and>
       produces (plain_step plain_dec) inflate_fatal [] (y @ sync_tail) (\<lambda>d' zi'. d' = x \<and> zo' = [] \<and> zi' = []))"
    by (intro le_funI le_boolI, elim exE conjE, intro exI conjI, assumption) (use dec in simp)
  from produces_mono [OF plain_deflates [OF x] this] show "produces (deflate plain_zlib Z_SYNC_FLUSH) (\<lambda>st. st = Z_STREAM_ERROR) zo x (\<lambda>d zo'. \<exists>y. d = y @ sync_tail \<and>
       produces (inflate plain_zlib Z_SYNC_FLUSH) inflate_fatal zi (y @ sync_tail) (\<lambda>d' zi'. d' = x \<and> zo' = [] \<and> zi' = []))"
    using z by (simp add: plain_zlib_def)
qed

text \<open>The first byte of a frame arrives on its own.\<close>

definition demo_token :: "bytes \<Rightarrow> tokens" where
  "demo_token d = \<lparr>tok_mem = d @ replicate 4 0, tok_off = 0, tok_len = length d, tok_own = False\<rparr>"

definition demo_parts :: "bytes \<Rightarrow> tokens list" where
  "demo_parts y = (if length y < 2 then [demo_token y] else [demo_token (take 1 y), demo_token (drop 1 y)])"

lemma demo_splits: "splits demo_parts"
  by (auto simp: splits_def demo_parts_def demo_token_def tok_bytes_def tok_padded_def)

definition demo_deflate :: "bytes deflate_frame_conn" where
  "demo_deflate = snd (deflate_frame_construct plain_zlib False \<lparr>zs_in = [], zs_out = [], buf_pre_used = 0, buf_pre_length = 0,
     buf_in_length = 0, buf_out_length = 0, compressed_out = False, buf_pre = None, buf_in = None, buf_out = None, df_mallocs = []\<rparr>)"

lemma demo_deflate_idle: "idle demo_deflate" "zs_in demo_deflate = []" "zs_out demo_deflate = []"
proof -
  let ?c = "\<lparr>zs_in = [], zs_out = [], buf_pre_used = 0, buf_pre_length = 0, buf_in_length = 0, buf_out_length = 0, compressed_out = False,
     buf_pre = None, buf_in = None, buf_out = None, df_mallocs = []\<rparr> :: bytes deflate_frame_conn"
  have "deflate_frame_construct plain_zlib False ?c = (0, demo_deflate)"
    by (simp add: demo_deflate_def deflate_frame_construct_def df_malloc_def plain_zlib_def)
  from constructed_idle [OF this] show "idle demo_deflate" "zs_in demo_deflate = []" "zs_out demo_deflate = []"
    by (simp_all add: plain_zlib_def)
qed

lemma deflate_frame_roundtrip_witness:
  "\<exists>a b. talk plain_zlib demo_parts demo_deflate demo_deflate [str ''hello'', str ''world of tunnels''] =
     Some ([str ''hello'', str ''world of tunnels''], a, b)"
proof -
  have "\<forall>x \<in> set [str ''hello'', str ''world of tunnels'']. x \<noteq> [] \<and> length x \<le> 1000" by (simp add: str_def)
  from deflate_frame_roundtrip [OF plain_pair demo_splits demo_deflate_idle(1) demo_deflate_idle(1) _ this] show ?thesis
    using demo_deflate_idle by auto
qed

end
