(* ===== verification/Spec2Isabelle.thy ===== *)
theory Spec2Isabelle
  imports Base64 Sha1 Lextable Header_Parser Uri_Path Ws_Conn Output Ws_Rx Ws_Frames Ws_Control Kernel_List Tea
    Tunnel_Service Poll_Table Tunnel_Contexts Tunnel_Pool Tunnel_Messages Tunnel_Queues
    Header_Lines Session Session_Server Session_Client Session_Http Service Fd_Table Context_Facts Connect Client_Connect Handshake Deflate Deflate_Facts
begin

text \<open>
  A model of web-tunnel, a C program that keeps a websocket to a remote server and carries HTTP requests,
  management connections and plain TCP connections over it to local services, with the websocket library it
  is built on (\<open>src/libwebsockets/lib\<close>) and the tunnel itself (\<open>src/libwebsockets/test-server\<close>:
  \<open>http_client.c\<close>, \<open>list.h\<close>, \<open>web-tunnel.c\<close>).

  \<^bold>\<open>Parts and theories.\<close>
  \<^item> \<open>Prelude\<close>: C integers at their width, byte order, array accesses that are \<open>None\<close> outside the array, runs of
    steps and the locale \<open>simulation\<close> (an implementation follows its specification step by step).
  \<^item> \<open>Base64\<close>, \<open>Sha1\<close>: \<open>base64-decode.c\<close> (the encoder) and \<open>sha-1.c\<close>, used by the handshake. Against RFC 4648
    and FIPS 180.
  \<^item> \<open>Lextable\<close>, \<open>Header_Parser\<close>, \<open>Uri_Path\<close>: \<open>lextable.h\<close>, the token set of \<open>minilex.c\<close> and the HTTP header
    parser of \<open>parsers.c\<close>: the lexer accepts exactly the token set, no header input leaves the header store
    as long as its question marks find room in it (those of a header value need not, a finding), lines come back from
    the store, and the paths of GET requests are free of empty and dot segments.
  \<^item> \<open>Ws_Conn\<close>, \<open>Output\<close>: the state of a connection (\<open>private-libwebsockets.h\<close>), \<open>libwebsocket_write\<close> down to
    \<open>send\<close> with truncated sends, and the \<open>POLLOUT\<close> event (\<open>output.c\<close>, \<open>libwebsockets.c\<close>). A write fails exactly
    when the system does (\<open>send_fails\<close>).
  \<^item> \<open>Ws_Rx\<close>, \<open>Ws_Frames\<close>, \<open>Ws_Control\<close>: the receive state machines of the server and the client
    (\<open>parsers.c\<close>, \<open>client-parser.c\<close>). The locales \<open>frame_receiver\<close> and \<open>message_receiver\<close> state what both
    promise; messages written on one side arrive on the other, in order, however the wire is cut.
  \<^item> \<open>Session\<close>, \<open>Session_Server\<close>, \<open>Session_Client\<close>: a connection before it is a websocket and when it ends: descriptor
    table and closing (\<open>libwebsockets.c\<close>), \<open>libwebsocket_read\<close> (\<open>handshake.c\<close>), \<open>handshake_0405\<close>
    (\<open>server-handshake.c\<close>), the client's request and its reading of the answer (\<open>client.c\<close>).
  \<^item> \<open>Session_Http\<close>, \<open>Service\<close>: error responses and the serving of files (\<open>server.c\<close>, \<open>output.c\<close>), then the library
    context: accepting and connecting, the service of one socket and of all of them, timeouts, tables and the
    end of the context (\<open>libwebsockets.c\<close>, \<open>server.c\<close>, \<open>client.c\<close>, \<open>client-handshake.c\<close>).
  \<^item> \<open>Fd_Table\<close>, \<open>Context_Facts\<close>, \<open>Connect\<close>, \<open>Client_Connect\<close>: the facts on the context. The descriptor table is a
    finite map under every sequence of its operations; destroying a context ends and leaves no connection; the timeout
    check closes only what has expired, but does not see the connection it moves. What is accepted is a server at its
    start; a connect on which nothing fails has sent its request when it returns; a host name that is not found the second
    time, or a first \<open>send\<close> that fails, leaves a freed connection in use.
  \<^item> \<open>Header_Lines\<close>, \<open>Handshake_Request\<close>, \<open>Handshake_Server\<close>, \<open>Handshake_Client\<close>, \<open>Handshake\<close>: sections of header
    lines in the store, the texts of request and response, and the two sides of the handshake put together.
  \<^item> \<open>Deflate\<close>, \<open>Deflate_Facts\<close>: the two extensions of the library (\<open>extension-deflate-frame.c\<close>,
    \<open>extension-deflate-stream.c\<close>) over any zlib that keeps its contract: messages pass the deflate-frame extension
    unchanged, however their frames are cut. The contract leaves open how what \<open>deflate\<close> writes depends on the room it is
    given (\<open>zlib.h\<close>: flush markers are repeated); it fixes that the other stream reads what came out with the rooms of the
    extension's buffer, 8 bytes and doubling up to 64 KB.
  \<^item> \<open>Kernel_List\<close>: the pointer lists of \<open>list.h\<close> over a heap; every sequence of calls does to the pointers what
    it does to sequences. The tunnel's theories work with the sequences.
  \<^item> \<open>Tea\<close>: the cipher of the management connections.
  \<^item> \<open>Tunnel_State\<close>, \<open>Tunnel_Http\<close>, \<open>Tunnel_Tcp\<close>, \<open>Tunnel_Forward\<close>, \<open>Tunnel_Service\<close>: \<open>http_client.c\<close> in the order
    of its parts: state, poll table, pools and the queue to the server; the coroutine of an HTTP request with
    the removal of the chunked coding, ready lists and timeouts; the management server; forwarded
    connections; messages, poll events and the callbacks of \<open>web-tunnel.c\<close>.
  \<^item> \<open>Poll_Table\<close>, \<open>Tunnel_Contexts\<close>, \<open>Tunnel_Pool\<close>: the facts on the tunnel. The poll table is a finite map; the
    timeout list is sorted and exactly the expired requests are released; buffers and contexts are on one
    list at most (locale \<open>node_lists\<close>).
  \<^item> \<open>Tunnel_Messages\<close>, \<open>Tunnel_Queues\<close>: the streams of the tunnel. A message of the server is collected whole
    however it is cut behind its header, data for a forwarded connection is appended to its queue, and the two loops that write a
    queue to a descriptor (locale \<open>draining\<close>) take every byte once and in order whatever the system answers.

  \<^bold>\<open>State.\<close> A connection is a record with the fields of \<open>struct libwebsocket\<close> its theories use; the tunnel is
  the record \<open>mgmt\<close>, with buffers, contexts, clients and forwarded connections numbered in place of pointers.
  Callbacks, extensions and \<open>send\<close> of a connection are parameters of its configuration; the answers of the
  operating system to the tunnel are a sequence in its state, and what it asks is logged. \<open>None\<close> stands for
  what C leaves undefined: an access outside an array, a dereference of \<open>NULL\<close>, a list operation that
  corrupts a list, a failed \<open>assert\<close>, and a loop that does not end (\<open>partial_function (option)\<close>). There is
  no fuel but in \<open>list_walk\<close>, where one more than the number of entries is enough.
  Coroutines keep the number of the \<open>ccrReturn\<close> they stopped at.

  \<^bold>\<open>Not modelled.\<close> Printing and logging; option parsing, \<open>daemonize\<close> and the poll loop of \<open>main\<close>; TLS; set-up that
  only calls the system (socket options, interfaces, privileges); zlib, a parameter of the extensions;
  cJSON; the test programs. The host is little-endian.
\<close>

end
